(* ===== verification/Prelude.thy ===== *)
theory Prelude
  imports Main "HOL-Library.Sublist" "HOL-Library.Char_ord" "HOL-Library.List_Lexorder"
begin

section \<open>Prelude: the parts of Python the components share\<close>

text \<open>
  Text, dynamic values and the generic proof interfaces used by every component.
  A Python string is a \<^typ>\<open>string\<close>; a character stands for one code point, and the
  model covers code points below 128 (case mapping and white space are those of ASCII,
  with the four separators 28 to 31 that \<open>str.strip\<close> also removes); where a single code point above
  that decides, as U+0085 for \<open>str.splitlines\<close>, the definition names it. A value read from a
  JSON file is a \<^theory_text>\<open>py\<close>; an exception is an \<^theory_text>\<open>Inl\<close>.
\<close>

named_theorems inv_intros \<open>introduction rules for the invariants of the components\<close>
named_theorems text_simps \<open>rewrite rules for the text operations\<close>

subsection \<open>Characters and strings\<close>

definition is_space :: "char \<Rightarrow> bool" where
  "is_space c \<longleftrightarrow>
     (let n = (of_char c :: nat) in (9 \<le> n \<and> n \<le> 13) \<or> (28 \<le> n \<and> n \<le> 32))"

definition is_digit :: "char \<Rightarrow> bool" where
  "is_digit c \<longleftrightarrow> (let n = (of_char c :: nat) in 48 \<le> n \<and> n \<le> 57)"

definition is_upper :: "char \<Rightarrow> bool" where
  "is_upper c \<longleftrightarrow> (let n = (of_char c :: nat) in 65 \<le> n \<and> n \<le> 90)"

definition is_lower :: "char \<Rightarrow> bool" where
  "is_lower c \<longleftrightarrow> (let n = (of_char c :: nat) in 97 \<le> n \<and> n \<le> 122)"

definition is_word_char :: "char \<Rightarrow> bool" where
  "is_word_char c \<longleftrightarrow> is_digit c \<or> is_upper c \<or> is_lower c \<or> c = CHR ''_''"

definition char_lower :: "char \<Rightarrow> char" where
  "char_lower c = (if is_upper c then char_of (of_char c + (32 :: nat)) else c)"

definition char_upper :: "char \<Rightarrow> char" where
  "char_upper c = (if is_lower c then char_of (of_char c - (32 :: nat)) else c)"

definition lower :: "string \<Rightarrow> string" where
  "lower s = map char_lower s"

definition upper :: "string \<Rightarrow> string" where
  "upper s = map char_upper s"

definition lstrip_by :: "(char \<Rightarrow> bool) \<Rightarrow> string \<Rightarrow> string" where
  "lstrip_by p s = dropWhile p s"

definition rstrip_by :: "(char \<Rightarrow> bool) \<Rightarrow> string \<Rightarrow> string" where
  "rstrip_by p s = rev (dropWhile p (rev s))"

definition strip :: "string \<Rightarrow> string" where
  "strip s = rstrip_by is_space (lstrip_by is_space s)"

abbreviation startswith :: "string \<Rightarrow> string \<Rightarrow> bool" where
  "startswith s p \<equiv> prefix p s"

abbreviation endswith :: "string \<Rightarrow> string \<Rightarrow> bool" where
  "endswith s p \<equiv> suffix p s"

abbreviation occurs_in :: "string \<Rightarrow> string \<Rightarrow> bool" where
  "occurs_in sub s \<equiv> sublist sub s"

definition replace_char :: "char \<Rightarrow> char \<Rightarrow> string \<Rightarrow> string" where
  "replace_char a b s = map (\<lambda>c. if c = a then b else c) s"

fun split_on :: "char \<Rightarrow> string \<Rightarrow> string list" where
  "split_on sep [] = [[]]"
| "split_on sep (c # cs) =
     (if c = sep then [] # split_on sep cs
      else (case split_on sep cs of [] \<Rightarrow> [[c]] | w # ws \<Rightarrow> (c # w) # ws))"

fun join :: "string \<Rightarrow> string list \<Rightarrow> string" where
  "join sep [] = []"
| "join sep [w] = w"
| "join sep (w # v # ws) = w @ sep @ join sep (v # ws)"

lemma lstrip_by_nil [simp]: "lstrip_by p [] = []"
  by (simp add: lstrip_by_def)

lemma rstrip_by_nil [simp]: "rstrip_by p [] = []"
  by (simp add: rstrip_by_def)

lemma rstrip_by_last: "rstrip_by p s \<noteq> [] \<Longrightarrow> \<not> p (last (rstrip_by p s))"
  using hd_dropWhile [of p "rev s"] by (simp add: rstrip_by_def last_rev)

lemma lstrip_by_hd: "lstrip_by p s \<noteq> [] \<Longrightarrow> \<not> p (hd (lstrip_by p s))"
  unfolding lstrip_by_def by (rule hd_dropWhile)

lemma rstrip_by_snoc: "rstrip_by p (xs @ [x]) = (if p x then rstrip_by p xs else xs @ [x])"
  by (simp add: rstrip_by_def)

lemma rstrip_by_id: "xs = [] \<or> \<not> p (last xs) \<Longrightarrow> rstrip_by p xs = xs"
  by (cases xs rule: rev_cases) (auto simp: rstrip_by_snoc)

lemma lstrip_by_id: "xs = [] \<or> \<not> p (hd xs) \<Longrightarrow> lstrip_by p xs = xs"
  by (cases xs) (auto simp: lstrip_by_def)

lemma rstrip_by_prefix: "prefix (rstrip_by p xs) xs"
proof -
  have "suffix (dropWhile p (rev xs)) (rev xs)"
    by (rule suffix_dropWhile)
  then show ?thesis by (simp add: rstrip_by_def suffix_to_prefix)
qed

lemma strip_nil [simp]: "strip [] = []"
  by (simp add: strip_def)

lemma strip_id: "s = [] \<or> (\<not> is_space (hd s) \<and> \<not> is_space (last s)) \<Longrightarrow> strip s = s"
  by (auto simp: strip_def rstrip_by_id lstrip_by_id)

lemma strip_ends: "strip s \<noteq> [] \<Longrightarrow> \<not> is_space (hd (strip s)) \<and> \<not> is_space (last (strip s))"
proof -
  assume ne: "strip s \<noteq> []"
  let ?l = "lstrip_by is_space s"
  have pre: "prefix (strip s) ?l" by (simp add: strip_def rstrip_by_prefix)
  from ne pre have "hd (strip s) = hd ?l" and "?l \<noteq> []"
    by (auto simp: prefix_def)
  with lstrip_by_hd [of is_space s] have "\<not> is_space (hd (strip s))" by simp
  moreover from ne have "\<not> is_space (last (strip s))"
    unfolding strip_def by (rule rstrip_by_last)
  ultimately show ?thesis ..
qed

lemma strip_idem [simp]: "strip (strip s) = strip s"
  using strip_ends [of s] by (cases "strip s = []") (simp_all add: strip_id)

lemma length_replace_char [simp]: "length (replace_char a b s) = length s"
  by (simp add: replace_char_def)

lemma replace_char_absent: "a \<notin> set s \<Longrightarrow> replace_char a b s = s"
  unfolding replace_char_def by (rule map_idI) auto

lemma replace_char_nil [simp]: "replace_char a b s = [] \<longleftrightarrow> s = []"
  by (simp add: replace_char_def)

lemma replace_char_gone: "a \<noteq> b \<Longrightarrow> a \<notin> set (replace_char a b s)"
  by (auto simp: replace_char_def)

lemma split_on_nonempty [simp]: "split_on sep s \<noteq> []"
  by (induction s) (auto split: list.splits)

lemma join_split_on: "join [sep] (split_on sep s) = s"
proof (induction s)
  case Nil
  then show ?case by simp
next
  case (Cons c cs)
  obtain w ws where ws: "split_on sep cs = w # ws"
    by (cases "split_on sep cs") simp_all
  with Cons show ?case by (cases ws) auto
qed

lemma split_on_no_sep: "w \<in> set (split_on sep s) \<Longrightarrow> sep \<notin> set w"
proof (induction s arbitrary: w)
  case Nil
  then show ?case by simp
next
  case (Cons c cs)
  then show ?case by (fastforce split: list.splits if_splits)
qed

subsection \<open>Regular expressions and lines\<close>

text \<open>\<open>\bverb\b\<close> for a text that begins and ends with a word character.\<close>

definition ends_word :: "string \<Rightarrow> bool" where
  "ends_word s \<longleftrightarrow> s = [] \<or> \<not> is_word_char (hd s)"

fun word_search :: "string \<Rightarrow> bool \<Rightarrow> string \<Rightarrow> bool" where
  "word_search w prev [] = False"
| "word_search w prev (c # cs) =
     ((\<not> prev \<and> startswith (c # cs) w \<and> ends_word (drop (length w) (c # cs))) \<or>
      word_search w (is_word_char c) cs)"

text \<open>\<open>re.split\<close> with a matcher that gives what follows a match at the front.\<close>

function re_split :: "(string \<Rightarrow> string option) \<Rightarrow> string \<Rightarrow> string \<Rightarrow> string list" where
  "re_split m acc [] = [acc]"
| "re_split m acc (c # cs) =
     (case m (c # cs) of
        Some rest \<Rightarrow>
          if length rest \<le> length cs then acc # re_split m [] rest else re_split m (acc @ [c]) cs
      | None \<Rightarrow> re_split m (acc @ [c]) cs)"
  by pat_completeness auto
termination by (relation "measure (\<lambda>(m, acc, s). length s)") auto

text \<open>The line breaks of \<open>str.splitlines\<close>; U+0085 is the one outside ASCII below 256.\<close>

definition line_break :: "char \<Rightarrow> bool" where
  "line_break c \<longleftrightarrow> (let n = (of_char c :: nat) in (10 \<le> n \<and> n \<le> 13) \<or> (28 \<le> n \<and> n \<le> 30) \<or> n = 133)"

text \<open>\<open>text.splitlines()\<close>, with the line read so far.\<close>

fun splitlines :: "string \<Rightarrow> string \<Rightarrow> string list" where
  "splitlines acc [] = (if acc = [] then [] else [acc])"
| "splitlines acc (c # cs) =
     (if line_break c then
        acc # splitlines [] (if c = CHR 0x0D \<and> cs \<noteq> [] \<and> hd cs = CHR 0x0A then tl cs else cs)
      else splitlines (acc @ [c]) cs)"

text \<open>\<open>re.sub(r"\s+", " ", s)\<close>, with the last character read being a space or not.\<close>

fun squeeze_ws :: "bool \<Rightarrow> string \<Rightarrow> string" where
  "squeeze_ws inside [] = []"
| "squeeze_ws inside (c # cs) =
     (if is_space c then (if inside then squeeze_ws True cs else CHR '' '' # squeeze_ws True cs)
      else c # squeeze_ws False cs)"

subsection \<open>Decimal numerals: \<open>str(n)\<close> and \<open>int(s)\<close>\<close>

definition digit_val :: "char \<Rightarrow> nat" where
  "digit_val c = of_char c - 48"

definition digit_char :: "nat \<Rightarrow> char" where
  "digit_char d = char_of (48 + d)"

fun nat_str :: "nat \<Rightarrow> string" where
  "nat_str n = (if n < 10 then [digit_char n] else nat_str (n div 10) @ [digit_char (n mod 10)])"

declare nat_str.simps [simp del]

definition int_str :: "int \<Rightarrow> string" where
  "int_str i = (if i < 0 then CHR ''-'' # nat_str (nat (- i)) else nat_str (nat i))"

fun int_tail :: "nat \<Rightarrow> string \<Rightarrow> nat option" where
  "int_tail acc [] = Some acc"
| "int_tail acc (c # cs) =
     (if is_digit c then int_tail (10 * acc + digit_val c) cs
      else if c = CHR ''_'' then
        (case cs of
           [] \<Rightarrow> None
         | d # ds \<Rightarrow> if is_digit d then int_tail (10 * acc + digit_val d) ds else None)
      else None)"

definition int_body :: "string \<Rightarrow> nat option" where
  "int_body s = (case s of [] \<Rightarrow> None | c # cs \<Rightarrow> if is_digit c then int_tail (digit_val c) cs else None)"

text \<open>
  \<open>int(text)\<close>: white space around an optional sign and digits with single underscores
  between them; \<open>None\<close> is \<open>ValueError\<close>, also for more than 4300 digits.
\<close>

definition py_int :: "string \<Rightarrow> int option" where
  "py_int s =
     (if 4300 < length (filter is_digit s) then None
      else (case strip s of
              [] \<Rightarrow> None
            | c # cs \<Rightarrow>
                if c = CHR ''-'' then map_option (\<lambda>n. - int n) (int_body cs)
                else if c = CHR ''+'' then map_option int (int_body cs)
                else map_option int (int_body (c # cs))))"

lemma is_digit_digit_char [simp]: "d < 10 \<Longrightarrow> is_digit (digit_char d)"
  by (simp add: is_digit_def digit_char_def of_char_of)

lemma digit_val_digit_char [simp]: "d < 10 \<Longrightarrow> digit_val (digit_char d) = d"
  by (simp add: digit_val_def digit_char_def of_char_of)

lemma is_digit_no_space: "is_digit c \<Longrightarrow> \<not> is_space c"
  by (auto simp: is_digit_def is_space_def Let_def)

lemma nat_str_nonempty [simp]: "nat_str n \<noteq> []"
  by (subst nat_str.simps) simp

lemma nat_str_digits: "c \<in> set (nat_str n) \<Longrightarrow> is_digit c"
proof (induction n rule: nat_str.induct)
  case (1 n)
  then show ?case by (cases "n < 10") (auto simp: nat_str.simps [of n])
qed

lemma int_tail_append:
  "(\<And>c. c \<in> set xs \<Longrightarrow> is_digit c) \<Longrightarrow>
   int_tail acc (xs @ ys) = (case int_tail acc xs of None \<Rightarrow> None | Some n \<Rightarrow> int_tail n ys)"
  by (induction xs arbitrary: acc) auto

lemma int_body_snoc:
  assumes "xs \<noteq> []" and "\<And>c. c \<in> set xs \<Longrightarrow> is_digit c"
  shows "int_body (xs @ ys) = (case int_body xs of None \<Rightarrow> None | Some n \<Rightarrow> int_tail n ys)"
  using assms by (cases xs) (auto simp: int_body_def int_tail_append)

lemma int_body_nat_str: "int_body (nat_str n) = Some n"
proof (induction n rule: nat_str.induct)
  case (1 n)
  show ?case
  proof (cases "n < 10")
    case True
    then show ?thesis by (simp add: nat_str.simps [of n] int_body_def)
  next
    case False
    with 1 have "int_body (nat_str (n div 10)) = Some (n div 10)" by simp
    with False show ?thesis
      by (simp add: nat_str.simps [of n] int_body_snoc nat_str_digits)
  qed
qed

lemma strip_nat_str [simp]: "strip (nat_str n) = nat_str n"
proof (rule strip_id)
  have "is_digit (hd (nat_str n))" and "is_digit (last (nat_str n))"
    by (rule nat_str_digits [of _ n], simp)+
  then show "nat_str n = [] \<or> \<not> is_space (hd (nat_str n)) \<and> \<not> is_space (last (nat_str n))"
    by (simp add: is_digit_no_space)
qed

lemma filter_nat_str [simp]: "filter is_digit (nat_str n) = nat_str n"
  by (simp add: filter_id_conv nat_str_digits)

lemma py_int_nat_str:
  assumes "length (nat_str n) \<le> 4300"
  shows "py_int (nat_str n) = Some (int n)"
proof -
  obtain c cs where s: "nat_str n = c # cs" by (cases "nat_str n") simp_all
  then have d: "is_digit c" by (metis list.set_intros(1) nat_str_digits)
  then have ne: "c \<noteq> CHR ''-''" "c \<noteq> CHR ''+''" by (auto simp: is_digit_def)
  have "py_int (nat_str n) = map_option int (int_body (nat_str n))"
    using assms ne by (simp add: py_int_def s [symmetric] del: filter.simps) (simp add: s)
  then show ?thesis by (simp add: int_body_nat_str)
qed

subsection \<open>Dynamic values\<close>

text \<open>
  The values \<open>json.loads\<close> returns. Numbers are integers; the files the components read
  hold no other. A dictionary is an association list in insertion order, the first entry of
  a key the one that counts.
\<close>

datatype py =
    PNone
  | PBool bool
  | PInt int
  | PStr string
  | PList "py list"
  | PDict "(string \<times> py) list"

fun truthy :: "py \<Rightarrow> bool" where
  "truthy PNone = False"
| "truthy (PBool b) = b"
| "truthy (PInt i) = (i \<noteq> 0)"
| "truthy (PStr s) = (s \<noteq> [])"
| "truthy (PList xs) = (xs \<noteq> [])"
| "truthy (PDict kvs) = (kvs \<noteq> [])"

definition dict_get :: "(string \<times> 'v) list \<Rightarrow> string \<Rightarrow> 'v option" where
  "dict_get d k = map_of d k"

fun dict_set :: "(string \<times> 'v) list \<Rightarrow> string \<Rightarrow> 'v \<Rightarrow> (string \<times> 'v) list" where
  "dict_set [] k v = [(k, v)]"
| "dict_set ((k', v') # d) k v = (if k' = k then (k, v) # d else (k', v') # dict_set d k v)"

definition dict_del :: "(string \<times> 'v) list \<Rightarrow> string \<Rightarrow> (string \<times> 'v) list" where
  "dict_del d k = filter (\<lambda>kv. fst kv \<noteq> k) d"

lemma dict_get_set [simp]:
  "dict_get (dict_set d k v) k' = (if k' = k then Some v else dict_get d k')"
  by (induction d k v rule: dict_set.induct) (auto simp: dict_get_def)

lemma dict_get_del [simp]: "dict_get (dict_del d k) k' = (if k' = k then None else dict_get d k')"
  by (induction d) (auto simp: dict_get_def dict_del_def)

lemma dict_set_keyset: "fst ` set (dict_set d k v) = insert k (fst ` set d)"
  by (induction d k v rule: dict_set.induct) auto

lemma dict_set_distinct: "distinct (map fst d) \<Longrightarrow> distinct (map fst (dict_set d k v))"
  by (induction d k v rule: dict_set.induct) (auto simp: dict_set_keyset)

lemma dict_get_empty [simp]: "dict_get [] k = None"
  by (simp add: dict_get_def)

lemma map_of_eq_dict_get: "map_of d k = dict_get d k"
  by (simp add: dict_get_def)

lemma py_of_dict_size: "kv \<in> set d \<Longrightarrow> size (snd kv) < size (PDict d)"
proof (induction d)
  case Nil
  then show ?case by simp
next
  case (Cons x d)
  then show ?case by (cases x) auto
qed

lemma py_of_list_size: "x \<in> set xs \<Longrightarrow> size x < size (PList xs)"
  by (induction xs) auto

text \<open>\<open>repr\<close> and \<open>str\<close> of the values, for ASCII text.\<close>

definition hex_digit :: "nat \<Rightarrow> char" where
  "hex_digit d = (if d < 10 then char_of (48 + d) else char_of (87 + d))"

definition repr_char :: "char \<Rightarrow> char \<Rightarrow> string" where
  "repr_char q c =
     (let n = (of_char c :: nat) in
      if c = q \<or> n = 92 then [CHR 0x5C, c]
      else if n = 9 then [CHR 0x5C, CHR ''t'']
      else if n = 10 then [CHR 0x5C, CHR ''n'']
      else if n = 13 then [CHR 0x5C, CHR ''r'']
      else if n < 32 \<or> n = 127 then [CHR 0x5C, CHR ''x'', hex_digit (n div 16), hex_digit (n mod 16)]
      else [c])"

definition repr_str :: "string \<Rightarrow> string" where
  "repr_str s =
     (let q = (if CHR 0x27 \<in> set s \<and> CHR 0x22 \<notin> set s then CHR 0x22 else CHR 0x27)
      in q # concat (map (repr_char q) s) @ [q])"

fun py_repr :: "py \<Rightarrow> string" where
  "py_repr PNone = ''None''"
| "py_repr (PBool b) = (if b then ''True'' else ''False'')"
| "py_repr (PInt i) = int_str i"
| "py_repr (PStr s) = repr_str s"
| "py_repr (PList xs) = ''['' @ join '', '' (map py_repr xs) @ '']''"
| "py_repr (PDict kvs) =
     ''{'' @ join '', '' (map (\<lambda>kv. repr_str (fst kv) @ '': '' @ py_repr (snd kv)) kvs) @ ''}''"

fun py_str :: "py \<Rightarrow> string" where
  "py_str (PStr s) = s"
| "py_str v = py_repr v"

text \<open>\<open>==\<close> of two values: dictionaries compare as maps, and a boolean equals its integer.\<close>

fun py_num :: "py \<Rightarrow> int option" where
  "py_num (PBool b) = Some (if b then 1 else 0)"
| "py_num (PInt i) = Some i"
| "py_num _ = None"

function py_eq :: "py \<Rightarrow> py \<Rightarrow> bool" where
  "py_eq PNone w = (w = PNone)"
| "py_eq (PBool b) w = (py_num w = Some (if b then 1 else 0))"
| "py_eq (PInt i) w = (py_num w = Some i)"
| "py_eq (PStr s) w = (w = PStr s)"
| "py_eq (PList xs) w =
     (case w of
        PList ys \<Rightarrow> length xs = length ys \<and> (\<forall>p \<in> set (zip xs ys). py_eq (fst p) (snd p))
      | _ \<Rightarrow> False)"
| "py_eq (PDict d) w =
     (case w of
        PDict e \<Rightarrow>
          length d = length e \<and>
          (\<forall>kv \<in> set d. case dict_get e (fst kv) of None \<Rightarrow> False | Some x \<Rightarrow> py_eq (snd kv) x)
      | _ \<Rightarrow> False)"
  by pat_completeness auto
termination
  by (relation "measure (size \<circ> fst)")
    (auto dest!: py_of_dict_size py_of_list_size set_zip_leftD simp: less_Suc_eq_le)

text \<open>\<open>str(d.get(k, ""))\<close> and \<open>d.get(k)\<close>.\<close>

definition get_str :: "(string \<times> py) list \<Rightarrow> string \<Rightarrow> string" where
  "get_str d k = (case dict_get d k of None \<Rightarrow> [] | Some v \<Rightarrow> py_str v)"

definition get_py :: "(string \<times> py) list \<Rightarrow> string \<Rightarrow> py" where
  "get_py d k = (case dict_get d k of None \<Rightarrow> PNone | Some v \<Rightarrow> v)"

text \<open>The items of a list that may be missing, a text that may be missing, a value with its default.\<close>

definition py_items :: "py \<Rightarrow> py list" where
  "py_items v = (case v of PList xs \<Rightarrow> xs | _ \<Rightarrow> [])"

definition or_empty_str :: "py \<Rightarrow> string" where
  "or_empty_str v = (if truthy v then py_str v else [])"

definition get_or :: "(string \<times> py) list \<Rightarrow> string \<Rightarrow> py \<Rightarrow> py" where
  "get_or d k x = (case dict_get d k of None \<Rightarrow> x | Some v \<Rightarrow> v)"

definition opt_str :: "string option \<Rightarrow> py" where
  "opt_str x = (case x of None \<Rightarrow> PNone | Some s \<Rightarrow> PStr s)"

lemma get_py_set [simp]: "get_py (dict_set d k v) k' = (if k' = k then v else get_py d k')"
  by (simp add: get_py_def)

lemma get_str_set [simp]: "get_str (dict_set d k v) k' = (if k' = k then py_str v else get_str d k')"
  by (simp add: get_str_def)

lemma get_py_cons [simp]: "get_py ((k, v) # d) k' = (if k = k' then v else get_py d k')"
  by (simp add: get_py_def dict_get_def)

lemma get_str_cons [simp]: "get_str ((k, v) # d) k' = (if k = k' then py_str v else get_str d k')"
  by (simp add: get_str_def dict_get_def)

lemma get_py_str: "get_py d k = PStr s \<Longrightarrow> get_str d k = s"
  by (auto simp: get_py_def get_str_def split: option.splits)

text \<open>Iteration over a value: a text gives its characters, a dictionary its keys, and what is not
  iterable raises. \<open>int\<close> and \<open>float\<close> of a value, for whole numbers.\<close>

definition py_iter :: "py \<Rightarrow> py list option" where
  "py_iter v =
     (case v of
        PList xs \<Rightarrow> Some xs
      | PStr s \<Rightarrow> Some (map (\<lambda>c. PStr [c]) s)
      | PDict d \<Rightarrow> Some (map (PStr \<circ> fst) d)
      | _ \<Rightarrow> None)"

definition py_whole :: "py \<Rightarrow> int option" where
  "py_whole v = (case v of PStr s \<Rightarrow> py_int s | _ \<Rightarrow> py_num v)"

text \<open>The content of a JSON file: a value, or text that does not parse.\<close>

datatype json_file = Json py | Garbled

subsection \<open>Results\<close>

text \<open>\<open>and_then\<close> runs the rest of a function after a call that may raise.\<close>

definition and_then :: "'e + 'a \<Rightarrow> ('a \<Rightarrow> 'e + 'b) \<Rightarrow> 'e + 'b" where
  "and_then r f = (case r of Inl e \<Rightarrow> Inl e | Inr x \<Rightarrow> f x)"

lemma and_then_simps [simp]: "and_then (Inl e) f = Inl e" "and_then (Inr x) f = f x"
  by (simp_all add: and_then_def)

lemma and_then_Inr: "and_then r f = Inr y \<longleftrightarrow> (\<exists>x. r = Inr x \<and> f x = Inr y)"
  by (cases r) simp_all

subsection \<open>Interface: a machine that keeps an invariant\<close>

text \<open>
  Several components are a state, a set of operations and an invariant that every
  operation keeps. What follows for whole runs is proved once, here.
\<close>

locale machine =
  fixes step :: "'s \<Rightarrow> 'e \<Rightarrow> 's"
    and inv :: "'s \<Rightarrow> bool"
  assumes step_inv: "inv s \<Longrightarrow> inv (step s e)"
begin

lemma run_inv: "inv s \<Longrightarrow> inv (foldl step s es)"
  by (induction es arbitrary: s) (simp_all add: step_inv)

lemma run_inv_prefix: "inv s \<Longrightarrow> prefix es' es \<Longrightarrow> inv (foldl step s es')"
  by (rule run_inv)

lemma run_stable:
  "(\<And>s e. inv s \<Longrightarrow> P s \<Longrightarrow> e \<in> set es \<Longrightarrow> P (step s e)) \<Longrightarrow> inv s \<Longrightarrow> P s \<Longrightarrow> P (foldl step s es)"
  by (induction es arbitrary: s) (simp_all add: step_inv)

lemma run_frame:
  "(\<And>s e. inv s \<Longrightarrow> e \<in> set es \<Longrightarrow> f (step s e) = f s) \<Longrightarrow> inv s \<Longrightarrow> f (foldl step s es) = f s"
proof (induction es arbitrary: s)
  case Nil
  then show ?case by simp
next
  case (Cons e es)
  have "f (foldl step (step s e) es) = f (step s e)"
    using Cons.prems by (intro Cons.IH) (auto intro: step_inv)
  also have "\<dots> = f s" using Cons.prems by simp
  finally show ?case by simp
qed

end

text \<open>A measure that no operation decreases and some operation increases.\<close>

locale counting_machine = machine +
  fixes count :: "'s \<Rightarrow> nat"
  assumes step_count: "inv s \<Longrightarrow> count s \<le> count (step s e)"
begin

lemma run_count: "inv s \<Longrightarrow> count s \<le> count (foldl step s es)"
proof (induction es arbitrary: s)
  case Nil
  then show ?case by simp
next
  case (Cons e es)
  have "count s \<le> count (step s e)" using Cons.prems by (rule step_count)
  also have "\<dots> \<le> count (foldl step (step s e) es)"
    using Cons.prems by (intro Cons.IH step_inv)
  finally show ?case by simp
qed

end

subsection \<open>Interface: an append-only log\<close>

locale append_log =
  fixes rows :: "'log \<Rightarrow> 'row list"
    and append_row :: "'log \<Rightarrow> 'row \<Rightarrow> 'log"
  assumes rows_append: "rows (append_row l r) = rows l @ [r]"
begin

lemma rows_run: "rows (foldl append_row l rs) = rows l @ rs"
  by (induction rs arbitrary: l) (simp_all add: rows_append)

lemma append_keeps: "i < length (rows l) \<Longrightarrow> rows (foldl append_row l rs) ! i = rows l ! i"
  by (simp add: rows_run nth_append)

lemma history_prefix: "prefix (rows l) (rows (foldl append_row l rs))"
  by (simp add: rows_run)

end

subsection \<open>Interface: a loop that stops by itself\<close>

text \<open>
  A loop whose every round from a state that has not stopped lowers a weight. Whatever the rounds
  bring, it stops before it has run more rounds than the weight it began with.
\<close>

locale converging =
  fixes step :: "'s \<Rightarrow> 'e \<Rightarrow> 's"
    and ok :: "'s \<Rightarrow> bool"
    and fair :: "'e \<Rightarrow> bool"
    and stopped :: "'s \<Rightarrow> bool"
    and weight :: "'s \<Rightarrow> nat"
  assumes step_ok: "ok s \<Longrightarrow> fair e \<Longrightarrow> ok (step s e)"
    and step_weight: "ok s \<Longrightarrow> fair e \<Longrightarrow> \<not> stopped s \<Longrightarrow> weight (step s e) < weight s"
begin

lemma stops: "ok s \<Longrightarrow> list_all fair es \<Longrightarrow> weight s < length es \<Longrightarrow>
    \<exists>k \<le> weight s. stopped (foldl step s (take k es))"
proof (induction es arbitrary: s)
  case Nil
  then show ?case by simp
next
  case (Cons e es)
  show ?case
  proof (cases "stopped s")
    case True
    then show ?thesis by (intro exI [of _ 0]) simp
  next
    case False
    with Cons.prems have w: "weight (step s e) < weight s" "ok (step s e)" by (simp_all add: step_weight step_ok)
    with Cons obtain k where "k \<le> weight (step s e)" "stopped (foldl step (step s e) (take k es))" by force
    with w show ?thesis by (intro exI [of _ "Suc k"]) simp
  qed
qed

end

end
