(* ===== verification/Budgets.thy ===== *)
theory Budgets
  imports Prelude
begin

section \<open>Execution budgets (\<open>product/budgets.py\<close>)\<close>

text \<open>
  Every bounded loop of the delivery takes its bound from here: an explicit value wins, then
  the environment variable, then the default; whatever wins must reach the floor. The
  environment is a map from names to values, \<open>ValueError\<close> an \<^theory_text>\<open>Inl\<close>.
\<close>

type_synonym env = "string \<rightharpoonup> string"

datatype budget_error = ValueError string

type_synonym budget_result = "budget_error + int"

definition budget_floor :: "bool \<Rightarrow> int" where
  "budget_floor allow_zero = (if allow_zero then 0 else 1)"

definition validate_budget :: "int \<Rightarrow> string \<Rightarrow> bool \<Rightarrow> budget_result" where
  "validate_budget value label allow_zero =
     (let floor = (if allow_zero then 0 else 1) in
      if value < floor then
        (if allow_zero then Inl (ValueError (label @ '' must be >= 0''))
         else Inl (ValueError (label @ '' must be >= 1'')))
      else Inr value)"

definition resolve_budget ::
    "env \<Rightarrow> int option \<Rightarrow> string \<Rightarrow> int \<Rightarrow> string \<Rightarrow> bool \<Rightarrow> budget_result" where
  "resolve_budget env value env_name dflt label allow_zero =
     (case value of
        Some v \<Rightarrow> validate_budget v label allow_zero
      | None \<Rightarrow>
          (let raw = strip (case env env_name of None \<Rightarrow> [] | Some s \<Rightarrow> s) in
           if raw = [] then Inr dflt
           else (case py_int raw of
                   None \<Rightarrow> Inl (ValueError (env_name @ '' must be an integer for '' @ label))
                 | Some parsed \<Rightarrow> validate_budget parsed label allow_zero)))"

subsection \<open>The named budgets\<close>

definition DEFAULT_AGENT_LOOP_TOOL_CALL_BUDGET :: int where
  "DEFAULT_AGENT_LOOP_TOOL_CALL_BUDGET = 250"
definition DEFAULT_REPAIR_CYCLE_BUDGET :: int where
  "DEFAULT_REPAIR_CYCLE_BUDGET = 8"
definition DEFAULT_GATE_REWORK_BUDGET :: int where
  "DEFAULT_GATE_REWORK_BUDGET = 8"
definition DEFAULT_GATE_REOPEN_BUDGET :: int where
  "DEFAULT_GATE_REOPEN_BUDGET = 3"
definition DEFAULT_BUILD_IMPLEMENTER_RUNAWAY_GUARD :: int where
  "DEFAULT_BUILD_IMPLEMENTER_RUNAWAY_GUARD = 1000"
definition DEFAULT_BUILD_REVIEWER_TOOL_BUDGET :: int where
  "DEFAULT_BUILD_REVIEWER_TOOL_BUDGET = 100"
definition DEFAULT_BUILD_TASK_STALL_ROUNDS :: int where
  "DEFAULT_BUILD_TASK_STALL_ROUNDS = 3"
definition DEFAULT_BUILD_TASK_FIX_CYCLES :: int where
  "DEFAULT_BUILD_TASK_FIX_CYCLES = 3"
definition DEFAULT_BUILD_MAX_TASKS :: int where
  "DEFAULT_BUILD_MAX_TASKS = 12"
definition DEFAULT_BUILD_FIXER_ERROR_BATCH :: int where
  "DEFAULT_BUILD_FIXER_ERROR_BATCH = 12"
definition DEFAULT_BUILD_TEST_EMBED_CAP :: int where
  "DEFAULT_BUILD_TEST_EMBED_CAP = 100000"
definition DEFAULT_BUILD_DOC_CAP :: int where
  "DEFAULT_BUILD_DOC_CAP = 24000"

definition resolve_agent_loop_tool_budget :: "env \<Rightarrow> int option \<Rightarrow> budget_result" where
  "resolve_agent_loop_tool_budget env value =
     resolve_budget env value ''SIGNALOS_AGENT_LOOP_TOOL_BUDGET''
       DEFAULT_AGENT_LOOP_TOOL_CALL_BUDGET ''agent loop tool-call budget'' False"

definition resolve_repair_cycle_budget :: "env \<Rightarrow> int option \<Rightarrow> budget_result" where
  "resolve_repair_cycle_budget env value =
     resolve_budget env value ''SIGNALOS_AGENT_REPAIR_CYCLE_BUDGET''
       DEFAULT_REPAIR_CYCLE_BUDGET ''repair cycle budget'' True"

definition resolve_gate_rework_budget :: "env \<Rightarrow> int option \<Rightarrow> budget_result" where
  "resolve_gate_rework_budget env value =
     resolve_budget env value ''SIGNALOS_GATE_REWORK_BUDGET''
       DEFAULT_GATE_REWORK_BUDGET ''gate rework budget'' False"

definition resolve_gate_reopen_budget :: "env \<Rightarrow> int option \<Rightarrow> budget_result" where
  "resolve_gate_reopen_budget env value =
     resolve_budget env value ''SIGNALOS_GATE_REOPEN_BUDGET''
       DEFAULT_GATE_REOPEN_BUDGET ''gate reopen budget'' False"

definition resolve_build_implementer_runaway_guard :: "env \<Rightarrow> int option \<Rightarrow> budget_result" where
  "resolve_build_implementer_runaway_guard env value =
     resolve_budget env value ''SIGNALOS_BUILD_IMPLEMENTER_RUNAWAY_GUARD''
       DEFAULT_BUILD_IMPLEMENTER_RUNAWAY_GUARD ''build implementer runaway guard'' False"

definition resolve_build_reviewer_tool_budget :: "env \<Rightarrow> int option \<Rightarrow> budget_result" where
  "resolve_build_reviewer_tool_budget env value =
     resolve_budget env value ''SIGNALOS_BUILD_REVIEWER_TOOL_BUDGET''
       DEFAULT_BUILD_REVIEWER_TOOL_BUDGET ''build reviewer tool budget'' False"

definition resolve_build_task_stall_rounds :: "env \<Rightarrow> int option \<Rightarrow> budget_result" where
  "resolve_build_task_stall_rounds env value =
     resolve_budget env value ''SIGNALOS_BUILD_TASK_STALL_ROUNDS''
       DEFAULT_BUILD_TASK_STALL_ROUNDS ''build per-task stall rounds'' False"

definition resolve_build_task_fix_cycles :: "env \<Rightarrow> int option \<Rightarrow> budget_result" where
  "resolve_build_task_fix_cycles env value =
     resolve_budget env value ''SIGNALOS_BUILD_TASK_FIX_CYCLES''
       DEFAULT_BUILD_TASK_FIX_CYCLES ''build per-task fix cycles'' False"

definition resolve_build_max_tasks :: "env \<Rightarrow> int option \<Rightarrow> budget_result" where
  "resolve_build_max_tasks env value =
     resolve_budget env value ''SIGNALOS_BUILD_MAX_TASKS''
       DEFAULT_BUILD_MAX_TASKS ''build max tasks'' False"

definition resolve_build_fixer_error_batch :: "env \<Rightarrow> int option \<Rightarrow> budget_result" where
  "resolve_build_fixer_error_batch env value =
     resolve_budget env value ''SIGNALOS_BUILD_FIXER_ERROR_BATCH''
       DEFAULT_BUILD_FIXER_ERROR_BATCH ''build fixer error batch'' False"

definition resolve_build_test_embed_cap :: "env \<Rightarrow> int option \<Rightarrow> budget_result" where
  "resolve_build_test_embed_cap env value =
     resolve_budget env value ''SIGNALOS_BUILD_TEST_EMBED_CAP''
       DEFAULT_BUILD_TEST_EMBED_CAP ''build test embed cap'' False"

definition resolve_build_doc_cap :: "env \<Rightarrow> int option \<Rightarrow> budget_result" where
  "resolve_build_doc_cap env value =
     resolve_budget env value ''SIGNALOS_BUILD_DOC_CAP''
       DEFAULT_BUILD_DOC_CAP ''build doc cap'' False"

lemmas default_budget_defs =
  DEFAULT_AGENT_LOOP_TOOL_CALL_BUDGET_def DEFAULT_REPAIR_CYCLE_BUDGET_def
  DEFAULT_GATE_REWORK_BUDGET_def DEFAULT_GATE_REOPEN_BUDGET_def
  DEFAULT_BUILD_IMPLEMENTER_RUNAWAY_GUARD_def DEFAULT_BUILD_REVIEWER_TOOL_BUDGET_def
  DEFAULT_BUILD_TASK_STALL_ROUNDS_def DEFAULT_BUILD_TASK_FIX_CYCLES_def
  DEFAULT_BUILD_MAX_TASKS_def DEFAULT_BUILD_FIXER_ERROR_BATCH_def
  DEFAULT_BUILD_TEST_EMBED_CAP_def DEFAULT_BUILD_DOC_CAP_def

lemmas resolver_defs =
  resolve_agent_loop_tool_budget_def resolve_repair_cycle_budget_def
  resolve_gate_rework_budget_def resolve_gate_reopen_budget_def
  resolve_build_implementer_runaway_guard_def resolve_build_reviewer_tool_budget_def
  resolve_build_task_stall_rounds_def resolve_build_task_fix_cycles_def
  resolve_build_max_tasks_def resolve_build_fixer_error_batch_def
  resolve_build_test_embed_cap_def resolve_build_doc_cap_def

text \<open>The contract written into agent packets: its three budgets, resolved in order.\<close>

record budget_policy =
  policy_schema :: string
  policy_tool_call_budget :: int
  policy_repair_cycle_budget :: int
  policy_gate_rework_budget :: int
  policy_stop :: string
  policy_overrides :: "(string \<times> string) list"

definition build_execution_budget_policy ::
    "env \<Rightarrow> int option \<Rightarrow> int option \<Rightarrow> int option \<Rightarrow> budget_error + budget_policy" where
  "build_execution_budget_policy env tool_call repair_cycle gate_rework =
     (case resolve_agent_loop_tool_budget env tool_call of
        Inl e \<Rightarrow> Inl e
      | Inr tool \<Rightarrow>
          (case resolve_repair_cycle_budget env repair_cycle of
             Inl e \<Rightarrow> Inl e
           | Inr repair \<Rightarrow>
               (case resolve_gate_rework_budget env gate_rework of
                  Inl e \<Rightarrow> Inl e
                | Inr rework \<Rightarrow>
                    Inr \<lparr>policy_schema = ''signalos.execution_budget.v1'',
                         policy_tool_call_budget = tool,
                         policy_repair_cycle_budget = repair,
                         policy_gate_rework_budget = rework,
                         policy_stop =
                           ''Continue iterating until acceptance criteria and validation are '' @
                           ''green, or stop truthfully when this explicit budget is exhausted.'',
                         policy_overrides =
                           [(''tool_call_budget_env'', ''SIGNALOS_AGENT_LOOP_TOOL_BUDGET''),
                            (''repair_cycle_budget_env'', ''SIGNALOS_AGENT_REPAIR_CYCLE_BUDGET''),
                            (''gate_rework_budget_env'', ''SIGNALOS_GATE_REWORK_BUDGET'')]\<rparr>)))"

subsection \<open>Lemmas\<close>

lemma validate_budget_Inr [simp]:
  "validate_budget v label z = Inr n \<longleftrightarrow> n = v \<and> budget_floor z \<le> v"
  by (auto simp: validate_budget_def budget_floor_def)

lemma validate_budget_Inl:
  "(\<exists>e. validate_budget v label z = Inl e) \<longleftrightarrow> v < budget_floor z"
  by (auto simp: validate_budget_def budget_floor_def)

lemma resolve_budget_floor:
  "resolve_budget env value name dflt label z = Inr n \<Longrightarrow> budget_floor z \<le> dflt \<Longrightarrow>
   budget_floor z \<le> n"
  by (auto simp: resolve_budget_def Let_def split: option.splits if_splits)

lemma resolve_budget_explicit:
  "resolve_budget env (Some v) name dflt label z = validate_budget v label z"
  by (simp add: resolve_budget_def)

lemma resolve_budget_unset:
  "env name = None \<or> (\<exists>s. env name = Some s \<and> strip s = []) \<Longrightarrow>
   resolve_budget env None name dflt label z = Inr dflt"
  by (auto simp: resolve_budget_def)

lemma resolve_budget_env:
  "env name = Some s \<Longrightarrow> strip s \<noteq> [] \<Longrightarrow> py_int (strip s) = Some v \<Longrightarrow>
   resolve_budget env None name dflt label z = validate_budget v label z"
  by (simp add: resolve_budget_def)

lemma resolve_budget_env_bad:
  "env name = Some s \<Longrightarrow> strip s \<noteq> [] \<Longrightarrow> py_int (strip s) = None \<Longrightarrow>
   resolve_budget env None name dflt label z =
     Inl (ValueError (name @ '' must be an integer for '' @ label))"
  by (simp add: resolve_budget_def)

lemma strip_padded:
  assumes "list_all is_space xs" and "list_all is_space ys" and "strip s = s"
  shows "strip (xs @ s @ ys) = s"
proof (cases "s = []")
  case True
  with assms(1,2) show ?thesis
    by (simp add: strip_def lstrip_by_def list_all_iff dropWhile_eq_Nil_conv [THEN iffD2])
next
  case False
  with strip_ends [of s] assms(3) have ends: "\<not> is_space (hd s)" "\<not> is_space (last s)" by auto
  have "lstrip_by is_space (xs @ s @ ys) = s @ ys"
    using assms(1) ends(1) False
    by (cases s) (simp_all add: lstrip_by_def list_all_iff dropWhile_append2)
  moreover have "rstrip_by is_space (s @ ys) = s"
    using assms(2) ends(2) False
    by (cases s rule: rev_cases) (simp_all add: rstrip_by_def list_all_iff dropWhile_append3
        dropWhile_append)
  ultimately show ?thesis by (simp add: strip_def)
qed

subsection \<open>Properties\<close>

text \<open>a budget that is written to the environment is the budget that is read back: a decimal
  numeral that reaches the floor, with any white space around it, resolves to its value, and
  one below the floor is refused, whatever the default is.\<close>

theorem budget_env_roundtrip:
  assumes "env name = Some (xs @ nat_str n @ ys)" and "list_all is_space xs"
    and "list_all is_space ys" and "length (nat_str n) \<le> 4300"
  shows "if budget_floor z \<le> int n
    then resolve_budget env None name dflt label z = Inr (int n)
    else \<exists>e. resolve_budget env None name dflt label z = Inl e"
proof -
  have "strip (xs @ nat_str n @ ys) = nat_str n"
    using assms(2,3) by (rule strip_padded) simp
  then have "resolve_budget env None name dflt label z = validate_budget (int n) label z"
    using assms(1,4) by (simp add: resolve_budget_def py_int_nat_str)
  then show ?thesis by (simp add: validate_budget_Inl linorder_not_le)
qed

theorem budget_env_roundtrip_witness:
  "resolve_budget [''B'' \<mapsto> '' '' @ nat_str 12 @ '' ''] None ''B'' 8 ''b'' False = Inr 12"
  using budget_env_roundtrip [of "[''B'' \<mapsto> '' '' @ nat_str 12 @ '' '']" "''B''" "'' ''" 12 "'' ''"
      False 8 "''b''"]
  by (simp add: is_space_def budget_floor_def nat_str.simps)

text \<open>The execution contract is bounded. Whatever the environment and the explicit values are,
  a policy that is built gives the agent loop and the rework loop at least one round and the
  repair loop no negative number of cycles; explicit values are taken as they are.\<close>

theorem budget_policy_bounds:
  assumes "build_execution_budget_policy env t r g = Inr p"
  shows "1 \<le> policy_tool_call_budget p \<and> 0 \<le> policy_repair_cycle_budget p \<and>
    1 \<le> policy_gate_rework_budget p \<and>
    (\<forall>v. t = Some v \<longrightarrow> policy_tool_call_budget p = v) \<and>
    (\<forall>v. r = Some v \<longrightarrow> policy_repair_cycle_budget p = v) \<and>
    (\<forall>v. g = Some v \<longrightarrow> policy_gate_rework_budget p = v)"
proof -
  from assms obtain tool repair rework
    where res: "resolve_agent_loop_tool_budget env t = Inr tool"
      "resolve_repair_cycle_budget env r = Inr repair"
      "resolve_gate_rework_budget env g = Inr rework"
    and p: "policy_tool_call_budget p = tool" "policy_repair_cycle_budget p = repair"
      "policy_gate_rework_budget p = rework"
    by (auto simp: build_execution_budget_policy_def split: sum.splits)
  show ?thesis
    using res p resolve_budget_floor [OF res(1) [unfolded resolver_defs]]
      resolve_budget_floor [OF res(2) [unfolded resolver_defs]]
      resolve_budget_floor [OF res(3) [unfolded resolver_defs]]
    by (auto simp: resolver_defs default_budget_defs budget_floor_def resolve_budget_explicit)
qed

theorem budget_policy_bounds_witness:
  "\<exists>p. build_execution_budget_policy (\<lambda>_. None) (Some 5) None (Some 1) = Inr p \<and>
     policy_tool_call_budget p = 5 \<and> 0 \<le> policy_repair_cycle_budget p"
proof -
  obtain p where p: "build_execution_budget_policy (\<lambda>_. None) (Some 5) None (Some 1) = Inr p"
    by (simp add: build_execution_budget_policy_def resolver_defs default_budget_defs
        resolve_budget_def validate_budget_def)
  from budget_policy_bounds [OF this] p show ?thesis by auto
qed

end
