(* ===== verification/TaskStore.thy ===== *)
theory TaskStore
  imports Prelude
begin

section \<open>The task store and its worker pool (\<open>task_store.py\<close>, \<open>product/executor.py\<close>)\<close>

text \<open>
  \<open>InMemoryTaskStore\<close>: the dictionary of tasks is a list in insertion order, the order in
  which \<open>claim\<close> scans it; the injected clock is the argument \<open>now\<close>. Clock readings and
  lease lengths are integers (ticks). \<open>claim\<close> returns a snapshot of the task; the source
  returns the live object, of which its client reads only the identifier and the payload.
\<close>

datatype status = QUEUED | RUNNING | DONE | DEAD

record ('p, 'r) stored_task =
  task_id :: string
  payload :: 'p
  task_status :: status
  attempts :: int
  lease_until :: int
  runtime_id :: string
  task_result :: "'r option"
  task_error :: string

record ('p, 'r) task_store =
  tasks :: "('p, 'r) stored_task list"
  max_attempts :: int

definition new_task :: "string \<Rightarrow> 'p \<Rightarrow> ('p, 'r) stored_task" where
  "new_task i p =
     \<lparr>task_id = i, payload = p, task_status = QUEUED, attempts = 0, lease_until = 0,
      runtime_id = [], task_result = None, task_error = []\<rparr>"

definition init_store :: "int \<Rightarrow> ('p, 'r) task_store" where
  "init_store n = \<lparr>tasks = [], max_attempts = n\<rparr>"

definition ids :: "('p, 'r) task_store \<Rightarrow> string list" where
  "ids s = map task_id (tasks s)"

definition get_task :: "('p, 'r) task_store \<Rightarrow> string \<Rightarrow> ('p, 'r) stored_task option" where
  "get_task s i = find (\<lambda>t. task_id t = i) (tasks s)"

definition update_task ::
    "string \<Rightarrow> (('p, 'r) stored_task \<Rightarrow> ('p, 'r) stored_task) \<Rightarrow> ('p, 'r) task_store \<Rightarrow>
     ('p, 'r) task_store" where
  "update_task i f s = s\<lparr>tasks := map (\<lambda>t. if task_id t = i then f t else t) (tasks s)\<rparr>"

subsection \<open>The operations\<close>

definition enqueue :: "string \<Rightarrow> 'p \<Rightarrow> ('p, 'r) task_store \<Rightarrow> ('p, 'r) task_store" where
  "enqueue i p s = (if i \<in> set (ids s) then s else s\<lparr>tasks := tasks s @ [new_task i p]\<rparr>)"

definition reclaimable :: "int \<Rightarrow> ('p, 'r) stored_task \<Rightarrow> bool" where
  "reclaimable now t \<longleftrightarrow> task_status t = RUNNING \<and> lease_until t \<le> now"

definition claimable :: "int \<Rightarrow> ('p, 'r) stored_task \<Rightarrow> bool" where
  "claimable now t \<longleftrightarrow> task_status t = QUEUED \<or> reclaimable now t"

definition lease_to :: "string \<Rightarrow> int \<Rightarrow> int \<Rightarrow> ('p, 'r) stored_task \<Rightarrow> ('p, 'r) stored_task" where
  "lease_to rid ttl now t =
     t\<lparr>task_status := RUNNING, runtime_id := rid, lease_until := now + ttl\<rparr>"

fun claim_scan ::
    "string \<Rightarrow> int \<Rightarrow> int \<Rightarrow> ('p, 'r) stored_task list \<Rightarrow>
     ('p, 'r) stored_task option \<times> ('p, 'r) stored_task list" where
  "claim_scan rid ttl now [] = (None, [])"
| "claim_scan rid ttl now (t # ts) =
     (if claimable now t then (Some (lease_to rid ttl now t), lease_to rid ttl now t # ts)
      else (let (r, ts') = claim_scan rid ttl now ts in (r, t # ts')))"

definition claim ::
    "string \<Rightarrow> int \<Rightarrow> int \<Rightarrow> ('p, 'r) task_store \<Rightarrow>
     ('p, 'r) stored_task option \<times> ('p, 'r) task_store" where
  "claim rid ttl now s = (let (r, ts) = claim_scan rid ttl now (tasks s) in (r, s\<lparr>tasks := ts\<rparr>))"

definition heartbeat ::
    "string \<Rightarrow> int \<Rightarrow> int \<Rightarrow> ('p, 'r) task_store \<Rightarrow> bool \<times> ('p, 'r) task_store" where
  "heartbeat i ttl now s =
     (case get_task s i of
        Some t \<Rightarrow>
          (if task_status t = RUNNING
           then (True, update_task i (\<lambda>t. t\<lparr>lease_until := now + ttl\<rparr>) s)
           else (False, s))
      | None \<Rightarrow> (False, s))"

definition complete :: "string \<Rightarrow> 'r option \<Rightarrow> ('p, 'r) task_store \<Rightarrow> ('p, 'r) task_store" where
  "complete i r s =
     (case get_task s i of
        None \<Rightarrow> s
      | Some _ \<Rightarrow> update_task i (\<lambda>t. t\<lparr>task_status := DONE, task_result := r\<rparr>) s)"

definition failed_task ::
    "int \<Rightarrow> string \<Rightarrow> bool \<Rightarrow> ('p, 'r) stored_task \<Rightarrow> ('p, 'r) stored_task" where
  "failed_task m err retryable t =
     (let t = t\<lparr>attempts := attempts t + 1, task_error := err\<rparr> in
      if retryable \<and> attempts t < m
      then t\<lparr>task_status := QUEUED, runtime_id := [], lease_until := 0\<rparr>
      else t\<lparr>task_status := DEAD\<rparr>)"

definition fail :: "string \<Rightarrow> string \<Rightarrow> bool \<Rightarrow> ('p, 'r) task_store \<Rightarrow> ('p, 'r) task_store" where
  "fail i err retryable s =
     (case get_task s i of
        None \<Rightarrow> s
      | Some _ \<Rightarrow> update_task i (failed_task (max_attempts s) err retryable) s)"

definition reclaim_expired :: "int \<Rightarrow> ('p, 'r) task_store \<Rightarrow> nat \<times> ('p, 'r) task_store" where
  "reclaim_expired now s =
     (length (filter (reclaimable now) (tasks s)),
      s\<lparr>tasks := map (\<lambda>t. if reclaimable now t then t\<lparr>task_status := QUEUED, runtime_id := []\<rparr>
                          else t) (tasks s)\<rparr>)"

definition dead_letters :: "('p, 'r) task_store \<Rightarrow> ('p, 'r) stored_task list" where
  "dead_letters s = filter (\<lambda>t. task_status t = DEAD) (tasks s)"

text \<open>The operations as events, for statements about interleavings of many clients.\<close>

datatype ('p, 'r) store_op =
    Enqueue string 'p
  | Claim string int int
  | Heartbeat string int int
  | Complete string "'r option"
  | Fail string string bool
  | ReclaimExpired int

fun store_step :: "('p, 'r) task_store \<Rightarrow> ('p, 'r) store_op \<Rightarrow> ('p, 'r) task_store" where
  "store_step s (Enqueue i p) = enqueue i p s"
| "store_step s (Claim rid ttl now) = snd (claim rid ttl now s)"
| "store_step s (Heartbeat i ttl now) = snd (heartbeat i ttl now s)"
| "store_step s (Complete i r) = complete i r s"
| "store_step s (Fail i e retry) = fail i e retry s"
| "store_step s (ReclaimExpired now) = snd (reclaim_expired now s)"

subsection \<open>Lookup laws\<close>

lemma max_attempts_update [simp]: "max_attempts (update_task i f s) = max_attempts s"
  by (simp add: update_task_def)

lemma claim_scan_ids: "map task_id (snd (claim_scan rid ttl now ts)) = map task_id ts"
  by (induction ts) (auto simp: lease_to_def split: prod.splits)

lemma update_task_ids:
  "(\<And>t. task_id (f t) = task_id t) \<Longrightarrow> ids (update_task i f s) = ids s"
  by (simp add: ids_def update_task_def)

lemma failed_task_id [simp]: "task_id (failed_task m e r t) = task_id t"
  by (simp add: failed_task_def Let_def)

lemma lease_to_id [simp]: "task_id (lease_to rid ttl now t) = task_id t"
  by (simp add: lease_to_def)

lemma find_map_upd:
  "(\<And>t. k (f t) = k t) \<Longrightarrow>
   find (\<lambda>t. k t = j) (map (\<lambda>t. if k t = i then f t else t) ts) =
   (if j = i then map_option f (find (\<lambda>t. k t = j) ts) else find (\<lambda>t. k t = j) ts)"
  by (induction ts) auto

lemma get_update_task:
  "(\<And>t. task_id (f t) = task_id t) \<Longrightarrow>
   get_task (update_task i f s) j = (if j = i then map_option f (get_task s j) else get_task s j)"
  by (simp add: get_task_def update_task_def find_map_upd)

lemma get_task_None: "get_task s i = None \<longleftrightarrow> i \<notin> set (ids s)"
  by (auto simp: get_task_def ids_def find_None_iff)

lemma get_task_id: "get_task s i = Some t \<Longrightarrow> task_id t = i"
  by (auto simp: get_task_def find_Some_iff)

lemma get_task_mem: "get_task s i = Some t \<Longrightarrow> t \<in> set (tasks s)"
  by (auto simp: get_task_def find_Some_iff)

lemma mem_get_task: "distinct (ids s) \<Longrightarrow> t \<in> set (tasks s) \<Longrightarrow> get_task s (task_id t) = Some t"
proof -
  have "distinct (map task_id ts) \<Longrightarrow> t \<in> set ts \<Longrightarrow> find (\<lambda>u. task_id u = task_id t) ts = Some t"
    for ts :: "('a, 'b) stored_task list"
    by (induction ts) (auto simp: image_iff)
  then show "distinct (ids s) \<Longrightarrow> t \<in> set (tasks s) \<Longrightarrow> ?thesis"
    by (simp add: ids_def get_task_def)
qed

lemma get_task_heartbeat:
  "get_task (snd (heartbeat i ttl now s)) j =
   (case get_task s j of
      None \<Rightarrow> None
    | Some t \<Rightarrow> Some (if j = i \<and> task_status t = RUNNING then t\<lparr>lease_until := now + ttl\<rparr> else t))"
  by (auto simp: heartbeat_def get_update_task split: option.splits)

lemma get_task_complete:
  "get_task (complete i r s) j =
   (if j = i then map_option (\<lambda>t. t\<lparr>task_status := DONE, task_result := r\<rparr>) (get_task s j)
    else get_task s j)"
  by (auto simp: complete_def get_update_task split: option.splits)

lemma get_task_fail:
  "get_task (fail i e r s) j =
   (if j = i then map_option (failed_task (max_attempts s) e r) (get_task s j) else get_task s j)"
  by (auto simp: fail_def get_update_task split: option.splits)

lemma get_task_enqueue:
  "get_task (enqueue i p s) j =
   (if j = i \<and> get_task s i = None then Some (new_task i p) else get_task s j)"
proof -
  have "find P (xs @ [x]) = (case find P xs of None \<Rightarrow> if P x then Some x else None | Some y \<Rightarrow> Some y)"
    for P :: "('a, 'b) stored_task \<Rightarrow> bool" and xs x
    by (induction xs) auto
  then show ?thesis
    using get_task_None [of s i] get_task_None [of s j]
    by (auto simp: enqueue_def get_task_def new_task_def split: option.splits)
qed

lemma find_map_id:
  "(\<And>t. k (f t) = k t) \<Longrightarrow> find (\<lambda>t. k t = j) (map f ts) = map_option f (find (\<lambda>t. k t = j) ts)"
  by (induction ts) auto

lemma get_task_reclaim:
  "get_task (snd (reclaim_expired now s)) j =
   map_option (\<lambda>t. if reclaimable now t then t\<lparr>task_status := QUEUED, runtime_id := []\<rparr> else t)
     (get_task s j)"
  unfolding reclaim_expired_def get_task_def by (simp add: find_map_id)

subsection \<open>What a claim returns\<close>

lemma claim_scan_find:
  "claim_scan rid ttl now ts =
   (case find (claimable now) ts of
      None \<Rightarrow> (None, ts)
    | Some t \<Rightarrow> (Some (lease_to rid ttl now t),
                 (let n = length (takeWhile (\<lambda>u. \<not> claimable now u) ts)
                  in ts[n := lease_to rid ttl now t])))"
  by (induction ts) (auto split: option.splits prod.splits)

lemma claim_scan_mem:
  "fst (claim_scan rid ttl now ts) = Some u \<Longrightarrow> task_id u \<in> task_id ` set ts"
  by (induction ts) (auto split: if_splits prod.splits)

lemma get_task_claim_scan:
  assumes "distinct (map task_id ts)"
  shows "find (\<lambda>t. task_id t = j) (snd (claim_scan rid ttl now ts)) =
    (case fst (claim_scan rid ttl now ts) of
       None \<Rightarrow> find (\<lambda>t. task_id t = j) ts
     | Some t' \<Rightarrow> if j = task_id t' then Some t' else find (\<lambda>t. task_id t = j) ts)"
  using assms
proof (induction ts)
  case Nil
  then show ?case by simp
next
  case (Cons t ts)
  show ?case
  proof (cases "claimable now t")
    case True
    then show ?thesis by simp
  next
    case False
    from Cons.prems claim_scan_mem [of rid ttl now ts]
    have ne: "fst (claim_scan rid ttl now ts) = Some u \<Longrightarrow> task_id u \<noteq> task_id t" for u
      by fastforce
    from False Cons show ?thesis
      by (cases "fst (claim_scan rid ttl now ts)")
        (auto simp: case_prod_beta dest: ne)
  qed
qed

lemma get_task_claim:
  "distinct (ids s) \<Longrightarrow>
   get_task (snd (claim rid ttl now s)) j =
   (case fst (claim rid ttl now s) of
      None \<Rightarrow> get_task s j
    | Some t' \<Rightarrow> if j = task_id t' then Some t' else get_task s j)"
  unfolding ids_def get_task_def claim_def
  by (simp add: case_prod_beta get_task_claim_scan)

lemma claim_Some:
  "fst (claim rid ttl now s) = Some t' \<Longrightarrow>
   \<exists>t \<in> set (tasks s). claimable now t \<and> t' = lease_to rid ttl now t"
  by (auto simp: claim_def claim_scan_find find_Some_iff split: option.splits prod.splits)

lemma claim_None: "fst (claim rid ttl now s) = None \<longleftrightarrow> (\<forall>t \<in> set (tasks s). \<not> claimable now t)"
  by (auto simp: claim_def claim_scan_find find_None_iff find_Some_iff case_prod_beta
      split: option.splits dest: nth_mem)

lemma max_attempts_claim [simp]: "max_attempts (snd (claim rid ttl now s)) = max_attempts s"
  by (simp add: claim_def split: prod.splits)

lemma store_step_max_attempts [simp]: "max_attempts (store_step s op) = max_attempts s"
  by (cases op)
    (auto simp: enqueue_def heartbeat_def complete_def fail_def reclaim_expired_def
      split: option.splits)

lemma store_step_ids: "distinct (ids s) \<Longrightarrow> distinct (ids (store_step s op))"
proof (cases op)
  case (Enqueue i p)
  assume "distinct (ids s)"
  with Enqueue show ?thesis by (auto simp: enqueue_def ids_def new_task_def)
next
  case (Claim rid ttl now)
  assume "distinct (ids s)"
  with Claim claim_scan_ids [of rid ttl now "tasks s"] show ?thesis
    by (simp add: claim_def ids_def case_prod_beta)
next
  case (Heartbeat i ttl now)
  assume "distinct (ids s)"
  with Heartbeat show ?thesis by (simp add: heartbeat_def update_task_ids split: option.splits)
next
  case (Complete i r)
  assume "distinct (ids s)"
  with Complete show ?thesis by (simp add: complete_def update_task_ids split: option.splits)
next
  case (Fail i e r)
  assume "distinct (ids s)"
  with Fail show ?thesis by (simp add: fail_def update_task_ids split: option.splits)
next
  case (ReclaimExpired now)
  assume "distinct (ids s)"
  with ReclaimExpired show ?thesis by (simp add: reclaim_expired_def ids_def comp_def if_distrib cong: if_cong)
qed

subsection \<open>The invariant\<close>

definition task_ok :: "int \<Rightarrow> ('p, 'r) stored_task \<Rightarrow> bool" where
  "task_ok m t \<longleftrightarrow> 0 \<le> attempts t \<and>
     (task_status t \<in> {QUEUED, RUNNING} \<longrightarrow> attempts t < max 1 m) \<and>
     (task_status t = QUEUED \<longrightarrow> runtime_id t = [])"

definition store_inv :: "('p, 'r) task_store \<Rightarrow> bool" where
  "store_inv s \<longleftrightarrow> distinct (ids s) \<and> (\<forall>t \<in> set (tasks s). task_ok (max_attempts s) t)"

lemma store_inv_init [inv_intros]: "store_inv (init_store m)"
  by (simp add: store_inv_def init_store_def ids_def)

lemma task_ok_new: "task_ok m (new_task i p)"
  by (simp add: task_ok_def new_task_def)

lemma task_ok_lease: "task_ok m t \<Longrightarrow> claimable now t \<Longrightarrow> task_ok m (lease_to rid ttl now t)"
  by (auto simp: task_ok_def lease_to_def claimable_def reclaimable_def)

lemma task_ok_failed: "task_ok m t \<Longrightarrow> task_ok m (failed_task m e r t)"
  by (auto simp: task_ok_def failed_task_def Let_def)

lemma claim_scan_ok:
  "\<forall>t \<in> set ts. task_ok m t \<Longrightarrow> \<forall>t \<in> set (snd (claim_scan rid ttl now ts)). task_ok m t"
  by (induction ts) (auto simp: case_prod_beta task_ok_lease)

lemma update_task_ok:
  "\<forall>t \<in> set (tasks s). task_ok m t \<Longrightarrow> (\<And>t. task_ok m t \<Longrightarrow> task_ok m (f t)) \<Longrightarrow>
   \<forall>t \<in> set (tasks (update_task i f s)). task_ok m t"
  by (auto simp: update_task_def)

lemma heartbeat_ok:
  "\<forall>t \<in> set (tasks s). task_ok m t \<Longrightarrow> \<forall>t \<in> set (tasks (snd (heartbeat i ttl now s))). task_ok m t"
  unfolding heartbeat_def
  by (auto split: option.splits simp: update_task_def task_ok_def)

lemma store_inv_step: "store_inv s \<Longrightarrow> store_inv (store_step s op)"
proof -
  assume inv: "store_inv s"
  then have ok: "\<forall>t \<in> set (tasks s). task_ok (max_attempts s) t" by (simp add: store_inv_def)
  have "\<forall>t \<in> set (tasks (store_step s op)). task_ok (max_attempts s) t"
  proof (cases op)
    case (Enqueue i p)
    with ok show ?thesis by (auto simp: enqueue_def task_ok_new)
  next
    case (Claim rid ttl now)
    with ok claim_scan_ok [of "tasks s" "max_attempts s" rid ttl now] show ?thesis
      by (simp add: claim_def case_prod_beta)
  next
    case (Heartbeat i ttl now)
    with heartbeat_ok [OF ok] show ?thesis by simp
  next
    case (Complete i r)
    with ok show ?thesis
      by (auto simp: complete_def update_task_def task_ok_def split: option.splits)
  next
    case (Fail i e r)
    with ok show ?thesis
      by (auto simp: fail_def update_task_def task_ok_failed split: option.splits)
  next
    case (ReclaimExpired now)
    with ok show ?thesis by (auto simp: reclaim_expired_def task_ok_def reclaimable_def)
  qed
  with inv show ?thesis by (simp add: store_inv_def store_step_ids)
qed

interpretation store: machine store_step store_inv
  by unfold_locales (rule store_inv_step)

subsection \<open>Attempts count failures\<close>

definition is_fail :: "string \<Rightarrow> ('p, 'r) store_op \<Rightarrow> bool" where
  "is_fail i op \<longleftrightarrow> (case op of Fail j _ _ \<Rightarrow> j = i | _ \<Rightarrow> False)"

lemma claim_Some_get:
  assumes "distinct (ids s)" and "fst (claim rid ttl now s) = Some t'"
  obtains t where "get_task s (task_id t') = Some t" and "claimable now t"
    and "t' = lease_to rid ttl now t"
  using claim_Some [OF assms(2)] mem_get_task [OF assms(1)] by auto

lemma store_step_attempts:
  assumes d: "distinct (ids s)" and t: "get_task s i = Some t"
  shows "\<exists>t'. get_task (store_step s op) i = Some t' \<and>
    attempts t' = attempts t + (if is_fail i op then 1 else 0)"
proof (cases op)
  case (Claim rid ttl now)
  show ?thesis
  proof (cases "fst (claim rid ttl now s)")
    case None
    with Claim d t show ?thesis by (simp add: get_task_claim is_fail_def)
  next
    case (Some u)
    then obtain v where "get_task s (task_id u) = Some v" and "u = lease_to rid ttl now v"
      using claim_Some_get [OF d] by metis
    with Some Claim d t show ?thesis
      by (auto simp: get_task_claim is_fail_def lease_to_def)
  qed
next
  case (Fail j e r)
  with t show ?thesis
    by (cases "j = i") (simp_all add: get_task_fail is_fail_def failed_task_def Let_def)
qed (use t in \<open>auto simp: get_task_enqueue get_task_heartbeat get_task_complete
  get_task_reclaim is_fail_def\<close>)

lemma run_attempts:
  assumes "store_inv s" and "get_task s i = Some t"
  shows "\<exists>t'. get_task (foldl store_step s ops) i = Some t' \<and>
    attempts t' = attempts t + int (length (filter (is_fail i) ops))"
  using assms
proof (induction ops arbitrary: s t)
  case Nil
  then show ?case by simp
next
  case (Cons op ops)
  then obtain t1 where "get_task (store_step s op) i = Some t1"
    and "attempts t1 = attempts t + (if is_fail i op then 1 else 0)"
    using store_step_attempts [of s i t op] by (auto simp: store_inv_def)
  with Cons.IH [of "store_step s op" t1] Cons.prems store_inv_step [of s op]
  show ?case by auto
qed

subsection \<open>Leases\<close>

text \<open>The clock reading an operation is made at, and the calls that end a lease of task \<open>i\<close> running until
  \<open>l\<close>: its completion, its failure, and a heartbeat that sets an earlier end. The source's \<open>complete\<close>, \<open>fail\<close>
  and \<open>heartbeat\<close> take the task's identifier and no owner.\<close>

fun op_before :: "int \<Rightarrow> ('p, 'r) store_op \<Rightarrow> bool" where
  "op_before l (Claim rid ttl now) = (now < l)"
| "op_before l (Heartbeat j ttl now) = (now < l)"
| "op_before l (ReclaimExpired now) = (now < l)"
| "op_before l _ = True"

fun ends_lease :: "string \<Rightarrow> int \<Rightarrow> ('p, 'r) store_op \<Rightarrow> bool" where
  "ends_lease i l (Complete j r) = (j = i)"
| "ends_lease i l (Fail j e r) = (j = i)"
| "ends_lease i l (Heartbeat j ttl now) = (j = i \<and> now + ttl < l)"
| "ends_lease i l _ = False"

text \<open>The tasks that a sequence of operations hands out.\<close>

fun handed_out :: "('p, 'r) task_store \<Rightarrow> ('p, 'r) store_op list \<Rightarrow> string list" where
  "handed_out s [] = []"
| "handed_out s (op # ops) =
     (case op of
        Claim rid ttl now \<Rightarrow> (case fst (claim rid ttl now s) of None \<Rightarrow> [] | Some u \<Rightarrow> [task_id u])
      | _ \<Rightarrow> []) @ handed_out (store_step s op) ops"

definition leased :: "('p, 'r) task_store \<Rightarrow> string \<Rightarrow> string \<Rightarrow> int \<Rightarrow> bool" where
  "leased s i w l \<longleftrightarrow>
     (\<exists>t. get_task s i = Some t \<and> task_status t = RUNNING \<and> runtime_id t = w \<and> l \<le> lease_until t)"

lemma leased_not_claimed:
  assumes "distinct (ids s)" and "leased s i w l" and "now < l"
    and "fst (claim rid ttl now s) = Some u"
  shows "task_id u \<noteq> i"
proof
  assume "task_id u = i"
  with assms(1,4) obtain t where "get_task s i = Some t" and "claimable now t"
    using claim_Some_get by metis
  with assms(2,3) show False by (auto simp: leased_def claimable_def reclaimable_def)
qed

lemma leased_step:
  assumes d: "distinct (ids s)" and l: "leased s i w l"
    and safe: "op_before l op" "\<not> ends_lease i l op"
  shows "leased (store_step s op) i w l"
proof (cases op)
  case (Claim rid ttl now)
  with d l safe show ?thesis
    using leased_not_claimed [OF d l]
    by (cases "fst (claim rid ttl now s)") (auto simp: leased_def get_task_claim)
next
  case (ReclaimExpired now)
  from l obtain t where t: "get_task s i = Some t" "task_status t = RUNNING" "runtime_id t = w"
    "l \<le> lease_until t" by (auto simp: leased_def)
  with ReclaimExpired safe have "\<not> reclaimable now t" by (simp add: reclaimable_def)
  with ReclaimExpired t show ?thesis by (simp add: leased_def get_task_reclaim)
qed (use l safe in \<open>auto simp: leased_def get_task_enqueue get_task_heartbeat get_task_complete
  get_task_fail\<close>)

lemma leased_run:
  "store_inv s \<Longrightarrow> leased s i w l \<Longrightarrow> list_all (op_before l) ops \<Longrightarrow> \<not> list_ex (ends_lease i l) ops \<Longrightarrow>
   leased (foldl store_step s ops) i w l \<and> i \<notin> set (handed_out s ops)"
proof (induction ops arbitrary: s)
  case Nil
  then show ?case by simp
next
  case (Cons op ops)
  then have d: "distinct (ids s)" by (simp add: store_inv_def)
  have "i \<notin> set (handed_out (store_step s op) ops) \<and> leased (foldl store_step (store_step s op) ops) i w l"
    using Cons by (simp add: store_inv_step leased_step d)
  moreover have "task_id u \<noteq> i" if "op = Claim rid ttl now" "fst (claim rid ttl now s) = Some u" for rid ttl now u
    using leased_not_claimed [OF d Cons.prems(2) _ that(2)] Cons.prems(3) that(1) by simp
  ultimately show ?case
    by (cases op) (auto split: option.split dest: sym)
qed

lemma first_end:
  "list_ex P xs \<Longrightarrow> \<exists>ys x zs. xs = ys @ x # zs \<and> P x \<and> \<not> list_ex P ys"
proof (induction xs)
  case (Cons x xs)
  show ?case
  proof (cases "P x")
    case True
    then have "x # xs = [] @ x # xs \<and> P x \<and> \<not> list_ex P []" by simp
    then show ?thesis by blast
  next
    case False
    with Cons obtain ys y zs where "xs = ys @ y # zs" "P y" "\<not> list_ex P ys" by auto
    with False have "x # xs = (x # ys) @ y # zs \<and> P y \<and> \<not> list_ex P (x # ys)" by simp
    then show ?thesis by blast
  qed
qed simp

subsection \<open>Properties\<close>

text \<open>C30: in every state the store can reach, under any interleaving of clients, task
  identifiers are unique, attempts are never negative, and a task that is queued or running
  has failed fewer than \<open>max_attempts\<close> times (so a worker is never handed an exhausted task).\<close>

theorem store_reachable_inv:
  assumes "t \<in> set (tasks (foldl store_step (init_store m) ops))"
  shows "distinct (ids (foldl store_step (init_store m) ops)) \<and> 0 \<le> attempts t \<and>
    (task_status t \<in> {QUEUED, RUNNING} \<longrightarrow> attempts t < max 1 m)"
proof -
  have "max_attempts (foldl store_step (init_store m) ops) = m"
    by (subst store.run_frame [where f = max_attempts]) (simp_all add: store_inv_init, simp add: init_store_def)
  moreover have "store_inv (foldl store_step (init_store m) ops)"
    by (rule store.run_inv) (rule store_inv_init)
  ultimately show ?thesis using assms by (auto simp: store_inv_def task_ok_def)
qed

theorem store_reachable_inv_witness:
  "\<exists>t :: (nat, nat) stored_task. t \<in> set (tasks (foldl store_step (init_store 3)
      [Enqueue ''a'' 7, Claim ''w'' 5 0, Fail ''a'' ''x'' True])) \<and>
    attempts t = 1 \<and> attempts t < max 1 3"
proof -
  let ?s = "foldl store_step (init_store 3) [Enqueue ''a'' 7, Claim ''w'' 5 0, Fail ''a'' ''x'' True]
    :: (nat, nat) task_store"
  let ?t = "\<lparr>task_id = ''a'', payload = 7, task_status = QUEUED, attempts = 1, lease_until = 0,
    runtime_id = [], task_result = None, task_error = ''x''\<rparr> :: (nat, nat) stored_task"
  have "tasks ?s = [?t]"
    by (simp add: init_store_def enqueue_def ids_def new_task_def claim_def claimable_def
        lease_to_def fail_def get_task_def update_task_def failed_task_def)
  then have mem: "?t \<in> set (tasks ?s)" by simp
  from store_reachable_inv [OF mem] have "attempts ?t < max 1 3" by simp
  with mem show ?thesis by (intro exI [of _ ?t]) simp
qed

text \<open>C6: a lease is exclusive against everything but a report about its task. Take any operations of any
  clients at times before \<open>l\<close>, while a task is leased to \<open>w\<close> until \<open>l\<close>. Either none of them is a \<open>complete\<close>, a
  \<open>fail\<close> or a shortening \<open>heartbeat\<close> for that task; then it stays leased to \<open>w\<close> until \<open>l\<close>, none of the claims among
  them hands it out, and the next claim before \<open>l\<close> does not either. Or there is a first such call, and up to it the
  same holds. These calls carry the task's identifier and no owner, so it need not be \<open>w\<close> that makes them.\<close>

theorem lease_exclusive:
  assumes "store_inv s" and "leased s i w l" and "list_all (op_before l) ops" and "now < l"
  shows "(leased (foldl store_step s ops) i w l \<and> i \<notin> set (handed_out s ops) \<and>
      (\<forall>u. fst (claim rid ttl now (foldl store_step s ops)) = Some u \<longrightarrow> task_id u \<noteq> i)) \<or>
    (\<exists>xs op ys. ops = xs @ op # ys \<and> ends_lease i l op \<and>
       leased (foldl store_step s xs) i w l \<and> i \<notin> set (handed_out s xs))"
proof (cases "list_ex (ends_lease i l) ops")
  case False
  with leased_run [OF assms(1-3)]
  have "leased (foldl store_step s ops) i w l" and "i \<notin> set (handed_out s ops)" by auto
  moreover have "distinct (ids (foldl store_step s ops))"
    using store.run_inv [OF assms(1)] by (simp add: store_inv_def)
  ultimately show ?thesis using leased_not_claimed assms(4) by metis
next
  case True
  then obtain xs op ys where split: "ops = xs @ op # ys" "ends_lease i l op" "\<not> list_ex (ends_lease i l) xs"
    using first_end by metis
  with leased_run [OF assms(1,2), of xs] assms(3) show ?thesis by auto
qed

theorem lease_exclusive_witness:
  "leased (foldl store_step
      (foldl store_step (init_store 3) [Enqueue ''a'' (7 :: nat), Enqueue ''b'' 8, Claim ''w'' 5 0])
      [Claim ''v'' 5 1, ReclaimExpired 2, Fail ''b'' ''x'' True :: (nat, nat) store_op]) ''a'' ''w'' 5"
proof -
  let ?s = "foldl store_step (init_store 3) [Enqueue ''a'' 7, Enqueue ''b'' 8, Claim ''w'' 5 0]
    :: (nat, nat) task_store"
  let ?ops = "[Claim ''v'' 5 1, ReclaimExpired 2, Fail ''b'' ''x'' True :: (nat, nat) store_op]"
  have inv: "store_inv ?s" by (rule store.run_inv) (rule store_inv_init)
  have l: "leased ?s ''a'' ''w'' 5"
    by (simp add: init_store_def enqueue_def ids_def new_task_def claim_def claimable_def
        lease_to_def leased_def get_task_def)
  have early: "list_all (op_before 5) ?ops" by simp
  have none: "\<forall>op \<in> set ?ops. \<not> ends_lease ''a'' 5 op" by simp
  have "\<not> ends_lease ''a'' 5 op" if "?ops = xs @ op # ys" for xs op ys
  proof -
    have "op \<in> set ?ops" unfolding that by simp
    with none show ?thesis by blast
  qed
  then have no_end: "\<not> (\<exists>xs op ys. ?ops = xs @ op # ys \<and> ends_lease ''a'' 5 op \<and>
      leased (foldl store_step ?s xs) ''a'' ''w'' 5 \<and> ''a'' \<notin> set (handed_out ?s xs))"
    by blast
  have "(4 :: int) < 5" by simp
  note lease = lease_exclusive [OF inv l early this, of "''v''" 5]
  have first: "A \<and> B \<or> C \<Longrightarrow> \<not> C \<Longrightarrow> A" for A B C by blast
  show ?thesis by (rule first [OF lease no_end])
qed

text \<open>A foreign report ends a lease: a client that is not the owner reports a retryable failure, and the task is
  at once free for the next claim while its owner still works on it.\<close>

lemma foreign_failure_frees_task:
  assumes "leased s i w l" and "get_task s i = Some t" and "attempts t + 1 < max_attempts s"
  shows "\<exists>t'. get_task (fail i e True s) i = Some t' \<and> claimable now t' \<and> runtime_id t' = [] \<and>
    \<not> leased (fail i e True s) i w l"
  using assms by (simp add: get_task_fail failed_task_def Let_def claimable_def leased_def)

text \<open>C31: retries are bounded. Whatever the clients do, \<open>attempts\<close> counts exactly the calls of
  \<open>fail\<close>; after \<open>max_attempts\<close> of them the task is neither queued nor running, hence never
  handed out again.\<close>

theorem retries_bounded:
  assumes "store_inv s" and "get_task s i = Some t"
    and "max 1 (max_attempts s) \<le> attempts t + int (length (filter (is_fail i) ops))"
  shows "\<exists>t'. get_task (foldl store_step s ops) i = Some t' \<and>
    attempts t' = attempts t + int (length (filter (is_fail i) ops)) \<and>
    task_status t' \<in> {DONE, DEAD} \<and> \<not> claimable now t'"
proof -
  obtain t' where t': "get_task (foldl store_step s ops) i = Some t'"
    "attempts t' = attempts t + int (length (filter (is_fail i) ops))"
    using run_attempts [OF assms(1,2)] by blast
  have "max_attempts (foldl store_step s ops) = max_attempts s"
    by (rule store.run_frame [where f = max_attempts]) (simp_all add: assms(1))
  with store.run_inv [OF assms(1), of ops] get_task_mem [OF t'(1)]
  have "task_ok (max_attempts s) t'" by (simp add: store_inv_def)
  with t'(2) assms(3) have "task_status t' \<notin> {QUEUED, RUNNING}" by (auto simp: task_ok_def)
  then have "task_status t' \<in> {DONE, DEAD}" by (cases "task_status t'") auto
  with t' show ?thesis by (auto simp: claimable_def reclaimable_def)
qed

theorem retries_bounded_witness:
  "\<exists>t'. get_task (foldl store_step (enqueue ''a'' (7 :: nat) (init_store 2))
      [Claim ''w'' 5 0, Fail ''a'' ''x'' True, Claim ''w'' 5 1, Fail ''a'' ''y'' True
       :: (nat, nat) store_op]) ''a'' = Some t' \<and> task_status t' \<in> {DONE, DEAD}"
proof -
  let ?s = "enqueue ''a'' 7 (init_store 2) :: (nat, nat) task_store"
  let ?ops = "[Claim ''w'' 5 0, Fail ''a'' ''x'' True, Claim ''w'' 5 1, Fail ''a'' ''y'' True]
    :: (nat, nat) store_op list"
  have inv: "store_inv ?s" using store_inv_step [OF store_inv_init, of 2 "Enqueue ''a'' 7"] by simp
  have t: "get_task ?s ''a'' = Some (new_task ''a'' 7)"
    by (simp add: enqueue_def ids_def init_store_def get_task_def new_task_def)
  have m: "max 1 (max_attempts ?s) \<le>
      attempts (new_task ''a'' 7 :: (nat, nat) stored_task) + int (length (filter (is_fail ''a'') ?ops))"
    by (simp add: new_task_def is_fail_def enqueue_def init_store_def ids_def)
  from retries_bounded [OF inv t m] show ?thesis by blast
qed

text \<open>a crash is not a failure. A worker that dies without reporting leaves its task to be
  claimed again once the lease lapses, with \<open>attempts\<close> unchanged: for any number of crashes
  the task is handed out once more, whatever \<open>max_attempts\<close> is.\<close>

theorem crashes_are_not_counted:
  fixes p :: 'p
  assumes "0 \<le> ttl"
  shows "\<exists>u :: ('p, 'r) stored_task. fst (claim w ttl (int n * ttl)
      (foldl store_step (enqueue i p (init_store m)) (map (\<lambda>k. Claim w ttl (int k * ttl)) [0..<n])))
      = Some u \<and> task_id u = i \<and> attempts u = 0"
proof -
  let ?ops = "\<lambda>n. map (\<lambda>k. Claim w ttl (int k * ttl)) [0..<n]"
  have "\<exists>t :: ('p, 'r) stored_task.
      tasks (foldl store_step (enqueue i p (init_store m)) (?ops n)) = [t] \<and> task_id t = i \<and>
      attempts t = 0 \<and> claimable (int n * ttl) t"
  proof (induction n)
    case 0
    then show ?case
      by (simp add: enqueue_def init_store_def ids_def new_task_def claimable_def)
  next
    case (Suc n)
    then show ?case using assms
      by (auto simp: claim_def lease_to_def claimable_def reclaimable_def algebra_simps)
  qed
  then show ?thesis by (auto simp: claim_def case_prod_beta lease_to_def)
qed

theorem crashes_are_not_counted_witness:
  "\<exists>u. fst (claim ''w'' 30 (int 100 * 30)
      (foldl store_step (enqueue ''a'' (7 :: nat) (init_store 3) :: (nat, nat) task_store)
         (map (\<lambda>k. Claim ''w'' 30 (int k * 30)) [0..<100])))
      = Some u \<and> task_id u = ''a'' \<and> attempts u = 0"
  by (rule crashes_are_not_counted) simp

text \<open>\<open>complete\<close> and \<open>fail\<close> are not fenced by the owner or the status of the task. A late
  completion takes a task out of the dead letters, and a late retryable failure puts a
  finished task back into the queue.\<close>

theorem late_reports_override:
  assumes "get_task s i = Some t"
  shows "\<exists>u v. get_task (complete i r s) i = Some u \<and> task_status u = DONE \<and>
    get_task (fail i e True s) i = Some v \<and>
    task_status v = (if attempts t + 1 < max_attempts s then QUEUED else DEAD)"
  using assms by (simp add: get_task_complete get_task_fail failed_task_def Let_def)

theorem late_reports_override_witness:
  "\<exists>v. get_task (fail ''a'' ''late'' True
      (foldl store_step (init_store 3)
         [Enqueue ''a'' (7 :: nat), Claim ''w'' 5 0, Claim ''v'' 5 6, Complete ''a'' (Some (1 :: nat))]))
      ''a'' = Some v \<and> task_status v = QUEUED"
proof -
  let ?s = "foldl store_step (init_store 3)
      [Enqueue ''a'' (7 :: nat), Claim ''w'' 5 0, Claim ''v'' 5 6, Complete ''a'' (Some (1 :: nat))]"
  let ?t = "\<lparr>task_id = ''a'', payload = 7, task_status = DONE, attempts = 0, lease_until = 11,
    runtime_id = ''v'', task_result = Some 1, task_error = []\<rparr>"
  have t: "get_task ?s ''a'' = Some ?t" and m: "max_attempts ?s = 3"
    by (simp_all add: init_store_def enqueue_def ids_def new_task_def claim_def claimable_def
        reclaimable_def lease_to_def complete_def get_task_def update_task_def)
  from late_reports_override [OF t, of None "''late''"] m show ?thesis by auto
qed

end
