(* ===== verification/WorkerPool.thy ===== *)
theory WorkerPool
  imports TaskStore
begin

section \<open>Draining the task store (\<open>product/executor.py\<close>)\<close>

text \<open>
  \<open>run_worker_pool\<close> with one worker: claim, run, report, until nothing is claimable. The
  callable \<open>run_task\<close> is a parameter, its exceptions values; \<open>clk\<close> gives the reading of the
  clock at each claim. The heartbeat thread only extends the lease of the task being run,
  which with one worker nobody else can claim, so it leaves no trace in the result. The loop
  takes fuel; \<open>drain_terminates\<close> below says how much is enough.
\<close>

datatype 'r task_run = Returned 'r | Raised string | RaisedNonRetryable string

record 'r task_outcome =
  out_id :: string
  out_status :: status
  out_result :: "'r option"
  out_error :: string

record 'r execution_report =
  outcomes :: "'r task_outcome list"
  dead_ids :: "string list"

definition empty_report :: "'r execution_report" where
  "empty_report = \<lparr>outcomes = [], dead_ids = []\<rparr>"

definition succeeded :: "'r execution_report \<Rightarrow> 'r task_outcome list" where
  "succeeded rep = filter (\<lambda>o'. out_status o' = DONE) (outcomes rep)"

definition record_outcome ::
    "'r task_outcome \<Rightarrow> 'r execution_report \<Rightarrow> 'r execution_report" where
  "record_outcome o' rep =
     (if out_status o' = DONE \<or> out_status o' = DEAD then
        (if out_status o' = DEAD
         then \<lparr>outcomes = outcomes rep @ [o'], dead_ids = dead_ids rep @ [out_id o']\<rparr>
         else rep\<lparr>outcomes := outcomes rep @ [o']\<rparr>)
      else rep)"

definition run_claimed ::
    "(('p, 'r) stored_task \<Rightarrow> 'r task_run) \<Rightarrow> ('p, 'r) stored_task \<Rightarrow> ('p, 'r) task_store \<Rightarrow>
     'r task_outcome \<times> ('p, 'r) task_store" where
  "run_claimed run_task t s =
     (case run_task t of
        Returned r \<Rightarrow>
          (\<lparr>out_id = task_id t, out_status = DONE, out_result = Some r, out_error = []\<rparr>,
           complete (task_id t) (Some r) s)
      | RaisedNonRetryable e \<Rightarrow>
          (\<lparr>out_id = task_id t, out_status = DEAD, out_result = None, out_error = e\<rparr>,
           fail (task_id t) e False s)
      | Raised e \<Rightarrow>
          (let s = fail (task_id t) e True s;
               st = (case get_task s (task_id t) of Some u \<Rightarrow> task_status u | None \<Rightarrow> DEAD)
           in (\<lparr>out_id = task_id t, out_status = st, out_result = None, out_error = e\<rparr>, s)))"

fun drain ::
    "(('p, 'r) stored_task \<Rightarrow> 'r task_run) \<Rightarrow> int \<Rightarrow> (nat \<Rightarrow> int) \<Rightarrow> nat \<Rightarrow> nat \<Rightarrow>
     ('p, 'r) task_store \<Rightarrow> 'r execution_report \<Rightarrow>
     (('p, 'r) task_store \<times> 'r execution_report) option" where
  "drain run_task ttl clk k 0 s rep = None"
| "drain run_task ttl clk k (Suc fuel) s rep =
     (case claim ''worker-0'' ttl (clk k) s of
        (None, s) \<Rightarrow> Some (s, rep)
      | (Some t, s) \<Rightarrow>
          (let (o', s) = run_claimed run_task t s
           in drain run_task ttl clk (Suc k) fuel s (record_outcome o' rep)))"

subsection \<open>What one round does\<close>

definition task_work :: "int \<Rightarrow> ('p, 'r) stored_task \<Rightarrow> nat" where
  "task_work m t =
     (if task_status t \<in> {QUEUED, RUNNING} then 1 + nat (m - attempts t) else 0)"

definition store_work :: "('p, 'r) task_store \<Rightarrow> nat" where
  "store_work s = sum_list (map (task_work (max_attempts s)) (tasks s))"

definition settled_or_queued :: "('p, 'r) task_store \<Rightarrow> bool" where
  "settled_or_queued s \<longleftrightarrow> (\<forall>t \<in> set (tasks s). task_status t \<noteq> RUNNING)"

lemma sum_list_map_update_id:
  assumes "distinct (map k ts)" and "t \<in> set ts" and "(f :: _ \<Rightarrow> nat) (g t) < f t"
  shows "sum_list (map f (map (\<lambda>u. if k u = k t then g u else u) ts)) < sum_list (map f ts)"
  using assms
proof (induction ts)
  case Nil
  then show ?case by simp
next
  case (Cons u ts)
  show ?case
  proof (cases "u = t")
    case True
    with Cons.prems(1) have "map (\<lambda>v. if k v = k t then g v else v) ts = ts"
      by (intro map_idI) (auto simp: image_iff)
    with True Cons.prems(3) show ?thesis by simp
  next
    case False
    with Cons.prems have "k u \<noteq> k t" by force
    with False Cons show ?thesis by simp
  qed
qed

text \<open>The report of a run as one update of the task it ran.\<close>

definition settle ::
    "'r task_run \<Rightarrow> int \<Rightarrow> ('p, 'r) stored_task \<Rightarrow> ('p, 'r) stored_task" where
  "settle res m t =
     (case res of
        Returned r \<Rightarrow> t\<lparr>task_status := DONE, task_result := Some r\<rparr>
      | RaisedNonRetryable e \<Rightarrow> failed_task m e False t
      | Raised e \<Rightarrow> failed_task m e True t)"

lemma settle_id [simp]: "task_id (settle res m t) = task_id t"
  by (auto simp: settle_def split: task_run.splits)

lemma settle_status [simp]: "task_status (settle res m t) \<noteq> RUNNING"
  by (auto simp: settle_def failed_task_def Let_def split: task_run.splits)

lemma settle_work:
  "claimable now t \<Longrightarrow> task_work m (settle res m (lease_to w ttl now t)) < task_work m t"
  by (auto simp: settle_def failed_task_def Let_def task_work_def lease_to_def claimable_def
      reclaimable_def split: task_run.splits)

lemma run_claimed_store:
  "get_task s (task_id t) \<noteq> None \<Longrightarrow>
   snd (run_claimed run_task t s) =
     update_task (task_id t) (settle (run_task t) (max_attempts s)) s"
  by (cases "run_task t")
    (auto simp: run_claimed_def complete_def fail_def settle_def [abs_def] Let_def
      split: option.splits)

lemma run_claimed_outcome:
  assumes "get_task s (task_id t) = Some t"
  shows "out_id (fst (run_claimed run_task t s)) = task_id t \<and>
    out_status (fst (run_claimed run_task t s)) =
      task_status (settle (run_task t) (max_attempts s) t)"
  using assms
  by (auto simp: run_claimed_def settle_def get_task_fail failed_task_def Let_def
      split: task_run.splits)

lemma claim_scan_as_map:
  assumes "distinct (map task_id ts)" and "fst (claim_scan w ttl now ts) = Some t'"
  shows "\<exists>t \<in> set ts. claimable now t \<and> t' = lease_to w ttl now t \<and>
    snd (claim_scan w ttl now ts) = map (\<lambda>u. if task_id u = task_id t then lease_to w ttl now u else u) ts"
  using assms
proof (induction ts)
  case Nil
  then show ?case by simp
next
  case (Cons u ts)
  show ?case
  proof (cases "claimable now u")
    case True
    with Cons.prems(1) have "map (\<lambda>v. if task_id v = task_id u then lease_to w ttl now v else v) ts = ts"
      by (intro map_idI) (auto simp: image_iff)
    with True Cons.prems(2) show ?thesis by auto
  next
    case False
    with Cons.prems have "distinct (map task_id ts)" and "fst (claim_scan w ttl now ts) = Some t'"
      by (auto simp: case_prod_beta)
    with Cons.IH obtain t where t: "t \<in> set ts" "claimable now t" "t' = lease_to w ttl now t"
      and m: "snd (claim_scan w ttl now ts) =
        map (\<lambda>u. if task_id u = task_id t then lease_to w ttl now u else u) ts" by blast
    moreover from t(1) Cons.prems(1) have "task_id u \<noteq> task_id t" by auto
    ultimately show ?thesis using False by (auto simp: case_prod_beta)
  qed
qed


lemma claim_as_map:
  assumes "distinct (ids s)" and "claim w ttl now s = (Some t', s1)"
  shows "\<exists>t \<in> set (tasks s). claimable now t \<and> t' = lease_to w ttl now t \<and>
    s1 = s\<lparr>tasks := map (\<lambda>u. if task_id u = task_id t then lease_to w ttl now u else u) (tasks s)\<rparr>"
  using claim_scan_as_map [of "tasks s" w ttl now t'] assms
  by (auto simp: ids_def claim_def case_prod_beta)

lemma round_as_map:
  assumes d: "distinct (ids s)" and c: "claim w ttl now s = (Some t', s1)"
  shows "\<exists>t \<in> set (tasks s). claimable now t \<and> t' = lease_to w ttl now t \<and>
    snd (run_claimed run_task t' s1) = s\<lparr>tasks := map (\<lambda>u. if task_id u = task_id t
        then settle (run_task t') (max_attempts s) (lease_to w ttl now u) else u) (tasks s)\<rparr> \<and>
    out_id (fst (run_claimed run_task t' s1)) = task_id t \<and>
    out_status (fst (run_claimed run_task t' s1)) =
      task_status (settle (run_task t') (max_attempts s) t')"
proof -
  from claim_as_map [OF d c] obtain t where t: "t \<in> set (tasks s)" "claimable now t"
    "t' = lease_to w ttl now t"
    and s1: "s1 = s\<lparr>tasks := map (\<lambda>u. if task_id u = task_id t then lease_to w ttl now u else u) (tasks s)\<rparr>"
    by blast
  have "get_task s1 (task_id t') = Some t'"
    using get_task_claim [OF d, of w ttl now "task_id t'"] c by simp
  with run_claimed_store [of s1 t' run_task] run_claimed_outcome [of s1 t' run_task] t s1
  show ?thesis
    by (intro bexI [of _ t]) (auto simp: update_task_def)
qed

text \<open>
  What the loop keeps, started on a store where nothing is running: identifiers are unique,
  nothing is left running after a round, and the dead letters of the report are the tasks
  that died in it.
\<close>

definition pool_inv ::
    "('p, 'r) task_store \<Rightarrow> ('p, 'r) task_store \<Rightarrow> 'r execution_report \<Rightarrow> bool" where
  "pool_inv s0 s rep \<longleftrightarrow>
     ids s = ids s0 \<and> distinct (ids s) \<and> (\<forall>t \<in> set (tasks s). task_status t \<noteq> RUNNING) \<and>
     set (dead_ids rep) = task_id ` set (dead_letters s)"

lemma dead_ids_upd:
  assumes "distinct (map task_id ts)" and "t \<in> set ts" and "task_status t \<noteq> DEAD"
    and "task_id (g t) = task_id t"
  shows "task_id ` set (filter (\<lambda>u. task_status u = DEAD)
      (map (\<lambda>u. if task_id u = task_id t then g u else u) ts)) =
    (if task_status (g t) = DEAD then {task_id t} else {}) \<union>
      task_id ` set (filter (\<lambda>u. task_status u = DEAD) ts)"
  using assms
proof (induction ts)
  case Nil
  then show ?case by simp
next
  case (Cons u ts)
  show ?case
  proof (cases "u = t")
    case True
    with Cons.prems(1) have "map (\<lambda>v. if task_id v = task_id t then g v else v) ts = ts"
      by (intro map_idI) (auto simp: image_iff)
    with True Cons.prems show ?thesis by simp
  next
    case False
    with Cons.prems have "task_id u \<noteq> task_id t" by force
    with False Cons show ?thesis by auto
  qed
qed

lemma pool_inv_start:
  assumes "distinct (ids s)" and "\<forall>t \<in> set (tasks s). task_status t \<in> {QUEUED, DONE}"
  shows "pool_inv s s empty_report"
  using assms by (auto simp: pool_inv_def empty_report_def dead_letters_def)

lemma round_keeps:
  assumes inv: "pool_inv s0 s rep" and c: "claim w ttl now s = (Some t', s1)"
    and r: "run_claimed run_task t' s1 = (o', s2)"
  shows "pool_inv s0 s2 (record_outcome o' rep) \<and> store_work s2 < store_work s"
proof -
  have d: "distinct (ids s)" using inv unfolding pool_inv_def by blast
  from round_as_map [OF d c, of run_task] r obtain t where t: "t \<in> set (tasks s)" "claimable now t"
    "t' = lease_to w ttl now t"
    and s2: "s2 = s\<lparr>tasks := map (\<lambda>u. if task_id u = task_id t
        then settle (run_task t') (max_attempts s) (lease_to w ttl now u) else u) (tasks s)\<rparr>"
    and oid: "out_id o' = task_id t"
    and ost: "out_status o' = task_status (settle (run_task t') (max_attempts s) t')"
    by auto
  have uniq: "u \<in> set (tasks s) \<Longrightarrow> task_id u = task_id t \<Longrightarrow> u = t" for u
    using d t(1) by (auto simp: ids_def distinct_map inj_on_def)
  have "ids s2 = ids s" by (auto simp: s2 ids_def)
  moreover have "\<forall>u \<in> set (tasks s2). task_status u \<noteq> RUNNING"
    using inv by (auto simp: s2 pool_inv_def)
  moreover have "task_status t \<noteq> DEAD" using t(2) by (auto simp: claimable_def reclaimable_def)
  then have "task_id ` set (dead_letters s2) = (if out_status o' = DEAD
      then insert (task_id t) (task_id ` set (dead_letters s)) else task_id ` set (dead_letters s))"
    using dead_ids_upd [OF d [unfolded ids_def] t(1), of
        "\<lambda>u. settle (run_task t') (max_attempts s) (lease_to w ttl now u)"]
    by (simp add: s2 ost t(3) dead_letters_def)
  ultimately have "pool_inv s0 s2 (record_outcome o' rep)"
    using inv by (auto simp: pool_inv_def record_outcome_def oid)
  moreover have "store_work s2 < store_work s"
    unfolding store_work_def s2
    using sum_list_map_update_id [of task_id "tasks s" t "task_work (max_attempts s)"
        "\<lambda>u. settle (run_task t') (max_attempts s) (lease_to w ttl now u)"]
      settle_work [OF t(2)] d t(1) by (simp add: ids_def)
  ultimately show ?thesis ..
qed

lemma drain_settles:
  "pool_inv s0 s rep \<Longrightarrow> store_work s < fuel \<Longrightarrow>
   \<exists>s' rep'. drain run_task ttl clk k fuel s rep = Some (s', rep') \<and> pool_inv s0 s' rep' \<and>
     (\<forall>t \<in> set (tasks s'). task_status t \<in> {DONE, DEAD})"
proof (induction fuel arbitrary: k s rep)
  case 0
  then show ?case by simp
next
  case (Suc fuel)
  obtain c s1 where c: "claim ''worker-0'' ttl (clk k) s = (c, s1)" by fastforce
  show ?case
  proof (cases c)
    case None
    with c claim_None [of "''worker-0''" ttl "clk k" s]
    have nc: "\<forall>t \<in> set (tasks s). \<not> claimable (clk k) t" by simp
    then have "s1 = s" using c None
      by (auto simp: claim_def claim_scan_find find_None_iff case_prod_beta split: option.splits)
    moreover from nc Suc.prems(1) have "\<forall>t \<in> set (tasks s). task_status t \<in> {DONE, DEAD}"
      by (auto simp: claimable_def pool_inv_def) (metis status.exhaust)
    ultimately show ?thesis using c None Suc.prems(1) by simp
  next
    case (Some t)
    obtain o' s2 where r: "run_claimed run_task t s1 = (o', s2)" by fastforce
    from round_keeps [OF Suc.prems(1) c [unfolded Some] r] Suc.prems(2)
    have "pool_inv s0 s2 (record_outcome o' rep)" and "store_work s2 < fuel" by auto
    from Suc.IH [OF this] c Some r show ?thesis by simp
  qed
qed

subsection \<open>Property\<close>

text \<open>The worker pool drains its store. Started on queued tasks with unique identifiers, the
  loop returns (\<open>store_work\<close> rounds are enough: each task needs at most one round more than
  \<open>max_attempts\<close>), whatever the tasks do and whatever the clock says; then every task is
  done or dead, none is lost, and the report's dead letters are exactly the dead tasks.\<close>

theorem drain_terminates:
  assumes "distinct (ids s)" and "\<forall>t \<in> set (tasks s). task_status t = QUEUED"
  shows "\<exists>s' rep. drain run_task ttl clk 0 (Suc (store_work s)) s empty_report = Some (s', rep) \<and>
    ids s' = ids s \<and> (\<forall>t \<in> set (tasks s'). task_status t \<in> {DONE, DEAD}) \<and>
    set (dead_ids rep) = task_id ` set (dead_letters s')"
proof -
  have "pool_inv s s empty_report" using assms by (intro pool_inv_start) auto
  from drain_settles [OF this, of "Suc (store_work s)" run_task ttl clk 0]
  show ?thesis by (auto simp: pool_inv_def)
qed

theorem drain_terminates_witness:
  "\<exists>s' rep. drain (\<lambda>t. if payload t = 1 then Returned (5 :: nat) else Raised ''boom'') 30 (\<lambda>_. 0) 0
      (Suc (store_work (enqueue ''b'' 2 (enqueue ''a'' 1 (init_store 2 :: (nat, nat) task_store)))))
      (enqueue ''b'' 2 (enqueue ''a'' 1 (init_store 2 :: (nat, nat) task_store))) empty_report
      = Some (s', rep) \<and>
    set (dead_ids rep) = task_id ` set (dead_letters s')"
proof -
  let ?s = "enqueue ''b'' 2 (enqueue ''a'' 1 (init_store 2 :: (nat, nat) task_store))"
  have "distinct (ids ?s)" and "\<forall>t \<in> set (tasks ?s). task_status t = QUEUED"
    by (simp_all add: enqueue_def init_store_def ids_def new_task_def)
  from drain_terminates [OF this] show ?thesis by blast
qed

end
