(* ===== verification/Fnmatch.thy ===== *)
theory Fnmatch
  imports Prelude
begin

section \<open>Shell patterns: the standard library's \<open>fnmatch\<close>\<close>

text \<open>
  \<open>fnmatch.fnmatch\<close> and \<open>fnmatch.fnmatchcase\<close> on a POSIX system (no case folding): \<open>*\<close> matches
  any text, a slash included, \<open>?\<close> one character, \<open>[seq]\<close> and \<open>[!seq]\<close> one character in or
  not in the sequence. A bracket that is never closed is a literal. Not covered: a class whose
  first range is empty and is followed by \<open>!\<close>, which the library turns into a negation.
\<close>

datatype glob_item =
    AnyRun
  | AnyChar
  | OneOf bool "(char \<times> char) list"

definition in_range :: "char \<Rightarrow> char \<times> char \<Rightarrow> bool" where
  "in_range c r \<longleftrightarrow> (of_char (fst r) :: nat) \<le> of_char c \<and> (of_char c :: nat) \<le> of_char (snd r)"

fun class_ranges :: "string \<Rightarrow> (char \<times> char) list" where
  "class_ranges (a # b # c # cs) =
     (if b = CHR ''-'' then (a, c) # class_ranges cs else (a, a) # class_ranges (b # c # cs))"
| "class_ranges [a, b] = [(a, a), (b, b)]"
| "class_ranges [a] = [(a, a)]"
| "class_ranges [] = []"

text \<open>The class after an opening bracket, and what follows it; its first character may be the
  closing bracket.\<close>

definition split_class :: "string \<Rightarrow> (string \<times> string) option" where
  "split_class s =
     (case s of
        [] \<Rightarrow> None
      | c # cs \<Rightarrow>
          (case dropWhile (\<lambda>x. x \<noteq> CHR '']'') cs of
             [] \<Rightarrow> None
           | _ # rest \<Rightarrow> Some (c # takeWhile (\<lambda>x. x \<noteq> CHR '']'') cs, rest)))"

definition parse_class :: "string \<Rightarrow> (glob_item \<times> string) option" where
  "parse_class s =
     (let neg = startswith s ''!'';
          body = (if neg then tl s else s)
      in map_option (\<lambda>(b, rest). (OneOf neg (class_ranges b), rest)) (split_class body))"

lemma length_dropWhile_tail: "dropWhile p cs = x # rest \<Longrightarrow> length rest < length cs"
  using length_dropWhile_le [of p cs] by simp

lemma split_class_shorter: "split_class s = Some (b, rest) \<Longrightarrow> length rest < length s"
  by (auto simp: split_class_def split: list.splits dest: length_dropWhile_tail)

lemma parse_class_shorter: "parse_class s = Some (i, rest) \<Longrightarrow> length rest < length s"
  using split_class_shorter [of "tl s"] split_class_shorter [of s]
  by (cases s) (auto simp: parse_class_def Let_def split: if_splits)

function parse_glob :: "string \<Rightarrow> glob_item list" where
  "parse_glob [] = []"
| "parse_glob (c # cs) =
     (if c = CHR ''*'' then AnyRun # parse_glob cs
      else if c = CHR ''?'' then AnyChar # parse_glob cs
      else if c = CHR ''['' then
        (case parse_class cs of
           None \<Rightarrow> OneOf False [(c, c)] # parse_glob cs
         | Some (i, rest) \<Rightarrow> i # parse_glob rest)
      else OneOf False [(c, c)] # parse_glob cs)"
  by pat_completeness auto
termination
  by (relation "measure length") (auto dest: parse_class_shorter)

fun item_matches :: "glob_item \<Rightarrow> char \<Rightarrow> bool" where
  "item_matches AnyRun c = True"
| "item_matches AnyChar c = True"
| "item_matches (OneOf neg rs) c = (list_ex (in_range c) rs \<noteq> neg)"

fun match_items :: "glob_item list \<Rightarrow> string \<Rightarrow> bool" where
  "match_items [] s = (s = [])"
| "match_items (AnyRun # ps) [] = match_items ps []"
| "match_items (AnyRun # ps) (c # cs) = (match_items ps (c # cs) \<or> match_items (AnyRun # ps) cs)"
| "match_items (p # ps) [] = False"
| "match_items (p # ps) (c # cs) = (item_matches p c \<and> match_items ps cs)"

definition fnmatch :: "string \<Rightarrow> string \<Rightarrow> bool" where
  "fnmatch name pat = match_items (parse_glob pat) name"

subsection \<open>Laws\<close>

definition plain_char :: "char \<Rightarrow> bool" where
  "plain_char c \<longleftrightarrow> c \<noteq> CHR ''*'' \<and> c \<noteq> CHR ''?'' \<and> c \<noteq> CHR ''[''"

lemma of_char_eq_nat: "(of_char a :: nat) = of_char b \<longleftrightarrow> a = b"
  by (metis char_of_char)

lemma in_range_single [simp]: "in_range c (a, a) \<longleftrightarrow> c = a"
  unfolding in_range_def fst_conv snd_conv by (metis of_char_eq_nat order.antisym order.refl)

lemma parse_glob_plain: "plain_char c \<Longrightarrow> parse_glob (c # cs) = OneOf False [(c, c)] # parse_glob cs"
  by (simp add: plain_char_def)

lemma match_plain_prefix:
  "list_all plain_char p \<Longrightarrow>
   match_items (parse_glob (p @ q)) s \<longleftrightarrow> (\<exists>r. s = p @ r \<and> match_items (parse_glob q) r)"
proof (induction p arbitrary: s)
  case Nil
  then show ?case by simp
next
  case (Cons c p)
  then show ?case by (cases s) (auto simp: parse_glob_plain simp del: parse_glob.simps(2))
qed

lemma fnmatch_literal: "list_all plain_char p \<Longrightarrow> fnmatch s p \<longleftrightarrow> s = p"
  using match_plain_prefix [of p "[]" s] by (simp add: fnmatch_def)

lemma match_star_end: "match_items [AnyRun] s"
  by (induction s) simp_all

text \<open>\<open>prefix/*\<close> and \<open>prefix/**\<close> both mean: anything below the prefix, at any depth.\<close>

lemma fnmatch_prefix_star: "list_all plain_char p \<Longrightarrow> fnmatch s (p @ ''*'') \<longleftrightarrow> startswith s p"
  using match_plain_prefix [of p "''*''" s] by (auto simp: fnmatch_def match_star_end prefix_def)

lemma match_star_suffix:
  "match_items (AnyRun # ps) s \<longleftrightarrow> (\<exists>a b. s = a @ b \<and> match_items ps b)"
proof (induction s)
  case Nil
  then show ?case by simp
next
  case (Cons c s)
  then show ?case by (auto simp: Cons_eq_append_conv)
qed

lemma fnmatch_prefix_star_star: "list_all plain_char p \<Longrightarrow> fnmatch s (p @ ''**'') \<longleftrightarrow> startswith s p"
  using match_plain_prefix [of p "''**''" s]
  by (auto simp: fnmatch_def match_star_suffix match_star_end prefix_def)

lemma fnmatch_star_suffix: "list_all plain_char p \<Longrightarrow> fnmatch s (CHR ''*'' # p) \<longleftrightarrow> endswith s p"
  using match_plain_prefix [of p "[]"]
  by (auto simp: fnmatch_def match_star_suffix suffix_def)

end
