(* ===== verification/TrustTiers.thy ===== *)
theory TrustTiers
  imports Fnmatch
begin

section \<open>Trust tier surfaces (\<open>trust_tiers.py\<close>)\<close>

text \<open>
  The registry of trust-tier surfaces. The directory of surface files is an association list
  from file names to contents; \<open>sha\<close> is \<open>hashlib.sha256(..).hexdigest()\<close> and \<open>now\<close> the reading
  of the clock, both arguments. A surface is the dictionary the file holds, so a file edited by
  hand is an input like any other; what \<open>json.dumps\<close> writes, \<open>json.loads\<close> reads back.
\<close>

type_synonym surface = "(string \<times> py) list"
type_synonym surface_disk = "(string \<times> json_file) list"

datatype tt_error =
    TrustTierError string
  | FileExistsError string
  | FileNotFoundError string
  | JSONDecodeError
  | KeyError string
  | TypeError

definition SCHEMA_VERSION :: string where
  "SCHEMA_VERSION = ''signalos.trust_tier_surface.v1''"

definition tier_order :: "string \<Rightarrow> nat option" where
  "tier_order t =
     (if t = ''T1'' then Some 1 else if t = ''T2'' then Some 2 else if t = ''T3'' then Some 3
      else None)"

subsection \<open>Normalisation\<close>

definition normalize_tier :: "string \<Rightarrow> tt_error + string" where
  "normalize_tier tier =
     (let n = upper (strip tier) in
      if tier_order n = None then Inl (TrustTierError ''tier must be T1, T2, or T3'') else Inr n)"

fun drop_dot_slash :: "string \<Rightarrow> string" where
  "drop_dot_slash (a # b # cs) =
     (if a = CHR ''.'' \<and> b = CHR ''/'' then drop_dot_slash cs else a # b # cs)"
| "drop_dot_slash cs = cs"

definition normalize_surface_id :: "string \<Rightarrow> tt_error + string" where
  "normalize_surface_id surface_id =
     (let text = drop_dot_slash (replace_char CHR 0x5C CHR ''/'' (strip surface_id)) in
      if text = [] then Inl (TrustTierError ''surface_id is required'')
      else if 400 < length text
      then Inl (TrustTierError ''surface_id must be 400 characters or fewer'')
      else if startswith text ''/'' \<or> ''..'' \<in> set (split_on CHR ''/'' text)
      then Inl (TrustTierError ''surface_id must be a safe relative path or surface identifier'')
      else Inr text)"

definition normalize_tenant_id :: "py \<Rightarrow> tt_error + string option" where
  "normalize_tenant_id tenant_id =
     (if tenant_id = PNone then Inr None
      else
        (let text = strip (py_str tenant_id) in
         if text = [] then Inr None
         else if 200 < length text
         then Inl (TrustTierError ''tenant_id must be 200 characters or fewer'')
         else if \<exists>ch \<in> set text. (of_char ch :: nat) < 32
         then Inl (TrustTierError ''tenant_id must not contain control characters'')
         else Inr (Some text)))"

definition require_text :: "string \<Rightarrow> string \<Rightarrow> nat \<Rightarrow> tt_error + string" where
  "require_text value field max_length =
     (let text = strip value in
      if text = [] then Inl (TrustTierError (field @ '' is required''))
      else if max_length < length text
      then Inl (TrustTierError (field @ '' must be '' @ nat_str max_length @ '' characters or fewer''))
      else Inr text)"

definition tenant_token :: "string option \<Rightarrow> string" where
  "tenant_token tenant_id = (case tenant_id of Some t \<Rightarrow> t | None \<Rightarrow> ''host'')"

definition tenant_cli_arg :: "string option \<Rightarrow> string" where
  "tenant_cli_arg tenant_id = (case tenant_id of Some t \<Rightarrow> '' --tenant-id '' @ t | None \<Rightarrow> [])"

definition surface_uid :: "(string \<Rightarrow> string) \<Rightarrow> string option \<Rightarrow> string \<Rightarrow> string" where
  "surface_uid sha tenant_id surface_id =
     ''stt_'' @ take 32 (sha (tenant_token tenant_id @ [CHR 0x00] @ surface_id))"

definition surface_path :: "(string \<Rightarrow> string) \<Rightarrow> string \<Rightarrow> string option \<Rightarrow> string" where
  "surface_path sha surface_id tenant_id =
     take 24 (sha (tenant_token tenant_id @ [CHR 0x00] @ surface_id)) @ ''.json''"

definition surface_lookup_cache_key :: "string \<Rightarrow> py \<Rightarrow> tt_error + string" where
  "surface_lookup_cache_key surface_id tenant_id =
     and_then (normalize_surface_id surface_id) (\<lambda>s.
     and_then (normalize_tenant_id tenant_id) (\<lambda>t.
       Inr (''trusttiers:surface:'' @ tenant_token t @ '':'' @ s)))"

subsection \<open>Validation and files\<close>

definition validate_surface :: "(string \<Rightarrow> string) \<Rightarrow> surface \<Rightarrow> tt_error + unit" where
  "validate_surface sha d =
     (if get_py d ''schema_version'' \<noteq> PStr SCHEMA_VERSION
      then Inl (TrustTierError ''unsupported trust-tier surface schema'')
      else
        and_then (normalize_surface_id (get_str d ''surface_id'')) (\<lambda>surface_id.
        and_then (normalize_tenant_id (get_py d ''tenant_id'')) (\<lambda>tenant_id.
        and_then (normalize_tier (get_str d ''tier'')) (\<lambda>tier.
        and_then (require_text (get_str d ''justification'') ''justification'' 1000) (\<lambda>_.
          if truthy (get_py d ''is_permanently_t3'') \<and> tier \<noteq> ''T3''
          then Inl (TrustTierError ''permanently-T3 surface must be Tier=T3'')
          else if get_py d ''id'' \<noteq> PNone \<and> get_py d ''id'' \<noteq> PStr (surface_uid sha tenant_id surface_id)
          then Inl (TrustTierError ''trust-tier surface id does not match tenant/surface'')
          else if get_py d ''lookup_cache_key'' = PNone then Inr ()
          else
            and_then (surface_lookup_cache_key surface_id (opt_str tenant_id)) (\<lambda>key.
              if get_py d ''lookup_cache_key'' \<noteq> PStr key
              then Inl (TrustTierError ''trust-tier lookup cache key does not match tenant/surface'')
              else Inr ()))))))"

definition write_surface ::
    "(string \<Rightarrow> string) \<Rightarrow> surface \<Rightarrow> surface_disk \<Rightarrow> tt_error + surface_disk" where
  "write_surface sha d disk =
     and_then (normalize_tenant_id (get_py d ''tenant_id'')) (\<lambda>tenant.
       Inr (dict_set disk (surface_path sha (get_str d ''surface_id'') tenant) (Json (PDict d))))"

definition history_entry :: "string \<Rightarrow> py \<Rightarrow> string \<Rightarrow> string \<Rightarrow> string \<Rightarrow> py" where
  "history_entry action before to reason now =
     PDict [(''action'', PStr action), (''from'', before), (''to'', PStr to),
            (''justification'', PStr reason), (''at'', PStr now)]"

subsection \<open>Operations\<close>

definition register_trust_surface ::
    "(string \<Rightarrow> string) \<Rightarrow> string \<Rightarrow> string \<Rightarrow> string \<Rightarrow> string \<Rightarrow> bool \<Rightarrow> py \<Rightarrow> bool \<Rightarrow> surface_disk \<Rightarrow>
     tt_error + surface \<times> surface_disk" where
  "register_trust_surface sha now surface_id tier justification perm tenant_id force disk =
     and_then (normalize_surface_id surface_id) (\<lambda>s.
     and_then (normalize_tier tier) (\<lambda>t.
     and_then (normalize_tenant_id tenant_id) (\<lambda>tenant.
     and_then (require_text justification ''justification'' 1000) (\<lambda>reason.
       if perm \<and> t \<noteq> ''T3''
       then Inl (TrustTierError ''permanently-T3 surface must start at Tier=T3'')
       else if dict_get disk (surface_path sha s tenant) \<noteq> None \<and> \<not> force
       then Inl (FileExistsError (''trust-tier surface already exists for tenant '' @
              tenant_token tenant @ '': '' @ s))
       else
         and_then (surface_lookup_cache_key s (opt_str tenant)) (\<lambda>key.
           let surface =
             [(''schema_version'', PStr SCHEMA_VERSION),
              (''id'', PStr (surface_uid sha tenant s)),
              (''tenant_id'', opt_str tenant),
              (''surface_id'', PStr s),
              (''tier'', PStr t),
              (''justification'', PStr reason),
              (''is_permanently_t3'', PBool perm),
              (''lookup_cache_key'', PStr key),
              (''created_at'', PStr now),
              (''updated_at'', PStr now),
              (''history'', PList [history_entry ''register'' PNone t reason now])]
           in and_then (write_surface sha surface disk) (\<lambda>disk. Inr (surface, disk)))))))"

definition load_trust_surface ::
    "(string \<Rightarrow> string) \<Rightarrow> string \<Rightarrow> py \<Rightarrow> surface_disk \<Rightarrow> tt_error + surface" where
  "load_trust_surface sha surface_id tenant_id disk =
     and_then (normalize_surface_id surface_id) (\<lambda>s.
     and_then (normalize_tenant_id tenant_id) (\<lambda>tenant.
       case dict_get disk (surface_path sha s tenant) of
         None \<Rightarrow> Inl (FileNotFoundError (''trust-tier surface not found for tenant '' @
                   tenant_token tenant @ '': '' @ s))
       | Some Garbled \<Rightarrow> Inl JSONDecodeError
       | Some (Json (PDict d)) \<Rightarrow> and_then (validate_surface sha d) (\<lambda>_. Inr d)
       | Some (Json _) \<Rightarrow>
           Inl (TrustTierError ''trust-tier surface file must contain a JSON object'')))"

definition get_trust_surface_by_surface ::
    "(string \<Rightarrow> string) \<Rightarrow> string \<Rightarrow> py \<Rightarrow> surface_disk \<Rightarrow> tt_error + surface option" where
  "get_trust_surface_by_surface sha surface_id tenant_id disk =
     (case load_trust_surface sha surface_id tenant_id disk of
        Inl (FileNotFoundError m) \<Rightarrow> Inr None
      | Inl e \<Rightarrow> Inl e
      | Inr d \<Rightarrow> Inr (Some d))"

text \<open>\<open>path.glob("*.json")\<close> in the order of the names; files that do not parse, hold no object or
  do not validate are skipped.\<close>

definition listed ::
    "(string \<Rightarrow> string) \<Rightarrow> string option \<Rightarrow> string option \<Rightarrow> bool \<Rightarrow> json_file \<Rightarrow> surface option" where
  "listed sha wanted_tier wanted_tenant all_tenants f =
     (case f of
        Json (PDict d) \<Rightarrow>
          (case validate_surface sha d of
             Inl _ \<Rightarrow> None
           | Inr _ \<Rightarrow>
               if \<not> all_tenants \<and> normalize_tenant_id (get_py d ''tenant_id'') \<noteq> Inr wanted_tenant
               then None
               else if wanted_tier \<noteq> None \<and> get_py d ''tier'' \<noteq> PStr (the wanted_tier)
               then None
               else Some d)
      | _ \<Rightarrow> None)"

definition list_trust_surfaces ::
    "(string \<Rightarrow> string) \<Rightarrow> string option \<Rightarrow> py \<Rightarrow> bool \<Rightarrow> surface_disk \<Rightarrow> tt_error + surface list" where
  "list_trust_surfaces sha tier tenant_id all_tenants disk =
     and_then (case tier of
                 None \<Rightarrow> Inr None
               | Some t \<Rightarrow> if t = [] then Inr None else map_sum id Some (normalize_tier t))
       (\<lambda>wanted_tier.
     and_then (normalize_tenant_id tenant_id) (\<lambda>wanted_tenant.
       Inr (List.map_filter (\<lambda>kv. listed sha wanted_tier wanted_tenant all_tenants (snd kv))
              (sort_key fst (filter (\<lambda>kv. endswith (fst kv) ''.json'') disk)))))"

definition transition_surface ::
    "(string \<Rightarrow> string) \<Rightarrow> string \<Rightarrow> surface \<Rightarrow> string \<Rightarrow> string \<Rightarrow> string \<Rightarrow> surface_disk \<Rightarrow>
     tt_error + surface \<times> surface_disk" where
  "transition_surface sha now surface action target justification disk =
     and_then (require_text justification ''justification'' 1000) (\<lambda>reason.
       let before = get_py surface ''tier'';
           d = dict_set surface ''tier'' (PStr target);
           d = dict_set d ''justification'' (PStr reason);
           d = dict_set d ''updated_at'' (PStr now);
           old = (case dict_get d ''history'' of Some (PList hs) \<Rightarrow> hs | _ \<Rightarrow> []);
           d = dict_set d ''history'' (PList (old @ [history_entry action before target reason now]))
       in and_then (write_surface sha d disk) (\<lambda>disk. Inr (d, disk)))"

text \<open>\<open>_TIER_ORDER[surface["tier"]]\<close>: the value in the file as it is, not normalised.\<close>

definition tier_of :: "surface \<Rightarrow> tt_error + nat" where
  "tier_of d =
     (case tier_order (get_str d ''tier'') of
        None \<Rightarrow> Inl (KeyError (get_str d ''tier''))
      | Some n \<Rightarrow> Inr n)"

definition promote_trust_surface ::
    "(string \<Rightarrow> string) \<Rightarrow> string \<Rightarrow> string \<Rightarrow> string \<Rightarrow> string \<Rightarrow> py \<Rightarrow> surface_disk \<Rightarrow>
     tt_error + surface \<times> surface_disk" where
  "promote_trust_surface sha now surface_id target_tier justification tenant_id disk =
     and_then (load_trust_surface sha surface_id tenant_id disk) (\<lambda>surface.
     and_then (normalize_tier target_tier) (\<lambda>target.
     and_then (tier_of surface) (\<lambda>current.
       if the (tier_order target) \<le> current then Inl (TrustTierError ''promote must move upward'')
       else transition_surface sha now surface ''promote'' target justification disk)))"

definition demote_trust_surface ::
    "(string \<Rightarrow> string) \<Rightarrow> string \<Rightarrow> string \<Rightarrow> string \<Rightarrow> string \<Rightarrow> py \<Rightarrow> surface_disk \<Rightarrow>
     tt_error + surface \<times> surface_disk" where
  "demote_trust_surface sha now surface_id target_tier justification tenant_id disk =
     and_then (load_trust_surface sha surface_id tenant_id disk) (\<lambda>surface.
       if truthy (get_py surface ''is_permanently_t3'')
       then Inl (TrustTierError (''cannot demote permanently-T3 surface '' @ get_str surface ''surface_id''))
       else
         and_then (normalize_tier target_tier) (\<lambda>target.
         and_then (tier_of surface) (\<lambda>current.
           if current \<le> the (tier_order target)
           then Inl (TrustTierError ''demote must move downward'')
           else transition_surface sha now surface ''demote'' target justification disk)))"

subsection \<open>Validation of touched paths\<close>

definition has_meta :: "string \<Rightarrow> bool" where
  "has_meta s \<longleftrightarrow> list_ex (\<lambda>ch. ch \<in> set s) ''*?[]''"

definition surface_matches :: "string \<Rightarrow> string \<Rightarrow> bool" where
  "surface_matches path surface_id =
     (if has_meta surface_id then fnmatch path surface_id
      else
        (let n = rstrip_by (\<lambda>c. c = CHR ''/'') surface_id
         in path = n \<or> startswith path (n @ ''/'')))"

text \<open>A surface whose identifier is not text makes the loop raise (\<open>TypeError\<close>, or
  \<open>AttributeError\<close> for a list).\<close>

fun matching_surfaces :: "string \<Rightarrow> surface list \<Rightarrow> tt_error + surface list" where
  "matching_surfaces path [] = Inr []"
| "matching_surfaces path (d # ds) =
     (case get_py d ''surface_id'' of
        PStr i \<Rightarrow>
          and_then (matching_surfaces path ds) (\<lambda>ms.
            Inr (if surface_matches path i then d # ms else ms))
      | _ \<Rightarrow> Inl TypeError)"

text \<open>\<open>max(matches, key=...)\<close>: the first surface of the highest tier.\<close>

fun max_tier :: "surface \<Rightarrow> nat \<Rightarrow> surface list \<Rightarrow> tt_error + surface" where
  "max_tier best n [] = Inr best"
| "max_tier best n (d # ds) =
     and_then (tier_of d) (\<lambda>k. if n < k then max_tier d k ds else max_tier best n ds)"

datatype blocker =
    SurfaceUnclassified (blocked_path: string) (blocker_message: string) (fix_command: string)
  | DeclaredTierTooLow (blocked_path: string) (blocker_message: string) (fix_command: string)

record touched_path =
  touched_rel :: string
  required_tier :: "string option"
  matched_surfaces :: "(py \<times> py \<times> py) list"

record tier_validation =
  val_tenant :: "string option"
  val_declared :: string
  val_ok :: bool
  val_status :: string
  val_allow_unclassified :: bool
  val_surface_count :: nat
  val_touched :: "touched_path list"
  val_blockers :: "blocker list"

definition unclassified_blocker :: "string \<Rightarrow> string option \<Rightarrow> blocker" where
  "unclassified_blocker rel tenant =
     SurfaceUnclassified rel
       (rel @ '' has no registered trust-tier surface for tenant '' @ tenant_token tenant)
       (''signalos trust-tier surface register'' @ tenant_cli_arg tenant @
        '' --surface-id <path> --tier T2 --justification <reason>'')"

definition too_low_blocker :: "string \<Rightarrow> string \<Rightarrow> string \<Rightarrow> blocker" where
  "too_low_blocker rel required declared =
     DeclaredTierTooLow rel
       (rel @ '' requires '' @ required @ '' but declared tier is '' @ declared)
       (''redeclare the session as '' @ required @ '' or avoid the surface'')"

fun matched_rows :: "surface list \<Rightarrow> tt_error + (py \<times> py \<times> py) list" where
  "matched_rows [] = Inr []"
| "matched_rows (d # ds) =
     (case dict_get d ''is_permanently_t3'' of
        None \<Rightarrow> Inl (KeyError ''is_permanently_t3'')
      | Some p \<Rightarrow>
          and_then (matched_rows ds) (\<lambda>rows.
            Inr ((get_py d ''surface_id'', get_py d ''tier'', p) # rows)))"

definition check_path ::
    "string \<Rightarrow> string option \<Rightarrow> bool \<Rightarrow> surface list \<Rightarrow> string \<Rightarrow>
     tt_error + touched_path \<times> blocker list" where
  "check_path declared tenant allow_unclassified surfaces raw_path =
     and_then (normalize_surface_id raw_path) (\<lambda>rel.
     and_then (matching_surfaces rel surfaces) (\<lambda>matches.
       case matches of
         [] \<Rightarrow>
           Inr (\<lparr>touched_rel = rel, required_tier = None, matched_surfaces = []\<rparr>,
                if allow_unclassified then [] else [unclassified_blocker rel tenant])
       | m # ms \<Rightarrow>
           and_then (tier_of m) (\<lambda>k.
           and_then (max_tier m k ms) (\<lambda>required.
           and_then (matched_rows matches) (\<lambda>rows.
           and_then (tier_of required) (\<lambda>r.
             let t = get_str required ''tier'' in
             Inr (\<lparr>touched_rel = rel, required_tier = Some t, matched_surfaces = rows\<rparr>,
                  if the (tier_order declared) < r then [too_low_blocker rel t declared] else [])))))))"

fun check_paths ::
    "string \<Rightarrow> string option \<Rightarrow> bool \<Rightarrow> surface list \<Rightarrow> string list \<Rightarrow>
     tt_error + touched_path list \<times> blocker list" where
  "check_paths declared tenant allow surfaces [] = Inr ([], [])"
| "check_paths declared tenant allow surfaces (p # ps) =
     and_then (check_path declared tenant allow surfaces p) (\<lambda>r.
     and_then (check_paths declared tenant allow surfaces ps) (\<lambda>rs.
       Inr (fst r # fst rs, snd r @ snd rs)))"

definition validate_trust_tier ::
    "(string \<Rightarrow> string) \<Rightarrow> string \<Rightarrow> string list \<Rightarrow> py \<Rightarrow> bool \<Rightarrow> surface_disk \<Rightarrow>
     tt_error + tier_validation" where
  "validate_trust_tier sha declared_tier touched_paths tenant_id allow_unclassified disk =
     and_then (normalize_tier declared_tier) (\<lambda>declared.
     and_then (normalize_tenant_id tenant_id) (\<lambda>tenant.
     and_then (list_trust_surfaces sha None (opt_str tenant) False disk) (\<lambda>surfaces.
     and_then (check_paths declared tenant allow_unclassified surfaces touched_paths) (\<lambda>tb.
       Inr \<lparr>val_tenant = tenant, val_declared = declared, val_ok = (snd tb = []),
            val_status = (if snd tb = [] then ''PASS'' else ''FAIL''),
            val_allow_unclassified = allow_unclassified, val_surface_count = length surfaces,
            val_touched = fst tb, val_blockers = snd tb\<rparr>))))"

subsection \<open>Lemmas\<close>

lemma normalize_tier_Inr: "normalize_tier x = Inr t \<Longrightarrow> t \<in> {''T1'', ''T2'', ''T3''}"
  by (auto simp: normalize_tier_def tier_order_def Let_def split: if_splits)

lemma strip_tier: "strip ''T1'' = ''T1''" "strip ''T2'' = ''T2''" "strip ''T3'' = ''T3''"
  by (simp_all add: strip_id is_space_def)

lemma upper_tier: "upper ''T1'' = ''T1''" "upper ''T2'' = ''T2''" "upper ''T3'' = ''T3''"
  by (simp_all add: upper_def char_upper_def is_lower_def)

lemma normalize_tier_idem: "normalize_tier x = Inr t \<Longrightarrow> normalize_tier t = Inr t"
  by (drule normalize_tier_Inr)
    (auto simp: normalize_tier_def strip_tier upper_tier tier_order_def)

lemma normalize_tenant_idem [simp]:
  "normalize_tenant_id x = Inr t \<Longrightarrow> normalize_tenant_id (opt_str t) = Inr t"
  by (auto simp: normalize_tenant_id_def opt_str_def Let_def split: if_splits)

lemma require_text_idem: "require_text x f n = Inr t \<Longrightarrow> require_text t f n = Inr t"
  by (auto simp: require_text_def Let_def split: if_splits)

lemma load_Inr:
  assumes "load_trust_surface sha i tenant disk = Inr d"
  shows "\<exists>s t. normalize_surface_id i = Inr s \<and> normalize_tenant_id tenant = Inr t \<and>
    dict_get disk (surface_path sha s t) = Some (Json (PDict d)) \<and> validate_surface sha d = Inr ()"
proof -
  from assms obtain s t where st: "normalize_surface_id i = Inr s" "normalize_tenant_id tenant = Inr t"
    by (auto simp: load_trust_surface_def and_then_Inr)
  obtain f where f: "dict_get disk (surface_path sha s t) = Some f"
    using assms st by (cases "dict_get disk (surface_path sha s t)") (auto simp: load_trust_surface_def)
  then obtain v where "f = Json v" using assms st by (cases f) (auto simp: load_trust_surface_def)
  with assms st f show ?thesis
    by (cases v) (auto simp: load_trust_surface_def and_then_Inr)
qed

lemma validate_permanent:
  "validate_surface sha d = Inr () \<Longrightarrow> truthy (get_py d ''is_permanently_t3'') \<Longrightarrow>
   tier_of d = Inr n \<Longrightarrow> n = 3"
  by (auto simp: validate_surface_def and_then_Inr tier_of_def normalize_tier_def Let_def
      tier_order_def strip_tier upper_tier split: if_splits)

lemma tier_order_le: "tier_order t = Some n \<Longrightarrow> n \<le> 3"
  by (auto simp: tier_order_def split: if_splits)

lemma normalize_tier_order: "normalize_tier x = Inr t \<Longrightarrow> \<exists>n. tier_order t = Some n \<and> n \<le> 3"
  by (drule normalize_tier_Inr) (auto simp: tier_order_def)

lemma transition_Inr:
  assumes "transition_surface sha now d action target why disk = Inr (d', disk')"
  shows "\<exists>t reason. normalize_tenant_id (get_py d ''tenant_id'') = Inr t \<and>
    get_py d' ''surface_id'' = get_py d ''surface_id'' \<and> get_py d' ''tenant_id'' = get_py d ''tenant_id'' \<and>
    get_str d' ''surface_id'' = get_str d ''surface_id'' \<and>
    get_py d' ''is_permanently_t3'' = get_py d ''is_permanently_t3'' \<and>
    get_str d' ''tier'' = target \<and>
    get_py d' ''history'' = PList ((case dict_get d ''history'' of Some (PList hs) \<Rightarrow> hs | _ \<Rightarrow> []) @
      [history_entry action (get_py d ''tier'') target reason now]) \<and>
    disk' = dict_set disk (surface_path sha (get_str d ''surface_id'') t) (Json (PDict d'))"
  using assms
  by (auto simp: transition_surface_def and_then_Inr write_surface_def Let_def)

subsection \<open>Runs of operations\<close>

datatype tt_op =
    Register string string string string bool py bool
  | Promote string string string string py
  | Demote string string string string py

fun tt_apply :: "(string \<Rightarrow> string) \<Rightarrow> surface_disk \<Rightarrow> tt_op \<Rightarrow> tt_error + surface \<times> surface_disk" where
  "tt_apply sha disk (Register now i t why perm tenant force) =
     register_trust_surface sha now i t why perm tenant force disk"
| "tt_apply sha disk (Promote now i t why tenant) = promote_trust_surface sha now i t why tenant disk"
| "tt_apply sha disk (Demote now i t why tenant) = demote_trust_surface sha now i t why tenant disk"

definition tt_step :: "(string \<Rightarrow> string) \<Rightarrow> surface_disk \<Rightarrow> tt_op \<Rightarrow> surface_disk" where
  "tt_step sha disk op = (case tt_apply sha disk op of Inl _ \<Rightarrow> disk | Inr (d, disk') \<Rightarrow> disk')"

text \<open>Every valid surface is stored in the file that an update of it would write.\<close>

definition homed :: "(string \<Rightarrow> string) \<Rightarrow> surface_disk \<Rightarrow> bool" where
  "homed sha disk \<longleftrightarrow>
     (\<forall>p d. dict_get disk p = Some (Json (PDict d)) \<longrightarrow> validate_surface sha d = Inr () \<longrightarrow>
        map_sum id (surface_path sha (get_str d ''surface_id'')) (normalize_tenant_id (get_py d ''tenant_id''))
          = Inr p)"

lemma homed_empty [inv_intros]: "homed sha []"
  by (simp add: homed_def)

lemma register_Inr:
  assumes "register_trust_surface sha now i tier why perm tenant force disk = Inr (d, disk')"
  shows "\<exists>s t. normalize_surface_id i = Inr s \<and> normalize_tenant_id tenant = Inr t \<and>
    get_str d ''surface_id'' = s \<and> normalize_tenant_id (get_py d ''tenant_id'') = Inr t \<and>
    (force \<or> dict_get disk (surface_path sha s t) = None) \<and>
    disk' = dict_set disk (surface_path sha s t) (Json (PDict d))"
  using assms
  by (auto simp: register_trust_surface_def and_then_Inr write_surface_def Let_def split: if_splits)

lemma moved_home:
  assumes "homed sha disk" and "load_trust_surface sha i tenant disk = Inr d"
    and "transition_surface sha now d action target why disk = Inr (d', disk')"
  shows "\<exists>p. dict_get disk p = Some (Json (PDict d)) \<and> disk' = dict_set disk p (Json (PDict d')) \<and>
    map_sum id (surface_path sha (get_str d' ''surface_id'')) (normalize_tenant_id (get_py d' ''tenant_id'')) = Inr p"
proof -
  from load_Inr [OF assms(2)] obtain p where p: "dict_get disk p = Some (Json (PDict d))"
    and v: "validate_surface sha d = Inr ()" by blast
  with assms(1) have "map_sum id (surface_path sha (get_str d ''surface_id''))
      (normalize_tenant_id (get_py d ''tenant_id'')) = Inr p"
    unfolding homed_def by blast
  with transition_Inr [OF assms(3)] p show ?thesis by auto
qed

lemma step_moves:
  assumes "homed sha disk" and "tt_apply sha disk op = Inr (d', disk')"
  shows "\<exists>p. disk' = dict_set disk p (Json (PDict d')) \<and>
    map_sum id (surface_path sha (get_str d' ''surface_id'')) (normalize_tenant_id (get_py d' ''tenant_id'')) = Inr p"
proof (cases op)
  case (Register now i t why perm tenant force)
  with assms(2) register_Inr [of sha now i t why perm tenant force disk d' disk'] show ?thesis by auto
next
  case (Promote now i t why tenant)
  with assms(2) show ?thesis
    by (auto simp: promote_trust_surface_def and_then_Inr split: if_splits dest!: moved_home [OF assms(1)])
next
  case (Demote now i t why tenant)
  with assms(2) show ?thesis
    by (auto simp: demote_trust_surface_def and_then_Inr split: if_splits dest!: moved_home [OF assms(1)])
qed

lemma permanent_not_moved:
  assumes "load_trust_surface sha i tenant disk = Inr d" and "truthy (get_py d ''is_permanently_t3'')"
  shows "\<exists>e. promote_trust_surface sha now i t why tenant disk = Inl e"
    and "\<exists>e. demote_trust_surface sha now i t why tenant disk = Inl e"
proof -
  from load_Inr [OF assms(1)] have v: "validate_surface sha d = Inr ()" by blast
  show "\<exists>e. promote_trust_surface sha now i t why tenant disk = Inl e"
    using assms(1) validate_permanent [OF v assms(2)] normalize_tier_order [of t]
    by (cases "normalize_tier t"; cases "tier_of d") (auto simp: promote_trust_surface_def)
  show "\<exists>e. demote_trust_surface sha now i t why tenant disk = Inl e"
    using assms by (simp add: demote_trust_surface_def)
qed

text \<open>What an operation that succeeds writes is never the file of a permanently-T3 surface.\<close>

lemma written_elsewhere:
  assumes h: "homed sha disk" and a: "tt_apply sha disk op = Inr (d', disk')"
    and p: "dict_get disk p = Some (Json (PDict d))" and v: "validate_surface sha d = Inr ()"
    and perm: "truthy (get_py d ''is_permanently_t3'')"
    and nf: "\<forall>now i t why perm tenant. op \<noteq> Register now i t why perm tenant True"
  shows "dict_get disk' p = Some (Json (PDict d))"
proof -
  have moved: "dict_get disk' p = Some (Json (PDict d))"
    if l: "load_trust_surface sha i tenant disk = Inr e"
      and t: "transition_surface sha now e action target why disk = Inr (d', disk')"
      and np: "\<not> truthy (get_py e ''is_permanently_t3'')" for i tenant e now action target why
    using moved_home [OF h l t] np p perm by auto
  show ?thesis
  proof (cases op)
    case (Register now i t why perm tenant force)
    with a nf register_Inr [of sha now i t why perm tenant force disk d' disk'] p show ?thesis by auto
  next
    case (Promote now i t why tenant)
    with a obtain e where e: "load_trust_surface sha i tenant disk = Inr e"
      by (auto simp: promote_trust_surface_def and_then_Inr)
    with a Promote permanent_not_moved(1) [OF e, of now t why]
    have "\<not> truthy (get_py e ''is_permanently_t3'')" by auto
    with a e Promote show ?thesis
      by (auto simp: promote_trust_surface_def and_then_Inr split: if_splits dest!: moved [OF e])
  next
    case (Demote now i t why tenant)
    with a obtain e where e: "load_trust_surface sha i tenant disk = Inr e"
      by (auto simp: demote_trust_surface_def and_then_Inr)
    with a Demote show ?thesis
      by (auto simp: demote_trust_surface_def and_then_Inr split: if_splits dest!: moved [OF e])
  qed
qed

lemma homed_step: "homed sha disk \<Longrightarrow> homed sha (tt_step sha disk op)"
  using step_moves [of sha disk op]
  by (cases "tt_apply sha disk op") (fastforce simp: tt_step_def homed_def split: if_splits)+

interpretation tiers: machine "tt_step sha" "homed sha" for sha
  by unfold_locales (rule homed_step)

subsection \<open>Lemmas on validation\<close>

lemma matching_surfaces_Inr:
  "matching_surfaces rel ds = Inr ms \<Longrightarrow>
   ms = filter (\<lambda>d. surface_matches rel (get_str d ''surface_id'')) ds"
proof (induction ds arbitrary: ms)
  case Nil
  then show ?case by simp
next
  case (Cons d ds)
  then obtain i where "get_py d ''surface_id'' = PStr i"
    by (cases "get_py d ''surface_id''") auto
  with Cons show ?case by (auto simp: and_then_Inr get_py_str split: if_splits)
qed

lemma max_tier_Inr:
  "max_tier best n ds = Inr r \<Longrightarrow> tier_of best = Inr n \<Longrightarrow>
   \<exists>k. tier_of r = Inr k \<and> n \<le> k \<and> (\<forall>d \<in> set ds. \<exists>j. tier_of d = Inr j \<and> j \<le> k) \<and>
     r \<in> insert best (set ds)"
proof (induction best n ds rule: max_tier.induct)
  case (1 best n)
  then show ?case by simp
next
  case (2 best n d ds)
  from 2(3) obtain j where j: "tier_of d = Inr j" by (auto simp: and_then_Inr)
  show ?case
  proof (cases "n < j")
    case True
    with 2 j show ?thesis by fastforce
  next
    case False
    with 2 j show ?thesis by fastforce
  qed
qed

definition path_ok :: "string \<Rightarrow> bool \<Rightarrow> surface list \<Rightarrow> string \<Rightarrow> bool" where
  "path_ok declared allow surfaces rel \<longleftrightarrow>
     (let ms = filter (\<lambda>d. surface_matches rel (get_str d ''surface_id'')) surfaces in
      (ms = [] \<longrightarrow> allow) \<and>
      (\<forall>d \<in> set ms. \<exists>k. tier_of d = Inr k \<and> k \<le> the (tier_order declared)))"

lemma check_path_Inr:
  assumes "check_path declared tenant allow surfaces raw = Inr (t, bs)"
  shows "\<exists>rel. normalize_surface_id raw = Inr rel \<and> (bs = [] \<longleftrightarrow> path_ok declared allow surfaces rel)"
proof -
  from assms obtain rel ms where rel: "normalize_surface_id raw = Inr rel"
    and ms: "matching_surfaces rel surfaces = Inr ms"
    by (auto simp: check_path_def and_then_Inr)
  have fil: "filter (\<lambda>d. surface_matches rel (get_str d ''surface_id'')) surfaces = ms"
    using matching_surfaces_Inr [OF ms] by simp
  have pk: "path_ok declared allow surfaces rel \<longleftrightarrow> (ms = [] \<longrightarrow> allow) \<and>
      (\<forall>d \<in> set ms. \<exists>k. tier_of d = Inr k \<and> k \<le> the (tier_order declared))"
    by (simp add: path_ok_def fil)
  show ?thesis
  proof (cases ms)
    case Nil
    with assms rel ms have "bs = [] \<longleftrightarrow> allow"
      by (auto simp: check_path_def split: if_splits)
    with Nil rel pk show ?thesis by auto
  next
    case (Cons m rest)
    with assms rel ms obtain k r j where k: "tier_of m = Inr k" and r: "max_tier m k rest = Inr r"
      and j: "tier_of r = Inr j" and bs: "bs = [] \<longleftrightarrow> j \<le> the (tier_order declared)"
      by (auto simp: check_path_def and_then_Inr Let_def split: if_splits)
    from max_tier_Inr [OF r k] j have "\<forall>d \<in> set ms. \<exists>i. tier_of d = Inr i \<and> i \<le> j"
      and "r \<in> set ms" using k Cons by auto
    then have "bs = [] \<longleftrightarrow> (\<forall>d \<in> set ms. \<exists>i. tier_of d = Inr i \<and> i \<le> the (tier_order declared))"
      unfolding bs using j by fastforce
    with Cons rel show ?thesis
      by (simp add: pk)
  qed
qed

lemma check_paths_Inr:
  "check_paths declared tenant allow surfaces raws = Inr (ts, bs) \<Longrightarrow>
   bs = [] \<longleftrightarrow> (\<forall>raw \<in> set raws. \<exists>rel. normalize_surface_id raw = Inr rel \<and>
     path_ok declared allow surfaces rel)"
proof (induction raws arbitrary: ts bs)
  case Nil
  then show ?case by simp
next
  case (Cons raw raws)
  then obtain t b ts' bs' where c: "check_path declared tenant allow surfaces raw = Inr (t, b)"
    and cs: "check_paths declared tenant allow surfaces raws = Inr (ts', bs')" and bs: "bs = b @ bs'"
    by (auto simp: and_then_Inr)
  from check_path_Inr [OF c] Cons.IH [OF cs] show ?case by (auto simp: bs)
qed

lemma register_valid:
  assumes "register_trust_surface sha now i tier why perm tenant force disk = Inr (d, disk')"
    and "normalize_surface_id i = Inr s" and "normalize_surface_id s = Inr s"
  shows "validate_surface sha d = Inr () \<and> get_py d ''is_permanently_t3'' = PBool perm"
proof -
  from assms(1,2) obtain t tn w where t: "normalize_tier tier = Inr t" and tn: "normalize_tenant_id tenant = Inr tn"
    and w: "require_text why ''justification'' 1000 = Inr w" and p: "\<not> (perm \<and> t \<noteq> ''T3'')"
    by (auto simp: register_trust_surface_def and_then_Inr split: if_splits)
  have key: "surface_lookup_cache_key s (opt_str tn) =
      Inr (''trusttiers:surface:'' @ tenant_token tn @ '':'' @ s)"
    using assms(3) tn by (simp add: surface_lookup_cache_key_def)
  have d: "d = [(''schema_version'', PStr SCHEMA_VERSION), (''id'', PStr (surface_uid sha tn s)),
      (''tenant_id'', opt_str tn), (''surface_id'', PStr s), (''tier'', PStr t),
      (''justification'', PStr w), (''is_permanently_t3'', PBool perm),
      (''lookup_cache_key'', PStr (''trusttiers:surface:'' @ tenant_token tn @ '':'' @ s)),
      (''created_at'', PStr now), (''updated_at'', PStr now),
      (''history'', PList [history_entry ''register'' PNone t w now])]"
    using assms(1,2) t tn w p key
    by (simp add: register_trust_surface_def and_then_Inr Let_def split: if_splits)
  have fields: "get_py d ''schema_version'' = PStr SCHEMA_VERSION" "get_str d ''surface_id'' = s"
    "get_py d ''tenant_id'' = opt_str tn" "get_str d ''tier'' = t" "get_str d ''justification'' = w"
    "get_py d ''is_permanently_t3'' = PBool perm" "get_py d ''id'' = PStr (surface_uid sha tn s)"
    "get_py d ''lookup_cache_key'' = PStr (''trusttiers:surface:'' @ tenant_token tn @ '':'' @ s)"
    unfolding d by simp_all
  show ?thesis
    using p by (simp add: validate_surface_def fields assms(3) normalize_tenant_idem [OF tn]
        normalize_tier_idem [OF t] require_text_idem [OF w] key)
qed

text \<open>An identifier that is not a fixed point of its normalisation is registered under an
  identity that the validation of the file then rejects.\<close>

lemma unstable_identifier:
  assumes "normalize_surface_id i = Inr s" and "normalize_surface_id s = Inr s'"
    and "surface_uid sha t s \<noteq> surface_uid sha t s'"
    and "get_py d ''id'' = PStr (surface_uid sha t s)" and "get_str d ''surface_id'' = s"
    and "get_py d ''tenant_id'' = opt_str t" and "normalize_tenant_id (opt_str t) = Inr t"
  shows "\<exists>m. validate_surface sha d = Inl (TrustTierError m)"
  using assms
  by (cases "normalize_tier (get_str d ''tier'')"; cases "require_text (get_str d ''justification'') ''justification'' 1000")
    (auto simp: validate_surface_def normalize_tier_def require_text_def Let_def split: if_splits)

lemma dot_slash_blank_unstable:
  "normalize_surface_id ''./ a'' = Inr '' a'' \<and> normalize_surface_id '' a'' = Inr ''a''"
  by (simp add: normalize_surface_id_def strip_def lstrip_by_def rstrip_by_def is_space_def
      replace_char_def)

subsection \<open>Properties\<close>

text \<open>A permanently-T3 surface is frozen. On a registry whose files are where their surfaces
  belong, no sequence of registrations, promotions and demotions changes the file of a valid
  permanently-T3 surface, whoever the operations are for; only a forced registration of that
  very surface can replace it.\<close>

theorem permanently_t3_frozen:
  assumes "homed sha disk" and "dict_get disk p = Some (Json (PDict d))"
    and "validate_surface sha d = Inr ()" and "truthy (get_py d ''is_permanently_t3'')"
    and "\<forall>now i t why perm tenant. Register now i t why perm tenant True \<notin> set ops"
  shows "dict_get (foldl (tt_step sha) disk ops) p = Some (Json (PDict d))"
proof (rule tiers.run_stable [where P = "\<lambda>k. dict_get k p = Some (Json (PDict d))", OF _ assms(1,2)])
  fix disk op
  assume hd: "homed sha disk" and p: "dict_get disk p = Some (Json (PDict d))" and op: "op \<in> set ops"
  show "dict_get (tt_step sha disk op) p = Some (Json (PDict d))"
  proof (cases "tt_apply sha disk op")
    case (Inl e)
    with p show ?thesis by (simp add: tt_step_def)
  next
    case (Inr r)
    then obtain d' disk' where a: "tt_apply sha disk op = Inr (d', disk')" by (cases r) simp
    from written_elsewhere [OF hd a p assms(3,4)] assms(5) op
    have "dict_get disk' p = Some (Json (PDict d))" by blast
    with a show ?thesis by (simp add: tt_step_def)
  qed
qed

lemma strip_letters: "strip ''a'' = ''a''" "strip ''r'' = ''r''"
  by (simp_all add: strip_id is_space_def)

lemma normalize_a: "normalize_surface_id ''a'' = Inr ''a''"
  by (simp add: normalize_surface_id_def strip_letters replace_char_def)

lemma register_a:
  "\<exists>d. register_trust_surface id ''n'' ''a'' ''T3'' ''r'' True PNone False [] =
     Inr (d, [(surface_path id ''a'' None, Json (PDict d))])"
  by (simp add: register_trust_surface_def normalize_a normalize_tier_def strip_tier upper_tier
      tier_order_def normalize_tenant_id_def require_text_def strip_letters write_surface_def
      surface_lookup_cache_key_def opt_str_def Let_def)

theorem permanently_t3_frozen_witness:
  "\<exists>d disk. tt_step id [] (Register ''n'' ''a'' ''T3'' ''r'' True PNone False) = disk \<and>
    dict_get (foldl (tt_step id) disk
      [Demote ''n'' ''a'' ''T1'' ''r'' PNone, Register ''n'' ''a'' ''T1'' ''r'' False PNone False])
      (surface_path id ''a'' None) = Some (Json (PDict d)) \<and>
    get_py d ''is_permanently_t3'' = PBool True"
proof -
  from register_a obtain d where r: "register_trust_surface id ''n'' ''a'' ''T3'' ''r'' True PNone False [] =
    Inr (d, [(surface_path id ''a'' None, Json (PDict d))])" by blast
  let ?disk = "tt_step id [] (Register ''n'' ''a'' ''T3'' ''r'' True PNone False)"
  have disk: "dict_get ?disk (surface_path id ''a'' None) = Some (Json (PDict d))"
    using r by (simp add: tt_step_def dict_get_def)
  have h: "homed id ?disk" by (intro homed_step homed_empty)
  from register_valid [OF r normalize_a normalize_a] permanently_t3_frozen [OF h disk,
      of "[Demote ''n'' ''a'' ''T1'' ''r'' PNone, Register ''n'' ''a'' ''T1'' ''r'' False PNone False]"]
  show ?thesis by auto
qed

text \<open>A surface that is registered is the surface that is loaded, for every identifier its
  normalisation leaves alone; no other file of the registry changes. A registration without
  \<open>force\<close> never replaces a file.\<close>

theorem register_load_roundtrip:
  assumes "register_trust_surface sha now i tier why perm tenant force disk = Inr (d, disk')"
    and "normalize_surface_id i = Inr s" and "normalize_surface_id s = Inr s"
  shows "load_trust_surface sha i tenant disk' = Inr d \<and>
    get_trust_surface_by_surface sha i tenant disk' = Inr (Some d) \<and>
    (\<exists>t. normalize_tenant_id tenant = Inr t \<and>
       (\<forall>p. p \<noteq> surface_path sha s t \<longrightarrow> dict_get disk' p = dict_get disk p) \<and>
       (\<not> force \<longrightarrow> dict_get disk (surface_path sha s t) = None))"
proof -
  from register_Inr [OF assms(1)] assms(2) obtain t where t: "normalize_tenant_id tenant = Inr t"
    and fr: "force \<or> dict_get disk (surface_path sha s t) = None"
    and disk': "disk' = dict_set disk (surface_path sha s t) (Json (PDict d))" by auto
  have "load_trust_surface sha i tenant disk' = Inr d"
    using register_valid [OF assms] assms(2) t by (simp add: load_trust_surface_def disk')
  with t fr show ?thesis by (auto simp: get_trust_surface_by_surface_def disk')
qed

theorem register_load_roundtrip_witness:
  "\<exists>d disk. register_trust_surface id ''n'' ''a'' ''T3'' ''r'' True PNone False [] = Inr (d, disk) \<and>
     load_trust_surface id ''a'' PNone disk = Inr d"
  using register_a register_load_roundtrip [OF _ normalize_a normalize_a] by blast

text \<open>tiers only move the way the operation says. A promotion that succeeds ends strictly
  above the tier it started from, a demotion strictly below it and never on a permanently-T3
  surface; either appends exactly one row to the history and writes the loaded file only.\<close>

theorem tier_moves_strictly:
  assumes "(if up then promote_trust_surface sha now i target why tenant disk
    else demote_trust_surface sha now i target why tenant disk) = Inr (d', disk')"
  shows "\<exists>d n m p row. load_trust_surface sha i tenant disk = Inr d \<and> tier_of d = Inr n \<and>
    tier_of d' = Inr m \<and> (if up then n < m else m < n) \<and>
    (\<not> up \<longrightarrow> \<not> truthy (get_py d ''is_permanently_t3'')) \<and>
    get_py d' ''history'' = PList ((case dict_get d ''history'' of Some (PList hs) \<Rightarrow> hs | _ \<Rightarrow> []) @ [row]) \<and>
    disk' = dict_set disk p (Json (PDict d'))"
proof -
  define act where "act = (if up then ''promote'' else ''demote'')"
  from assms obtain d tg n where d: "load_trust_surface sha i tenant disk = Inr d"
    and tg: "normalize_tier target = Inr tg" and n: "tier_of d = Inr n"
    and cmp: "if up then n < the (tier_order tg) else the (tier_order tg) < n"
    and np: "\<not> up \<longrightarrow> \<not> truthy (get_py d ''is_permanently_t3'')"
    and t: "transition_surface sha now d act tg why disk = Inr (d', disk')"
    by (auto simp: act_def promote_trust_surface_def demote_trust_surface_def and_then_Inr split: if_splits)
  from normalize_tier_order [OF tg] transition_Inr [OF t]
  have "tier_of d' = Inr (the (tier_order tg))" by (auto simp: tier_of_def)
  with d n cmp np transition_Inr [OF t] show ?thesis by blast
qed

definition demo_disk :: surface_disk where
  "demo_disk = tt_step id [] (Register ''n'' ''a'' ''T1'' ''r'' False PNone False)"

lemma demo_promote: "\<not> isl (promote_trust_surface id ''m'' ''a'' ''T2'' ''why'' PNone demo_disk)"
  by code_simp

theorem tier_moves_strictly_witness:
  "\<exists>d d' disk' n m. load_trust_surface id ''a'' PNone demo_disk = Inr d \<and>
     promote_trust_surface id ''m'' ''a'' ''T2'' ''why'' PNone demo_disk = Inr (d', disk') \<and>
     tier_of d = Inr n \<and> tier_of d' = Inr m \<and> n < m"
proof -
  from demo_promote obtain d' disk'
    where p: "promote_trust_surface id ''m'' ''a'' ''T2'' ''why'' PNone demo_disk = Inr (d', disk')"
    by (cases "promote_trust_surface id ''m'' ''a'' ''T2'' ''why'' PNone demo_disk") auto
  from tier_moves_strictly [of True id "''m''" "''a''" "''T2''" "''why''" PNone demo_disk d' disk'] p
  show ?thesis by auto
qed

text \<open>The validator is sound and complete for the declared tier. When it returns, it passes
  exactly if every touched path has a registered surface (or unclassified paths are allowed)
  and no surface it matches is registered above the declared tier.\<close>

theorem validate_trust_tier_ok:
  assumes "validate_trust_tier sha declared paths tenant allow disk = Inr v"
  shows "\<exists>surfaces. list_trust_surfaces sha None tenant False disk = Inr surfaces \<and>
    (val_ok v \<longleftrightarrow> (\<forall>raw \<in> set paths. \<exists>rel. normalize_surface_id raw = Inr rel \<and>
       path_ok (val_declared v) allow surfaces rel))"
proof -
  from assms obtain dec t surfaces ts bs where t: "normalize_tenant_id tenant = Inr t"
    and l: "list_trust_surfaces sha None (opt_str t) False disk = Inr surfaces"
    and c: "check_paths dec t allow surfaces paths = Inr (ts, bs)"
    and v: "val_ok v \<longleftrightarrow> bs = []" "val_declared v = dec"
    by (auto simp: validate_trust_tier_def and_then_Inr)
  have "list_trust_surfaces sha None tenant False disk = Inr surfaces"
    using l t by (simp add: list_trust_surfaces_def)
  with check_paths_Inr [OF c] v show ?thesis by auto
qed

lemma demo_validate:
  "case validate_trust_tier id ''T1'' [''a/x''] PNone False demo_disk of Inl _ \<Rightarrow> False | Inr v \<Rightarrow> val_ok v"
  by code_simp

theorem validate_trust_tier_ok_witness:
  "\<exists>v surfaces. validate_trust_tier id ''T1'' [''a/x''] PNone False demo_disk = Inr v \<and> val_ok v \<and>
     list_trust_surfaces id None PNone False demo_disk = Inr surfaces \<and>
     (\<exists>rel. normalize_surface_id ''a/x'' = Inr rel \<and> path_ok (val_declared v) False surfaces rel)"
proof -
  from demo_validate obtain v
    where v: "validate_trust_tier id ''T1'' [''a/x''] PNone False demo_disk = Inr v" "val_ok v"
    by (cases "validate_trust_tier id ''T1'' [''a/x''] PNone False demo_disk") auto
  from validate_trust_tier_ok [OF v(1)] v show ?thesis by auto
qed

text \<open>the host has no identity of its own. The registry keeps the surfaces of the host (no
  tenant) under the token \<open>host\<close>, so the tenant that is called \<open>host\<close> reads, and without \<open>force\<close>
  collides with, the surfaces of the host.\<close>

theorem tenant_host_alias:
  "load_trust_surface sha i (PStr ''host'') disk = load_trust_surface sha i PNone disk"
proof -
  have "normalize_tenant_id (PStr ''host'') = Inr (Some ''host'')"
    by (simp add: normalize_tenant_id_def strip_id is_space_def)
  then show ?thesis
    by (simp add: load_trust_surface_def surface_path_def tenant_token_def normalize_tenant_id_def
        cong: option.case_cong)
qed

end
