(* ===== verification/PathPolicy.thy ===== *)
theory PathPolicy
  imports Fnmatch
begin

section \<open>Path policy of the agent loop (\<open>product/agent_loop.py\<close>)\<close>

text \<open>
  The one path pipeline through which the agent's reads, writes and commands are contained, and
  the predicates that classify a workspace-relative path. The operating system is a record of
  functions: what the environment, \<open>os.path.expanduser\<close>, \<open>Path.resolve\<close> and \<open>os.path.exists\<close>
  return on this machine. \<open>resolved p\<close> gives the components of the real path of the absolute path
  \<open>p\<close>, or \<open>None\<close> when \<open>resolve\<close> raises. The model is that of a POSIX host.
\<close>

record host =
  sandbox_profile :: string
  expanduser :: "string \<Rightarrow> string"
  resolved :: "string \<Rightarrow> string list option"
  path_exists :: "string \<Rightarrow> bool"
  root_text :: string
  root_parts :: "string list"

definition is_quote2 :: "char \<Rightarrow> bool" where "is_quote2 c \<longleftrightarrow> c = CHR 0x22"
definition is_quote1 :: "char \<Rightarrow> bool" where "is_quote1 c \<longleftrightarrow> c = CHR 0x27"

text \<open>\<open>tok.strip().strip('"').strip("'")\<close>.\<close>

definition strip_chars :: "(char \<Rightarrow> bool) \<Rightarrow> string \<Rightarrow> string" where
  "strip_chars p s = rstrip_by p (lstrip_by p s)"

definition unquote :: "string \<Rightarrow> string" where
  "unquote s = strip_chars is_quote1 (strip_chars is_quote2 (strip s))"

definition to_slash :: "string \<Rightarrow> string" where
  "to_slash p = replace_char CHR 0x5C CHR ''/'' p"

definition norm_path :: "string \<Rightarrow> string" where
  "norm_path path = lstrip_by (\<lambda>c. c = CHR ''.'' \<or> c = CHR ''/'') (to_slash path)"

text \<open>\<open>s.rsplit("/", 1)[-1]\<close> and \<open>s.rsplit("/", 1)[0]\<close>.\<close>

definition base_name :: "string \<Rightarrow> string" where
  "base_name s = rev (takeWhile (\<lambda>c. c \<noteq> CHR ''/'') (rev s))"

definition dir_name :: "string \<Rightarrow> string" where
  "dir_name s = (if CHR ''/'' \<in> set s then rev (tl (dropWhile (\<lambda>c. c \<noteq> CHR ''/'') (rev s))) else s)"

subsection \<open>Containment\<close>

definition is_letter :: "char \<Rightarrow> bool" where
  "is_letter c \<longleftrightarrow> is_upper c \<or> is_lower c"

text \<open>The expression \<open>^/([A-Za-z])(?:/|$)\<close>; \<open>$\<close> also matches before a final newline.\<close>

definition degitbash :: "string \<Rightarrow> string" where
  "degitbash token =
     (case token of
        s # d # rest \<Rightarrow>
          (if s = CHR ''/'' \<and> is_letter d then
             (case rest of
                [] \<Rightarrow> d # '':/''
              | c # cs \<Rightarrow>
                  if c = CHR ''/'' then (d # '':/'') @ cs
                  else if rest = [CHR 0x0A] then (d # '':/'') @ rest
                  else token)
           else token)
      | _ \<Rightarrow> token)"

fun norm_comps :: "bool \<Rightarrow> string list \<Rightarrow> string list \<Rightarrow> string list" where
  "norm_comps rooted acc [] = rev acc"
| "norm_comps rooted acc (c # cs) =
     (if c = [] \<or> c = ''.'' then norm_comps rooted acc cs
      else if c \<noteq> ''..'' \<or> (\<not> rooted \<and> acc = []) \<or> (acc \<noteq> [] \<and> hd acc = ''..'')
      then norm_comps rooted (c # acc) cs
      else norm_comps rooted (tl acc) cs)"

definition posix_normpath :: "string \<Rightarrow> string" where
  "posix_normpath p =
     (if p = [] then ''.''
      else
        (let slashes = (if \<not> startswith p ''/'' then []
                        else if startswith p ''//'' \<and> \<not> startswith p ''///'' then ''//'' else ''/'');
             body = slashes @ join ''/'' (norm_comps (slashes \<noteq> []) [] (split_on CHR ''/'' p))
         in if body = [] then ''.'' else body))"

definition path_join :: "string \<Rightarrow> string \<Rightarrow> string" where
  "path_join a b = (if startswith b ''/'' then b else a @ ''/'' @ b)"

definition is_funded :: "host \<Rightarrow> bool" where
  "is_funded h \<longleftrightarrow> lower (strip (sandbox_profile h)) = ''funded''"

definition map_container_workspace :: "host \<Rightarrow> string \<Rightarrow> string" where
  "map_container_workspace h token =
     (if \<not> is_funded h then token
      else
        (let n = posix_normpath (to_slash token) in
         if n = ''/workspace'' then root_text h
         else if startswith n ''/workspace/'' then path_join (root_text h) (drop 11 n)
         else token))"

definition canonical_abs :: "host \<Rightarrow> string \<Rightarrow> string list option" where
  "canonical_abs h candidate =
     (let tok = unquote candidate in
      if tok = [] then None
      else
        (let tok = map_container_workspace h tok;
             tok = (if startswith tok ''~'' then expanduser h tok else degitbash tok)
         in resolved h (path_join (root_text h) tok)))"

definition workspace_relative :: "host \<Rightarrow> string \<Rightarrow> string option" where
  "workspace_relative h candidate =
     (case canonical_abs h candidate of
        None \<Rightarrow> None
      | Some target \<Rightarrow>
          if target = root_parts h then Some []
          else if \<not> strict_prefix (root_parts h) target then None
          else Some (join ''/'' (drop (length (root_parts h)) target)))"

subsection \<open>Allowlists and deny lists\<close>

definition glob_hit :: "string \<Rightarrow> string \<Rightarrow> bool" where
  "glob_hit normed pat =
     (let p = norm_path pat in
      p = ''**'' \<or> fnmatch normed p \<or>
      ((endswith p ''/**'' \<or> endswith p ''/*'') \<and>
       (let pre = dir_name p in normed = pre \<or> startswith normed (pre @ ''/''))))"

definition matches_glob :: "string \<Rightarrow> string list \<Rightarrow> bool" where
  "matches_glob path patterns = list_ex (glob_hit (norm_path path)) patterns"

definition forbidden_hit :: "string \<Rightarrow> string \<Rightarrow> bool" where
  "forbidden_hit normed pat =
     (let p = norm_path pat; fname = base_name normed in
      if endswith p ''/'' then
        (let base = rstrip_by (\<lambda>c. c = CHR ''/'') p
         in normed = base \<or> startswith normed (base @ ''/''))
      else if CHR ''*'' \<in> set p then fnmatch normed p \<or> fnmatch fname p
      else normed = p \<or> fname = p \<or> endswith normed (''/'' @ p))"

definition matches_forbidden_path :: "string \<Rightarrow> string list \<Rightarrow> bool" where
  "matches_forbidden_path path forbidden = list_ex (forbidden_hit (norm_path path)) forbidden"

subsection \<open>Classes of paths\<close>

definition is_plan_test_path :: "string \<Rightarrow> bool" where
  "is_plan_test_path path =
     (let n = norm_path path in
      startswith n ''core/execution/tests/'' \<and>
      (occurs_in ''.test.'' n \<or> occurs_in ''.spec.'' n \<or> occurs_in ''/test_'' n \<or> endswith n ''_test.py''))"

definition keep_dot_rel :: "string \<Rightarrow> string" where
  "keep_dot_rel path = (let n = to_slash path in if startswith n ''./'' then drop 2 n else n)"

definition is_governance_path :: "string \<Rightarrow> bool" where
  "is_governance_path path =
     (let n = keep_dot_rel path in n = ''.signalos'' \<or> startswith n ''.signalos/'')"

definition DESIGN_OUTPUT_PREFIX :: string where
  "DESIGN_OUTPUT_PREFIX = ''.signalos/designs''"

definition GATE_ARTIFACT_SUBTREES :: "string list" where
  "GATE_ARTIFACT_SUBTREES = [''core/governance'', ''core/strategy'', ''core/execution'']"

definition is_gate_artifact_rel_path :: "string \<Rightarrow> bool" where
  "is_gate_artifact_rel_path path =
     (let n = norm_path path in
      ''..'' \<notin> set (split_on CHR ''/'' n) \<and>
      list_ex (\<lambda>t. n = t \<or> startswith n (t @ ''/'')) GATE_ARTIFACT_SUBTREES)"

definition is_test_path :: "string \<Rightarrow> bool" where
  "is_test_path path =
     (let n = norm_path path; name = lower (base_name n) in
      startswith n ''tests/'' \<or> occurs_in ''.test.'' name \<or> occurs_in ''.spec.'' name \<or>
      startswith name ''test_'' \<or> endswith name ''_test.py'')"

definition TOOL_CONFIG_STEMS :: "string list" where
  "TOOL_CONFIG_STEMS =
     [''vite.config'', ''vitest.config'', ''vitest.workspace'', ''jest.config'', ''rollup.config'',
      ''webpack.config'', ''babel.config'', ''postcss.config'', ''tailwind.config'', ''next.config'',
      ''nuxt.config'', ''svelte.config'', ''astro.config'', ''playwright.config'', ''cypress.config'',
      ''vue.config'', ''eslint.config'', ''stylelint.config'', ''prettier.config'']"

definition CONFIG_EXTS :: "string list" where
  "CONFIG_EXTS = [''.ts'', ''.js'', ''.cjs'', ''.mjs'', ''.cts'', ''.mts'', ''.json'']"

definition MANIFEST_CONFIG_FILES :: "string list" where
  "MANIFEST_CONFIG_FILES =
     [''package.json'', ''package-lock.json'', ''jsconfig.json'', ''angular.json'', ''components.json'',
      ''nest-cli.json'', ''pnpm-lock.yaml'', ''yarn.lock'']"

text \<open>An expression that ends in \<open>$\<close> matches at the end of the text or before a final newline.\<close>

definition at_end :: "(string \<Rightarrow> bool) \<Rightarrow> string \<Rightarrow> bool" where
  "at_end P s \<longleftrightarrow> P s \<or> (endswith s [CHR 0x0A] \<and> P (butlast s))"

definition DOTFILE_NAMES :: "string list" where
  "DOTFILE_NAMES =
     [''eslintrc'', ''prettierrc'', ''babelrc'', ''browserslistrc'', ''npmrc'', ''nvmrc'', ''editorconfig'',
      ''stylelintrc'', ''commitlintrc'', ''lintstagedrc'']"

definition dotfile_config :: "string \<Rightarrow> bool" where
  "dotfile_config base =
     at_end (\<lambda>s. list_ex (\<lambda>n. startswith s (''.'' @ n) \<and>
       list_all (\<lambda>c. c = CHR ''.'' \<or> c = CHR ''-'' \<or> is_word_char c) (drop (Suc (length n)) s))
       DOTFILE_NAMES) base"

definition is_build_config_file :: "string \<Rightarrow> bool" where
  "is_build_config_file path =
     (let base = base_name (norm_path path) in
      base \<in> set MANIFEST_CONFIG_FILES \<or>
      (startswith base ''tsconfig'' \<and> endswith base ''.json'') \<or>
      dotfile_config base \<or>
      list_ex (\<lambda>stem. base = stem \<or>
        (startswith base (stem @ ''.'') \<and> list_ex (endswith base) CONFIG_EXTS)) TOOL_CONFIG_STEMS)"

definition has_ext :: "string list \<Rightarrow> string \<Rightarrow> bool" where
  "has_ext exts s = at_end (\<lambda>t. list_ex (\<lambda>e. endswith t (''.'' @ e)) exts) s"

definition SOURCE_EXTS :: "string list" where
  "SOURCE_EXTS =
     [''ts'', ''tsx'', ''js'', ''jsx'', ''mjs'', ''cjs'', ''cts'', ''mts'', ''vue'', ''svelte'', ''html'',
      ''css'', ''scss'', ''sass'', ''less'', ''py'', ''rs'', ''go'', ''java'', ''cs'']"

definition is_implementation_path :: "string \<Rightarrow> bool" where
  "is_implementation_path path =
     (let n = norm_path path in
      if is_test_path n then False
      else if is_build_config_file n then True
      else if list_ex (startswith n) [''src/'', ''public/'', ''app/'', ''pages/'', ''components/'']
      then True
      else if n = ''index.html'' then True
      else has_ext SOURCE_EXTS n)"

definition TEST_DIRS :: "string list" where
  "TEST_DIRS = [''test'', ''tests'', ''__tests__'', ''__mocks__'', ''fixture'', ''fixtures'', ''testing'']"

definition SETUP_FILES :: "string list" where
  "SETUP_FILES =
     [''setup.ts'', ''setup.js'', ''setup.cjs'', ''setup.mjs'', ''vitest.setup.ts'', ''test-setup.ts'',
      ''jest.setup.js'']"

definition NON_CODE_EXTS :: "string list" where
  "NON_CODE_EXTS =
     [''d.ts'', ''css'', ''scss'', ''sass'', ''less'', ''styl'', ''json'', ''svg'', ''png'', ''jpg'', ''jpeg'',
      ''gif'', ''webp'', ''ico'', ''avif'', ''md'', ''mdx'', ''txt'', ''htm'', ''html'', ''yml'', ''yaml'', ''toml'',
      ''lock'']"

definition CODE_EXTS :: "string list" where
  "CODE_EXTS =
     [''ts'', ''tsx'', ''js'', ''jsx'', ''mjs'', ''cjs'', ''cts'', ''mts'', ''vue'', ''svelte'', ''py'', ''rs'',
      ''go'', ''java'', ''cs'', ''rb'', ''php'', ''kt'', ''swift'']"

definition requires_test_first :: "string \<Rightarrow> bool" where
  "requires_test_first path =
     (let n = norm_path path in
      if is_test_path n then False
      else if is_build_config_file n then False
      else if list_ex (\<lambda>d. d \<in> set TEST_DIRS) (butlast (split_on CHR ''/'' n)) then False
      else if lower (base_name n) \<in> set SETUP_FILES then False
      else if has_ext NON_CODE_EXTS n then False
      else has_ext CODE_EXTS n)"

definition required_prior_gate_numbers :: "string option \<Rightarrow> int list" where
  "required_prior_gate_numbers gate = (if gate \<noteq> Some ''G4'' then [] else [0, 1, 2, 3])"

text \<open>A host without links, rooted at \<open>/ws\<close>, for concrete checks.\<close>

definition demo_host :: host where
  "demo_host =
     \<lparr>sandbox_profile = [], expanduser = (\<lambda>p. p),
      resolved = (\<lambda>p. Some (norm_comps True [] (split_on CHR ''/'' p))),
      path_exists = (\<lambda>_. False), root_text = ''/ws'', root_parts = [''ws'']\<rparr>"

end
