(* ===== verification/CommandPolicy.thy ===== *)
theory CommandPolicy
  imports PathPolicy
begin

section \<open>Command policy of the agent loop (\<open>product/agent_loop.py\<close>)\<close>

text \<open>
  Which shell commands the agent may run. \<open>shlex.split\<close> is modelled in both modes the code
  uses (\<open>whitespace_split\<close>, no comments); \<open>None\<close> is its \<open>ValueError\<close>, on which the code falls
  back to \<open>str.split\<close>.
\<close>

subsection \<open>\<open>shlex.split\<close>\<close>

datatype lex_state = Idle | InWord | InQuote char | Escaped lex_state

definition lex_space :: "char \<Rightarrow> bool" where
  "lex_space c \<longleftrightarrow> c \<in> {CHR '' '', CHR 0x09, CHR 0x0D, CHR 0x0A}"

definition lex_quote :: "char \<Rightarrow> bool" where
  "lex_quote c \<longleftrightarrow> c = CHR 0x22 \<or> c = CHR 0x27"

fun lex_plain :: "lex_state \<Rightarrow> string \<Rightarrow> string \<Rightarrow> string list option" where
  "lex_plain (InQuote q) tok [] = None"
| "lex_plain InWord tok [] = Some [tok]"
| "lex_plain st tok [] = Some []"
| "lex_plain (InQuote q) tok (c # cs) =
     (if c = q then map_option (Cons (tok @ [c])) (lex_plain Idle [] cs)
      else lex_plain (InQuote q) (tok @ [c]) cs)"
| "lex_plain InWord tok (c # cs) =
     (if lex_space c then map_option (Cons tok) (lex_plain Idle [] cs)
      else lex_plain InWord (tok @ [c]) cs)"
| "lex_plain st tok (c # cs) =
     (if lex_space c then lex_plain Idle [] cs
      else if lex_quote c then lex_plain (InQuote c) [c] cs
      else lex_plain InWord [c] cs)"

fun lex_posix :: "lex_state \<Rightarrow> string \<Rightarrow> bool \<Rightarrow> string \<Rightarrow> string list option" where
  "lex_posix Idle tok quoted [] = Some []"
| "lex_posix InWord tok quoted [] = Some (if tok = [] \<and> \<not> quoted then [] else [tok])"
| "lex_posix (InQuote q) tok quoted [] = None"
| "lex_posix (Escaped st) tok quoted [] = None"
| "lex_posix Idle tok quoted (c # cs) =
     (if lex_space c then lex_posix Idle [] False cs
      else if c = CHR 0x5C then lex_posix (Escaped InWord) [] False cs
      else if lex_quote c then lex_posix (InQuote c) [] False cs
      else lex_posix InWord [c] False cs)"
| "lex_posix InWord tok quoted (c # cs) =
     (if lex_space c then
        (if tok \<noteq> [] \<or> quoted then map_option (Cons tok) (lex_posix Idle [] False cs)
         else lex_posix Idle [] False cs)
      else if lex_quote c then lex_posix (InQuote c) tok quoted cs
      else if c = CHR 0x5C then lex_posix (Escaped InWord) tok quoted cs
      else lex_posix InWord (tok @ [c]) quoted cs)"
| "lex_posix (InQuote q) tok quoted (c # cs) =
     (if c = q then lex_posix InWord tok True cs
      else if c = CHR 0x5C \<and> q = CHR 0x22 then lex_posix (Escaped (InQuote q)) tok True cs
      else lex_posix (InQuote q) (tok @ [c]) True cs)"
| "lex_posix (Escaped st) tok quoted (c # cs) =
     (case st of
        InQuote q \<Rightarrow>
          lex_posix (InQuote q) (if c \<noteq> CHR 0x5C \<and> c \<noteq> q then tok @ [CHR 0x5C, c] else tok @ [c]) quoted cs
      | _ \<Rightarrow> lex_posix InWord (tok @ [c]) quoted cs)"

text \<open>\<open>s.split()\<close>.\<close>

fun split_words :: "string \<Rightarrow> string \<Rightarrow> string list" where
  "split_words tok [] = (if tok = [] then [] else [tok])"
| "split_words tok (c # cs) =
     (if is_space c then (if tok = [] then split_words [] cs else tok # split_words [] cs)
      else split_words (tok @ [c]) cs)"

definition shlex_posix :: "string \<Rightarrow> string list" where
  "shlex_posix s = (case lex_posix Idle [] False s of None \<Rightarrow> split_words [] s | Some ts \<Rightarrow> ts)"

definition shlex_plain :: "string \<Rightarrow> string list" where
  "shlex_plain s = (case lex_plain Idle [] s of None \<Rightarrow> split_words [] s | Some ts \<Rightarrow> ts)"

subsection \<open>Segments\<close>

definition command_root :: "string \<Rightarrow> string" where
  "command_root command = strip (join '' '' (take 2 (shlex_posix command)))"

fun split_separators :: "string \<Rightarrow> string list" where
  "split_separators [] = [[]]"
| "split_separators (c # cs) =
     (if c = CHR '';'' then [] # split_separators cs
      else if (c = CHR ''&'' \<or> c = CHR ''|'') \<and> cs \<noteq> [] \<and> hd cs = c then [] # split_separators (tl cs)
      else (case split_separators cs of [] \<Rightarrow> [[c]] | w # ws \<Rightarrow> (c # w) # ws))"

definition split_command_segments :: "string \<Rightarrow> string list" where
  "split_command_segments command = filter (\<lambda>s. s \<noteq> []) (map strip (split_separators command))"

definition cd_target :: "string \<Rightarrow> string option" where
  "cd_target segment =
     (case shlex_plain segment of
        [] \<Rightarrow> None
      | t # ts \<Rightarrow>
          if t \<noteq> ''cd'' then None
          else (case ts of [] \<Rightarrow> Some [] | u # us \<Rightarrow> Some (unquote u)))"

definition VERIFICATION_COMMANDS :: "string list" where
  "VERIFICATION_COMMANDS =
     [''node -e'', ''node -p'', ''node --eval'', ''node --print'', ''node --check'', ''node --test'', ''tsc'',
      ''npx tsc'', ''npx vitest'', ''npx vite'', ''python -c'', ''python -m py_compile'',
      ''python -m compileall'', ''python3 -c'', ''python3 -m py_compile'', ''python3 -m compileall'',
      ''sha256sum'', ''sha1sum'', ''sha512sum'', ''md5sum'', ''shasum'', ''cksum'', ''b2sum'', ''cat'', ''head'',
      ''tail'', ''wc'', ''ls'', ''dir'', ''pwd'', ''echo'', ''printf'', ''type'', ''find'', ''grep'', ''rg'', ''stat'',
      ''file'', ''true'', ''false'', ''which'', ''git status'', ''git diff'', ''git log'', ''git rev-parse'',
      ''git show'', ''git branch'', ''git ls-files'']"

definition is_verification_command :: "string \<Rightarrow> bool" where
  "is_verification_command segment =
     (let seg = strip segment in
      if seg = [] then False
      else
        (let toks = shlex_plain seg in
         if toks = [] then False
         else list_ex (\<lambda>n. join '' '' (take n toks) \<in> set VERIFICATION_COMMANDS) [1, 2, 3]))"

definition segment_matches :: "string \<Rightarrow> string list \<Rightarrow> bool" where
  "segment_matches segment patterns =
     (let seg = strip segment in
      if seg = [] then True
      else
        (let root = command_root seg in
         list_ex (\<lambda>pat. let p = strip pat in
           p = ''**'' \<or> seg = p \<or> startswith seg (p @ '' '') \<or> root = p) patterns \<or>
         is_verification_command seg))"

subsection \<open>Paths in a command\<close>

definition EVAL_COMMAND_ROOTS :: "string list" where
  "EVAL_COMMAND_ROOTS =
     [''node'', ''nodejs'', ''python'', ''python3'', ''deno'', ''bun'', ''ruby'', ''perl'', ''php'', ''tsx'',
      ''ts-node'']"

definition INLINE_EVAL_FLAGS :: "string list" where
  "INLINE_EVAL_FLAGS = [''-e'', ''-p'', ''-c'', ''--eval'', ''--print'']"

definition DEVICE_PATH_WHITELIST :: "string list" where
  "DEVICE_PATH_WHITELIST =
     [''/dev/null'', ''/dev/stdin'', ''/dev/stdout'', ''/dev/stderr'', ''/dev/zero'', ''/dev/tty'',
      ''/dev/urandom'', ''/dev/random'', ''nul'', ''NUL'']"

definition is_cmd_shortflag :: "host \<Rightarrow> string \<Rightarrow> bool" where
  "is_cmd_shortflag h token =
     (at_end (\<lambda>t. case t of
         [s, a] \<Rightarrow> s = CHR ''/'' \<and> is_letter a
       | [s, a, b] \<Rightarrow> s = CHR ''/'' \<and> is_letter a \<and> is_letter b
       | _ \<Rightarrow> False) token \<and> \<not> path_exists h token)"

definition looks_like_non_path_token :: "string \<Rightarrow> bool" where
  "looks_like_non_path_token token =
     list_ex (\<lambda>c. c \<in> set ([CHR 0x0A, CHR 0x0D] @ '';`(){}<>|&='') \<or> is_space c) token"

definition is_env_assignment :: "string \<Rightarrow> bool" where
  "is_env_assignment t =
     (let w = takeWhile is_word_char t in
      w \<noteq> [] \<and> \<not> is_digit (hd w) \<and> startswith (drop (length w) t) ''='')"

fun command_verb :: "string list \<Rightarrow> string" where
  "command_verb [] = []"
| "command_verb (raw # rest) =
     (let t = unquote raw in
      if t = [] then command_verb rest
      else if is_env_assignment t then command_verb rest
      else lower (base_name (to_slash t)))"

text \<open>The tokens the scan takes for a path.\<close>

definition path_token :: "host \<Rightarrow> string \<Rightarrow> bool" where
  "path_token h token \<longleftrightarrow>
     \<not> (token = [] \<or> startswith token ''-'') \<and>
     token \<notin> set DEVICE_PATH_WHITELIST \<and>
     \<not> looks_like_non_path_token token \<and>
     (CHR ''/'' \<in> set token \<or> CHR 0x5C \<in> set token \<or> startswith token ''/'' \<or>
      ''..'' \<in> set (split_on CHR ''/'' (to_slash token)) \<or> startswith token ''~'') \<and>
     \<not> is_cmd_shortflag h token"

fun escape_scan :: "host \<Rightarrow> bool \<Rightarrow> bool \<Rightarrow> string list \<Rightarrow> string option" where
  "escape_scan h is_evaluator prev_flag [] = None"
| "escape_scan h is_evaluator prev_flag (raw # rest) =
     (if is_evaluator \<and> strip raw \<in> set INLINE_EVAL_FLAGS then escape_scan h is_evaluator True rest
      else if prev_flag then escape_scan h is_evaluator False rest
      else if path_token h (unquote raw) \<and> workspace_relative h (unquote raw) = None
      then Some (unquote raw)
      else escape_scan h is_evaluator False rest)"

definition command_escapes_workspace :: "host \<Rightarrow> string \<Rightarrow> string option" where
  "command_escapes_workspace h command =
     (if strip command = [] then None
      else
        (let tokens = shlex_plain command
         in escape_scan h (command_verb tokens \<in> set EVAL_COMMAND_ROOTS) False tokens))"

subsection \<open>The checks on a whole command\<close>

fun segments_match :: "host \<Rightarrow> string list \<Rightarrow> string list \<Rightarrow> bool" where
  "segments_match h patterns [] = True"
| "segments_match h patterns (seg # segs) =
     (case cd_target seg of
        Some target \<Rightarrow>
          (if target \<noteq> [] \<and> command_escapes_workspace h seg \<notin> {None, Some []} then False
           else segments_match h patterns segs)
      | None \<Rightarrow> segment_matches seg patterns \<and> segments_match h patterns segs)"

definition command_matches :: "host \<Rightarrow> string \<Rightarrow> string list \<Rightarrow> bool" where
  "command_matches h command patterns =
     (let segments = split_command_segments (strip command) in
      segments \<noteq> [] \<and> segments_match h patterns segments)"

definition command_denied :: "string \<Rightarrow> string list \<Rightarrow> string option" where
  "command_denied command denylist =
     (let cmd = lower (strip command) in
      find (\<lambda>entry. let e = lower (strip entry) in e \<noteq> [] \<and> occurs_in e cmd) denylist)"

definition COMMAND_OUTPUT_CAP :: nat where "COMMAND_OUTPUT_CAP = 10000"
definition CAP_HEAD :: nat where "CAP_HEAD = 3000"

definition cap_command_output :: "string \<Rightarrow> string" where
  "cap_command_output text =
     (if length text \<le> COMMAND_OUTPUT_CAP then text
      else take CAP_HEAD text @
        CHR 0x0A # ''... ['' @ nat_str (length text - COMMAND_OUTPUT_CAP) @
        '' chars truncated -- output capped; re-run a NARROWER command (e.g. a single test file) '' @
        ''for full detail] ...'' @ CHR 0x0A #
        drop (length text - (COMMAND_OUTPUT_CAP - CAP_HEAD)) text)"

text \<open>\<open>_FUNDED_DEPENDENCY_MUTATION_RE.search(command)\<close>, on the lower-cased text.\<close>

definition mutation_verbs :: "(string \<times> string list) list" where
  "mutation_verbs =
     [(''npm'', [''i'', ''install'', ''update'', ''uninstall'', ''remove'', ''rebuild'']),
      (''npm.cmd'', [''i'', ''install'', ''update'', ''uninstall'', ''remove'', ''rebuild'']),
      (''pnpm'', [''i'', ''install'', ''add'', ''remove'', ''update'']),
      (''yarn'', [''install'', ''add'', ''remove'', ''up''])]"

definition word_start :: "string \<Rightarrow> bool" where
  "word_start s \<longleftrightarrow> s \<noteq> [] \<and> is_word_char (hd s)"

definition mutation_here :: "string \<Rightarrow> bool" where
  "mutation_here s =
     list_ex (\<lambda>(tool, verbs).
       startswith s tool \<and>
       (let rest = drop (length tool) s; arg = dropWhile is_space rest in
        rest \<noteq> arg \<and>
        list_ex (\<lambda>v. startswith arg v \<and> \<not> word_start (drop (length v) arg)) verbs)) mutation_verbs"

fun mutation_search :: "bool \<Rightarrow> string \<Rightarrow> bool" where
  "mutation_search prev_word [] = False"
| "mutation_search prev_word (c # cs) =
     ((\<not> prev_word \<and> mutation_here (c # cs)) \<or> mutation_search (is_word_char c) cs)"

definition is_dependency_mutation :: "string \<Rightarrow> bool" where
  "is_dependency_mutation command = mutation_search False (lower command)"

subsection \<open>Lemmas\<close>

lemma escape_scan_plain:
  "escape_scan h False False tokens = None \<longleftrightarrow>
   (\<forall>raw \<in> set tokens. path_token h (unquote raw) \<longrightarrow> workspace_relative h (unquote raw) \<noteq> None)"
  by (induction tokens) auto

lemma escape_scan_nonempty: "escape_scan h e p tokens = Some t \<Longrightarrow> t \<noteq> []"
  by (induction h e p tokens rule: escape_scan.induct) (auto simp: path_token_def split: if_splits)

lemma command_escapes_nonempty: "command_escapes_workspace h c \<noteq> Some []"
  using escape_scan_nonempty by (force simp: command_escapes_workspace_def Let_def split: if_splits)

lemma shlex_plain_cat: "\<exists>ts. shlex_plain (''cat '' @ s) = ''cat'' # ts"
  by (cases "lex_plain Idle [] s") (simp_all add: shlex_plain_def lex_space_def lex_quote_def is_space_def)

lemma split_separators_none:
  "list_all (\<lambda>c. c \<noteq> CHR '';'' \<and> c \<noteq> CHR ''&'' \<and> c \<noteq> CHR ''|'') s \<Longrightarrow> split_separators s = [s]"
  by (induction s rule: split_separators.induct) auto

lemma split_separators_plain:
  "CHR '';'' \<notin> set s \<Longrightarrow> CHR ''&'' \<notin> set s \<Longrightarrow> (\<forall>i < length s. s ! i = CHR ''|'' \<longrightarrow> Suc i < length s \<longrightarrow> s ! Suc i \<noteq> CHR ''|'') \<Longrightarrow>
   split_separators s = [s]"
proof (induction s rule: split_separators.induct)
  case 1
  then show ?case by simp
next
  case (2 c cs)
  have "\<not> (c = CHR ''|'' \<and> cs \<noteq> [] \<and> hd cs = c)"
    using 2(6) [rule_format, of 0] by (cases cs) auto
  moreover have "\<forall>i < length cs. cs ! i = CHR ''|'' \<longrightarrow> Suc i < length cs \<longrightarrow> cs ! Suc i \<noteq> CHR ''|''"
    using 2(6) by fastforce
  ultimately show ?case using 2 by auto
qed

lemma cat_is_verification:
  assumes "strip (''cat '' @ s) = ''cat '' @ s"
  shows "is_verification_command (''cat '' @ s)" and "cd_target (''cat '' @ s) = None"
proof -
  from shlex_plain_cat [of s] obtain ts where ts: "shlex_plain (''cat '' @ s) = ''cat'' # ts" ..
  have "''cat'' \<in> set VERIFICATION_COMMANDS" by (simp add: VERIFICATION_COMMANDS_def)
  then show "is_verification_command (''cat '' @ s)"
    using ts unfolding is_verification_command_def Let_def assms by simp
  show "cd_target (''cat '' @ s) = None"
    using ts by (simp add: cd_target_def)
qed

lemma cat_accepted:
  assumes "strip (''cat '' @ s) = ''cat '' @ s" and "split_separators (''cat '' @ s) = [''cat '' @ s]"
  shows "command_matches h (''cat '' @ s) patterns"
proof -
  define c where "c = ''cat '' @ s"
  have st: "strip c = c" and sp: "split_separators c = [c]" and ne: "c \<noteq> []"
    using assms by (simp_all add: c_def)
  have v: "is_verification_command c" "cd_target c = None"
    using cat_is_verification [OF assms(1)] by (simp_all add: c_def)
  have "split_command_segments (strip c) = [c]"
    by (simp add: split_command_segments_def st sp ne)
  moreover have "segment_matches c patterns"
    using v by (simp add: segment_matches_def st ne Let_def)
  ultimately show ?thesis
    using v unfolding c_def [symmetric] by (simp add: command_matches_def)
qed

lemma lex_word:
  "list_all (\<lambda>c. \<not> lex_space c) p \<Longrightarrow> lex_plain InWord tok p = Some [tok @ p]"
  by (induction p arbitrary: tok) auto

lemma unquote_id:
  assumes "list_all (\<lambda>c. \<not> is_space c \<and> c \<noteq> CHR 0x22 \<and> c \<noteq> CHR 0x27) s"
  shows "unquote s = s"
proof (cases "s = []")
  case True
  then show ?thesis by (simp add: unquote_def strip_chars_def)
next
  case False
  then have "hd s \<in> set s" and "last s \<in> set s" by simp_all
  with assms have "\<not> is_space (hd s) \<and> \<not> is_quote1 (hd s) \<and> \<not> is_quote2 (hd s)"
    and "\<not> is_space (last s) \<and> \<not> is_quote1 (last s) \<and> \<not> is_quote2 (last s)"
    by (auto simp: list_all_iff is_quote1_def is_quote2_def)
  then show ?thesis
    by (simp add: unquote_def strip_chars_def strip_id rstrip_by_id lstrip_by_id)
qed

text \<open>The characters of an ordinary path.\<close>

definition path_char :: "char \<Rightarrow> bool" where
  "path_char c \<longleftrightarrow> is_word_char c \<or> c = CHR ''.'' \<or> c = CHR ''/'' \<or> c = CHR ''-''"

lemma path_char_plain:
  "path_char c \<Longrightarrow> \<not> lex_space c \<and> \<not> is_space c \<and> c \<noteq> CHR 0x22 \<and> c \<noteq> CHR 0x27 \<and>
   c \<noteq> CHR '';'' \<and> c \<noteq> CHR ''&'' \<and> c \<noteq> CHR ''|''"
  by (auto simp: path_char_def is_word_char_def is_digit_def is_upper_def is_lower_def lex_space_def is_space_def Let_def)

lemma path_text_plain:
  assumes "list_all path_char p"
  shows "list_all (\<lambda>c. \<not> lex_space c) p"
    and "list_all (\<lambda>c. \<not> is_space c \<and> c \<noteq> CHR 0x22 \<and> c \<noteq> CHR 0x27) p"
    and "list_all (\<lambda>c. c \<noteq> CHR '';'' \<and> c \<noteq> CHR ''&'' \<and> c \<noteq> CHR ''|'') p"
  using assms path_char_plain unfolding list_all_iff by blast+

lemma cat_redirect_tokens:
  assumes "list_all path_char p"
  shows "shlex_plain (''cat <'' @ p) = [''cat'', CHR ''<'' # p]"
proof -
  have "list_all (\<lambda>c. \<not> lex_space c) p" using assms by (rule path_text_plain)
  then show ?thesis
    by (simp add: shlex_plain_def lex_space_def [of "CHR ''c''"] lex_space_def [of "CHR ''a''"]
        lex_space_def [of "CHR ''t''"] lex_space_def [of "CHR '' ''"] lex_space_def [of "CHR ''<''"]
        lex_quote_def lex_word)
qed

subsection \<open>Properties\<close>

text \<open>The scan is complete on what it takes for a path. A command without an inline evaluator
  that the scan accepts has no token that looks like a path (no device, flag, blank or shell
  character) and resolves outside the workspace; and what the scan reports is never empty, so
  the caller's truth test sees every report.\<close>

theorem command_scan_contains:
  assumes "strip command \<noteq> []" and "command_verb (shlex_plain command) \<notin> set EVAL_COMMAND_ROOTS"
  shows "(if command_escapes_workspace h command = None
      then \<forall>raw \<in> set (shlex_plain command). path_token h (unquote raw) \<longrightarrow>
        workspace_relative h (unquote raw) \<noteq> None
      else \<exists>t. command_escapes_workspace h command = Some t \<and> t \<noteq> [] \<and> path_token h t \<and>
        workspace_relative h t = None)"
proof -
  have "command_escapes_workspace h command = escape_scan h False False (shlex_plain command)"
    using assms by (simp add: command_escapes_workspace_def Let_def)
  moreover have "escape_scan h False False tokens = Some t \<Longrightarrow> path_token h t \<and> workspace_relative h t = None"
    for tokens t by (induction tokens) (auto split: if_splits)
  ultimately show ?thesis
    using escape_scan_plain [of h "shlex_plain command"] command_escapes_nonempty [of h command]
    by (cases "command_escapes_workspace h command") auto
qed

text \<open>a redirection hides a path from the scan. Whatever file \<open>p\<close> names, inside the workspace
  or not, \<open>cat <p\<close> is not reported as escaping, and it matches every allowlist, the empty one
  included.\<close>

theorem redirect_not_contained:
  assumes "list_all path_char p"
  shows "command_escapes_workspace h (''cat <'' @ p) = None \<and> command_matches h (''cat <'' @ p) patterns"
proof
  have u1: "unquote ''cat'' = ''cat''" by (rule unquote_id) (simp add: is_space_def)
  have u2: "unquote (CHR ''<'' # p) = CHR ''<'' # p"
    by (rule unquote_id) (simp add: is_space_def [of "CHR ''<''"] path_text_plain [OF assms])
  have "\<not> path_token h ''cat''" "\<not> path_token h (CHR ''<'' # p)"
    by (simp_all add: path_token_def looks_like_non_path_token_def is_space_def to_slash_def
        replace_char_def)
  moreover have "command_verb [''cat'', CHR ''<'' # p] = ''cat''"
    using u1 by (simp add: is_env_assignment_def is_word_char_def is_lower_def to_slash_def replace_char_def
        base_name_def lower_def char_lower_def is_upper_def)
  ultimately show "command_escapes_workspace h (''cat <'' @ p) = None"
    unfolding command_escapes_workspace_def Let_def cat_redirect_tokens [OF assms]
    by (simp add: u1 u2 EVAL_COMMAND_ROOTS_def)
  let ?c = "''cat '' @ (CHR ''<'' # p)"
  have "\<not> is_space (last ?c)"
    using assms path_char_plain [of "last p"] by (cases "p = []") (simp_all add: list_all_iff is_space_def)
  then have st: "strip ?c = ?c" by (intro strip_id) (simp add: is_space_def)
  have "split_separators ?c = [?c]"
    by (rule split_separators_none) (simp add: path_text_plain [OF assms])
  then have "command_matches h ?c patterns" using cat_accepted [OF st] by blast
  then show "command_matches h (''cat <'' @ p) patterns" by simp
qed

theorem redirect_not_contained_witness:
  "command_escapes_workspace h ''cat <../../gold/x.test.ts'' = None"
proof -
  have "list_all path_char ''../../gold/x.test.ts''"
    by (simp add: path_char_def is_word_char_def is_lower_def)
  from redirect_not_contained [OF this] show ?thesis by simp
qed

theorem command_scan_contains_witness:
  "\<exists>t. command_escapes_workspace demo_host ''cat ../x'' = Some t \<and> workspace_relative demo_host t = None"
proof -
  have "strip ''cat ../x'' \<noteq> []" and v: "command_verb (shlex_plain ''cat ../x'') \<notin> set EVAL_COMMAND_ROOTS"
    and "command_escapes_workspace demo_host ''cat ../x'' \<noteq> None"
    by code_simp+
  with command_scan_contains [OF _ v, of demo_host] show ?thesis by auto
qed

text \<open>a pipeline counts as one segment. The separators that split a command are \<open>&&\<close>, \<open>||\<close> and
  \<open>;\<close> only, so a command that starts with a verification command is accepted whole, whatever a
  single pipe feeds its output to, by every allowlist.\<close>

theorem pipeline_is_one_segment:
  assumes "strip (''cat '' @ s) = ''cat '' @ s" and "CHR '';'' \<notin> set s" and "CHR ''&'' \<notin> set s"
    and "\<forall>i < length s. s ! i = CHR ''|'' \<longrightarrow> Suc i < length s \<longrightarrow> s ! Suc i \<noteq> CHR ''|''"
  shows "command_matches h (''cat '' @ s) patterns"
proof -
  have "split_separators s = [s]" using assms(2-4) by (rule split_separators_plain)
  then have "split_separators (''cat '' @ s) = [''cat '' @ s]" by simp
  with assms(1) show ?thesis by (rule cat_accepted)
qed

theorem pipeline_is_one_segment_witness:
  "command_matches h ''cat x | sh'' []"
proof -
  have "strip (''cat '' @ ''x | sh'') = ''cat '' @ ''x | sh''"
    by (simp add: strip_id is_space_def)
  from pipeline_is_one_segment [OF this] show ?thesis
    by (simp add: nth_Cons split: nat.splits)
qed

end
