(* ===== verification/Enforcement.thy ===== *)
theory Enforcement
  imports Prelude
begin

section \<open>The enforcement snapshot (\<open>product/enforcement_state.py\<close>)\<close>

text \<open>
  The governance rules an agent run reads once at its start: the mode of each runtime rule,
  the wave freeze, the allowlists per trust tier and the deny lists. A workspace is a map from
  relative paths to the JSON files the provider reads. A value that is no list of strings where
  the code needs one is a \<open>TypeError\<close> here; the source fails at the latest when it matches a
  path against it.
\<close>

datatype enf_error = RuntimeError string | BadType

type_synonym workspace = "string \<rightharpoonup> json_file"

definition RUNTIME_RULES :: "string list" where
  "RUNTIME_RULES =
     [''gate-gating'', ''plan-gating'', ''trust-tier'', ''audit-append'', ''secret-block'',
      ''role-sign'', ''stack-contract'', ''wave-freeze'', ''test-first'', ''gate-compliance'',
      ''zero-manual-regression'', ''mutation-threshold'']"

definition CORE_INVARIANTS_PY :: "string list" where
  "CORE_INVARIANTS_PY =
     [''gate-gating'', ''plan-gating'', ''trust-tier'', ''audit-append'', ''secret-block'',
      ''role-sign'', ''test-first'', ''gate-compliance'']"

definition TRUST_TIER_PATHS_REL :: string where
  "TRUST_TIER_PATHS_REL = ''.signalos/trust-tier-paths.json''"

definition ENFORCEMENT_REL :: string where
  "ENFORCEMENT_REL = ''.signalos/enforcement.json''"

definition DEFAULT_TRUST_TIER_PATHS :: "(string \<times> py) list" where
  "DEFAULT_TRUST_TIER_PATHS =
   [(''T1'', PDict [
      (''read'', PList [PStr ''**'']),
      (''write'', PList []),
      (''execute'', PList [])]),
    (''T2'', PDict [
      (''read'', PList [PStr ''**'']),
      (''write'', PList [PStr ''core/governance/**'', PStr ''core/strategy/**'', PStr ''core/execution/**'',
          PStr ''src/**'', PStr ''public/**'', PStr ''tests/**'', PStr ''app/**'',
          PStr ''pages/**'', PStr ''components/**'', PStr ''styles/**'', PStr ''lib/**'',
          PStr ''test/**'', PStr ''cmd/**'', PStr ''internal/**'',
          PStr ''SignalOSProduct.Api/**'', PStr ''package.json'', PStr ''tsconfig.json'',
          PStr ''tsconfig.*.json'', PStr ''jsconfig.json'', PStr ''index.html'',
          PStr ''index.css'', PStr ''vite.config.*'', PStr ''vitest.config.*'',
          PStr ''vitest.workspace.*'', PStr ''jest.config.*'', PStr ''eslint.config.*'',
          PStr ''babel.config.*'', PStr ''rollup.config.*'', PStr ''angular.json'',
          PStr ''next.config.*'', PStr ''next-env.d.ts'', PStr ''postcss.config.*'',
          PStr ''tailwind.config.*'', PStr ''.eslintrc*'', PStr ''.prettierrc*'',
          PStr ''.babelrc*'', PStr ''README.md'', PStr ''pyproject.toml'', PStr ''setup.cfg'',
          PStr ''setup.py'', PStr ''requirements*.txt'', PStr ''manage.py'', PStr ''Cargo.toml'',
          PStr ''go.mod'', PStr ''go.sum'', PStr ''pom.xml'', PStr ''build.gradle'',
          PStr ''build.gradle.kts'', PStr ''settings.gradle'', PStr ''settings.gradle.kts'',
          PStr ''*.csproj'', PStr ''pubspec.yaml'', PStr ''analysis_options.yaml'',
          PStr ''app.json'', PStr ''App.js'', PStr ''App.tsx'', PStr ''PRODUCT_STACK.md'']),
      (''execute'', PList [PStr ''npm install'', PStr ''npm run build'', PStr ''npm test'', PStr ''npm run test'',
          PStr ''npm run dev'', PStr ''npm run lint'', PStr ''npx vitest'', PStr ''npx tsc'',
          PStr ''npx vite'', PStr ''node --check'', PStr ''node --test'', PStr ''pytest'',
          PStr ''python -m pytest'', PStr ''python -c'', PStr ''python -m compileall'',
          PStr ''python -m unittest'', PStr ''python -m pip install'', PStr ''pip install'',
          PStr ''ruff check'', PStr ''go build'', PStr ''go test'', PStr ''golangci-lint run'',
          PStr ''cargo build'', PStr ''cargo test'', PStr ''cargo clippy'',
          PStr ''dotnet restore'', PStr ''dotnet build'', PStr ''dotnet run'',
          PStr ''dotnet test'', PStr ''javac'', PStr ''java -cp'', PStr ''mvn test'',
          PStr ''mvn -q'', PStr ''gradle test'', PStr ''flutter pub get'',
          PStr ''flutter analyze'', PStr ''flutter test'', PStr ''ls'', PStr ''dir'',
          PStr ''cat'', PStr ''pwd'', PStr ''head'', PStr ''tail'', PStr ''wc'',
          PStr ''git status'', PStr ''git diff'', PStr ''git log''])]),
    (''T3'', PDict [
      (''read'', PList [PStr ''**'']),
      (''write'', PList [PStr ''**'']),
      (''execute'', PList [PStr ''**''])]),
    (''forbidden_always'', PDict [
      (''write'', PList [PStr ''.signalos/AUDIT_TRAIL.jsonl'', PStr ''.signalos/gates.json'', PStr ''.env'',
          PStr ''.env.local'', PStr ''*.pem'', PStr ''*.key'']),
      (''execute'', PList [PStr ''rm -rf'', PStr ''git push --force'', PStr ''git reset --hard'',
          PStr ''npm publish'', PStr ''docker push''])])]"

subsection \<open>The state\<close>

record enforcement_state =
  trust_tier :: string
  rule_modes :: "(string \<times> string) list"
  forbidden_paths :: "string list"
  forbidden_actions :: "string list"
  wave_frozen :: bool
  signed_gates :: "int list"
  trust_tier_paths :: "(string \<times> py) list"

definition rule_mode :: "enforcement_state \<Rightarrow> string \<Rightarrow> string" where
  "rule_mode enf rule = (case dict_get (rule_modes enf) rule of None \<Rightarrow> ''strict'' | Some m \<Rightarrow> m)"

definition rule_enabled :: "enforcement_state \<Rightarrow> string \<Rightarrow> bool" where
  "rule_enabled enf rule \<longleftrightarrow> rule_mode enf rule \<noteq> ''off''"

datatype rule_verdict = Block | Warn | Off

text \<open>The verdicts are ordered by how much they deny.\<close>

definition verdict_rank :: "rule_verdict \<Rightarrow> nat" where
  "verdict_rank v = (case v of Off \<Rightarrow> 0 | Warn \<Rightarrow> 1 | Block \<Rightarrow> 2)"

instantiation rule_verdict :: linorder
begin

definition less_eq_rule_verdict :: "rule_verdict \<Rightarrow> rule_verdict \<Rightarrow> bool" where
  "less_eq_rule_verdict a b \<longleftrightarrow> verdict_rank a \<le> verdict_rank b"

definition less_rule_verdict :: "rule_verdict \<Rightarrow> rule_verdict \<Rightarrow> bool" where
  "less_rule_verdict a b \<longleftrightarrow> verdict_rank a < verdict_rank b"

instance
  by standard
    (auto simp: less_eq_rule_verdict_def less_rule_verdict_def verdict_rank_def split: rule_verdict.splits)

end

definition rule_action :: "enforcement_state \<Rightarrow> string \<Rightarrow> rule_verdict" where
  "rule_action enf rule =
     (let mode = rule_mode enf rule in
      if mode = ''off'' then Off else if mode = ''warn'' then Warn else Block)"

definition str_elem :: "py \<Rightarrow> string option" where
  "str_elem v = (case v of PStr s \<Rightarrow> Some s | _ \<Rightarrow> None)"

text \<open>\<open>list(v)\<close> where a list of strings is needed.\<close>

definition str_list :: "py \<Rightarrow> enf_error + string list" where
  "str_list v =
     (case v of
        PList xs \<Rightarrow>
          (if list_all (\<lambda>x. str_elem x \<noteq> None) xs then Inr (map (\<lambda>x. the (str_elem x)) xs)
           else Inl BadType)
      | PStr s \<Rightarrow> Inr (map (\<lambda>c. [c]) s)
      | PDict kvs \<Rightarrow> Inr (map fst kvs)
      | _ \<Rightarrow> Inl BadType)"

text \<open>\<open>list(v.get(k, []))\<close>.\<close>

definition sub_list :: "py \<Rightarrow> string \<Rightarrow> enf_error + string list" where
  "sub_list v k =
     (case v of
        PDict d \<Rightarrow> (case dict_get d k of None \<Rightarrow> Inr [] | Some x \<Rightarrow> str_list x)
      | _ \<Rightarrow> Inl BadType)"

definition tier_paths :: "enforcement_state \<Rightarrow> string \<Rightarrow> enf_error + string list" where
  "tier_paths enf kind =
     sub_list (case dict_get (trust_tier_paths enf) (trust_tier enf) of None \<Rightarrow> PDict [] | Some t \<Rightarrow> t)
       kind"

subsection \<open>Reading the files\<close>

definition load_trust_tier_paths :: "workspace \<Rightarrow> enf_error + (string \<times> py) list" where
  "load_trust_tier_paths ws =
     (case ws TRUST_TIER_PATHS_REL of
        None \<Rightarrow> Inr DEFAULT_TRUST_TIER_PATHS
      | Some Garbled \<Rightarrow> Inl (RuntimeError ''trust-tier-paths.json is unreadable'')
      | Some (Json (PDict d)) \<Rightarrow>
          (if dict_get d ''forbidden_always'' = None
           then Inr (dict_set d ''forbidden_always'' (get_py DEFAULT_TRUST_TIER_PATHS ''forbidden_always''))
           else Inr d)
      | Some (Json _) \<Rightarrow> Inl (RuntimeError ''trust-tier-paths.json must be a JSON object''))"

definition seed_trust_tier_paths :: "bool \<Rightarrow> workspace \<Rightarrow> workspace" where
  "seed_trust_tier_paths force ws =
     (if ws TRUST_TIER_PATHS_REL \<noteq> None \<and> \<not> force then ws
      else ws(TRUST_TIER_PATHS_REL \<mapsto> Json (PDict DEFAULT_TRUST_TIER_PATHS)))"

definition strict_modes :: "(string \<times> string) list" where
  "strict_modes = map (\<lambda>r. (r, ''strict'')) RUNTIME_RULES"

text \<open>The loop over the items of \<open>rule_modes\<close> in the file: unknown rules and modes are skipped.\<close>

fun merge_modes :: "(string \<times> py) list \<Rightarrow> (string \<times> string) list \<Rightarrow> (string \<times> string) list" where
  "merge_modes [] modes = modes"
| "merge_modes ((rule, mode) # rest) modes =
     merge_modes rest
       (if rule \<in> set RUNTIME_RULES \<and> mode \<in> {PStr ''strict'', PStr ''warn'', PStr ''off''}
        then dict_set modes rule (the (str_elem mode)) else modes)"

text \<open>The floor: a core rule is never off. The set of core rules is iterated in any order.\<close>

fun apply_floor :: "string list \<Rightarrow> (string \<times> string) list \<Rightarrow> (string \<times> string) list" where
  "apply_floor [] modes = modes"
| "apply_floor (rule # rules) modes =
     apply_floor rules
       (if dict_get modes rule = Some ''off'' then dict_set modes rule ''strict'' else modes)"

definition read_modes :: "workspace \<Rightarrow> enf_error + (string \<times> string) list \<times> bool" where
  "read_modes ws =
     (case ws ENFORCEMENT_REL of
        None \<Rightarrow> Inr (strict_modes, False)
      | Some Garbled \<Rightarrow> Inl (RuntimeError ''enforcement.json is unreadable'')
      | Some (Json (PDict raw)) \<Rightarrow>
          Inr (case dict_get raw ''rule_modes'' of
                 Some (PDict file_modes) \<Rightarrow> merge_modes file_modes strict_modes
               | _ \<Rightarrow> strict_modes,
               truthy (case dict_get raw ''wave_frozen'' of None \<Rightarrow> PBool False | Some v \<Rightarrow> v))
      | Some (Json _) \<Rightarrow> Inl (RuntimeError ''enforcement.json must be a JSON object''))"

definition forbidden_lists :: "(string \<times> py) list \<Rightarrow> enf_error + string list \<times> string list" where
  "forbidden_lists paths =
     (let forbidden = (case dict_get paths ''forbidden_always'' of None \<Rightarrow> PDict [] | Some v \<Rightarrow> v) in
      and_then (sub_list forbidden ''write'') (\<lambda>w.
      and_then (sub_list forbidden ''execute'') (\<lambda>x. Inr (w, x))))"

definition file_enforcement_state :: "workspace \<Rightarrow> enf_error + enforcement_state" where
  "file_enforcement_state ws =
     and_then (load_trust_tier_paths ws) (\<lambda>paths.
     and_then (read_modes ws) (\<lambda>mf.
     and_then (forbidden_lists paths) (\<lambda>fl.
       Inr \<lparr>trust_tier = ''T2'', rule_modes = apply_floor CORE_INVARIANTS_PY (fst mf),
            forbidden_paths = fst fl, forbidden_actions = snd fl, wave_frozen = snd mf,
            signed_gates = [], trust_tier_paths = paths\<rparr>)))"

definition static_enforcement_state ::
    "string \<Rightarrow> (string \<times> string) list \<Rightarrow> bool \<Rightarrow> int list \<Rightarrow> workspace \<Rightarrow> enf_error + enforcement_state" where
  "static_enforcement_state tier modes frozen signed ws =
     and_then (load_trust_tier_paths ws) (\<lambda>paths.
     and_then (forbidden_lists paths) (\<lambda>fl.
       Inr \<lparr>trust_tier = tier, rule_modes = (if modes = [] then strict_modes else modes),
            forbidden_paths = fst fl, forbidden_actions = snd fl, wave_frozen = frozen,
            signed_gates = signed, trust_tier_paths = paths\<rparr>))"

subsection \<open>Lemmas\<close>

lemma apply_floor_get:
  "dict_get (apply_floor rules modes) r =
     (if r \<in> set rules \<and> dict_get modes r = Some ''off'' then Some ''strict'' else dict_get modes r)"
  by (induction rules modes rule: apply_floor.induct) auto

lemma merge_modes_valid:
  "(\<And>r m. dict_get modes r = Some m \<Longrightarrow> m \<in> {''strict'', ''warn'', ''off''}) \<Longrightarrow>
   dict_get (merge_modes fm modes) r = Some m \<Longrightarrow> m \<in> {''strict'', ''warn'', ''off''}"
proof (induction fm modes rule: merge_modes.induct)
  case (1 modes)
  then show ?case by simp
next
  case (2 rule mode rest modes)
  show ?case
  proof (rule "2.IH")
    show "m \<in> {''strict'', ''warn'', ''off''}"
      if "dict_get (if rule \<in> set RUNTIME_RULES \<and> mode \<in> {PStr ''strict'', PStr ''warn'', PStr ''off''}
        then dict_set modes rule (the (str_elem mode)) else modes) r = Some m" for r m
      using that "2.prems"(1) [of r m]
      by (auto simp: str_elem_def split: if_splits)
  qed (use "2.prems"(2) in simp)
qed

lemma dict_get_map_const: "dict_get (map (\<lambda>r. (r, c)) rs) r = (if r \<in> set rs then Some c else None)"
  by (induction rs) (auto simp: dict_get_def)

lemma strict_modes_get: "dict_get strict_modes r = Some m \<Longrightarrow> m = ''strict''"
  by (auto simp: strict_modes_def dict_get_map_const split: if_splits)

lemma rule_action_Off: "rule_action enf r = Off \<longleftrightarrow> \<not> rule_enabled enf r"
  by (simp add: rule_action_def rule_enabled_def Let_def)

subsection \<open>Properties\<close>

text \<open>No file can switch a core rule off. Whatever \<open>enforcement.json\<close> holds, the state the
  provider returns blocks or warns on every core invariant; every mode is one of the three
  known ones; and without the file every rule is strict and the wave is not frozen.\<close>

theorem core_rules_never_off:
  assumes "file_enforcement_state ws = Inr enf"
  shows "(\<forall>r \<in> set CORE_INVARIANTS_PY. rule_enabled enf r \<and> rule_action enf r \<in> {Block, Warn}) \<and>
    (\<forall>r. rule_mode enf r \<in> {''strict'', ''warn'', ''off''}) \<and>
    (ws ENFORCEMENT_REL = None \<longrightarrow> (\<forall>r. rule_action enf r = Block) \<and> \<not> wave_frozen enf)"
proof -
  from assms obtain modes frozen where m: "read_modes ws = Inr (modes, frozen)"
    and e: "rule_modes enf = apply_floor CORE_INVARIANTS_PY modes" "wave_frozen enf = frozen"
    by (auto simp: file_enforcement_state_def and_then_Inr)
  have strict: "dict_get strict_modes r = Some m \<Longrightarrow> m \<in> {''strict'', ''warn'', ''off''}" for r m
    using strict_modes_get by blast
  have valid: "dict_get modes r = Some m \<Longrightarrow> m \<in> {''strict'', ''warn'', ''off''}" for r m
    using m merge_modes_valid [OF strict] strict
    by (fastforce simp: read_modes_def split: option.splits json_file.splits py.splits)
  have mode: "rule_mode enf r = (case dict_get modes r of None \<Rightarrow> ''strict''
      | Some m \<Rightarrow> if r \<in> set CORE_INVARIANTS_PY \<and> m = ''off'' then ''strict'' else m)" for r
    by (simp add: rule_mode_def e apply_floor_get split: option.split)
  have "\<forall>r \<in> set CORE_INVARIANTS_PY. rule_mode enf r \<noteq> ''off''"
    by (auto simp: mode split: option.splits)
  then have "\<forall>r \<in> set CORE_INVARIANTS_PY. rule_enabled enf r \<and> rule_action enf r \<in> {Block, Warn}"
    by (auto simp: rule_enabled_def rule_action_def Let_def)
  moreover have "\<forall>r. rule_mode enf r \<in> {''strict'', ''warn'', ''off''}"
    using valid by (auto simp: mode split: option.splits)
  moreover have "ws ENFORCEMENT_REL = None \<longrightarrow> (\<forall>r. rule_action enf r = Block) \<and> \<not> wave_frozen enf"
    using m by (auto simp: read_modes_def e rule_action_def mode Let_def split: option.splits
        dest: strict_modes_get)
  ultimately show ?thesis by blast
qed

definition demo_enforcement :: workspace where
  "demo_enforcement =
     [ENFORCEMENT_REL \<mapsto> Json (PDict [(''rule_modes'',
        PDict [(''trust-tier'', PStr ''off''), (''stack-contract'', PStr ''off'')])])]"

theorem core_rules_never_off_witness:
  "\<exists>enf. file_enforcement_state demo_enforcement = Inr enf \<and> rule_enabled enf ''trust-tier''"
proof -
  have "\<not> isl (file_enforcement_state demo_enforcement)" by code_simp
  then obtain enf where e: "file_enforcement_state demo_enforcement = Inr enf"
    by (cases "file_enforcement_state demo_enforcement") auto
  have "''trust-tier'' \<in> set CORE_INVARIANTS_PY" by (simp add: CORE_INVARIANTS_PY_def)
  with core_rules_never_off [OF e] e show ?thesis by blast
qed

end
