(* ===== verification/AgentGovernance.thy ===== *)
theory AgentGovernance
  imports CommandPolicy Enforcement
begin

section \<open>Governance of the agent's tool calls (\<open>AgentLoop._check_governance\<close>)\<close>

text \<open>
  The check every tool call of the agent passes before it runs. A call is allowed when the
  check returns; the list it returns holds the rules it warned about, in order. The enforcement
  snapshot is that of \<open>Enforcement\<close>, the host that of \<open>PathPolicy\<close>. The advice that ends some messages is left out. What the check reads of
  the workspace and of the run is the record \<open>agent_ctx\<close>: \<open>read_text\<close> is the text of the file
  \<open>_resolve_in_workspace\<close> finds (\<open>None\<close> when there is none), \<open>json_loads\<close> is \<open>json.loads\<close>.
\<close>

datatype policy_error =
    ToolPolicyError string "string option"
  | Crash

type_synonym gov = "policy_error + string list"

record artifact_status =
  st_rel_path :: string
  st_exists :: bool
  st_has_signatures :: bool
  st_is_draft :: bool

record agent_ctx =
  active_gate :: "string option"
  execution_context :: string
  context_signed_gates :: "int list"
  test_written_this_run :: bool
  is_file :: "string \<Rightarrow> bool"
  read_text :: "string \<Rightarrow> string option"
  plan_tests :: "(string \<times> bool \<times> string option) list option list"
  gate_artifacts :: "artifact_status list"
  json_loads :: "string \<Rightarrow> py option"

subsection \<open>The ladder\<close>

definition governance_verdict :: "enforcement_state \<Rightarrow> string \<Rightarrow> string \<Rightarrow> gov" where
  "governance_verdict enf rule reason =
     (case rule_action enf rule of
        Block \<Rightarrow> Inl (ToolPolicyError reason (Some rule))
      | Warn \<Rightarrow> Inr [rule]
      | Off \<Rightarrow> Inr [])"

definition deny_if :: "bool \<Rightarrow> string \<Rightarrow> string option \<Rightarrow> gov" where
  "deny_if b reason rule = (if b then Inl (ToolPolicyError reason rule) else Inr [])"

definition verdict_if :: "enforcement_state \<Rightarrow> bool \<Rightarrow> string \<Rightarrow> string \<Rightarrow> gov" where
  "verdict_if enf b rule reason = (if b then governance_verdict enf rule reason else Inr [])"

text \<open>A sequence of checks: the first error ends it.\<close>

fun gov_all :: "gov list \<Rightarrow> gov" where
  "gov_all [] = Inr []"
| "gov_all (c # cs) = and_then c (\<lambda>es. and_then (gov_all cs) (\<lambda>fs. Inr (es @ fs)))"

subsection \<open>Signed artifacts, tests and the verification contract\<close>

definition is_allowed_gate_output :: "agent_ctx \<Rightarrow> string \<Rightarrow> bool" where
  "is_allowed_gate_output ctx rel =
     (let n = keep_dot_rel rel in
      active_gate ctx = Some ''G3'' \<and>
      (n = DESIGN_OUTPUT_PREFIX \<or> startswith n (DESIGN_OUTPUT_PREFIX @ ''/'')))"

definition signed_core_artifacts :: "agent_ctx \<Rightarrow> string list" where
  "signed_core_artifacts ctx =
     map (\<lambda>st. norm_path (st_rel_path st))
       (filter (\<lambda>st. st_exists st \<and> st_has_signatures st \<and> \<not> st_is_draft st \<and>
                     is_gate_artifact_rel_path (norm_path (st_rel_path st))) (gate_artifacts ctx))"

fun dig_json :: "py \<Rightarrow> string list \<Rightarrow> py" where
  "dig_json cur [] = cur"
| "dig_json cur (k # ks) =
     (case cur of
        PDict d \<Rightarrow> (case dict_get d k of None \<Rightarrow> PNone | Some v \<Rightarrow> dig_json v ks)
      | _ \<Rightarrow> PNone)"

fun frozen_change :: "py \<Rightarrow> py \<Rightarrow> string list list \<Rightarrow> (string list \<times> py \<times> py) option" where
  "frozen_change old new [] = None"
| "frozen_change old new (kp # kps) =
     (let ov = dig_json old kp; nv = dig_json new kp in
      if ov \<noteq> PNone \<and> \<not> py_eq nv ov then Some (kp, ov, nv) else frozen_change old new kps)"

definition contract_keys :: "string \<Rightarrow> (string list list \<times> string) option" where
  "contract_keys rel =
     (let base = lower (base_name (norm_path rel)) in
      if base = ''package.json''
      then Some ([[''scripts'', ''test''], [''scripts'', ''build'']], ''package.json build/test scripts'')
      else if startswith base ''tsconfig'' \<and> endswith base ''.json''
      then Some ([[''include''], [''exclude'']], ''tsconfig test-discovery globs'')
      else None)"

definition verification_contract_violation ::
    "agent_ctx \<Rightarrow> string \<Rightarrow> string option \<Rightarrow> string option \<Rightarrow> string option" where
  "verification_contract_violation ctx rel new_text old_text =
     (case (new_text, old_text, contract_keys rel) of
        (Some nt, Some ot, Some (frozen, label)) \<Rightarrow>
          (if active_gate ctx \<noteq> Some ''G4'' then None
           else
             (case (json_loads ctx ot, json_loads ctx nt) of
                (Some old, Some new) \<Rightarrow>
                  map_option (\<lambda>(kp, ov, nv). CHR 0x27 # rel @ CHR 0x27 #
                      '' would change a FROZEN G4 verification key ('' @ label @ '': '' @ join ''.'' kp @
                      '') from '' @ py_repr ov @ '' to '' @ py_repr nv @
                      ''. The verification contract is immutable during the build -- make the exam '' @
                      ''pass by implementing the product, not by rewriting the command that runs it '' @
                      ''or excluding the frozen tests.'')
                    (frozen_change old new frozen)
              | _ \<Rightarrow> None))
      | _ \<Rightarrow> None)"

text \<open>\<open>s.count(old)\<close> and \<open>s.replace(old, new, 1)\<close> for a text \<open>old\<close> that is not empty.\<close>

function count_sub :: "string \<Rightarrow> string \<Rightarrow> nat" where
  "count_sub old s =
     (if s = [] \<or> old = [] then 0
      else if startswith s old then Suc (count_sub old (drop (length old) s))
      else count_sub old (tl s))"
  by pat_completeness auto
termination by (relation "measure (length \<circ> snd)") auto

declare count_sub.simps [simp del]

fun replace_first :: "string \<Rightarrow> string \<Rightarrow> string \<Rightarrow> string" where
  "replace_first old new [] = []"
| "replace_first old new (c # cs) =
     (if startswith (c # cs) old then new @ drop (length old) (c # cs)
      else c # replace_first old new cs)"

definition edit_preview_text :: "agent_ctx \<Rightarrow> string \<Rightarrow> (string \<times> py) list \<Rightarrow> string option" where
  "edit_preview_text ctx rel args =
     (case read_text ctx rel of
        None \<Rightarrow> None
      | Some original \<Rightarrow>
          (let old = get_str args ''old_string''; new = get_str args ''new_string'' in
           if old = [] \<or> count_sub old original \<noteq> 1 then None
           else Some (replace_first old new original)))"

text \<open>The scan of the plan's test directories: entry names, whether they are files, their text.\<close>

fun scan_tests :: "string \<Rightarrow> nat \<Rightarrow> (string \<times> bool \<times> string option) list \<Rightarrow> nat + bool" where
  "scan_tests stem scanned [] = Inl scanned"
| "scan_tests stem scanned ((n, file, text) # ps) =
     (if 200 \<le> scanned then Inr False
      else if \<not> file then scan_tests stem scanned ps
      else if \<not> (occurs_in ''.test.'' n \<or> occurs_in ''.spec.'' n \<or> startswith n ''test_'' \<or> endswith n ''_test.py'')
      then scan_tests stem scanned ps
      else (case text of
              None \<Rightarrow> scan_tests stem (Suc scanned) ps
            | Some t \<Rightarrow> if occurs_in stem t then Inr True else scan_tests stem (Suc scanned) ps))"

fun scan_test_dirs :: "string \<Rightarrow> nat \<Rightarrow> (string \<times> bool \<times> string option) list option list \<Rightarrow> bool" where
  "scan_test_dirs stem scanned [] = False"
| "scan_test_dirs stem scanned (None # ds) = scan_test_dirs stem scanned ds"
| "scan_test_dirs stem scanned (Some ps # ds) =
     (case scan_tests stem scanned ps of Inr r \<Rightarrow> r | Inl n \<Rightarrow> scan_test_dirs stem n ds)"

definition plan_authored_test_for :: "agent_ctx \<Rightarrow> string \<Rightarrow> bool" where
  "plan_authored_test_for ctx stem =
     (if length stem < 3 then False else scan_test_dirs stem 0 (plan_tests ctx))"

text \<open>\<open>normed.rsplit(".", 1)[0]\<close>.\<close>

definition drop_ext :: "string \<Rightarrow> string" where
  "drop_ext s = (if CHR ''.'' \<in> set s then rev (tl (dropWhile (\<lambda>c. c \<noteq> CHR ''.'') (rev s))) else s)"

definition test_candidates :: "string \<Rightarrow> string list" where
  "test_candidates rel_path =
     (let n = norm_path rel_path;
          stem = takeWhile (\<lambda>c. c \<noteq> CHR ''.'') (base_name n);
          base = drop_ext n
      in [''tests/test_'' @ stem @ ''.py'', ''tests/'' @ stem @ ''_test.py'', ''src/'' @ stem @ ''.test.ts'',
          ''src/'' @ stem @ ''.test.tsx'', ''src/'' @ stem @ ''.spec.ts'', ''src/'' @ stem @ ''.spec.tsx''] @
         (if startswith n ''src/''
          then [base @ ''.test.ts'', base @ ''.test.tsx'', base @ ''.spec.ts'', base @ ''.spec.tsx'']
          else []))"

definition has_existing_test_for :: "agent_ctx \<Rightarrow> string \<Rightarrow> bool" where
  "has_existing_test_for ctx rel_path =
     (list_ex (is_file ctx) (test_candidates rel_path) \<or>
      plan_authored_test_for ctx (takeWhile (\<lambda>c. c \<noteq> CHR ''.'') (base_name (norm_path rel_path))))"

subsection \<open>Writes\<close>

definition gate_set :: "agent_ctx \<Rightarrow> bool" where
  "gate_set ctx \<longleftrightarrow> active_gate ctx \<noteq> None \<and> active_gate ctx \<noteq> Some []"

definition signed_numbers :: "enforcement_state \<Rightarrow> agent_ctx \<Rightarrow> int list" where
  "signed_numbers enf ctx = signed_gates enf @ context_signed_gates ctx"

definition missing_gates :: "enforcement_state \<Rightarrow> agent_ctx \<Rightarrow> int list" where
  "missing_gates enf ctx =
     filter (\<lambda>n. n \<notin> set (signed_numbers enf ctx)) (required_prior_gate_numbers (active_gate ctx))"

definition quoted :: "string \<Rightarrow> string" where
  "quoted s = CHR 0x27 # s @ [CHR 0x27]"

definition funded_owned :: "string \<Rightarrow> bool" where
  "funded_owned path =
     (let p = norm_path path in
      p \<in> {''package.json'', ''package-lock.json'', ''node_modules''} \<or> startswith p ''node_modules/'')"

definition contract_reason :: "agent_ctx \<Rightarrow> string \<Rightarrow> (string \<times> py) list \<Rightarrow> string \<Rightarrow> string option" where
  "contract_reason ctx name args path =
     (if active_gate ctx = Some ''G4'' then
        verification_contract_violation ctx path
          (if name = ''write_file'' then Some (get_str args ''content'') else edit_preview_text ctx path args)
          (read_text ctx path)
      else None)"

text \<open>The allowlist of the tier, or \<open>Crash\<close> when the configuration holds no list of strings.\<close>

definition allowlist_check ::
    "enforcement_state \<Rightarrow> bool \<Rightarrow> string \<Rightarrow> (string list \<Rightarrow> bool) \<Rightarrow> string \<Rightarrow> gov" where
  "allowlist_check enf applies kind ok reason =
     (if rule_enabled enf ''trust-tier'' \<and> applies then
        (case tier_paths enf kind of
           Inl _ \<Rightarrow> Inl Crash
         | Inr allow \<Rightarrow> verdict_if enf (\<not> ok allow) ''trust-tier'' reason)
      else Inr [])"

text \<open>The guards of a write, in the order of the code.\<close>

definition dependency_check :: "host \<Rightarrow> string \<Rightarrow> gov" where
  "dependency_check h path =
     deny_if (is_funded h \<and> funded_owned path)
       (quoted path @ '' is owned by the funded dependency policy and is immutable.'')
       (Some ''dependency-frozen'')"

definition spec_check :: "agent_ctx \<Rightarrow> string \<Rightarrow> gov" where
  "spec_check ctx path =
     deny_if (active_gate ctx = Some ''G4'' \<and> is_plan_test_path path)
       (quoted path @ '' is a plan-authored acceptance test (the signed spec) and is read-only '' @
        ''during the build.'')
       (Some ''spec-immutable'')"

definition signed_check :: "agent_ctx \<Rightarrow> string \<Rightarrow> gov" where
  "signed_check ctx path =
     deny_if (path \<in> set (signed_core_artifacts ctx))
       (quoted path @ '' is a SIGNED governance artifact and is immutable.'') (Some ''signed-immutable'')"

definition contract_check :: "agent_ctx \<Rightarrow> string \<Rightarrow> (string \<times> py) list \<Rightarrow> string \<Rightarrow> gov" where
  "contract_check ctx name args path =
     (case contract_reason ctx name args path of
        Some vc \<Rightarrow> Inl (ToolPolicyError vc (Some ''verification-frozen''))
      | None \<Rightarrow> Inr [])"

definition context_check :: "agent_ctx \<Rightarrow> string \<Rightarrow> gov" where
  "context_check ctx reason =
     deny_if (execution_context ctx = ''conversation'') reason (Some ''gate-gating'')"

definition gate_check :: "agent_ctx \<Rightarrow> string \<Rightarrow> gov" where
  "gate_check ctx path =
     deny_if (gate_set ctx \<and> active_gate ctx \<noteq> Some ''G4'' \<and> is_implementation_path path)
       (''Implementation write '' @ quoted path @ '' is not allowed during '' @ the (active_gate ctx) @
        ''; complete the delivery gates before build work.'')
       (Some ''gate-gating'')"

definition plan_check :: "enforcement_state \<Rightarrow> agent_ctx \<Rightarrow> string \<Rightarrow> gov" where
  "plan_check enf ctx path =
     verdict_if enf
       (rule_enabled enf ''plan-gating'' \<and> is_implementation_path path \<and> gate_set ctx \<and>
        2 \<notin> set (signed_numbers enf ctx))
       ''plan-gating''
       (''Implementation write '' @ quoted path @
        '' is blocked until the plan gate (G2 Expectation Map) is signed.'')"

definition prior_gates_check :: "enforcement_state \<Rightarrow> agent_ctx \<Rightarrow> string \<Rightarrow> gov" where
  "prior_gates_check enf ctx path =
     (let missing = missing_gates enf ctx in
      deny_if (is_implementation_path path \<and> missing \<noteq> [])
        (''Implementation write '' @ quoted path @ '' is blocked until '' @
         join '', '' (map (\<lambda>n. CHR ''G'' # int_str n) missing) @ '' are signed or explicitly waived.'')
        (Some ''gate-gating''))"

definition test_first_check :: "agent_ctx \<Rightarrow> string \<Rightarrow> gov" where
  "test_first_check ctx path =
     deny_if (is_implementation_path path \<and> required_prior_gate_numbers (active_gate ctx) \<noteq> [] \<and>
         requires_test_first path \<and> \<not> test_written_this_run ctx \<and> \<not> has_existing_test_for ctx path)
       (''Implementation write '' @ quoted path @ '' is blocked by test-first policy; write or update '' @
        ''a matching test first.'')
       (Some ''test-first'')"

definition governance_path_check :: "enforcement_state \<Rightarrow> agent_ctx \<Rightarrow> string \<Rightarrow> gov" where
  "governance_path_check enf ctx path =
     verdict_if enf (is_governance_path path \<and> \<not> is_allowed_gate_output ctx path) ''secret-block''
       (''Writing to governance path '' @ quoted path @ '' is forbidden (.signalos/).'')"

definition forbidden_check :: "enforcement_state \<Rightarrow> string \<Rightarrow> gov" where
  "forbidden_check enf path =
     verdict_if enf (matches_forbidden_path path (forbidden_paths enf)) ''secret-block''
       (''Path '' @ quoted path @ '' is in the always-forbidden list.'')"

definition write_tier_check :: "enforcement_state \<Rightarrow> agent_ctx \<Rightarrow> string \<Rightarrow> gov" where
  "write_tier_check enf ctx path =
     allowlist_check enf (\<not> is_allowed_gate_output ctx path) ''write'' (matches_glob path)
       (''Path '' @ quoted path @ '' is not writable under the '' @ trust_tier enf @ '' build profile.'')"

definition write_checks ::
    "host \<Rightarrow> enforcement_state \<Rightarrow> agent_ctx \<Rightarrow> string \<Rightarrow> (string \<times> py) list \<Rightarrow> string \<Rightarrow> gov list" where
  "write_checks h enf ctx name args path =
     [dependency_check h path, spec_check ctx path, signed_check ctx path,
      contract_check ctx name args path,
      context_check ctx ''Product file writes are only allowed inside governed delivery.'',
      gate_check ctx path, plan_check enf ctx path, prior_gates_check enf ctx path,
      test_first_check ctx path, governance_path_check enf ctx path, forbidden_check enf path,
      write_tier_check enf ctx path]"

definition check_write ::
    "host \<Rightarrow> enforcement_state \<Rightarrow> agent_ctx \<Rightarrow> string \<Rightarrow> (string \<times> py) list \<Rightarrow> gov" where
  "check_write h enf ctx name args =
     (let raw_path = strip (get_str args ''path'') in
      if raw_path = [] then Inl (ToolPolicyError ''write requires a non-empty path'' None)
      else
        (case workspace_relative h raw_path of
           None \<Rightarrow>
             Inl (ToolPolicyError (''Write path '' @ quoted raw_path @ '' resolves outside the workspace.'')
               (Some ''trust-tier''))
         | Some rel \<Rightarrow>
             if rel = [] then
               Inl (ToolPolicyError ''Cannot write to the workspace root itself; give a file path.''
                 (Some ''trust-tier''))
             else gov_all (write_checks h enf ctx name args rel)))"

subsection \<open>Commands and reads\<close>

definition mutation_check :: "host \<Rightarrow> string \<Rightarrow> gov" where
  "mutation_check h command =
     deny_if (is_funded h \<and> is_dependency_mutation command)
       (''Dependency installation or mutation is owned by the funded dependency broker and cannot '' @
        ''be run by generated code.'')
       (Some ''dependency-frozen'')"

definition denylist_check :: "enforcement_state \<Rightarrow> string \<Rightarrow> gov" where
  "denylist_check enf command =
     (case command_denied command (forbidden_actions enf) of
        Some denied \<Rightarrow>
          deny_if (denied \<noteq> []) (''Command matches forbidden action '' @ quoted denied @ ''.'')
            (Some ''secret-block'')
      | None \<Rightarrow> Inr [])"

definition escape_check :: "host \<Rightarrow> string \<Rightarrow> gov" where
  "escape_check h command =
     (case command_escapes_workspace h command of
        Some escaping \<Rightarrow>
          deny_if (escaping \<noteq> [])
            (''Command references a path outside the workspace: '' @ quoted escaping @ ''.'')
            (Some ''path-escape'')
      | None \<Rightarrow> Inr [])"

definition execute_tier_check :: "host \<Rightarrow> enforcement_state \<Rightarrow> string \<Rightarrow> gov" where
  "execute_tier_check h enf command =
     allowlist_check enf True ''execute'' (command_matches h command)
       (''Command '' @ quoted command @ '' is not in the '' @ trust_tier enf @ '' execute allowlist.'')"

definition command_checks :: "host \<Rightarrow> enforcement_state \<Rightarrow> agent_ctx \<Rightarrow> string \<Rightarrow> gov list" where
  "command_checks h enf ctx command =
     [context_check ctx
        ''Commands that can change product state are only allowed inside governed delivery.'',
      mutation_check h command, denylist_check enf command, escape_check h command,
      execute_tier_check h enf command]"

definition check_command :: "host \<Rightarrow> enforcement_state \<Rightarrow> agent_ctx \<Rightarrow> (string \<times> py) list \<Rightarrow> gov" where
  "check_command h enf ctx args =
     (let command = strip (get_str args ''command'') in
      if command = [] then Inl (ToolPolicyError ''run_command requires a non-empty command'' None)
      else gov_all (command_checks h enf ctx command))"

definition read_reason :: "enforcement_state \<Rightarrow> string \<Rightarrow> string" where
  "read_reason enf path =
     ''Path '' @ quoted path @ '' is not in the '' @ trust_tier enf @ '' read allowlist.''"

definition check_read :: "host \<Rightarrow> enforcement_state \<Rightarrow> (string \<times> py) list \<Rightarrow> gov" where
  "check_read h enf args =
     (let raw_path = strip (get_str args ''path'') in
      if raw_path = [] then Inl (ToolPolicyError ''read_file requires a non-empty path'' None)
      else
        (case workspace_relative h raw_path of
           None \<Rightarrow>
             Inl (ToolPolicyError (''read_file path '' @ quoted raw_path @ '' resolves outside the workspace.'')
               (Some ''trust-tier''))
         | Some rel \<Rightarrow>
             (let path = (if rel = [] then ''.'' else rel)
              in allowlist_check enf True ''read'' (matches_glob path) (read_reason enf path))))"

definition check_list :: "host \<Rightarrow> enforcement_state \<Rightarrow> (string \<times> py) list \<Rightarrow> gov" where
  "check_list h enf args =
     (let raw_path = strip (get_str args ''path'') in
      if raw_path = [] \<or> raw_path = ''.'' then Inr []
      else
        (case workspace_relative h raw_path of
           None \<Rightarrow>
             Inl (ToolPolicyError
               (''list_directory path '' @ quoted raw_path @ '' resolves outside the workspace.'')
               (Some ''trust-tier''))
         | Some rel \<Rightarrow>
             (let path = (if rel = [] then ''.'' else rel)
              in allowlist_check enf (path \<noteq> ''.'') ''read'' (matches_glob path) (read_reason enf path))))"

definition MUTATING_TOOLS :: "string list" where
  "MUTATING_TOOLS = [''write_file'', ''edit_file'', ''run_command'']"

definition freeze_check :: "enforcement_state \<Rightarrow> string \<Rightarrow> gov" where
  "freeze_check enf name =
     verdict_if enf (name \<in> set MUTATING_TOOLS \<and> wave_frozen enf) ''wave-freeze''
       (''This wave is FROZEN; '' @ name @ '' is blocked until the wave is unfrozen.'')"

definition tool_check ::
    "host \<Rightarrow> enforcement_state \<Rightarrow> agent_ctx \<Rightarrow> string \<Rightarrow> (string \<times> py) list \<Rightarrow> gov" where
  "tool_check h enf ctx name args =
     (if name = ''write_file'' \<or> name = ''edit_file'' then check_write h enf ctx name args
      else if name = ''run_command'' then check_command h enf ctx args
      else if name = ''read_file'' then check_read h enf args
      else if name = ''list_directory'' then check_list h enf args
      else Inr [])"

definition check_governance ::
    "host \<Rightarrow> enforcement_state \<Rightarrow> agent_ctx \<Rightarrow> string \<Rightarrow> (string \<times> py) list \<Rightarrow> gov" where
  "check_governance h enf ctx name args =
     gov_all [freeze_check enf name, tool_check h enf ctx name args]"

subsection \<open>Lemmas\<close>

named_theorems gov_simps \<open>when a check returns\<close>

lemma deny_if_Inr [gov_simps]: "deny_if b r x = Inr es \<longleftrightarrow> \<not> b \<and> es = []"
  by (auto simp: deny_if_def)

lemma verdict_if_Inr [gov_simps]:
  "verdict_if enf b rule r = Inr es \<longleftrightarrow>
     (if b then (rule_action enf rule = Warn \<and> es = [rule]) \<or> (rule_action enf rule = Off \<and> es = [])
      else es = [])"
  by (cases "rule_action enf rule") (auto simp: verdict_if_def governance_verdict_def)

lemma gov_all_cons [gov_simps]:
  "gov_all (c # cs) = Inr es \<longleftrightarrow> (\<exists>e f. c = Inr e \<and> gov_all cs = Inr f \<and> es = e @ f)"
  by (auto simp: and_then_Inr)

lemma gov_all_nil [gov_simps]: "gov_all [] = Inr es \<longleftrightarrow> es = []"
  by auto

lemma gov_all_mem: "gov_all cs = Inr es \<Longrightarrow> c \<in> set cs \<Longrightarrow> \<exists>e. c = Inr e"
  by (induction cs arbitrary: es) (auto simp: and_then_Inr)

lemma allowlist_check_Inr:
  "allowlist_check enf applies kind ok reason = Inr es \<Longrightarrow> rule_action enf ''trust-tier'' = Block \<Longrightarrow>
   es = [] \<and> (applies \<longrightarrow> (\<exists>allow. tier_paths enf kind = Inr allow \<and> ok allow))"
  using rule_action_Off [of enf "''trust-tier''"]
  by (auto simp: allowlist_check_def gov_simps split: if_splits sum.splits)

declare gov_all.simps [simp del]

definition strict_policy :: "enforcement_state \<Rightarrow> bool" where
  "strict_policy enf \<longleftrightarrow> (\<forall>r. rule_action enf r = Block)"

lemma strict_block: "strict_policy enf \<Longrightarrow> rule_action enf r = Block"
  by (simp add: strict_policy_def)

lemma check_governance_write:
  assumes "check_governance h enf ctx name args = Inr es" and "name \<in> {''write_file'', ''edit_file''}"
  shows "\<exists>rel fs. workspace_relative h (strip (get_str args ''path'')) = Some rel \<and> rel \<noteq> [] \<and>
    gov_all (write_checks h enf ctx name args rel) = Inr fs \<and>
    (strict_policy enf \<longrightarrow> \<not> wave_frozen enf \<and> es = fs)"
proof -
  from assms obtain e fs where v: "freeze_check enf name = Inr e"
    and w: "check_write h enf ctx name args = Inr fs" and es: "es = e @ fs"
    by (auto simp: check_governance_def gov_all_cons gov_all_nil tool_check_def)
  from w obtain rel where "workspace_relative h (strip (get_str args ''path'')) = Some rel" "rel \<noteq> []"
    "gov_all (write_checks h enf ctx name args rel) = Inr fs"
    by (auto simp: check_write_def Let_def split: if_splits option.splits)
  moreover have "strict_policy enf \<longrightarrow> \<not> wave_frozen enf \<and> e = []"
    using v assms(2) strict_block [of enf "''wave-freeze''"]
    by (auto simp: freeze_check_def verdict_if_Inr MUTATING_TOOLS_def split: if_splits)
  ultimately show ?thesis using es by auto
qed

text \<open>When a guard of a write or a command returns.\<close>

lemma guard_Inr [gov_simps]:
  "dependency_check h path = Inr es \<longleftrightarrow> \<not> (is_funded h \<and> funded_owned path) \<and> es = []"
  "spec_check ctx path = Inr es \<longleftrightarrow> \<not> (active_gate ctx = Some ''G4'' \<and> is_plan_test_path path) \<and> es = []"
  "signed_check ctx path = Inr es \<longleftrightarrow> path \<notin> set (signed_core_artifacts ctx) \<and> es = []"
  "contract_check ctx name args path = Inr es \<longleftrightarrow> contract_reason ctx name args path = None \<and> es = []"
  "context_check ctx r = Inr es \<longleftrightarrow> execution_context ctx \<noteq> ''conversation'' \<and> es = []"
  "gate_check ctx path = Inr es \<longleftrightarrow>
     \<not> (gate_set ctx \<and> active_gate ctx \<noteq> Some ''G4'' \<and> is_implementation_path path) \<and> es = []"
  "prior_gates_check enf ctx path = Inr es \<longleftrightarrow>
     \<not> (is_implementation_path path \<and> missing_gates enf ctx \<noteq> []) \<and> es = []"
  "test_first_check ctx path = Inr es \<longleftrightarrow>
     \<not> (is_implementation_path path \<and> required_prior_gate_numbers (active_gate ctx) \<noteq> [] \<and>
        requires_test_first path \<and> \<not> test_written_this_run ctx \<and> \<not> has_existing_test_for ctx path) \<and> es = []"
  "mutation_check h c = Inr es \<longleftrightarrow> \<not> (is_funded h \<and> is_dependency_mutation c) \<and> es = []"
  "denylist_check enf c = Inr es \<longleftrightarrow> command_denied c (forbidden_actions enf) \<in> {None, Some []} \<and> es = []"
  "escape_check h c = Inr es \<longleftrightarrow> command_escapes_workspace h c \<in> {None, Some []} \<and> es = []"
  unfolding dependency_check_def spec_check_def signed_check_def contract_check_def context_check_def
    gate_check_def prior_gates_check_def test_first_check_def mutation_check_def denylist_check_def
    escape_check_def Let_def
  by (auto simp: deny_if_Inr split: option.splits)

lemma strict_guard_Inr:
  assumes "strict_policy enf"
  shows "plan_check enf ctx path = Inr es \<Longrightarrow> es = []"
    and "governance_path_check enf ctx path = Inr es \<Longrightarrow>
      es = [] \<and> (is_governance_path path \<longrightarrow> is_allowed_gate_output ctx path)"
    and "forbidden_check enf path = Inr es \<Longrightarrow> es = [] \<and> \<not> matches_forbidden_path path (forbidden_paths enf)"
    and "write_tier_check enf ctx path = Inr es \<Longrightarrow> es = [] \<and> (\<not> is_allowed_gate_output ctx path \<longrightarrow>
      (\<exists>allow. tier_paths enf ''write'' = Inr allow \<and> matches_glob path allow))"
    and "execute_tier_check h enf c = Inr es \<Longrightarrow> es = [] \<and>
      (\<exists>allow. tier_paths enf ''execute'' = Inr allow \<and> command_matches h c allow)"
  unfolding plan_check_def governance_path_check_def forbidden_check_def write_tier_check_def
    execute_tier_check_def
  using strict_block [OF assms]
  by (auto simp: verdict_if_Inr dest: allowlist_check_Inr split: if_splits)

lemma write_checks_hard:
  assumes "gov_all (write_checks h enf ctx name args rel) = Inr es"
  shows "\<not> (is_funded h \<and> funded_owned rel) \<and>
    \<not> (active_gate ctx = Some ''G4'' \<and> is_plan_test_path rel) \<and>
    rel \<notin> set (signed_core_artifacts ctx) \<and>
    contract_reason ctx name args rel = None \<and>
    execution_context ctx \<noteq> ''conversation'' \<and>
    \<not> (gate_set ctx \<and> active_gate ctx \<noteq> Some ''G4'' \<and> is_implementation_path rel) \<and>
    \<not> (is_implementation_path rel \<and> missing_gates enf ctx \<noteq> []) \<and>
    \<not> (is_implementation_path rel \<and> required_prior_gate_numbers (active_gate ctx) \<noteq> [] \<and>
       requires_test_first rel \<and> \<not> test_written_this_run ctx \<and> \<not> has_existing_test_for ctx rel)"
  using assms unfolding write_checks_def gov_all_cons guard_Inr by blast

lemma write_checks_strict:
  assumes "gov_all (write_checks h enf ctx name args rel) = Inr es" and "strict_policy enf"
  shows "es = [] \<and>
    (is_governance_path rel \<longrightarrow> is_allowed_gate_output ctx rel) \<and>
    \<not> matches_forbidden_path rel (forbidden_paths enf) \<and>
    (\<not> is_allowed_gate_output ctx rel \<longrightarrow>
      (\<exists>allow. tier_paths enf ''write'' = Inr allow \<and> matches_glob rel allow))"
proof -
  from assms(1) obtain a b c d where
    "plan_check enf ctx rel = Inr a" "governance_path_check enf ctx rel = Inr b"
    "forbidden_check enf rel = Inr c" "write_tier_check enf ctx rel = Inr d" "es = a @ b @ c @ d"
    unfolding write_checks_def gov_all_cons guard_Inr gov_all_nil by auto
  with strict_guard_Inr [OF assms(2)] show ?thesis by blast
qed

lemma missing_gates_none:
  "missing_gates enf ctx = [] \<Longrightarrow> active_gate ctx = Some ''G4'' \<Longrightarrow>
   {0, 1, 2, 3} \<subseteq> set (signed_numbers enf ctx)"
  by (simp add: missing_gates_def required_prior_gate_numbers_def split: if_splits)

lemma workspace_relative_below:
  assumes "workspace_relative h p = Some rel" and "rel \<noteq> []"
  shows "\<exists>target. canonical_abs h p = Some target \<and> strict_prefix (root_parts h) target \<and>
    rel = join ''/'' (drop (length (root_parts h)) target)"
  using assms by (auto simp: workspace_relative_def split: option.splits if_splits)

subsection \<open>A laxer policy allows more\<close>

definition laxer :: "enforcement_state \<Rightarrow> enforcement_state \<Rightarrow> bool" where
  "laxer enf enf' \<longleftrightarrow>
     enf' = enf\<lparr>rule_modes := rule_modes enf'\<rparr> \<and> (\<forall>r. rule_action enf' r \<le> rule_action enf r)"

definition allows :: "gov \<Rightarrow> bool" where
  "allows g \<longleftrightarrow> \<not> isl g"

lemma allows_simps [simp]: "allows (Inr es)" "\<not> allows (Inl e)"
  by (simp_all add: allows_def)

lemma allows_gov_all: "allows (gov_all cs) \<longleftrightarrow> (\<forall>c \<in> set cs. allows c)"
proof (induction cs)
  case Nil
  then show ?case by (simp add: gov_all.simps)
next
  case (Cons c cs)
  then show ?case by (cases c; cases "gov_all cs") (auto simp: gov_all.simps)
qed

lemma allows_verdict: "allows (verdict_if enf b rule r) \<longleftrightarrow> \<not> b \<or> rule_action enf rule \<noteq> Block"
  by (cases "rule_action enf rule") (auto simp: verdict_if_def governance_verdict_def)

lemma laxer_block: "laxer enf enf' \<Longrightarrow> rule_action enf' r = Block \<Longrightarrow> rule_action enf r = Block"
proof -
  assume l: "laxer enf enf'" and b: "rule_action enf' r = Block"
  from l have "rule_action enf' r \<le> rule_action enf r" unfolding laxer_def by blast
  with b show ?thesis
    by (auto simp: less_eq_rule_verdict_def verdict_rank_def split: rule_verdict.splits)
qed

lemma laxer_fields:
  assumes "laxer enf enf'"
  shows "forbidden_paths enf' = forbidden_paths enf" "forbidden_actions enf' = forbidden_actions enf"
    "wave_frozen enf' = wave_frozen enf" "signed_gates enf' = signed_gates enf"
    "trust_tier enf' = trust_tier enf" "trust_tier_paths enf' = trust_tier_paths enf"
proof -
  from assms have "enf' = enf\<lparr>rule_modes := rule_modes enf'\<rparr>" by (simp add: laxer_def)
  then obtain ms where "enf' = enf\<lparr>rule_modes := ms\<rparr>" ..
  then show "forbidden_paths enf' = forbidden_paths enf" "forbidden_actions enf' = forbidden_actions enf"
    "wave_frozen enf' = wave_frozen enf" "signed_gates enf' = signed_gates enf"
    "trust_tier enf' = trust_tier enf" "trust_tier_paths enf' = trust_tier_paths enf"
    by simp_all
qed

lemma laxer_derived:
  assumes "laxer enf enf'"
  shows "tier_paths enf' kind = tier_paths enf kind" "signed_numbers enf' ctx = signed_numbers enf ctx"
    "missing_gates enf' ctx = missing_gates enf ctx" "read_reason enf' p = read_reason enf p"
  by (simp_all add: laxer_fields [OF assms] tier_paths_def signed_numbers_def missing_gates_def read_reason_def)

lemma laxer_enabled: "laxer enf enf' \<Longrightarrow> rule_enabled enf' r \<Longrightarrow> rule_enabled enf r"
proof -
  assume l: "laxer enf enf'" and e: "rule_enabled enf' r"
  from l have "rule_action enf' r \<le> rule_action enf r" unfolding laxer_def by blast
  moreover have "rule_action enf' r \<noteq> Off" using e by (simp add: rule_action_Off)
  ultimately have "rule_action enf r \<noteq> Off"
    by (cases "rule_action enf' r") (auto simp: less_eq_rule_verdict_def verdict_rank_def)
  then show ?thesis by (simp add: rule_action_Off)
qed

lemma laxer_verdict:
  "laxer enf enf' \<Longrightarrow> (b' \<longrightarrow> b) \<Longrightarrow> allows (verdict_if enf b rule r) \<Longrightarrow> allows (verdict_if enf' b' rule r)"
  using laxer_block [of enf enf' rule] by (auto simp: allows_verdict)

lemma laxer_allowlist:
  assumes "laxer enf enf'" and "allows (allowlist_check enf applies kind ok reason)"
  shows "allows (allowlist_check enf' applies kind ok reason)"
proof (cases "rule_enabled enf' ''trust-tier'' \<and> applies")
  case True
  with laxer_enabled [OF assms(1)] assms(2) obtain allow where a: "tier_paths enf kind = Inr allow"
    and v: "allows (verdict_if enf (\<not> ok allow) ''trust-tier'' reason)"
    by (auto simp: allowlist_check_def split: sum.splits)
  from laxer_verdict [OF assms(1) _ v] True a show ?thesis
    by (simp add: allowlist_check_def laxer_derived [OF assms(1)])
next
  case False
  then show ?thesis by (auto simp: allowlist_check_def)
qed

lemma laxer_write_checks:
  assumes "laxer enf enf'" and "allows (gov_all (write_checks h enf ctx name args rel))"
  shows "allows (gov_all (write_checks h enf' ctx name args rel))"
proof -
  have e: "rule_enabled enf' ''plan-gating'' \<longrightarrow> rule_enabled enf ''plan-gating''"
    using laxer_enabled [OF assms(1)] by blast
  have "allows (plan_check enf ctx rel) \<Longrightarrow> allows (plan_check enf' ctx rel)"
    unfolding plan_check_def laxer_derived [OF assms(1)]
    by (erule laxer_verdict [OF assms(1), rotated]) (use e in blast)
  moreover have "allows (governance_path_check enf ctx rel) \<Longrightarrow> allows (governance_path_check enf' ctx rel)"
    unfolding governance_path_check_def by (erule laxer_verdict [OF assms(1), rotated]) simp
  moreover have "allows (forbidden_check enf rel) \<Longrightarrow> allows (forbidden_check enf' rel)"
    unfolding forbidden_check_def laxer_fields [OF assms(1)] by (erule laxer_verdict [OF assms(1), rotated]) simp
  moreover have "allows (write_tier_check enf ctx rel) \<Longrightarrow> allows (write_tier_check enf' ctx rel)"
    unfolding write_tier_check_def laxer_fields [OF assms(1)] by (rule laxer_allowlist [OF assms(1)])
  moreover have "prior_gates_check enf' ctx rel = prior_gates_check enf ctx rel"
    by (simp only: prior_gates_check_def laxer_derived [OF assms(1)])
  ultimately show ?thesis using assms(2) by (simp add: allows_gov_all write_checks_def)
qed

lemma laxer_command_checks:
  assumes "laxer enf enf'" and "allows (gov_all (command_checks h enf ctx c))"
  shows "allows (gov_all (command_checks h enf' ctx c))"
proof -
  have "allows (execute_tier_check h enf c) \<Longrightarrow> allows (execute_tier_check h enf' c)"
    unfolding execute_tier_check_def laxer_fields [OF assms(1)] by (rule laxer_allowlist [OF assms(1)])
  moreover have "denylist_check enf' c = denylist_check enf c"
    by (simp only: denylist_check_def laxer_fields [OF assms(1)])
  ultimately show ?thesis using assms(2) by (simp add: allows_gov_all command_checks_def)
qed

lemma laxer_tools:
  assumes l: "laxer enf enf'"
  shows "allows (check_write h enf ctx name args) \<Longrightarrow> allows (check_write h enf' ctx name args)"
    and "allows (check_command h enf ctx args) \<Longrightarrow> allows (check_command h enf' ctx args)"
    and "allows (check_read h enf args) \<Longrightarrow> allows (check_read h enf' args)"
    and "allows (check_list h enf args) \<Longrightarrow> allows (check_list h enf' args)"
proof -
  let ?p = "strip (get_str args ''path'')"
  show "allows (check_write h enf ctx name args) \<Longrightarrow> allows (check_write h enf' ctx name args)"
    by (cases "?p = []"; cases "workspace_relative h ?p")
      (auto simp: check_write_def intro: laxer_write_checks [OF l] split: if_splits)
  show "allows (check_command h enf ctx args) \<Longrightarrow> allows (check_command h enf' ctx args)"
    by (auto simp: check_command_def Let_def intro: laxer_command_checks [OF l] split: if_splits)
  show "allows (check_read h enf args) \<Longrightarrow> allows (check_read h enf' args)"
    by (cases "?p = []"; cases "workspace_relative h ?p")
      (auto simp: check_read_def laxer_derived [OF l] Let_def intro: laxer_allowlist [OF l])
  show "allows (check_list h enf args) \<Longrightarrow> allows (check_list h enf' args)"
    by (cases "?p = [] \<or> ?p = ''.''"; cases "workspace_relative h ?p")
      (auto simp: check_list_def laxer_derived [OF l] Let_def intro: laxer_allowlist [OF l])
qed

subsection \<open>The default policy\<close>

definition default_policy :: enforcement_state where
  "default_policy =
     \<lparr>trust_tier = ''T2'', rule_modes = apply_floor CORE_INVARIANTS_PY strict_modes,
      forbidden_paths =
        [''.signalos/AUDIT_TRAIL.jsonl'', ''.signalos/gates.json'', ''.env'', ''.env.local'', ''*.pem'', ''*.key''],
      forbidden_actions =
        [''rm -rf'', ''git push --force'', ''git reset --hard'', ''npm publish'', ''docker push''],
      wave_frozen = False, signed_gates = [], trust_tier_paths = DEFAULT_TRUST_TIER_PATHS\<rparr>"

lemma default_policy_read: "file_enforcement_state (\<lambda>_. None) = Inr default_policy"
  by code_simp

lemma default_policy_strict: "strict_policy default_policy"
proof -
  have "dict_get (apply_floor CORE_INVARIANTS_PY strict_modes) r = Some m \<Longrightarrow> m = ''strict''" for r m
    using strict_modes_get [of r m] by (auto simp: apply_floor_get split: if_splits)
  then show ?thesis
    by (auto simp: strict_policy_def rule_action_def rule_mode_def default_policy_def Let_def split: option.splits)
qed

text \<open>What makes the default policy allow a write, for a path that is its own canonical form.\<close>

definition default_writable :: "string \<Rightarrow> bool" where
  "default_writable p \<longleftrightarrow>
     p \<noteq> [] \<and> strip p = p \<and> \<not> funded_owned p \<and> \<not> is_plan_test_path p \<and> \<not> is_gate_artifact_rel_path p \<and>
     contract_keys p = None \<and> \<not> is_governance_path p \<and>
     \<not> matches_forbidden_path p (forbidden_paths default_policy) \<and>
     (case tier_paths default_policy ''write'' of Inl _ \<Rightarrow> False | Inr allow \<Rightarrow> matches_glob p allow)"

lemma default_write_allowed:
  assumes w: "workspace_relative h p = Some p" and c: "execution_context ctx \<noteq> ''conversation''"
    and d: "default_writable p" and a: "get_str args ''path'' = p"
    and i: "is_implementation_path p \<Longrightarrow> active_gate ctx = Some ''G4'' \<and>
      {0, 1, 2, 3} \<subseteq> set (context_signed_gates ctx) \<and> \<not> requires_test_first p"
  shows "check_governance h default_policy ctx ''write_file'' args = Inr []"
proof -
  from d have ne: "p \<noteq> []" and st: "strip p = p" by (simp_all add: default_writable_def)
  have "p \<notin> set (signed_core_artifacts ctx)"
    using d by (auto simp: default_writable_def signed_core_artifacts_def)
  then have sg: "signed_check ctx p = Inr []" by (simp add: guard_Inr)
  have "contract_reason ctx ''write_file'' args p = None"
    using d by (auto simp: contract_reason_def verification_contract_violation_def default_writable_def
        split: option.splits)
  then have ct: "contract_check ctx ''write_file'' args p = Inr []" by (simp add: guard_Inr)
  have im: "gate_check ctx p = Inr []" "prior_gates_check default_policy ctx p = Inr []"
      "test_first_check ctx p = Inr []" "plan_check default_policy ctx p = Inr []"
    using i by (auto simp: guard_Inr plan_check_def verdict_if_Inr missing_gates_def signed_numbers_def
        required_prior_gate_numbers_def)
  from d obtain allow where al: "tier_paths default_policy ''write'' = Inr allow" "matches_glob p allow"
    by (auto simp: default_writable_def split: sum.splits)
  have "write_tier_check default_policy ctx p = Inr []"
    using al by (simp add: write_tier_check_def allowlist_check_def verdict_if_def)
  moreover have "dependency_check h p = Inr []" "spec_check ctx p = Inr []"
      "governance_path_check default_policy ctx p = Inr []" "forbidden_check default_policy p = Inr []"
    using d by (simp_all add: guard_Inr default_writable_def governance_path_check_def forbidden_check_def
        verdict_if_Inr)
  ultimately have "gov_all (write_checks h default_policy ctx ''write_file'' args p) = Inr []"
    using sg ct im c by (simp add: write_checks_def gov_all_cons gov_all_nil guard_Inr)
  then have "check_write h default_policy ctx ''write_file'' args = Inr []"
    using w ne st a by (simp add: check_write_def)
  then show ?thesis
    by (simp add: check_governance_def gov_all_cons gov_all_nil tool_check_def freeze_check_def verdict_if_Inr
        default_policy_def)
qed

definition demo_ctx :: agent_ctx where
  "demo_ctx =
     \<lparr>active_gate = Some ''G4'', execution_context = ''delivery'', context_signed_gates = [0, 1, 2, 3],
      test_written_this_run = True, is_file = (\<lambda>_. False), read_text = (\<lambda>_. None), plan_tests = [],
      gate_artifacts = [], json_loads = (\<lambda>_. None)\<rparr>"

definition demo_write :: "(string \<times> py) list" where
  "demo_write = [(''path'', PStr ''src/a.ts''), (''content'', PStr ''x'')]"

lemma demo_write_allowed: "check_governance demo_host default_policy demo_ctx ''write_file'' demo_write = Inr []"
  by code_simp

subsection \<open>Properties\<close>

text \<open>The hard floor of a write holds under every policy, also one that warns or is off. A
  write or edit that the check allows goes to a file whose real path lies strictly below the
  workspace; it is not a signed artifact, nor at the build gate a test of the plan; and an
  implementation file is written only in the build gate, with gates 0 to 3 all signed, and,
  where a test is required first, with a test in place.\<close>

theorem write_hard_floor:
  assumes "check_governance h enf ctx name args = Inr es" and "name \<in> {''write_file'', ''edit_file''}"
  shows "\<exists>target rel. canonical_abs h (strip (get_str args ''path'')) = Some target \<and>
    strict_prefix (root_parts h) target \<and> rel = join ''/'' (drop (length (root_parts h)) target) \<and>
    rel \<notin> set (signed_core_artifacts ctx) \<and>
    \<not> (active_gate ctx = Some ''G4'' \<and> is_plan_test_path rel) \<and>
    (is_implementation_path rel \<and> gate_set ctx \<longrightarrow>
      active_gate ctx = Some ''G4'' \<and> {0, 1, 2, 3} \<subseteq> set (signed_numbers enf ctx) \<and>
      (requires_test_first rel \<longrightarrow> test_written_this_run ctx \<or> has_existing_test_for ctx rel))"
proof -
  from check_governance_write [OF assms] obtain rel fs
    where r: "workspace_relative h (strip (get_str args ''path'')) = Some rel" "rel \<noteq> []"
      and w: "gov_all (write_checks h enf ctx name args rel) = Inr fs" by blast
  from workspace_relative_below [OF r] obtain target
    where "canonical_abs h (strip (get_str args ''path'')) = Some target"
      "strict_prefix (root_parts h) target" "rel = join ''/'' (drop (length (root_parts h)) target)" by blast
  moreover note write_checks_hard [OF w] missing_gates_none [of enf ctx]
  moreover have "active_gate ctx = Some ''G4'' \<Longrightarrow> required_prior_gate_numbers (active_gate ctx) \<noteq> []"
    by (simp add: required_prior_gate_numbers_def)
  ultimately show ?thesis by blast
qed

text \<open>C4: under the strict policy a write that is allowed raises no warning, the wave is not frozen,
  and the file is in the write allowlist of the tier, not in the forbidden list, and not under
  \<open>.signalos/\<close>, the designs of the design gate excepted.\<close>

theorem write_strict:
  assumes "check_governance h enf ctx name args = Inr es" and "name \<in> {''write_file'', ''edit_file''}"
    and "strict_policy enf"
  shows "es = [] \<and> \<not> wave_frozen enf \<and>
    (\<exists>rel. workspace_relative h (strip (get_str args ''path'')) = Some rel \<and>
      \<not> matches_forbidden_path rel (forbidden_paths enf) \<and>
      (is_governance_path rel \<longrightarrow> is_allowed_gate_output ctx rel) \<and>
      (is_allowed_gate_output ctx rel \<or>
        (\<exists>allow. tier_paths enf ''write'' = Inr allow \<and> matches_glob rel allow)))"
proof -
  from check_governance_write [OF assms(1,2)] obtain rel fs
    where r: "workspace_relative h (strip (get_str args ''path'')) = Some rel"
      and w: "gov_all (write_checks h enf ctx name args rel) = Inr fs"
      and s: "strict_policy enf \<longrightarrow> \<not> wave_frozen enf \<and> es = fs" by blast
  from write_checks_strict [OF w assms(3)] s assms(3) r show ?thesis by blast
qed

text \<open>C39: the ladder is monotone. A policy that differs only in its modes and is nowhere stricter
  allows every tool call the stricter one allows.\<close>

theorem ladder_monotone:
  assumes "laxer enf enf'" and "allows (check_governance h enf ctx name args)"
  shows "allows (check_governance h enf' ctx name args)"
proof -
  have "allows (freeze_check enf name) \<Longrightarrow> allows (freeze_check enf' name)"
    unfolding freeze_check_def laxer_fields [OF assms(1)] by (erule laxer_verdict [OF assms(1), rotated]) simp
  moreover have "allows (tool_check h enf ctx name args) \<Longrightarrow> allows (tool_check h enf' ctx name args)"
  proof (cases "name \<in> {''write_file'', ''edit_file'', ''run_command'', ''read_file'', ''list_directory''}")
    case True
    then show "allows (tool_check h enf ctx name args) \<Longrightarrow> allows (tool_check h enf' ctx name args)"
      by (elim insertE emptyE) (simp_all add: tool_check_def laxer_tools [OF assms(1)])
  next
    case False
    then show ?thesis by (simp add: tool_check_def)
  qed
  ultimately show ?thesis
    using assms(2) unfolding check_governance_def allows_gov_all by simp
qed

theorem write_hard_floor_witness:
  "check_governance demo_host default_policy demo_ctx ''write_file'' demo_write = Inr [] \<and>
   (\<exists>target. canonical_abs demo_host (strip (get_str demo_write ''path'')) = Some target \<and>
     strict_prefix (root_parts demo_host) target)"
  using demo_write_allowed write_hard_floor [OF demo_write_allowed] by blast

theorem write_strict_witness:
  "check_governance demo_host default_policy demo_ctx ''write_file'' demo_write = Inr [] \<and>
   (\<exists>rel. workspace_relative demo_host (strip (get_str demo_write ''path'')) = Some rel \<and>
     \<not> matches_forbidden_path rel (forbidden_paths default_policy))"
  using demo_write_allowed write_strict [OF demo_write_allowed _ default_policy_strict] by blast

theorem ladder_monotone_witness:
  "allows (check_governance demo_host
     (default_policy\<lparr>rule_modes := [(''trust-tier'', ''warn'')]\<rparr>) demo_ctx ''write_file'' demo_write)"
proof -
  have "laxer default_policy (default_policy\<lparr>rule_modes := [(''trust-tier'', ''warn'')]\<rparr>)"
    using strict_block [OF default_policy_strict]
    by (auto simp: laxer_def less_eq_rule_verdict_def verdict_rank_def split: rule_verdict.split)
  from ladder_monotone [OF this] demo_write_allowed show ?thesis by simp
qed




text \<open>The broker owns the dependencies of the funded profile, but the default policy lets pip install them.\<close>

lemma pip_install_in_funded:
  "is_funded (demo_host\<lparr>sandbox_profile := ''funded''\<rparr>) \<and>
   check_governance (demo_host\<lparr>sandbox_profile := ''funded''\<rparr>) default_policy demo_ctx ''run_command''
     [(''command'', PStr ''pip install requests'')] = Inr []"
  by code_simp



text \<open>gate gating does not see every product language. The default policy lets an agent write the
  Flutter entry point \<open>lib/main.dart\<close>, a file of the write allowlist, in any gate, with no gate
  signed and no test written: a \<open>.dart\<close> file is no implementation path.\<close>

theorem dart_not_gated:
  assumes "workspace_relative h ''lib/main.dart'' = Some ''lib/main.dart''"
    and "execution_context ctx \<noteq> ''conversation''"
  shows "check_governance h default_policy ctx ''write_file''
    [(''path'', PStr ''lib/main.dart''), (''content'', PStr c)] = Inr []"
proof (rule default_write_allowed [OF assms])
  show "default_writable ''lib/main.dart''" by code_simp
  have "\<not> is_implementation_path ''lib/main.dart''" by code_simp
  then show "is_implementation_path ''lib/main.dart'' \<Longrightarrow> active_gate ctx = Some ''G4'' \<and>
      {0, 1, 2, 3} \<subseteq> set (context_signed_gates ctx) \<and> \<not> requires_test_first ''lib/main.dart''" by blast
qed simp

theorem dart_not_gated_witness:
  "check_governance demo_host default_policy (demo_ctx\<lparr>active_gate := Some ''G0'', context_signed_gates := []\<rparr>)
    ''write_file'' [(''path'', PStr ''lib/main.dart''), (''content'', PStr ''x'')] = Inr []"
proof (rule dart_not_gated)
  show "workspace_relative demo_host ''lib/main.dart'' = Some ''lib/main.dart''" by code_simp
qed (simp add: demo_ctx_def)

text \<open>a nested \<open>.env\<close> is writable. The forbidden list names \<open>.env\<close>, but a leading dot of the entry
  is normalised away and that of a file in a directory is not, so in the build gate, with the
  prior gates signed, the default policy lets an agent write \<open>src/.env\<close>, while the file
  \<open>src/env\<close>, which no entry names, is refused.\<close>

theorem nested_env_not_forbidden:
  assumes "workspace_relative h ''src/.env'' = Some ''src/.env''"
    and "execution_context ctx \<noteq> ''conversation''" and "active_gate ctx = Some ''G4''"
    and "{0, 1, 2, 3} \<subseteq> set (context_signed_gates ctx)"
  shows "check_governance h default_policy ctx ''write_file''
      [(''path'', PStr ''src/.env''), (''content'', PStr c)] = Inr [] \<and>
    matches_forbidden_path ''.env'' (forbidden_paths default_policy) \<and>
    matches_forbidden_path ''src/env'' (forbidden_paths default_policy)"
proof -
  have "default_writable ''src/.env''" and "\<not> requires_test_first ''src/.env''" by code_simp+
  then have "check_governance h default_policy ctx ''write_file''
      [(''path'', PStr ''src/.env''), (''content'', PStr c)] = Inr []"
    using assms by (intro default_write_allowed) auto
  moreover have "matches_forbidden_path ''.env'' (forbidden_paths default_policy)"
    and "matches_forbidden_path ''src/env'' (forbidden_paths default_policy)" by code_simp+
  ultimately show ?thesis by blast
qed

theorem nested_env_not_forbidden_witness:
  "check_governance demo_host default_policy demo_ctx ''write_file''
     [(''path'', PStr ''src/.env''), (''content'', PStr ''KEY=1'')] = Inr []"
proof -
  have "workspace_relative demo_host ''src/.env'' = Some ''src/.env''" by code_simp
  from nested_env_not_forbidden [OF this, of demo_ctx "''KEY=1''"] show ?thesis by (simp add: demo_ctx_def)
qed

end
