(* ===== verification/AgentTools.thy ===== *)
theory AgentTools
  imports AgentGovernance "HOL-Library.List_Lexorder" "HOL-Library.Char_ord"
begin

section \<open>The tools of the agent loop (\<open>product/agent_loop.py\<close>)\<close>

text \<open>
  The tools a model may call, on the files of its workspace, and the ledger of their effects: reads,
  writes and edits of a file, listings, searches, and commands, whose writes are found by comparing
  two snapshots of the tree, written to the ledger, and undone where the policy forbids them. The
  provider, the runner of the sandbox, the scans of a content, the walk of the tree, what a path is
  and the host are parameters. The files of the workspace are a map from canonical paths to bytes;
  texts are sequences of bytes too (their UTF-8 form), and \<open>is_text\<close> tells which bytes decode.
  Everything else a command touches is the rest of the site. The project is the default one, so that
  a path resolves below the repository. Events for the user interface, times, and failures of the
  disk other than of the ledger are left out.
\<close>

subsection \<open>The site, the seat, the run\<close>

record 'w site =
  site_files :: "string list \<rightharpoonup> string"
  site_rest :: 'w

record tool_call =
  tc_id :: string
  tc_name :: string
  tc_args :: py

record response =
  content :: string
  stop_reason :: string
  tool_calls :: "tool_call list"
  usage :: "(int option \<times> int option) option"

datatype message =
    System string
  | User string
  | Assistant string "tool_call list"
  | ToolResult string string string

text \<open>What the runner of a command returns.\<close>

record cmd_output =
  exit_code :: int
  timed_out :: bool
  cmd_stdout :: string
  cmd_stderr :: string

text \<open>What a tool raises: \<open>ToolPolicyError\<close>, \<open>SandboxUnavailableError\<close>, any other exception.\<close>

datatype tool_exn = Denied string "string option" | Unavailable string | Broke string

record 'w runtime =
  chat :: "bool \<Rightarrow> message list \<Rightarrow> 'w \<Rightarrow> (string + response) \<times> 'w"
  cancel_check :: "'w \<Rightarrow> bool"
  load_enforcement :: "'w site \<Rightarrow> string + enforcement_state"
  host_of :: "'w site \<Rightarrow> host"
  view :: "'w site \<Rightarrow> agent_ctx"
  real_path :: "'w site \<Rightarrow> string list \<Rightarrow> string list option"
  scan_write_secrets :: "string \<Rightarrow> string \<Rightarrow> string + string list"
  scan_injections :: "string \<Rightarrow> string \<Rightarrow> string list"
  is_text :: "string \<Rightarrow> bool"
  decode_replace :: "string \<Rightarrow> string"
  redact :: "string \<Rightarrow> string"
  funded_check :: "'w site \<Rightarrow> tool_exn option"
  open_session :: "'w \<Rightarrow> string option \<times> 'w"
  shell :: "string list \<Rightarrow> string \<Rightarrow> 'w site \<Rightarrow> (tool_exn + cmd_output) \<times> 'w site"
  is_dir :: "'w site \<Rightarrow> string list \<Rightarrow> bool"
  walk :: "'w site \<Rightarrow> string list list"
  list_dir :: "'w site \<Rightarrow> string list \<Rightarrow> (bool \<times> string) list"
  glob_files :: "'w site \<Rightarrow> string \<Rightarrow> tool_exn + string list list"
  ledger_error :: "'w site \<Rightarrow> string option"
  close_session :: "'w \<Rightarrow> string option \<times> 'w"
  classify_failure :: "string \<Rightarrow> string"
  sha256 :: "string \<Rightarrow> string"
  loads_args :: "string \<Rightarrow> py option"

record seat_config =
  tool_call_limit :: int
  build_seat :: bool
  stall_window :: int
  repeat_cmd_limit :: int
  seat_context :: string
  seat_gate :: "string option"
  seat_signed_gates :: "int list"
  tools_supported :: bool

record audit_entry =
  a_seq :: nat
  a_tool :: string
  a_call :: "string option"
  a_args :: py
  a_sha :: "string option"
  a_status :: string
  a_detail :: string
  a_rule :: "string option"
  a_change :: "string option"

record saved_run =
  saved_status :: string
  saved_calls :: nat
  saved_messages :: "message list"

record 'w seat =
  site :: "'w site"
  tool_calls_made :: nat
  wrote_file :: bool
  wrote_test :: bool
  mutation_seq :: nat
  signed_cache :: "artifact_status list option"
  observed_sigs :: "string set"
  no_progress_streak :: nat
  repeat_cmd_streak :: nat
  last_cmd_sig :: "string option"
  audit_seq :: nat
  tool_ledger :: "audit_entry list"
  saved :: "saved_run option"
  tokens_in :: "int option"
  tokens_out :: "int option"

record loop_result =
  res_status :: string
  res_text :: "string option"
  res_calls :: nat
  res_messages :: "message list"
  res_error :: "string option"
  res_text_only :: bool
  res_wrote_no_files :: bool
  res_tokens_in :: "int option"
  res_tokens_out :: "int option"
  res_failure :: "string option"

definition MAX_READ_BYTES :: int where "MAX_READ_BYTES = 2000000"
definition MAX_NO_TOOL_REPROMPTS :: nat where "MAX_NO_TOOL_REPROMPTS = 2"
definition MAX_TRUNCATION_CONTINUES :: nat where "MAX_TRUNCATION_CONTINUES = 2"

definition NO_TOOL_NUDGE :: string where
  "NO_TOOL_NUDGE = ''You did not call any tool and no files have been written yet. Do NOT describe what you will do -- perform the work NOW by calling write_file / edit_file / run_command. Emit a tool call, not prose.''"

definition CONTINUE_NUDGE :: string where
  "CONTINUE_NUDGE = ''Your previous message was cut off prior it finished (output token limit). Continue exactly where you stopped and, when ready, emit the tool call -- do not restart or re-summarize.''"

definition KNOWN_TOOL_NAMES :: "string list" where
  "KNOWN_TOOL_NAMES = [''read_file'', ''write_file'', ''edit_file'', ''run_command'', ''search_files'', ''list_directory'']"

subsection \<open>Tool calls\<close>

definition call_dict :: "tool_call \<Rightarrow> (string \<times> py) list" where
  "call_dict tc = (case tc_args tc of PDict d \<Rightarrow> d | _ \<Rightarrow> [])"

definition blank :: "(string \<times> py) list \<Rightarrow> string \<Rightarrow> bool" where
  "blank args k \<longleftrightarrow> strip (get_str args k) = []"

definition tool_call_defect :: "tool_call \<Rightarrow> string option" where
  "tool_call_defect tc =
     (let name = tc_name tc; args = call_dict tc in
      if name \<notin> set KNOWN_TOOL_NAMES then Some (''unknown tool '' @ quoted name)
      else if dict_get args ''__parse_error__'' \<noteq> None then None
      else if name = ''write_file'' then
        (if blank args ''path'' then Some ''write_file with empty path''
         else if blank args ''content'' then Some ''write_file with empty content'' else None)
      else if name = ''edit_file'' then
        (if blank args ''path'' then Some ''edit_file with empty path''
         else if blank args ''old_string'' then Some ''edit_file with empty old_string'' else None)
      else if name = ''run_command'' then
        (if blank args ''command'' then Some ''run_command with empty command'' else None)
      else if name = ''read_file'' then
        (if blank args ''path'' then Some ''read_file with empty path'' else None)
      else if name = ''search_files'' then
        (if blank args ''pattern'' then Some ''search_files with empty pattern'' else None)
      else None)"

definition type_name :: "py \<Rightarrow> string" where
  "type_name v =
     (case v of PNone \<Rightarrow> ''NoneType'' | PBool _ \<Rightarrow> ''bool'' | PInt _ \<Rightarrow> ''int'' | PStr _ \<Rightarrow> ''str''
      | PList _ \<Rightarrow> ''list'' | PDict _ \<Rightarrow> ''dict'')"

text \<open>Arguments may come as text: they are parsed, and what is no object becomes an error for the model.\<close>

definition parse_error :: "string \<Rightarrow> py" where
  "parse_error m = PDict [(''__parse_error__'', PStr m)]"

definition normal_args :: "(string \<Rightarrow> py option) \<Rightarrow> py \<Rightarrow> (string \<times> py) list" where
  "normal_args loads raw =
     (let v = (if truthy raw then raw else PDict []);
          v = (case v of
                 PStr s \<Rightarrow>
                   if strip s = [] then PDict []
                   else (case loads s of
                           Some w \<Rightarrow> w
                         | None \<Rightarrow> parse_error (''tool arguments were not valid JSON: '' @ take 200 s))
               | _ \<Rightarrow> v)
      in case v of
           PDict d \<Rightarrow> d
         | _ \<Rightarrow> [(''__parse_error__'', PStr (''tool arguments must be a JSON object, got '' @ type_name v))])"

definition content_for_hash :: "string \<Rightarrow> (string \<times> py) list \<Rightarrow> string option" where
  "content_for_hash name args =
     (if name = ''write_file'' then Some (get_str args ''content'')
      else if name = ''edit_file'' then Some (get_str args ''new_string'') else None)"

subsection \<open>The workspace below the seat\<close>

definition resolve_in_workspace :: "host \<Rightarrow> string \<Rightarrow> string list option" where
  "resolve_in_workspace h rel =
     (if rel = [] then None
      else (case canonical_abs h rel of
              None \<Rightarrow> None
            | Some target \<Rightarrow> if prefix (root_parts h) target then Some target else None))"

definition validate_workspace_write :: "'w runtime \<Rightarrow> 'w site \<Rightarrow> string list \<Rightarrow> tool_exn option" where
  "validate_workspace_write x st target =
     (case real_path x st target of
        None \<Rightarrow> Some (Denied (''Write denied: '' @ join ''/'' target @ '' could not be resolved.'') (Some ''trust-tier''))
      | Some real \<Rightarrow>
          if prefix (root_parts (host_of x st)) real then None
          else Some (Denied (''Write denied: '' @ join ''/'' target @ '' is outside the workspace boundary.'') (Some ''trust-tier'')))"

text \<open>
  The context of the governance check: what it reads of the workspace, and the state of the run. The
  signed artifacts are read once, when the first check asks for them.
\<close>

definition seat_ctx :: "'w runtime \<Rightarrow> seat_config \<Rightarrow> 'w seat \<Rightarrow> agent_ctx" where
  "seat_ctx x c s =
     (view x (site s))\<lparr>active_gate := seat_gate c, execution_context := seat_context c,
        context_signed_gates := seat_signed_gates c, test_written_this_run := wrote_test s,
        gate_artifacts := (case signed_cache s of None \<Rightarrow> gate_artifacts (view x (site s)) | Some a \<Rightarrow> a)\<rparr>"

definition read_signed :: "'w runtime \<Rightarrow> seat_config \<Rightarrow> 'w seat \<Rightarrow> 'w seat" where
  "read_signed x c s = s\<lparr>signed_cache := Some (gate_artifacts (seat_ctx x c s))\<rparr>"

text \<open>\<open>read_text\<close>: the bytes decode, and every line ending becomes a newline.\<close>

fun newlines :: "bool \<Rightarrow> string \<Rightarrow> string" where
  "newlines returned [] = []"
| "newlines returned (c # cs) =
     (if c = CHR 0x0D then CHR 0x0A # newlines True cs
      else if c = CHR 0x0A \<and> returned then newlines False cs
      else c # newlines False cs)"

definition text_of :: "'w runtime \<Rightarrow> string \<Rightarrow> string option" where
  "text_of x b = (if is_text x b then Some (newlines False b) else None)"

definition set_file :: "string list \<Rightarrow> string \<Rightarrow> 'w seat \<Rightarrow> 'w seat" where
  "set_file p txt s = s\<lparr>site := (site s)\<lparr>site_files := (site_files (site s))(p \<mapsto> txt)\<rparr>\<rparr>"

definition drop_file :: "string list \<Rightarrow> 'w seat \<Rightarrow> 'w seat" where
  "drop_file p s = s\<lparr>site := (site s)\<lparr>site_files := (site_files (site s))(p := None)\<rparr>\<rparr>"

definition scan_write_content :: "'w runtime \<Rightarrow> enforcement_state \<Rightarrow> string \<Rightarrow> string \<Rightarrow> tool_exn + string list" where
  "scan_write_content x enf rel txt =
     (let block = (rule_action enf ''secret-block'' = Block) in
      case scan_write_secrets x rel txt of
        Inl e \<Rightarrow>
          if block then Inl (Denied (''Write denied: secret scan unavailable for '' @ quoted rel @ '' ('' @ e @ '').'') (Some ''secret-block''))
          else Inr ((''secret scan error: '' @ e) # scan_injections x rel txt)
      | Inr findings \<Rightarrow>
          if findings \<noteq> [] \<and> block
          then Inl (Denied (''Write denied: secret-like content detected in '' @ quoted rel @ '' ('' @
                     join ''; '' (take 3 findings) @ (if length findings \<le> 3 then [] else '' ...'') @ ''). Rule: secret-block.'')
                     (Some ''secret-block''))
          else Inr (findings @ scan_injections x rel txt))"

definition with_warnings :: "string \<Rightarrow> string list \<Rightarrow> string" where
  "with_warnings msg ws =
     (if ws = [] then msg
      else msg @ CHR 0x0A # ''SECURITY WARNINGS:'' @ CHR 0x0A # join [CHR 0x0A] (map (\<lambda>w. ''- '' @ w) ws))"

definition landed_write :: "string \<Rightarrow> string list \<Rightarrow> string \<Rightarrow> string \<Rightarrow> 'w seat \<Rightarrow> 'w seat" where
  "landed_write rel target prior txt s =
     (let s = set_file target txt s in
      s\<lparr>wrote_file := True, mutation_seq := (if txt = prior then mutation_seq s else mutation_seq s + 1),
        wrote_test := (wrote_test s \<or> is_test_path rel)\<rparr>)"

subsection \<open>The tools\<close>

definition tool_read_file :: "'w runtime \<Rightarrow> string \<Rightarrow> 'w seat \<Rightarrow> tool_exn + string" where
  "tool_read_file x rel s =
     (case resolve_in_workspace (host_of x (site s)) rel of
        None \<Rightarrow> Inl (Denied (''read_file path escapes workspace: '' @ rel) None)
      | Some target \<Rightarrow>
          (case site_files (site s) target of
             None \<Rightarrow> Inr (''ERROR: file not found: '' @ rel)
           | Some txt \<Rightarrow>
               if MAX_READ_BYTES < int (length txt)
               then Inr (''ERROR: file too large to read ('' @ nat_str (length txt) @ '' bytes): '' @ rel)
               else Inr (decode_replace x txt)))"

definition tool_write_file ::
  "'w runtime \<Rightarrow> enforcement_state \<Rightarrow> string \<Rightarrow> string \<Rightarrow> 'w seat \<Rightarrow> (tool_exn + string) \<times> 'w seat" where
  "tool_write_file x enf rel txt s =
     (case resolve_in_workspace (host_of x (site s)) rel of
        None \<Rightarrow> (Inl (Denied (''write_file path escapes workspace: '' @ rel) None), s)
      | Some target \<Rightarrow>
          (case validate_workspace_write x (site s) target of
             Some e \<Rightarrow> (Inl e, s)
           | None \<Rightarrow>
               (case scan_write_content x enf rel txt of
                  Inl e \<Rightarrow> (Inl e, s)
                | Inr warnings \<Rightarrow>
                    (let prior = (case site_files (site s) target of None \<Rightarrow> [] | Some b \<Rightarrow> (case text_of x b of None \<Rightarrow> [] | Some t \<Rightarrow> t))
                     in (Inr (with_warnings (''OK: wrote '' @ nat_str (length txt) @ '' bytes to '' @ rel) warnings),
                         landed_write rel target prior txt s)))))"

definition edit_count :: "string \<Rightarrow> string \<Rightarrow> nat" where
  "edit_count old txt = (if old = [] then length txt + 1 else count_sub old txt)"

definition tool_edit_file ::
  "'w runtime \<Rightarrow> enforcement_state \<Rightarrow> string \<Rightarrow> string \<Rightarrow> string \<Rightarrow> 'w seat \<Rightarrow> (tool_exn + string) \<times> 'w seat" where
  "tool_edit_file x enf rel old new s =
     (case resolve_in_workspace (host_of x (site s)) rel of
        None \<Rightarrow> (Inl (Denied (''edit_file path escapes workspace: '' @ rel) None), s)
      | Some target \<Rightarrow>
          (case site_files (site s) target of
             None \<Rightarrow> (Inr (''ERROR: file not found: '' @ rel), s)
           | Some bytes \<Rightarrow>
               (case validate_workspace_write x (site s) target of
                  Some e \<Rightarrow> (Inl e, s)
                | None \<Rightarrow>
                  (case text_of x bytes of
                    None \<Rightarrow> (Inl (Broke ''UnicodeDecodeError''), s)
                  | Some original \<Rightarrow>
                    (let n = edit_count old original in
                     if n = 0 then (Inr (''ERROR: old_string not found in '' @ rel), s)
                     else if 1 < n then
                       (Inr (''ERROR: old_string is not unique in '' @ rel @ '' ('' @ nat_str n @
                          '' matches); provide more context.''), s)
                     else
                       (let updated = (if old = [] then new @ original else replace_first old new original) in
                        case scan_write_content x enf rel updated of
                          Inl e \<Rightarrow> (Inl e, s)
                        | Inr warnings \<Rightarrow>
                            (Inr (with_warnings (''OK: edited '' @ rel) warnings),
                             landed_write rel target original updated s)))))))"

subsection \<open>The ledger\<close>

definition clip :: "string \<Rightarrow> string" where
  "clip t = (if length t \<le> 2000 then t else take 2000 t @ [CHR 0xE2, CHR 0x80, CHR 0xA6])"

definition redact_args :: "'w runtime \<Rightarrow> py \<Rightarrow> py" where
  "redact_args x raw =
     (let v = (if truthy raw then raw else PDict []) in
      case v of
        PDict d \<Rightarrow> PDict (map (\<lambda>(k, v). (k, case v of PStr t \<Rightarrow> PStr (clip (redact x t)) | _ \<Rightarrow> v)) d)
      | _ \<Rightarrow> PDict [(''_raw'', PStr (take 2000 (py_str v)))])"

text \<open>An append takes the next number also when it fails.\<close>

definition append_entry :: "'w runtime \<Rightarrow> (nat \<Rightarrow> audit_entry) \<Rightarrow> 'w seat \<Rightarrow> string option \<times> 'w seat" where
  "append_entry x e s =
     (let n = audit_seq s + 1 in
      case ledger_error x (site s) of
        Some err \<Rightarrow> (Some err, s\<lparr>audit_seq := n\<rparr>)
      | None \<Rightarrow> (None, s\<lparr>audit_seq := n, tool_ledger := tool_ledger s @ [e n]\<rparr>))"

definition audit ::
  "'w runtime \<Rightarrow> tool_call \<Rightarrow> string \<Rightarrow> string \<Rightarrow> string option \<Rightarrow> string option \<Rightarrow> 'w seat
     \<Rightarrow> string option \<times> 'w seat" where
  "audit x tc status detail sha rule =
     append_entry x (\<lambda>n. \<lparr>a_seq = n, a_tool = tc_name tc, a_call = Some (tc_id tc), a_args = redact_args x (tc_args tc),
       a_sha = sha, a_status = status, a_detail = detail, a_rule = rule, a_change = None\<rparr>)"

subsection \<open>Commands\<close>

text \<open>\<open>_LEADING_CD_RE\<close>: what follows the target is nothing, or a separator and the rest.\<close>

definition cd_rest :: "string \<Rightarrow> string option" where
  "cd_rest s =
     (let t = lstrip_by is_space s in
      if t = [] then Some []
      else if (startswith t ''&&'' \<or> startswith t ''||'') \<and> drop 2 t \<noteq> [] then Some (strip (drop 2 t))
      else if startswith t '';'' \<and> drop 1 t \<noteq> [] then Some (strip (drop 1 t))
      else None)"

text \<open>A target in quotes ends at the next one; another takes as many characters as leave a rest that fits.\<close>

definition quoted_target :: "char \<Rightarrow> string \<Rightarrow> (string \<times> string) option" where
  "quoted_target q s =
     (case s of
        [] \<Rightarrow> None
      | c # cs \<Rightarrow>
          if c = q \<and> q \<in> set cs then
            (let inner = takeWhile (\<lambda>d. d \<noteq> q) cs in
             map_option (\<lambda>r. (q # inner @ [q], r)) (cd_rest (drop (length inner + 1) cs)))
          else None)"

fun bare_target :: "nat \<Rightarrow> string \<Rightarrow> (string \<times> string) option" where
  "bare_target 0 s = None"
| "bare_target (Suc n) s =
     (case cd_rest (drop (Suc n) s) of
        Some r \<Rightarrow> Some (take (Suc n) s, r)
      | None \<Rightarrow> bare_target n s)"

definition peel_leading_cd :: "string \<Rightarrow> string option \<times> string" where
  "peel_leading_cd command =
     (let s = lstrip_by is_space command; t = lstrip_by is_space (drop 2 s) in
      if \<not> startswith s ''cd'' \<or> length t = length (drop 2 s) then (None, command)
      else
        (case quoted_target CHR 0x27 t of
           Some (target, rest) \<Rightarrow> (Some (unquote target), rest)
         | None \<Rightarrow>
             (case quoted_target CHR 0x22 t of
                Some (target, rest) \<Rightarrow> (Some (unquote target), rest)
              | None \<Rightarrow>
                  (case bare_target (length (takeWhile (\<lambda>c. \<not> is_space c) t)) t of
                     Some (target, rest) \<Rightarrow> (Some (unquote target), rest)
                   | None \<Rightarrow> (None, command)))))"

definition resolve_run_cwd :: "'w runtime \<Rightarrow> 'w site \<Rightarrow> string \<Rightarrow> string list \<times> string" where
  "resolve_run_cwd x st command =
     (let h = host_of x st; root = root_parts h in
      case peel_leading_cd command of
        (None, _) \<Rightarrow> (root, command)
      | (Some target, rest) \<Rightarrow>
          (case workspace_relative h target of
             None \<Rightarrow> (root, command)
           | Some rel \<Rightarrow>
               (let sub = (if rel = [] then root else root @ split_on CHR ''/'' rel) in
                if is_dir x st sub then (sub, if rest = [] then ''cd .'' else rest) else (root, command))))"

definition DIFF_PRUNE_DIRS :: "string list" where
  "DIFF_PRUNE_DIRS =
     [''.git'', ''node_modules'', ''dist'', ''build'', ''out'', ''coverage'', ''.next'', ''.nuxt'', ''.svelte-kit'', ''.vite'',
      ''.turbo'', ''.cache'', ''.parcel-cache'', ''target'', ''bin'', ''obj'', ''__pycache__'', ''.pytest_cache'',
      ''.mypy_cache'', ''.ruff_cache'', ''.gradle'', ''.dart_tool'', ''.expo'', ''vendor'', ''.venv'', ''venv'', ''.angular'',
      ''.vercel'', ''.output'', ''tmp'']"

definition DIFF_CONTENT_CAP_BYTES :: int where "DIFF_CONTENT_CAP_BYTES = 2000000"
definition DIFF_MAX_FILES :: nat where "DIFF_MAX_FILES = 6000"
definition DIFF_MAX_AUDIT_ROWS :: nat where "DIFF_MAX_AUDIT_ROWS = 500"

text \<open>The walk yields the files as components below the root; the snapshot leaves out what lies in a pruned directory.\<close>

definition pruned :: "string list \<Rightarrow> bool" where
  "pruned comps \<longleftrightarrow>
     list_ex (\<lambda>d. d \<in> set DIFF_PRUNE_DIRS) (butlast comps) \<or>
     (take 2 comps = [''.signalos'', ''agent-runs''] \<and> 2 < length comps)"

definition rel_text :: "string list \<Rightarrow> string" where
  "rel_text comps = to_slash (join ''/'' comps)"

type_synonym snapshot = "(string \<times> string \<times> string option) list"

definition snapshot_entry :: "'w runtime \<Rightarrow> 'w site \<Rightarrow> string list \<Rightarrow> (string \<times> string \<times> string option) option" where
  "snapshot_entry x st comps =
     (case site_files st (root_parts (host_of x st) @ comps) of
        None \<Rightarrow> None
      | Some b \<Rightarrow> Some (rel_text comps, sha256 x b, if int (length b) \<le> DIFF_CONTENT_CAP_BYTES then Some b else None))"

definition snapshot_governed_tree :: "'w runtime \<Rightarrow> 'w site \<Rightarrow> snapshot" where
  "snapshot_governed_tree x st =
     foldl (\<lambda>d (k, v). dict_set d k v) []
       (take DIFF_MAX_FILES (List.map_filter (snapshot_entry x st) (filter (\<lambda>c. \<not> pruned c) (walk x st))))"

datatype change_kind = Added | Modified | Deleted

record file_change =
  ch_rel :: string
  ch_kind :: change_kind
  ch_sha :: "string option"
  ch_content :: "string option"

definition kind_word :: "change_kind \<Rightarrow> string" where
  "kind_word k = (case k of Added \<Rightarrow> ''added'' | Modified \<Rightarrow> ''modified'' | Deleted \<Rightarrow> ''deleted'')"

definition file_changes :: "snapshot \<Rightarrow> snapshot \<Rightarrow> file_change list" where
  "file_changes prior after =
     List.map_filter (\<lambda>(rel, sha, content).
       case dict_get prior rel of
         None \<Rightarrow> Some \<lparr>ch_rel = rel, ch_kind = Added, ch_sha = Some sha, ch_content = content\<rparr>
       | Some (old, _) \<Rightarrow>
           if old \<noteq> sha then Some \<lparr>ch_rel = rel, ch_kind = Modified, ch_sha = Some sha, ch_content = content\<rparr> else None) after @
     List.map_filter (\<lambda>(rel, _).
       if dict_get after rel = None then Some \<lparr>ch_rel = rel, ch_kind = Deleted, ch_sha = None, ch_content = None\<rparr>
       else None) prior"

text \<open>The rule a change breaks, and why; a scan that fails finds nothing here.\<close>

definition governed_write_violation ::
  "'w runtime \<Rightarrow> host \<Rightarrow> enforcement_state \<Rightarrow> agent_ctx \<Rightarrow> string \<Rightarrow> string option \<Rightarrow> string option
     \<Rightarrow> (string \<times> string) option" where
  "governed_write_violation x h enf ctx rel new_text old_text =
     (let n = norm_path rel in
      if is_funded h \<and> funded_owned n then
        Some (''dependency-frozen'', ''command wrote to '' @ quoted n @
          '', owned by the funded dependency policy and immutable during the build'')
      else if is_governance_path rel \<and> \<not> is_allowed_gate_output ctx rel then
        Some (''secret-block'', ''wrote to governance path '' @ quoted (keep_dot_rel rel) @ '' (.signalos/)'')
      else if matches_forbidden_path n (forbidden_paths enf) then
        Some (''secret-block'', ''wrote to always-forbidden path '' @ quoted n)
      else if active_gate ctx = Some ''G4'' \<and> is_plan_test_path n then
        Some (''spec-immutable'', ''modified plan-authored acceptance test '' @ quoted n @
          '' (the signed spec is read-only during the build)'')
      else if n \<in> set (signed_core_artifacts ctx) then
        Some (''signed-immutable'', ''overwrote SIGNED governance artifact '' @ quoted n)
      else
        (case verification_contract_violation ctx n new_text old_text of
           Some vc \<Rightarrow> Some (''verification-frozen'', vc)
         | None \<Rightarrow>
             (case new_text of
                None \<Rightarrow> None
              | Some t \<Rightarrow>
                  (case scan_write_secrets x n t of
                     Inr (f # _) \<Rightarrow> Some (''secret-block'', ''wrote secret-like content to '' @ quoted n @ '' ('' @ f @ '')'')
                   | _ \<Rightarrow> None))))"

definition audit_command_change ::
  "'w runtime \<Rightarrow> string \<Rightarrow> string \<Rightarrow> string \<Rightarrow> string option \<Rightarrow> 'w seat \<Rightarrow> string option \<times> 'w seat" where
  "audit_command_change x command rel kind sha =
     append_entry x (\<lambda>n. \<lparr>a_seq = n, a_tool = ''run_command'', a_call = None,
       a_args = PDict [(''command'', PStr (take 2000 (redact x command))), (''path'', PStr rel)], a_sha = sha,
       a_status = ''command-file-change'', a_detail = ''command '' @ kind @ '' '' @ rel,
       a_rule = Some ''command-write-audit'', a_change = Some kind\<rparr>)"

definition revert_command_change ::
  "'w runtime \<Rightarrow> string \<Rightarrow> change_kind \<Rightarrow> (string \<times> string option) option \<Rightarrow> 'w seat \<Rightarrow> 'w seat" where
  "revert_command_change x rel kind old s =
     (case resolve_in_workspace (host_of x (site s)) rel of
        None \<Rightarrow> s
      | Some target \<Rightarrow>
          if kind = Added then drop_file target s
          else (case old of Some (_, Some b) \<Rightarrow> set_file target b s | _ \<Rightarrow> s))"

definition utf8 :: "'w runtime \<Rightarrow> string option \<Rightarrow> string option" where
  "utf8 x b = (case b of None \<Rightarrow> None | Some t \<Rightarrow> if is_text x t then Some t else None)"

fun enforce_changes ::
  "'w runtime \<Rightarrow> enforcement_state \<Rightarrow> agent_ctx \<Rightarrow> string \<Rightarrow> snapshot \<Rightarrow> file_change list
     \<Rightarrow> nat \<Rightarrow> (string \<times> string) list \<Rightarrow> string option \<Rightarrow> 'w seat
     \<Rightarrow> (tool_exn + nat \<times> (string \<times> string) list \<times> string option) \<times> 'w seat" where
  "enforce_changes x enf ctx command prior [] n vs rule s = (Inr (n, vs, rule), s)"
| "enforce_changes x enf ctx command prior (ch # chs) n vs rule s =
     (case (if n < DIFF_MAX_AUDIT_ROWS
            then audit_command_change x command (ch_rel ch) (kind_word (ch_kind ch)) (ch_sha ch) s else (None, s)) of
        (Some e, s) \<Rightarrow> (Inl (Broke e), s)
      | (None, s) \<Rightarrow>
          (let n = (if n < DIFF_MAX_AUDIT_ROWS then n + 1 else n);
               old = dict_get prior (ch_rel ch)
           in case governed_write_violation x (host_of x (site s)) enf ctx (ch_rel ch) (utf8 x (ch_content ch))
                     (utf8 x (case old of None \<Rightarrow> None | Some (_, b) \<Rightarrow> b)) of
                None \<Rightarrow> enforce_changes x enf ctx command prior chs n vs rule s
              | Some (r, reason) \<Rightarrow>
                  if rule_action enf r = Block then
                    enforce_changes x enf ctx command prior chs n (vs @ [(ch_rel ch, reason)])
                      (case rule of None \<Rightarrow> Some r | Some _ \<Rightarrow> rule)
                      (revert_command_change x (ch_rel ch) (ch_kind ch) old s)
                  else enforce_changes x enf ctx command prior chs n vs rule s))"

definition denial_of :: "(string \<times> string) list \<Rightarrow> string option \<Rightarrow> tool_exn" where
  "denial_of vs rule =
     Denied (''Command wrote to protected path(s); the change was reverted and denied -- '' @
       join ''; '' (map (\<lambda>(rel, reason). rel @ '' ('' @ reason @ '')'') (take 5 vs)) @
       (if length vs \<le> 5 then [] else '' (+'' @ nat_str (length vs - 5) @ '' more)'') @
       ''. Do not have a command write governance / secret / signed / frozen files; write product source via write_file.'')
       (case rule of None \<Rightarrow> Some ''secret-block'' | Some _ \<Rightarrow> rule)"

definition enforce_command_writes ::
  "'w runtime \<Rightarrow> seat_config \<Rightarrow> enforcement_state \<Rightarrow> string \<Rightarrow> snapshot \<Rightarrow> 'w seat \<Rightarrow> (tool_exn + nat) \<times> 'w seat" where
  "enforce_command_writes x c enf command prior s =
     (let chs = file_changes prior (snapshot_governed_tree x (site s)) in
      if chs = [] then (Inr 0, s)
      else
        (case enforce_changes x enf (seat_ctx x c s) command prior chs 0 [] None s of
           (Inl e, s) \<Rightarrow> (Inl e, s)
         | (Inr (n, vs, rule), s) \<Rightarrow>
             (case (if DIFF_MAX_AUDIT_ROWS \<le> n \<and> n < length chs
                    then audit_command_change x command (CHR ''<'' # nat_str (length chs - n) @ '' more changes>'') ''summary'' None s
                    else (None, s)) of
                (Some e, s) \<Rightarrow> (Inl (Broke e), s)
              | (None, s) \<Rightarrow> (if vs = [] then Inr (length chs) else Inl (denial_of vs rule), s))))"

definition section_of :: "string \<Rightarrow> string \<Rightarrow> string list" where
  "section_of name out = (if strip out = [] then [] else [name @ CHR '':'' # CHR 0x0A # cap_command_output out])"

definition command_report :: "'w runtime \<Rightarrow> string \<Rightarrow> cmd_output \<Rightarrow> string" where
  "command_report x command out =
     (if timed_out out then
        ''ERROR: command timed out after 600s and was killed: '' @ command @
        ''. If this was a watch/serve mode command, use its run-once form instead.''
      else
        join [CHR 0x0A] ((''exit_code: '' @ int_str (exit_code out)) #
          section_of ''stdout'' (redact x (cmd_stdout out)) @ section_of ''stderr'' (redact x (cmd_stderr out))))"

text \<open>The seat before the command: the session is open, the signed artifacts are read.\<close>

definition before_command :: "'w runtime \<Rightarrow> seat_config \<Rightarrow> 'w seat \<Rightarrow> (tool_exn + snapshot) \<times> 'w seat" where
  "before_command x c s =
     (case (if is_funded (host_of x (site s)) then funded_check x (site s) else None) of
        Some e \<Rightarrow> (Inl e, s)
      | None \<Rightarrow>
          (let (err, w) = open_session x (site_rest (site s)); s = s\<lparr>site := (site s)\<lparr>site_rest := w\<rparr>\<rparr> in
           case err of
             Some m \<Rightarrow> (Inl (Unavailable m), s)
           | None \<Rightarrow> (Inr (snapshot_governed_tree x (site s)), read_signed x c s)))"

definition tool_run_command ::
  "'w runtime \<Rightarrow> seat_config \<Rightarrow> enforcement_state \<Rightarrow> string \<Rightarrow> 'w seat \<Rightarrow> (tool_exn + string) \<times> 'w seat" where
  "tool_run_command x c enf original s =
     (let (cwd, command) = resolve_run_cwd x (site s) original in
      case before_command x c s of
        (Inl e, s) \<Rightarrow> (Inl e, s)
      | (Inr prior, s) \<Rightarrow>
          (case shell x cwd command (site s) of
             (Inl e, st) \<Rightarrow> (Inl e, s\<lparr>site := st\<rparr>)
           | (Inr out, st) \<Rightarrow>
               (case enforce_command_writes x c enf original prior (s\<lparr>site := st\<rparr>) of
                  (Inl e, s) \<Rightarrow> (Inl e, s)
                | (Inr n, s) \<Rightarrow>
                    (Inr (command_report x command out),
                     s\<lparr>mutation_seq := (if n = 0 then mutation_seq s else mutation_seq s + 1)\<rparr>))))"

subsection \<open>Searches and listings\<close>

text \<open>What is below a hidden directory is left out, wherever the directory is.\<close>

definition first_occurrences :: "string list \<Rightarrow> string list" where
  "first_occurrences xs = rev (remdups (rev xs))"

definition search_hits :: "string list \<Rightarrow> string list list \<Rightarrow> string list" where
  "search_hits root hits =
     take 500 (first_occurrences (map (\<lambda>p. to_slash (join ''/'' (drop (length root) p)))
       (filter (\<lambda>p. prefix root p \<and> ''.signalos'' \<notin> set p \<and> ''node_modules'' \<notin> set p \<and> ''.git'' \<notin> set p) hits)))"

definition tool_search_files :: "'w runtime \<Rightarrow> string \<Rightarrow> 'w seat \<Rightarrow> tool_exn + string" where
  "tool_search_files x pattern s =
     (if pattern = [] then Inr ''ERROR: empty pattern''
      else
        (case glob_files x (site s) pattern of
           Inl e \<Rightarrow> Inl e
         | Inr hits \<Rightarrow>
             (let ms = search_hits (root_parts (host_of x (site s))) hits in
              Inr (if ms = [] then ''No files match: '' @ pattern else join [CHR 0x0A] (sort ms)))))"

definition listing :: "(bool \<times> string) list \<Rightarrow> string list" where
  "listing es =
     take 500 (map (\<lambda>(file, name). CHR ''['' # (if file then ''file'' else ''dir'') @ ''] '' @ name)
       (filter (\<lambda>(file, name). name \<notin> {''.git'', ''node_modules'', ''.signalos''})
         (sort_key (\<lambda>(file, name). (if file then ''1'' else ''0'') @ lower name) es)))"

definition tool_list_directory :: "'w runtime \<Rightarrow> string \<Rightarrow> 'w seat \<Rightarrow> tool_exn + string" where
  "tool_list_directory x rel_path s =
     (let rel = strip rel_path; lookup = (if rel = [] \<or> rel = ''.'' then ''.'' else rel);
          shown = (if rel = [] then ''.'' else rel) in
      case resolve_in_workspace (host_of x (site s)) lookup of
        None \<Rightarrow> Inl (Denied (''list_directory path escapes workspace: '' @ rel_path) None)
      | Some target \<Rightarrow>
          if \<not> is_dir x (site s) target then Inr (''ERROR: not a directory: '' @ shown)
          else
            (let es = listing (list_dir x (site s) target) in
             Inr (if es = [] then ''(empty directory: '' @ shown @ '')'' else join [CHR 0x0A] es)))"

subsection \<open>The tool of a name\<close>

definition execute_tool ::
  "'w runtime \<Rightarrow> seat_config \<Rightarrow> enforcement_state \<Rightarrow> string \<Rightarrow> (string \<times> py) list \<Rightarrow> 'w seat
     \<Rightarrow> (tool_exn + string) \<times> 'w seat" where
  "execute_tool x c enf name args s =
     (if name = ''read_file'' then (tool_read_file x (get_str args ''path'') s, s)
      else if name = ''write_file'' then tool_write_file x enf (get_str args ''path'') (get_str args ''content'') s
      else if name = ''edit_file'' then
        tool_edit_file x enf (get_str args ''path'') (get_str args ''old_string'') (get_str args ''new_string'') s
      else if name = ''run_command'' then tool_run_command x c enf (get_str args ''command'') s
      else if name = ''search_files'' then (tool_search_files x (get_str args ''pattern'') s, s)
      else if name = ''list_directory'' then (tool_list_directory x (get_str args ''path'') s, s)
      else (Inl (Denied (''Unknown tool '' @ quoted name @ ''.'') None), s))"


subsection \<open>What the ledger gains\<close>

definition grown :: "'w seat \<Rightarrow> 'w seat \<Rightarrow> audit_entry list \<Rightarrow> bool" where
  "grown s s' es \<longleftrightarrow>
     tool_ledger s' = tool_ledger s @ es \<and> audit_seq s' = audit_seq s + length es \<and>
     map a_seq es = [Suc (audit_seq s)..<Suc (audit_seq s + length es)]"

lemma grown_trans: "grown s t es \<Longrightarrow> grown t u fs \<Longrightarrow> grown s u (es @ fs)"
  using upt_add_eq_append [of "Suc (audit_seq s)" "Suc (audit_seq s + length es)" "length fs"]
  by (simp add: grown_def ac_simps del: upt_Suc)

lemma grown_nil: "tool_ledger s' = tool_ledger s \<Longrightarrow> audit_seq s' = audit_seq s \<Longrightarrow> grown s s' []"
  by (simp add: grown_def)

text \<open>An append changes the ledger and its number only.\<close>

lemma append_entry_keeps:
  assumes "append_entry x e s = (err, s')"
  shows "site s' = site s \<and> tool_calls_made s' = tool_calls_made s \<and> wrote_file s' = wrote_file s"
  using assms by (auto simp: append_entry_def Let_def split: option.splits)

lemma append_entry_grows:
  assumes "append_entry x e s = (None, s')" and "\<And>n. a_seq (e n) = n"
  shows "grown s s' [e (audit_seq s + 1)]"
  using assms by (auto simp: append_entry_def grown_def Let_def split: option.splits)

lemma append_entry_ok: "ledger_error x (site s) = None \<Longrightarrow> \<exists>s'. append_entry x e s = (None, s')"
  by (simp add: append_entry_def Let_def)

definition is_call :: "audit_entry \<Rightarrow> bool" where
  "is_call e \<longleftrightarrow> a_status e \<noteq> ''command-file-change''"

definition command_row :: "audit_entry \<Rightarrow> bool" where
  "command_row e \<longleftrightarrow> a_tool e = ''run_command'' \<and> \<not> is_call e"

text \<open>The counters of the run a command leaves as they are.\<close>

definition quiet :: "'w seat \<Rightarrow> 'w seat \<Rightarrow> bool" where
  "quiet s s' \<longleftrightarrow> tool_calls_made s' = tool_calls_made s \<and> wrote_file s' = wrote_file s"

definition rowed :: "'w seat \<Rightarrow> 'w seat \<Rightarrow> bool" where
  "rowed s s' \<longleftrightarrow> (\<exists>es. grown s s' es \<and> list_all command_row es)"

lemma rowed_refl: "tool_ledger s' = tool_ledger s \<Longrightarrow> audit_seq s' = audit_seq s \<Longrightarrow> rowed s s'"
  unfolding rowed_def using grown_nil by fastforce

lemma rowed_trans: "rowed s t \<Longrightarrow> rowed t u \<Longrightarrow> rowed s u"
  unfolding rowed_def by (metis grown_trans list_all_append)

lemma seat_quiet_trans: "quiet s t \<Longrightarrow> quiet t u \<Longrightarrow> quiet s u"
  by (simp add: quiet_def)

lemma command_change_rowed: "audit_command_change x command rel kind sha s = (None, s') \<Longrightarrow> rowed s s'"
  unfolding audit_command_change_def rowed_def
  by (drule append_entry_grows, simp, rule exI, erule conjI) (simp add: command_row_def is_call_def)

lemma command_change_keeps:
  "audit_command_change x command rel kind sha s = (err, s') \<Longrightarrow> quiet s s' \<and> site s' = site s"
  unfolding audit_command_change_def quiet_def by (drule append_entry_keeps) simp

lemma revert_keeps:
  "quiet s (revert_command_change x rel kind old s)" "rowed s (revert_command_change x rel kind old s)"
  by (auto simp: revert_command_change_def quiet_def set_file_def drop_file_def intro!: rowed_refl split: option.split)

lemma enforce_changes_quiet:
  "enforce_changes x enf ctx command prior chs n vs rule s = (res, s') \<Longrightarrow> quiet s s'"
proof (induction chs arbitrary: n vs rule s)
  case Nil
  then show ?case by (simp add: quiet_def)
next
  case (Cons ch chs)
  obtain err s1 where a: "(if n < DIFF_MAX_AUDIT_ROWS
      then audit_command_change x command (ch_rel ch) (kind_word (ch_kind ch)) (ch_sha ch) s else (None, s)) = (err, s1)"
    by fastforce
  then have q: "quiet s s1" by (auto simp: quiet_def split: if_split_asm dest: command_change_keeps)
  show ?case
  proof (cases err)
    case None
    with Cons.prems a have "quiet s1 s'"
      by (auto simp: Let_def split: option.split_asm if_split_asm prod.split_asm
          intro: Cons.IH seat_quiet_trans [OF revert_keeps(1)])
    with q show ?thesis by (rule seat_quiet_trans)
  next
    case (Some e)
    with Cons.prems a q show ?thesis by simp
  qed
qed

text \<open>When the appends succeed, the changes are gone through to the end.\<close>

lemma enforce_changes_step:
  assumes ok: "\<And>st. ledger_error x st = None"
    and e: "enforce_changes x enf ctx command prior (ch # chs) n vs rule s = (res, s')"
  obtains s1 n1 vs1 rule1 s2 where "rowed s s1" "site s1 = site s" "rowed s1 s2"
    "enforce_changes x enf ctx command prior chs n1 vs1 rule1 s2 = (res, s')" "n \<le> n1"
    "\<exists>us. vs1 = vs @ us"
    "s2 = s1 \<or> s2 = revert_command_change x (ch_rel ch) (ch_kind ch) (dict_get prior (ch_rel ch)) s1"
    "\<And>r reason. governed_write_violation x (host_of x (site s1)) enf ctx (ch_rel ch) (utf8 x (ch_content ch))
       (utf8 x (case dict_get prior (ch_rel ch) of None \<Rightarrow> None | Some (_, b) \<Rightarrow> b)) = Some (r, reason) \<Longrightarrow>
       rule_action enf r = Block \<Longrightarrow>
       vs1 \<noteq> [] \<and> s2 = revert_command_change x (ch_rel ch) (ch_kind ch) (dict_get prior (ch_rel ch)) s1"
proof -
  obtain err s1 where a: "(if n < DIFF_MAX_AUDIT_ROWS
      then audit_command_change x command (ch_rel ch) (kind_word (ch_kind ch)) (ch_sha ch) s else (None, s)) = (err, s1)"
    by fastforce
  have "err = None"
    using a append_entry_ok [OF ok] by (auto simp: audit_command_change_def split: if_split_asm) (metis fst_conv option.distinct(1))
  with a have s1: "rowed s s1" "site s1 = site s"
    by (auto split: if_split_asm intro: command_change_rowed rowed_refl dest: command_change_keeps)
  let ?v = "governed_write_violation x (host_of x (site s1)) enf ctx (ch_rel ch) (utf8 x (ch_content ch))
       (utf8 x (case dict_get prior (ch_rel ch) of None \<Rightarrow> None | Some (_, b) \<Rightarrow> b))"
  let ?n = "if n < DIFF_MAX_AUDIT_ROWS then n + 1 else n"
  let ?t = "revert_command_change x (ch_rel ch) (ch_kind ch) (dict_get prior (ch_rel ch)) s1"
  show thesis
  proof (cases "\<exists>r reason. ?v = Some (r, reason) \<and> rule_action enf r = Block")
    case True
    then obtain r reason where v: "?v = Some (r, reason)" "rule_action enf r = Block" by blast
    with e a \<open>err = None\<close> have
      "enforce_changes x enf ctx command prior chs ?n (vs @ [(ch_rel ch, reason)])
         (case rule of None \<Rightarrow> Some r | Some _ \<Rightarrow> rule) ?t = (res, s')"
      by (simp add: Let_def)
    from that [OF s1 revert_keeps(2) this] show thesis by simp
  next
    case False
    with e a \<open>err = None\<close> have "enforce_changes x enf ctx command prior chs ?n vs rule s1 = (res, s')"
      by (auto simp: Let_def split: option.splits prod.splits if_split_asm)
    then show thesis by (rule that [OF s1 rowed_refl [OF refl refl]]) (use False in auto)
  qed
qed

lemma enforce_changes_rows:
  assumes ok: "\<And>st. ledger_error x st = None"
  shows "enforce_changes x enf ctx command prior chs n vs rule s = (res, s') \<Longrightarrow>
    rowed s s' \<and> (\<exists>n' us rule'. res = Inr (n', vs @ us, rule'))"
proof (induction chs arbitrary: n vs rule s)
  case Nil
  then show ?case by (auto intro: rowed_refl)
next
  case (Cons ch chs)
  from ok Cons.prems show ?case
  proof (rule enforce_changes_step)
    fix s1 n1 vs1 rule1 s2
    assume "rowed s s1" "rowed s1 s2" "\<exists>us. vs1 = vs @ us"
      and "enforce_changes x enf ctx command prior chs n1 vs1 rule1 s2 = (res, s')"
    with Cons.IH [OF this(4)] show ?thesis by (auto intro: rowed_trans)
  qed
qed

text \<open>One file among the changes: only its own change touches it.\<close>

definition blocked ::
  "'w runtime \<Rightarrow> host \<Rightarrow> enforcement_state \<Rightarrow> agent_ctx \<Rightarrow> string \<Rightarrow> bool" where
  "blocked x h enf ctx rel \<longleftrightarrow>
     (\<forall>new old. \<exists>rule reason. governed_write_violation x h enf ctx rel new old = Some (rule, reason) \<and>
        rule_action enf rule = Block)"

lemma revert_other:
  assumes "resolve_in_workspace (host_of x (site s)) rel \<noteq> Some p"
  shows "site_files (site (revert_command_change x rel kind old s)) p = site_files (site s) p"
  using assms by (auto simp: revert_command_change_def set_file_def drop_file_def split: option.split)

lemma revert_rest: "site_rest (site (revert_command_change x rel kind old s)) = site_rest (site s)"
  by (auto simp: revert_command_change_def set_file_def drop_file_def split: option.split)

lemma enforce_other:
  assumes host: "\<And>u. site_rest u = w \<Longrightarrow> host_of x u = h" and ok: "\<And>st. ledger_error x st = None"
  shows "enforce_changes x enf ctx command prior chs n vs rule s = (res, s') \<Longrightarrow> site_rest (site s) = w \<Longrightarrow>
    \<forall>ch \<in> set chs. resolve_in_workspace h (ch_rel ch) \<noteq> Some p \<Longrightarrow>
    site_files (site s') p = site_files (site s) p"
proof (induction chs arbitrary: n vs rule s)
  case (Cons ch chs)
  from ok Cons.prems(1) show ?case
  proof (rule enforce_changes_step)
    fix s1 n1 vs1 rule1 s2
    assume s1: "site s1 = site s"
      and s2: "s2 = s1 \<or> s2 = revert_command_change x (ch_rel ch) (ch_kind ch) (dict_get prior (ch_rel ch)) s1"
      and e: "enforce_changes x enf ctx command prior chs n1 vs1 rule1 s2 = (res, s')"
    have "site_files (site s2) p = site_files (site s1) p"
      using s2 revert_other [of x s1 "ch_rel ch" p] Cons.prems(2,3) host s1 by auto
    moreover have "site_rest (site s2) = w" using s2 s1 Cons.prems(2) by (auto simp: revert_rest)
    ultimately show ?thesis using Cons.IH [OF e] Cons.prems(3) s1 by simp
  qed
qed simp

lemma enforce_own:
  assumes host: "\<And>u. site_rest u = w \<Longrightarrow> host_of x u = h" and ok: "\<And>st. ledger_error x st = None"
    and b: "blocked x h enf ctx (ch_rel ch)" and r: "resolve_in_workspace h (ch_rel ch) = Some p"
  shows "enforce_changes x enf ctx command prior chs n vs rule s = (res, s') \<Longrightarrow> site_rest (site s) = w \<Longrightarrow> ch \<in> set chs \<Longrightarrow>
    distinct (map ch_rel chs) \<Longrightarrow> \<forall>ch' \<in> set chs. resolve_in_workspace h (ch_rel ch') = Some p \<longrightarrow> ch_rel ch' = ch_rel ch \<Longrightarrow>
    \<exists>s1. site_rest (site s1) = w \<and> site_files (site s1) p = site_files (site s) p \<and>
      site_files (site s') p =
        site_files (site (revert_command_change x (ch_rel ch) (ch_kind ch) (dict_get prior (ch_rel ch)) s1)) p \<and>
      (\<exists>n' us rule'. res = Inr (n', us, rule') \<and> us \<noteq> [])"
proof (induction chs arbitrary: n vs rule s)
  case (Cons c chs)
  from ok Cons.prems(1) show ?case
  proof (rule enforce_changes_step)
    fix s1 n1 vs1 rule1 s2
    assume s1: "site s1 = site s"
      and s2: "s2 = s1 \<or> s2 = revert_command_change x (ch_rel c) (ch_kind c) (dict_get prior (ch_rel c)) s1"
      and e: "enforce_changes x enf ctx command prior chs n1 vs1 rule1 s2 = (res, s')"
      and v: "\<And>r reason. governed_write_violation x (host_of x (site s1)) enf ctx (ch_rel c) (utf8 x (ch_content c))
       (utf8 x (case dict_get prior (ch_rel c) of None \<Rightarrow> None | Some (_, b) \<Rightarrow> b)) = Some (r, reason) \<Longrightarrow>
       rule_action enf r = Block \<Longrightarrow>
       vs1 \<noteq> [] \<and> s2 = revert_command_change x (ch_rel c) (ch_kind c) (dict_get prior (ch_rel c)) s1"
    have s2w: "site_rest (site s2) = w" using s2 s1 Cons.prems(2) by (auto simp: revert_rest)
    show ?thesis
    proof (cases "c = ch")
      case True
      from b obtain r reason where "governed_write_violation x h enf ctx (ch_rel ch) (utf8 x (ch_content ch))
       (utf8 x (case dict_get prior (ch_rel ch) of None \<Rightarrow> None | Some (_, b) \<Rightarrow> b)) = Some (r, reason)"
        "rule_action enf r = Block"
        unfolding blocked_def by meson
      with v True host s1 Cons.prems(2) have w: "vs1 \<noteq> []" "s2 = revert_command_change x (ch_rel ch) (ch_kind ch) (dict_get prior (ch_rel ch)) s1"
        by auto
      have "resolve_in_workspace h (ch_rel ch') \<noteq> Some p" if "ch' \<in> set chs" for ch'
      proof -
        have "ch_rel ch' \<noteq> ch_rel ch" using Cons.prems(4) True that by simp (metis imageI)
        with Cons.prems(5) that show ?thesis by (meson list.set_intros(2))
      qed
      with enforce_other [OF host ok e s2w]
      have "site_files (site s') p = site_files (site s2) p" by blast
      moreover from enforce_changes_rows [OF ok e] w(1) have "\<exists>n' us rule'. res = Inr (n', us, rule') \<and> us \<noteq> []" by blast
      ultimately show ?thesis using w(2) s1 Cons.prems(2) by (intro exI [of _ s1]) simp
    next
      case False
      with Cons.prems(3,4) have c: "ch \<in> set chs" "ch_rel c \<noteq> ch_rel ch" by auto
      with Cons.prems(5) have "site_files (site s2) p = site_files (site s1) p"
        using s2 revert_other [of x s1 "ch_rel c" p] host s1 Cons.prems(2) by auto
      moreover have "distinct (map ch_rel chs)" using Cons.prems(4) by simp
      moreover have "\<forall>ch' \<in> set chs. resolve_in_workspace h (ch_rel ch') = Some p \<longrightarrow> ch_rel ch' = ch_rel ch"
        using Cons.prems(5) by (meson list.set_intros(2))
      ultimately show ?thesis using Cons.IH [OF e s2w c(1)] s1 by metis
    qed
  qed
qed simp

text \<open>
  What a snapshot sees of one file: the file is walked, and under the host \<open>h\<close>, the one the restoring resolves
  paths with, its path names it (no link leads elsewhere) and no other walked path does.
\<close>

definition sees :: "'w runtime \<Rightarrow> host \<Rightarrow> 'w site \<Rightarrow> string list \<Rightarrow> bool" where
  "sees x h st comps \<longleftrightarrow>
     (let kept = filter (\<lambda>c. \<not> pruned c) (walk x st); p = root_parts h @ comps in
      root_parts (host_of x st) = root_parts h \<and> \<not> pruned comps \<and> length kept \<le> DIFF_MAX_FILES \<and>
      (comps \<in> set (walk x st) \<longleftrightarrow> site_files st p \<noteq> None) \<and>
      resolve_in_workspace h (rel_text comps) = Some p \<and>
      list_all (\<lambda>c. c = comps \<or> (rel_text c \<noteq> rel_text comps \<and> resolve_in_workspace h (rel_text c) \<noteq> Some p)) (walk x st))"

lemma dict_get_foldl: "dict_get (foldl (\<lambda>d (k, v). dict_set d k v) d kvs) k =
    (case map_of (rev kvs) k of None \<Rightarrow> dict_get d k | Some v \<Rightarrow> Some v)"
  by (induction kvs arbitrary: d) (auto simp: map_add_def split: option.split)

lemma foldl_dict_distinct: "distinct (map fst d) \<Longrightarrow> distinct (map fst (foldl (\<lambda>d (k, v). dict_set d k v) d kvs))"
  by (induction kvs arbitrary: d) (auto simp: dict_set_distinct)

lemma foldl_dict_keys: "fst ` set (foldl (\<lambda>d (k, v). dict_set d k v) d kvs) = fst ` set d \<union> fst ` set kvs"
  by (induction kvs arbitrary: d) (simp_all add: split_beta dict_set_keyset)

lemma dict_get_in: "(k, v) \<in> set d \<Longrightarrow> distinct (map fst d) \<Longrightarrow> dict_get d k = Some v"
  by (simp add: dict_get_def)

lemma dict_get_mem: "dict_get d k = Some v \<Longrightarrow> (k, v) \<in> set d"
  by (simp add: dict_get_def map_of_SomeD)

lemma map_of_only:
  assumes "\<And>v. (k, v) \<in> set kvs \<Longrightarrow> v = w" and "(k, w) \<in> set kvs"
  shows "map_of kvs k = Some w"
proof -
  from assms(2) obtain v where "map_of kvs k = Some v" by (metis weak_map_of_SomeI)
  with assms(1) map_of_SomeD show ?thesis by fastforce
qed

definition capped :: "string \<Rightarrow> string option" where
  "capped b = (if int (length b) \<le> DIFF_CONTENT_CAP_BYTES then Some b else None)"

lemma snapshot_distinct: "distinct (map fst (snapshot_governed_tree x st))"
  by (simp add: snapshot_governed_tree_def foldl_dict_distinct)

lemma snapshot_key:
  assumes "k \<in> fst ` set (snapshot_governed_tree x st)"
  shows "\<exists>c \<in> set (walk x st). k = rel_text c"
proof -
  from assms obtain v where "(k, v) \<in> set (List.map_filter (snapshot_entry x st) (filter (\<lambda>c. \<not> pruned c) (walk x st)))"
    by (auto simp: snapshot_governed_tree_def foldl_dict_keys dest: in_set_takeD)
  then obtain c where "c \<in> set (walk x st)" "snapshot_entry x st c = Some (k, v)"
    by (auto simp: map_filter_def)
  then show ?thesis by (auto simp: snapshot_entry_def split: option.split_asm)
qed

lemma snapshot_sees:
  assumes "sees x h st comps"
  shows "dict_get (snapshot_governed_tree x st) (rel_text comps) =
    map_option (\<lambda>b. (sha256 x b, capped b)) (site_files st (root_parts h @ comps))"
proof -
  let ?p = "root_parts h @ comps"
  let ?kept = "filter (\<lambda>c. \<not> pruned c) (walk x st)"
  let ?kvs = "List.map_filter (snapshot_entry x st) ?kept"
  have root: "root_parts (host_of x st) = root_parts h" using assms by (simp add: sees_def Let_def)
  have len: "length ?kvs \<le> DIFF_MAX_FILES"
    using assms length_filter_le [of "\<lambda>c. snapshot_entry x st c \<noteq> None" ?kept]
    by (auto simp: sees_def Let_def map_filter_def comp_def)
  have only: "c = comps" if "c \<in> set ?kept" "rel_text c = rel_text comps" for c
    using assms that by (auto simp: sees_def Let_def list_all_iff)
  have kv: "(rel_text comps, v) \<in> set ?kvs \<longleftrightarrow> comps \<in> set ?kept \<and> snapshot_entry x st comps = Some (rel_text comps, v)" for v
    using only by (auto simp: map_filter_def snapshot_entry_def split: option.splits) force+
  have get: "dict_get (snapshot_governed_tree x st) (rel_text comps) = map_of (rev ?kvs) (rel_text comps)"
    using len by (simp add: snapshot_governed_tree_def dict_get_foldl split: option.split)
  show ?thesis
  proof (cases "site_files st ?p")
    case None
    then have "rel_text comps \<notin> fst ` set (rev ?kvs)" using kv root by (auto simp: snapshot_entry_def)
    then have "map_of (rev ?kvs) (rel_text comps) = None" by (simp only: map_of_eq_None_iff not_False_eq_True)
    with get None show ?thesis by simp
  next
    case (Some b)
    then have "snapshot_entry x st comps = Some (rel_text comps, sha256 x b, capped b)"
      using root by (simp add: snapshot_entry_def capped_def)
    moreover have "comps \<in> set ?kept" using assms Some by (auto simp: sees_def Let_def)
    ultimately have "map_of (rev ?kvs) (rel_text comps) = Some (sha256 x b, capped b)"
      by (intro map_of_only) (auto simp: kv)
    with get Some show ?thesis by simp
  qed
qed

text \<open>The changes between two snapshots, one for each path whose entry changed.\<close>

definition new_change :: "snapshot \<Rightarrow> string \<times> string \<times> string option \<Rightarrow> file_change option" where
  "new_change prior = (\<lambda>(rel, sha, content).
     case dict_get prior rel of
       None \<Rightarrow> Some \<lparr>ch_rel = rel, ch_kind = Added, ch_sha = Some sha, ch_content = content\<rparr>
     | Some (old, _) \<Rightarrow>
         if old \<noteq> sha then Some \<lparr>ch_rel = rel, ch_kind = Modified, ch_sha = Some sha, ch_content = content\<rparr> else None)"

definition gone_change :: "snapshot \<Rightarrow> string \<times> string \<times> string option \<Rightarrow> file_change option" where
  "gone_change after = (\<lambda>(rel, _).
     if dict_get after rel = None then Some \<lparr>ch_rel = rel, ch_kind = Deleted, ch_sha = None, ch_content = None\<rparr>
     else None)"

lemma new_change_rel: "new_change prior kv = Some ch \<Longrightarrow> ch_rel ch = fst kv"
  by (auto simp: new_change_def split: prod.splits option.splits if_split_asm)

lemma gone_change_rel: "gone_change after kv = Some ch \<Longrightarrow> ch_rel ch = fst kv"
  by (auto simp: gone_change_def split: prod.splits if_split_asm)

lemma map_filter_keys:
  assumes "\<And>kv ch. f kv = Some ch \<Longrightarrow> ch_rel ch = fst kv" and "distinct (map fst d)"
  shows "distinct (map ch_rel (List.map_filter f d)) \<and> ch_rel ` set (List.map_filter f d) \<subseteq> fst ` set d"
  using assms(2)
proof (induction d)
  case (Cons kv d)
  show ?case
  proof (cases "f kv")
    case None
    with Cons show ?thesis by (auto simp: List.map_filter_simps)
  next
    case (Some ch)
    with assms(1) have "ch_rel ch = fst kv" by blast
    with Some Cons show ?thesis by (auto simp: List.map_filter_simps)
  qed
qed (simp add: List.map_filter_simps)

lemma new_keys: "distinct (map fst d) \<Longrightarrow> distinct (map ch_rel (List.map_filter (new_change prior) d)) \<and>
    ch_rel ` set (List.map_filter (new_change prior) d) \<subseteq> fst ` set d"
  by (rule map_filter_keys) (rule new_change_rel)

lemma gone_keys: "distinct (map fst d) \<Longrightarrow> distinct (map ch_rel (List.map_filter (gone_change after) d)) \<and>
    ch_rel ` set (List.map_filter (gone_change after) d) \<subseteq> fst ` set d"
  by (rule map_filter_keys) (rule gone_change_rel)

lemma file_changes_split:
  "file_changes prior after = List.map_filter (new_change prior) after @ List.map_filter (gone_change after) prior"
  by (simp add: file_changes_def new_change_def gone_change_def)

lemma changes_distinct:
  assumes "distinct (map fst prior)" "distinct (map fst after)"
  shows "distinct (map ch_rel (file_changes prior after))"
proof -
  have "ch_rel ch \<notin> fst ` set after" if "ch \<in> set (List.map_filter (gone_change after) prior)" for ch
  proof -
    from that obtain rel v where "gone_change after (rel, v) = Some ch" by (auto simp: map_filter_def)
    then have "ch_rel ch = rel" "dict_get after rel = None" by (auto simp: gone_change_def split: if_split_asm)
    then show ?thesis by (simp add: dict_get_def map_of_eq_None_iff)
  qed
  moreover have "ch_rel ch \<in> fst ` set after" if "ch \<in> set (List.map_filter (new_change prior) after)" for ch
    using new_keys [OF assms(2)] that by blast
  ultimately have "ch_rel ` set (List.map_filter (new_change prior) after) \<inter>
      ch_rel ` set (List.map_filter (gone_change after) prior) = {}" by (intro Int_emptyI, elim imageE) metis
  then show ?thesis
    using new_keys [OF assms(2)] gone_keys [OF assms(1)]
    by (simp add: file_changes_split)
qed

lemma changes_iff:
  assumes "distinct (map fst prior)" "distinct (map fst after)"
  shows "ch \<in> set (file_changes prior after) \<longleftrightarrow>
    (case dict_get after (ch_rel ch) of
       Some v \<Rightarrow> new_change prior (ch_rel ch, v) = Some ch
     | None \<Rightarrow> (case dict_get prior (ch_rel ch) of None \<Rightarrow> False | Some v \<Rightarrow> gone_change after (ch_rel ch, v) = Some ch))"
proof -
  have "ch \<in> set (List.map_filter f d) \<longleftrightarrow> (case dict_get d (ch_rel ch) of None \<Rightarrow> False | Some v \<Rightarrow> f (ch_rel ch, v) = Some ch)"
    if f: "\<And>kv ch. f kv = Some ch \<Longrightarrow> ch_rel ch = fst kv" and d: "distinct (map fst d)" for f d
  proof -
    have "ch \<in> set (List.map_filter f d) \<longleftrightarrow> (\<exists>kv \<in> set d. f kv = Some ch)" by (force simp: map_filter_def)
    also have "\<dots> \<longleftrightarrow> (\<exists>v. (ch_rel ch, v) \<in> set d \<and> f (ch_rel ch, v) = Some ch)" using f by (metis prod.collapse)
    also have "\<dots> \<longleftrightarrow> (\<exists>v. dict_get d (ch_rel ch) = Some v \<and> f (ch_rel ch, v) = Some ch)"
      using d by (simp add: dict_get_def)
    also have "\<dots> \<longleftrightarrow> (case dict_get d (ch_rel ch) of None \<Rightarrow> False | Some v \<Rightarrow> f (ch_rel ch, v) = Some ch)"
      by (simp split: option.split)
    finally show ?thesis .
  qed
  from this [of "new_change prior", OF _ assms(2)] this [of "gone_change after", OF _ assms(1)]
    new_change_rel gone_change_rel show ?thesis
    by (auto simp: file_changes_split gone_change_def split: option.split)
qed

subsection \<open>What a command cannot change\<close>

lemma revert_restores:
  assumes "resolve_in_workspace (host_of x (site s)) rel = Some p"
  shows "site_files (site (revert_command_change x rel kind old s)) p =
    (if kind = Added then None else case old of Some (_, Some b) \<Rightarrow> Some b | _ \<Rightarrow> site_files (site s) p)"
  using assms by (auto simp: revert_command_change_def set_file_def drop_file_def split: option.split)

lemma enforce_restores:
  assumes host: "\<And>u. site_rest u = w \<Longrightarrow> host_of x u = h" and ok: "\<And>st. ledger_error x st = None"
    and rest: "site_rest (site s) = w"
    and coll: "\<And>a b. site_files st0 (root_parts h @ comps) = Some a \<Longrightarrow> site_files (site s) (root_parts h @ comps) = Some b \<Longrightarrow>
      sha256 x a = sha256 x b \<Longrightarrow> a = b"
    and e: "enforce_command_writes x c enf command (snapshot_governed_tree x st0) s = (res, s')"
    and see: "sees x h st0 comps" "sees x h (site s) comps"
    and b: "blocked x h enf (seat_ctx x c s) (rel_text comps)"
    and small: "\<And>b. site_files st0 (root_parts h @ comps) = Some b \<Longrightarrow> int (length b) \<le> DIFF_CONTENT_CAP_BYTES"
  shows "site_files (site s') (root_parts h @ comps) = site_files st0 (root_parts h @ comps) \<and>
    (site_files (site s) (root_parts h @ comps) = site_files st0 (root_parts h @ comps) \<or>
      (\<exists>m rule. res = Inl (Denied m rule)))"
proof -
  let ?p = "root_parts h @ comps" and ?rel = "rel_text comps"
  let ?prior = "snapshot_governed_tree x st0" and ?after = "snapshot_governed_tree x (site s)"
  let ?chs = "file_changes ?prior ?after"
  have r: "resolve_in_workspace h ?rel = Some ?p" using see(2) by (simp add: sees_def Let_def)
  have get: "dict_get ?prior ?rel = map_option (\<lambda>b. (sha256 x b, capped b)) (site_files st0 ?p)"
      "dict_get ?after ?rel = map_option (\<lambda>b. (sha256 x b, capped b)) (site_files (site s) ?p)"
    using snapshot_sees [OF see(1)] snapshot_sees [OF see(2)] by simp_all
  note iff = changes_iff [OF snapshot_distinct [of x st0] snapshot_distinct [of x "site s"]]
  have only: "ch_rel ch = ?rel" if "ch \<in> set ?chs" "resolve_in_workspace h (ch_rel ch) = Some ?p" for ch
  proof -
    have "ch_rel ch \<in> fst ` set ?prior \<union> fst ` set ?after"
      using that(1) iff [of ch] by (force split: option.split_asm dest: dict_get_mem)
    then obtain cs where "cs \<in> set (walk x st0) \<union> set (walk x (site s))" "ch_rel ch = rel_text cs"
      using snapshot_key by blast
    with see that(2) show ?thesis by (auto simp: sees_def Let_def list_all_iff)
  qed
  show ?thesis
  proof (cases "site_files (site s) ?p = site_files st0 ?p")
    case True
    have none: "resolve_in_workspace h (ch_rel ch) \<noteq> Some ?p" if "ch \<in> set ?chs" for ch
    proof
      assume "resolve_in_workspace h (ch_rel ch) = Some ?p"
      with only that have "ch_rel ch = ?rel" by blast
      with that iff [of ch] get True show False
        by (auto simp: new_change_def gone_change_def split: option.split_asm if_split_asm)
    qed
    have "site_files (site s') ?p = site_files (site s) ?p"
    proof (cases "?chs = []")
      case True
      with e show ?thesis by (simp add: enforce_command_writes_def Let_def)
    next
      case False
      obtain r1 s1 where e1: "enforce_changes x enf (seat_ctx x c s) command ?prior ?chs 0 [] None s = (r1, s1)" by fastforce
      with enforce_other [OF host ok e1 rest] none have "site_files (site s1) ?p = site_files (site s) ?p" by blast
      moreover have "site s' = site s1"
        using e e1 False
        by (auto simp: enforce_command_writes_def Let_def split: sum.split_asm prod.split_asm option.split_asm if_split_asm
            dest: command_change_keeps)
      ultimately show ?thesis by simp
    qed
    with True show ?thesis by simp
  next
    case False
    define ch where "ch = (case site_files (site s) ?p of
        None \<Rightarrow> \<lparr>ch_rel = ?rel, ch_kind = Deleted, ch_sha = None, ch_content = None\<rparr>
      | Some b \<Rightarrow> \<lparr>ch_rel = ?rel, ch_kind = (if site_files st0 ?p = None then Added else Modified),
          ch_sha = Some (sha256 x b), ch_content = capped b\<rparr>)"
    have rel: "ch_rel ch = ?rel" by (simp add: ch_def split: option.split)
    have differ: "sha256 x a \<noteq> sha256 x b" if "site_files st0 ?p = Some a" "site_files (site s) ?p = Some b" for a b
      using coll [OF that] that False by auto
    have "ch \<in> set ?chs"
      unfolding iff rel using False get
      by (cases "site_files st0 ?p"; cases "site_files (site s) ?p")
        (simp_all add: new_change_def gone_change_def ch_def differ)
    obtain r1 s1 where e1: "enforce_changes x enf (seat_ctx x c s) command ?prior ?chs 0 [] None s = (r1, s1)" by fastforce
    have own: "\<forall>ch' \<in> set ?chs. resolve_in_workspace h (ch_rel ch') = Some ?p \<longrightarrow> ch_rel ch' = ch_rel ch"
      using only rel by simp
    from enforce_own [OF host ok _ _ e1 rest \<open>ch \<in> set ?chs\<close> changes_distinct [OF snapshot_distinct snapshot_distinct] own]
      b r rel obtain t n us rule where trest: "site_rest (site t) = w" and t: "site_files (site t) ?p = site_files (site s) ?p"
        "site_files (site s1) ?p = site_files (site (revert_command_change x ?rel (ch_kind ch) (dict_get ?prior ?rel) t)) ?p"
        and r1: "r1 = Inr (n, us, rule)" "us \<noteq> []" by auto
    have "site_files (site s1) ?p = site_files st0 ?p"
      unfolding t(2) using r host [of "site t"] trest get small False t(1)
      by (subst revert_restores) (auto simp: ch_def capped_def split: option.split)
    moreover have "site s' = site s1 \<and> (\<exists>m rule. res = Inl (Denied m rule))"
      using e e1 r1 \<open>ch \<in> set ?chs\<close> append_entry_ok [OF ok]
      by (auto simp: enforce_command_writes_def denial_of_def audit_command_change_def Let_def
          split: prod.split_asm option.split_asm if_split_asm dest: append_entry_keeps) (metis fst_conv option.distinct(1))+
    ultimately show ?thesis by simp
  qed
qed

text \<open>The paths whose every change breaks a rule, whatever the texts are.\<close>

definition path_protected :: "host \<Rightarrow> enforcement_state \<Rightarrow> agent_ctx \<Rightarrow> string \<Rightarrow> bool" where
  "path_protected h enf ctx rel \<longleftrightarrow>
     (is_funded h \<and> funded_owned (norm_path rel)) \<or>
     (is_governance_path rel \<and> \<not> is_allowed_gate_output ctx rel) \<or>
     matches_forbidden_path (norm_path rel) (forbidden_paths enf) \<or>
     (active_gate ctx = Some ''G4'' \<and> is_plan_test_path (norm_path rel)) \<or>
     norm_path rel \<in> set (signed_core_artifacts ctx)"

lemma protected_blocked: "strict_policy enf \<Longrightarrow> path_protected h enf ctx rel \<Longrightarrow> blocked x h enf ctx rel"
  by (auto simp: blocked_def path_protected_def governed_write_violation_def Let_def strict_block)

lemma open_keeps_files: "before_command x c s = (r, s0) \<Longrightarrow> site_files (site s0) = site_files (site s)"
  by (auto simp: before_command_def read_signed_def Let_def split: option.split_asm prod.split_asm)

lemma before_command_snapshot:
  assumes "before_command x c s = (Inr prior, s0)"
  shows "prior = snapshot_governed_tree x (site s0)" and "signed_cache s0 \<noteq> None"
  using assms by (auto simp: before_command_def read_signed_def Let_def split: option.split_asm prod.split_asm)

text \<open>C5: a command cannot change what is protected. Under the strict policy, and with a ledger that takes its rows,
  when a command has run, every file the snapshots see whose path is protected (of the governance tree, on the
  forbidden list, a test of the plan at the build gate, signed before the command, or owned by the funded
  dependencies) holds what it held before, unless it was larger than the snapshot keeps; and when the command
  had changed it, the call is denied. The statement is for a command after which the path still names the file
  (\<open>sees\<close>, with the host \<open>h\<close> the command leaves: the command has not put a link in the place of one of its
  directories), and for contents before and after whose digests do not collide.\<close>

theorem command_keeps_protected:
  assumes run: "tool_run_command x c enf command s = (r, s')"
    and started: "before_command x c s = (Inr prior, s0)"
    and ran: "shell x (fst (resolve_run_cwd x (site s) command)) (snd (resolve_run_cwd x (site s) command)) (site s0) = (Inr out, st)"
    and host: "\<And>u. site_rest u = site_rest st \<Longrightarrow> host_of x u = h" and ok: "\<And>st. ledger_error x st = None"
    and see: "sees x h (site s0) comps" "sees x h st comps"
    and coll: "\<And>a b. site_files (site s) (root_parts h @ comps) = Some a \<Longrightarrow> site_files st (root_parts h @ comps) = Some b \<Longrightarrow>
      sha256 x a = sha256 x b \<Longrightarrow> a = b"
    and strict: "strict_policy enf"
    and prot: "path_protected h enf (seat_ctx x c (s0\<lparr>site := st\<rparr>)) (rel_text comps)"
    and small: "\<And>b. site_files (site s) (root_parts h @ comps) = Some b \<Longrightarrow> int (length b) \<le> DIFF_CONTENT_CAP_BYTES"
  shows "site_files (site s') (root_parts h @ comps) = site_files (site s) (root_parts h @ comps) \<and>
    (site_files st (root_parts h @ comps) = site_files (site s) (root_parts h @ comps) \<or>
      (\<exists>m rule. r = Inl (Denied m rule)))"
proof -
  note files = open_keeps_files [OF started] and b = before_command_snapshot(1) [OF started]
  obtain res s1 where e: "enforce_command_writes x c enf command prior (s0\<lparr>site := st\<rparr>) = (res, s1)" by fastforce
  have "site s' = site s1 \<and> (\<forall>e. res = Inl e \<longrightarrow> r = Inl e)"
    using run started ran e by (auto simp: tool_run_command_def Let_def split_beta split: sum.split_asm)
  moreover have "site_files (site s1) (root_parts h @ comps) = site_files (site s0) (root_parts h @ comps) \<and>
    (site_files (site (s0\<lparr>site := st\<rparr>)) (root_parts h @ comps) = site_files (site s0) (root_parts h @ comps) \<or>
      (\<exists>m rule. res = Inl (Denied m rule)))"
    by (rule enforce_restores [OF host ok _ _ e [unfolded b]])
      (use see small coll files protected_blocked [OF strict prot] in \<open>simp_all\<close>)
  ultimately show ?thesis using files by auto
qed

text \<open>A link defeats the restoring: when the command has replaced a directory of the path by a link that leads out of the
  workspace, the path no longer resolves and nothing is written back.\<close>

lemma linked_directory_not_restored:
  assumes "canonical_abs (host_of x (site s)) rel = Some target" and "\<not> prefix (root_parts (host_of x (site s))) target"
  shows "revert_command_change x rel kind old s = s"
  using assms by (simp add: revert_command_change_def resolve_in_workspace_def)

subsection \<open>A small workspace\<close>

text \<open>Two files, and a command that overwrites one.\<close>

definition demo_runtime :: "(unit site \<Rightarrow> unit site) \<Rightarrow> string list list \<Rightarrow> unit runtime" where
  "demo_runtime f names =
     \<lparr>chat = (\<lambda>_ _ w. (Inl ''no provider'', w)), cancel_check = (\<lambda>_. False), load_enforcement = (\<lambda>_. Inr default_policy),
      host_of = (\<lambda>_. demo_host), view = (\<lambda>_. demo_ctx), real_path = (\<lambda>_ p. Some p), scan_write_secrets = (\<lambda>_ _. Inr []),
      scan_injections = (\<lambda>_ _. []), is_text = (\<lambda>_. True), decode_replace = (\<lambda>t. t), redact = (\<lambda>t. t),
      funded_check = (\<lambda>_. None), open_session = (\<lambda>w. (None, w)),
      shell = (\<lambda>cwd cmd st. (Inr \<lparr>exit_code = 0, timed_out = False, cmd_stdout = [], cmd_stderr = []\<rparr>, f st)),
      is_dir = (\<lambda>_ _. False), walk = (\<lambda>st. filter (\<lambda>c. site_files st (''ws'' # c) \<noteq> None) names), list_dir = (\<lambda>_ _. []),
      glob_files = (\<lambda>_ _. Inr []), ledger_error = (\<lambda>_. None), close_session = (\<lambda>w. (None, w)),
      classify_failure = (\<lambda>_. ''unknown''), sha256 = (\<lambda>t. t), loads_args = (\<lambda>_. None)\<rparr>"

definition demo_config :: seat_config where
  "demo_config =
     \<lparr>tool_call_limit = 3, build_seat = False, stall_window = 8, repeat_cmd_limit = 3, seat_context = ''delivery'',
      seat_gate = Some ''G4'', seat_signed_gates = [0, 1, 2, 3], tools_supported = True\<rparr>"

definition new_seat :: "'w site \<Rightarrow> audit_entry list \<Rightarrow> saved_run option \<Rightarrow> 'w seat" where
  "new_seat st entries sv =
     \<lparr>site = st, tool_calls_made = 0, wrote_file = False, wrote_test = False, mutation_seq = 0, signed_cache = None,
      observed_sigs = {}, no_progress_streak = 0, repeat_cmd_streak = 0, last_cmd_sig = None, audit_seq = 0,
      tool_ledger = entries, saved = sv, tokens_in = None, tokens_out = None\<rparr>"

definition put_file :: "string list \<Rightarrow> string option \<Rightarrow> unit site \<Rightarrow> unit site" where
  "put_file p b st = st\<lparr>site_files := (site_files st)(''ws'' # p := b)\<rparr>"

definition demo_site :: "(string list \<times> string) list \<Rightarrow> unit site" where
  "demo_site fs = \<lparr>site_files = map_of (map (\<lambda>(p, b). (''ws'' # p, b)) fs), site_rest = ()\<rparr>"

theorem command_keeps_protected_witness:
  "site_files (site (snd (tool_run_command (demo_runtime (put_file [''.env''] (Some ''KEY=2'')) [[''.env'']]) demo_config
      default_policy ''npm test'' (new_seat (demo_site [([''.env''], ''KEY=1'')]) [] None)))) [''ws'', ''.env''] = Some ''KEY=1''"
proof -
  let ?f = "put_file [''.env''] (Some ''KEY=2'')"
  let ?x = "demo_runtime ?f [[''.env'']]" and ?st = "demo_site [([''.env''], ''KEY=1'')]"
  let ?s = "new_seat ?st [] None"
  let ?u = "read_signed ?x demo_config ?s"
  have "site_files (site (snd (tool_run_command ?x demo_config default_policy ''npm test'' ?s))) (root_parts demo_host @ [''.env'']) =
      site_files (site ?s) (root_parts demo_host @ [''.env''])"
  proof (rule command_keeps_protected [where ?s0.0 = "?u", THEN conjunct1, OF prod.collapse [symmetric]])
    show "before_command ?x demo_config ?s = (Inr (snapshot_governed_tree ?x ?st), ?u)"
      by (simp add: before_command_def demo_runtime_def demo_host_def is_funded_def new_seat_def read_signed_def
          seat_ctx_def demo_site_def)
    show "shell ?x (fst (resolve_run_cwd ?x (site ?s) ''npm test'')) (snd (resolve_run_cwd ?x (site ?s) ''npm test'')) (site ?u) =
        (Inr \<lparr>exit_code = 0, timed_out = False, cmd_stdout = [], cmd_stderr = []\<rparr>, ?f ?st)"
      by (simp add: demo_runtime_def read_signed_def new_seat_def)
    show "sees ?x demo_host (site ?u) [''.env'']" by code_simp
    show "sees ?x demo_host (?f ?st) [''.env'']" by code_simp
    show "path_protected demo_host default_policy (seat_ctx ?x demo_config (?u\<lparr>site := ?f ?st\<rparr>)) (rel_text [''.env''])"
      by code_simp
    show "\<And>b. site_files (site ?s) (root_parts demo_host @ [''.env'']) = Some b \<Longrightarrow> int (length b) \<le> DIFF_CONTENT_CAP_BYTES"
      by (auto simp: new_seat_def demo_site_def demo_host_def DIFF_CONTENT_CAP_BYTES_def)
  qed (simp_all add: demo_runtime_def default_policy_strict)
  then show ?thesis by (simp add: new_seat_def demo_site_def demo_host_def)
qed

subsection \<open>What the enforcement misses\<close>

text \<open>
  A path with a space behind it is another file, but the undoing of its creation resolves the path
  without the space: a command that creates the file \<open>gates.json\<close> with a space behind its name in
  the governance directory makes the enforcement remove the real one, and leave the other.
\<close>

lemma undo_removes_another_file:
  "let x = demo_runtime (put_file [''.signalos'', ''gates.json ''] (Some ''{}''))
         [[''.signalos'', ''gates.json''], [''.signalos'', ''gates.json '']];
       s = snd (tool_run_command x demo_config default_policy ''npm test''
         (new_seat (demo_site [([''.signalos'', ''gates.json''], ''signed'')]) [] None))
   in site_files (site s) [''ws'', ''.signalos'', ''gates.json''] = None \<and>
      site_files (site s) [''ws'', ''.signalos'', ''gates.json ''] = Some ''{}''"
  by code_simp

text \<open>
  A name with a backslash is read as a path with a slash: a command may remove a file of the
  governance tree unseen when it leaves one of that name, and the same bytes, at the root.
\<close>

lemma backslash_hides_removal:
  "let decoy = ''.signalos'' @ CHR 0x5C # ''gates.json'';
       x = demo_runtime (put_file [decoy] (Some ''signed'') \<circ> put_file [''.signalos'', ''gates.json''] None)
         [[decoy], [''.signalos'', ''gates.json'']];
       (r, s) = tool_run_command x demo_config default_policy ''npm test''
         (new_seat (demo_site [([''.signalos'', ''gates.json''], ''signed'')]) [] None)
   in site_files (site s) [''ws'', ''.signalos'', ''gates.json''] = None \<and> r = Inr ''exit_code: 0'' \<and> tool_ledger s = []"
  by code_simp

text \<open>A file over the cap of the snapshot is not restored, while the denial says that it was.\<close>

lemma large_file_not_restored:
  assumes "\<not> int (length old) \<le> DIFF_CONTENT_CAP_BYTES"
  shows "revert_command_change x rel Modified (Some (sha, capped old)) s = s"
  using assms by (simp add: revert_command_change_def capped_def split: option.split)

lemma denial_claims_revert:
  "\<exists>tail rule'. denial_of vs rule = Denied (''Command wrote to protected path(s); the change was reverted and denied'' @ tail) rule'"
  by (simp add: denial_of_def)

text \<open>A secret in arguments that came as text goes to the ledger as it is: only the values of an object are redacted.\<close>

lemma text_args_not_redacted: "t \<noteq> [] \<Longrightarrow> redact_args x (PStr t) = PDict [(''_raw'', PStr (take 2000 t))]"
  by (simp add: redact_args_def Let_def)

text \<open>
  Arguments as text are never parsed for the tools that need one: the loop rejects the call before
  its dispatch, as a call with empty arguments.
\<close>

lemma text_args_rejected:
  assumes "tc_args tc = PStr t" and "tc_name tc \<in> set KNOWN_TOOL_NAMES" and "tc_name tc \<noteq> ''list_directory''"
  shows "tool_call_defect tc \<noteq> None"
  using assms
  by (auto simp: tool_call_defect_def call_dict_def blank_def get_str_def KNOWN_TOOL_NAMES_def Let_def)

text \<open>A workspace below a directory named like a hidden one finds none of its files.\<close>

lemma search_blind_below_hidden:
  assumes "''node_modules'' \<in> set root \<or> ''.git'' \<in> set root \<or> ''.signalos'' \<in> set root"
  shows "search_hits root hits = []"
proof -
  have "\<not> (prefix root p \<and> ''.signalos'' \<notin> set p \<and> ''node_modules'' \<notin> set p \<and> ''.git'' \<notin> set p)" for p
    using assms set_mono_prefix by blast
  then show ?thesis by (simp add: search_hits_def first_occurrences_def)
qed

text \<open>An edit of one word rewrites every line ending of the file.\<close>

lemma edit_rewrites_line_endings:
  "let b = ''one'' @ [CHR 0x0D, CHR 0x0A] @ ''two'' @ [CHR 0x0D, CHR 0x0A];
       s = snd (tool_edit_file (demo_runtime id []) default_policy ''a.txt'' ''one'' ''1''
         (new_seat (demo_site [([''a.txt''], b)]) [] None))
   in site_files (site s) [''ws'', ''a.txt''] = Some (''1'' @ [CHR 0x0A] @ ''two'' @ [CHR 0x0A])"
  by code_simp

subsection \<open>What a tool changes\<close>

definition lands ::
  "'w runtime \<Rightarrow> enforcement_state \<Rightarrow> string \<Rightarrow> 'w seat \<Rightarrow> 'w seat \<Rightarrow> string list \<Rightarrow> string \<Rightarrow> bool" where
  "lands x enf rel s s' p txt \<longleftrightarrow>
     resolve_in_workspace (host_of x (site s)) rel = Some p \<and> validate_workspace_write x (site s) p = None \<and>
     (\<exists>ws. scan_write_content x enf rel txt = Inr ws) \<and> wrote_file s' \<and>
     site s' = (site s)\<lparr>site_files := (site_files (site s))(p \<mapsto> txt)\<rparr>"

definition book :: "'w seat \<Rightarrow> audit_entry list \<times> nat \<times> nat" where
  "book s = (tool_ledger s, audit_seq s, tool_calls_made s)"

lemma landed_write_lands:
  assumes "resolve_in_workspace (host_of x (site s)) rel = Some p" "validate_workspace_write x (site s) p = None"
    "scan_write_content x enf rel txt = Inr ws"
  shows "lands x enf rel s (landed_write rel p prior txt s) p txt"
  using assms by (simp add: lands_def landed_write_def set_file_def Let_def)

lemma landed_write_frame [simp]: "book (landed_write rel p b txt s) = book s"
  by (simp add: landed_write_def set_file_def book_def Let_def)

lemma write_effect:
  assumes "tool_write_file x enf rel txt s = (r, s')"
  shows "book s' = book s \<and> (s' = s \<or> (\<exists>m p. r = Inr m \<and> lands x enf rel s s' p txt))"
  using assms
  by (auto simp: tool_write_file_def Let_def split: option.splits sum.splits intro!: landed_write_lands)

lemma edit_effect:
  assumes "tool_edit_file x enf rel old new s = (r, s')"
  shows "book s' = book s \<and> (s' = s \<or> (\<exists>m p txt. r = Inr m \<and> lands x enf rel s s' p txt))"
  using assms
  by (auto simp: tool_edit_file_def Let_def split: option.splits sum.splits if_split_asm intro: landed_write_lands)

lemma before_command_keeps:
  assumes "before_command x c s = (r, s0)"
  shows "quiet s s0 \<and> rowed s s0"
  using assms
  by (auto simp: before_command_def read_signed_def quiet_def Let_def intro!: rowed_refl
      split: option.split_asm prod.split_asm)

lemma enforce_quiet: "enforce_command_writes x c enf command prior s = (r, s') \<Longrightarrow> quiet s s'"
  by (auto simp: enforce_command_writes_def Let_def quiet_def split: sum.split_asm prod.split_asm option.split_asm if_split_asm
      dest!: enforce_changes_quiet command_change_keeps)

lemma enforce_rowed:
  assumes ok: "\<And>st. ledger_error x st = None" and e: "enforce_command_writes x c enf command prior s = (r, s')"
  shows "rowed s s' \<and> (\<forall>m. r \<noteq> Inl (Broke m)) \<and> (\<forall>m. r \<noteq> Inl (Unavailable m))"
proof (cases "file_changes prior (snapshot_governed_tree x (site s)) = []")
  case True
  with e show ?thesis by (auto simp: enforce_command_writes_def intro: rowed_refl)
next
  case False
  let ?chs = "file_changes prior (snapshot_governed_tree x (site s))"
  obtain r1 s1 where e1: "enforce_changes x enf (seat_ctx x c s) command prior ?chs 0 [] None s = (r1, s1)" by fastforce
  from enforce_changes_rows [OF ok e1] obtain n vs rule where r1: "r1 = Inr (n, vs, rule)" and s1: "rowed s s1" by auto
  obtain err s2 where a: "(if DIFF_MAX_AUDIT_ROWS \<le> n \<and> n < length ?chs
      then audit_command_change x command (CHR ''<'' # nat_str (length ?chs - n) @ '' more changes>'') ''summary'' None s1
      else (None, s1)) = (err, s2)" by fastforce
  have "err = None"
    using a append_entry_ok [OF ok] by (auto simp: audit_command_change_def split: if_split_asm) (metis fst_conv option.distinct(1))
  with a have "rowed s1 s2" by (auto split: if_split_asm intro: command_change_rowed rowed_refl)
  with s1 have "rowed s s2" by (rule rowed_trans)
  with e False e1 r1 a \<open>err = None\<close> show ?thesis
    by (auto simp: enforce_command_writes_def denial_of_def split: if_split_asm)
qed

text \<open>A command changes the counters of the run in no case, and adds only its own rows to the ledger.\<close>

lemma command_effect:
  assumes "tool_run_command x c enf command s = (r, s')"
  shows "quiet s s' \<and> ((\<forall>st. ledger_error x st = None) \<longrightarrow> rowed s s')"
proof -
  obtain b s0 where b: "before_command x c s = (b, s0)" by fastforce
  note b' = before_command_keeps [OF b]
  show ?thesis
  proof (cases b)
    case (Inl e)
    with assms b b' show ?thesis by (simp add: tool_run_command_def split_beta)
  next
    case (Inr prior)
    obtain a st where sh: "shell x (fst (resolve_run_cwd x (site s) command)) (snd (resolve_run_cwd x (site s) command)) (site s0) = (a, st)"
      by fastforce
    have st: "quiet s0 (s0\<lparr>site := st\<rparr>)" "rowed s0 (s0\<lparr>site := st\<rparr>)" by (auto simp: quiet_def intro: rowed_refl)
    show ?thesis
    proof (cases a)
      case (Inl e)
      with assms b Inr sh have "s' = s0\<lparr>site := st\<rparr>" by (simp add: tool_run_command_def split_beta)
      with st b' show ?thesis by (auto intro: seat_quiet_trans rowed_trans)
    next
      case (Inr out)
      obtain r1 s1 where e: "enforce_command_writes x c enf command prior (s0\<lparr>site := st\<rparr>) = (r1, s1)" by fastforce
      have "quiet s1 s'" "rowed s1 s'"
        using assms b \<open>b = Inr prior\<close> sh Inr e
        by (auto simp: tool_run_command_def split_beta quiet_def intro: rowed_refl split: sum.split_asm)
      with st b' enforce_quiet [OF e] enforce_rowed [OF _ e] show ?thesis
        by (meson seat_quiet_trans rowed_trans)
    qed
  qed
qed

lemma execute_effect:
  assumes "execute_tool x c enf name args s = (r, s')"
  shows "(name = ''run_command'' \<and> quiet s s' \<and> ((\<forall>st. ledger_error x st = None) \<longrightarrow> rowed s s')) \<or>
    (name \<noteq> ''run_command'' \<and> book s' = book s \<and>
      (s' = s \<or> (name \<in> {''write_file'', ''edit_file''} \<and>
        (\<exists>m p txt. r = Inr m \<and> lands x enf (get_str args ''path'') s s' p txt \<and>
          (name = ''write_file'' \<longrightarrow> txt = get_str args ''content'')))))"
proof -
  consider (w) "name = ''write_file''" | (e) "name = ''edit_file''" | (c) "name = ''run_command''"
    | (n) "name \<notin> {''write_file'', ''edit_file'', ''run_command''}" by blast
  then show ?thesis
  proof cases
    case w
    with assms have "tool_write_file x enf (get_str args ''path'') (get_str args ''content'') s = (r, s')"
      by (simp add: execute_tool_def)
    from write_effect [OF this] w show ?thesis by auto
  next
    case e
    with assms have "tool_edit_file x enf (get_str args ''path'') (get_str args ''old_string'') (get_str args ''new_string'') s
        = (r, s')" by (simp add: execute_tool_def)
    from edit_effect [OF this] e show ?thesis by auto
  next
    case c
    with assms have "tool_run_command x c enf (get_str args ''command'') s = (r, s')" by (simp add: execute_tool_def)
    from command_effect [OF this] c show ?thesis by blast
  next
    case n
    with assms show ?thesis by (auto simp: execute_tool_def split: if_split_asm)
  qed
qed

end
