(* ===== verification/Validation.thy ===== *)
theory Validation
  imports Prelude
begin

section \<open>Validation of a product (\<open>product/validation.py\<close>)\<close>

text \<open>
  The validation plan of a product, its execution and what follows from the results: the frozen
  tests that must have run, the violations for the repair loop, the blockers, and whether the
  delivery may close. How the commands of a category run is a parameter, and so are the parsers of
  compiler output. The delimiter scan of a source text is modelled character by character.
\<close>

subsection \<open>Plans and results\<close>

datatype check_status = Passed | FailedCheck | Skipped | Blocked

record check_result =
  check_status :: check_status
  check_output :: string
  skip_reason :: string
  skip_owner :: string
  release_disposition :: string
  check_failures :: "(string \<times> py) list list"
  tests_uncollected :: "string list"

record plan =
  plan_profile :: string
  plan_commands :: "(string \<times> string list) list"
  can_validate_build :: bool
  can_validate_tests :: bool

record validation_result =
  dry_run :: bool
  check_results :: "(string \<times> check_result) list"
  can_close_delivery :: bool
  blockers :: "string list"
  violations :: "(string \<times> py) list list"
  frozen_tests_uncollected :: "string list"

definition CATEGORIES :: "string list" where
  "CATEGORIES =
     [''install'', ''build'', ''test'', ''lint'', ''qa'', ''e2e'', ''runtime_smoke'', ''ux_smoke'', ''security'']"

definition CRITICAL_CATEGORIES :: "string list" where
  "CRITICAL_CATEGORIES = [''build'', ''test'']"

definition REQUIRED_CLOSE_CATEGORIES :: "string list" where
  "REQUIRED_CLOSE_CATEGORIES = [''build'', ''test'']"

definition JS_DIAGNOSTIC_PROFILES :: "string list" where
  "JS_DIAGNOSTIC_PROFILES = [''react-vite'', ''nextjs-app'', ''vue-vite'', ''angular'']"

definition SKIP_OWNERS :: "(string \<times> string \<times> string) list" where
  "SKIP_OWNERS =
     [(''install'', ''stack-adapter'', ''No install command is required for this stack.''),
      (''lint'', ''stack-adapter'', ''No lint command is declared for this stack.''),
      (''qa'', ''acceptance-proof'', ''No stack-level QA command is declared; acceptance and proof evidence own QA.''),
      (''e2e'', ''proof-phase'', ''Browser E2E is owned by the runtime and UX proof phase.''),
      (''runtime_smoke'', ''proof-phase'', ''Runtime smoke is owned by the proof phase.''),
      (''ux_smoke'', ''proof-phase'', ''UX smoke is owned by the proof phase.''),
      (''security'', ''security-gate'', ''Security validation is owned by the product security gate.'')]"

definition skipped_with :: "string \<Rightarrow> string \<Rightarrow> string \<Rightarrow> string \<Rightarrow> check_result" where
  "skipped_with out reason owner disposition =
     \<lparr>check_status = Skipped, check_output = out, skip_reason = reason, skip_owner = owner,
      release_disposition = disposition, check_failures = [], tests_uncollected = []\<rparr>"

definition dry_run_skipped_result :: check_result where
  "dry_run_skipped_result =
     skipped_with ''dry-run only'' ''Dry-run mode did not execute validation commands.'' ''operator'' ''blocked''"

definition skipped_result :: "string \<Rightarrow> check_result" where
  "skipped_result cat =
     (if cat \<in> set REQUIRED_CLOSE_CATEGORIES
      then skipped_with [] (cat @ '' validation command is missing.'') ''stack-adapter'' ''must_fix''
      else
        (let (owner, reason) =
           (case dict_get SKIP_OWNERS cat of
              Some r \<Rightarrow> r
            | None \<Rightarrow> (''stack-adapter'', ''No validation command is declared for this category.''))
         in skipped_with [] reason owner ''not_applicable''))"

subsection \<open>The frozen tests\<close>

text \<open>The rest of the text after a terminal escape sequence at the front.\<close>

definition ansi_seq :: "string \<Rightarrow> string option" where
  "ansi_seq s =
     (case s of
        c # d # r \<Rightarrow>
          if c = CHR 0x1B \<and> d = CHR ''['' then
            (case dropWhile (\<lambda>c. is_digit c \<or> c = CHR '';'') r of
               l # rest \<Rightarrow> if is_upper l \<or> is_lower l then Some rest else None
             | [] \<Rightarrow> None)
          else None
      | _ \<Rightarrow> None)"

definition strip_ansi :: "string \<Rightarrow> string" where
  "strip_ansi s = concat (re_split ansi_seq [] s)"

definition collected :: "string \<Rightarrow> string \<Rightarrow> bool" where
  "collected haystack norm \<longleftrightarrow>
     occurs_in norm haystack \<or>
     (last (split_on (CHR ''/'') norm) \<noteq> [] \<and> occurs_in (last (split_on (CHR ''/'') norm)) haystack)"

definition verify_frozen_tests_collected :: "string \<Rightarrow> string list \<Rightarrow> string list" where
  "verify_frozen_tests_collected output frozen =
     (let haystack = replace_char (CHR 0x5C) (CHR ''/'') (strip_ansi output)
      in filter (\<lambda>entry.
           let norm = strip (replace_char (CHR 0x5C) (CHR ''/'') entry)
           in norm \<noteq> [] \<and> \<not> collected haystack norm) frozen)"

definition frozen_failure_text :: "string list \<Rightarrow> string" where
  "frozen_failure_text missing =
     [CHR 0x0A, CHR 0x0A] @ ''FROZEN TEST VERIFICATION FAILED: these frozen acceptance tests were NOT collected/executed by the test command (excluded from discovery, or the command was neutered): '' @
     join '', '' missing @
     ''. The verification contract is immutable during the build -- run the frozen tests; do not exclude them or replace the test command.''"

definition frozen_gate :: "string list \<Rightarrow> (string \<times> check_result) list \<Rightarrow> (string \<times> check_result) list \<times> string list" where
  "frozen_gate frozen rs =
     (case dict_get rs ''test'' of
        Some t \<Rightarrow>
          if frozen \<noteq> [] \<and> check_status t \<in> {Passed, FailedCheck} then
            (let missing = verify_frozen_tests_collected (check_output t) frozen
             in if missing = [] then (rs, [])
                else (dict_set rs ''test''
                        (t\<lparr>check_status := FailedCheck, check_output := check_output t @ frozen_failure_text missing,
                           tests_uncollected := missing\<rparr>), missing))
          else (rs, [])
      | None \<Rightarrow> (rs, []))"

subsection \<open>Violations, blockers, closing\<close>

definition collect_violations :: "(string \<times> check_result) list \<Rightarrow> (string \<times> py) list list" where
  "collect_violations rs =
     concat (map (\<lambda>cat. case dict_get rs cat of
         None \<Rightarrow> []
       | Some r \<Rightarrow> map (\<lambda>f. if dict_get f ''category'' = None then dict_set f ''category'' (PStr cat) else f)
                       (check_failures r)) [''build'', ''test''])"

definition unauthorized_skips :: "(string \<times> check_result) list \<Rightarrow> string list" where
  "unauthorized_skips rs =
     map fst (filter (\<lambda>(_, r). check_status r = Skipped \<and> release_disposition r \<noteq> ''not_applicable'') rs)"

definition has_status :: "(string \<times> check_result) list \<Rightarrow> string \<Rightarrow> check_status \<Rightarrow> bool" where
  "has_status rs cat s \<longleftrightarrow> (case dict_get rs cat of None \<Rightarrow> False | Some r \<Rightarrow> check_status r = s)"

definition any_status :: "(string \<times> check_result) list \<Rightarrow> check_status \<Rightarrow> bool" where
  "any_status rs s \<longleftrightarrow> list_ex (\<lambda>(_, r). check_status r = s) rs"

definition all_skipped :: "(string \<times> check_result) list \<Rightarrow> bool" where
  "all_skipped rs \<longleftrightarrow> list_all (\<lambda>(_, r). check_status r = Skipped) rs"

definition may_close_delivery :: "plan \<Rightarrow> (string \<times> check_result) list \<Rightarrow> bool \<Rightarrow> bool" where
  "may_close_delivery p rs dry =
     (if dry then False
      else if all_skipped rs then False
      else if list_ex (\<lambda>cat. \<not> has_status rs cat Passed) REQUIRED_CLOSE_CATEGORIES then False
      else if unauthorized_skips rs \<noteq> [] then False
      else if list_ex (\<lambda>cat. (if cat = ''build'' then can_validate_build p else can_validate_tests p) \<and>
                 (has_status rs cat FailedCheck \<or> has_status rs cat Blocked)) CRITICAL_CATEGORIES then False
      else if any_status rs FailedCheck then False
      else if any_status rs Blocked then False
      else True)"

definition category_blocker :: "(string \<times> check_result) list \<Rightarrow> string \<Rightarrow> string list" where
  "category_blocker rs cat =
     (case dict_get rs cat of
        None \<Rightarrow> [cat @ '' check skipped: missing not-applicable evidence'']
      | Some r \<Rightarrow>
          (case check_status r of
             FailedCheck \<Rightarrow> [cat @ '' check failed'']
           | Blocked \<Rightarrow> [cat @ '' check blocked: '' @ check_output r]
           | Skipped \<Rightarrow>
               if release_disposition r \<noteq> ''not_applicable''
               then [cat @ '' check skipped: '' @
                     (if skip_reason r = [] then ''missing not-applicable evidence'' else skip_reason r)]
               else []
           | Passed \<Rightarrow> []))"

definition compute_blockers :: "(string \<times> check_result) list \<Rightarrow> bool \<Rightarrow> string list" where
  "compute_blockers rs dry =
     (if dry then [''Dry-run mode: validation was not executed''] else []) @
     concat (map (category_blocker rs) CATEGORIES) @
     concat (map (\<lambda>cat. if has_status rs cat Passed then [] else [cat @ '' check must pass before delivery can close''])
                 REQUIRED_CLOSE_CATEGORIES) @
     (if all_skipped rs then [''All checks were skipped; at least one must pass''] else [])"

subsection \<open>Running the plan\<close>

text \<open>\<open>run\<close> runs the commands of a category, \<open>diagnose\<close> parses the output of a failed one.\<close>

definition attach_diagnostics ::
  "(string \<Rightarrow> string \<Rightarrow> (string \<times> py) list list) \<Rightarrow> string \<Rightarrow> check_result \<Rightarrow> check_result" where
  "attach_diagnostics diagnose cat r =
     (let fs = (if cat = ''build'' \<or> cat = ''test'' then diagnose cat (check_output r) else [])
      in if fs = [] then r else r\<lparr>check_failures := fs\<rparr>)"

definition run_category ::
  "(string list \<Rightarrow> 'w \<Rightarrow> check_result \<times> 'w) \<Rightarrow> (string \<Rightarrow> string \<Rightarrow> (string \<times> py) list list) \<Rightarrow> plan \<Rightarrow> bool
     \<Rightarrow> string \<Rightarrow> 'w \<Rightarrow> check_result \<times> 'w" where
  "run_category run diagnose p dry cat w =
     (let cmds = (case dict_get (plan_commands p) cat of None \<Rightarrow> [] | Some cs \<Rightarrow> cs) in
      if cmds = [] then (skipped_result cat, w)
      else if dry then (dry_run_skipped_result, w)
      else
        (let (r, w) = run cmds w
         in (if plan_profile p \<in> set JS_DIAGNOSTIC_PROFILES \<and> check_status r = FailedCheck
             then attach_diagnostics diagnose cat r else r, w)))"

fun run_categories ::
  "(string list \<Rightarrow> 'w \<Rightarrow> check_result \<times> 'w) \<Rightarrow> (string \<Rightarrow> string \<Rightarrow> (string \<times> py) list list) \<Rightarrow> plan \<Rightarrow> bool
     \<Rightarrow> string list \<Rightarrow> 'w \<Rightarrow> (string \<times> check_result) list \<times> 'w" where
  "run_categories run diagnose p dry [] w = ([], w)"
| "run_categories run diagnose p dry (cat # cats) w =
     (let (r, w) = run_category run diagnose p dry cat w; (rs, w) = run_categories run diagnose p dry cats w
      in ((cat, r) # rs, w))"

definition run_validation ::
  "(string list \<Rightarrow> 'w \<Rightarrow> check_result \<times> 'w) \<Rightarrow> (string \<Rightarrow> string \<Rightarrow> (string \<times> py) list list) \<Rightarrow> plan \<Rightarrow> bool
     \<Rightarrow> string list \<Rightarrow> 'w \<Rightarrow> validation_result \<times> 'w" where
  "run_validation run diagnose p dry frozen w =
     (let (rs, w) = run_categories run diagnose p dry CATEGORIES w;
          (rs, missing) = (if dry then (rs, []) else frozen_gate frozen rs)
      in (\<lparr>dry_run = dry, check_results = rs, can_close_delivery = may_close_delivery p rs dry,
           blockers = compute_blockers rs dry, violations = collect_violations rs,
           frozen_tests_uncollected = missing\<rparr>, w))"

subsection \<open>The closure assessment\<close>

datatype closure_level = NotStarted | BlockedLevel | Partial | Verified | Ready

record closure =
  closeable :: bool
  level :: closure_level
  closure_blockers :: "string list"

definition check_product_closure :: "validation_result option \<Rightarrow> closure" where
  "check_product_closure result =
     (case result of
        None \<Rightarrow> \<lparr>closeable = False, level = NotStarted, closure_blockers = [''No validation has been run'']\<rparr>
      | Some v \<Rightarrow>
          (let rs = check_results v; bs = blockers v;
               missing = filter (\<lambda>cat. \<not> has_status rs cat Passed) REQUIRED_CLOSE_CATEGORIES in
           if any_status rs Blocked then \<lparr>closeable = False, level = BlockedLevel, closure_blockers = bs\<rparr>
           else if any_status rs FailedCheck then \<lparr>closeable = False, level = Partial, closure_blockers = bs\<rparr>
           else if all_skipped rs then
             \<lparr>closeable = False, level = Partial,
              closure_blockers = (if bs = [] then [''All checks were skipped; at least one must pass''] else bs)\<rparr>
           else if missing \<noteq> [] \<or> unauthorized_skips rs \<noteq> [] then
             \<lparr>closeable = False, level = Partial,
              closure_blockers =
                (if bs = [] then map (\<lambda>cat. cat @ '' check must pass before delivery can close'') missing @
                   map (\<lambda>cat. cat @ '' check skipped without not-applicable evidence'') (unauthorized_skips rs)
                 else bs)\<rparr>
           else if dry_run v then \<lparr>closeable = False, level = Verified, closure_blockers = bs\<rparr>
           else \<lparr>closeable = True, level = Ready, closure_blockers = []\<rparr>))"

subsection \<open>The delimiter scan\<close>

datatype scan_mode = Code | LineComment | BlockComment | InString char

record scan_state =
  paren :: int
  brace :: int
  bracket :: int
  scan_mode :: scan_mode
  templ_stack :: "int list"

definition scan_code :: "char \<Rightarrow> scan_state \<Rightarrow> scan_state" where
  "scan_code c s =
     (if c \<in> {CHR 0x27, CHR 0x22, CHR 0x60} then s\<lparr>scan_mode := InString c\<rparr>
      else if c = CHR ''('' then s\<lparr>paren := paren s + 1\<rparr>
      else if c = CHR '')'' then s\<lparr>paren := paren s - 1\<rparr>
      else if c = CHR ''['' then s\<lparr>bracket := bracket s + 1\<rparr>
      else if c = CHR '']'' then s\<lparr>bracket := bracket s - 1\<rparr>
      else if c = CHR ''{'' then s\<lparr>brace := brace s + 1\<rparr>
      else if c = CHR ''}'' then
        (let s = s\<lparr>brace := brace s - 1\<rparr> in
         case templ_stack s of
           t # ts \<Rightarrow> if brace s = t then s\<lparr>templ_stack := ts, scan_mode := InString (CHR 0x60)\<rparr> else s
         | [] \<Rightarrow> s)
      else s)"

fun scan :: "scan_state \<Rightarrow> string \<Rightarrow> scan_state" where
  "scan s [] = s"
| "scan s (c # cs) =
     (case scan_mode s of
        LineComment \<Rightarrow> scan (if c = CHR 0x0A then s\<lparr>scan_mode := Code\<rparr> else s) cs
      | BlockComment \<Rightarrow>
          if c = CHR ''*'' \<and> startswith cs [CHR ''/''] then scan (s\<lparr>scan_mode := Code\<rparr>) (tl cs) else scan s cs
      | InString q \<Rightarrow>
          if c = CHR 0x5C then scan s (tl cs)
          else if c = q then scan (s\<lparr>scan_mode := Code\<rparr>) cs
          else if q = CHR 0x60 \<and> c = CHR ''$'' \<and> startswith cs [CHR ''{''] then
            scan (s\<lparr>templ_stack := brace s # templ_stack s, brace := brace s + 1, scan_mode := Code\<rparr>) (tl cs)
          else scan s cs
      | Code \<Rightarrow>
          if c = CHR ''/'' \<and> startswith cs [CHR ''/''] then scan (s\<lparr>scan_mode := LineComment\<rparr>) (tl cs)
          else if c = CHR ''/'' \<and> startswith cs [CHR ''*''] then scan (s\<lparr>scan_mode := BlockComment\<rparr>) (tl cs)
          else scan (scan_code c s) cs)"

definition count_problem :: "int \<Rightarrow> string \<Rightarrow> string \<Rightarrow> string \<Rightarrow> string list" where
  "count_problem n opener closer note =
     (if 0 < n then [int_str n @ '' unclosed '' @ [CHR 0x27] @ opener @ [CHR 0x27] @ note]
      else if n < 0 then
        [int_str (- n) @ '' extra '' @ [CHR 0x27] @ closer @ [CHR 0x27] @ '' with no matching '' @ [CHR 0x27] @ opener @ [CHR 0x27]]
      else [])"

definition paren_note :: string where
  "paren_note = '' -- a call is likely closed with the wrong delimiter (e.g. a `describe(...)`/`it(...)`/`expect(...)` closed with `}` instead of `});`)''"

record balance_report =
  balanced :: bool
  rep_paren :: int
  rep_brace :: int
  rep_bracket :: int
  hint :: string

definition start_scan :: scan_state where
  "start_scan = \<lparr>paren = 0, brace = 0, bracket = 0, scan_mode = Code, templ_stack = []\<rparr>"

definition in_string :: "scan_mode \<Rightarrow> bool" where
  "in_string m \<longleftrightarrow> (case m of InString _ \<Rightarrow> True | _ \<Rightarrow> False)"

definition analyze_delimiter_balance :: "string \<Rightarrow> balance_report" where
  "analyze_delimiter_balance src =
     (let s = scan start_scan src in
      \<lparr>balanced = (paren s = 0 \<and> brace s = 0 \<and> bracket s = 0 \<and> templ_stack s = [] \<and>
                   scan_mode s \<noteq> BlockComment \<and> \<not> in_string (scan_mode s)),
       rep_paren = paren s, rep_brace = brace s, rep_bracket = bracket s,
       hint = join ''; ''
         (count_problem (paren s) ''('' '')'' paren_note @ count_problem (brace s) ''{'' ''}'' [] @
          count_problem (bracket s) ''['' '']'' [] @
          (if in_string (scan_mode s) then [''an unterminated string/template literal''] else []) @
          (if scan_mode s = BlockComment then [''an unterminated /* block comment''] else []))\<rparr>)"

subsection \<open>When a delivery may close\<close>

lemma run_categories_keys: "run_categories run diagnose p dry cats w = (rs, w') \<Longrightarrow> map fst rs = cats"
  by (induction cats arbitrary: w rs) (auto split: prod.splits)

lemma dict_set_keys: "dict_get d k \<noteq> None \<Longrightarrow> map fst (dict_set d k v) = map fst d"
  by (induction d k v rule: dict_set.induct) (auto simp: dict_get_def)

lemma frozen_gate_keys: "frozen_gate frozen rs = (rs', missing) \<Longrightarrow> map fst rs' = map fst rs"
  by (auto simp: frozen_gate_def Let_def dict_set_keys split: option.splits if_splits)

lemma run_keys:
  assumes "run_validation run diagnose p dry frozen w = (v, w')"
  shows "map fst (check_results v) = CATEGORIES" and "dry_run v = dry"
    and "blockers v = compute_blockers (check_results v) dry"
    and "can_close_delivery v = may_close_delivery p (check_results v) dry"
  using assms
  by (auto simp: run_validation_def Let_def split: prod.splits if_splits
      dest!: run_categories_keys frozen_gate_keys)

lemma categories_distinct: "distinct CATEGORIES"
  by (simp add: CATEGORIES_def)

text \<open>Reading the results by category is reading their list.\<close>

lemma result_rows:
  assumes "map fst rs = CATEGORIES"
  shows "(cat, r) \<in> set rs \<longleftrightarrow> cat \<in> set CATEGORIES \<and> dict_get rs cat = Some r"
proof -
  have "distinct (map fst rs)" using assms categories_distinct by simp
  moreover have "cat \<in> set CATEGORIES" if "(cat, r) \<in> set rs" using that assms by (metis fst_conv image_eqI list.set_map)
  ultimately show ?thesis by (auto simp: dict_get_def)
qed

lemma skipped_row: "all_skipped rs \<Longrightarrow> dict_get rs cat = Some r \<Longrightarrow> check_status r = Skipped"
  by (auto simp: all_skipped_def list_all_iff dict_get_def dest!: map_of_SomeD)

definition clear_row :: "string \<Rightarrow> check_result \<Rightarrow> bool" where
  "clear_row cat r \<longleftrightarrow>
     check_status r = Passed \<or>
     (check_status r = Skipped \<and> release_disposition r = ''not_applicable'' \<and> cat \<notin> set REQUIRED_CLOSE_CATEGORIES)"

lemma required_categories: "REQUIRED_CLOSE_CATEGORIES = [''build'', ''test'']" "set REQUIRED_CLOSE_CATEGORIES \<subseteq> set CATEGORIES"
  by (simp_all add: REQUIRED_CLOSE_CATEGORIES_def CATEGORIES_def)

lemma no_blockers:
  assumes "map fst rs = CATEGORIES"
  shows "compute_blockers rs False = [] \<longleftrightarrow> (\<forall>(cat, r) \<in> set rs. clear_row cat r)"
proof -
  have row: "category_blocker rs cat = [] \<longleftrightarrow> check_status r = Passed \<or>
      (check_status r = Skipped \<and> release_disposition r = ''not_applicable'')" if "dict_get rs cat = Some r" for cat r
    using that by (cases "check_status r") (simp_all add: category_blocker_def)
  have some: "\<exists>r. dict_get rs cat = Some r" if "cat \<in> set CATEGORIES" for cat
    using that assms by (metis dict_get_def map_of_eq_None_iff not_None_eq list.set_map)
  obtain rb rt where r: "dict_get rs ''build'' = Some rb" "dict_get rs ''test'' = Some rt"
    using some [of "''build''"] some [of "''test''"] by (auto simp: CATEGORIES_def)
  have "all_skipped rs \<Longrightarrow> check_status rb = Skipped" using r(1) by (rule skipped_row [rotated])
  with r have "compute_blockers rs False = [] \<longleftrightarrow>
      (\<forall>cat \<in> set CATEGORIES. category_blocker rs cat = []) \<and> check_status rb = Passed \<and> check_status rt = Passed"
    by (auto simp: compute_blockers_def has_status_def required_categories(1))
  also have "\<dots> \<longleftrightarrow> (\<forall>(cat, r) \<in> set rs. clear_row cat r)"
  proof (intro iffI ballI)
    fix e
    assume l: "(\<forall>cat \<in> set CATEGORIES. category_blocker rs cat = []) \<and> check_status rb = Passed \<and> check_status rt = Passed"
      and e: "e \<in> set rs"
    obtain cat x where ex: "e = (cat, x)" by fastforce
    with e have x: "cat \<in> set CATEGORIES" "dict_get rs cat = Some x" by (simp_all add: result_rows [OF assms])
    have "clear_row cat x"
    proof (cases "cat \<in> set REQUIRED_CLOSE_CATEGORIES")
      case True
      with x r l show ?thesis by (auto simp: clear_row_def required_categories(1))
    next
      case False
      with x row [OF x(2)] l show ?thesis by (simp add: clear_row_def)
    qed
    with ex show "case e of (cat, r) \<Rightarrow> clear_row cat r" by simp
  next
    assume c: "\<forall>(cat, r) \<in> set rs. clear_row cat r"
    have "category_blocker rs cat = []" if "cat \<in> set CATEGORIES" for cat
    proof -
      from some [OF that] obtain x where x: "dict_get rs cat = Some x" by blast
      with that c have "clear_row cat x" by (auto simp: result_rows [OF assms])
      with row [OF x] show ?thesis by (auto simp: clear_row_def)
    qed
    moreover have "clear_row ''build'' rb" "clear_row ''test'' rt"
      using c r by (auto simp: result_rows [OF assms] CATEGORIES_def)
    ultimately show "(\<forall>cat \<in> set CATEGORIES. category_blocker rs cat = []) \<and> check_status rb = Passed \<and> check_status rt = Passed"
      by (auto simp: clear_row_def required_categories(1))
  qed
  finally show ?thesis .
qed

lemma may_close:
  assumes "map fst rs = CATEGORIES"
  shows "may_close_delivery p rs False \<longleftrightarrow> (\<forall>(cat, r) \<in> set rs. clear_row cat r)"
proof
  assume "may_close_delivery p rs False"
  then have c: "has_status rs ''build'' Passed" "has_status rs ''test'' Passed" "unauthorized_skips rs = []"
      "\<not> any_status rs FailedCheck" "\<not> any_status rs Blocked"
    by (auto simp: may_close_delivery_def required_categories(1) split: if_splits)
  show "\<forall>(cat, r) \<in> set rs. clear_row cat r"
  proof clarify
    fix cat r
    assume r: "(cat, r) \<in> set rs"
    with c result_rows [OF assms] show "clear_row cat r"
      by (cases "check_status r")
        (fastforce simp: clear_row_def any_status_def list_ex_iff unauthorized_skips_def filter_empty_conv has_status_def
          required_categories(1))+
  qed
next
  assume c: "\<forall>(cat, r) \<in> set rs. clear_row cat r"
  have passed: "has_status rs cat Passed" if "cat \<in> set REQUIRED_CLOSE_CATEGORIES" for cat
  proof -
    from that required_categories(2) assms obtain r where r: "(cat, r) \<in> set rs"
      by (metis (no_types, lifting) imageE list.set_map prod.collapse subsetD)
    with c that have "check_status r = Passed" by (auto simp: clear_row_def)
    with r show ?thesis by (simp add: has_status_def result_rows [OF assms])
  qed
  have "has_status rs ''build'' Passed" "has_status rs ''test'' Passed"
    by (rule passed, simp add: required_categories(1))+
  moreover from this have "\<not> all_skipped rs"
    by (auto simp: has_status_def split: option.splits dest: skipped_row)
  ultimately show "may_close_delivery p rs False"
    using c by (fastforce simp: may_close_delivery_def required_categories(1) CRITICAL_CATEGORIES_def has_status_def
        unauthorized_skips_def filter_empty_conv any_status_def list_ex_iff clear_row_def split: option.splits)
qed

text \<open>The validation of a product reports no blocker exactly when the delivery may close, and the closure
  assessment of the same result says the same; and then every category passed, or is skipped with a reason that
  does not concern this stack, the build and the tests among those that passed.\<close>

theorem closes_iff_no_blockers:
  assumes "run_validation run diagnose p False frozen w = (v, w')"
  shows "(can_close_delivery v \<longleftrightarrow> blockers v = []) \<and> (closeable (check_product_closure (Some v)) \<longleftrightarrow> blockers v = []) \<and>
    (blockers v = [] \<longleftrightarrow> (\<forall>(cat, r) \<in> set (check_results v). clear_row cat r))"
proof -
  note k = run_keys [OF assms]
  have "closeable (check_product_closure (Some v)) \<longleftrightarrow> may_close_delivery p (check_results v) False"
    using k(2) by (auto simp: check_product_closure_def may_close_delivery_def required_categories(1)
        CRITICAL_CATEGORIES_def Let_def any_status_def list_ex_iff has_status_def dict_get_def
        split: option.splits dest!: map_of_SomeD)
  with k may_close [OF k(1), of p] no_blockers [OF k(1)] show ?thesis by simp
qed

definition demo_validation_plan :: plan where
  "demo_validation_plan =
     \<lparr>plan_profile = ''react-vite'', plan_commands = [(''build'', [''b'']), (''test'', [''t''])],
      can_validate_build = True, can_validate_tests = True\<rparr>"

definition demo_check :: "string list \<Rightarrow> nat \<Rightarrow> check_result \<times> nat" where
  "demo_check cmds w =
     ((skipped_with ''a/x.test.ts ok'' [] [] [])\<lparr>check_status := Passed\<rparr>, w)"

lemma demo_validates:
  "blockers (fst (run_validation demo_check (\<lambda>c s. []) demo_validation_plan False [''x.test.ts''] 0)) = []"
  by code_simp

lemma demo_closes:
  "can_close_delivery (fst (run_validation demo_check (\<lambda>c s. []) demo_validation_plan False [''x.test.ts''] 0))"
  by code_simp

theorem closes_iff_no_blockers_witness:
  "can_close_delivery (fst (run_validation demo_check (\<lambda>c s. []) demo_validation_plan False [''x.test.ts''] 0))"
proof -
  obtain v w where v: "run_validation demo_check (\<lambda>c s. []) demo_validation_plan False [''x.test.ts''] 0 = (v, w)"
    by fastforce
  with closes_iff_no_blockers [OF v] demo_validates show ?thesis by simp
qed

lemma frozen_gate_passed:
  assumes "frozen_gate frozen rs = (rs', missing)" and "dict_get rs' ''test'' = Some r"
    and "check_status r = Passed" and "frozen \<noteq> []"
  shows "verify_frozen_tests_collected (check_output r) frozen = []"
proof (cases "dict_get rs ''test''")
  case None
  with assms show ?thesis by (auto simp: frozen_gate_def Let_def split: if_splits)
next
  case (Some x)
  show ?thesis
  proof (rule ccontr)
    assume "\<not> ?thesis"
    with Some assms show False
      by (auto simp: frozen_gate_def Let_def dict_get_set split: if_splits)
  qed
qed

text \<open>C8: a validation that lets the delivery close ran the exam: for every frozen acceptance test its path, or
  its file name, stands in the output of the test command that passed.\<close>

theorem closed_means_frozen_tests_ran:
  assumes "run_validation run diagnose p False frozen w = (v, w')" and "can_close_delivery v"
    and "entry \<in> set frozen" and "strip (replace_char (CHR 0x5C) (CHR ''/'') entry) \<noteq> []"
  shows "\<exists>r. dict_get (check_results v) ''test'' = Some r \<and> check_status r = Passed \<and>
    collected (replace_char (CHR 0x5C) (CHR ''/'') (strip_ansi (check_output r)))
      (strip (replace_char (CHR 0x5C) (CHR ''/'') entry))"
proof -
  have c: "may_close_delivery p (check_results v) False" using run_keys(4) [OF assms(1)] assms(2) by simp
  then have "has_status (check_results v) ''test'' Passed"
    by (auto simp: may_close_delivery_def required_categories(1) split: if_splits)
  then obtain r where r: "dict_get (check_results v) ''test'' = Some r" "check_status r = Passed"
    by (auto simp: has_status_def split: option.splits)
  from assms(1) obtain rs missing where g: "frozen_gate frozen rs = (check_results v, missing)"
    by (auto simp: run_validation_def Let_def split: prod.splits)
  from assms(3) have "verify_frozen_tests_collected (check_output r) frozen = []"
    by (intro frozen_gate_passed [OF g r]) auto
  with assms(3,4) r show ?thesis
    by (auto simp: verify_frozen_tests_collected_def Let_def filter_empty_conv)
qed

theorem closed_means_frozen_tests_ran_witness:
  "\<exists>r. dict_get (check_results (fst (run_validation demo_check (\<lambda>c s. []) demo_validation_plan False [''x.test.ts''] 0)))
     ''test'' = Some r \<and> check_status r = Passed"
proof -
  obtain v w where v: "run_validation demo_check (\<lambda>c s. []) demo_validation_plan False [''x.test.ts''] 0 = (v, w)"
    by fastforce
  have "can_close_delivery v" using demo_closes v by simp
  moreover have "strip (replace_char (CHR 0x5C) (CHR ''/'') ''x.test.ts'') \<noteq> []" by code_simp
  ultimately show ?thesis using closed_means_frozen_tests_ran [OF v] v by auto
qed

subsection \<open>What the delimiter scan counts\<close>

definition plain_code :: "char \<Rightarrow> bool" where
  "plain_code c \<longleftrightarrow> c \<notin> {CHR 0x27, CHR 0x22, CHR 0x60, CHR ''/''}"

definition net :: "char \<Rightarrow> char \<Rightarrow> string \<Rightarrow> int" where
  "net a b s = int (length (filter (\<lambda>c. c = a) s)) - int (length (filter (\<lambda>c. c = b) s))"

lemma scan_plain:
  "list_all plain_code cs \<Longrightarrow> scan_mode s = Code \<Longrightarrow> templ_stack s = [] \<Longrightarrow>
   scan s cs = s\<lparr>paren := paren s + net (CHR ''('') (CHR '')'') cs, brace := brace s + net (CHR ''{'') (CHR ''}'') cs,
                 bracket := bracket s + net (CHR ''['') (CHR '']'') cs\<rparr>"
proof (induction cs arbitrary: s)
  case Nil
  then show ?case by (simp add: net_def)
next
  case (Cons c cs)
  then have c: "plain_code c" by simp
  have "scan_mode (scan_code c s) = Code" "templ_stack (scan_code c s) = []"
    using Cons.prems c by (auto simp: scan_code_def plain_code_def Let_def)
  with Cons have "scan s (c # cs) = (scan_code c s)\<lparr>paren := paren (scan_code c s) + net (CHR ''('') (CHR '')'') cs,
      brace := brace (scan_code c s) + net (CHR ''{'') (CHR ''}'') cs,
      bracket := bracket (scan_code c s) + net (CHR ''['') (CHR '']'') cs\<rparr>"
    by (auto simp: plain_code_def)
  with c Cons.prems(2,3) show ?case
    by (auto simp: scan_code_def plain_code_def net_def Let_def)
qed

text \<open>On source text without quotes and slashes the delimiter scan is the counting of delimiters: the report
  holds the difference of openers and closers of each kind, and says balanced exactly when the three are zero.
  The order of the delimiters plays no part.\<close>

theorem balance_counts_delimiters:
  assumes "list_all plain_code src"
  shows "let r = analyze_delimiter_balance src in
    rep_paren r = net (CHR ''('') (CHR '')'') src \<and> rep_brace r = net (CHR ''{'') (CHR ''}'') src \<and>
    rep_bracket r = net (CHR ''['') (CHR '']'') src \<and>
    (balanced r \<longleftrightarrow> rep_paren r = 0 \<and> rep_brace r = 0 \<and> rep_bracket r = 0)"
  using assms
  by (simp add: analyze_delimiter_balance_def Let_def scan_plain start_scan_def in_string_def)

theorem balance_counts_delimiters_witness:
  "rep_paren (analyze_delimiter_balance ''it(() => { x }'') = 1"
proof -
  have "list_all plain_code ''it(() => { x }''" by code_simp
  from balance_counts_delimiters [OF this] show ?thesis by (simp add: Let_def net_def)
qed

text \<open>Order apart, a template that is not closed can be reported as unbalanced with no hint to go on.\<close>

lemma unbalanced_without_hint:
  "\<not> balanced (analyze_delimiter_balance (CHR ''}'' # CHR 0x60 # ''${'')) \<and>
   hint (analyze_delimiter_balance (CHR ''}'' # CHR 0x60 # ''${'')) = []"
  by code_simp

end
