(* ===== verification/AgentLoop.thy ===== *)
theory AgentLoop
  imports AgentTools Validation
begin

section \<open>The governed tool loop (\<open>AgentLoop.run\<close> of \<open>product/agent_loop.py\<close>)\<close>

text \<open>
  One seat of a model: the conversation with the provider, the tool calls it asks for, each
  governed, executed and written to the ledger, and the ways a run ends; then what a run leaves
  behind. The provider is a parameter. Events for the user interface and failures to write the state
  of the run are left out.
\<close>

subsection \<open>Dispatch: govern, execute, audit\<close>

text \<open>A failed append ends the dispatch with the exception, except after a tool that ran.\<close>

definition audited :: "string option \<times> 'w seat \<Rightarrow> tool_exn + string \<Rightarrow> (tool_exn + string) \<times> 'w seat" where
  "audited a r = (case a of (Some e, s) \<Rightarrow> (Inl (Broke e), s) | (None, s) \<Rightarrow> (r, s))"

definition idempotent_skip :: "'w runtime \<Rightarrow> string \<Rightarrow> (string \<times> py) list \<Rightarrow> string option \<Rightarrow> 'w seat \<Rightarrow> bool" where
  "idempotent_skip x name args sha s \<longleftrightarrow>
     name = ''write_file'' \<and> sha \<noteq> None \<and>
     (case resolve_in_workspace (host_of x (site s)) (get_str args ''path'') of
        None \<Rightarrow> False
      | Some target \<Rightarrow>
          (case site_files (site s) target of
             None \<Rightarrow> False
           | Some b \<Rightarrow> (case text_of x b of None \<Rightarrow> False | Some t \<Rightarrow> Some (sha256 x t) = sha)))"

definition run_governed ::
  "'w runtime \<Rightarrow> seat_config \<Rightarrow> enforcement_state \<Rightarrow> tool_call \<Rightarrow> (string \<times> py) list \<Rightarrow> string option \<Rightarrow> 'w seat
     \<Rightarrow> (tool_exn + string) \<times> 'w seat" where
  "run_governed x c enf tc args sha s =
     (if idempotent_skip x (tc_name tc) args sha s then
        audited (audit x tc ''skipped-idempotent'' ''content already present'' sha None s)
          (Inr (''OK (idempotent): '' @ get_str args ''path'' @ '' already has this content.''))
      else
        (case execute_tool x c enf (tc_name tc) args s of
           (Inl (Unavailable m), s) \<Rightarrow> audited (audit x tc ''error'' m sha None s) (Inl (Unavailable m))
         | (Inl (Denied reason rule), s) \<Rightarrow> audited (audit x tc ''denied'' reason sha rule s) (Inr (''DENIED: '' @ reason))
         | (Inl (Broke m), s) \<Rightarrow> audited (audit x tc ''error'' m sha None s) (Inr (''ERROR: '' @ m))
         | (Inr txt, s) \<Rightarrow>
             (case audit x tc ''completed'' ''ok'' sha None s of
                (None, s) \<Rightarrow> (Inr txt, s)
              | (Some e, s) \<Rightarrow>
                  if rule_enabled enf ''audit-append''
                  then (Inr (''ERROR: audit-append failed: '' @ e @ '' (rule audit-append)''), s)
                  else (Inl (Broke e), s))))"

text \<open>A check of a write asks for the signed artifacts when the guards before that one let it pass.\<close>

definition asks_signed :: "host \<Rightarrow> enforcement_state \<Rightarrow> agent_ctx \<Rightarrow> string \<Rightarrow> (string \<times> py) list \<Rightarrow> bool" where
  "asks_signed h enf ctx name args \<longleftrightarrow>
     name \<in> {''write_file'', ''edit_file''} \<and> strip (get_str args ''path'') \<noteq> [] \<and>
     (case gov_all [freeze_check enf name] of Inl _ \<Rightarrow> False | Inr _ \<Rightarrow> True) \<and>
     (case workspace_relative h (strip (get_str args ''path'')) of
        None \<Rightarrow> False
      | Some rel \<Rightarrow> rel \<noteq> [] \<and> dependency_check h rel = Inr [] \<and> spec_check ctx rel = Inr [])"

definition dispatch_tool ::
  "'w runtime \<Rightarrow> seat_config \<Rightarrow> enforcement_state \<Rightarrow> tool_call \<Rightarrow> 'w seat \<Rightarrow> (tool_exn + string) \<times> 'w seat" where
  "dispatch_tool x c enf tc s =
     (let args = normal_args (loads_args x) (tc_args tc);
          sha = map_option (sha256 x) (content_for_hash (tc_name tc) args)
      in if dict_get args ''__parse_error__'' \<noteq> None then
           audited (audit x tc ''denied'' (get_str args ''__parse_error__'') sha (Some ''arg-parse'') s)
             (Inr (''ERROR: '' @ get_str args ''__parse_error__''))
         else
           (let h = host_of x (site s); ctx = seat_ctx x c s;
                s = (if asks_signed h enf ctx (tc_name tc) args then read_signed x c s else s)
            in case check_governance h enf ctx (tc_name tc) args of
                 Inl (ToolPolicyError reason rule) \<Rightarrow>
                   audited (audit x tc ''denied'' reason sha rule s) (Inr (''DENIED: '' @ reason))
               | Inl Crash \<Rightarrow> (Inl (Broke ''governance check failed''), s)
               | Inr warned \<Rightarrow> run_governed x c enf tc args sha s))"

subsection \<open>Progress of a build seat\<close>

fun numbers_to_N :: "bool \<Rightarrow> string \<Rightarrow> string" where
  "numbers_to_N inside [] = []"
| "numbers_to_N inside (c # cs) =
     (if is_digit c then (if inside then numbers_to_N True cs else CHR ''N'' # numbers_to_N True cs)
      else c # numbers_to_N False cs)"

definition collapse_ws :: "string \<Rightarrow> string" where
  "collapse_ws s = strip (squeeze_ws False s)"

definition normalize_observation :: "string \<Rightarrow> string" where
  "normalize_observation s = collapse_ws (numbers_to_N False (strip_ansi s))"

definition observation_signature :: "'w runtime \<Rightarrow> tool_call \<Rightarrow> string \<Rightarrow> string option" where
  "observation_signature x tc result =
     (let args = call_dict tc; name = tc_name tc;
          sig = (\<lambda>key seen. Some (sha256 x (name @ CHR 0x00 # key @ CHR 0x00 # seen)))
      in if name = ''read_file'' \<or> name = ''list_directory'' then sig (get_str args ''path'') result
         else if name = ''search_files'' then sig (get_str args ''pattern'') result
         else if name = ''run_command'' then sig (collapse_ws (get_str args ''command'')) (normalize_observation result)
         else None)"

definition record_build_progress ::
  "'w runtime \<Rightarrow> seat_config \<Rightarrow> tool_call \<Rightarrow> string \<Rightarrow> nat \<Rightarrow> 'w seat \<Rightarrow> bool \<times> 'w seat" where
  "record_build_progress x c tc result prior s =
     (let sig = observation_signature x tc result;
          new_info = (case sig of None \<Rightarrow> False | Some g \<Rightarrow> g \<notin> observed_sigs s);
          s = (case sig of None \<Rightarrow> s | Some g \<Rightarrow> s\<lparr>observed_sigs := insert g (observed_sigs s)\<rparr>);
          cmd = collapse_ws (get_str (call_dict tc) ''command'');
          is_cmd = (tc_name tc = ''run_command'');
          s = (if prior < mutation_seq s \<or> new_info then s\<lparr>no_progress_streak := 0, repeat_cmd_streak := 0\<rparr>
               else
                 s\<lparr>no_progress_streak := no_progress_streak s + 1,
                   repeat_cmd_streak :=
                     (if \<not> is_cmd then repeat_cmd_streak s
                      else if cmd \<noteq> [] \<and> last_cmd_sig s = Some cmd then repeat_cmd_streak s + 1 else 0)\<rparr>);
          s = (if is_cmd then s\<lparr>last_cmd_sig := Some cmd\<rparr> else s)
      in (stall_window c \<le> int (no_progress_streak s) \<or> repeat_cmd_limit c \<le> int (repeat_cmd_streak s), s))"

subsection \<open>One turn\<close>

record loop_vars =
  msgs :: "message list"
  last_text :: "string option"
  reprompts_used :: nat
  continues_used :: nat
  escalate_next :: bool

definition persist_state :: "string \<Rightarrow> message list \<Rightarrow> 'w seat \<Rightarrow> 'w seat" where
  "persist_state status ms s =
     s\<lparr>saved := Some \<lparr>saved_status = status, saved_calls = tool_calls_made s, saved_messages = ms\<rparr>\<rparr>"

text \<open>\<open>_finalize\<close> stamps the flags that depend on the whole run.\<close>

definition result_of ::
  "string \<Rightarrow> loop_vars \<Rightarrow> string option \<Rightarrow> bool \<Rightarrow> string option \<Rightarrow> 'w seat \<Rightarrow> loop_result" where
  "result_of status v err text_only failure s =
     \<lparr>res_status = status, res_text = last_text v, res_calls = tool_calls_made s, res_messages = msgs v,
      res_error = err, res_text_only = text_only, res_wrote_no_files = False,
      res_tokens_in = None, res_tokens_out = None, res_failure = failure\<rparr>"

datatype step = Again loop_vars | Over loop_result

definition stop_run ::
  "string \<Rightarrow> loop_vars \<Rightarrow> string option \<Rightarrow> bool \<Rightarrow> string option \<Rightarrow> 'w seat \<Rightarrow> step \<times> 'w seat" where
  "stop_run status v err text_only failure s =
     (Over (result_of status v err text_only failure s), persist_state status (msgs v) s)"

definition budget_error :: "seat_config \<Rightarrow> string" where
  "budget_error c = ''agent loop tool-call budget ('' @ int_str (tool_call_limit c) @ '') exhausted''"

definition stall_error :: string where
  "stall_error = ''build seat stopped changing state / surfacing new information across the stall window; ending the turn (the objective on-disk test gate decides the task)''"

definition add_usage :: "int option \<Rightarrow> int option \<Rightarrow> int option" where
  "add_usage acc n = (case n of None \<Rightarrow> acc | Some k \<Rightarrow> Some (case acc of None \<Rightarrow> k | Some a \<Rightarrow> a + k))"

definition track_usage :: "response \<Rightarrow> 'w seat \<Rightarrow> 'w seat" where
  "track_usage r s =
     (case usage r of
        None \<Rightarrow> s
      | Some (i, n) \<Rightarrow> s\<lparr>tokens_in := add_usage (tokens_in s) i, tokens_out := add_usage (tokens_out s) n\<rparr>)"

definition call_provider :: "'w runtime \<Rightarrow> bool \<Rightarrow> message list \<Rightarrow> 'w seat \<Rightarrow> (string + response) \<times> 'w seat" where
  "call_provider x forced ms s =
     (let (r, w) = chat x forced ms (site_rest (site s));
          s = s\<lparr>site := (site s)\<lparr>site_rest := w\<rparr>\<rparr>
      in (r, case r of Inl _ \<Rightarrow> s | Inr resp \<Rightarrow> track_usage resp s))"

text \<open>A turn after a reprompt forces a tool call first, and falls back when the provider refuses that.\<close>

definition ask :: "'w runtime \<Rightarrow> bool \<Rightarrow> message list \<Rightarrow> 'w seat \<Rightarrow> (string + response) \<times> 'w seat" where
  "ask x forced ms s =
     (if forced then
        (case call_provider x True ms s of
           (Inr r, s) \<Rightarrow> (Inr r, s)
         | (Inl _, s) \<Rightarrow> call_provider x False ms s)
      else call_provider x False ms s)"

fun run_calls ::
  "'w runtime \<Rightarrow> seat_config \<Rightarrow> enforcement_state \<Rightarrow> loop_vars \<Rightarrow> tool_call list \<Rightarrow> 'w seat
     \<Rightarrow> string + step \<times> 'w seat" where
  "run_calls x c enf v [] s = Inr (Again v, persist_state ''running'' (msgs v) s)"
| "run_calls x c enf v (tc # tcs) s =
     (if tool_call_limit c \<le> int (tool_calls_made s)
      then Inr (stop_run ''budget_exhausted'' v (Some (budget_error c)) False None s)
      else
        (case dispatch_tool x c enf tc (s\<lparr>tool_calls_made := tool_calls_made s + 1\<rparr>) of
           (Inl (Unavailable m), s) \<Rightarrow>
             Inr (stop_run ''error'' v (Some (''Required sandbox unavailable: '' @ m)) False (Some ''sandbox-unavailable'') s)
         | (Inl e, s) \<Rightarrow> Inl (case e of Broke m \<Rightarrow> m | Denied m _ \<Rightarrow> m | Unavailable m \<Rightarrow> m)
         | (Inr txt, s') \<Rightarrow>
             (let v = v\<lparr>msgs := msgs v @ [ToolResult (tc_id tc) (tc_name tc) txt]\<rparr>;
                  (stalled, s') = (if build_seat c then record_build_progress x c tc txt (mutation_seq s) s' else (False, s'))
              in if stalled then Inr (stop_run ''stalled_no_progress'' v (Some stall_error) False None s')
                 else run_calls x c enf v tcs s')))"

definition valid_calls :: "response \<Rightarrow> tool_call list" where
  "valid_calls r = filter (\<lambda>tc. tool_call_defect tc = None) (tool_calls r)"

definition no_tool_turn :: "seat_config \<Rightarrow> loop_vars \<Rightarrow> response \<Rightarrow> 'w seat \<Rightarrow> step \<times> 'w seat" where
  "no_tool_turn c v r s =
     (let v = v\<lparr>msgs := msgs v @ [Assistant (content r) []]\<rparr>;
          idle = (seat_context c \<noteq> ''conversation'' \<and> tool_calls_made s = 0)
      in if idle \<and> reprompts_used v < MAX_NO_TOOL_REPROMPTS then
           (let v = v\<lparr>reprompts_used := reprompts_used v + 1, msgs := msgs v @ [User NO_TOOL_NUDGE], escalate_next := True\<rparr>
            in (Again v, persist_state ''running'' (msgs v) s))
         else if idle then
           stop_run ''stalled_no_tool'' v (Some ''model narrated but never called a tool; no files were written'') True None s
         else stop_run ''completed'' v None False None s)"

definition truncated_turn :: "loop_vars \<Rightarrow> response \<Rightarrow> 'w seat \<Rightarrow> step \<times> 'w seat" where
  "truncated_turn v r s =
     (let v = v\<lparr>msgs := msgs v @ [Assistant (content r) []]\<rparr>
      in if continues_used v < MAX_TRUNCATION_CONTINUES then
           (let v = v\<lparr>continues_used := continues_used v + 1, msgs := msgs v @ [User CONTINUE_NUDGE]\<rparr>
            in (Again v, persist_state ''running'' (msgs v) s))
         else
           stop_run ''max_tokens'' v
             (Some ''model response was truncated (max_tokens) and did not finish within the continue budget'')
             (tool_calls_made s = 0) None s)"

definition agent_turn ::
  "'w runtime \<Rightarrow> seat_config \<Rightarrow> enforcement_state \<Rightarrow> loop_vars \<Rightarrow> 'w seat \<Rightarrow> string + step \<times> 'w seat" where
  "agent_turn x c enf v s =
     (if cancel_check x (site_rest (site s)) then Inr (stop_run ''cancelled'' v (Some ''cancelled by user'') False None s)
      else if tool_call_limit c \<le> int (tool_calls_made s)
      then Inr (stop_run ''budget_exhausted'' v (Some (budget_error c)) False None s)
      else
        (case ask x (escalate_next v) (msgs v) s of
           (Inl e, s) \<Rightarrow> Inr (stop_run ''error'' v (Some (''Provider call failed: '' @ e)) False (Some (classify_failure x e)) s)
         | (Inr r, s) \<Rightarrow>
             (let v = v\<lparr>escalate_next := False, last_text := (if content r = [] then last_text v else Some (content r))\<rparr> in
              if stop_reason r = ''max_tokens'' then Inr (truncated_turn v r s)
              else if stop_reason r \<noteq> ''tool_use'' \<or> valid_calls r = [] then Inr (no_tool_turn c v r s)
              else run_calls x c enf (v\<lparr>msgs := msgs v @ [Assistant (content r) (valid_calls r)]\<rparr>) (valid_calls r) s)))"

subsection \<open>The run\<close>

text \<open>The loop has no bound of its own in the code: \<open>None\<close> is a run that did not end within the fuel.\<close>

fun tool_loop ::
  "'w runtime \<Rightarrow> seat_config \<Rightarrow> enforcement_state \<Rightarrow> nat \<Rightarrow> loop_vars \<Rightarrow> 'w seat
     \<Rightarrow> (string + loop_result \<times> 'w seat) option" where
  "tool_loop x c enf 0 v s = None"
| "tool_loop x c enf (Suc n) v s =
     (case agent_turn x c enf v s of
        Inl e \<Rightarrow> Some (Inl e)
      | Inr (Over r, s) \<Rightarrow> Some (Inr (r, s))
      | Inr (Again v, s) \<Rightarrow> tool_loop x c enf n v s)"

definition start_vars :: "message list \<Rightarrow> loop_vars" where
  "start_vars ms = \<lparr>msgs = ms, last_text = None, reprompts_used = 0, continues_used = 0, escalate_next = False\<rparr>"

definition end_session :: "'w runtime \<Rightarrow> loop_result \<times> 'w seat \<Rightarrow> loop_result \<times> 'w seat" where
  "end_session x = (\<lambda>(r, s).
     let (err, w) = close_session x (site_rest (site s));
         s = s\<lparr>site := (site s)\<lparr>site_rest := w\<rparr>\<rparr>
     in case err of
          None \<Rightarrow> (r, s)
        | Some e \<Rightarrow>
            if res_status r = ''error'' then (r, s)
            else (r\<lparr>res_status := ''error'', res_error := Some (''sandbox container teardown could not be verified: '' @ e),
                    res_failure := Some ''sandbox-unavailable''\<rparr>, s))"

definition run_tool_loop ::
  "'w runtime \<Rightarrow> seat_config \<Rightarrow> enforcement_state \<Rightarrow> nat \<Rightarrow> message list \<Rightarrow> 'w seat
     \<Rightarrow> (string + loop_result \<times> 'w seat) option" where
  "run_tool_loop x c enf fuel ms s =
     map_option (map_sum id (end_session x))
       (tool_loop x c enf fuel (start_vars ms)
         (persist_state ''running'' ms (s\<lparr>no_progress_streak := 0, repeat_cmd_streak := 0, last_cmd_sig := None\<rparr>)))"

definition finalize :: "loop_result \<times> 'w seat \<Rightarrow> loop_result \<times> 'w seat" where
  "finalize = (\<lambda>(r, s).
     (r\<lparr>res_tokens_in := tokens_in s, res_tokens_out := tokens_out s, res_wrote_no_files := \<not> wrote_file s\<rparr>, s))"

definition run_text_only :: "'w runtime \<Rightarrow> message list \<Rightarrow> 'w seat \<Rightarrow> loop_result \<times> 'w seat" where
  "run_text_only x ms s =
     (let s = s\<lparr>saved := Some \<lparr>saved_status = ''running'', saved_calls = 0, saved_messages = ms\<rparr>\<rparr>;
          v = start_vars ms in
      case call_provider x False ms s of
        (Inl e, s) \<Rightarrow>
          ((result_of ''error'' v (Some (''Provider call failed (text-only): '' @ e)) True (Some (classify_failure x e)) s)
             \<lparr>res_calls := 0\<rparr>, s)
      | (Inr r, s) \<Rightarrow>
          (let v = v\<lparr>msgs := ms @ [Assistant (content r) []], last_text := Some (content r)\<rparr>
           in ((result_of ''text_only'' v None True None s)\<lparr>res_calls := 0\<rparr>,
               s\<lparr>saved := Some \<lparr>saved_status = ''text_only'', saved_calls = 0, saved_messages = msgs v\<rparr>\<rparr>)))"

definition failed_start :: "string \<Rightarrow> nat \<Rightarrow> message list \<Rightarrow> loop_result" where
  "failed_start e n ms =
     \<lparr>res_status = ''error'', res_text = None, res_calls = n, res_messages = ms, res_error = Some e, res_text_only = False,
      res_wrote_no_files = False, res_tokens_in = None, res_tokens_out = None, res_failure = None\<rparr>"

definition run_messages ::
  "'w runtime \<Rightarrow> seat_config \<Rightarrow> nat \<Rightarrow> message list \<Rightarrow> nat \<Rightarrow> message list \<Rightarrow> 'w seat
     \<Rightarrow> (string + loop_result \<times> 'w seat) option" where
  "run_messages x c fuel shown n ms s =
     (case load_enforcement x (site s) of
        Inl e \<Rightarrow> Some (Inr (failed_start (''Failed to load enforcement state: '' @ e) n shown, s))
      | Inr enf \<Rightarrow>
          map_option (map_sum id finalize)
            (if tools_supported c then run_tool_loop x c enf fuel ms s else Some (Inr (run_text_only x ms s))))"

definition run_agent ::
  "'w runtime \<Rightarrow> seat_config \<Rightarrow> nat \<Rightarrow> string \<Rightarrow> string \<Rightarrow> message list \<Rightarrow> 'w seat
     \<Rightarrow> (string + loop_result \<times> 'w seat) option" where
  "run_agent x c fuel sys user prior s =
     run_messages x c fuel [] 0 (System sys # prior @ [User user]) (s\<lparr>tool_calls_made := 0\<rparr>)"

definition resume_agent ::
  "'w runtime \<Rightarrow> seat_config \<Rightarrow> nat \<Rightarrow> 'w seat \<Rightarrow> (string + loop_result \<times> 'w seat) option" where
  "resume_agent x c fuel s =
     (case saved s of
        None \<Rightarrow> Some (Inr (failed_start ''no persisted state'' 0 [], s))
      | Some sv \<Rightarrow>
          if saved_messages sv = [] then Some (Inr (failed_start ''agent conversation is empty'' 0 [], s))
          else if saved_status sv \<in> {''completed'', ''text_only'', ''cancelled''} then
            Some (Inr (\<lparr>res_status = saved_status sv, res_text = None, res_calls = saved_calls sv,
              res_messages = saved_messages sv,
              res_error = (if saved_status sv = ''cancelled'' then Some ''cancelled by user'' else None),
              res_text_only = (saved_status sv = ''text_only''), res_wrote_no_files = False, res_tokens_in = None,
              res_tokens_out = None, res_failure = None\<rparr>, s))
          else
            run_messages x c fuel (saved_messages sv) (saved_calls sv) (saved_messages sv)
              (s\<lparr>tool_calls_made := saved_calls sv\<rparr>))"

subsection \<open>What a dispatch changes\<close>

definition call_args :: "'w runtime \<Rightarrow> tool_call \<Rightarrow> (string \<times> py) list" where
  "call_args x tc = normal_args (loads_args x) (tc_args tc)"

text \<open>
  An entry of the ledger explains a change of the files \<open>F\<close> to \<open>G\<close>: nothing changed, or the entry is of a command, or
  it is a completed write or edit and one file changed, the one that the recorded path names on the host (recorded
  as it was, or redacted and clipped); a write's entry holds the digest of the text that the file holds then.
\<close>

definition recorded_path :: "audit_entry \<Rightarrow> string" where
  "recorded_path e = get_str (case a_args e of PDict d \<Rightarrow> d | _ \<Rightarrow> []) ''path''"

definition wrote_there :: "'w runtime \<Rightarrow> host \<Rightarrow> audit_entry \<Rightarrow> string list \<Rightarrow> bool" where
  "wrote_there x h e p \<longleftrightarrow>
     a_tool e \<in> {''write_file'', ''edit_file''} \<and> a_status e = ''completed'' \<and>
     (\<exists>rel. resolve_in_workspace h rel = Some p \<and> recorded_path e \<in> {rel, clip (redact x rel)})"

definition explains ::
  "'w runtime \<Rightarrow> host \<Rightarrow> audit_entry \<Rightarrow> (string list \<rightharpoonup> string) \<Rightarrow> (string list \<rightharpoonup> string) \<Rightarrow> bool" where
  "explains x h e F G \<longleftrightarrow>
     G = F \<or> a_tool e = ''run_command'' \<or>
     (\<exists>p txt. wrote_there x h e p \<and> G = F(p \<mapsto> txt) \<and> (a_tool e = ''write_file'' \<longrightarrow> a_sha e = Some (sha256 x txt)))"

text \<open>The entries replay a run: one after the other, each explains what happened up to the next.\<close>

fun replays ::
  "'w runtime \<Rightarrow> host \<Rightarrow> audit_entry list \<Rightarrow> (string list \<rightharpoonup> string) \<Rightarrow> (string list \<rightharpoonup> string) \<Rightarrow> bool" where
  "replays x h [] F G \<longleftrightarrow> G = F"
| "replays x h (e # es) F G \<longleftrightarrow> (\<exists>M. explains x h e F M \<and> replays x h es M G)"

lemma replays_append: "replays x h (es @ fs) F G \<longleftrightarrow> (\<exists>M. replays x h es F M \<and> replays x h fs M G)"
  by (induction es arbitrary: F) auto

lemma replays_idle: "replays x h es F F"
  by (induction es) (auto simp: explains_def)

text \<open>A file that a replay changes has its entry.\<close>

lemma replays_entry:
  "replays x h es F G \<Longrightarrow> G p \<noteq> F p \<Longrightarrow> \<exists>e \<in> set es. a_tool e = ''run_command'' \<or> wrote_there x h e p"
proof (induction es arbitrary: F)
  case (Cons e es)
  from Cons.prems(1) obtain M where M: "explains x h e F M" "replays x h es M G" by auto
  show ?case
  proof (cases "G p = M p")
    case True
    with Cons.prems(2) have "M p \<noteq> F p" by simp
    with M(1) show ?thesis by (auto simp: explains_def split: if_split_asm)
  next
    case False
    with Cons.IH [OF M(2)] show ?thesis by auto
  qed
qed simp

definition advanced :: "'w runtime \<Rightarrow> host \<Rightarrow> 'w seat \<Rightarrow> 'w seat \<Rightarrow> bool" where
  "advanced x h s s' \<longleftrightarrow>
     (\<exists>es. grown s s' es \<and> tool_calls_made s' = tool_calls_made s + length (filter is_call es) \<and>
        replays x h es (site_files (site s)) (site_files (site s')) \<and>
        (wrote_file s \<longrightarrow> wrote_file s') \<and>
        (site_files (site s') \<noteq> site_files (site s) \<longrightarrow> wrote_file s' \<or> (\<exists>e \<in> set es. a_tool e = ''run_command'')))"

definition same_seat :: "'w seat \<Rightarrow> 'w seat \<Rightarrow> bool" where
  "same_seat s s' \<longleftrightarrow>
     tool_ledger s' = tool_ledger s \<and> audit_seq s' = audit_seq s \<and> site_files (site s') = site_files (site s) \<and>
     tool_calls_made s' = tool_calls_made s \<and> wrote_file s' = wrote_file s"

named_theorems seat_intros \<open>steps that leave ledger and files alone\<close>

lemma same_advanced: "same_seat s s' \<Longrightarrow> advanced x h s s'"
  unfolding advanced_def same_seat_def by (intro exI [of _ "[]"]) (simp add: grown_nil)

lemma same_refl [seat_intros]: "same_seat s s" by (simp add: same_seat_def)

lemma same_persist [seat_intros]: "same_seat s (persist_state st ms s)"
  by (simp add: same_seat_def persist_state_def)

lemma same_provider [seat_intros]: "call_provider x f ms s = (r, s') \<Longrightarrow> same_seat s s'"
  by (auto simp: call_provider_def same_seat_def track_usage_def Let_def split: prod.splits sum.splits option.splits)

lemma same_trans: "same_seat s t \<Longrightarrow> same_seat t u \<Longrightarrow> same_seat s u"
  by (simp add: same_seat_def)

lemma same_ask [seat_intros]: "ask x f ms s = (r, s') \<Longrightarrow> same_seat s s'"
  by (auto simp: ask_def split: if_splits prod.splits sum.splits intro: same_provider same_trans)

lemma advanced_trans: "advanced x h s t \<Longrightarrow> advanced x h t u \<Longrightarrow> advanced x h s u"
proof -
  assume "advanced x h s t" "advanced x h t u"
  then obtain es fs where e: "grown s t es" "tool_calls_made t = tool_calls_made s + length (filter is_call es)"
      "replays x h es (site_files (site s)) (site_files (site t))"
      "wrote_file s \<longrightarrow> wrote_file t"
      "site_files (site t) \<noteq> site_files (site s) \<longrightarrow> wrote_file t \<or> (\<exists>e \<in> set es. a_tool e = ''run_command'')"
    and f: "grown t u fs" "tool_calls_made u = tool_calls_made t + length (filter is_call fs)"
      "replays x h fs (site_files (site t)) (site_files (site u))"
      "wrote_file t \<longrightarrow> wrote_file u"
      "site_files (site u) \<noteq> site_files (site t) \<longrightarrow> wrote_file u \<or> (\<exists>e \<in> set fs. a_tool e = ''run_command'')"
    unfolding advanced_def by blast
  have "replays x h (es @ fs) (site_files (site s)) (site_files (site u))"
    using e(3) f(3) by (auto simp: replays_append)
  with grown_trans [OF e(1) f(1)] e(2,4,5) f(2,4,5) show "advanced x h s u"
    unfolding advanced_def by (intro exI [of _ "es @ fs"]) auto
qed

text \<open>The seat of a call that was counted and is not yet written.\<close>

definition ticked :: "'w seat \<Rightarrow> 'w seat \<Rightarrow> bool" where
  "ticked s q \<longleftrightarrow>
     tool_ledger q = tool_ledger s \<and> audit_seq q = audit_seq s \<and> site q = site s \<and> wrote_file q = wrote_file s \<and>
     tool_calls_made q = tool_calls_made s + 1"

text \<open>A write or an edit that the loop dispatches has its arguments as an object, and the ledger records their path.\<close>

lemma checked_args:
  assumes "tool_call_defect tc = None" and "tc_name tc \<in> {''write_file'', ''edit_file''}"
  shows "\<exists>d. d \<noteq> [] \<and> tc_args tc = PDict d"
  using assms
  by (auto simp: tool_call_defect_def call_dict_def blank_def get_str_def dict_get_def Let_def KNOWN_TOOL_NAMES_def
      split: py.split_asm if_split_asm)

lemma recorded_path_args:
  assumes "d \<noteq> []" and "a_args e = redact_args x (PDict d)"
  shows "recorded_path e \<in> {get_str d ''path'', clip (redact x (get_str d ''path''))}"
proof -
  let ?f = "\<lambda>v. case v of PStr t \<Rightarrow> PStr (clip (redact x t)) | _ \<Rightarrow> v"
  have "a_args e = PDict (map (\<lambda>(k, v). (k, ?f v)) d)" using assms by (simp add: redact_args_def)
  moreover have "dict_get (map (\<lambda>(k, v). (k, ?f v)) d) ''path'' = map_option ?f (dict_get d ''path'')"
    by (simp add: dict_get_def map_of_map comp_def)
  ultimately show ?thesis
    by (auto simp: recorded_path_def get_str_def split: option.split py.split)
qed

lemma call_args_object: "d \<noteq> [] \<Longrightarrow> tc_args tc = PDict d \<Longrightarrow> call_args x tc = d"
  by (simp add: call_args_def normal_args_def)

text \<open>One audit behind the rows of a command.\<close>

lemma audit_advances:
  assumes a: "audit x tc status detail sha rule s1 = (None, s')" and st: "status \<noteq> ''command-file-change''"
    and g: "grown s s1 rows" "list_all command_row rows" and k: "tool_calls_made s1 = tool_calls_made s + 1"
    and w: "wrote_file s \<longrightarrow> wrote_file s1"
      "site_files (site s1) \<noteq> site_files (site s) \<Longrightarrow> wrote_file s1 \<or> tc_name tc = ''run_command''"
    and valid: "tool_call_defect tc = None"
    and f: "site_files (site s1) \<noteq> site_files (site s) \<Longrightarrow>
      tc_name tc = ''run_command'' \<or> (tc_name tc \<in> {''write_file'', ''edit_file''} \<and> status = ''completed'' \<and>
        (\<exists>p txt. resolve_in_workspace h (get_str (call_args x tc) ''path'') = Some p \<and>
           site_files (site s1) = (site_files (site s))(p \<mapsto> txt) \<and>
           (tc_name tc = ''write_file'' \<longrightarrow> sha = Some (sha256 x txt))))"
  shows "advanced x h s s'"
proof -
  let ?e = "\<lparr>a_seq = audit_seq s1 + 1, a_tool = tc_name tc, a_call = Some (tc_id tc), a_args = redact_args x (tc_args tc),
       a_sha = sha, a_status = status, a_detail = detail, a_rule = rule, a_change = None\<rparr>"
  from a have e: "grown s1 s' [?e]" unfolding audit_def by (drule_tac append_entry_grows) simp_all
  from a have s': "site s' = site s1" "tool_calls_made s' = tool_calls_made s1" "wrote_file s' = wrote_file s1"
    unfolding audit_def by (auto dest: append_entry_keeps)
  have r: "filter is_call rows = []" using g(2) by (auto simp: command_row_def list_all_iff filter_empty_conv)
  have acc: "explains x h ?e (site_files (site s)) (site_files (site s1))"
  proof (cases "site_files (site s1) = site_files (site s) \<or> tc_name tc = ''run_command''")
    case True
    then show ?thesis by (auto simp: explains_def)
  next
    case False
    with f obtain p "txt" where p: "tc_name tc \<in> {''write_file'', ''edit_file''}" "status = ''completed''"
      "resolve_in_workspace h (get_str (call_args x tc) ''path'') = Some p"
      "site_files (site s1) = (site_files (site s))(p \<mapsto> txt)" "tc_name tc = ''write_file'' \<longrightarrow> sha = Some (sha256 x txt)"
      by blast
    obtain d where d: "d \<noteq> []" "tc_args tc = PDict d" using checked_args [OF valid p(1)] by blast
    have "wrote_there x h ?e p"
      unfolding wrote_there_def
    proof (intro conjI exI)
      show "resolve_in_workspace h (get_str d ''path'') = Some p" using p(3) by (simp add: call_args_object [OF d])
      show "recorded_path ?e \<in> {get_str d ''path'', clip (redact x (get_str d ''path''))}"
        by (rule recorded_path_args [OF d(1)]) (simp add: d(2))
    qed (use p in simp_all)
    with p(4,5) show ?thesis unfolding explains_def by auto
  qed
  show ?thesis unfolding advanced_def
  proof (intro exI [of _ "rows @ [?e]"] conjI)
    show "grown s s' (rows @ [?e])" by (rule grown_trans [OF g(1) e])
    show "tool_calls_made s' = tool_calls_made s + length (filter is_call (rows @ [?e]))"
      using s' k r st by (simp add: is_call_def)
    show "replays x h (rows @ [?e]) (site_files (site s)) (site_files (site s'))"
      using acc replays_idle [of x h rows "site_files (site s)"] s'(1) by (auto simp: replays_append)
    show "site_files (site s') \<noteq> site_files (site s) \<longrightarrow>
        wrote_file s' \<or> (\<exists>e \<in> set (rows @ [?e]). a_tool e = ''run_command'')"
      using s' w(2) by auto
  qed (use s' w(1) in simp)
qed

lemma unchanged_advances:
  assumes "ticked s q" "audit x tc status detail sha rule q = (None, s')" "status \<noteq> ''command-file-change''"
    and "tool_call_defect tc = None"
  shows "advanced x h s s'"
  using assms by (intro audit_advances [OF assms(2,3), of s "[]"]) (auto simp: ticked_def grown_nil)

lemma execute_advances:
  assumes ok: "\<And>st. ledger_error x st = None" and host: "\<And>st. host_of x st = h"
    and valid: "tool_call_defect tc = None" and q: "ticked s q"
    and e: "execute_tool x c enf (tc_name tc) (call_args x tc) q = (r, s1)"
    and a: "audit x tc status detail (map_option (sha256 x) (content_for_hash (tc_name tc) (call_args x tc))) rule s1 = (None, s')"
    and st: "status \<noteq> ''command-file-change''" and done_one: "\<And>m. r = Inr m \<Longrightarrow> status = ''completed''"
  shows "advanced x h s s'"
  using execute_effect [OF e]
proof (elim disjE conjE)
  assume n: "tc_name tc = ''run_command''" and k: "quiet q s1"
    and "(\<forall>st. ledger_error x st = None) \<longrightarrow> rowed q s1"
  with ok obtain rows where "grown q s1 rows" "list_all command_row rows" unfolding rowed_def by blast
  with n k q valid show ?thesis
    by (intro audit_advances [OF a st, of s rows]) (auto simp: ticked_def quiet_def grown_def)
next
  assume n: "tc_name tc \<noteq> ''run_command''" and k: "book s1 = book q" and "s1 = q"
  with q a st valid show ?thesis by (auto intro: unchanged_advances)
next
  assume n: "tc_name tc \<in> {''write_file'', ''edit_file''}" and k: "book s1 = book q"
    and "\<exists>m p txt. r = Inr m \<and> lands x enf (get_str (call_args x tc) ''path'') q s1 p txt \<and>
      (tc_name tc = ''write_file'' \<longrightarrow> txt = get_str (call_args x tc) ''content'')"
  then obtain m p "txt" where "r = Inr m" and l: "lands x enf (get_str (call_args x tc) ''path'') q s1 p txt"
    and t: "tc_name tc = ''write_file'' \<longrightarrow> txt = get_str (call_args x tc) ''content''" by blast
  with done_one have c: "status = ''completed''" by blast
  show ?thesis
  proof (rule audit_advances [OF a st, of s "[]"])
    show "grown s s1 []" "tool_calls_made s1 = tool_calls_made s + 1" using k q by (auto simp: ticked_def book_def intro!: grown_nil)
  qed (use n c l t q host valid in \<open>auto simp: ticked_def lands_def content_for_hash_def\<close>)
qed

lemma ledger_ok: "(\<And>st. ledger_error x st = None) \<Longrightarrow> fst (audit x tc status detail sha rule s) = None"
  by (simp add: audit_def append_entry_def Let_def)

lemma audited_cases:
  assumes "\<And>st. ledger_error x st = None" and "audited (audit x tc status detail sha rule s) r = (r', s')"
  shows "r' = r \<and> audit x tc status detail sha rule s = (None, s')"
  using assms(2) ledger_ok [of x tc status detail sha rule s, OF assms(1)]
  by (auto simp: audited_def split: option.splits prod.splits)

text \<open>A dispatch governs the call on the seat it starts from, with the signed artifacts read or not.\<close>

lemma dispatch_cases:
  assumes "dispatch_tool x c enf tc s = (r, s')"
  obtains (refused) q status detail rule r1 where "q = s \<or> q = read_signed x c s" "status = ''denied''"
      "audited (audit x tc status detail (map_option (sha256 x) (content_for_hash (tc_name tc) (call_args x tc))) rule q) r1 = (r, s')"
    | (crashed) "r = Inl (Broke ''governance check failed'')" "s' = s \<or> s' = read_signed x c s"
    | (governed) q es where "q = s \<or> q = read_signed x c s"
      "check_governance (host_of x (site s)) enf (seat_ctx x c s) (tc_name tc) (call_args x tc) = Inr es"
      "run_governed x c enf tc (call_args x tc) (map_option (sha256 x) (content_for_hash (tc_name tc) (call_args x tc))) q = (r, s')"
proof -
  let ?sha = "map_option (sha256 x) (content_for_hash (tc_name tc) (call_args x tc))"
  let ?q = "if asks_signed (host_of x (site s)) enf (seat_ctx x c s) (tc_name tc) (call_args x tc) then read_signed x c s else s"
  have q: "?q = s \<or> ?q = read_signed x c s" by simp
  show thesis
  proof (cases "dict_get (call_args x tc) ''__parse_error__''")
    case (Some v)
    with assms have "audited (audit x tc ''denied'' (get_str (call_args x tc) ''__parse_error__'') ?sha (Some ''arg-parse'') s)
             (Inr (''ERROR: '' @ get_str (call_args x tc) ''__parse_error__'')) = (r, s')"
      by (simp add: dispatch_tool_def call_args_def Let_def)
    from refused [OF _ refl this] show thesis by simp
  next
    case None
    show thesis
    proof (cases "check_governance (host_of x (site s)) enf (seat_ctx x c s) (tc_name tc) (call_args x tc)")
      case (Inr es)
      with assms None have "run_governed x c enf tc (call_args x tc) ?sha ?q = (r, s')"
        by (simp add: dispatch_tool_def call_args_def Let_def)
      from governed [OF q Inr this] show thesis .
    next
      case (Inl err)
      show thesis
      proof (cases err)
        case (ToolPolicyError reason rule)
        with assms None Inl have "audited (audit x tc ''denied'' reason ?sha rule ?q) (Inr (''DENIED: '' @ reason)) = (r, s')"
          by (simp add: dispatch_tool_def call_args_def Let_def)
        from refused [OF q refl this] show thesis .
      next
        case Crash
        with assms None Inl have "r = Inl (Broke ''governance check failed'')" "s' = ?q"
          by (simp_all add: dispatch_tool_def call_args_def Let_def)
        with crashed q show thesis by metis
      qed
    qed
  qed
qed

lemma dispatch_advances:
  assumes ok: "\<And>st. ledger_error x st = None" and host: "\<And>st. host_of x st = h" and valid: "tool_call_defect tc = None"
    and d: "dispatch_tool x c enf tc (s\<lparr>tool_calls_made := tool_calls_made s + 1\<rparr>) = (r, s')"
    and r: "\<And>m. r \<noteq> Inl (Broke m)"
  shows "advanced x h s s'"
  using d
proof (cases rule: dispatch_cases)
  case (refused q status detail rule r1)
  then have "ticked s q" by (auto simp: ticked_def read_signed_def)
  with audited_cases [OF ok refused(3)] refused(2) valid show ?thesis by (auto intro: unchanged_advances)
next
  case crashed
  with r show ?thesis by blast
next
  case (governed q es)
  let ?args = "call_args x tc"
  let ?sha = "map_option (sha256 x) (content_for_hash (tc_name tc) ?args)"
  note g = governed(3)
  have q: "ticked s q" using governed(1) by (auto simp: ticked_def read_signed_def)
  show ?thesis
  proof (cases "idempotent_skip x (tc_name tc) ?args ?sha q")
    case True
    with g have "audited (audit x tc ''skipped-idempotent'' ''content already present'' ?sha None q)
          (Inr (''OK (idempotent): '' @ get_str ?args ''path'' @ '' already has this content.'')) = (r, s')"
      by (simp add: run_governed_def)
    from audited_cases [OF ok this] q valid show ?thesis by (auto intro: unchanged_advances)
  next
    case False
    obtain r1 s1 where e: "execute_tool x c enf (tc_name tc) ?args q = (r1, s1)" by fastforce
    have ex: "\<exists>status detail rule. audit x tc status detail ?sha rule s1 = (None, s') \<and> status \<noteq> ''command-file-change'' \<and>
        (\<forall>m. r1 = Inr m \<longrightarrow> status = ''completed'')"
    proof (cases r1)
      case (Inl ex)
      then show ?thesis
        using g False e by (cases ex) (fastforce simp: run_governed_def dest!: audited_cases [OF ok])+
    next
      case (Inr m)
      have "fst (audit x tc ''completed'' ''ok'' ?sha None s1) = None" by (rule ledger_ok [OF ok])
      with Inr g False e have "audit x tc ''completed'' ''ok'' ?sha None s1 = (None, s')"
        by (auto simp: run_governed_def split: prod.splits option.splits)
      then show ?thesis by (intro exI [of _ "''completed''"] exI conjI) auto
    qed
    with execute_advances [OF ok host valid q e] show ?thesis by blast
  qed
qed

lemma audit_result_site: "audit x tc status detail sha rule s = (e, s') \<Longrightarrow> site s' = site s"
  unfolding audit_def by (drule append_entry_keeps) simp

lemma audited_site: "audited (audit x tc status detail sha rule s) r = (r', s') \<Longrightarrow> site s' = site s"
  by (auto simp: audited_def dest: audit_result_site split: option.splits prod.splits)

lemma governed_site:
  assumes "run_governed x c enf tc args sha s = (r, s')" and "tc_name tc \<noteq> ''run_command''"
  shows "site s' = site s \<or> (tc_name tc \<in> {''write_file'', ''edit_file''} \<and>
    (\<exists>p txt s1. lands x enf (get_str args ''path'') s s1 p txt \<and> site s' = site s1))"
proof (cases "idempotent_skip x (tc_name tc) args sha s")
  case True
  with assms show ?thesis by (auto simp: run_governed_def dest: audited_site)
next
  case False
  obtain r1 s1 where e: "execute_tool x c enf (tc_name tc) args s = (r1, s1)" by fastforce
  have "site s' = site s1"
  proof (cases r1)
    case (Inl ex)
    with assms(1) False e show ?thesis by (cases ex) (auto simp: run_governed_def dest: audited_site)
  next
    case (Inr m)
    with assms(1) False e show ?thesis
      by (auto simp: run_governed_def dest: audit_result_site split: prod.splits option.splits if_split_asm)
  qed
  with execute_effect [OF e] assms(2) show ?thesis by auto
qed

lemma canonical_abs_strip: "canonical_abs h (strip s) = canonical_abs h s"
  by (simp add: canonical_abs_def unquote_def)

lemma resolve_canonical: "resolve_in_workspace h rel = Some p \<Longrightarrow> canonical_abs h rel = Some p"
  by (auto simp: resolve_in_workspace_def split: if_split_asm option.split_asm)

lemma dispatch_lands:
  assumes "dispatch_tool x c enf tc s = (r, s')" and "tc_name tc \<noteq> ''run_command''"
    and ch: "site_files (site s') p \<noteq> site_files (site s) p"
  shows "tc_name tc \<in> {''write_file'', ''edit_file''} \<and>
    (\<exists>es. check_governance (host_of x (site s)) enf (seat_ctx x c s) (tc_name tc) (call_args x tc) = Inr es) \<and>
    (\<exists>txt s1. lands x enf (get_str (call_args x tc) ''path'') s s1 p txt \<and> site s' = site s1)"
  using assms(1)
proof (cases rule: dispatch_cases)
  case (refused q status detail rule r1)
  with audited_site [OF refused(3)] ch show ?thesis by (auto simp: read_signed_def)
next
  case crashed
  with ch show ?thesis by (auto simp: read_signed_def)
next
  case (governed q es)
  have q: "site q = site s" using governed(1) by (auto simp: read_signed_def)
  from governed_site [OF governed(3) assms(2)] ch q obtain p' "txt" s1
    where l: "tc_name tc \<in> {''write_file'', ''edit_file''}" "lands x enf (get_str (call_args x tc) ''path'') q s1 p' txt" "site s' = site s1"
    by auto
  with ch q have "p' = p" by (auto simp: lands_def split: if_split_asm)
  with l(2) q have "lands x enf (get_str (call_args x tc) ''path'') s s1 p txt" by (simp add: lands_def)
  with governed(2) l(1,3) show ?thesis by blast
qed

text \<open>C9: what a model writes was checked as it is written: when a call other than a command changes a file, it is a
  write or an edit that the governance check allowed in the state before it; the file is the one the check
  resolved, and lies strictly below the workspace; the new text went through the secret scan, without a finding
  under a policy that blocks; and no other file changes.\<close>

theorem agent_writes_are_governed:
  assumes "dispatch_tool x c enf tc s = (r, s')" and "tc_name tc \<noteq> ''run_command''"
    and "site_files (site s') p \<noteq> site_files (site s) p"
  shows "(\<exists>es. check_governance (host_of x (site s)) enf (seat_ctx x c s) (tc_name tc) (call_args x tc) = Inr es) \<and>
    tc_name tc \<in> {''write_file'', ''edit_file''} \<and>
    canonical_abs (host_of x (site s)) (strip (get_str (call_args x tc) ''path'')) = Some p \<and>
    strict_prefix (root_parts (host_of x (site s))) p \<and>
    (\<exists>txt. site_files (site s') = (site_files (site s))(p \<mapsto> txt) \<and>
       (rule_action enf ''secret-block'' = Block \<longrightarrow>
          scan_write_secrets x (get_str (call_args x tc) ''path'') txt = Inr []))"
proof -
  from dispatch_lands [OF assms] obtain es "txt" s1
    where n: "tc_name tc \<in> {''write_file'', ''edit_file''}"
      and g: "check_governance (host_of x (site s)) enf (seat_ctx x c s) (tc_name tc) (call_args x tc) = Inr es"
      and l: "lands x enf (get_str (call_args x tc) ''path'') s s1 p txt" and s': "site s' = site s1" by blast
  from l have t: "canonical_abs (host_of x (site s)) (strip (get_str (call_args x tc) ''path'')) = Some p"
    by (auto simp: lands_def canonical_abs_strip dest: resolve_canonical)
  from check_governance_write [OF g n] obtain rel
    where "workspace_relative (host_of x (site s)) (strip (get_str (call_args x tc) ''path'')) = Some rel" "rel \<noteq> []" by blast
  from workspace_relative_below [OF this] t have b: "strict_prefix (root_parts (host_of x (site s))) p" by simp
  have "rule_action enf ''secret-block'' = Block \<longrightarrow> scan_write_secrets x (get_str (call_args x tc) ''path'') txt = Inr []"
    using l by (auto simp: lands_def scan_write_content_def Let_def split: sum.splits if_split_asm)
  with g n t b l s' show ?thesis by (auto simp: lands_def)
qed

subsection \<open>The loop as a whole\<close>

lemma tool_loop_rule:
  assumes "tool_loop x c enf n v s = Some (Inr (r, s'))" and "P v s"
    and "\<And>v s v' s'. P v s \<Longrightarrow> agent_turn x c enf v s = Inr (Again v', s') \<Longrightarrow> P v' s'"
    and "\<And>v s r s'. P v s \<Longrightarrow> agent_turn x c enf v s = Inr (Over r, s') \<Longrightarrow> Q r s'"
  shows "Q r s'"
  using assms(1,2)
proof (induction n arbitrary: v s)
  case (Suc n)
  then show ?case
    by (auto split: sum.split_asm prod.split_asm step.split_asm intro: assms(3,4))
qed simp

text \<open>One turn: it asks the provider, and then it is over, goes on without tools, or runs calls.\<close>

lemma agent_turn_cases:
  assumes "agent_turn x c enf v s = Inr (st, s')"
  obtains (at_once) status err where "(st, s') = stop_run status v err False None s" "status \<noteq> ''completed''"
      "status \<noteq> ''stalled_no_tool''"
    | (failed) e s1 err where "ask x (escalate_next v) (msgs v) s = (Inl e, s1)"
      "(st, s') = stop_run ''error'' v err False (Some (classify_failure x e)) s1"
    | (truncated) r s1 w where "ask x (escalate_next v) (msgs v) s = (Inr r, s1)" "(st, s') = truncated_turn w r s1"
      "reprompts_used w = reprompts_used v" "continues_used w = continues_used v" "int (tool_calls_made s) < tool_call_limit c"
    | (no_tool) r s1 w where "ask x (escalate_next v) (msgs v) s = (Inr r, s1)" "(st, s') = no_tool_turn c w r s1"
      "reprompts_used w = reprompts_used v" "continues_used w = continues_used v" "int (tool_calls_made s) < tool_call_limit c"
    | (calls) r s1 w where "ask x (escalate_next v) (msgs v) s = (Inr r, s1)"
      "run_calls x c enf w (valid_calls r) s1 = Inr (st, s')" "valid_calls r \<noteq> []"
      "reprompts_used w = reprompts_used v" "continues_used w = continues_used v" "int (tool_calls_made s) < tool_call_limit c"
proof (cases "cancel_check x (site_rest (site s)) \<or> tool_call_limit c \<le> int (tool_calls_made s)")
  case True
  with assms show thesis
    using at_once [of "''cancelled''" "Some ''cancelled by user''"] at_once [of "''budget_exhausted''" "Some (budget_error c)"]
    by (auto simp: agent_turn_def split: if_split_asm)
next
  case False
  then have lim: "int (tool_calls_made s) < tool_call_limit c" by simp
  obtain a s1 where a: "ask x (escalate_next v) (msgs v) s = (a, s1)" by fastforce
  show thesis
  proof (cases a)
    case (Inl e)
    with a assms False failed [of e s1 "Some (''Provider call failed: '' @ e)"] show thesis by (simp add: agent_turn_def)
  next
    case (Inr r)
    let ?w = "v\<lparr>escalate_next := False, last_text := (if content r = [] then last_text v else Some (content r))\<rparr>"
    from assms a Inr False have t: "(if stop_reason r = ''max_tokens'' then Inr (truncated_turn ?w r s1)
              else if stop_reason r \<noteq> ''tool_use'' \<or> valid_calls r = [] then Inr (no_tool_turn c ?w r s1)
              else run_calls x c enf (?w\<lparr>msgs := msgs ?w @ [Assistant (content r) (valid_calls r)]\<rparr>) (valid_calls r) s1)
        = Inr (st, s')"
      by (simp add: agent_turn_def Let_def)
    consider "stop_reason r = ''max_tokens''" | "stop_reason r \<noteq> ''max_tokens''" "stop_reason r \<noteq> ''tool_use'' \<or> valid_calls r = []"
      | "stop_reason r = ''tool_use''" "valid_calls r \<noteq> []" by blast
    then show thesis
    proof cases
      case 1
      with t have "(st, s') = truncated_turn ?w r s1" by simp
      with truncated [of r s1 ?w] a Inr lim show thesis by simp
    next
      case 2
      with t have "(st, s') = no_tool_turn c ?w r s1" by simp
      with no_tool [of r s1 ?w] a Inr lim show thesis by simp
    next
      case 3
      with t have "run_calls x c enf (?w\<lparr>msgs := msgs ?w @ [Assistant (content r) (valid_calls r)]\<rparr>) (valid_calls r) s1 = Inr (st, s')"
        by simp
      from calls [OF _ this] a Inr lim 3 show thesis by simp
    qed
  qed
qed

text \<open>The calls of one turn, one dispatch after the other.\<close>

lemma run_calls_cases:
  assumes "run_calls x c enf v (tc # tcs) s = Inr (st, s')"
  obtains (spent) "tool_call_limit c \<le> int (tool_calls_made s)"
      "(st, s') = stop_run ''budget_exhausted'' v (Some (budget_error c)) False None s"
    | (lost) m s1 err where "int (tool_calls_made s) < tool_call_limit c"
      "dispatch_tool x c enf tc (s\<lparr>tool_calls_made := tool_calls_made s + 1\<rparr>) = (Inl (Unavailable m), s1)"
      "(st, s') = stop_run ''error'' v err False (Some ''sandbox-unavailable'') s1"
    | (stalled) m s1 s2 w where "int (tool_calls_made s) < tool_call_limit c"
      "dispatch_tool x c enf tc (s\<lparr>tool_calls_made := tool_calls_made s + 1\<rparr>) = (Inr m, s1)" "same_seat s1 s2"
      "(st, s') = stop_run ''stalled_no_progress'' w (Some stall_error) False None s2"
    | (done_one) m s1 s2 w where "int (tool_calls_made s) < tool_call_limit c"
      "dispatch_tool x c enf tc (s\<lparr>tool_calls_made := tool_calls_made s + 1\<rparr>) = (Inr m, s1)" "same_seat s1 s2"
      "run_calls x c enf w tcs s2 = Inr (st, s')" "reprompts_used w = reprompts_used v" "continues_used w = continues_used v"
proof (cases "tool_call_limit c \<le> int (tool_calls_made s)")
  case True
  with assms spent show thesis by simp
next
  case False
  obtain a s1 where a: "dispatch_tool x c enf tc (s\<lparr>tool_calls_made := tool_calls_made s + 1\<rparr>) = (a, s1)" by fastforce
  show thesis
  proof (cases a)
    case (Inl e)
    show thesis
    proof (cases e)
      case (Unavailable m)
      with a Inl assms False lost [of m s1 "Some (''Required sandbox unavailable: '' @ m)"] show thesis by simp
    qed (use a Inl assms False in simp_all)
  next
    case (Inr m)
    let ?w = "v\<lparr>msgs := msgs v @ [ToolResult (tc_id tc) (tc_name tc) m]\<rparr>"
    obtain b s2 where b: "(if build_seat c then record_build_progress x c tc m (mutation_seq s) s1 else (False, s1)) = (b, s2)"
      by fastforce
    then have same: "same_seat s1 s2"
      by (auto simp: record_build_progress_def same_seat_def Let_def split: if_split_asm option.splits)
    have "(if b then Inr (stop_run ''stalled_no_progress'' ?w (Some stall_error) False None s2)
       else run_calls x c enf ?w tcs s2) = Inr (st, s')"
      using assms a Inr b False by (simp add: Let_def)
    then have t: "if b then (st, s') = stop_run ''stalled_no_progress'' ?w (Some stall_error) False None s2
        else run_calls x c enf ?w tcs s2 = Inr (st, s')" by (cases b) simp_all
    show thesis
    proof (cases b)
      case True
      with t a Inr False stalled [OF _ _ same] show thesis by simp
    next
      case not_b: False
      with t have "run_calls x c enf ?w tcs s2 = Inr (st, s')" by simp
      from done_one [OF _ _ same this] a Inr False show thesis by simp
    qed
  qed
qed

lemma stop_run_over:
  "(st, s') = stop_run status v err b f s \<Longrightarrow>
   same_seat s s' \<and> (\<exists>r. st = Over r \<and> res_status r = status \<and> res_calls r = tool_calls_made s' \<and>
     saved s' = Some \<lparr>saved_status = status, saved_calls = tool_calls_made s', saved_messages = res_messages r\<rparr>)"
  by (auto simp: stop_run_def result_of_def persist_state_def same_seat_def)

definition settled :: "step \<Rightarrow> 'w seat \<Rightarrow> bool" where
  "settled st s \<longleftrightarrow>
     (case st of
        Again _ \<Rightarrow> True
      | Over r \<Rightarrow> res_calls r = tool_calls_made s \<and>
          saved s = Some \<lparr>saved_status = res_status r, saved_calls = tool_calls_made s, saved_messages = res_messages r\<rparr>)"

lemma stop_run_settled: "(st, s') = stop_run status v err b f s \<Longrightarrow> settled st s'"
  using stop_run_over by (fastforce simp: settled_def)

lemma run_calls_settled: "run_calls x c enf v tcs s = Inr (st, s') \<Longrightarrow> settled st s'"
proof (induction tcs arbitrary: v s)
  case Nil
  then show ?case by (auto simp: settled_def)
next
  case (Cons tc tcs)
  from Cons.prems show ?case
    by (cases rule: run_calls_cases) (auto intro: stop_run_settled Cons.IH)
qed

lemma turn_settled: "agent_turn x c enf v s = Inr (st, s') \<Longrightarrow> settled st s'"
proof (erule agent_turn_cases)
  fix r s1 w
  assume "(st, s') = truncated_turn w r s1"
  then show "settled st s'"
    by (auto simp: truncated_turn_def Let_def settled_def split: if_split_asm dest: stop_run_over)
next
  fix r s1 w
  assume "(st, s') = no_tool_turn c w r s1"
  then show "settled st s'"
    by (auto simp: no_tool_turn_def Let_def settled_def split: if_split_asm dest: stop_run_over)
qed (auto intro: stop_run_settled run_calls_settled)

lemma run_calls_advance:
  assumes "\<And>st. ledger_error x st = None" and "\<And>st. host_of x st = h"
  shows "run_calls x c enf v tcs s = Inr (st, s') \<Longrightarrow> list_all (\<lambda>tc. tool_call_defect tc = None) tcs \<Longrightarrow>
    advanced x h s s'"
proof (induction tcs arbitrary: v s)
  case Nil
  then show ?case by (auto intro: same_advanced same_persist)
next
  case (Cons tc tcs)
  from Cons.prems(2) have valid: "tool_call_defect tc = None" by simp
  from Cons.prems(1) show ?case
  proof (cases rule: run_calls_cases)
    case spent
    then show ?thesis by (auto intro: same_advanced dest: stop_run_over)
  next
    case (lost m s1 err)
    with dispatch_advances [OF assms valid lost(2)] stop_run_over [OF lost(3)] show ?thesis
      by (auto intro: advanced_trans same_advanced)
  next
    case (stalled m s1 s2 w)
    have "same_seat s1 s'" using stop_run_over [OF stalled(4)] stalled(3) by (blast intro: same_trans)
    with dispatch_advances [OF assms valid stalled(2)] show ?thesis
      by (auto intro: advanced_trans same_advanced)
  next
    case (done_one m s1 s2 w)
    have "advanced x h s s1" by (rule dispatch_advances [OF assms valid done_one(2)]) simp
    moreover have "advanced x h s1 s2" by (rule same_advanced [OF done_one(3)])
    moreover have "advanced x h s2 s'" using Cons.IH [OF done_one(4)] Cons.prems(2) by simp
    ultimately show ?thesis by (blast intro: advanced_trans)
  qed
qed

lemma turn_advances:
  assumes ok: "\<And>st. ledger_error x st = None" and host: "\<And>st. host_of x st = h" and t: "agent_turn x c enf v s = Inr (st, s')"
  shows "advanced x h s s'"
  using t
proof (cases rule: agent_turn_cases)
  case (at_once status err)
  then show ?thesis by (auto intro: same_advanced dest: stop_run_over)
next
  case (failed e s1 err)
  with same_ask [OF failed(1)] show ?thesis by (auto intro: same_advanced same_trans dest: stop_run_over)
next
  case (truncated r s1 w)
  from truncated(2) have "same_seat s1 s'"
    by (auto simp: truncated_turn_def Let_def split: if_split_asm intro: same_persist dest: stop_run_over)
  with same_ask [OF truncated(1)] show ?thesis by (auto intro: same_advanced same_trans)
next
  case (no_tool r s1 w)
  from no_tool(2) have "same_seat s1 s'"
    by (auto simp: no_tool_turn_def Let_def split: if_split_asm intro: same_persist dest: stop_run_over)
  with same_ask [OF no_tool(1)] show ?thesis by (auto intro: same_advanced same_trans)
next
  case (calls r s1 w)
  with same_advanced [OF same_ask [OF calls(1)]] run_calls_advance [OF ok host calls(2)] show ?thesis
    by (auto simp: valid_calls_def list_all_iff intro: advanced_trans)
qed

subsection \<open>The end of a run\<close>

lemma audit_calls: "audit x tc status detail sha rule s = (e, s') \<Longrightarrow> tool_calls_made s' = tool_calls_made s"
  unfolding audit_def by (drule append_entry_keeps) simp

lemma audited_calls: "audited (audit x tc status detail sha rule s) r = (r', s') \<Longrightarrow> tool_calls_made s' = tool_calls_made s"
  by (auto simp: audited_def dest: audit_calls split: option.splits prod.splits)

lemma execute_calls: "execute_tool x c enf name args s = (r, s') \<Longrightarrow> tool_calls_made s' = tool_calls_made s"
  using execute_effect [of x c enf name args s r s'] by (auto simp: quiet_def book_def)

lemma governed_calls:
  assumes g: "run_governed x c enf tc args sha s = (r, s')"
  shows "tool_calls_made s' = tool_calls_made s"
proof (cases "idempotent_skip x (tc_name tc) args sha s")
  case True
  with g show ?thesis by (auto simp: run_governed_def dest: audited_calls)
next
  case False
  obtain r1 s1 where e: "execute_tool x c enf (tc_name tc) args s = (r1, s1)" by fastforce
  have "tool_calls_made s' = tool_calls_made s1"
  proof (cases r1)
    case (Inl ex)
    with g False e show ?thesis by (cases ex) (auto simp: run_governed_def dest: audited_calls)
  next
    case (Inr m)
    with g False e show ?thesis
      by (auto simp: run_governed_def dest: audit_calls split: prod.splits option.splits if_split_asm)
  qed
  with execute_calls [OF e] show ?thesis by simp
qed

lemma dispatch_calls:
  assumes "dispatch_tool x c enf tc s = (r, s')"
  shows "tool_calls_made s' = tool_calls_made s"
  using assms
proof (cases rule: dispatch_cases)
  case (refused q status detail rule r1)
  then show ?thesis by (auto simp: read_signed_def dest: audited_calls)
next
  case crashed
  then show ?thesis by (auto simp: read_signed_def)
next
  case (governed q es)
  then show ?thesis by (auto simp: read_signed_def dest: governed_calls)
qed

definition turn_weight :: "seat_config \<Rightarrow> loop_vars \<Rightarrow> 'w seat \<Rightarrow> nat" where
  "turn_weight c v s =
     nat (tool_call_limit c - int (tool_calls_made s)) + (MAX_NO_TOOL_REPROMPTS - reprompts_used v) +
     (MAX_TRUNCATION_CONTINUES - continues_used v)"

lemma run_calls_count:
  "run_calls x c enf v tcs s = Inr (st, s') \<Longrightarrow>
   tool_calls_made s \<le> tool_calls_made s' \<and> int (tool_calls_made s') \<le> max (int (tool_calls_made s)) (tool_call_limit c) \<and>
   (\<forall>v'. st = Again v' \<longrightarrow> tool_calls_made s' = tool_calls_made s + length tcs \<and>
      reprompts_used v' = reprompts_used v \<and> continues_used v' = continues_used v)"
proof (induction tcs arbitrary: v s)
  case Nil
  then show ?case by (auto simp: persist_state_def)
next
  case (Cons tc tcs)
  from Cons.prems show ?case
  proof (cases rule: run_calls_cases)
    case spent
    then show ?thesis by (auto simp: stop_run_def persist_state_def)
  next
    case (lost m s1 err)
    with dispatch_calls [OF lost(2)] show ?thesis by (auto simp: stop_run_def persist_state_def)
  next
    case (stalled m s1 s2 w)
    with dispatch_calls [OF stalled(2)] show ?thesis by (auto simp: stop_run_def persist_state_def same_seat_def)
  next
    case (done_one m s1 s2 w)
    have k: "tool_calls_made s2 = Suc (tool_calls_made s)"
      using dispatch_calls [OF done_one(2)] done_one(3) by (simp add: same_seat_def)
    from Cons.IH [OF done_one(4)] k done_one(1,5,6) show ?thesis by auto
  qed
qed

lemma turn_count:
  assumes "agent_turn x c enf v s = Inr (st, s')"
  shows "int (tool_calls_made s') \<le> max (int (tool_calls_made s)) (tool_call_limit c)"
    and "\<And>v'. st = Again v' \<Longrightarrow> turn_weight c v' s' < turn_weight c v s"
proof -
  have "int (tool_calls_made s') \<le> max (int (tool_calls_made s)) (tool_call_limit c) \<and>
    (\<forall>v'. st = Again v' \<longrightarrow> turn_weight c v' s' < turn_weight c v s)"
    using assms
  proof (cases rule: agent_turn_cases)
    case (at_once status err)
    then show ?thesis by (auto simp: stop_run_def persist_state_def)
  next
    case (failed e s1 err)
    with same_ask [OF failed(1)] show ?thesis by (auto simp: stop_run_def persist_state_def same_seat_def)
  next
    case (truncated r s1 w)
    with same_ask [OF truncated(1)] show ?thesis
      by (auto simp: truncated_turn_def stop_run_def persist_state_def same_seat_def turn_weight_def Let_def split: if_split_asm)
  next
    case (no_tool r s1 w)
    with same_ask [OF no_tool(1)] show ?thesis
      by (auto simp: no_tool_turn_def stop_run_def persist_state_def same_seat_def turn_weight_def Let_def split: if_split_asm)
  next
    case (calls r s1 w)
    note k = run_calls_count [OF calls(2)]
    have s1: "tool_calls_made s1 = tool_calls_made s" using same_ask [OF calls(1)] by (simp add: same_seat_def)
    have "0 < length (valid_calls r)" using calls(3) by simp
    with k s1 calls(4-6) show ?thesis by (auto simp: turn_weight_def)
  qed
  then show "int (tool_calls_made s') \<le> max (int (tool_calls_made s)) (tool_call_limit c)"
    and "\<And>v'. st = Again v' \<Longrightarrow> turn_weight c v' s' < turn_weight c v s" by blast+
qed

lemma tool_loop_ends: "turn_weight c v s < n \<Longrightarrow> tool_loop x c enf n v s \<noteq> None"
proof (induction n arbitrary: v s)
  case (Suc n)
  show ?case
  proof (cases "agent_turn x c enf v s")
    case (Inl e)
    then show ?thesis by simp
  next
    case (Inr a)
    then obtain st s' where t: "agent_turn x c enf v s = Inr (st, s')" by (cases a) auto
    show ?thesis
    proof (cases st)
      case (Again v')
      from turn_count(2) [OF t Again] Suc.prems have "turn_weight c v' s' < n" by simp
      with Suc.IH t Again show ?thesis by simp
    next
      case (Over r)
      with t show ?thesis by simp
    qed
  qed
qed simp

lemma tool_loop_calls:
  assumes "tool_loop x c enf n v s = Some (Inr (r, s'))"
  shows "int (res_calls r) \<le> max (int (tool_calls_made s)) (tool_call_limit c) \<and>
    saved s' = Some \<lparr>saved_status = res_status r, saved_calls = res_calls r, saved_messages = res_messages r\<rparr> \<and>
    res_calls r = tool_calls_made s'"
proof (rule tool_loop_rule [OF assms, where P = "\<lambda>v t. int (tool_calls_made t) \<le> max (int (tool_calls_made s)) (tool_call_limit c)"])
  fix v t v' t'
  assume "int (tool_calls_made t) \<le> max (int (tool_calls_made s)) (tool_call_limit c)"
    and "agent_turn x c enf v t = Inr (Again v', t')"
  with turn_count(1) [of x c enf v t "Again v'" t'] show "int (tool_calls_made t') \<le> max (int (tool_calls_made s)) (tool_call_limit c)"
    by simp
next
  fix v t r t'
  assume "int (tool_calls_made t) \<le> max (int (tool_calls_made s)) (tool_call_limit c)"
    and o: "agent_turn x c enf v t = Inr (Over r, t')"
  with turn_count(1) [OF o] turn_settled [OF o]
  show "int (res_calls r) \<le> max (int (tool_calls_made s)) (tool_call_limit c) \<and>
    saved t' = Some \<lparr>saved_status = res_status r, saved_calls = res_calls r, saved_messages = res_messages r\<rparr> \<and>
    res_calls r = tool_calls_made t'"
    by (simp add: settled_def)
qed simp

lemma end_session_simps:
  "end_session x (r, s) = (r', s') \<Longrightarrow> same_seat s s' \<and> saved s' = saved s \<and> wrote_file s' = wrote_file s \<and>
     res_calls r' = res_calls r \<and> res_messages r' = res_messages r \<and> (res_status r' = res_status r \<or> res_status r' = ''error'')"
  by (auto simp: end_session_def Let_def same_seat_def split: prod.splits option.splits if_split_asm)

text \<open>How a run that had a provider with tools came to its result.\<close>

lemma run_tool_loop_cases:
  assumes "run_tool_loop x c enf fuel ms s = Some (Inr (r, s'))"
  obtains r1 s1 s0 where "same_seat s s0" "tool_loop x c enf fuel (start_vars ms) s0 = Some (Inr (r1, s1))"
    "end_session x (r1, s1) = (r, s')"
proof -
  let ?s = "persist_state ''running'' ms (s\<lparr>no_progress_streak := 0, repeat_cmd_streak := 0, last_cmd_sig := None\<rparr>)"
  from assms obtain z where z: "tool_loop x c enf fuel (start_vars ms) ?s = Some z"
    and e: "map_sum id (end_session x) z = Inr (r, s')" by (auto simp: run_tool_loop_def)
  from e obtain r1 s1 where "z = Inr (r1, s1)" "end_session x (r1, s1) = (r, s')" by (cases z) auto
  moreover have "same_seat s ?s" by (simp add: same_seat_def persist_state_def)
  ultimately show thesis using that z by blast
qed

text \<open>C11: a run always ends, whatever the model and the tools answer: as many turns as the tool-call limit, the
  reprompts and the continuations together, and one more, are enough, and the calls it made stay within the limit.\<close>

theorem agent_run_ends:
  assumes "nat (tool_call_limit c) + MAX_NO_TOOL_REPROMPTS + MAX_TRUNCATION_CONTINUES < fuel"
  shows "\<exists>out. run_agent x c fuel sys user prior s = Some out \<and>
    (\<forall>r s'. out = Inr (r, s') \<longrightarrow> int (res_calls r) \<le> max 0 (tool_call_limit c))"
proof -
  let ?s = "s\<lparr>tool_calls_made := 0\<rparr>"
  let ?ms = "System sys # prior @ [User user]"
  show ?thesis
  proof (cases "load_enforcement x (site ?s)")
    case (Inl e)
    then show ?thesis by (simp add: run_agent_def run_messages_def failed_start_def)
  next
    case (Inr enf)
    show ?thesis
    proof (cases "tools_supported c")
      case False
      with Inr show ?thesis
        by (auto simp: run_agent_def run_messages_def finalize_def run_text_only_def result_of_def Let_def
            split: prod.splits sum.splits)
    next
      case True
      let ?t = "persist_state ''running'' ?ms (?s\<lparr>no_progress_streak := 0, repeat_cmd_streak := 0, last_cmd_sig := None\<rparr>)"
      have "turn_weight c (start_vars ?ms) ?t < fuel"
        using assms by (simp add: turn_weight_def start_vars_def persist_state_def)
      then have "run_tool_loop x c enf fuel ?ms ?s \<noteq> None"
        using tool_loop_ends by (simp add: run_tool_loop_def del: not_None_eq)
      then obtain out where out: "run_tool_loop x c enf fuel ?ms ?s = Some out" by blast
      have "int (res_calls r) \<le> max 0 (tool_call_limit c)" if "out = Inr (r, s')" for r s'
      proof -
        from out that have "run_tool_loop x c enf fuel ?ms ?s = Some (Inr (r, s'))" by simp
        then show ?thesis
        proof (cases rule: run_tool_loop_cases)
          case (1 r1 s1 s0)
          then show ?thesis using tool_loop_calls [OF 1(2)] end_session_simps [OF 1(3)] by (simp add: same_seat_def)
        qed
      qed
      with out Inr True show ?thesis
        by (auto simp: run_agent_def run_messages_def finalize_def map_sum_def split: sum.splits)
    qed
  qed
qed

subsection \<open>What a run leaves behind\<close>

lemma tool_loop_advances:
  assumes ok: "\<And>st. ledger_error x st = None" and host: "\<And>st. host_of x st = h" and t: "tool_loop x c enf n v s = Some (Inr (r, s'))"
  shows "advanced x h s s'"
proof (rule tool_loop_rule [OF t, where P = "\<lambda>v t. advanced x h s t"])
  show "advanced x h s s" by (rule same_advanced [OF same_refl])
qed (auto intro: advanced_trans turn_advances [OF ok host])

lemma text_only_same: "run_text_only x ms s = (r, s') \<Longrightarrow> same_seat s s' \<and> res_calls r = 0"
proof -
  assume "run_text_only x ms s = (r, s')"
  moreover obtain a s1 where a: "call_provider x False ms (s\<lparr>saved := Some \<lparr>saved_status = ''running'', saved_calls = 0, saved_messages = ms\<rparr>\<rparr>) = (a, s1)"
    by fastforce
  moreover have "same_seat s s1" using same_provider [OF a] by (simp add: same_seat_def)
  ultimately show ?thesis by (cases a) (auto simp: run_text_only_def Let_def same_seat_def)
qed

lemma finalize_simps [simp]:
  "finalize (r, s) = (r\<lparr>res_tokens_in := tokens_in s, res_tokens_out := tokens_out s, res_wrote_no_files := \<not> wrote_file s\<rparr>, s)"
  by (simp add: finalize_def)

text \<open>A run failed at its start, or asked without tools, or went through the loop.\<close>

lemma run_messages_cases:
  assumes "run_messages x c fuel shown n ms s = Some (Inr (r, s'))"
  obtains (failed) e where "load_enforcement x (site s) = Inl e" "r = failed_start (''Failed to load enforcement state: '' @ e) n shown" "s' = s"
    | (text_only) r1 where "\<not> tools_supported c" "run_text_only x ms s = (r1, s')" "(r, s') = finalize (r1, s')"
    | (loop) enf r1 s1 s0 r2 where "load_enforcement x (site s) = Inr enf" "tools_supported c" "same_seat s s0"
        "tool_loop x c enf fuel (start_vars ms) s0 = Some (Inr (r1, s1))" "end_session x (r1, s1) = (r2, s')"
        "(r, s') = finalize (r2, s')"
proof (cases "load_enforcement x (site s)")
  case (Inl e)
  with assms have "r = failed_start (''Failed to load enforcement state: '' @ e) n shown" "s' = s"
    by (simp_all add: run_messages_def)
  with failed [OF Inl] show thesis by simp
next
  case (Inr enf)
  show thesis
  proof (cases "tools_supported c")
    case False
    obtain r1 s1 where t: "run_text_only x ms s = (r1, s1)" by fastforce
    with assms Inr False have "finalize (r1, s1) = (r, s')" by (simp add: run_messages_def del: finalize_simps)
    moreover from this have "s1 = s'" by simp
    ultimately show thesis using text_only [OF False] t by metis
  next
    case True
    with assms Inr obtain z where z: "run_tool_loop x c enf fuel ms s = Some z" and "map_sum id finalize z = Inr (r, s')"
      by (auto simp: run_messages_def)
    then obtain r2 where r2: "z = Inr (r2, s')" "(r, s') = finalize (r2, s')" by (cases z) auto
    from z r2(1) have "run_tool_loop x c enf fuel ms s = Some (Inr (r2, s'))" by simp
    then obtain r1 s1 s0 where "same_seat s s0" "tool_loop x c enf fuel (start_vars ms) s0 = Some (Inr (r1, s1))"
      "end_session x (r1, s1) = (r2, s')" by (rule run_tool_loop_cases)
    from loop [OF Inr True this r2(2)] show thesis .
  qed
qed

lemma run_messages_advances:
  assumes ok: "\<And>st. ledger_error x st = None" and host: "\<And>st. host_of x st = h" and m: "run_messages x c fuel shown 0 ms s = Some (Inr (r, s'))"
    and z: "tool_calls_made s = 0"
  shows "advanced x h s s' \<and> res_calls r = tool_calls_made s'"
  using m
proof (cases rule: run_messages_cases)
  case (failed e)
  with z show ?thesis by (auto simp: failed_start_def intro: same_advanced same_refl)
next
  case (text_only r1)
  from text_only_same [OF text_only(2)] text_only(3) z show ?thesis
    by (auto intro: same_advanced) (simp add: same_seat_def)
next
  case (loop enf r1 s1 s0 r2)
  note e = end_session_simps [OF loop(5)]
  have "advanced x h s s'"
    using same_advanced [OF loop(3), of x h] tool_loop_advances [OF ok host loop(4)] same_advanced [of s1 s' x h] e
    by (blast intro: advanced_trans)
  with tool_loop_calls [OF loop(4)] e loop(6) show ?thesis by (simp add: same_seat_def)
qed

text \<open>C10: the ledger accounts for a run. On a host whose links do not change, and when its appends succeed, a run adds
  to the ledger, behind the entries that were there, entries numbered from one without gaps, of which one for
  every tool call it counts, and the others are file changes of commands. The entries replay the run: from the
  files at its start to those at its end, one after the other, each changes nothing, or is of a command, or is a
  completed write or edit and changes one file, the one its recorded path names (redacted and clipped as the ledger
  records it), to a text that has, for a write, the digest of the entry. So every file the run changed has its
  own entry, or a command's; and a run that reports it wrote no files changed none, unless a command did.\<close>

theorem ledger_accounts_for_run:
  assumes "\<And>st. ledger_error x st = None" and "\<And>st. host_of x st = h"
    and "run_agent x c fuel sys user prior (new_seat st entries sv) = Some (Inr (r, s'))"
  shows "\<exists>es. tool_ledger s' = entries @ es \<and> map a_seq es = [1..<Suc (length es)] \<and>
    length (filter is_call es) = res_calls r \<and>
    replays x h es (site_files st) (site_files (site s')) \<and>
    (\<forall>p. site_files (site s') p \<noteq> site_files st p \<longrightarrow>
       (\<exists>e \<in> set es. a_tool e = ''run_command'' \<or> wrote_there x h e p)) \<and>
    (site_files (site s') = site_files st \<or> \<not> res_wrote_no_files r \<or> (\<exists>e \<in> set es. a_tool e = ''run_command''))"
proof -
  let ?s = "(new_seat st entries sv)\<lparr>tool_calls_made := 0\<rparr>"
  have m: "run_messages x c fuel [] 0 (System sys # prior @ [User user]) ?s = Some (Inr (r, s'))"
    using assms(3) by (simp add: run_agent_def)
  note adv = run_messages_advances [OF assms(1,2) this]
  have "advanced x h ?s s'" using adv by (simp add: new_seat_def)
  then obtain es where g: "grown ?s s' es" and k: "tool_calls_made s' = tool_calls_made ?s + length (filter is_call es)"
      and f: "replays x h es (site_files (site ?s)) (site_files (site s'))"
      and w: "site_files (site s') \<noteq> site_files (site ?s) \<longrightarrow> wrote_file s' \<or> (\<exists>e \<in> set es. a_tool e = ''run_command'')"
    unfolding advanced_def by blast
  have c: "length (filter is_call es) = res_calls r" using adv k by (simp add: new_seat_def)
  have st: "site ?s = st" by (simp add: new_seat_def)
  from m have "site_files (site s') \<noteq> site_files st \<longrightarrow> res_wrote_no_files r = (\<not> wrote_file s')"
  proof (cases rule: run_messages_cases)
    case (failed e)
    with st show ?thesis by simp
  qed auto
  with w st have "site_files (site s') = site_files st \<or> \<not> res_wrote_no_files r \<or> (\<exists>e \<in> set es. a_tool e = ''run_command'')"
    by argo
  moreover have "tool_ledger s' = entries @ es" "map a_seq es = [1..<Suc (length es)]"
    using g by (simp_all add: grown_def new_seat_def del: upt_Suc)
  moreover have f': "replays x h es (site_files st) (site_files (site s'))" using f unfolding st .
  moreover have "\<forall>p. site_files (site s') p \<noteq> site_files st p \<longrightarrow>
      (\<exists>e \<in> set es. a_tool e = ''run_command'' \<or> wrote_there x h e p)"
    using replays_entry [OF f'] by blast
  ultimately show ?thesis using c by (intro exI [of _ es] conjI)
qed

text \<open>A turn that ends a run as completed came after a tool call, or in a conversation.\<close>

lemma run_calls_status:
  "run_calls x c enf v tcs s = Inr (Over r, s') \<Longrightarrow> res_status r \<noteq> ''completed''"
proof (induction tcs arbitrary: v s)
  case (Cons tc tcs)
  from Cons.prems show ?case
    by (cases rule: run_calls_cases) (auto dest: stop_run_over Cons.IH)
qed simp

lemma turn_status:
  assumes "agent_turn x c enf v s = Inr (Over r, s')" and "res_status r = ''completed''"
  shows "seat_context c = ''conversation'' \<or> 0 < tool_calls_made s'"
  using assms(1)
proof (cases rule: agent_turn_cases)
  case (at_once status err)
  with assms(2) show ?thesis by (auto dest: stop_run_over)
next
  case (failed e s1 err)
  with assms(2) show ?thesis by (auto dest: stop_run_over)
next
  case (truncated r1 s1 w)
  with assms(2) show ?thesis by (auto simp: truncated_turn_def Let_def split: if_split_asm dest: stop_run_over)
next
  case (no_tool r1 s1 w)
  with assms(2) show ?thesis
    by (auto simp: no_tool_turn_def stop_run_def result_of_def persist_state_def Let_def split: if_split_asm)
next
  case (calls r1 s1 w)
  with run_calls_status assms(2) show ?thesis by blast
qed

text \<open>C12: narration is not work: a run that reports completion outside a conversation had tools and dispatched at least
  one call; the state it saved has that result, its calls and its conversation.\<close>

theorem completed_run_used_tools:
  assumes "run_agent x c fuel sys user prior s = Some (Inr (r, s'))" and "res_status r = ''completed''"
    and "seat_context c \<noteq> ''conversation''"
  shows "tools_supported c \<and> 0 < res_calls r \<and>
    saved s' = Some \<lparr>saved_status = ''completed'', saved_calls = res_calls r, saved_messages = res_messages r\<rparr>"
proof -
  have "run_messages x c fuel [] 0 (System sys # prior @ [User user]) (s\<lparr>tool_calls_made := 0\<rparr>) = Some (Inr (r, s'))"
    using assms(1) by (simp add: run_agent_def)
  then show ?thesis
  proof (cases rule: run_messages_cases)
    case (failed e)
    with assms(2) show ?thesis by (simp add: failed_start_def)
  next
    case (text_only r1)
    with assms(2) show ?thesis
      by (auto simp: run_text_only_def result_of_def Let_def split: prod.split_asm sum.split_asm)
  next
    case (loop enf r1 s1 s0 r2)
    note e = end_session_simps [OF loop(5)] and k = tool_loop_calls [OF loop(4)]
    have done_r1: "res_status r1 = ''completed''" using e loop(6) assms(2) by auto
    have "res_status r1 = ''completed'' \<longrightarrow> 0 < tool_calls_made s1"
      by (rule tool_loop_rule [OF loop(4), where P = "\<lambda>_ _. True"]) (use turn_status assms(3) in blast)+
    with done_r1 e k loop(2,6) assms(2) show ?thesis by simp
  qed
qed

subsection \<open>A small run\<close>

text \<open>A provider that asks for one write and then signs off.\<close>

definition demo_call :: "string \<Rightarrow> tool_call" where
  "demo_call i = \<lparr>tc_id = i, tc_name = ''write_file'', tc_args = PDict [(''path'', PStr ''src/a.test.ts''), (''content'', PStr ''x'')]\<rparr>"

definition demo_chat :: "bool \<Rightarrow> message list \<Rightarrow> unit \<Rightarrow> (string + response) \<times> unit" where
  "demo_chat forced ms w =
     (Inr (if length ms \<le> 2
           then \<lparr>content = [], stop_reason = ''tool_use'', tool_calls = [demo_call ''1''], usage = None\<rparr>
           else \<lparr>content = ''ok'', stop_reason = ''end_turn'', tool_calls = [], usage = None\<rparr>), w)"

definition demo_seat :: "unit seat" where
  "demo_seat = new_seat (demo_site []) [] None"

definition demo_agent :: "unit runtime" where
  "demo_agent = (demo_runtime id [])\<lparr>chat := demo_chat\<rparr>"

definition demo_run :: "(string + loop_result \<times> unit seat) option" where
  "demo_run = run_agent demo_agent demo_config 9 ''sys'' ''go'' [] demo_seat"

definition run_state :: "(string + loop_result \<times> unit seat) option \<Rightarrow> loop_result \<times> unit seat" where
  "run_state out = (case out of Some (Inr rs) \<Rightarrow> rs | _ \<Rightarrow> (failed_start [] 0 [], demo_seat))"

lemma demo_run_facts:
  "res_status (fst (run_state demo_run)) = ''completed''" "res_calls (fst (run_state demo_run)) = 1"
  "(case demo_run of Some (Inr _) \<Rightarrow> True | _ \<Rightarrow> False)"
  by code_simp+

lemma demo_run_result: "run_agent demo_agent demo_config 9 ''sys'' ''go'' [] demo_seat =
    Some (Inr (fst (run_state demo_run), snd (run_state demo_run)))"
  using demo_run_facts(3) by (auto simp: run_state_def demo_run_def split: option.splits sum.splits)

lemma demo_limit: "nat (tool_call_limit demo_config) + MAX_NO_TOOL_REPROMPTS + MAX_TRUNCATION_CONTINUES < 9"
  by (simp add: demo_config_def MAX_NO_TOOL_REPROMPTS_def MAX_TRUNCATION_CONTINUES_def)

theorem agent_run_ends_witness:
  "\<exists>out. run_agent demo_agent demo_config 9 ''sys'' ''go'' [] demo_seat = Some out"
  using agent_run_ends [OF demo_limit, of demo_agent "''sys''" "''go''" "[]" demo_seat] by blast

theorem completed_run_used_tools_witness:
  "0 < res_calls (fst (run_state demo_run)) \<and> res_status (fst (run_state demo_run)) = ''completed''"
  using completed_run_used_tools [OF demo_run_result demo_run_facts(1)] demo_run_facts(1)
  by (simp add: demo_config_def)

theorem ledger_accounts_for_run_witness:
  "length (filter is_call (tool_ledger (snd (run_state demo_run)))) = res_calls (fst (run_state demo_run))"
  using ledger_accounts_for_run [of demo_agent demo_host demo_config 9 "''sys''" "''go''" "[]" "demo_site []" "[]" None,
      OF _ _ demo_run_result [unfolded demo_seat_def]]
  by (auto simp: demo_agent_def demo_runtime_def)

lemma demo_dispatch_writes:
  "site_files (site (snd (dispatch_tool demo_agent demo_config default_policy (demo_call ''1'') demo_seat)))
     [''ws'', ''src'', ''a.test.ts''] = Some ''x''"
  by code_simp

theorem agent_writes_are_governed_witness:
  "strict_prefix (root_parts demo_host) [''ws'', ''src'', ''a.test.ts''] \<and>
   site_files (site (snd (dispatch_tool demo_agent demo_config default_policy (demo_call ''1'') demo_seat)))
     [''ws'', ''src'', ''a.test.ts''] = Some ''x''"
  using agent_writes_are_governed [of demo_agent demo_config default_policy "demo_call ''1''" demo_seat,
      OF prod.collapse [symmetric], of "[''ws'', ''src'', ''a.test.ts'']"] demo_dispatch_writes
  by (simp add: demo_call_def demo_seat_def new_seat_def demo_site_def demo_agent_def demo_runtime_def)

subsection \<open>What a run does not do\<close>

text \<open>
  A container that could not be removed makes the run an error, but the saved run stays completed: a
  resume returns that.
\<close>

lemma teardown_failure_not_saved:
  assumes "close_session x (site_rest (site s)) = (Some e, w)" and "res_status r \<noteq> ''error''"
    and "end_session x (r, s) = (r', s')"
  shows "res_status r' = ''error'' \<and> saved s' = saved s"
  using assms by (auto simp: end_session_def)

lemma saved_completion_resumes:
  assumes "saved s = Some \<lparr>saved_status = ''completed'', saved_calls = n, saved_messages = ms\<rparr>" and "ms \<noteq> []"
  shows "\<exists>r. resume_agent x c fuel s = Some (Inr (r, s)) \<and> res_status r = ''completed'' \<and> res_error r = None"
  using assms by (simp add: resume_agent_def)

text \<open>A resumed run numbers its entries from one again, behind those of the first run.\<close>

lemma resumed_numbers_restart:
  assumes "append_entry x e (new_seat st entries sv) = (None, s')"
  shows "tool_ledger s' = entries @ [e 1]"
  using assms by (auto simp: append_entry_def new_seat_def split: option.split_asm)

text \<open>A cancellation is not seen between two calls of one turn: both run.\<close>

lemma cancel_waits_for_turn:
  "let x = demo_agent\<lparr>cancel_check := (\<lambda>_. True)\<rparr> in
   case run_calls x demo_config default_policy (start_vars []) [demo_call ''1'', demo_call ''2''] demo_seat of
     Inr (st, s) \<Rightarrow> tool_calls_made s = 2 | Inl _ \<Rightarrow> False"
  by code_simp

end
