(* ===== verification/ScopeDrift.thy ===== *)
theory ScopeDrift
  imports Prelude
begin

section \<open>Inspection and scope drift (\<open>wave_engine.py\<close>)\<close>

text \<open>
  What the wave engine reads of the workspace, and the heuristics that decide whether a request
  drifts from what is signed. A workspace view gives, for each gate, the strict signed state of
  the status board and the candidate artifact files in the order of the manifest (path, and the
  text when it is a readable file). The overlap ratio is kept as a pair of counts and a signal
  as a constructor, instead of formatted decimals; the dash shown for an empty text is
  \<open>''-''\<close>. The judge is a function that answers or raises.
\<close>

definition GATE_ORDER :: "string list" where
  "GATE_ORDER = [''G0'', ''G1'', ''G2'', ''G3'', ''G4'', ''G5'']"

record workspace_view =
  gate_signed :: "string \<Rightarrow> bool"
  gate_files :: "string \<Rightarrow> (string \<times> string option) list"

subsection \<open>Snippets\<close>

fun snippet_lines :: "nat \<Rightarrow> string list \<Rightarrow> string list \<Rightarrow> string list" where
  "snippet_lines m cleaned [] = cleaned"
| "snippet_lines m cleaned (l # ls) =
     (let s = strip l in
      if s = [] \<or> startswith s ''<!--'' \<or> startswith s ''---'' then snippet_lines m cleaned ls
      else if m < sum_list (map length (cleaned @ [s])) then cleaned @ [s]
      else snippet_lines m (cleaned @ [s]) ls)"

definition read_snippet :: "string \<Rightarrow> string" where
  "read_snippet text = take 240 (join '' '' (snippet_lines 240 [] (splitlines [] text)))"

record gate_artifact =
  art_path :: "string option"
  art_signed :: bool
  art_snippet :: string

record inspection =
  insp_artifact :: "string \<Rightarrow> gate_artifact"
  next_gate :: "string option"
  all_signed :: bool

definition inspect_gate :: "workspace_view \<Rightarrow> string \<Rightarrow> gate_artifact" where
  "inspect_gate w gate =
     (case find (\<lambda>f. snd f \<noteq> None) (gate_files w gate) of
        None \<Rightarrow> \<lparr>art_path = None, art_signed = gate_signed w gate, art_snippet = []\<rparr>
      | Some (p, text) \<Rightarrow>
          \<lparr>art_path = Some p, art_signed = gate_signed w gate, art_snippet = read_snippet (the text)\<rparr>)"

definition inspect :: "workspace_view \<Rightarrow> inspection" where
  "inspect w =
     (let n = find (\<lambda>g. \<not> gate_signed w g) GATE_ORDER
      in \<lparr>insp_artifact = inspect_gate w, next_gate = n, all_signed = (n = None)\<rparr>)"

subsection \<open>Tokens\<close>

definition STOPWORDS :: "string list" where
  "STOPWORDS =
     [''a'', ''an'', ''and'', ''are'', ''as'', ''at'', ''be'', ''build'', ''but'', ''by'',
      ''do'', ''for'', ''from'', ''have'', ''i'', ''in'', ''into'', ''is'', ''it'', ''make'',
      ''me'', ''my'', ''of'', ''on'', ''or'', ''our'', ''she'', ''so'', ''that'', ''the'',
      ''their'', ''this'', ''to'', ''want'', ''was'', ''we'', ''with'', ''you'', ''your'',
      ''would'', ''could'', ''should'', ''can'', ''will'', ''just'', ''some'', ''any'',
      ''all'', ''us'', ''them'', ''they'', ''he'', ''him'', ''her'', ''what'', ''when'',
      ''where'', ''why'', ''how'', ''if'', ''then'', ''than'', ''also'']"

definition token_char :: "char \<Rightarrow> bool" where
  "token_char c \<longleftrightarrow> is_word_char c \<or> c = CHR ''-''"

text \<open>All matches of \<open>[A-Za-z][A-Za-z0-9_-]{2,}\<close>.\<close>

function find_tokens :: "string \<Rightarrow> string list" where
  "find_tokens [] = []"
| "find_tokens (c # cs) =
     (let run = takeWhile token_char cs in
      if (is_upper c \<or> is_lower c) \<and> 2 \<le> length run
      then (c # run) # find_tokens (drop (length run) cs)
      else find_tokens cs)"
  by pat_completeness auto
termination by (relation "measure length") auto

definition tokenize :: "string \<Rightarrow> string list" where
  "tokenize text = remdups (filter (\<lambda>w. w \<notin> set STOPWORDS) (find_tokens (lower text)))"

text \<open>\<open>re.sub(r"\s+", " ", text.strip())[:80]\<close>.\<close>

fun squeeze :: "bool \<Rightarrow> string \<Rightarrow> string" where
  "squeeze prev [] = []"
| "squeeze prev (c # cs) =
     (if is_space c then (if prev then squeeze True cs else CHR '' '' # squeeze True cs)
      else c # squeeze False cs)"

definition summarise :: "string \<Rightarrow> string" where
  "summarise text = (if text = [] then ''-'' else take 80 (squeeze False (strip text)))"

subsection \<open>Conflicts with later signed gates\<close>

definition CONTRADICTION_MARKERS :: "string list" where
  "CONTRADICTION_MARKERS =
     [''instead of'', ''rather than'', ''scrap'', ''throw away'', ''start over'',
      ''replace the'', ''redo the'', ''rewrite the'', ''abandon'', ''drop the'',
      ''different approach'', ''change the'', ''rethink'', ''switch to'', ''no longer'',
      ''completely different'']"

definition LATER_GATE_SUBJECTS :: "string \<Rightarrow> string list" where
  "LATER_GATE_SUBJECTS gate =
     (if gate = ''G2''
      then [''plan'', ''roadmap'', ''milestone'', ''architecture'', ''approach'', ''expectation'',
      ''stack'']
      else [''design'', ''ui'', ''ux'', ''layout'', ''screen'', ''wireframe'', ''mockup'',
      ''prototype'', ''look and feel''])"

datatype signal =
    EmptyRequest
  | LaterGateConflict string
  | ContradictionMarker string
  | GateSubject string
  | TokenOverlap nat nat
  | TokenOverlapLow nat nat
  | TokenOverlapAmbiguous nat nat
  | MismatchPersonalShared
  | MismatchSharedPersonal
  | JudgeFailed string
  | JudgeResolved

record conflict =
  conf_gate :: string
  conf_summary :: string
  conf_signals :: "signal list"

definition conflict_at :: "inspection \<Rightarrow> string \<Rightarrow> string \<Rightarrow> string \<Rightarrow> conflict option" where
  "conflict_at insp request_lower marker gate =
     (let art = insp_artifact insp gate in
      if \<not> art_signed art \<or> art_snippet art = [] then None
      else
        map_option (\<lambda>subject.
            \<lparr>conf_gate = gate, conf_summary = summarise (art_snippet art),
             conf_signals = [LaterGateConflict gate, ContradictionMarker marker, GateSubject subject]\<rparr>)
          (find (\<lambda>s. occurs_in s request_lower) (LATER_GATE_SUBJECTS gate)))"

definition detect_later_gate_conflict :: "inspection \<Rightarrow> string \<Rightarrow> conflict option" where
  "detect_later_gate_conflict insp user_request =
     (let request_lower = lower user_request in
      case find (\<lambda>m. occurs_in m request_lower) CONTRADICTION_MARKERS of
        None \<Rightarrow> None
      | Some marker \<Rightarrow>
          (case conflict_at insp request_lower marker ''G2'' of
             Some c \<Rightarrow> Some c
           | None \<Rightarrow> conflict_at insp request_lower marker ''G3''))"

subsection \<open>Drift\<close>

datatype confidence = Percent nat | HalfPlusRatio nat nat | Judged py

datatype drift_method = NoSoul | Heuristic | LlmJudged | Ambiguous

record drift =
  drifted :: bool
  drift_confidence :: confidence
  drift_how :: drift_method
  recommended_action :: string
  drift_signals :: "signal list"
  conflicting_gate :: "string option"
  conflicting_summary :: "string option"
  current_soul_summary :: string
  new_request_summary :: string

datatype judge_reply = JudgeRaised string | JudgeSays bool py

type_synonym llm_judge = "string \<Rightarrow> string \<Rightarrow> judge_reply"

definition any_phrase :: "string list \<Rightarrow> string \<Rightarrow> bool" where
  "any_phrase phrases text = list_ex (\<lambda>p. occurs_in p text) phrases"

definition stakeholder_signals :: "string \<Rightarrow> string \<Rightarrow> signal list" where
  "stakeholder_signals soul_lower request_lower =
     (if any_phrase [''for me'', ''personal'', ''myself'', ''for myself'', ''for my own''] soul_lower \<and>
         any_phrase [''team'', ''company'', ''customers'', ''clients'', ''users'', ''stakeholder'', ''everyone'',
           ''the public''] request_lower
      then [MismatchPersonalShared] else []) @
     (if any_phrase [''for the team'', ''for my team'', ''for clients'', ''for customers'', ''for users''] soul_lower \<and>
         any_phrase [''just for me'', ''personal use only'', ''myself''] request_lower
      then [MismatchSharedPersonal] else [])"

definition detect_scope_drift ::
    "workspace_view \<Rightarrow> string \<Rightarrow> llm_judge option \<Rightarrow> drift" where
  "detect_scope_drift w user_request judge =
     (let insp = inspect w;
          soul = insp_artifact insp ''G0'';
          verdict = (\<lambda>d c m r sg.
            \<lparr>drifted = d, drift_confidence = c, drift_how = m, recommended_action = r, drift_signals = sg,
             conflicting_gate = None, conflicting_summary = None,
             current_soul_summary = summarise (art_snippet soul),
             new_request_summary = summarise user_request\<rparr>);
          soul_tokens = tokenize (art_snippet soul);
          request_tokens = tokenize user_request;
          a = length (filter (\<lambda>t. t \<in> set soul_tokens) request_tokens);
          b = length request_tokens;
          stake = stakeholder_signals (lower (art_snippet soul)) (lower user_request)
      in
      if \<not> art_signed soul \<or> art_snippet soul = []
      then verdict False (Percent 100) NoSoul ''keep'' []
      else if request_tokens = []
      then verdict False (Percent 50) Heuristic ''keep'' [EmptyRequest]
      else
        (case detect_later_gate_conflict insp user_request of
           Some c \<Rightarrow>
             (verdict True (Percent 85) Heuristic ''reopen-gate'' (conf_signals c))
               \<lparr>conflicting_gate := Some (conf_gate c), conflicting_summary := Some (conf_summary c)\<rparr>
         | None \<Rightarrow>
             if 2 * b \<le> 5 * a
             then verdict False (HalfPlusRatio a b) Heuristic ''keep'' [TokenOverlap a b]
             else if 10 * a \<le> b
             then verdict True (Percent (if stake = [] then 80 else 90)) Heuristic
                    (if stake \<noteq> [] then ''new-project'' else ''amend'') (stake @ [TokenOverlapLow a b])
             else
               (case judge of
                  None \<Rightarrow>
                    verdict False (Percent 40) Ambiguous ''ambiguous'' (stake @ [TokenOverlapAmbiguous a b])
                | Some j \<Rightarrow>
                    (case j (art_snippet soul) user_request of
                       JudgeRaised e \<Rightarrow>
                         verdict False (Percent 30) Ambiguous ''ambiguous''
                           (stake @ [TokenOverlapAmbiguous a b, JudgeFailed e])
                     | JudgeSays d c \<Rightarrow>
                         verdict d (Judged c) LlmJudged (if d then ''amend'' else ''keep'')
                           (stake @ [TokenOverlapAmbiguous a b, JudgeResolved])))))"

subsection \<open>Lemmas\<close>

lemma inspect_next_gate:
  "next_gate (inspect w) = Some g \<Longrightarrow>
   g \<in> set GATE_ORDER \<and> \<not> gate_signed w g \<and>
   (\<forall>h. h \<in> set (takeWhile (\<lambda>h. h \<noteq> g) GATE_ORDER) \<longrightarrow> gate_signed w h)"
  by (auto simp: inspect_def Let_def GATE_ORDER_def split: if_splits)

lemma inspect_all_signed: "all_signed (inspect w) \<longleftrightarrow> (\<forall>g \<in> set GATE_ORDER. gate_signed w g)"
  by (auto simp: inspect_def Let_def find_None_iff)

lemma inspect_next_None: "next_gate (inspect w) = None \<longleftrightarrow> all_signed (inspect w)"
  by (simp add: inspect_def Let_def)

lemma conflict_at_Some:
  "conflict_at insp r m gate = Some c \<Longrightarrow>
   conf_gate c = gate \<and> art_signed (insp_artifact insp gate) \<and>
   list_ex (\<lambda>s. occurs_in s r) (LATER_GATE_SUBJECTS gate)"
  by (auto simp: conflict_at_def Let_def list_ex_iff dest: find_Some_iff [THEN iffD1] split: if_splits)
    (metis find_Some_iff nth_mem)

lemma detect_conflict_Some:
  assumes "detect_later_gate_conflict insp request = Some c"
  shows "conf_gate c \<in> {''G2'', ''G3''} \<and> art_signed (insp_artifact insp (conf_gate c)) \<and>
    any_phrase CONTRADICTION_MARKERS (lower request) \<and>
    any_phrase (LATER_GATE_SUBJECTS (conf_gate c)) (lower request)"
proof -
  from assms obtain m where m: "find (\<lambda>m. occurs_in m (lower request)) CONTRADICTION_MARKERS = Some m"
    and c: "conflict_at insp (lower request) m ''G2'' = Some c \<or> conflict_at insp (lower request) m ''G3'' = Some c"
    by (auto simp: detect_later_gate_conflict_def Let_def split: option.splits)
  from m have "any_phrase CONTRADICTION_MARKERS (lower request)"
    by (auto simp: any_phrase_def list_ex_iff find_Some_iff)
  with c conflict_at_Some [of insp "lower request" m] show ?thesis
    by (auto simp: any_phrase_def)
qed

lemma overlap_le: "length (filter P xs) \<le> length xs"
  by (rule length_filter_le)

definition overlap :: "workspace_view \<Rightarrow> string \<Rightarrow> nat" where
  "overlap w request =
     length (filter (\<lambda>t. t \<in> set (tokenize (art_snippet (insp_artifact (inspect w) ''G0'')))) (tokenize request))"

subsection \<open>Properties\<close>

text \<open>drift is never reported without evidence. Unless the Soul is signed and readable there is
  none; and a drift verdict means that the request contradicts a signed plan or design in words
  of that gate, or shares at most a tenth of its words with the Soul, or that the judge said so
  on a request the heuristics left open.\<close>

theorem drift_needs_evidence:
  assumes "drifted (detect_scope_drift w request judge)"
  shows "gate_signed w ''G0'' \<and> art_snippet (insp_artifact (inspect w) ''G0'') \<noteq> [] \<and>
    ((\<exists>g. conflicting_gate (detect_scope_drift w request judge) = Some g \<and> g \<in> {''G2'', ''G3''} \<and>
        gate_signed w g \<and> any_phrase CONTRADICTION_MARKERS (lower request) \<and>
        any_phrase (LATER_GATE_SUBJECTS g) (lower request)) \<or>
     10 * overlap w request \<le> length (tokenize request) \<or>
     (\<exists>j c. judge = Some j \<and> j (art_snippet (insp_artifact (inspect w) ''G0'')) request = JudgeSays True c \<and>
        5 * overlap w request < 2 * length (tokenize request)))"
proof -
  let ?soul = "insp_artifact (inspect w) ''G0''"
  have sg: "art_signed (insp_artifact (inspect w) g) = gate_signed w g" for g
    by (simp add: inspect_def inspect_gate_def Let_def split: option.splits prod.splits)
  from assms have soul: "art_signed ?soul" "art_snippet ?soul \<noteq> []" and ne: "tokenize request \<noteq> []"
    by (auto simp: detect_scope_drift_def Let_def split: if_splits)
  show ?thesis
  proof (cases "detect_later_gate_conflict (inspect w) request")
    case (Some c)
    with soul ne have "conflicting_gate (detect_scope_drift w request judge) = Some (conf_gate c)"
      by (simp add: detect_scope_drift_def Let_def)
    with detect_conflict_Some [OF Some] soul sg show ?thesis by blast
  next
    case None
    with assms soul ne sg show ?thesis
      by (auto simp: detect_scope_drift_def Let_def overlap_def split: if_splits option.splits judge_reply.splits)
  qed
qed

definition demo_view :: workspace_view where
  "demo_view =
     \<lparr>gate_signed = (\<lambda>g. g = ''G0''),
      gate_files = (\<lambda>g. if g = ''G0'' then [(''soul.md'', Some ''A recipe planner'')] else [])\<rparr>"

theorem drift_needs_evidence_witness:
  "drifted (detect_scope_drift demo_view ''track invoices monthly'' None) \<and>
   10 * overlap demo_view ''track invoices monthly'' \<le> 3"
proof -
  have d: "drifted (detect_scope_drift demo_view ''track invoices monthly'' None)"
    and c: "conflicting_gate (detect_scope_drift demo_view ''track invoices monthly'' None) = None"
    and t: "length (tokenize ''track invoices monthly'') = 3"
    by code_simp+
  from drift_needs_evidence [OF d] c t d show ?thesis by auto
qed

end
