(* ===== verification/WaveEngine.thy ===== *)
theory WaveEngine
  imports ScopeDrift
begin

section \<open>The wave engine (\<open>wave_engine.py\<close>, the \<open>wave_*\<close> commands of the IPC server)\<close>

text \<open>
  The state machine that walks a project through the gates, its interpretation of a chat reply,
  and the three commands of the IPC server that drive it, each of which builds an engine from
  the persisted snapshot and, where the code does, writes the snapshot back. Loading the prompt
  file of a gate's agent is left out of the results.
\<close>

subsection \<open>Replies\<close>

definition AFFIRMATION_ALLOWLIST :: "string list" where
  "AFFIRMATION_ALLOWLIST =
     [''yes'', ''y'', ''yeah'', ''yep'', ''confirm'', ''confirmed'', ''approve'', ''approved'',
      ''looks good'', ''lgtm'', ''proceed'', ''go'', ''go ahead'', ''sign'', ''sign it'',
      ''ok'', ''okay'', ''ship it'', ''ship'']"

definition REFINEMENT_HINTS :: "string list" where
  "REFINEMENT_HINTS =
     [''change'', ''instead'', ''actually'', ''wait'', ''no'', ''not'', ''but'', ''rather'',
      ''different'', ''reword'', ''rewrite'', ''redo'', ''again'', ''tweak'', ''edit'',
      ''amend'', ''modify'']"

datatype reply_kind = Affirm | Refine | Question | Other

record reply_class =
  reply_kind :: reply_kind
  matched_phrase :: "string option"
  reply_raw :: string

text \<open>All matches of \<open>[a-z']+\<close>.\<close>

function find_words :: "string \<Rightarrow> string list" where
  "find_words [] = []"
| "find_words (c # cs) =
     (let ok = (\<lambda>c. is_lower c \<or> c = CHR 0x27) in
      if ok c then (c # takeWhile ok cs) # find_words (dropWhile ok cs) else find_words cs)"
  by pat_completeness auto
termination by (relation "measure length") (auto simp: less_Suc_eq_le length_dropWhile_le)

definition padded_phrase :: "string \<Rightarrow> string \<Rightarrow> bool" where
  "padded_phrase s phrase \<longleftrightarrow>
     CHR '' '' \<in> set phrase \<and> startswith s phrase \<and> length (strip (drop (length phrase) s)) \<le> 12"

definition terminal_mark :: "char \<Rightarrow> bool" where
  "terminal_mark c \<longleftrightarrow> c \<in> set ''.!?,;: ''"

text \<open>The loop over the allowlist runs over a set; \<open>phrases\<close> is the order of this run.\<close>

definition classify_reply_over :: "string list \<Rightarrow> string \<Rightarrow> reply_class" where
  "classify_reply_over phrases reply =
     (let answer = (\<lambda>k m. \<lparr>reply_kind = k, matched_phrase = m, reply_raw = reply\<rparr>);
          normalised = lower (strip reply);
          stripped = rstrip_by terminal_mark normalised
      in
      if reply = [] then answer Other None
      else if endswith normalised ''?'' then answer Question None
      else if stripped \<in> set phrases then answer Affirm (Some stripped)
      else
        (case find (padded_phrase stripped) phrases of
           Some phrase \<Rightarrow> answer Affirm (Some phrase)
         | None \<Rightarrow>
             if list_ex (\<lambda>w. w \<in> set REFINEMENT_HINTS) (find_words normalised) then answer Refine None
             else answer Other None))"

definition classify_user_reply :: "string \<Rightarrow> reply_class" where
  "classify_user_reply reply = classify_reply_over AFFIRMATION_ALLOWLIST reply"

subsection \<open>Bubbles\<close>

record bubble =
  bubble_kind :: string
  bubble_gate :: "string option"
  bubble_text :: string
  bubble_detail :: string

definition GATE_HUMAN_NAMES :: "(string \<times> string) list" where
  "GATE_HUMAN_NAMES =
     [(''G0'', ''Soul''), (''G1'', ''Belief''), (''G2'', ''Plan''), (''G3'', ''Design''), (''G4'', ''Build''),
      (''G5'', ''Ship'')]"

text \<open>Dashes of the texts are written \<open>-\<close>.\<close>

definition build_system_bubble :: "string \<Rightarrow> string option \<Rightarrow> string \<Rightarrow> bubble" where
  "build_system_bubble kind gate detail =
     (let g = (case gate of None \<Rightarrow> [] | Some g \<Rightarrow> g);
          name = (case map_of GATE_HUMAN_NAMES g of None \<Rightarrow> [] | Some n \<Rightarrow> n);
          label = (if g \<noteq> [] \<and> name \<noteq> [] then name @ '' ('' @ g @ '')'' else g);
          text =
            (if kind = ''reroute'' then
               (if label \<noteq> [] then label @ '' isn'' @ [CHR 0x27] @ ''t signed yet - firing that agent first.''
                else ''Routing to the next gate'' @ [CHR 0x27] @ ''s agent first.'')
             else if kind = ''sign-recorded'' then
               (if label \<noteq> [] then ''Captured your answer as '' @ label @ '' sign-off - saved to audit trail.''
                else ''Sign-off captured - saved to audit trail.'')
             else if kind = ''scope-drift'' then
               ''This new request feels different from the signed Soul - see options.''
             else if kind = ''complete'' then ''All gates signed - wave complete.''
             else if detail \<noteq> [] then detail else kind)
      in \<lparr>bubble_kind = kind, bubble_gate = gate, bubble_text = text, bubble_detail = detail\<rparr>)"

subsection \<open>States and transitions\<close>

datatype wave_state =
    ENTRY
  | INSPECT
  | DECIDE
  | DISPATCH
  | AWAIT_USER_CONFIRM
  | SIGN
  | ADVANCE
  | SCOPE_DRIFT
  | COMPLETE

definition LEGAL_TRANSITIONS :: "wave_state \<Rightarrow> wave_state list" where
  "LEGAL_TRANSITIONS s =
     (case s of
        ENTRY \<Rightarrow> [INSPECT]
      | INSPECT \<Rightarrow> [DECIDE, SCOPE_DRIFT]
      | DECIDE \<Rightarrow> [DISPATCH, COMPLETE]
      | DISPATCH \<Rightarrow> [AWAIT_USER_CONFIRM, SIGN]
      | AWAIT_USER_CONFIRM \<Rightarrow> [SIGN, DISPATCH]
      | SIGN \<Rightarrow> [ADVANCE]
      | ADVANCE \<Rightarrow> [INSPECT, COMPLETE]
      | SCOPE_DRIFT \<Rightarrow> [INSPECT, ENTRY]
      | COMPLETE \<Rightarrow> [])"

definition state_name :: "wave_state \<Rightarrow> string" where
  "state_name s =
     (case s of
        ENTRY \<Rightarrow> ''ENTRY''
      | INSPECT \<Rightarrow> ''INSPECT''
      | DECIDE \<Rightarrow> ''DECIDE''
      | DISPATCH \<Rightarrow> ''DISPATCH''
      | AWAIT_USER_CONFIRM \<Rightarrow> ''AWAIT_USER_CONFIRM''
      | SIGN \<Rightarrow> ''SIGN''
      | ADVANCE \<Rightarrow> ''ADVANCE''
      | SCOPE_DRIFT \<Rightarrow> ''SCOPE_DRIFT''
      | COMPLETE \<Rightarrow> ''COMPLETE'')"

definition all_states :: "wave_state list" where
  "all_states =
     [ENTRY, INSPECT, DECIDE, DISPATCH, AWAIT_USER_CONFIRM, SIGN, ADVANCE, SCOPE_DRIFT, COMPLETE]"

definition state_of_name :: "string \<Rightarrow> wave_state option" where
  "state_of_name n = find (\<lambda>s. state_name s = n) all_states"

record engine =
  project_id :: string
  session_id :: "string option"
  state :: wave_state
  current_gate :: "string option"
  last_drift :: "drift option"
  last_user_request :: "string option"
  history :: "(wave_state \<times> wave_state) list"

datatype engine_error =
    IllegalTransition wave_state wave_state
  | NotInState string wave_state
  | NoCurrentGate
  | UnknownGate string
  | UnknownChoice string

definition transition :: "wave_state \<Rightarrow> engine \<Rightarrow> engine_error + engine" where
  "transition target e =
     (if target \<notin> set (LEGAL_TRANSITIONS (state e)) then Inl (IllegalTransition (state e) target)
      else Inr (e\<lparr>history := history e @ [(state e, target)], state := target\<rparr>))"

fun transitions :: "wave_state list \<Rightarrow> engine \<Rightarrow> engine_error + engine" where
  "transitions [] e = Inr e"
| "transitions (s # ss) e = and_then (transition s e) (transitions ss)"

record wave_result =
  action :: string
  res_gate :: "string option"
  signed_gate :: "string option"
  res_bubble :: "bubble option"
  auto_signed :: bool
  res_class :: "reply_class option"
  res_drift :: "drift option"

definition plain_result :: "string \<Rightarrow> string option \<Rightarrow> wave_result" where
  "plain_result a g =
     \<lparr>action = a, res_gate = g, signed_gate = None, res_bubble = None, auto_signed = False,
      res_class = None, res_drift = None\<rparr>"

subsection \<open>Operations\<close>

definition engine_begin ::
    "workspace_view \<Rightarrow> llm_judge option \<Rightarrow> string \<Rightarrow> engine \<Rightarrow> engine_error + wave_result \<times> engine" where
  "engine_begin w judge user_request e =
     and_then (transition INSPECT (e\<lparr>last_user_request := Some user_request\<rparr>)) (\<lambda>e.
       let insp = inspect w;
           d = detect_scope_drift w user_request judge;
           e = e\<lparr>last_drift := Some d\<rparr>
       in if drifted d then
            and_then (transition SCOPE_DRIFT e) (\<lambda>e.
              Inr ((plain_result ''scope-drift-prompt'' None)
                \<lparr>res_bubble := Some (build_system_bubble ''scope-drift'' None []), res_drift := Some d\<rparr>, e))
          else
            and_then (transition DECIDE e) (\<lambda>e.
              case next_gate insp of
                None \<Rightarrow>
                  and_then (transition COMPLETE e) (\<lambda>e.
                    Inr ((plain_result ''complete'' None)
                      \<lparr>res_bubble := Some (build_system_bubble ''complete'' None []), res_drift := Some d\<rparr>, e))
              | Some g \<Rightarrow>
                  and_then (transition DISPATCH (e\<lparr>current_gate := Some g\<rparr>)) (\<lambda>e.
                    Inr ((plain_result (''fire-agent-'' @ g) (Some g))
                      \<lparr>res_bubble := Some (build_system_bubble ''reroute'' (Some g) []), res_drift := Some d\<rparr>, e))))"

definition resolve_scope_drift :: "string \<Rightarrow> engine \<Rightarrow> engine_error + wave_result \<times> engine" where
  "resolve_scope_drift choice e =
     (if state e \<noteq> SCOPE_DRIFT then Inl (NotInState ''resolve_scope_drift'' (state e))
      else
        (let n = lower (strip choice);
             go = (\<lambda>s r. and_then (transition s e) (\<lambda>e. Inr (r, e)))
         in
         if n \<in> {''a'', ''amend''} then go INSPECT (plain_result ''fire-agent-G0'' (Some ''G0''))
         else if n \<in> {''b'', ''new-parallel'', ''new-project-parallel''}
         then go ENTRY (plain_result ''new-project-same-workspace'' None)
         else if n \<in> {''c'', ''new-folder'', ''new-project-folder''}
         then go ENTRY (plain_result ''new-project-new-workspace'' None)
         else if n \<in> {''d'', ''keep'', ''same-project''}
         then go INSPECT (plain_result ''treat-as-refinement'' (current_gate e))
         else if n \<in> {''e'', ''reopen'', ''reopen-gate''}
         then go INSPECT (plain_result ''reopen-gate''
                (case last_drift e of None \<Rightarrow> None | Some d \<Rightarrow> conflicting_gate d))
         else Inl (UnknownChoice choice)))"

text \<open>\<open>GATE_ORDER[idx + 1:]\<close>.\<close>

definition gates_after :: "string \<Rightarrow> string list" where
  "gates_after g = tl (dropWhile (\<lambda>h. h \<noteq> g) GATE_ORDER)"

definition sign_current_gate :: "string \<Rightarrow> engine \<Rightarrow> engine_error + wave_result \<times> engine" where
  "sign_current_gate evidence e =
     (if state e \<noteq> DISPATCH \<and> state e \<noteq> AWAIT_USER_CONFIRM
      then Inl (NotInState ''sign_current_gate'' (state e))
      else
        (case current_gate e of
           None \<Rightarrow> Inl NoCurrentGate
         | Some g \<Rightarrow>
             if g = [] then Inl NoCurrentGate
             else
               and_then
                 (transitions ((if state e = DISPATCH then [AWAIT_USER_CONFIRM] else []) @ [SIGN, ADVANCE]) e)
                 (\<lambda>e.
                   let b = build_system_bubble ''sign-recorded'' (Some g) (''evidence: '' @ repr_str evidence) in
                   if g \<notin> set GATE_ORDER then Inl (UnknownGate g)
                   else
                     (case gates_after g of
                        [] \<Rightarrow>
                          and_then (transition COMPLETE e) (\<lambda>e.
                            Inr ((plain_result ''complete'' None)
                              \<lparr>signed_gate := Some g, res_bubble := Some b\<rparr>, e))
                      | n # _ \<Rightarrow>
                          and_then (transition INSPECT (e\<lparr>current_gate := Some n\<rparr>)) (\<lambda>e.
                            Inr ((plain_result (''fire-agent-'' @ n) (Some n))
                              \<lparr>signed_gate := Some g, res_bubble := Some b\<rparr>, e))))))"

definition resume_at_dispatch :: "string \<Rightarrow> engine \<Rightarrow> engine_error + engine" where
  "resume_at_dispatch gate e =
     (if state e \<noteq> ENTRY then Inl (NotInState ''resume_at_dispatch'' (state e))
      else if gate \<notin> set GATE_ORDER then Inl (UnknownGate gate)
      else
        and_then (transitions [INSPECT, DECIDE] e) (\<lambda>e. transition DISPATCH (e\<lparr>current_gate := Some gate\<rparr>)))"

definition handle_user_reply :: "string \<Rightarrow> engine \<Rightarrow> engine_error + wave_result \<times> engine" where
  "handle_user_reply reply e =
     (let c = classify_user_reply reply in
      case reply_kind c of
        Affirm \<Rightarrow>
          (if state e \<noteq> DISPATCH \<and> state e \<noteq> AWAIT_USER_CONFIRM
           then Inr ((plain_result ''ambiguous'' None)\<lparr>res_class := Some c\<rparr>, e)
           else
             and_then (sign_current_gate reply e) (\<lambda>(r, e).
               Inr (r\<lparr>auto_signed := True, res_class := Some c\<rparr>, e)))
      | Question \<Rightarrow> Inr ((plain_result ''answer-question'' None)\<lparr>res_class := Some c\<rparr>, e)
      | Refine \<Rightarrow> Inr ((plain_result ''refine'' (current_gate e))\<lparr>res_class := Some c\<rparr>, e)
      | Other \<Rightarrow> Inr ((plain_result ''ambiguous'' None)\<lparr>res_class := Some c\<rparr>, e))"

subsection \<open>Persistence and the IPC commands\<close>

definition new_engine :: "string \<Rightarrow> engine" where
  "new_engine pid =
     \<lparr>project_id = pid, session_id = None, state = ENTRY, current_gate = None, last_drift = None,
      last_user_request = None, history = []\<rparr>"

definition to_persisted :: "engine \<Rightarrow> (string \<times> py) list" where
  "to_persisted e =
     [(''version'', PInt 1), (''project_id'', PStr (project_id e)), (''session_id'', opt_str (session_id e)),
      (''state'', PStr (state_name (state e))), (''current_gate'', opt_str (current_gate e)),
      (''last_user_request'', opt_str (last_user_request e))]"

definition hydrate_from :: "(string \<times> py) list \<Rightarrow> engine \<Rightarrow> engine" where
  "hydrate_from persisted e =
     (let e = (case get_py persisted ''state'' of
                 PStr n \<Rightarrow> e\<lparr>state := (case state_of_name n of None \<Rightarrow> ENTRY | Some s \<Rightarrow> s)\<rparr>
               | _ \<Rightarrow> e);
          e = (case get_py persisted ''current_gate'' of
                 PStr g \<Rightarrow> if g \<in> set GATE_ORDER then e\<lparr>current_gate := Some g\<rparr> else e
               | _ \<Rightarrow> e)
      in (case get_py persisted ''last_user_request'' of
            PStr r \<Rightarrow> e\<lparr>last_user_request := Some r\<rparr>
          | _ \<Rightarrow> e))"

text \<open>The snapshot file: missing, unparseable, or a value.\<close>

definition load_persisted_state :: "json_file option \<Rightarrow> (string \<times> py) list option" where
  "load_persisted_state f = (case f of Some (Json (PDict d)) \<Rightarrow> Some d | _ \<Rightarrow> None)"

definition build_engine :: "string \<Rightarrow> json_file option \<Rightarrow> engine" where
  "build_engine pid f =
     (case load_persisted_state f of
        None \<Rightarrow> new_engine pid
      | Some d \<Rightarrow> if d = [] then new_engine pid else hydrate_from d (new_engine pid))"

definition persist :: "engine \<Rightarrow> json_file option" where
  "persist e = Some (Json (PDict (to_persisted e)))"

text \<open>A command that raises leaves the file as it is.\<close>

definition wave_begin ::
    "string \<Rightarrow> workspace_view \<Rightarrow> llm_judge option \<Rightarrow> string \<Rightarrow> json_file option \<Rightarrow>
     (engine_error + wave_result) \<times> json_file option" where
  "wave_begin pid w judge user_request f =
     (case engine_begin w judge user_request (build_engine pid f) of
        Inl err \<Rightarrow> (Inl err, f)
      | Inr (r, e) \<Rightarrow> (Inr r, persist e))"

definition wave_reply ::
    "string \<Rightarrow> string \<Rightarrow> string \<Rightarrow> json_file option \<Rightarrow> (engine_error + wave_result) \<times> json_file option" where
  "wave_reply pid user_reply gate f =
     (let e = build_engine pid f;
          ready = (if state e = ENTRY then resume_at_dispatch gate e else Inr (e\<lparr>current_gate := Some gate\<rparr>))
      in
      case ready of
        Inl _ \<Rightarrow> (Inr (plain_result ''error'' None), f)
      | Inr e \<Rightarrow>
          (case handle_user_reply user_reply e of
             Inl err \<Rightarrow> (Inl err, f)
           | Inr (r, e) \<Rightarrow> (Inr r, persist e)))"

definition wave_scope_drift_resolve ::
    "string \<Rightarrow> workspace_view \<Rightarrow> llm_judge option \<Rightarrow> string \<Rightarrow> string \<Rightarrow> json_file option \<Rightarrow>
     engine_error + wave_result" where
  "wave_scope_drift_resolve pid w judge user_request choice f =
     and_then (engine_begin w judge user_request (build_engine pid f)) (\<lambda>(r, e).
       if state e \<noteq> SCOPE_DRIFT then Inr (plain_result ''no-longer-drifted'' None)
       else
         (case resolve_scope_drift choice e of
            Inl (UnknownChoice c) \<Rightarrow> Inr (plain_result ''error'' None)
          | Inl err \<Rightarrow> Inl err
          | Inr (r, _) \<Rightarrow> Inr r))"

subsection \<open>Legal histories\<close>

inductive legal_path :: "wave_state \<Rightarrow> (wave_state \<times> wave_state) list \<Rightarrow> wave_state \<Rightarrow> bool" where
  start: "legal_path s [] s"
| step: "legal_path s h t \<Longrightarrow> u \<in> set (LEGAL_TRANSITIONS t) \<Longrightarrow> legal_path s (h @ [(t, u)]) u"

inductive_cases legal_path_nil: "legal_path s [] t"
inductive_cases legal_path_snoc: "legal_path s (h @ [x]) t"

lemma legal_path_two:
  "legal_path s h t \<Longrightarrow> u \<in> set (LEGAL_TRANSITIONS t) \<Longrightarrow> v \<in> set (LEGAL_TRANSITIONS u) \<Longrightarrow>
   legal_path s (h @ [(t, u), (u, v)]) v"
  using legal_path.step [OF legal_path.step] by fastforce

lemma legal_path_three:
  "legal_path s h t \<Longrightarrow> u \<in> set (LEGAL_TRANSITIONS t) \<Longrightarrow> v \<in> set (LEGAL_TRANSITIONS u) \<Longrightarrow>
   w \<in> set (LEGAL_TRANSITIONS v) \<Longrightarrow> legal_path s (h @ [(t, u), (u, v), (v, w)]) w"
  using legal_path.step [OF legal_path_two] by fastforce

lemmas legal_paths = legal_path.step legal_path_two legal_path_three

definition engine_inv :: "engine \<Rightarrow> bool" where
  "engine_inv e \<longleftrightarrow> legal_path ENTRY (history e) (state e)"

text \<open>What a successful transition does to an engine.\<close>

lemma engine_transition_Inr:
  "transition t e = Inr e' \<longleftrightarrow>
   t \<in> set (LEGAL_TRANSITIONS (state e)) \<and> e' = e\<lparr>history := history e @ [(state e, t)], state := t\<rparr>"
  by (auto simp: transition_def)

lemma transition_inv [inv_intros]: "engine_inv e \<Longrightarrow> transition t e = Inr e' \<Longrightarrow> engine_inv e'"
  by (auto simp: engine_transition_Inr engine_inv_def intro: legal_path.step)

lemma transitions_inv [inv_intros]: "engine_inv e \<Longrightarrow> transitions ts e = Inr e' \<Longrightarrow> engine_inv e'"
  by (induction ts arbitrary: e) (auto simp: and_then_Inr intro: inv_intros)

lemma engine_inv_update [simp]:
  "engine_inv (e\<lparr>current_gate := g\<rparr>) = engine_inv e"
  "engine_inv (e\<lparr>last_drift := d\<rparr>) = engine_inv e"
  "engine_inv (e\<lparr>last_user_request := r\<rparr>) = engine_inv e"
  by (simp_all add: engine_inv_def)

lemma transitions_history: "transitions ts e = Inr e' \<Longrightarrow> length (history e) \<le> length (history e')"
  by (induction ts arbitrary: e) (fastforce simp: and_then_Inr engine_transition_Inr)+

lemma engine_begin_keeps:
  assumes "engine_begin w judge req e = Inr (r, e')"
  shows "length (history e) \<le> length (history e') \<and> (engine_inv e \<longrightarrow> engine_inv e')"
  using assms
  by (auto simp: engine_begin_def and_then_Inr Let_def engine_transition_Inr engine_inv_def
      intro: legal_paths split: if_splits option.splits)

lemma resolve_keeps:
  assumes "resolve_scope_drift c e = Inr (r, e')"
  shows "length (history e) \<le> length (history e') \<and> (engine_inv e \<longrightarrow> engine_inv e')"
  using assms
  by (auto simp: resolve_scope_drift_def and_then_Inr Let_def intro: inv_intros split: if_splits)
    (simp_all add: engine_transition_Inr)

lemma sign_Inr:
  assumes "sign_current_gate ev e = Inr (r, e')"
  shows "\<exists>g. state e \<in> {DISPATCH, AWAIT_USER_CONFIRM} \<and> current_gate e = Some g \<and> signed_gate r = Some g \<and>
    g \<in> set GATE_ORDER \<and> length (history e) \<le> length (history e') \<and> (engine_inv e \<longrightarrow> engine_inv e') \<and>
    (case gates_after g of [] \<Rightarrow> state e' = COMPLETE
     | n # _ \<Rightarrow> state e' = INSPECT \<and> current_gate e' = Some n)"
proof -
  from assms obtain g e1 where g: "state e \<in> {DISPATCH, AWAIT_USER_CONFIRM}" "current_gate e = Some g"
      "g \<in> set GATE_ORDER"
    and t: "transitions ((if state e = DISPATCH then [AWAIT_USER_CONFIRM] else []) @ [SIGN, ADVANCE]) e = Inr e1"
    and rest: "(case gates_after g of
        [] \<Rightarrow> \<exists>e2. transition COMPLETE e1 = Inr e2 \<and> e' = e2
      | n # _ \<Rightarrow> \<exists>e2. transition INSPECT (e1\<lparr>current_gate := Some n\<rparr>) = Inr e2 \<and> e' = e2)"
    and r: "signed_gate r = Some g"
    by (auto simp: sign_current_gate_def Let_def and_then_Inr split: if_splits option.splits list.splits)
  from rest have "length (history e1) \<le> length (history e') \<and> (engine_inv e1 \<longrightarrow> engine_inv e') \<and>
      (case gates_after g of [] \<Rightarrow> state e' = COMPLETE
       | n # _ \<Rightarrow> state e' = INSPECT \<and> current_gate e' = Some n)"
    by (auto simp: engine_transition_Inr engine_inv_def intro: legal_path.step split: list.splits)
  with g r transitions_history [OF t] transitions_inv [OF _ t] show ?thesis by fastforce
qed

lemma resume_Inr:
  assumes "resume_at_dispatch g e = Inr e'"
  shows "state e = ENTRY \<and> state e' = DISPATCH \<and> current_gate e' = Some g \<and> g \<in> set GATE_ORDER \<and>
    length (history e) \<le> length (history e') \<and> (engine_inv e \<longrightarrow> engine_inv e')"
  using assms
  by (auto simp: resume_at_dispatch_def and_then_Inr engine_transition_Inr engine_inv_def
      intro: legal_paths split: if_splits)

lemma reply_Inr:
  assumes "handle_user_reply reply e = Inr (r, e')"
  shows "if reply_kind (classify_user_reply reply) = Affirm \<and> state e \<in> {DISPATCH, AWAIT_USER_CONFIRM}
    then \<exists>r'. sign_current_gate reply e = Inr (r', e') \<and> signed_gate r = signed_gate r' \<and> auto_signed r
    else e' = e \<and> signed_gate r = None \<and> \<not> auto_signed r"
  using assms
  by (cases "reply_kind (classify_user_reply reply)")
    (auto simp: handle_user_reply_def Let_def and_then_Inr plain_result_def split: if_splits)

text \<open>The operations of the engine as events. An operation that raises is followed by a discarded
  engine in the code; its event changes nothing.\<close>

datatype engine_op =
    Begin workspace_view "llm_judge option" string
  | Resolve string
  | SignGate string
  | Resume string
  | Reply string

fun engine_apply :: "engine \<Rightarrow> engine_op \<Rightarrow> engine_error + engine" where
  "engine_apply e (Begin w j r) = map_sum id snd (engine_begin w j r e)"
| "engine_apply e (Resolve c) = map_sum id snd (resolve_scope_drift c e)"
| "engine_apply e (SignGate ev) = map_sum id snd (sign_current_gate ev e)"
| "engine_apply e (Resume g) = resume_at_dispatch g e"
| "engine_apply e (Reply r) = map_sum id snd (handle_user_reply r e)"

definition engine_step :: "engine \<Rightarrow> engine_op \<Rightarrow> engine" where
  "engine_step e op = (case engine_apply e op of Inl _ \<Rightarrow> e | Inr e' \<Rightarrow> e')"

lemma map_sum_snd_Inr: "map_sum id snd x = Inr e' \<longleftrightarrow> (\<exists>r. x = Inr (r, e'))"
  by (cases x) auto

lemma engine_apply_keeps:
  assumes "engine_apply e op = Inr e'"
  shows "length (history e) \<le> length (history e') \<and> (engine_inv e \<longrightarrow> engine_inv e')"
proof (cases op)
  case (Begin w j r)
  with assms show ?thesis using engine_begin_keeps by (auto simp: map_sum_snd_Inr)
next
  case (Resolve c)
  with assms show ?thesis using resolve_keeps by (auto simp: map_sum_snd_Inr)
next
  case (SignGate ev)
  with assms show ?thesis using sign_Inr by (fastforce simp: map_sum_snd_Inr)
next
  case (Resume g)
  with assms show ?thesis using resume_Inr by auto
next
  case (Reply rep)
  with assms obtain r where "handle_user_reply rep e = Inr (r, e')" by (auto simp: map_sum_snd_Inr)
  from reply_Inr [OF this] sign_Inr [of rep e] show ?thesis by (fastforce split: if_splits)
qed

interpretation engine: counting_machine engine_step engine_inv "\<lambda>e. length (history e)"
proof
  show "engine_inv e \<Longrightarrow> engine_inv (engine_step e op)" for e op
    using engine_apply_keeps [of e op] by (cases "engine_apply e op") (simp_all add: engine_step_def)
  show "length (history e) \<le> length (history (engine_step e op))" for e op
    using engine_apply_keeps [of e op] by (cases "engine_apply e op") (simp_all add: engine_step_def)
qed

lemma new_engine_inv [inv_intros]: "engine_inv (new_engine pid)"
  by (simp add: engine_inv_def new_engine_def legal_path.start)

subsection \<open>Lemmas on replies\<close>

lemma padded_phrase_unique_table:
  "list_all (\<lambda>p. list_all (\<lambda>q. CHR '' '' \<in> set p \<and> CHR '' '' \<in> set q \<and> prefix p q \<longrightarrow> p = q) AFFIRMATION_ALLOWLIST)
     AFFIRMATION_ALLOWLIST"
  by code_simp

lemma padded_phrase_unique:
  assumes "p \<in> set AFFIRMATION_ALLOWLIST" "q \<in> set AFFIRMATION_ALLOWLIST"
    and "padded_phrase s p" "padded_phrase s q"
  shows "p = q"
proof -
  have "prefix p q \<or> prefix q p"
    using assms(3,4) prefix_same_cases [of p s q] by (auto simp: padded_phrase_def)
  with padded_phrase_unique_table assms show ?thesis
    by (auto simp: list_all_iff padded_phrase_def)
qed

lemma find_same_set:
  assumes "set xs = set ys" and "\<And>p q. p \<in> set xs \<Longrightarrow> q \<in> set xs \<Longrightarrow> P p \<Longrightarrow> P q \<Longrightarrow> p = q"
  shows "find P xs = find P ys"
proof (cases "find P xs")
  case None
  with assms(1) show ?thesis by (metis find_None_iff)
next
  case (Some p)
  then have p: "p \<in> set xs" "P p" by (auto simp: find_Some_iff)
  with assms(1) obtain q where q: "find P ys = Some q" by (metis find_None_iff not_Some_eq)
  then have "q \<in> set ys" "P q" by (auto simp: find_Some_iff)
  with assms p Some q show ?thesis by metis
qed

lemma affirm_iff:
  "reply_kind (classify_user_reply reply) = Affirm \<longleftrightarrow>
   reply \<noteq> [] \<and> \<not> endswith (lower (strip reply)) ''?'' \<and>
   (let s = rstrip_by terminal_mark (lower (strip reply)) in
    s \<in> set AFFIRMATION_ALLOWLIST \<or> (\<exists>p \<in> set AFFIRMATION_ALLOWLIST. padded_phrase s p))"
  by (auto simp: classify_user_reply_def classify_reply_over_def Let_def find_None_iff find_Some_iff
      split: option.splits)

subsection \<open>Lemmas on persistence\<close>

lemma state_name_inverse [simp]: "state_of_name (state_name s) = Some s"
  by (cases s) (simp_all add: state_of_name_def all_states_def state_name_def)

lemma get_py_opt_str: "(case opt_str x of PStr s \<Rightarrow> f s | _ \<Rightarrow> d) = (case x of None \<Rightarrow> d | Some s \<Rightarrow> f s)"
  by (cases x) (simp_all add: opt_str_def)

lemma build_persist:
  "state (build_engine pid (persist e)) = state e \<and>
   last_user_request (build_engine pid (persist e)) = last_user_request e \<and>
   current_gate (build_engine pid (persist e)) =
     (case current_gate e of Some g \<Rightarrow> if g \<in> set GATE_ORDER then Some g else None | None \<Rightarrow> None)"
  by (auto simp: build_engine_def persist_def load_persisted_state_def hydrate_from_def to_persisted_def
      new_engine_def get_py_opt_str Let_def split: option.splits)

lemma begin_illegal:
  "state e \<notin> {ENTRY, ADVANCE, SCOPE_DRIFT} \<Longrightarrow>
   engine_begin w judge req e = Inl (IllegalTransition (state e) INSPECT)"
  by (cases "state e") (simp_all add: engine_begin_def transition_def LEGAL_TRANSITIONS_def)

lemma begin_state:
  "engine_begin w judge req e = Inr (r, e') \<Longrightarrow>
   state e' = (if drifted (detect_scope_drift w req judge) then SCOPE_DRIFT
     else if all_signed (inspect w) then COMPLETE else DISPATCH)"
  by (auto simp: engine_begin_def and_then_Inr engine_transition_Inr Let_def inspect_next_None [symmetric]
      split: if_splits option.splits)

lemma reply_stays:
  assumes "state (build_engine pid f) \<in> {INSPECT, COMPLETE}"
  shows "\<exists>r f'. wave_reply pid reply g f = (Inr r, f') \<and> signed_gate r = None \<and>
    state (build_engine pid f') = state (build_engine pid f)"
proof -
  let ?e = "(build_engine pid f)\<lparr>current_gate := Some g\<rparr>"
  have "\<exists>r. handle_user_reply reply ?e = Inr (r, ?e) \<and> signed_gate r = None"
    using assms by (cases "reply_kind (classify_user_reply reply)")
      (auto simp: handle_user_reply_def Let_def plain_result_def)
  then obtain r where r: "handle_user_reply reply ?e = Inr (r, ?e)" "signed_gate r = None" by blast
  with assms build_persist [of pid ?e] show ?thesis
    by (auto simp: wave_reply_def Let_def)
qed

text \<open>A sequence of replies, each a turn of its own.\<close>

fun wave_replies ::
    "string \<Rightarrow> (string \<times> string) list \<Rightarrow> json_file option \<Rightarrow>
     (engine_error + wave_result) list \<times> json_file option" where
  "wave_replies pid [] f = ([], f)"
| "wave_replies pid (rg # rgs) f =
     (let (x, f') = wave_reply pid (fst rg) (snd rg) f; (xs, f'') = wave_replies pid rgs f'
      in (x # xs, f''))"

lemma replies_stay:
  "state (build_engine pid f) \<in> {INSPECT, COMPLETE} \<Longrightarrow>
   list_all (\<lambda>x. \<exists>r. x = Inr r \<and> signed_gate r = None) (fst (wave_replies pid rgs f)) \<and>
   state (build_engine pid (snd (wave_replies pid rgs f))) = state (build_engine pid f)"
proof (induction rgs arbitrary: f)
  case Nil
  then show ?case by simp
next
  case (Cons rg rgs)
  from reply_stays [OF Cons.prems, of "fst rg" "snd rg"] obtain r f' where
    r: "wave_reply pid (fst rg) (snd rg) f = (Inr r, f')" "signed_gate r = None"
    "state (build_engine pid f') = state (build_engine pid f)" by blast
  with Cons.IH [of f'] Cons.prems show ?case by (auto simp: case_prod_beta)
qed

lemma reply_signs_state:
  assumes "wave_reply pid reply g f = (Inr r, f')" and "signed_gate r = Some h"
  shows "state (build_engine pid f') \<in> {INSPECT, COMPLETE}"
proof -
  from assms obtain e e' where h: "handle_user_reply reply e = Inr (r, e')" and f': "f' = persist e'"
    by (auto simp: wave_reply_def Let_def plain_result_def split: sum.splits prod.splits)
  from reply_Inr [OF h] assms(2) obtain r' where "sign_current_gate reply e = Inr (r', e')"
    by (auto split: if_splits)
  from sign_Inr [OF this] obtain k where "case gates_after k of [] \<Rightarrow> state e' = COMPLETE
      | n # _ \<Rightarrow> state e' = INSPECT \<and> current_gate e' = Some n" by blast
  then have "state e' \<in> {INSPECT, COMPLETE}" by (cases "gates_after k") auto
  with f' build_persist [of pid e'] show ?thesis by simp
qed

subsection \<open>Properties\<close>

text \<open>The engine never jumps. Whatever operations are called in whatever order, its history is a
  path of legal transitions from the entry state to the state it is in, and it only grows.\<close>

theorem engine_history_legal:
  "legal_path ENTRY (history (foldl engine_step (new_engine pid) ops))
     (state (foldl engine_step (new_engine pid) ops)) \<and>
   length (history (foldl engine_step (new_engine pid) ops)) \<le>
     length (history (foldl engine_step (new_engine pid) (ops @ later)))"
proof
  have inv: "engine_inv (foldl engine_step (new_engine pid) ops)"
    by (rule engine.run_inv) (rule new_engine_inv)
  then show "legal_path ENTRY (history (foldl engine_step (new_engine pid) ops))
      (state (foldl engine_step (new_engine pid) ops))" by (simp add: engine_inv_def)
  from engine.run_count [OF inv, of later]
  show "length (history (foldl engine_step (new_engine pid) ops)) \<le>
      length (history (foldl engine_step (new_engine pid) (ops @ later)))" by simp
qed

text \<open>A reply signs a gate only as an affirmation of the gate that waits for it. When a reply
  signs, it is classified as affirmative, does not end in a question mark, the engine was in
  dispatch or awaiting confirmation, the gate is the current one, and the engine moves to the
  next gate of the order, or completes after the last.\<close>

theorem reply_signs_current_gate:
  assumes "handle_user_reply reply e = Inr (r, e')" and "signed_gate r = Some g"
  shows "\<not> endswith (lower (strip reply)) ''?'' \<and> state e \<in> {DISPATCH, AWAIT_USER_CONFIRM} \<and>
    current_gate e = Some g \<and> g \<in> set GATE_ORDER \<and>
    (case gates_after g of [] \<Rightarrow> state e' = COMPLETE
     | n # _ \<Rightarrow> state e' = INSPECT \<and> current_gate e' = Some n)"
proof -
  from reply_Inr [OF assms(1)] assms(2) obtain r'
    where a: "reply_kind (classify_user_reply reply) = Affirm"
      and s: "sign_current_gate reply e = Inr (r', e')" and g: "signed_gate r' = Some g"
    by (auto split: if_splits)
  from a have "\<not> endswith (lower (strip reply)) ''?''" by (simp add: affirm_iff)
  with sign_Inr [OF s] g show ?thesis by auto
qed

definition waiting_engine :: engine where
  "waiting_engine = (new_engine ''default'')\<lparr>state := DISPATCH, current_gate := Some ''G2''\<rparr>"

theorem reply_signs_current_gate_witness:
  "\<exists>r e'. handle_user_reply ''Yes.'' waiting_engine = Inr (r, e') \<and> signed_gate r = Some ''G2'' \<and>
     state e' = INSPECT \<and> current_gate e' = Some ''G3''"
proof -
  have "case handle_user_reply ''Yes.'' waiting_engine of Inl _ \<Rightarrow> False | Inr x \<Rightarrow> signed_gate (fst x) = Some ''G2''"
    by code_simp
  then obtain r e' where h: "handle_user_reply ''Yes.'' waiting_engine = Inr (r, e')" "signed_gate r = Some ''G2''"
    by (cases "handle_user_reply ''Yes.'' waiting_engine") auto
  have "gates_after ''G2'' = [''G3'', ''G4'', ''G5'']" by (simp add: gates_after_def GATE_ORDER_def)
  with reply_signs_current_gate [OF h] h show ?thesis by auto
qed

text \<open>the classification does not depend on the order in which the allowlist, a set, is
  iterated.\<close>

theorem classify_order_irrelevant:
  assumes "set phrases = set AFFIRMATION_ALLOWLIST"
  shows "classify_reply_over phrases reply = classify_user_reply reply"
proof -
  let ?s = "rstrip_by terminal_mark (lower (strip reply))"
  have "find (padded_phrase ?s) phrases = find (padded_phrase ?s) AFFIRMATION_ALLOWLIST"
    using assms by (rule find_same_set) (use assms padded_phrase_unique in blast)
  with assms show ?thesis by (simp add: classify_user_reply_def classify_reply_over_def Let_def)
qed

theorem classify_order_irrelevant_witness:
  "classify_reply_over (rev AFFIRMATION_ALLOWLIST) ''ship it please'' = classify_user_reply ''ship it please''"
  by (rule classify_order_irrelevant) simp

text \<open>refinements can sign. A reply that opens with an affirmative phrase of two words and goes on
  with any of the refinement hints is classified as an affirmation, so the current gate is
  signed on replies such as \<open>looks good, but\<close> or \<open>looks good, not\<close>.\<close>

theorem refinement_affirms:
  "list_all (\<lambda>w. reply_kind (classify_user_reply (''looks good, '' @ w)) = Affirm) REFINEMENT_HINTS"
  by code_simp

text \<open>the IPC engine serves one request. After a \<open>wave:begin\<close> that dispatched a gate, or found the
  wave complete, every further \<open>wave:begin\<close> on the project raises an illegal transition and
  leaves the persisted state as it was, whatever the workspace, the judge and the request.\<close>

theorem second_begin_raises:
  assumes "wave_begin pid w judge req f = (Inr r, f')" and "\<not> drifted (detect_scope_drift w req judge)"
  shows "\<exists>s. wave_begin pid w' judge' req' f' = (Inl (IllegalTransition s INSPECT), f')"
proof -
  from assms(1) obtain e where b: "engine_begin w judge req (build_engine pid f) = Inr (r, e)"
    and f': "f' = persist e"
    by (auto simp: wave_begin_def split: sum.splits)
  from begin_state [OF b] assms(2) build_persist [of pid e]
  have "state (build_engine pid f') \<notin> {ENTRY, ADVANCE, SCOPE_DRIFT}" by (auto simp: f')
  from begin_illegal [OF this] show ?thesis by (simp add: wave_begin_def)
qed

theorem second_begin_raises_witness:
  "\<exists>r f' s. wave_begin ''default'' demo_view None ''A recipe planner'' None = (Inr r, f') \<and>
     action r = ''fire-agent-G1'' \<and>
     wave_begin ''default'' demo_view None ''Now the plan'' f' = (Inl (IllegalTransition s INSPECT), f')"
proof -
  have d: "\<not> drifted (detect_scope_drift demo_view ''A recipe planner'' None)"
    and a: "case wave_begin ''default'' demo_view None ''A recipe planner'' None of
      (Inr r, _) \<Rightarrow> action r = ''fire-agent-G1'' | _ \<Rightarrow> False"
    by code_simp+
  then obtain r f' where w: "wave_begin ''default'' demo_view None ''A recipe planner'' None = (Inr r, f')"
    and r: "action r = ''fire-agent-G1''"
    by (auto split: sum.splits prod.splits)
  from second_begin_raises [OF w d, of demo_view None "''Now the plan''"] w r show ?thesis by auto
qed

text \<open>replies sign one gate. After a \<open>wave:reply\<close> that signed a gate, no later sequence of
  replies signs another one: the engine waits in \<open>INSPECT\<close> (or is complete), where every
  affirmation is ambiguous, and a new \<open>wave:begin\<close> raises.\<close>

theorem replies_sign_once:
  assumes "wave_reply pid reply g f = (Inr r, f')" and "signed_gate r = Some h"
  shows "list_all (\<lambda>x. \<exists>r. x = Inr r \<and> signed_gate r = None) (fst (wave_replies pid rgs f')) \<and>
    (\<exists>s. wave_begin pid w judge req (snd (wave_replies pid rgs f')) =
      (Inl (IllegalTransition s INSPECT), snd (wave_replies pid rgs f')))"
proof -
  from replies_stay [OF reply_signs_state [OF assms], of rgs] reply_signs_state [OF assms]
  have a: "list_all (\<lambda>x. \<exists>r. x = Inr r \<and> signed_gate r = None) (fst (wave_replies pid rgs f'))"
    and "state (build_engine pid (snd (wave_replies pid rgs f'))) \<notin> {ENTRY, ADVANCE, SCOPE_DRIFT}"
    by auto
  from begin_illegal [OF this(2)] a show ?thesis by (simp add: wave_begin_def)
qed

theorem replies_sign_once_witness:
  "\<exists>r f'. wave_reply ''default'' ''yes'' ''G0'' None = (Inr r, f') \<and> signed_gate r = Some ''G0'' \<and>
     list_all (\<lambda>x. \<exists>r. x = Inr r \<and> signed_gate r = None)
       (fst (wave_replies ''default'' [(''yes'', ''G1''), (''approve'', ''G1'')] f'))"
proof -
  have "case wave_reply ''default'' ''yes'' ''G0'' None of (Inr r, _) \<Rightarrow> signed_gate r = Some ''G0'' | _ \<Rightarrow> False"
    by code_simp
  then obtain r f' where w: "wave_reply ''default'' ''yes'' ''G0'' None = (Inr r, f')" "signed_gate r = Some ''G0''"
    by (auto split: sum.splits prod.splits)
  from replies_sign_once [OF w, of "[(''yes'', ''G1''), (''approve'', ''G1'')]"] w show ?thesis by auto
qed

text \<open>the snapshot survives a restart: an engine that is persisted and rebuilt has the same
  state and request, and the same gate whenever the gate is one of the six.\<close>

theorem persist_roundtrip:
  "state (build_engine pid (persist e)) = state e \<and>
   last_user_request (build_engine pid (persist e)) = last_user_request e \<and>
   current_gate (build_engine pid (persist e)) =
     (case current_gate e of Some g \<Rightarrow> if g \<in> set GATE_ORDER then Some g else None | None \<Rightarrow> None)"
  by (rule build_persist)

end
