(* ===== verification/GateReview.thy ===== *)
theory GateReview
  imports Budgets
begin

section \<open>Reviews at a gate (\<open>product/gate_review.py\<close>)\<close>

text \<open>
  The classification of a user's reply at a review point and the two bounded loops it drives.
  The packets on disk are an association list from (gate, directory, packet type) to packets;
  the audit trail is the list of review events appended to it. The governance text that goes
  into a packet, the packet's identifier and the time are arguments. Confidences are percents.
\<close>

subsection \<open>Phrases\<close>

definition REJECT_PHRASES :: "string list" where
  "REJECT_PHRASES =
     [''reject'', ''rejected'', ''start over'', ''completely wrong'', ''wrong direction'', ''scrap it'',
      ''scrap this'', ''not what i want'', ''not what i asked'', ''throw it away'', ''redo from scratch'']"

definition WAIVE_PHRASES :: "string list" where
  "WAIVE_PHRASES =
     [''skip'', ''waive'', ''not needed'', ''skip this gate'', ''skip this'',
      ''don'' @ [CHR 0x27] @ ''t need this'', ''not required'', ''pass on this'']"

definition APPROVE_PHRASES :: "string list" where
  "APPROVE_PHRASES =
     [''approve'', ''approved'', ''yes'', ''lgtm'', ''looks good'', ''looks great'', ''ship it'', ''go ahead'',
      ''confirm'', ''good to go'', ''all good'', ''perfect'']"

definition CHANGE_VERBS :: "string list" where
  "CHANGE_VERBS =
     [''change'', ''fix'', ''update'', ''modify'', ''adjust'', ''revise'', ''rename'', ''replace'', ''move'',
      ''remove'', ''add'', ''switch'', ''use'', ''make it'', ''should be'', ''instead of'', ''rather than'']"

definition mentions :: "string list \<Rightarrow> string \<Rightarrow> bool" where
  "mentions phrases text = list_ex (\<lambda>p. occurs_in p text) phrases"

subsection \<open>Regular expressions\<close>

text \<open>\<open>^(yes|approve|approved|lgtm|looks good)\s+(but|with|however|though)\b\<close>.\<close>

definition approve_but :: "string \<Rightarrow> bool" where
  "approve_but s =
     list_ex (\<lambda>p. startswith s p \<and>
       (let rest = drop (length p) s; arg = dropWhile is_space rest in
        rest \<noteq> arg \<and>
        list_ex (\<lambda>w. startswith arg w \<and> ends_word (drop (length w) arg)) [''but'', ''with'', ''however'', ''though'']))
       [''yes'', ''approve'', ''approved'', ''lgtm'', ''looks good'']"

text \<open>\<open>^no[,.]?\s+(.+)\<close> on a stripped text; the group is what follows on the line.\<close>

definition no_then :: "string \<Rightarrow> string option" where
  "no_then raw =
     (if lower (take 2 raw) \<noteq> ''no'' then None
      else
        (let r = drop 2 raw;
             r = (if startswith r '','' \<or> startswith r ''.'' then tl r else r);
             arg = dropWhile is_space r
         in if r = arg \<or> arg = [] then None else Some (takeWhile (\<lambda>c. c \<noteq> CHR 0x0A) arg)))"

definition blanks_then :: "string \<Rightarrow> string option" where
  "blanks_then s = (if s = [] \<or> \<not> is_space (hd s) then None else Some (dropWhile is_space s))"

definition match_number :: "string \<Rightarrow> string option" where
  "match_number s =
     (let r = dropWhile is_digit s in
      if r = s \<or> r = [] \<or> (hd r \<noteq> CHR ''.'' \<and> hd r \<noteq> CHR '')'') then None else blanks_then (tl r))"

definition match_bullet :: "string \<Rightarrow> string option" where
  "match_bullet s =
     (if s = [] \<or> (hd s \<noteq> CHR 0x0A \<and> hd s \<noteq> CHR 0x0D) then None
      else
        (let r = dropWhile is_space s in
         if r = [] \<or> (hd r \<noteq> CHR ''-'' \<and> hd r \<noteq> CHR ''*'') then None else blanks_then (tl r)))"

definition match_clause :: "string \<Rightarrow> string option" where
  "match_clause s =
     (if startswith s '','' then blanks_then (tl s)
      else
        (case blanks_then s of
           None \<Rightarrow> None
         | Some r \<Rightarrow> if startswith r ''and'' then blanks_then (drop 3 r) else None))"

definition clean :: "string list \<Rightarrow> string list" where
  "clean parts = filter (\<lambda>s. s \<noteq> []) (map strip parts)"

definition extract_specific_items :: "string \<Rightarrow> string list" where
  "extract_specific_items text =
     (let numbered = clean (re_split match_number [] text);
          bulleted = clean (re_split match_bullet [] text);
          parts = clean (split_on CHR '';'' text);
          clauses = clean (re_split match_clause [] text)
      in
      if 1 < length numbered then numbered
      else if 1 < length bulleted then bulleted
      else if CHR '';'' \<in> set text \<and> 1 < length parts then parts
      else if occurs_in '', '' text \<and> occurs_in '' and '' text \<and> 1 < length clauses then clauses
      else if strip text \<noteq> [] then [strip text]
      else [])"

subsection \<open>Classification\<close>

datatype verdict = Approve | ApproveWithConditions | RequestChanges | Reject | Waive

record review =
  verdict :: verdict
  feedback :: string
  specific_items :: "string list"
  confidence :: nat

definition mk_review :: "verdict \<Rightarrow> string \<Rightarrow> string list \<Rightarrow> nat \<Rightarrow> review" where
  "mk_review v f items c = \<lparr>verdict = v, feedback = f, specific_items = items, confidence = c\<rparr>"

definition closing_mark :: "char \<Rightarrow> bool" where
  "closing_mark c \<longleftrightarrow> c \<in> set ''!., ''"

definition classify_review :: "string \<Rightarrow> review" where
  "classify_review user_reply =
     (let raw = strip user_reply; low = lower raw in
      if raw = [] then mk_review Approve [] [] 30
      else if mentions WAIVE_PHRASES low then mk_review Waive raw [] 90
      else if rstrip_by closing_mark low = ''no'' then mk_review Reject raw [] 80
      else if mentions REJECT_PHRASES low then mk_review Reject raw [] 85
      else if approve_but low then mk_review ApproveWithConditions raw [] 85
      else if list_ex (\<lambda>v. word_search v False low) CHANGE_VERBS
      then mk_review RequestChanges raw (extract_specific_items raw) 80
      else
        (case no_then raw of
           Some instruction \<Rightarrow>
             (let items = extract_specific_items instruction
              in mk_review RequestChanges raw (if items \<noteq> [] then items else [instruction]) 75)
         | None \<Rightarrow>
             if mentions APPROVE_PHRASES low then mk_review Approve raw [] 90
             else
               (let items = extract_specific_items raw
                in mk_review RequestChanges raw (if items \<noteq> [] then items else [raw]) 50)))"

subsection \<open>Packets and events\<close>

datatype review_packet =
    ReworkPacket (packet_id: string) (packet_at: string) (packet_gate: string) (packet_feedback: string)
      (packet_items: "string list") (packet_artifact: "py option") (packet_governance: string)
  | RegeneratePacket (packet_id: string) (packet_at: string) (packet_gate: string)
      (packet_feedback: string) (packet_governance: string)

definition packet_type :: "review_packet \<Rightarrow> string" where
  "packet_type p = (case p of ReworkPacket _ _ _ _ _ _ _ \<Rightarrow> ''rework'' | _ \<Rightarrow> ''regenerate'')"

record review_event =
  event_gate :: string
  event_verdict :: string
  event_feedback :: string
  event_cycle :: int
  event_at :: string

record review_store =
  packets :: "((string \<times> string \<times> string) \<times> review_packet) list"
  review_log :: "review_event list"

definition cycle_dir :: "int \<Rightarrow> string" where
  "cycle_dir n = ''cycle-'' @ int_str n"

text \<open>\<open>re.fullmatch(r"cycle-(\d+)", name)\<close> and \<open>int(m.group(1))\<close>.\<close>

definition cycle_of_dir :: "string \<Rightarrow> nat option" where
  "cycle_of_dir name =
     (if startswith name ''cycle-'' \<and> drop 6 name \<noteq> [] \<and> list_all is_digit (drop 6 name)
      then int_body (drop 6 name) else None)"

definition record_review_event ::
    "string \<Rightarrow> string \<Rightarrow> string \<Rightarrow> string \<Rightarrow> int \<Rightarrow> review_store \<Rightarrow> review_store" where
  "record_review_event now gate v fb cycle s =
     s\<lparr>review_log := review_log s @
       [\<lparr>event_gate = gate, event_verdict = v, event_feedback = fb, event_cycle = cycle, event_at = now\<rparr>]\<rparr>"

definition write_review_packet :: "string \<Rightarrow> review_packet \<Rightarrow> int \<Rightarrow> review_store \<Rightarrow> review_store" where
  "write_review_packet gate p cycle s =
     s\<lparr>packets := ((gate, cycle_dir cycle, packet_type p), p) #
        filter (\<lambda>kv. fst kv \<noteq> (gate, cycle_dir cycle, packet_type p)) (packets s)\<rparr>"

definition latest_review_cycle :: "string \<Rightarrow> string \<Rightarrow> review_store \<Rightarrow> nat" where
  "latest_review_cycle gate ty s =
     fold max
       (List.map_filter (\<lambda>((g, d, t), _). if g = gate \<and> t = ty then cycle_of_dir d else None) (packets s)) 0"

datatype review_status = ReworkDispatched | MaxCyclesReached | RegenerateDispatched | MaxRejectionsReached

record review_result =
  rv_status :: review_status
  rv_cycle :: int
  rv_packet :: "review_packet option"

text \<open>The packet identifier, the time and the governance text of a dispatch.\<close>

record dispatch_info =
  info_id :: string
  info_now :: string
  info_governance :: string

definition handle_request_changes ::
    "env \<Rightarrow> dispatch_info \<Rightarrow> string \<Rightarrow> string \<Rightarrow> string list \<Rightarrow> py option \<Rightarrow> int option \<Rightarrow> int \<Rightarrow>
     review_store \<Rightarrow> budget_error + review_result \<times> review_store" where
  "handle_request_changes env i gate fb items artifact max_cycles cycle s =
     and_then (resolve_gate_rework_budget env max_cycles) (\<lambda>cycle_budget.
       let n = cycle + 1 in
       if cycle_budget < n then
         Inr (\<lparr>rv_status = MaxCyclesReached, rv_cycle = n, rv_packet = None\<rparr>,
              record_review_event (info_now i) gate ''REQUEST-CHANGES'' fb n s)
       else
         (let p = ReworkPacket (info_id i) (info_now i) gate fb items artifact (info_governance i);
              s = write_review_packet gate p n s;
              s = record_review_event (info_now i) gate ''REQUEST-CHANGES'' fb n s
          in Inr (\<lparr>rv_status = ReworkDispatched, rv_cycle = n, rv_packet = Some p\<rparr>, s)))"

definition handle_rejection ::
    "dispatch_info \<Rightarrow> string \<Rightarrow> string \<Rightarrow> int \<Rightarrow> int \<Rightarrow> review_store \<Rightarrow> review_result \<times> review_store" where
  "handle_rejection i gate reason max_rejections rejection_count s =
     (let n = rejection_count + 1 in
      if max_rejections < n then
        (\<lparr>rv_status = MaxRejectionsReached, rv_cycle = n, rv_packet = None\<rparr>,
         record_review_event (info_now i) gate ''REJECTED'' reason n s)
      else
        (let p = RegeneratePacket (info_id i) (info_now i) gate reason (info_governance i);
             s = write_review_packet gate p n s;
             s = record_review_event (info_now i) gate ''REJECTED'' reason n s
         in (\<lparr>rv_status = RegenerateDispatched, rv_cycle = n, rv_packet = Some p\<rparr>, s)))"

subsection \<open>Verdicts outside a delivery (\<open>agent_verdict\<close> of the IPC server)\<close>

text \<open>The cycle is recovered from the packets on disk at every call.\<close>

definition verdict_upper :: "verdict \<Rightarrow> string" where
  "verdict_upper v =
     (case v of
        Approve \<Rightarrow> ''APPROVE''
      | ApproveWithConditions \<Rightarrow> ''APPROVE-WITH-CONDITIONS''
      | RequestChanges \<Rightarrow> ''REQUEST-CHANGES''
      | Reject \<Rightarrow> ''REJECT''
      | Waive \<Rightarrow> ''WAIVE'')"

definition standalone_verdict ::
    "env \<Rightarrow> dispatch_info \<Rightarrow> string \<Rightarrow> string \<Rightarrow> string \<Rightarrow> review_store \<Rightarrow>
     budget_error + review_status option \<times> review_store" where
  "standalone_verdict env i gate raw_verdict fb s =
     (let c = classify_review raw_verdict;
          text = (if fb \<noteq> [] then fb else feedback c)
      in
      case verdict c of
        RequestChanges \<Rightarrow>
          and_then (handle_request_changes env i gate text (specific_items c) None None
              (int (latest_review_cycle gate ''rework'' s)) s)
            (\<lambda>(r, s). Inr (Some (rv_status r), s))
      | Reject \<Rightarrow>
          (let (r, s) = handle_rejection i gate text 2 (int (latest_review_cycle gate ''regenerate'' s)) s
           in Inr (Some (rv_status r), s))
      | v \<Rightarrow> Inr (None, record_review_event (info_now i) gate (verdict_upper v) text 0 s))"

fun standalone_run ::
    "env \<Rightarrow> dispatch_info \<Rightarrow> string \<Rightarrow> (string \<times> string) list \<Rightarrow> review_store \<Rightarrow>
     budget_error + review_status list \<times> review_store" where
  "standalone_run env i gate [] s = Inr ([], s)"
| "standalone_run env i gate (v # vs) s =
     and_then (standalone_verdict env i gate (fst v) (snd v) s) (\<lambda>(st, s).
     and_then (standalone_run env i gate vs s) (\<lambda>(sts, s).
       Inr ((case st of None \<Rightarrow> [] | Some x \<Rightarrow> [x]) @ sts, s)))"

subsection \<open>Lemmas\<close>

interpretation review_log: append_log review_log
  "\<lambda>s e. s\<lparr>review_log := review_log s @ [e]\<rparr>"
  by unfold_locales simp

definition cycles :: "string \<Rightarrow> string \<Rightarrow> review_store \<Rightarrow> nat list" where
  "cycles gate ty s =
     List.map_filter (\<lambda>((g, d, t), _). if g = gate \<and> t = ty then cycle_of_dir d else None) (packets s)"

lemma latest_cycles: "latest_review_cycle gate ty s = Max (insert 0 (set (cycles gate ty s)))"
  unfolding latest_review_cycle_def cycles_def [symmetric]
  by (simp add: Max.set_eq_fold [symmetric])

lemma cycle_of_cycle_dir: "cycle_of_dir (cycle_dir (int n)) = Some n"
  by (simp add: cycle_of_dir_def cycle_dir_def int_str_def list_all_iff nat_str_digits int_body_nat_str)

lemma record_packets [simp]: "packets (record_review_event now g v fb c s) = packets s"
  by (simp add: record_review_event_def)

lemma record_log: "review_log (record_review_event now g v fb c s) = review_log s @
    [\<lparr>event_gate = g, event_verdict = v, event_feedback = fb, event_cycle = c, event_at = now\<rparr>]"
  unfolding record_review_event_def by (rule review_log.rows_append)

lemma write_log [simp]: "review_log (write_review_packet g p c s) = review_log s"
  by (simp add: write_review_packet_def)

lemma cycles_record [simp]: "cycles g ty (record_review_event now g' v fb c s) = cycles g ty s"
  by (simp add: cycles_def)

lemma cycles_write:
  "set (cycles gate ty (write_review_packet g p (int n) s)) =
     (if g = gate \<and> packet_type p = ty then insert n (set (cycles gate ty s)) else set (cycles gate ty s))"
  using cycle_of_cycle_dir [of n]
  by (force simp: cycles_def write_review_packet_def List.map_filter_def split: if_splits)

lemma latest_record [simp]:
  "latest_review_cycle g ty (record_review_event now g' v fb c s) = latest_review_cycle g ty s"
  by (simp add: latest_cycles)

lemma latest_write:
  "latest_review_cycle gate ty (write_review_packet g p (int n) s) =
     (if g = gate \<and> packet_type p = ty then max n (latest_review_cycle gate ty s)
      else latest_review_cycle gate ty s)"
  by (auto simp: latest_cycles cycles_write insert_commute [of 0 n])

definition dispatches :: "review_status \<Rightarrow> review_status list \<Rightarrow> nat" where
  "dispatches st sts = length (filter (\<lambda>x. x = st) sts)"

text \<open>One verdict: at most one dispatch, one more cycle for it, one more event.\<close>

lemma standalone_verdict_step:
  assumes b: "resolve_gate_rework_budget env None = Inr B"
  shows "\<exists>st s'. standalone_verdict env i gate raw fb s = Inr (st, s') \<and>
    length (review_log s') = Suc (length (review_log s)) \<and>
    latest_review_cycle gate ''rework'' s' =
      latest_review_cycle gate ''rework'' s + (if st = Some ReworkDispatched then 1 else 0) \<and>
    latest_review_cycle gate ''regenerate'' s' =
      latest_review_cycle gate ''regenerate'' s + (if st = Some RegenerateDispatched then 1 else 0) \<and>
    (st = Some ReworkDispatched \<longrightarrow> int (latest_review_cycle gate ''rework'' s') \<le> B) \<and>
    (st = Some RegenerateDispatched \<longrightarrow> latest_review_cycle gate ''regenerate'' s' \<le> 2)"
proof -
  have suc: "int n + 1 = int (Suc n)" for n by simp
  show ?thesis
  proof (cases "verdict (classify_review raw)")
    case RequestChanges
    then show ?thesis using b
      by (auto simp: standalone_verdict_def Let_def handle_request_changes_def record_log latest_write suc
          packet_type_def simp del: of_nat_Suc)
  next
    case Reject
    then show ?thesis
      by (auto simp: standalone_verdict_def Let_def handle_rejection_def record_log latest_write suc
          packet_type_def simp del: of_nat_Suc)
  qed (simp_all add: standalone_verdict_def Let_def record_log)
qed

text \<open>The cascade of the classification.\<close>

lemma classify_unfold:
  assumes "strip reply \<noteq> []"
  shows "verdict (classify_review reply) =
     (let low = lower (strip reply) in
      if mentions WAIVE_PHRASES low then Waive
      else if rstrip_by closing_mark low = ''no'' then Reject
      else if mentions REJECT_PHRASES low then Reject
      else if approve_but low then ApproveWithConditions
      else if list_ex (\<lambda>v. word_search v False low) CHANGE_VERBS then RequestChanges
      else (case no_then (strip reply) of Some _ \<Rightarrow> RequestChanges
            | None \<Rightarrow> if mentions APPROVE_PHRASES low then Approve else RequestChanges))"
  by (simp only: classify_review_def mk_review_def Let_def if_not_P [OF assms] if_distrib [of verdict]
      option.case_distrib [of verdict] review.select_convs)

lemma cascade:
  "(if a then Waive else if b then Reject else if c then Reject else if d then ApproveWithConditions
    else if e then RequestChanges
    else (case n of Some _ \<Rightarrow> RequestChanges | None \<Rightarrow> if f then Approve else RequestChanges)) = Approve \<longleftrightarrow>
   \<not> a \<and> \<not> b \<and> \<not> c \<and> \<not> d \<and> \<not> e \<and> n = None \<and> f"
  by (simp split: option.split)

subsection \<open>Properties\<close>

text \<open>Rework is bounded across requests. However many verdicts of whatever wording are sent to a
  gate, each appends exactly one event to the audit trail, no more rework cycles are dispatched
  than the rework budget and no more regenerations than two, and the counter recovered from
  the packets on disk is the number of dispatches.\<close>

theorem reviews_bounded:
  assumes "resolve_gate_rework_budget env None = Inr B"
    and "int (latest_review_cycle gate ''rework'' s) \<le> B" and "latest_review_cycle gate ''regenerate'' s \<le> 2"
  shows "\<exists>sts s'. standalone_run env i gate vs s = Inr (sts, s') \<and>
    length (review_log s') = length (review_log s) + length vs \<and>
    latest_review_cycle gate ''rework'' s' = latest_review_cycle gate ''rework'' s + dispatches ReworkDispatched sts \<and>
    latest_review_cycle gate ''regenerate'' s' =
      latest_review_cycle gate ''regenerate'' s + dispatches RegenerateDispatched sts \<and>
    int (latest_review_cycle gate ''rework'' s') \<le> B \<and> latest_review_cycle gate ''regenerate'' s' \<le> 2"
  using assms(2,3)
proof (induction vs arbitrary: s)
  case Nil
  then show ?case by (simp add: dispatches_def)
next
  case (Cons v vs)
  from standalone_verdict_step [OF assms(1), of i gate "fst v" "snd v" s] obtain st s1
    where st: "standalone_verdict env i gate (fst v) (snd v) s = Inr (st, s1)"
      "length (review_log s1) = Suc (length (review_log s))"
      "latest_review_cycle gate ''rework'' s1 =
        latest_review_cycle gate ''rework'' s + (if st = Some ReworkDispatched then 1 else 0)"
      "latest_review_cycle gate ''regenerate'' s1 =
        latest_review_cycle gate ''regenerate'' s + (if st = Some RegenerateDispatched then 1 else 0)"
      and le: "int (latest_review_cycle gate ''rework'' s1) \<le> B" "latest_review_cycle gate ''regenerate'' s1 \<le> 2"
    using Cons.prems by fastforce
  from Cons.IH [OF le] obtain sts s' where "standalone_run env i gate vs s1 = Inr (sts, s')"
      "length (review_log s') = length (review_log s1) + length vs"
      "latest_review_cycle gate ''rework'' s' =
        latest_review_cycle gate ''rework'' s1 + dispatches ReworkDispatched sts"
      "latest_review_cycle gate ''regenerate'' s' =
        latest_review_cycle gate ''regenerate'' s1 + dispatches RegenerateDispatched sts"
      "int (latest_review_cycle gate ''rework'' s') \<le> B" "latest_review_cycle gate ''regenerate'' s' \<le> 2"
    by blast
  with st show ?case by (cases st) (auto simp: dispatches_def)
qed

theorem reviews_bounded_witness:
  "\<exists>sts s'. standalone_run (\<lambda>_. None) \<lparr>info_id = ''i'', info_now = ''n'', info_governance = ''g''\<rparr> ''G2''
      (replicate 30 (''fix the title'', [])) \<lparr>packets = [], review_log = []\<rparr> = Inr (sts, s') \<and>
    length (review_log s') = 30 \<and> dispatches ReworkDispatched sts \<le> 8"
proof -
  have b: "resolve_gate_rework_budget (\<lambda>_. None) None = Inr 8"
    by (simp add: resolver_defs resolve_budget_def default_budget_defs)
  have z: "latest_review_cycle ''G2'' ty \<lparr>packets = [], review_log = []\<rparr> = 0" for ty
    by (simp add: latest_review_cycle_def)
  from reviews_bounded [OF b, of "''G2''" "\<lparr>packets = [], review_log = []\<rparr>"
      "\<lparr>info_id = ''i'', info_now = ''n'', info_governance = ''g''\<rparr>" "replicate 30 (''fix the title'', [])"]
  show ?thesis by (auto simp: z)
qed

text \<open>the order of the patterns. A reply is an approval only if it is blank, or if it mentions
  no waiving and no rejecting phrase, is not a plain no, is no conditional approval, has no
  change verb as a word and is no instruction after a no; and then it mentions an approving
  phrase.\<close>

theorem approve_is_last:
  assumes "verdict (classify_review reply) = Approve" and "strip reply \<noteq> []"
  shows "\<not> mentions WAIVE_PHRASES (lower (strip reply)) \<and> \<not> mentions REJECT_PHRASES (lower (strip reply)) \<and>
    rstrip_by closing_mark (lower (strip reply)) \<noteq> ''no'' \<and> \<not> approve_but (lower (strip reply)) \<and>
    \<not> list_ex (\<lambda>v. word_search v False (lower (strip reply))) CHANGE_VERBS \<and>
    no_then (strip reply) = None \<and> mentions APPROVE_PHRASES (lower (strip reply))"
  using assms(1) unfolding classify_unfold [OF assms(2)] Let_def cascade by blast

theorem approve_is_last_witness:
  "verdict (classify_review ''Looks good to me'') = Approve \<and> \<not> mentions WAIVE_PHRASES ''looks good to me''"
proof -
  have v: "verdict (classify_review ''Looks good to me'') = Approve"
    and n: "strip ''Looks good to me'' \<noteq> []" and l: "lower (strip ''Looks good to me'') = ''looks good to me''"
    by code_simp+
  from approve_is_last [OF v n] v l show ?thesis by simp
qed

lemma negated_replies:
  "verdict (classify_review ''I disapprove of this'') = Approve"
  "verdict (classify_review ''I do not approve'') = Approve"
  "verdict (classify_review ''not approved'') = Approve"
  "verdict (classify_review ''unconfirmed'') = Approve"
  by code_simp+

lemma skip_replies:
  "verdict (classify_review ''add a skip link'') = Waive"
  "verdict (classify_review ''fix the skipped row'') = Waive"
  by code_simp+

text \<open>negated approvals approve, and mentions of skipping waive. Phrases are matched inside words
  and without regard to a negation, so a disapproval is an approval and a request about a skip
  link waives the gate.\<close>

theorem negation_is_ignored:
  "list_all (\<lambda>r. verdict (classify_review r) = Approve)
     [''I disapprove of this'', ''I do not approve'', ''not approved'', ''unconfirmed''] \<and>
   list_all (\<lambda>r. verdict (classify_review r) = Waive) [''add a skip link'', ''fix the skipped row'']"
  by (simp only: list.pred_inject negated_replies skip_replies simp_thms)

end
