(* ===== verification/AuditReplay.thy ===== *)
theory AuditReplay
  imports Prelude
begin

section \<open>Replay of the audit trail (\<open>audit_replay.py\<close>)\<close>

text \<open>
  The state at any past entry as a left fold over the entries. A trail is the list of its lines,
  a line the value \<open>json.loads\<close> returns for it, or \<open>None\<close> for a line that does not parse. A gate
  that is a list or an object makes the lookup in the dictionary of gates raise; the fold
  returns \<open>None\<close> then.
\<close>

definition GATES :: "string list" where
  "GATES = [''G0'', ''G1'', ''G2'', ''G3'', ''G4'', ''G5'']"

definition SIGN_MARKERS :: "string list" where
  "SIGN_MARKERS = [''sign'', ''seal'', ''gate.signed'', ''gate.approved'']"

definition REVERSE_MARKERS :: "string list" where
  "REVERSE_MARKERS = [''rollback'', ''revert'', ''unsign'', ''reopen'', ''revoke'']"

type_synonym entry = "(string \<times> py) list"

definition load_audit_trail :: "py option list \<Rightarrow> entry list" where
  "load_audit_trail lines =
     List.map_filter (\<lambda>l. case l of Some (PDict d) \<Rightarrow> Some d | _ \<Rightarrow> None) lines"

definition action_matches :: "string \<Rightarrow> string list \<Rightarrow> bool" where
  "action_matches action markers = (let low = lower action in list_ex (\<lambda>m. occurs_in m low) markers)"

record gate_view =
  signed :: bool
  role :: py
  signed_at :: py

record replay =
  index :: int
  at :: py
  action :: "string option"
  wave :: py
  gates :: "(string \<times> gate_view) list"
  events_applied :: int
  files_touched :: int
  overrides :: int

definition unsigned_gate :: gate_view where
  "unsigned_gate = \<lparr>signed = False, role = PNone, signed_at = PNone\<rparr>"

definition initial_state :: replay where
  "initial_state =
     \<lparr>index = -1, at = PNone, action = None, wave = PNone,
      gates = map (\<lambda>g. (g, unsigned_gate)) GATES, events_applied = 0, files_touched = 0, overrides = 0\<rparr>"

definition hashable :: "py \<Rightarrow> bool" where
  "hashable v = (case v of PList _ \<Rightarrow> False | PDict _ \<Rightarrow> False | _ \<Rightarrow> True)"

text \<open>The loop over the gates of an entry.\<close>

definition set_gate :: "string \<Rightarrow> entry \<Rightarrow> py \<Rightarrow> (string \<times> gate_view) list \<Rightarrow> (string \<times> gate_view) list" where
  "set_gate act entry gate gs =
     (case gate of
        PStr g \<Rightarrow>
          (if dict_get gs g = None then gs
           else if action_matches act REVERSE_MARKERS then dict_set gs g unsigned_gate
           else if action_matches act SIGN_MARKERS
           then dict_set gs g \<lparr>signed = True, role = get_py entry ''role'', signed_at = get_py entry ''ts''\<rparr>
           else gs)
      | _ \<Rightarrow> gs)"

fun set_gates :: "string \<Rightarrow> entry \<Rightarrow> py list \<Rightarrow> (string \<times> gate_view) list \<Rightarrow> (string \<times> gate_view) list option" where
  "set_gates act entry [] gs = Some gs"
| "set_gates act entry (v # vs) gs =
     (if \<not> hashable v then None else set_gates act entry vs (set_gate act entry v gs))"

definition gate_values :: "entry \<Rightarrow> py list" where
  "gate_values entry = (case get_py entry ''gates'' of PList gs \<Rightarrow> gs | _ \<Rightarrow> [get_py entry ''gate''])"

definition file_count :: "py \<Rightarrow> int" where
  "file_count files =
     (case files of
        PList xs \<Rightarrow> int (length xs)
      | PInt n \<Rightarrow> n
      | PBool b \<Rightarrow> if b then 1 else 0
      | _ \<Rightarrow> 0)"

definition apply_entry :: "replay \<Rightarrow> entry \<Rightarrow> int \<Rightarrow> replay option" where
  "apply_entry st entry i =
     (let act = get_str entry ''action'';
          files = (let w = get_py entry ''files_written'' in if truthy w then w else get_py entry ''files'')
      in
      map_option (\<lambda>gs.
          \<lparr>index = i, at = get_py entry ''ts'', action = Some act,
           wave = (if truthy (get_py entry ''wave'') then get_py entry ''wave'' else wave st),
           gates = gs, events_applied = i + 1,
           files_touched = files_touched st + file_count files,
           overrides = overrides st + (if occurs_in ''override'' (lower act) then 1 else 0)\<rparr>)
        (set_gates act entry (gate_values entry) (gates st)))"

text \<open>The loop of \<open>replay_state\<close> over the indices from \<open>i\<close>.\<close>

fun apply_all :: "replay \<Rightarrow> int \<Rightarrow> entry list \<Rightarrow> replay option" where
  "apply_all st i [] = Some st"
| "apply_all st i (e # es) =
     (case apply_entry st e i of None \<Rightarrow> None | Some st' \<Rightarrow> apply_all st' (i + 1) es)"

definition replay_state :: "entry list \<Rightarrow> int \<Rightarrow> replay option" where
  "replay_state entries at_index =
     (if entries = [] then Some initial_state
      else
        (let upto = max (-1) (min at_index (int (length entries) - 1))
         in apply_all initial_state 0 (take (nat (upto + 1)) entries)))"

text \<open>The separator of a summary, a middle dot, is written \<open>|\<close>.\<close>

definition summarize :: "entry \<Rightarrow> string" where
  "summarize entry =
     (let act = (case dict_get entry ''action'' of None \<Rightarrow> ''event'' | Some v \<Rightarrow> py_str v);
          gate = get_py entry ''gate''; w = get_py entry ''wave''
      in join '' | '' ([act] @ (if truthy gate then [''gate '' @ py_str gate] else []) @
                       (if truthy w then [''wave '' @ py_str w] else [])))"

record frame =
  frame_index :: int
  frame_ts :: py
  frame_summary :: string
  frame_entry :: entry
  state_after :: replay

fun timeline :: "replay \<Rightarrow> int \<Rightarrow> entry list \<Rightarrow> frame list option" where
  "timeline st i [] = Some []"
| "timeline st i (e # es) =
     (case apply_entry st e i of
        None \<Rightarrow> None
      | Some st' \<Rightarrow>
          map_option (Cons \<lparr>frame_index = i, frame_ts = get_py e ''ts'', frame_summary = summarize e,
              frame_entry = e, state_after = st'\<rparr>) (timeline st' (i + 1) es))"

definition build_timeline :: "py option list \<Rightarrow> frame list option" where
  "build_timeline lines = timeline initial_state 0 (load_audit_trail lines)"

subsection \<open>Lemmas\<close>

lemma apply_all_append:
  "apply_all st i (xs @ ys) =
     (case apply_all st i xs of None \<Rightarrow> None | Some st' \<Rightarrow> apply_all st' (i + int (length xs)) ys)"
  by (induction xs arbitrary: st i) (auto simp: algebra_simps split: option.splits)

lemma timeline_frames:
  "timeline st i es = Some fs \<Longrightarrow>
   length fs = length es \<and>
   (\<forall>k < length es. apply_all st i (take (Suc k) es) = Some (state_after (fs ! k)) \<and>
      frame_entry (fs ! k) = es ! k \<and> frame_index (fs ! k) = i + int k)"
proof (induction es arbitrary: st i fs)
  case Nil
  then show ?case by simp
next
  case (Cons e es)
  then obtain st' fs' where a: "apply_entry st e i = Some st'" and t: "timeline st' (i + 1) es = Some fs'"
    and fs: "fs = \<lparr>frame_index = i, frame_ts = get_py e ''ts'', frame_summary = summarize e,
              frame_entry = e, state_after = st'\<rparr> # fs'"
    by (auto split: option.splits)
  from Cons.IH [OF t] a show ?case
    by (auto simp: fs less_Suc_eq_0_disj)
qed

lemma timeline_None: "timeline st i es = None \<longleftrightarrow> apply_all st i es = None"
  by (induction es arbitrary: st i) (auto split: option.splits)

lemma replay_state_take:
  assumes "entries \<noteq> []"
  shows "replay_state entries (int k) = apply_all initial_state 0 (take (Suc k) entries)"
proof -
  have "take (nat (max (-1) (min (int k) (int (length entries) - 1)) + 1)) entries = take (Suc k) entries"
  proof (cases "k < length entries")
    case True
    then have "min (int k) (int (length entries) - 1) = int k" by simp
    then show ?thesis by (simp add: nat_add_distrib)
  next
    case False
    with assms have "min (int k) (int (length entries) - 1) = int (length entries) - 1" by simp
    with assms False show ?thesis by (simp add: max_def)
  qed
  with assms show ?thesis by (simp add: replay_state_def Let_def)
qed

lemma set_gate_keys: "map fst (set_gate act e v gs) = map fst gs"
proof -
  have "dict_get gs g \<noteq> None \<Longrightarrow> map fst (dict_set gs g x) = map fst gs" for g and x :: gate_view
    by (induction gs g x rule: dict_set.induct) (auto simp: dict_get_def split: if_splits)
  then show ?thesis by (auto simp: set_gate_def split: py.splits)
qed

lemma set_gates_keys: "set_gates act e vs gs = Some gs' \<Longrightarrow> map fst gs' = map fst gs"
  by (induction vs arbitrary: gs) (auto simp: set_gate_keys split: if_splits)

lemma apply_all_keys: "apply_all st i es = Some st' \<Longrightarrow> map fst (gates st') = map fst (gates st)"
  by (induction es arbitrary: st i)
    (auto simp: apply_entry_def Let_def dest: set_gates_keys split: option.splits)

lemma replay_snoc:
  "apply_all initial_state 0 (es @ [e]) =
     (case apply_all initial_state 0 es of None \<Rightarrow> None | Some st \<Rightarrow> apply_entry st e (int (length es)))"
  by (simp add: apply_all_append split: option.splits)

lemma replay_last:
  "es \<noteq> [] \<Longrightarrow> int (length es) - 1 \<le> i \<Longrightarrow> replay_state es i = apply_all initial_state 0 es"
  using replay_state_take [of es "nat i"] by (cases es) auto

lemma gate_known: "apply_all initial_state 0 es = Some st \<Longrightarrow> g \<in> set GATES \<Longrightarrow> dict_get (gates st) g \<noteq> None"
  using apply_all_keys [of initial_state 0 es st]
  by (auto simp: initial_state_def dict_get_def map_of_eq_None_iff comp_def dest: arg_cong [where f = set])

subsection \<open>Properties\<close>

text \<open>The timeline is the replay. There is one frame per readable entry, in order, and the state
  of a frame is what \<open>replay_state\<close> returns for its index; an index past the end is the last
  frame, a negative one the initial state.\<close>

theorem timeline_is_replay:
  assumes "build_timeline lines = Some fs"
  shows "map frame_entry fs = load_audit_trail lines \<and>
    (\<forall>k < length fs. replay_state (load_audit_trail lines) (int k) = Some (state_after (fs ! k))) \<and>
    (fs \<noteq> [] \<longrightarrow> int (length fs) \<le> i \<longrightarrow> replay_state (load_audit_trail lines) i = Some (state_after (last fs))) \<and>
    (i < 0 \<longrightarrow> replay_state (load_audit_trail lines) i = Some initial_state)"
proof -
  let ?es = "load_audit_trail lines"
  from assms have t: "timeline initial_state 0 ?es = Some fs" by (simp add: build_timeline_def)
  from timeline_frames [OF t] have len: "length fs = length ?es"
    and st: "k < length ?es \<Longrightarrow> apply_all initial_state 0 (take (Suc k) ?es) = Some (state_after (fs ! k)) \<and>
      frame_entry (fs ! k) = ?es ! k" for k by auto
  have "map frame_entry fs = ?es" using len st by (intro nth_equalityI) auto
  moreover have "k < length fs \<Longrightarrow> replay_state ?es (int k) = Some (state_after (fs ! k))" for k
    using st [of k] len by (subst replay_state_take) auto
  moreover have "replay_state ?es i = Some (state_after (last fs))" if "fs \<noteq> []" "int (length fs) \<le> i"
  proof -
    from that len have ne: "?es \<noteq> []" and l: "length ?es - 1 < length ?es"
      by (auto simp flip: length_greater_0_conv)
    with st [OF l] have "apply_all initial_state 0 ?es = Some (state_after (last fs))"
      using that(1) len by (simp add: last_conv_nth)
    with replay_last [OF ne] that(2) len show ?thesis by simp
  qed
  moreover have "i < 0 \<Longrightarrow> replay_state ?es i = Some initial_state"
    by (simp add: replay_state_def)
  ultimately show ?thesis by blast
qed

definition demo_lines :: "py option list" where
  "demo_lines =
     [Some (PDict [(''action'', PStr ''gate.signed''), (''gate'', PStr ''G1''), (''role'', PStr ''PO'')]), None,
      Some (PDict [(''action'', PStr ''gate.reopen''), (''gate'', PStr ''G1'')])]"

theorem timeline_is_replay_witness:
  "\<exists>fs. build_timeline demo_lines = Some fs \<and> length fs = 2 \<and>
     replay_state (load_audit_trail demo_lines) 7 = Some (state_after (last fs))"
proof -
  have "case build_timeline demo_lines of None \<Rightarrow> False | Some fs \<Rightarrow> length fs = 2" by code_simp
  then obtain fs where fs: "build_timeline demo_lines = Some fs" "length fs = 2"
    by (cases "build_timeline demo_lines") auto
  from timeline_is_replay [OF fs(1), of 7] fs show ?thesis by (cases fs) auto
qed

text \<open>the last word counts. An entry that reverses a gate leaves it unsigned, whatever was
  recorded before, an entry that signs it leaves it signed with the role of the entry, and
  either leaves every other gate as it was.\<close>

theorem last_entry_wins:
  assumes "apply_all initial_state 0 es = Some st" and "get_py e ''gates'' = PNone"
    and "get_py e ''gate'' = PStr g" and "g \<in> set GATES"
    and "action_matches (get_str e ''action'') SIGN_MARKERS \<or> action_matches (get_str e ''action'') REVERSE_MARKERS"
  shows "\<exists>st'. replay_state (es @ [e]) (int (length es)) = Some st' \<and>
    dict_get (gates st') g = Some (if action_matches (get_str e ''action'') REVERSE_MARKERS then unsigned_gate
      else \<lparr>signed = True, role = get_py e ''role'', signed_at = get_py e ''ts''\<rparr>) \<and>
    (\<forall>h. h \<noteq> g \<longrightarrow> dict_get (gates st') h = dict_get (gates st) h)"
proof -
  have "replay_state (es @ [e]) (int (length es)) = apply_all initial_state 0 (es @ [e])"
    by (rule replay_last) simp_all
  also have "\<dots> = apply_entry st e (int (length es))"
    using assms(1) by (simp add: replay_snoc)
  finally have r: "replay_state (es @ [e]) (int (length es)) = apply_entry st e (int (length es))" .
  have "dict_get (gates st) g \<noteq> None" using gate_known [OF assms(1,4)] .
  with assms(2,3,5) show ?thesis
    unfolding r by (auto simp: apply_entry_def Let_def gate_values_def hashable_def set_gate_def)
qed

theorem last_entry_wins_witness:
  "\<exists>st'. replay_state ([[(''action'', PStr ''gate.signed''), (''gate'', PStr ''G1'')]] @
      [[(''action'', PStr ''gate.reopen''), (''gate'', PStr ''G1'')]]) 1 = Some st' \<and>
    dict_get (gates st') ''G1'' = Some unsigned_gate"
proof -
  let ?es = "[[(''action'', PStr ''gate.signed''), (''gate'', PStr ''G1'')]] :: entry list"
  let ?e = "[(''action'', PStr ''gate.reopen''), (''gate'', PStr ''G1'')] :: entry"
  have "apply_all initial_state 0 ?es \<noteq> None" and m: "action_matches (get_str ?e ''action'') REVERSE_MARKERS"
    by code_simp+
  then obtain st where st: "apply_all initial_state 0 ?es = Some st" by blast
  have g: "get_py ?e ''gates'' = PNone" "get_py ?e ''gate'' = PStr ''G1''" "''G1'' \<in> set GATES"
    by (simp_all add: GATES_def, simp add: get_py_def dict_get_def)
  from last_entry_wins [OF st g disjI2 [OF m]] m show ?thesis by auto
qed

text \<open>any action with the letters of a marker signs. The marker \<open>sign\<close> occurs in every action
  about a design or an assignment, so a replay shows the gate such an entry names as signed,
  by nobody.\<close>

theorem design_entry_signs:
  "map_option (\<lambda>st. dict_get (gates st) ''G3'')
     (replay_state [[(''action'', PStr ''agent.design.started''), (''gate'', PStr ''G3'')]] 0) =
   Some (Some \<lparr>signed = True, role = PNone, signed_at = PNone\<rparr>)"
  by code_simp

end
