(* ===== verification/AuditChain.thy ===== *)
theory AuditChain
  imports Prelude
begin

section \<open>The audit chain (\<open>sign.py\<close>)\<close>

text \<open>
  \<open>.signalos/AUDIT_TRAIL.jsonl\<close>: one JSON object per line, each carrying the hash of the row
  before it. The trail is the text of the file, \<open>None\<close> when it cannot be read. SHA-256 in hex is
  the argument \<open>sha\<close> and \<open>json.loads\<close> the argument \<open>loads\<close>, \<open>None\<close> for a text that does not
  parse; \<open>json.dumps\<close> is written out. The lock around an append and the checks of the path
  are not modelled: an append is one step.
\<close>

subsection \<open>\<open>json.dumps(..., ensure_ascii=False)\<close>\<close>

definition json_char :: "char \<Rightarrow> string" where
  "json_char c =
     (let n = (of_char c :: nat) in
      if n = 34 \<or> n = 92 then [CHR 0x5C, c]
      else if n = 8 then [CHR 0x5C, CHR ''b'']
      else if n = 9 then [CHR 0x5C, CHR ''t'']
      else if n = 10 then [CHR 0x5C, CHR ''n'']
      else if n = 12 then [CHR 0x5C, CHR ''f'']
      else if n = 13 then [CHR 0x5C, CHR ''r'']
      else if n < 32 then CHR 0x5C # ''u00'' @ [hex_digit (n div 16), hex_digit (n mod 16)]
      else [c])"

definition json_text :: "string \<Rightarrow> string" where
  "json_text s = CHR 0x22 # concat (map json_char s) @ [CHR 0x22]"

fun json_dump :: "string \<Rightarrow> string \<Rightarrow> py \<Rightarrow> string" where
  "json_dump isep ksep PNone = ''null''"
| "json_dump isep ksep (PBool b) = (if b then ''true'' else ''false'')"
| "json_dump isep ksep (PInt i) = int_str i"
| "json_dump isep ksep (PStr s) = json_text s"
| "json_dump isep ksep (PList xs) = CHR ''['' # join isep (map (json_dump isep ksep) xs) @ '']''"
| "json_dump isep ksep (PDict kvs) =
     CHR ''{'' # join isep (map (\<lambda>kv. json_text (fst kv) @ ksep @ json_dump isep ksep (snd kv)) kvs) @ ''}''"

text \<open>\<open>sort_keys=True\<close>, at every level.\<close>

fun sort_keys :: "py \<Rightarrow> py" where
  "sort_keys (PList xs) = PList (map sort_keys xs)"
| "sort_keys (PDict kvs) = PDict (sort_key fst (map (\<lambda>kv. (fst kv, sort_keys (snd kv))) kvs))"
| "sort_keys v = v"

subsection \<open>Rows and links\<close>

type_synonym audit_row = "(string \<times> py) list"

definition canonical_row :: "audit_row \<Rightarrow> string" where
  "canonical_row row = json_dump '','' '':'' (sort_keys (PDict (dict_del row ''entry_hash'')))"

definition audit_entry_hash :: "(string \<Rightarrow> string) \<Rightarrow> audit_row \<Rightarrow> string" where
  "audit_entry_hash sha row = sha (canonical_row row)"

definition live_lines :: "string \<Rightarrow> string list" where
  "live_lines text = filter (\<lambda>l. strip l \<noteq> []) (splitlines [] text)"

definition line_link :: "(string \<Rightarrow> string) \<Rightarrow> (string \<Rightarrow> py option) \<Rightarrow> string \<Rightarrow> string" where
  "line_link sha loads line =
     (case loads line of
        Some (PDict row) \<Rightarrow>
          if truthy (get_py row ''entry_hash'') then py_str (get_py row ''entry_hash'') else sha line
      | _ \<Rightarrow> sha line)"

definition genesis :: string where
  "genesis = ''GENESIS''"

definition audit_prev_link ::
  "(string \<Rightarrow> string) \<Rightarrow> (string \<Rightarrow> py option) \<Rightarrow> string option \<Rightarrow> string" where
  "audit_prev_link sha loads trail =
     (case trail of
        None \<Rightarrow> genesis
      | Some text \<Rightarrow>
          let lines = live_lines text
          in if lines = [] then genesis else line_link sha loads (last lines))"

subsection \<open>Verification\<close>

datatype violation = NotJson nat | HashMismatch nat | ChainBroken nat

definition line_violations ::
  "(string \<Rightarrow> string) \<Rightarrow> (string \<Rightarrow> py option) \<Rightarrow> nat \<Rightarrow> string \<Rightarrow> string \<Rightarrow> violation list" where
  "line_violations sha loads idx prev line =
     (case loads line of
        None \<Rightarrow> [NotJson idx]
      | Some (PDict row) \<Rightarrow>
          let h = get_py row ''entry_hash'' in
          if truthy h then
            (if h \<noteq> PStr (audit_entry_hash sha row) then [HashMismatch idx] else []) @
            (if get_py row ''prev_hash'' \<noteq> PStr prev then [ChainBroken idx] else [])
          else []
      | Some _ \<Rightarrow> [])"

fun verify_lines ::
  "(string \<Rightarrow> string) \<Rightarrow> (string \<Rightarrow> py option) \<Rightarrow> nat \<Rightarrow> string \<Rightarrow> string list \<Rightarrow> violation list" where
  "verify_lines sha loads idx prev [] = []"
| "verify_lines sha loads idx prev (l # ls) =
     line_violations sha loads idx prev l @ verify_lines sha loads (idx + 1) (line_link sha loads l) ls"

definition verify_audit_chain ::
  "(string \<Rightarrow> string) \<Rightarrow> (string \<Rightarrow> py option) \<Rightarrow> string option \<Rightarrow> violation list" where
  "verify_audit_chain sha loads trail =
     (case trail of None \<Rightarrow> [] | Some text \<Rightarrow> verify_lines sha loads 1 genesis (live_lines text))"

subsection \<open>Appending\<close>

definition RESERVED_AUDIT_ACTIONS :: "string list" where
  "RESERVED_AUDIT_ACTIONS = [''authority:solo-founder-g0-declared'']"

datatype audit_error = EmptyAction | ReservedAction

definition or_empty :: "py \<Rightarrow> string" where
  "or_empty v = (if truthy v then py_str v else [])"

definition chained_row ::
  "(string \<Rightarrow> string) \<Rightarrow> (string \<Rightarrow> py option) \<Rightarrow> string \<Rightarrow> string option \<Rightarrow> audit_row \<Rightarrow> audit_row" where
  "chained_row sha loads now trail entry =
     (let row = dict_del (dict_del (dict_set entry ''ts'' (PStr now)) ''prev_hash'') ''entry_hash'';
          row = dict_set row ''prev_hash'' (PStr (audit_prev_link sha loads trail))
      in dict_set row ''entry_hash'' (PStr (audit_entry_hash sha row)))"

definition audit_line :: "audit_row \<Rightarrow> string" where
  "audit_line row = json_dump '', '' '': '' (PDict row)"

definition trail_text :: "string option \<Rightarrow> string" where
  "trail_text trail = (case trail of None \<Rightarrow> [] | Some text \<Rightarrow> text)"

definition append_audit_event ::
  "(string \<Rightarrow> string) \<Rightarrow> (string \<Rightarrow> py option) \<Rightarrow> bool \<Rightarrow> string \<Rightarrow> audit_row \<Rightarrow> string option
     \<Rightarrow> audit_error + (string option \<times> audit_row)" where
  "append_audit_event sha loads capability now entry trail =
     (if strip (or_empty (get_py entry ''action'')) = [] then Inl EmptyAction
      else if py_str (get_py entry ''action'') \<in> set RESERVED_AUDIT_ACTIONS \<and> \<not> capability
      then Inl ReservedAction
      else
        (let row = chained_row sha loads now trail entry
         in Inr (Some (trail_text trail @ audit_line row @ [CHR 0x0A]), row)))"

subsection \<open>Lines\<close>

definition closed_text :: "string \<Rightarrow> bool" where
  "closed_text text \<longleftrightarrow> text = [] \<or> last text = CHR 0x0A"

definition one_line :: "string \<Rightarrow> bool" where
  "one_line s \<longleftrightarrow> (\<forall>c \<in> set s. \<not> line_break c)"

lemma one_line_simps [simp]:
  "one_line []" "one_line (c # s) \<longleftrightarrow> \<not> line_break c \<and> one_line s"
  "one_line (s @ t) \<longleftrightarrow> one_line s \<and> one_line t"
  by (auto simp: one_line_def)

lemma newline_breaks [simp]: "line_break CHR 0x0A"
  by (simp add: line_break_def)

lemma splitlines_one_line: "one_line s \<Longrightarrow> splitlines acc s = (if acc @ s = [] then [] else [acc @ s])"
  by (induction s arbitrary: acc) simp_all

lemma splitlines_break:
  "one_line s \<Longrightarrow> line_break c \<Longrightarrow> c \<noteq> CHR 0x0D \<Longrightarrow>
   splitlines acc (s @ c # rest) = (acc @ s) # splitlines [] rest"
  by (induction s arbitrary: acc) simp_all

lemma splitlines_closed:
  "splitlines acc (t @ CHR 0x0A # u) = splitlines acc (t @ [CHR 0x0A]) @ splitlines [] u"
proof (induction acc t rule: splitlines.induct)
  case (1 acc)
  then show ?case by simp
next
  case (2 acc c cs)
  show ?case
  proof (cases "line_break c")
    case False
    with 2 show ?thesis by simp
  next
    case True
    show ?thesis
    proof (cases cs)
      case Nil
      then show ?thesis using True 2 by simp
    next
      case (Cons d ds)
      then show ?thesis using True 2(1) by (cases "c = CHR 0x0D \<and> d = CHR 0x0A") auto
    qed
  qed
qed

lemma live_lines_append:
  assumes "closed_text t" and "one_line l" and "strip l \<noteq> []"
  shows "live_lines (t @ l @ [CHR 0x0A]) = live_lines t @ [l]"
proof -
  have l: "splitlines [] (l @ [CHR 0x0A]) = [l]"
    using assms splitlines_break [of l "CHR 0x0A" "[]" "[]"] by simp
  show ?thesis
  proof (cases "t = []")
    case True
    then show ?thesis using l assms by (simp add: live_lines_def)
  next
    case False
    with assms obtain u where "t = u @ [CHR 0x0A]"
      unfolding closed_text_def by (metis append_butlast_last_id)
    then show ?thesis
      using l assms splitlines_closed [of "[]" u "l @ [CHR 0x0A]"] by (simp add: live_lines_def)
  qed
qed

subsection \<open>Rows are one line each\<close>

definition plain_text :: "string \<Rightarrow> bool" where
  "plain_text s \<longleftrightarrow> CHR 0x85 \<notin> set s"

fun plain_py :: "py \<Rightarrow> bool" where
  "plain_py (PStr s) = plain_text s"
| "plain_py (PList xs) = list_all plain_py xs"
| "plain_py (PDict kvs) = list_all (\<lambda>kv. plain_text (fst kv) \<and> plain_py (snd kv)) kvs"
| "plain_py _ = True"

lemma hex_digit_one_line: "n < 16 \<Longrightarrow> \<not> line_break (hex_digit n)"
  by (auto simp: hex_digit_def line_break_def of_char_of Let_def)

lemma json_char_one_line: "c \<noteq> CHR 0x85 \<Longrightarrow> one_line (json_char c)"
proof -
  assume c: "c \<noteq> CHR 0x85"
  let ?n = "of_char c :: nat"
  have "?n \<noteq> 133"
  proof
    assume "?n = 133"
    then have "char_of ?n = (char_of (133 :: nat) :: char)" by simp
    moreover have "(char_of (133 :: nat) :: char) = CHR 0x85" by code_simp
    ultimately have "c = CHR 0x85" by simp
    with c show False ..
  qed
  moreover have "\<not> line_break (CHR 0x5C)" "\<not> line_break (CHR ''b'')" "\<not> line_break (CHR ''t'')"
    "\<not> line_break (CHR ''n'')" "\<not> line_break (CHR ''f'')" "\<not> line_break (CHR ''r'')"
    "\<not> line_break (CHR ''u'')" "\<not> line_break (CHR ''0'')"
    by (simp_all add: line_break_def)
  ultimately show ?thesis
    unfolding json_char_def Let_def
    by (simp add: hex_digit_one_line) (simp add: line_break_def Let_def)
qed

lemma concat_one_line: "(\<And>x. x \<in> set xs \<Longrightarrow> one_line x) \<Longrightarrow> one_line (concat xs)"
  by (auto simp: one_line_def)

lemma join_one_line:
  "one_line sep \<Longrightarrow> (\<And>x. x \<in> set xs \<Longrightarrow> one_line x) \<Longrightarrow> one_line (join sep xs)"
  by (induction sep xs rule: join.induct) auto

lemma json_text_one_line: "plain_text s \<Longrightarrow> one_line (json_text s)"
proof -
  assume s: "plain_text s"
  have "one_line (concat (map json_char s))"
    using s by (intro concat_one_line) (auto simp: plain_text_def intro!: json_char_one_line)
  then show ?thesis by (simp add: json_text_def line_break_def)
qed

lemma digit_no_break: "is_digit c \<Longrightarrow> \<not> line_break c"
  by (auto simp: line_break_def is_digit_def Let_def)

lemma nat_str_one_line: "one_line (nat_str n)"
  using nat_str_digits [of _ n] by (auto simp: one_line_def dest: digit_no_break)

lemma int_str_one_line: "one_line (int_str i)"
  by (simp add: int_str_def nat_str_one_line line_break_def)

lemma json_dump_one_line:
  "one_line isep \<Longrightarrow> one_line ksep \<Longrightarrow> plain_py v \<Longrightarrow> one_line (json_dump isep ksep v)"
proof (induction isep ksep v rule: json_dump.induct)
  case (5 isep ksep xs)
  have "one_line (join isep (map (json_dump isep ksep) xs))"
    using 5 by (intro join_one_line) (auto simp: list_all_iff)
  then show ?case by (simp add: line_break_def)
next
  case (6 isep ksep kvs)
  have "one_line (join isep (map (\<lambda>kv. json_text (fst kv) @ ksep @ json_dump isep ksep (snd kv)) kvs))"
    using 6 by (intro join_one_line) (auto simp: list_all_iff json_text_one_line)
  then show ?case by (simp add: line_break_def)
qed (simp_all add: json_text_one_line int_str_one_line, simp_all add: line_break_def)

lemma audit_line_one_line: "plain_py (PDict row) \<Longrightarrow> one_line (audit_line row)"
  unfolding audit_line_def by (rule json_dump_one_line) (simp_all add: line_break_def)

lemma audit_line_not_blank: "strip (audit_line row) \<noteq> []"
proof -
  have s: "\<exists>m. audit_line row = CHR ''{'' # m @ [CHR ''}'']" by (simp add: audit_line_def)
  then obtain m where "audit_line row = CHR ''{'' # m @ [CHR ''}'']" ..
  moreover from this have "strip (audit_line row) = audit_line row"
    by (intro strip_id) (simp add: is_space_def)
  ultimately show ?thesis by simp
qed

subsection \<open>Appending keeps the chain\<close>

lemma dict_set_later: "k' \<noteq> k \<Longrightarrow> dict_del (dict_set d k v) k' = dict_set (dict_del d k') k v"
  by (induction d k v rule: dict_set.induct) (auto simp: dict_del_def)

lemma dict_del_set [simp]: "dict_del (dict_set d k v) k = dict_del d k"
  by (induction d k v rule: dict_set.induct) (auto simp: dict_del_def)

lemma get_py_del [simp]: "get_py (dict_del d k) k' = (if k' = k then PNone else get_py d k')"
  by (simp add: get_py_def)

lemma entry_hash_stable: "audit_entry_hash sha (dict_set row ''entry_hash'' v) = audit_entry_hash sha row"
  by (simp add: audit_entry_hash_def canonical_row_def)

lemma chained_row_get:
  "get_py (chained_row sha loads now trail entry) ''prev_hash'' = PStr (audit_prev_link sha loads trail)"
  "get_py (chained_row sha loads now trail entry) ''entry_hash'' =
     PStr (audit_entry_hash sha (chained_row sha loads now trail entry))"
  by (simp_all add: chained_row_def Let_def entry_hash_stable)

lemma plain_dict_set: "plain_py (PDict d) \<Longrightarrow> plain_text k \<Longrightarrow> plain_py v \<Longrightarrow> plain_py (PDict (dict_set d k v))"
  by (induction d k v rule: dict_set.induct) auto

lemma plain_dict_del: "plain_py (PDict d) \<Longrightarrow> plain_py (PDict (dict_del d k))"
  by (auto simp: dict_del_def list_all_iff)

lemma chained_row_plain:
  assumes "plain_py (PDict entry)" and "plain_text now" and "\<And>x. plain_text (sha x)"
    and "plain_text (audit_prev_link sha loads trail)"
  shows "plain_py (PDict (chained_row sha loads now trail entry))"
proof -
  have k: "plain_text ''ts''" "plain_text ''prev_hash''" "plain_text ''entry_hash''"
    by (simp_all add: plain_text_def)
  show ?thesis
    unfolding chained_row_def Let_def audit_entry_hash_def
    by (intro plain_dict_set plain_dict_del k)
      (use assms in simp_all)
qed

definition trail_link ::
  "(string \<Rightarrow> string) \<Rightarrow> (string \<Rightarrow> py option) \<Rightarrow> string \<Rightarrow> string list \<Rightarrow> string" where
  "trail_link sha loads prev ls = (if ls = [] then prev else line_link sha loads (last ls))"

lemma verify_append:
  "verify_lines sha loads idx prev (xs @ ys) =
     verify_lines sha loads idx prev xs @
     verify_lines sha loads (idx + length xs) (trail_link sha loads prev xs) ys"
  by (induction xs arbitrary: idx prev) (auto simp: trail_link_def)

lemma prev_link_trail:
  "audit_prev_link sha loads trail = trail_link sha loads genesis (live_lines (trail_text trail))"
  by (simp add: audit_prev_link_def trail_link_def trail_text_def live_lines_def Let_def split: option.splits)

lemma verify_trail:
  "verify_audit_chain sha loads trail = verify_lines sha loads 1 genesis (live_lines (trail_text trail))"
  by (simp add: verify_audit_chain_def trail_text_def live_lines_def split: option.splits)

text \<open>A link of a verified line is a hash.\<close>

lemma verified_link:
  assumes "line_violations sha loads idx prev l = []"
  shows "\<exists>x. line_link sha loads l = sha x"
  using assms
  by (auto simp: line_violations_def line_link_def audit_entry_hash_def Let_def
      split: option.splits py.splits if_splits)

lemma verified_trail_link:
  assumes "verify_lines sha loads idx prev ls = []" and "ls \<noteq> []"
  shows "\<exists>x. trail_link sha loads prev ls = sha x"
proof -
  from assms(2) obtain xs l where ls: "ls = xs @ [l]" by (metis append_butlast_last_id)
  with assms(1) have "line_violations sha loads (idx + length xs) (trail_link sha loads prev xs) l = []"
    by (simp add: verify_append)
  from verified_link [OF this] show ?thesis by (simp add: ls trail_link_def)
qed

lemma prev_link_plain:
  assumes "verify_audit_chain sha loads trail = []" and "\<And>x. plain_text (sha x)"
  shows "plain_text (audit_prev_link sha loads trail)"
proof (cases "live_lines (trail_text trail) = []")
  case True
  then show ?thesis by (simp add: prev_link_trail trail_link_def genesis_def plain_text_def)
next
  case False
  with assms(1) show ?thesis
    using verified_trail_link [of sha loads 1 genesis] assms(2)
    unfolding prev_link_trail verify_trail by metis
qed

lemma append_Inr:
  "append_audit_event sha loads cap now entry trail = Inr (trail', row) \<Longrightarrow>
   row = chained_row sha loads now trail entry \<and>
   trail' = Some (trail_text trail @ audit_line row @ [CHR 0x0A])"
  by (auto simp: append_audit_event_def Let_def split: if_splits)

lemma appended_row_verifies:
  assumes "loads l = Some (PDict row)"
    and "get_py row ''entry_hash'' = PStr (audit_entry_hash sha row)"
    and "get_py row ''prev_hash'' = PStr prev"
  shows "line_violations sha loads idx prev l = []"
  using assms by (simp add: line_violations_def Let_def)

text \<open>C17: Appending an event through \<open>append_audit_event\<close> to a trail that verifies gives a trail
  that verifies and has exactly one more line, the row that was returned, whatever the event
  holds for \<open>ts\<close>, \<open>prev_hash\<close> and \<open>entry_hash\<close>; the file still ends in a newline, so the next append
  can rely on it. The texts hold no U+0085, hashes are not empty, and \<open>json.loads\<close> reads the row
  back.\<close>

theorem audit_append_verifies:
  assumes "append_audit_event sha loads cap now entry trail = Inr (trail', row)"
    and "verify_audit_chain sha loads trail = []" and "closed_text (trail_text trail)"
    and "plain_py (PDict entry)" and "plain_text now"
    and "\<And>x. sha x \<noteq> [] \<and> plain_text (sha x)"
    and "loads (audit_line row) = Some (PDict row)"
  shows "verify_audit_chain sha loads trail' = [] \<and>
         live_lines (trail_text trail') = live_lines (trail_text trail) @ [audit_line row] \<and>
         closed_text (trail_text trail')"
proof (intro conjI)
  from append_Inr [OF assms(1)] have row: "row = chained_row sha loads now trail entry"
    and trail': "trail' = Some (trail_text trail @ audit_line row @ [CHR 0x0A])" by simp_all
  have "plain_py (PDict row)" unfolding row
    using assms prev_link_plain [of sha loads trail] by (intro chained_row_plain) simp_all
  then show lines: "live_lines (trail_text trail') = live_lines (trail_text trail) @ [audit_line row]"
    using assms(3) live_lines_append [of "trail_text trail" "audit_line row"]
    by (simp add: trail' trail_text_def audit_line_one_line audit_line_not_blank)
  have "line_violations sha loads idx (audit_prev_link sha loads trail) (audit_line row) = []" for idx
    using assms(7) by (rule appended_row_verifies) (simp_all only: row chained_row_get)
  with assms(2) show "verify_audit_chain sha loads trail' = []"
    unfolding verify_trail lines by (simp add: verify_append prev_link_trail)
  show "closed_text (trail_text trail')" by (simp add: trail' trail_text_def closed_text_def)
qed

definition demo_sha :: "string \<Rightarrow> string" where
  "demo_sha x = (if CHR ''u'' \<in> set x then ''h1'' else ''h0'')"

definition demo_entry :: audit_row where
  "demo_entry = [(''action'', PStr ''n''), (''prev_hash'', PStr ''x'')]"

definition demo_row :: audit_row where
  "demo_row =
     [(''action'', PStr ''n''), (''ts'', PStr ''t''), (''prev_hash'', PStr genesis), (''entry_hash'', PStr ''h0'')]"

lemma demo_row: "demo_row = chained_row demo_sha loads ''t'' None demo_entry"
  by (simp add: chained_row_def demo_entry_def demo_row_def audit_prev_link_def dict_del_def Let_def)
    code_simp

definition demo_loads :: "string \<Rightarrow> py option" where
  "demo_loads l = (if l = audit_line demo_row then Some (PDict demo_row) else None)"

theorem audit_append_verifies_witness:
  "case append_audit_event demo_sha demo_loads False ''t'' demo_entry None of
     Inl _ \<Rightarrow> False
   | Inr (trail', row) \<Rightarrow> verify_audit_chain demo_sha demo_loads trail' = [] \<and> trail' \<noteq> None"
proof -
  have app: "append_audit_event demo_sha demo_loads False ''t'' demo_entry None =
      Inr (Some (audit_line demo_row @ [CHR 0x0A]), demo_row)"
    by code_simp
  have sha: "demo_sha x \<noteq> [] \<and> plain_text (demo_sha x)" for x
    by (simp add: demo_sha_def plain_text_def)
  have "verify_audit_chain demo_sha demo_loads None = []" "closed_text (trail_text None)"
    "plain_py (PDict demo_entry)" "plain_text ''t''" "demo_loads (audit_line demo_row) = Some (PDict demo_row)"
    by code_simp+
  from audit_append_verifies [OF app this(1-4) sha this(5)] show ?thesis by (simp add: app)
qed

subsection \<open>What the chain commits to\<close>

definition row_of :: "(string \<Rightarrow> py option) \<Rightarrow> string \<Rightarrow> audit_row" where
  "row_of loads l = (case loads l of Some (PDict row) \<Rightarrow> row | _ \<Rightarrow> [])"

text \<open>A chained line, whose canonical text \<open>json.loads\<close> reads back.\<close>

definition chained_line :: "(string \<Rightarrow> py option) \<Rightarrow> string \<Rightarrow> bool" where
  "chained_line loads l \<longleftrightarrow>
     (\<exists>row. loads l = Some (PDict row) \<and> truthy (get_py row ''entry_hash'') \<and>
        loads (canonical_row row) = Some (sort_keys (PDict (dict_del row ''entry_hash''))))"

lemma dict_get_filter:
  "dict_get d k = (case filter (\<lambda>kv. fst kv = k) d of [] \<Rightarrow> None | kv # _ \<Rightarrow> Some (snd kv))"
  by (induction d) (auto simp: dict_get_def)

lemma dict_get_sorted: "dict_get (sort_key fst d) k = dict_get d k"
  by (simp add: dict_get_filter sort_key_stable)

lemma dict_get_map_snd: "dict_get (map (\<lambda>kv. (fst kv, f (snd kv))) d) k = map_option f (dict_get d k)"
  by (induction d) (auto simp: dict_get_def)

lemma sorted_get:
  assumes "sort_keys (PDict d) = sort_keys (PDict e)"
  shows "map_option sort_keys (dict_get d k) = map_option sort_keys (dict_get e k)"
proof -
  have "sort_key fst (map (\<lambda>kv. (fst kv, sort_keys (snd kv))) d) =
        sort_key fst (map (\<lambda>kv. (fst kv, sort_keys (snd kv))) e)"
    using assms by simp
  then have "dict_get (sort_key fst (map (\<lambda>kv. (fst kv, sort_keys (snd kv))) d)) k =
             dict_get (sort_key fst (map (\<lambda>kv. (fst kv, sort_keys (snd kv))) e)) k"
    by simp
  then show ?thesis by (simp only: dict_get_sorted dict_get_map_snd)
qed

lemma canonical_prev_hash:
  assumes "loads (canonical_row r) = Some (sort_keys (PDict (dict_del r ''entry_hash'')))"
    and "loads (canonical_row s) = Some (sort_keys (PDict (dict_del s ''entry_hash'')))"
    and "canonical_row r = canonical_row s"
    and "get_py r ''prev_hash'' = PStr p" and "get_py s ''prev_hash'' = PStr q"
  shows "p = q"
proof -
  have "sort_keys (PDict (dict_del r ''entry_hash'')) = sort_keys (PDict (dict_del s ''entry_hash''))"
    using assms(1,2,3) by simp
  from sorted_get [OF this, of "''prev_hash''"] assms(4,5) show ?thesis
    by (auto simp: get_py_def split: option.splits)
qed

lemma verified_line:
  assumes "line_violations sha loads idx prev l = []" and "chained_line loads l"
  shows "line_link sha loads l = sha (canonical_row (row_of loads l))"
    and "get_py (row_of loads l) ''prev_hash'' = PStr prev"
    and "loads (canonical_row (row_of loads l)) =
           Some (sort_keys (PDict (dict_del (row_of loads l) ''entry_hash'')))"
proof -
  from assms(2) obtain row where row: "loads l = Some (PDict row)" "truthy (get_py row ''entry_hash'')"
      "loads (canonical_row row) = Some (sort_keys (PDict (dict_del row ''entry_hash'')))"
    unfolding chained_line_def by blast
  with assms(1) have v: "get_py row ''entry_hash'' = PStr (audit_entry_hash sha row)"
      "get_py row ''prev_hash'' = PStr prev"
    by (auto simp: line_violations_def Let_def split: if_splits)
  have r: "row_of loads l = row" by (simp add: row_of_def row(1))
  show "line_link sha loads l = sha (canonical_row (row_of loads l))"
    using row(2) v(1) unfolding r by (simp add: line_link_def row(1) audit_entry_hash_def)
  show "get_py (row_of loads l) ''prev_hash'' = PStr prev"
    and "loads (canonical_row (row_of loads l)) =
           Some (sort_keys (PDict (dict_del (row_of loads l) ''entry_hash'')))"
    unfolding r by (fact v(2), fact row(3))
qed

text \<open>The last link of a verified trail commits to every row before it: two verified trails of
  chained rows that end in the same link have the same rows, in the same order, up to the spelling
  of their JSON. So editing, inserting, removing or reordering rows before the last cannot go
  unnoticed while the last hash stands. SHA-256 has no collision among the rows of the two trails and
  never yields \<open>GENESIS\<close>.\<close>

theorem audit_chain_commits:
  assumes "verify_audit_chain sha loads (Some t) = []" and "verify_audit_chain sha loads (Some u) = []"
    and "audit_prev_link sha loads (Some t) = audit_prev_link sha loads (Some u)"
    and "\<forall>l \<in> set (live_lines t) \<union> set (live_lines u). chained_line loads l"
    and "\<And>x y. x \<in> canonical_row ` row_of loads ` (set (live_lines t) \<union> set (live_lines u)) \<Longrightarrow>
           y \<in> canonical_row ` row_of loads ` (set (live_lines t) \<union> set (live_lines u)) \<Longrightarrow>
           sha x = sha y \<Longrightarrow> x = y"
    and "\<And>x. sha x \<noteq> genesis"
  shows "map (canonical_row \<circ> row_of loads) (live_lines t) = map (canonical_row \<circ> row_of loads) (live_lines u)"
proof -
  have "map (canonical_row \<circ> row_of loads) ls = map (canonical_row \<circ> row_of loads) ms"
    if "verify_lines sha loads 1 genesis ls = []" "verify_lines sha loads 1 genesis ms = []"
      "trail_link sha loads genesis ls = trail_link sha loads genesis ms"
      "set ls \<subseteq> set (live_lines t)" "set ms \<subseteq> set (live_lines u)" for ls ms
    using that
  proof (induction ls arbitrary: ms rule: rev_induct)
    case Nil
    then show ?case
      using verified_trail_link [of sha loads 1 genesis ms] assms(6) assms(6) [symmetric]
      by (cases "ms = []") (simp, auto simp: trail_link_def)
  next
    case (snoc l ls)
    show ?case
    proof (cases ms rule: rev_cases)
      case Nil
      then show ?thesis
        using snoc.prems verified_trail_link [of sha loads 1 genesis "ls @ [l]"] assms(6) assms(6) [symmetric]
        by (auto simp: trail_link_def)
    next
      case (snoc ms' m)
      note ms = this and prems = snoc.prems
      let ?l = "row_of loads l" and ?m = "row_of loads m"
      have c: "chained_line loads l" "chained_line loads m"
        using assms(4) prems(4,5) by (auto simp: ms)
      have v: "line_violations sha loads (1 + length ls) (trail_link sha loads genesis ls) l = []"
          "line_violations sha loads (1 + length ms') (trail_link sha loads genesis ms') m = []"
        using prems(1,2) by (simp_all add: ms verify_append)
      note vl = verified_line [OF v(1) c(1)] and vm = verified_line [OF v(2) c(2)]
      have "sha (canonical_row ?l) = sha (canonical_row ?m)"
        using prems(3) vl(1) vm(1) by (simp add: ms trail_link_def)
      moreover have "l \<in> set (live_lines t)" "m \<in> set (live_lines u)"
        using prems(4,5) by (simp_all add: ms)
      ultimately have eq: "canonical_row ?l = canonical_row ?m"
        using assms(5) [of "canonical_row ?l" "canonical_row ?m"] by simp
      have "trail_link sha loads genesis ls = trail_link sha loads genesis ms'"
        by (rule canonical_prev_hash [OF vl(3) vm(3) eq vl(2) vm(2)])
      then have "map (canonical_row \<circ> row_of loads) ls = map (canonical_row \<circ> row_of loads) ms'"
        using prems by (intro snoc.IH) (auto simp: ms verify_append)
      with eq show ?thesis by (simp add: ms comp_def)
    qed
  qed
  from this [of "live_lines t" "live_lines u"] show ?thesis
    using assms(1-3) by (simp add: verify_trail prev_link_trail trail_text_def)
qed

definition demo_reader :: "string \<Rightarrow> py option" where
  "demo_reader l =
     (if l = audit_line demo_row then Some (PDict demo_row)
      else if l = canonical_row demo_row then Some (sort_keys (PDict (dict_del demo_row ''entry_hash'')))
      else None)"

lemma demo_sha_not_genesis: "demo_sha x \<noteq> genesis"
  by (simp add: demo_sha_def genesis_def)

theorem audit_chain_commits_witness:
  "let t = audit_line demo_row @ [CHR 0x0A]; u = CHR 0x0A # t in
     map (canonical_row \<circ> row_of demo_reader) (live_lines t) =
     map (canonical_row \<circ> row_of demo_reader) (live_lines u) \<and> live_lines t \<noteq> [] \<and> t \<noteq> u"
proof -
  let ?t = "audit_line demo_row @ [CHR 0x0A]" and ?u = "CHR 0x0A # audit_line demo_row @ [CHR 0x0A]"
  have "one_line (audit_line demo_row)"
    by (rule audit_line_one_line) code_simp
  then have t: "live_lines ?t = [audit_line demo_row]"
    using live_lines_append [of "[]" "audit_line demo_row"] audit_line_not_blank [of demo_row]
    by (simp add: closed_text_def live_lines_def)
  moreover have "live_lines ?u = live_lines ?t" by (simp add: live_lines_def)
  ultimately have l: "live_lines ?t = [audit_line demo_row]" "live_lines ?u = [audit_line demo_row]"
    by simp_all
  have r: "demo_reader (audit_line demo_row) = Some (PDict demo_row)" by (simp add: demo_reader_def)
  have "line_violations demo_sha demo_reader 1 genesis (audit_line demo_row) = []"
    by (rule appended_row_verifies [where row = demo_row])
      (simp_all only: r, simp_all add: demo_row [of demo_reader] chained_row_get audit_prev_link_def)
  then have c: "verify_audit_chain demo_sha demo_reader (Some ?t) = []"
      "verify_audit_chain demo_sha demo_reader (Some ?u) = []"
      "audit_prev_link demo_sha demo_reader (Some ?t) = audit_prev_link demo_sha demo_reader (Some ?u)"
    by (simp_all add: verify_audit_chain_def audit_prev_link_def l)
  have "demo_reader (audit_line demo_row) = Some (PDict demo_row)"
      "truthy (get_py demo_row ''entry_hash'')"
      "demo_reader (canonical_row demo_row) = Some (sort_keys (PDict (dict_del demo_row ''entry_hash'')))"
    by code_simp+
  then have "\<forall>l \<in> set (live_lines ?t) \<union> set (live_lines ?u). chained_line demo_reader l"
    by (auto simp: l chained_line_def)
  from audit_chain_commits [OF c this _ demo_sha_not_genesis] show ?thesis
    by (simp add: l Let_def)
qed

text \<open>The chain does not see a truncation: what remains of a verified trail after its last lines
  are cut off verifies as well, although the strict check reads it as the test for a trail that
  was \<open>edited, reordered, or truncated\<close>.\<close>

theorem truncation_undetected:
  assumes "verify_audit_chain sha loads (Some (t @ CHR 0x0A # u)) = []"
  shows "verify_audit_chain sha loads (Some (t @ [CHR 0x0A])) = []"
  using assms by (simp add: verify_audit_chain_def live_lines_def splitlines_closed [of _ t u] verify_append)

definition demo_trail :: "string" where
  "demo_trail = audit_line demo_row @ [CHR 0x0A]"

definition demo_row2 :: audit_row where
  "demo_row2 =
     [(''action'', PStr ''n''), (''ts'', PStr ''u''), (''prev_hash'', PStr ''h0''), (''entry_hash'', PStr ''h1'')]"

definition demo_reader2 :: "string \<Rightarrow> py option" where
  "demo_reader2 l = (if l = audit_line demo_row2 then Some (PDict demo_row2) else demo_reader l)"

theorem truncation_undetected_witness:
  "verify_audit_chain demo_sha demo_reader2 (Some (audit_line demo_row @ [CHR 0x0A])) = [] \<and>
   length (live_lines (audit_line demo_row @ CHR 0x0A # audit_line demo_row2 @ [CHR 0x0A])) = 2"
proof -
  have "verify_audit_chain demo_sha demo_reader2
      (Some (audit_line demo_row @ CHR 0x0A # audit_line demo_row2 @ [CHR 0x0A])) = []"
    by code_simp
  from truncation_undetected [OF this] show ?thesis by (rule conjI) code_simp
qed

lemma set_dropWhile_kept: "c \<in> set s \<Longrightarrow> \<not> p c \<Longrightarrow> c \<in> set (dropWhile p s)"
  by (induction s) auto

lemma strip_nonblank: "c \<in> set s \<Longrightarrow> \<not> is_space c \<Longrightarrow> strip s \<noteq> []"
  using set_dropWhile_kept [of c s is_space] by (auto simp: strip_def rstrip_by_def lstrip_by_def)

lemma chained_row_shape:
  "\<exists>a b. chained_row sha loads now trail [(''action'', x), (''reason'', y)] =
     [(''action'', x), (''reason'', y), (''ts'', PStr now), (''prev_hash'', a), (''entry_hash'', b)]"
  by (simp add: chained_row_def Let_def dict_del_def)

lemma join_cons: "xs \<noteq> [] \<Longrightarrow> join sep (x # xs) = x @ sep @ join sep xs"
  by (cases xs) simp_all

text \<open>The row up to the separator.\<close>

definition cut_row :: "string \<Rightarrow> string" where
  "cut_row v = CHR ''{'' # json_text ''action'' @ '': '' @ json_text ''note'' @ '', '' @
     json_text ''reason'' @ '': '' @ CHR 0x22 # concat (map json_char v)"

lemma cut_row_line:
  assumes "plain_text v"
  shows "one_line (cut_row v)" and "strip (cut_row v) \<noteq> []"
proof -
  have "one_line (concat (map json_char v))"
    using assms by (intro concat_one_line) (auto simp: plain_text_def intro!: json_char_one_line)
  then show "one_line (cut_row v)"
    by (simp add: cut_row_def json_text_one_line plain_text_def) (simp add: line_break_def)
  show "strip (cut_row v) \<noteq> []"
    by (rule strip_nonblank [of "CHR ''{''"]) (simp_all add: cut_row_def is_space_def)
qed

lemma cut_row_prefix:
  "\<exists>rest. audit_line (chained_row sha loads now trail
     [(''action'', PStr ''note''), (''reason'', PStr (v @ CHR 0x85 # w))]) = cut_row v @ CHR 0x85 # rest"
proof -
  have c: "json_char CHR 0x85 = [CHR 0x85]" by code_simp
  obtain a b where "chained_row sha loads now trail
      [(''action'', PStr ''note''), (''reason'', PStr (v @ CHR 0x85 # w))] =
     [(''action'', PStr ''note''), (''reason'', PStr (v @ CHR 0x85 # w)), (''ts'', PStr now),
      (''prev_hash'', a), (''entry_hash'', b)]"
    using chained_row_shape [of sha loads now trail] by blast
  then show ?thesis
    unfolding audit_line_def cut_row_def json_dump.simps
    by (simp add: join_cons c json_text_def [of "v @ CHR 0x85 # w"] del: join.simps)
qed

text \<open>An event whose reason holds a line separator that \<open>json.dumps\<close> leaves as it is and
  \<open>str.splitlines\<close> breaks at (U+0085 here) is accepted and breaks the chain: the trail it is
  appended to no longer verifies, as \<open>json.loads\<close> rejects the unterminated first half of the row.\<close>

theorem separator_breaks_chain:
  assumes "closed_text text" and "plain_text v" and "loads (cut_row v) = None"
  shows "\<exists>text' row.
    append_audit_event sha loads cap now
      [(''action'', PStr ''note''), (''reason'', PStr (v @ CHR 0x85 # w))] (Some text) = Inr (Some text', row) \<and>
    verify_audit_chain sha loads (Some text') \<noteq> []"
proof -
  let ?e = "[(''action'', PStr ''note''), (''reason'', PStr (v @ CHR 0x85 # w))]"
  let ?row = "chained_row sha loads now (Some text) ?e"
  obtain rest where rest: "audit_line ?row = cut_row v @ CHR 0x85 # rest"
    using cut_row_prefix by blast
  have "append_audit_event sha loads cap now ?e (Some text) =
      Inr (Some (text @ audit_line ?row @ [CHR 0x0A]), ?row)"
    by (simp add: append_audit_event_def or_empty_def strip_id is_space_def RESERVED_AUDIT_ACTIONS_def
        trail_text_def Let_def)
  moreover have "\<exists>ls. live_lines (text @ audit_line ?row @ [CHR 0x0A]) = live_lines text @ cut_row v # ls"
  proof -
    have b: "line_break CHR 0x85" by code_simp
    have s: "splitlines [] (cut_row v @ CHR 0x85 # rest @ [CHR 0x0A]) =
        cut_row v # splitlines [] (rest @ [CHR 0x0A])"
      using splitlines_break [OF cut_row_line(1) [OF assms(2)] b, of "[]"] by simp
    show ?thesis
    proof (cases "text = []")
      case True
      then show ?thesis
        unfolding rest using s cut_row_line(2) [OF assms(2)] by (simp add: live_lines_def)
    next
      case False
      with assms(1) obtain u where "text = u @ [CHR 0x0A]"
        unfolding closed_text_def by (metis append_butlast_last_id)
      then show ?thesis
        unfolding rest using s cut_row_line(2) [OF assms(2)] splitlines_closed [of "[]" u "cut_row v @ CHR 0x85 # rest @ [CHR 0x0A]"]
        by (simp add: live_lines_def)
    qed
  qed
  ultimately show ?thesis
    using assms(3) by (auto simp: verify_audit_chain_def verify_append line_violations_def)
qed

theorem separator_breaks_chain_witness:
  "\<exists>text' row.
    append_audit_event demo_sha demo_reader False ''u''
      [(''action'', PStr ''note''), (''reason'', PStr (''a'' @ CHR 0x85 # ''b''))] (Some demo_trail) =
      Inr (Some text', row) \<and>
    verify_audit_chain demo_sha demo_reader (Some text') \<noteq> []"
proof (rule separator_breaks_chain)
  show "closed_text demo_trail" "plain_text ''a''" "demo_reader (cut_row ''a'') = None"
    by code_simp+
qed

end
