(* ===== verification/ArtifactText.thy ===== *)
theory ArtifactText
  imports Prelude
begin

section \<open>Signature blocks of gate artifacts (\<open>sign.py\<close>)\<close>

text \<open>
  A gate artifact is a Markdown text whose part from the first line that starts with
  \<open>## Signatures\<close> holds the signatures as YAML entries. The regular expressions that read and
  edit that block are written out as scanners. SHA-256 in hex is the argument \<open>sha\<close> and the
  date an argument; the call of the brain-ingest hook is not modelled.
\<close>

abbreviation nl :: char where "nl \<equiv> CHR 0x0A"

subsection \<open>The content above the block\<close>

text \<open>\<open>^## Signatures\<close>: the text split before its first match; the flag says whether a line starts
  here.\<close>

definition heading :: string where
  "heading = ''## Signatures''"

fun split_heading :: "bool \<Rightarrow> string \<Rightarrow> string \<times> string" where
  "split_heading b [] = ([], [])"
| "split_heading b (c # cs) =
     (if b \<and> startswith (c # cs) heading then ([], c # cs)
      else (let (h, t) = split_heading (c = nl) cs in (c # h, t)))"

definition above :: "string \<Rightarrow> string" where
  "above text = fst (split_heading True text)"

definition sig_block :: "string \<Rightarrow> string" where
  "sig_block text = snd (split_heading True text)"

definition compute_hash :: "(string \<Rightarrow> string) \<Rightarrow> string \<Rightarrow> string" where
  "compute_hash sha text = sha (rstrip_by is_space (above text))"

subsection \<open>Reading the block\<close>

definition line_of :: "string \<Rightarrow> string" where
  "line_of s = takeWhile (\<lambda>c. c \<noteq> nl) s"

text \<open>\<open>name:\s*(.+)\<close>, stripped: white space may run over line ends, and the group is what is left
  of the line of the next character.\<close>

definition value_after :: "string \<Rightarrow> string" where
  "value_after rest = strip (line_of (dropWhile is_space rest))"

text \<open>\<open>(?im)^\s*[-*]?\s*(signer|verdict|status|signature|approval)\s*:\s*[^\n]*\bDRAFT\b\<close>.\<close>

definition DRAFT_FIELDS :: "string list" where
  "DRAFT_FIELDS = [''signer'', ''verdict'', ''status'', ''signature'', ''approval'']"

definition draft_value :: "string \<Rightarrow> bool" where
  "draft_value rest = word_search ''draft'' False (lower (line_of (dropWhile is_space rest)))"

definition draft_field_at :: "string \<Rightarrow> bool" where
  "draft_field_at s =
     (let s = dropWhile is_space s;
          s = (if s \<noteq> [] \<and> (hd s = CHR ''-'' \<or> hd s = CHR ''*'') then tl s else s);
          s = dropWhile is_space s
      in list_ex (\<lambda>f.
           if lower (take (length f) s) = f then
             (let r = dropWhile is_space (drop (length f) s)
              in if r \<noteq> [] \<and> hd r = CHR '':'' then draft_value (tl r) else False)
           else False) DRAFT_FIELDS)"

fun at_line_starts :: "(string \<Rightarrow> bool) \<Rightarrow> bool \<Rightarrow> string \<Rightarrow> bool" where
  "at_line_starts p b [] = (b \<and> p [])"
| "at_line_starts p b (c # cs) =
     ((if b then p (c # cs) else False) \<or> at_line_starts p (c = nl) cs)"

text \<open>\<open>re.finditer(r"signer:\s*(.+)")\<close>.\<close>

function find_signers :: "string \<Rightarrow> string list" where
  "find_signers [] = []"
| "find_signers (c # cs) =
     (if startswith (c # cs) ''signer:'' then
        (let r = dropWhile is_space (drop 7 (c # cs))
         in strip (line_of r) # find_signers (dropWhile (\<lambda>c. c \<noteq> nl) r))
      else find_signers cs)"
  by pat_completeness auto
termination
proof (relation "measure length", goal_cases)
  case (2 c cs r)
  have "length (dropWhile (\<lambda>c. c \<noteq> nl) r) \<le> length r" by (rule length_dropWhile_le)
  also have "\<dots> \<le> length (drop 7 (c # cs))" unfolding 2 by (rule length_dropWhile_le)
  finally show ?case by simp
qed auto

text \<open>\<open>artifact_hash:\s*([a-f0-9]{64})\<close>, the first match.\<close>

definition hex_char :: "char \<Rightarrow> bool" where
  "hex_char c \<longleftrightarrow> is_digit c \<or> (let n = (of_char c :: nat) in 97 \<le> n \<and> n \<le> 102)"

definition hash_field :: string where
  "hash_field = ''artifact_hash:''"

definition hash_at :: "string \<Rightarrow> string option" where
  "hash_at s =
     (if startswith s hash_field then
        (let h = take 64 (dropWhile is_space (drop (length hash_field) s))
         in if length h = 64 \<and> list_all hex_char h then Some h else None)
      else None)"

fun first_hash :: "string \<Rightarrow> string option" where
  "first_hash [] = None"
| "first_hash (c # cs) = (case hash_at (c # cs) of Some h \<Rightarrow> Some h | None \<Rightarrow> first_hash cs)"

record signer_view =
  signers :: "string list"
  draft_block :: bool
  hash_valid :: "bool option"

definition parse_signers :: "(string \<Rightarrow> string) \<Rightarrow> string \<Rightarrow> signer_view" where
  "parse_signers sha text =
     (let block = sig_block text in
      if block = [] then \<lparr>signers = [], draft_block = False, hash_valid = None\<rparr>
      else
        \<lparr>signers = filter (\<lambda>n. n \<noteq> [] \<and> \<not> occurs_in ''DRAFT'' (upper n)) (find_signers block),
         draft_block = at_line_starts draft_field_at True block,
         hash_valid = map_option (\<lambda>h. h = compute_hash sha text) (first_hash block)\<rparr>)"

subsection \<open>The entries of the block\<close>

record sig_entry =
  sig_signer :: string
  sig_role :: string
  sig_verdict :: string
  sig_hash :: string
  sig_draft :: bool

text \<open>\<open>^\s*-\s+signer:\s*\<close> at a line start: whether the match ends at a line start, and what
  follows it.\<close>

definition entry_start :: "string \<Rightarrow> (bool \<times> string) option" where
  "entry_start s =
     (let s = dropWhile is_space s in
      if s = [] \<or> hd s \<noteq> CHR ''-'' then None
      else
        (let r = dropWhile is_space (tl s); gap = takeWhile is_space (drop 7 r) in
         if r = tl s \<or> \<not> startswith r ''signer:'' then None
         else Some (gap \<noteq> [] \<and> last gap = nl, dropWhile is_space (drop 7 r))))"

text \<open>\<open>re.split\<close> at those matches, with the chunk read so far.\<close>

function split_entries :: "bool \<Rightarrow> string \<Rightarrow> string \<Rightarrow> string list" where
  "split_entries b acc [] = [acc]"
| "split_entries b acc (c # cs) =
     (case (if b then entry_start (c # cs) else None) of
        Some (b', r) \<Rightarrow>
          if length r \<le> length cs then acc # split_entries b' [] r
          else split_entries (c = nl) (acc @ [c]) cs
      | None \<Rightarrow> split_entries (c = nl) (acc @ [c]) cs)"
  by pat_completeness auto
termination by (relation "measure (\<lambda>(b, acc, s). length s)") auto

text \<open>\<open>(?m)^\s*name:\s*(.+)$\<close>, the first match, stripped.\<close>

definition field_at :: "string \<Rightarrow> string \<Rightarrow> string option" where
  "field_at name s =
     (let r = dropWhile is_space s in
      if startswith r (name @ '':'') then Some (value_after (drop (length name + 1) r)) else None)"

fun field_from :: "string \<Rightarrow> bool \<Rightarrow> string \<Rightarrow> string" where
  "field_from name b [] = []"
| "field_from name b (c # cs) =
     (case (if b then field_at name (c # cs) else None) of
        Some v \<Rightarrow> v
      | None \<Rightarrow> field_from name (c = nl) cs)"

abbreviation field_of :: "string \<Rightarrow> string \<Rightarrow> string" where
  "field_of name chunk \<equiv> field_from name True chunk"

definition draft_name :: "string \<Rightarrow> bool" where
  "draft_name s \<longleftrightarrow> startswith (lower s) ''draft'' \<and> ends_word (drop 5 s)"

definition parse_entry :: "string \<Rightarrow> sig_entry" where
  "parse_entry chunk =
     (let first = (if strip chunk = [] then [] else strip (hd (splitlines [] chunk))) in
      \<lparr>sig_signer = first,
       sig_role = field_of ''role'' chunk,
       sig_verdict = upper (field_of ''verdict'' chunk),
       sig_hash = field_of ''artifact_hash'' chunk,
       sig_draft = draft_name first \<or> upper (field_of ''verdict'' chunk) = ''DRAFT'' \<or>
         upper (field_of ''status'' chunk) = ''DRAFT''\<rparr>)"

definition parse_signatures :: "string \<Rightarrow> sig_entry list" where
  "parse_signatures text =
     (let block = sig_block text in
      if block = [] then [] else map parse_entry (tl (split_entries True [] block)))"

subsection \<open>Signing\<close>

text \<open>\<open>text.splitlines(keepends=True)\<close>.\<close>

fun keep_lines :: "string \<Rightarrow> string \<Rightarrow> string list" where
  "keep_lines acc [] = (if acc = [] then [] else [acc])"
| "keep_lines acc [c] = [acc @ [c]]"
| "keep_lines acc (c # d # cs) =
     (if c = CHR 0x0D \<and> d = nl then (acc @ [c, d]) # keep_lines [] cs
      else if line_break c then (acc @ [c]) # keep_lines [] (d # cs)
      else keep_lines (acc @ [c]) (d # cs))"

text \<open>\<open>-\s+signer:\<close> and \<open>-\s+signer:\s*DRAFT\b\<close> at the front of a stripped line.\<close>

definition signer_item :: "string \<Rightarrow> string option" where
  "signer_item s =
     (if s = [] \<or> hd s \<noteq> CHR ''-'' then None
      else
        (let r = dropWhile is_space (tl s)
         in if r = tl s \<or> \<not> startswith r ''signer:'' then None else Some (drop 7 r)))"

definition draft_item :: "string \<Rightarrow> bool" where
  "draft_item s = (case signer_item s of None \<Rightarrow> False | Some r \<Rightarrow> draft_name (dropWhile is_space r))"

fun drop_drafts :: "bool \<Rightarrow> string list \<Rightarrow> string list" where
  "drop_drafts skipping [] = []"
| "drop_drafts skipping (l # ls) =
     (let s = strip l in
      if signer_item s \<noteq> None then
        (if draft_item s then drop_drafts True ls else l # drop_drafts False ls)
      else if skipping then
        (if startswith s ''```'' \<or> startswith s ''#'' then l # drop_drafts False ls
         else drop_drafts True ls)
      else l # drop_drafts False ls)"

definition strip_draft_signature_entries :: "string \<Rightarrow> string" where
  "strip_draft_signature_entries text =
     above text @ concat (drop_drafts False (keep_lines [] (sig_block text)))"

definition VALID_ROLES :: "string list" where
  "VALID_ROLES = [''PO'', ''PE'', ''QA'', ''DevOps'']"

definition VALID_VERDICTS :: "string list" where
  "VALID_VERDICTS = [''APPROVED'', ''APPROVED-WITH-CONDITIONS'', ''WAIVED'', ''REQUEST-CHANGES'', ''REJECTED'']"

definition GATE_LABELS :: "(string \<times> string) list" where
  "GATE_LABELS =
     [(''G0'', ''Gate 0''), (''G1'', ''Gate 1''), (''G2'', ''Gate 2''), (''G3'', ''Gate 3''),
      (''G4'', ''Gate 4''), (''G5'', ''Gate 5'')]"

definition gate_label :: "string \<Rightarrow> string" where
  "gate_label gate = (case dict_get GATE_LABELS (upper gate) of Some l \<Rightarrow> l | None \<Rightarrow> gate)"

datatype sign_error =
    BadRole | BadVerdict | NoProof | UnknownGate | NotAuthorised | BadLedger
  | UnknownTarget | NoTarget | Unaudited

record signature =
  by_signer :: string
  by_role :: string
  by_verdict :: string
  by_conditions :: string
  by_oidc_sub :: string
  by_oidc_issuer :: string

definition conditions_line :: "signature \<Rightarrow> string" where
  "conditions_line g =
     (if by_verdict g = ''APPROVED-WITH-CONDITIONS'' \<and> by_conditions g \<noteq> []
      then nl # ''  conditions: '' @ CHR 0x22 # by_conditions g @ [CHR 0x22] else [])"

definition oidc_lines :: "signature \<Rightarrow> string" where
  "oidc_lines g =
     (if by_oidc_sub g \<noteq> []
      then nl # ''  oidc_sub_hash: '' @ by_oidc_sub g @ nl # ''  oidc_issuer: '' @ by_oidc_issuer g else [])"

definition new_entry :: "string \<Rightarrow> string \<Rightarrow> string \<Rightarrow> signature \<Rightarrow> string" where
  "new_entry today hash gate g =
     ''- signer: '' @ by_signer g @ [nl] @
     ''  role: '' @ by_role g @ [nl] @
     ''  date: '' @ today @ [nl] @
     ''  gate: '' @ gate_label gate @ [nl] @
     ''  artifact_hash: '' @ hash @ [nl] @
     ''  verdict: '' @ by_verdict g @ conditions_line g @ oidc_lines g @ [nl]"

text \<open>\<open>text.find(sub)\<close>: what precedes the first occurrence and what begins with it.\<close>

fun find_sub :: "string \<Rightarrow> string \<Rightarrow> (string \<times> string) option" where
  "find_sub sub [] = (if sub = [] then Some ([], []) else None)"
| "find_sub sub (c # cs) =
     (if startswith (c # cs) sub then Some ([], c # cs)
      else map_option (\<lambda>(p, r). (c # p, r)) (find_sub sub cs))"

definition fence :: string where "fence = ''```''"

definition yaml_fence :: string where "yaml_fence = ''```yaml''"

definition full_block :: "string \<Rightarrow> string" where
  "full_block entry = nl # nl # heading @ [nl, nl] @ yaml_fence @ [nl] @ entry @ fence @ [nl]"

text \<open>The new entry goes before the fence that closes the first YAML fence of the block.\<close>

definition insert_entry :: "string \<Rightarrow> string \<Rightarrow> string option" where
  "insert_entry block entry =
     (case find_sub yaml_fence block of
        None \<Rightarrow> None
      | Some (p, r) \<Rightarrow>
          (case find_sub fence (drop 7 r) of
             None \<Rightarrow> None
           | Some (q, close) \<Rightarrow> Some (p @ take 7 r @ q @ entry @ close)))"

definition sign_text :: "(string \<Rightarrow> string) \<Rightarrow> string \<Rightarrow> string \<Rightarrow> signature \<Rightarrow> string \<Rightarrow> string" where
  "sign_text sha today gate g text =
     (let entry = new_entry today (compute_hash sha text) gate g;
          text = strip_draft_signature_entries text
      in case insert_entry (sig_block text) entry of
           Some block \<Rightarrow> above text @ block
         | None \<Rightarrow> rstrip_by is_space text @ full_block entry)"

definition sign_artifact ::
  "(string \<Rightarrow> string) \<Rightarrow> string \<Rightarrow> string \<Rightarrow> signature \<Rightarrow> string \<Rightarrow> sign_error + string" where
  "sign_artifact sha today gate g text =
     (if by_role g \<notin> set VALID_ROLES then Inl BadRole
      else if by_verdict g \<notin> set VALID_VERDICTS then Inl BadVerdict
      else Inr (sign_text sha today gate g text))"

subsection \<open>Signing leaves the content alone\<close>

lemma nl_space [simp]: "is_space nl"
  by (simp add: is_space_def)

lemma nl_not_in_heading: "nl \<notin> set heading"
  by (simp add: heading_def)

lemma split_heading_join: "fst (split_heading b s) @ snd (split_heading b s) = s"
  by (induction b s rule: split_heading.induct) (simp_all add: split_beta)

lemma above_block: "above text @ sig_block text = text"
  by (simp add: above_def sig_block_def split_heading_join)

lemma block_heading: "snd (split_heading b s) \<noteq> [] \<Longrightarrow> startswith (snd (split_heading b s)) heading"
  by (induction b s rule: split_heading.induct) (auto simp: split_beta split: if_splits)

definition clean :: "bool \<Rightarrow> string \<Rightarrow> bool" where
  "clean b s \<longleftrightarrow> snd (split_heading b s) = []"

lemma clean_fst: "clean b s \<Longrightarrow> fst (split_heading b s) = s"
  using split_heading_join [of b s] by (simp add: clean_def)

lemma clean_simps [simp]:
  "clean b []"
  "clean b (c # s) \<longleftrightarrow> \<not> (b \<and> startswith (c # s) heading) \<and> clean (c = nl) s"
  by (auto simp: clean_def split_beta)

lemma clean_prefix: "clean b (u @ v) \<Longrightarrow> clean b u"
proof (induction u arbitrary: b)
  case Nil
  then show ?case by simp
next
  case (Cons c u)
  have "startswith (c # u @ v) heading" if "startswith (c # u) heading"
    using that by (metis append_Cons prefix_prefix)
  with Cons show ?case by auto
qed

lemma heading_over_newline:
  "startswith (u @ nl # t) heading \<longleftrightarrow> startswith u heading"
proof -
  have "\<not> prefix heading (u @ nl # t)" if "\<not> prefix heading u"
  proof
    assume "prefix heading (u @ nl # t)"
    with that obtain zs where zs: "heading = u @ zs" "prefix zs (nl # t)"
      by (auto simp: prefix_append)
    with that have "zs \<noteq> []" by auto
    with zs(2) have "nl \<in> set (u @ zs)" by (cases zs) auto
    with nl_not_in_heading show False unfolding zs(1) by blast
  qed
  then show ?thesis by auto
qed

lemma clean_newline: "clean b (u @ nl # t) \<longleftrightarrow> clean b u \<and> clean True t"
proof (induction u arbitrary: b)
  case Nil
  have "\<not> startswith (nl # t) heading" using heading_over_newline [of "[]" t] by (simp add: heading_def)
  then show ?case by simp
next
  case (Cons c u)
  then show ?case using heading_over_newline [of "c # u" t] by auto
qed

lemma split_clean_newline:
  "clean b u \<Longrightarrow> startswith t heading \<Longrightarrow> split_heading b (u @ nl # t) = (u @ [nl], t)"
proof (induction u arbitrary: b)
  case Nil
  have "\<not> startswith (nl # t) heading" using heading_over_newline [of "[]" t] by (simp add: heading_def)
  moreover have "split_heading True t = ([], t)"
    using Nil by (cases t) (auto simp: heading_def)
  ultimately show ?case by simp
next
  case (Cons c u)
  then show ?case using heading_over_newline [of "c # u" t] by auto
qed

lemma split_cases:
  assumes "snd (split_heading b s) \<noteq> []"
  shows "(b \<and> fst (split_heading b s) = []) \<or> (\<exists>u. fst (split_heading b s) = u @ [nl] \<and> clean b u)"
  using assms
proof (induction b s rule: split_heading.induct)
  case (1 b)
  then show ?case by simp
next
  case (2 b c cs)
  show ?case
  proof (cases "b \<and> startswith (c # cs) heading")
    case True
    then show ?thesis by simp
  next
    case False
    with 2 have "(c = nl \<and> fst (split_heading (c = nl) cs) = []) \<or>
        (\<exists>u. fst (split_heading (c = nl) cs) = u @ [nl] \<and> clean (c = nl) u)"
      by (simp add: split_beta)
    moreover have "\<not> (b \<and> startswith (c # u) heading)"
      if "fst (split_heading (c = nl) cs) = u @ [nl]" for u
    proof -
      have "prefix (c # u) (c # cs)"
        using that split_heading_join [of "c = nl" cs] by (metis append_assoc append_Cons prefixI)
      with False show ?thesis by (meson prefix_order.trans)
    qed
    ultimately show ?thesis using False
      by (auto simp: split_beta)
  qed
qed

lemma split_swap:
  assumes "sig_block text \<noteq> []" and "startswith t heading"
  shows "above (above text @ t) = above text"
proof -
  have "split_heading True t = ([], t)"
    using assms(2) by (cases t) (auto simp: heading_def)
  then show ?thesis
    using split_cases [of True "text"] assms split_clean_newline [of True _ t]
    by (auto simp: above_def sig_block_def)
qed

lemma concat_keep_lines: "concat (keep_lines acc s) = acc @ s"
  by (induction acc s rule: keep_lines.induct) auto

lemma keep_lines_first:
  "(\<forall>c \<in> set h. \<not> line_break c) \<Longrightarrow> h \<noteq> [] \<Longrightarrow> \<exists>x ls. keep_lines acc (h @ r) = (acc @ h @ x) # ls"
proof (induction h arbitrary: acc)
  case Nil
  then show ?case by simp
next
  case (Cons c h)
  have c: "\<not> line_break c" "c \<noteq> CHR 0x0D" using Cons.prems by (auto simp: line_break_def)
  show ?case
  proof (cases "h @ r")
    case Nil
    then show ?thesis by simp
  next
    case (Cons d s)
    note ds = this
    show ?thesis
    proof (cases "h = []")
      case True
      have "\<exists>x ls. keep_lines (acc @ [c]) (d # s) = (acc @ [c] @ x) # ls"
      proof -
        have "\<exists>x ls. keep_lines a t = (a @ x) # ls" if "t \<noteq> []" for a t
          using that by (induction a t rule: keep_lines.induct) (simp_all, metis append.assoc)
        from this [of "d # s" "acc @ [c]"] show ?thesis by simp
      qed
      then show ?thesis using c ds True by simp
    next
      case False
      with Cons.IH [of "acc @ [c]"] Cons.prems show ?thesis using c ds by simp
    qed
  qed
qed

lemma heading_one_line: "c \<in> set heading \<Longrightarrow> \<not> line_break c"
  by (auto simp: heading_def line_break_def)

lemma strip_hd: "\<not> is_space c \<Longrightarrow> \<exists>r. strip (c # s) = c # r"
proof -
  assume c: "\<not> is_space c"
  have "prefix (strip (c # s)) (c # s)"
    using c rstrip_by_prefix [of is_space "c # s"] by (simp add: strip_def lstrip_by_def)
  moreover have "strip (c # s) \<noteq> []" using c
    by (auto simp: strip_def lstrip_by_def rstrip_by_def dest: set_dropWhileD)
  ultimately show ?thesis by (cases "strip (c # s)") auto
qed

lemma heading_line_kept: "signer_item (strip (heading @ x)) = None"
proof -
  have "\<exists>r. strip (CHR ''#'' # drop 1 heading @ x) = CHR ''#'' # r"
    by (rule strip_hd) (simp add: is_space_def)
  then show ?thesis by (auto simp: heading_def signer_item_def)
qed

lemma stripped_block:
  assumes "startswith b heading"
  shows "startswith (concat (drop_drafts False (keep_lines [] b))) heading"
proof -
  from assms obtain r where b: "b = heading @ r" by (auto simp: prefix_def)
  have "\<exists>x ls. keep_lines [] (heading @ r) = (heading @ x) # ls"
    using keep_lines_first [of heading "[]" r] heading_one_line by (simp add: heading_def)
  then show ?thesis by (auto simp: b heading_line_kept)
qed

lemma heading_nonempty [simp]: "heading \<noteq> []"
  by (simp add: heading_def)

lemma drafts_above:
  assumes "sig_block text \<noteq> []"
  shows "above (strip_draft_signature_entries text) = above text"
    and "startswith (sig_block (strip_draft_signature_entries text)) heading"
proof -
  let ?b = "concat (drop_drafts False (keep_lines [] (sig_block text)))"
  have "startswith (sig_block text) heading"
    using assms block_heading [of True "text"] by (simp add: sig_block_def)
  then have b: "startswith ?b heading" by (rule stripped_block)
  from split_swap [OF assms b] show a: "above (strip_draft_signature_entries text) = above text"
    by (simp add: strip_draft_signature_entries_def)
  have "above text @ sig_block (strip_draft_signature_entries text) = above text @ ?b"
    using above_block [of "strip_draft_signature_entries text"] a
    by (simp add: strip_draft_signature_entries_def)
  with b show "startswith (sig_block (strip_draft_signature_entries text)) heading" by simp
qed

lemma drafts_no_block: "sig_block text = [] \<Longrightarrow> strip_draft_signature_entries text = text"
  using above_block [of "text"] by (simp add: strip_draft_signature_entries_def)

lemma find_sub_Some:
  "find_sub sub s = Some (p, r) \<Longrightarrow> s = p @ r \<and> startswith r sub"
  by (induction sub s arbitrary: p r rule: find_sub.induct) (auto split: if_splits)

text \<open>What begins with a character outside the heading does not cut the heading.\<close>

lemma heading_uncut:
  assumes "startswith (p @ r) heading" and "r \<noteq> []" and "hd r \<notin> set heading"
  shows "startswith p heading"
proof (rule ccontr)
  assume "\<not> startswith p heading"
  with assms(1) obtain zs where zs: "heading = p @ zs" "prefix zs r"
    by (auto simp: prefix_append)
  with \<open>\<not> startswith p heading\<close> have "zs \<noteq> []" by auto
  then obtain a as where as: "zs = a # as" by (cases zs) simp_all
  with zs(2) have "hd r = a" by (auto simp: prefix_def)
  moreover have "a \<in> set heading" unfolding zs(1) as by simp
  ultimately show False using assms(3) by simp
qed

lemma insert_heading:
  assumes "insert_entry b entry = Some b'" and "startswith b heading"
  shows "startswith b' heading"
proof -
  from assms(1) obtain p r q close where pr: "find_sub yaml_fence b = Some (p, r)"
      and b': "b' = p @ take 7 r @ q @ entry @ close"
    by (auto simp: insert_entry_def split: option.splits)
  from find_sub_Some [OF pr] have b: "b = p @ r" and r: "startswith r yaml_fence" by simp_all
  from r have "r \<noteq> []" "hd r \<notin> set heading"
    by (auto simp: yaml_fence_def heading_def prefix_def)
  with assms(2) have "startswith p heading" unfolding b by (rule heading_uncut)
  then show ?thesis unfolding b' by (rule prefix_prefix)
qed

lemma rstrip_append:
  "rstrip_by p (xs @ ys) = (if rstrip_by p ys = [] then rstrip_by p xs else xs @ rstrip_by p ys)"
proof (induction ys rule: rev_induct)
  case Nil
  then show ?case by simp
next
  case (snoc y ys)
  then show ?case using rstrip_by_snoc [of p "xs @ ys" y] by (simp add: rstrip_by_snoc)
qed

lemma rstrip_heading: "rstrip_by p heading = heading \<Longrightarrow> startswith b heading \<Longrightarrow> startswith (rstrip_by p b) heading"
  by (auto simp: prefix_def rstrip_append)

lemma rstrip_idem: "rstrip_by p (rstrip_by p s) = rstrip_by p s"
  using rstrip_by_last [of p s] by (intro rstrip_by_id) auto

text \<open>An artifact without a block gets one at its end.\<close>

lemma fresh_split:
  assumes "sig_block text = []"
  shows "split_heading True (sign_text sha today gate g text) =
    (rstrip_by is_space text @ [nl, nl],
     drop 2 (full_block (new_entry today (compute_hash sha text) gate g)))"
proof -
  have "clean True text" using assms by (simp add: sig_block_def clean_def)
  moreover obtain v where "text = rstrip_by is_space text @ v"
    using rstrip_by_prefix [of is_space "text"] by (auto simp: prefix_def)
  ultimately have "clean True (rstrip_by is_space text)" by (metis clean_prefix)
  then have c: "clean True (rstrip_by is_space text @ [nl])" by (simp add: clean_newline)
  have n: "insert_entry [] e = None" for e by (simp add: insert_entry_def yaml_fence_def)
  let ?f = "full_block (new_entry today (compute_hash sha text) gate g)"
  have f: "?f = nl # nl # drop 2 ?f" "startswith (drop 2 ?f) heading"
    by (simp_all add: full_block_def)
  have "sign_text sha today gate g text = rstrip_by is_space text @ ?f"
    using assms n drafts_no_block [OF assms] by (simp add: sign_text_def Let_def)
  also have "\<dots> = (rstrip_by is_space text @ [nl]) @ nl # drop 2 ?f"
    by (subst f(1)) simp
  finally show ?thesis using split_clean_newline [OF c f(2)] by simp
qed

lemma sign_above:
  "rstrip_by is_space (above (sign_text sha today gate g text)) = rstrip_by is_space (above text)"
proof (cases "sig_block text = []")
  case True
  have "above text = text" using above_block [of "text"] True by simp
  with fresh_split [OF True] show ?thesis
    by (simp add: above_def rstrip_append rstrip_idem) (simp add: rstrip_by_def)
next
  case False
  let ?t = "strip_draft_signature_entries text"
  note a = drafts_above [OF False]
  then have ne: "sig_block ?t \<noteq> []" by auto
  show ?thesis
  proof (cases "insert_entry (sig_block ?t) (new_entry today (compute_hash sha text) gate g)")
    case (Some b)
    have "above (above ?t @ b) = above ?t"
      using ne insert_heading [OF Some a(2)] by (rule split_swap)
    then show ?thesis using Some a(1) by (simp add: sign_text_def Let_def)
  next
    case None
    have h: "rstrip_by is_space heading = heading"
      by (rule rstrip_by_id) (simp add: heading_def is_space_def)
    let ?r = "rstrip_by is_space (sig_block ?t)"
    have hr: "startswith ?r heading" using h a(2) by (rule rstrip_heading)
    then have "?r \<noteq> []" by auto
    then have "rstrip_by is_space ?t = above ?t @ ?r"
      using rstrip_append [of is_space "above ?t" "sig_block ?t"] by (simp add: above_block)
    moreover have "above (above ?t @ ?r @ f) = above ?t" for f
      using ne prefix_prefix [OF hr] by (rule split_swap)
    ultimately show ?thesis using None a(1) by (simp add: sign_text_def Let_def)
  qed
qed

text \<open>C34: Signing never changes the content hash of an artifact, whatever its signature block looks like
  and whatever placeholder entries are dropped from it: the hash recorded in the new entry, and
  in every earlier one, stays the hash of the text.\<close>

theorem signing_keeps_hash:
  assumes "sign_artifact sha today gate g text = Inr text'"
  shows "compute_hash sha text' = compute_hash sha text"
  using assms sign_above [of sha today gate g "text"]
  by (auto simp: sign_artifact_def compute_hash_def split: if_splits)

definition demo_hex :: "string \<Rightarrow> string" where
  "demo_hex x = replicate 64 (if CHR ''E'' \<in> set x then CHR ''e'' else CHR ''a'')"

definition demo_signature :: signature where
  "demo_signature =
     \<lparr>by_signer = ''Ada'', by_role = ''PO'', by_verdict = ''APPROVED'', by_conditions = [],
      by_oidc_sub = [], by_oidc_issuer = []\<rparr>"

definition demo_artifact :: string where
  "demo_artifact = ''# B'' @ [nl] @ ''text'' @ [nl]"

definition demo_drafted :: string where
  "demo_drafted = demo_artifact @ nl # heading @ [nl] @ yaml_fence @ [nl] @ ''- signer: DRAFT -- PO'' @ [nl] @
     ''  role: PO'' @ [nl] @ fence @ [nl]"

theorem signing_keeps_hash_witness:
  "case sign_artifact demo_hex ''d'' ''G1'' demo_signature demo_drafted of
     Inl _ \<Rightarrow> False
   | Inr t \<Rightarrow> compute_hash demo_hex t = compute_hash demo_hex demo_drafted \<and> t \<noteq> demo_drafted"
proof -
  have ok: "sign_artifact demo_hex ''d'' ''G1'' demo_signature demo_drafted =
      Inr (sign_text demo_hex ''d'' ''G1'' demo_signature demo_drafted)"
    by (simp add: sign_artifact_def demo_signature_def VALID_ROLES_def VALID_VERDICTS_def)
  have "sign_text demo_hex ''d'' ''G1'' demo_signature demo_drafted \<noteq> demo_drafted"
    by code_simp
  with signing_keeps_hash [OF ok] show ?thesis by (simp add: ok)
qed

subsection \<open>Reading line by line\<close>

definition filled :: "string \<Rightarrow> bool" where
  "filled l \<longleftrightarrow> nl \<notin> set l \<and> (\<exists>c \<in> set l. \<not> is_space c)"

lemma dropWhile_filled: "filled l \<Longrightarrow> dropWhile is_space (l @ s) = dropWhile is_space l @ s"
  by (auto simp: filled_def)

lemma prefix_line: "nl \<notin> set p \<Longrightarrow> prefix p (l @ nl # r) \<longleftrightarrow> prefix p l"
proof (induction p arbitrary: l)
  case Nil
  then show ?case by simp
next
  case (Cons c p)
  then show ?case by (cases l) auto
qed

lemma line_of_line: "nl \<notin> set l \<Longrightarrow> line_of (l @ nl # r) = l"
  by (induction l) (auto simp: line_of_def)

lemma strip_dropWhile [simp]: "strip (dropWhile is_space s) = strip s"
  by (simp add: strip_def lstrip_by_def)

lemma nl_dropWhile: "nl \<notin> set l \<Longrightarrow> nl \<notin> set (dropWhile p l)"
  by (auto dest: set_dropWhileD)

lemma value_after_line: "filled v \<Longrightarrow> value_after (v @ nl # r) = strip v"
  by (simp add: value_after_def dropWhile_filled line_of_line nl_dropWhile filled_def)

lemma field_False: "nl \<notin> set l \<Longrightarrow> field_from name False (l @ nl # r) = field_from name True r"
  by (induction l) auto

lemma field_line:
  assumes "filled l" and "nl \<notin> set name"
  shows "field_from name True (l @ nl # r) =
    (if startswith (dropWhile is_space l) (name @ '':'')
     then value_after (drop (length name + 1) (dropWhile is_space l) @ nl # r)
     else field_from name True r)"
proof -
  from assms(1) obtain c cs where l: "l = c # cs" by (cases l) (auto simp: filled_def)
  have nl: "nl \<notin> set cs" using assms(1) by (simp add: l filled_def)
  have p: "prefix (name @ '':'') (dropWhile is_space l @ nl # r) \<longleftrightarrow> prefix (name @ '':'') (dropWhile is_space l)"
    by (rule prefix_line) (simp add: assms(2))
  have len: "drop (length name + 1) (dropWhile is_space l @ nl # r) =
      drop (length name + 1) (dropWhile is_space l) @ nl # r"
    if "prefix (name @ '':'') (dropWhile is_space l)"
    using prefix_length_le [OF that] by simp
  have at: "field_at name (l @ nl # r) =
      (if prefix (name @ '':'') (dropWhile is_space l)
       then Some (value_after (drop (length name + 1) (dropWhile is_space l) @ nl # r)) else None)"
    using len by (simp only: field_at_def Let_def dropWhile_filled [OF assms(1)] p split: if_splits) simp
  have c: "c \<noteq> nl" using assms(1) by (auto simp: l filled_def)
  show ?thesis
    using at c by (simp add: l field_False [OF nl])
qed

lemma split_False:
  "nl \<notin> set l \<Longrightarrow> split_entries False acc (l @ nl # r) = split_entries True (acc @ l @ [nl]) r"
  by (induction l arbitrary: acc) auto

lemma no_entry_start:
  "dropWhile is_space s = c # cs \<Longrightarrow> c \<noteq> CHR ''-'' \<Longrightarrow> entry_start s = None"
  by (simp add: entry_start_def)

lemma split_line:
  assumes "filled l" and "hd (dropWhile is_space l) \<noteq> CHR ''-''"
  shows "split_entries True acc (l @ nl # r) = split_entries True (acc @ l @ [nl]) r"
proof -
  from assms(1) obtain c cs where l: "l = c # cs" by (cases l) (auto simp: filled_def)
  have nl: "nl \<notin> set cs" "c \<noteq> nl" using assms(1) by (auto simp: l filled_def)
  from assms(1) have "dropWhile is_space l \<noteq> []" by (auto simp: filled_def dropWhile_eq_Nil_conv)
  then have "entry_start (l @ nl # r) = None"
    using assms dropWhile_filled [OF assms(1), of "nl # r"]
    by (cases "dropWhile is_space l") (auto intro!: no_entry_start)
  then show ?thesis using nl by (simp add: l split_False)
qed

lemma split_blank:
  assumes "filled l" and "hd (dropWhile is_space l) \<noteq> CHR ''-''"
  shows "split_entries True acc (nl # l @ r) = split_entries True (acc @ [nl]) (l @ r)"
proof -
  from assms(1) have "dropWhile is_space l \<noteq> []" by (auto simp: filled_def dropWhile_eq_Nil_conv)
  then have "entry_start (nl # l @ r) = None"
    using assms dropWhile_filled [OF assms(1), of r]
    by (cases "dropWhile is_space l") (auto intro!: no_entry_start)
  then show ?thesis by simp
qed

lemma split_entry:
  assumes "\<not> is_space c"
  shows "split_entries True acc (''- signer: '' @ c # r) = acc # split_entries False [] (c # r)"
proof -
  have s: "\<not> is_space CHR ''-''" "is_space CHR '' ''" "\<not> is_space CHR ''s''" by (simp_all add: is_space_def)
  have "entry_start (''- signer: '' @ c # r) = Some (False, c # r)"
    using assms s by (simp add: entry_start_def Let_def)
  then show ?thesis by simp
qed

lemma sublist_cons_prefix: "prefix p (c # x) \<or> sublist p x \<Longrightarrow> sublist p (c # x)"
  by (auto simp: sublist_Cons_right)

lemma first_hash_line:
  "nl \<notin> set l \<Longrightarrow> \<not> occurs_in hash_field l \<Longrightarrow> first_hash (l @ nl # r) = first_hash r"
proof (induction l)
  case Nil
  have "\<not> prefix hash_field (nl # r)" by (simp add: hash_field_def)
  then show ?case by (simp add: hash_at_def Let_def)
next
  case (Cons c l)
  have nf: "nl \<notin> set hash_field" by (simp add: hash_field_def)
  have "\<not> prefix hash_field ((c # l) @ nl # r)"
    using Cons.prems sublist_cons_prefix [of hash_field c l] by (simp only: prefix_line [OF nf]) blast
  then have "hash_at (c # l @ nl # r) = None" by (simp add: hash_at_def Let_def)
  moreover have "\<not> occurs_in hash_field l"
    using Cons.prems(2) sublist_cons_prefix [of hash_field c l] by blast
  ultimately show ?case using Cons.IH Cons.prems(1) by simp
qed

lemma find_sub_skip:
  "hd sub \<notin> set u \<Longrightarrow> sub \<noteq> [] \<Longrightarrow> find_sub sub (u @ s) = map_option (\<lambda>(p, r). (u @ p, r)) (find_sub sub s)"
proof (induction u)
  case Nil
  then show ?case by (cases "find_sub sub s") auto
next
  case (Cons c u)
  have "\<not> prefix sub (c # u @ s)" using Cons.prems by (cases sub) auto
  with Cons show ?case by (cases "find_sub sub s") auto
qed

subsection \<open>A first signature\<close>

text \<open>Text that can stand in a field: one line, no colon or back quote, no blank at the ends.\<close>

definition field_text :: "string \<Rightarrow> bool" where
  "field_text s \<longleftrightarrow>
     s \<noteq> [] \<and> (\<forall>c \<in> set s. \<not> line_break c \<and> c \<noteq> CHR '':'' \<and> c \<noteq> CHR 0x60) \<and>
     \<not> is_space (hd s) \<and> \<not> is_space (last s)"

lemma newline_break: "line_break nl"
  by (simp add: line_break_def)

lemma field_text_facts:
  assumes "field_text s"
  shows "filled s" and "filled (CHR '' '' # s)" and "strip s = s" and "strip (CHR '' '' # s) = s"
    and "nl \<notin> set s" and "CHR '':'' \<notin> set s" and "CHR 0x60 \<notin> set s"
proof -
  have ne: "s \<noteq> []" using assms by (simp add: field_text_def)
  then have hd: "hd s \<in> set s" by (rule hd_in_set)
  show "nl \<notin> set s" "CHR '':'' \<notin> set s" "CHR 0x60 \<notin> set s"
    using assms newline_break unfolding field_text_def by blast+
  moreover have "\<not> is_space (hd s)" using assms by (simp add: field_text_def)
  ultimately show "filled s" "filled (CHR '' '' # s)"
    unfolding filled_def using hd by auto
  show s: "strip s = s" using assms by (intro strip_id) (auto simp: field_text_def)
  have d: "dropWhile is_space (CHR '' '' # s) = dropWhile is_space s" by (simp add: is_space_def)
  have "strip (CHR '' '' # s) = strip (dropWhile is_space (CHR '' '' # s))" by (rule strip_dropWhile [symmetric])
  also have "\<dots> = strip s" by (simp only: d strip_dropWhile)
  finally show "strip (CHR '' '' # s) = s" using s by simp
qed

definition fline :: "string \<Rightarrow> string \<Rightarrow> string" where
  "fline k v = CHR '' '' # CHR '' '' # k @ CHR '':'' # CHR '' '' # v"

definition field_key :: "string \<Rightarrow> bool" where
  "field_key k \<longleftrightarrow> k \<noteq> [] \<and> list_all (\<lambda>c. is_word_char c) k"

lemma word_char_facts: "is_word_char c \<Longrightarrow> \<not> is_space c \<and> c \<noteq> CHR '':'' \<and> c \<noteq> CHR ''-'' \<and> c \<noteq> nl"
  by (auto simp: is_word_char_def is_digit_def is_upper_def is_lower_def is_space_def Let_def)

lemma field_key_facts:
  assumes "field_key k"
  shows "nl \<notin> set k" and "CHR '':'' \<notin> set k" and "k \<noteq> []" and "\<not> is_space (hd k)" and "hd k \<noteq> CHR ''-''"
  using assms word_char_facts by (cases k; fastforce simp: field_key_def list_all_iff)+

lemma prefix_upto:
  "c \<notin> set p \<Longrightarrow> c \<notin> set k \<Longrightarrow> prefix (p @ [c]) (k @ c # r) \<longleftrightarrow> p = k"
proof (induction p arbitrary: k)
  case Nil
  then show ?case by (cases k) auto
next
  case (Cons d p)
  then show ?case by (cases k) auto
qed

lemma fline_facts:
  assumes "field_key k" and "nl \<notin> set v"
  shows "filled (fline k v)"
    and "dropWhile is_space (fline k v) = k @ CHR '':'' # CHR '' '' # v"
    and "hd (dropWhile is_space (fline k v)) \<noteq> CHR ''-''"
proof -
  note k = field_key_facts [OF assms(1)]
  show d: "dropWhile is_space (fline k v) = k @ CHR '':'' # CHR '' '' # v"
    using k by (cases k) (simp_all add: fline_def is_space_def)
  show "hd (dropWhile is_space (fline k v)) \<noteq> CHR ''-''"
    using k unfolding d by simp
  show "filled (fline k v)"
    using k assms(2) hd_in_set [OF k(3)] by (auto simp: filled_def fline_def)
qed

lemma field_fline:
  assumes "field_key k" and "field_key name" and "nl \<notin> set v"
  shows "field_from name True (fline k v @ nl # r) =
    (if name = k then value_after (CHR '' '' # v @ nl # r) else field_from name True r)"
proof -
  note f = fline_facts [OF assms(1,3)] and n = field_key_facts [OF assms(2)]
  show ?thesis
    unfolding field_line [OF f(1) n(1)] f(2)
    using prefix_upto [OF n(2) field_key_facts(2) [OF assms(1)]] by simp
qed

lemma split_fline:
  "field_key k \<Longrightarrow> nl \<notin> set v \<Longrightarrow>
   split_entries True acc (fline k v @ nl # r) = split_entries True (acc @ fline k v @ [nl]) r"
  by (rule split_line) (rule fline_facts(1), assumption+, rule fline_facts(3), assumption+)

lemma field_skip:
  assumes "field_text s" and "field_key name"
  shows "field_from name True (s @ nl # r) = field_from name True r"
proof -
  note s = field_text_facts [OF assms(1)] and n = field_key_facts [OF assms(2)]
  have "\<not> startswith (dropWhile is_space s) (name @ '':'')"
  proof
    assume "startswith (dropWhile is_space s) (name @ '':'')"
    then have "CHR '':'' \<in> set (dropWhile is_space s)" by (auto simp: prefix_def)
    then show False using s(6) by (auto dest: set_dropWhileD)
  qed
  then show ?thesis using field_line [OF s(1) n(1)] by simp
qed

lemma keys [simp]:
  "field_key ''role''" "field_key ''date''" "field_key ''gate''" "field_key ''artifact_hash''"
  "field_key ''verdict''" "field_key ''status''"
  by code_simp+

definition entry_body :: "string \<Rightarrow> string \<Rightarrow> string \<Rightarrow> signature \<Rightarrow> string" where
  "entry_body today hash gate g =
     by_signer g @ nl # fline ''role'' (by_role g) @ nl # fline ''date'' today @ nl #
     fline ''gate'' (gate_label gate) @ nl # fline ''artifact_hash'' hash @ nl #
     fline ''verdict'' (by_verdict g) @ [nl]"

lemma new_entry_body:
  "by_conditions g = [] \<Longrightarrow> by_oidc_sub g = [] \<Longrightarrow>
   new_entry today hash gate g = ''- signer: '' @ entry_body today hash gate g"
  by (simp add: new_entry_def entry_body_def fline_def conditions_line_def oidc_lines_def)

lemma last_fence: "field_key name \<Longrightarrow> field_from name True (fence @ [nl]) = []"
proof -
  assume n: "field_key name"
  have f: "filled fence" by (simp add: filled_def fence_def is_space_def)
  have "\<not> startswith (dropWhile is_space fence) (name @ '':'')"
  proof
    assume "startswith (dropWhile is_space fence) (name @ '':'')"
    then have "CHR '':'' \<in> set (dropWhile is_space fence)" by (auto simp: prefix_def)
    from set_dropWhileD [OF this] show False by (simp add: fence_def)
  qed
  then show ?thesis using field_line [OF f field_key_facts(1) [OF n], of "[]"] by simp
qed

lemma first_field: "field_text v \<Longrightarrow> value_after (CHR '' '' # v @ nl # r) = v"
  using value_after_line [of "CHR '' '' # v" r] field_text_facts [of v] by simp

lemmas body_reading = field_skip field_fline first_field last_fence

lemma body_fields:
  assumes "field_text (by_signer g)" and "field_text (by_role g)" and "field_text today"
    and "field_text (gate_label gate)" and "field_text hash" and "field_text (by_verdict g)"
  shows "field_of ''role'' (entry_body today hash gate g @ fence @ [nl]) = by_role g"
    and "field_of ''verdict'' (entry_body today hash gate g @ fence @ [nl]) = by_verdict g"
    and "field_of ''artifact_hash'' (entry_body today hash gate g @ fence @ [nl]) = hash"
    and "field_of ''status'' (entry_body today hash gate g @ fence @ [nl]) = []"
  using assms by (simp_all add: entry_body_def body_reading field_text_facts(5))

lemma body_chunk:
  assumes "field_text (by_signer g)" and "field_text (by_role g)" and "field_text today"
    and "field_text (gate_label gate)" and "field_text hash" and "field_text (by_verdict g)"
  shows "split_entries True [] (heading @ nl # nl # yaml_fence @ nl # ''- signer: '' @
           entry_body today hash gate g @ fence @ [nl]) =
         [heading @ nl # nl # yaml_fence @ [nl], entry_body today hash gate g @ fence @ [nl]]"
proof -
  have h: "filled heading" "hd (dropWhile is_space heading) \<noteq> CHR ''-''"
    and y: "filled yaml_fence" "hd (dropWhile is_space yaml_fence) \<noteq> CHR ''-''"
    and f: "filled fence" "hd (dropWhile is_space fence) \<noteq> CHR ''-''"
    by (simp_all add: filled_def heading_def yaml_fence_def fence_def is_space_def)
  obtain c cs where c: "by_signer g = c # cs" "\<not> is_space c"
    using assms(1) by (cases "by_signer g") (auto simp: field_text_def)
  let ?b = "entry_body today hash gate g"
  have "split_entries True [] (heading @ nl # nl # yaml_fence @ nl # ''- signer: '' @ ?b @ fence @ [nl]) =
      split_entries True (heading @ nl # nl # yaml_fence @ [nl]) (''- signer: '' @ ?b @ fence @ [nl])"
    by (simp only: split_line [OF h] split_blank [OF y] split_line [OF y] append_Nil append_assoc
        append_Cons)
  also have "\<dots> = (heading @ nl # nl # yaml_fence @ [nl]) # split_entries False [] (?b @ fence @ [nl])"
    using split_entry [OF c(2)] by (simp only: entry_body_def c(1) append_Cons append_assoc)
  also have "split_entries False [] (?b @ fence @ [nl]) = split_entries True (?b @ fence @ [nl]) []"
    using assms by (simp add: entry_body_def split_False split_fline field_text_facts(5)
        split_line [OF f])
  finally show ?thesis by simp
qed

lemma roles_text: "r \<in> set VALID_ROLES \<Longrightarrow> field_text r"
  by (auto simp: VALID_ROLES_def field_text_def line_break_def is_space_def)

lemma verdicts_text: "v \<in> set VALID_VERDICTS \<Longrightarrow> field_text v \<and> upper v = v \<and> v \<noteq> ''DRAFT''"
proof -
  have "list_all (\<lambda>v. field_text v \<and> upper v = v \<and> v \<noteq> ''DRAFT'') VALID_VERDICTS" by code_simp
  then show "v \<in> set VALID_VERDICTS \<Longrightarrow> field_text v \<and> upper v = v \<and> v \<noteq> ''DRAFT''"
    by (simp add: list_all_iff)
qed

lemma first_line:
  assumes "field_text s"
  shows "strip (hd (splitlines [] (s @ nl # r))) = s" and "strip (s @ nl # r) \<noteq> []"
proof -
  have "splitlines acc (u @ nl # r) = (acc @ u) # splitlines [] r" if "\<forall>c \<in> set u. \<not> line_break c" for acc u
    using that newline_break by (induction u arbitrary: acc) simp_all
  then show "strip (hd (splitlines [] (s @ nl # r))) = s"
    using assms field_text_facts(3) [OF assms] by (simp add: field_text_def)
  obtain c cs where s: "s = c # cs" "\<not> is_space c" using assms by (cases s) (auto simp: field_text_def)
  show "strip (s @ nl # r) \<noteq> []"
    using strip_hd [OF s(2), of "cs @ nl # r"] by (auto simp: s(1))
qed

text \<open>C35: The first signature of an artifact reads back: signing a text without a signature block gives
  a text whose entries are exactly the one signed, with the signer, role and verdict given and the
  hash of the text, and a draft only when the signer's name says so. The fields are one line each,
  without colons, back quotes or blanks at their ends; there are no conditions and no OIDC evidence.\<close>

theorem sign_parse_roundtrip:
  assumes "sign_artifact sha today gate g text = Inr text'" and "sig_block text = []"
    and "field_text (by_signer g)" and "field_text today" and "field_text (gate_label gate)"
    and "field_text (compute_hash sha text)" and "by_conditions g = []" and "by_oidc_sub g = []"
  shows "parse_signatures text' =
    [\<lparr>sig_signer = by_signer g, sig_role = by_role g, sig_verdict = by_verdict g,
      sig_hash = compute_hash sha text', sig_draft = draft_name (by_signer g)\<rparr>]"
proof -
  from assms(1) have r: "by_role g \<in> set VALID_ROLES" and v: "by_verdict g \<in> set VALID_VERDICTS"
      and t: "text' = sign_text sha today gate g text"
    by (auto simp: sign_artifact_def split: if_splits)
  let ?h = "compute_hash sha text" and ?b = "entry_body today (compute_hash sha text) gate g"
  note f = assms(3) roles_text [OF r] assms(4,5,6) conjunct1 [OF verdicts_text [OF v]]
  have "sig_block text' = heading @ nl # nl # yaml_fence @ nl # ''- signer: '' @ ?b @ fence @ [nl]"
    using fresh_split [OF assms(2), of sha today gate g] assms(7,8)
    by (simp add: t sig_block_def full_block_def new_entry_body)
  moreover have "compute_hash sha text' = ?h"
    using sign_above [of sha today gate g "text"] by (simp add: t compute_hash_def)
  moreover have "strip (hd (splitlines [] (?b @ fence @ [nl]))) = by_signer g"
    "strip (?b @ fence @ [nl]) \<noteq> []"
    using first_line [OF assms(3)] by (simp_all add: entry_body_def)
  ultimately show ?thesis
    using body_chunk [OF f] body_fields [OF f] verdicts_text [OF v]
    by (simp add: parse_signatures_def parse_entry_def Let_def upper_def)
qed

theorem sign_parse_roundtrip_witness:
  "case sign_artifact demo_hex ''d'' ''G1'' demo_signature demo_artifact of
     Inl _ \<Rightarrow> False
   | Inr t \<Rightarrow> parse_signatures t =
       [\<lparr>sig_signer = ''Ada'', sig_role = ''PO'', sig_verdict = ''APPROVED'',
         sig_hash = compute_hash demo_hex t, sig_draft = False\<rparr>]"
proof -
  have ok: "sign_artifact demo_hex ''d'' ''G1'' demo_signature demo_artifact =
      Inr (sign_text demo_hex ''d'' ''G1'' demo_signature demo_artifact)"
    by (simp add: sign_artifact_def demo_signature_def VALID_ROLES_def VALID_VERDICTS_def)
  have "sig_block demo_artifact = []" "field_text (by_signer demo_signature)" "field_text ''d''"
    "field_text (gate_label ''G1'')" "field_text (compute_hash demo_hex demo_artifact)"
    "by_conditions demo_signature = []" "by_oidc_sub demo_signature = []"
    by code_simp+
  note r = sign_parse_roundtrip [OF ok this]
  have "draft_name ''Ada'' = False" by code_simp
  then show ?thesis by (simp add: ok r) (simp add: demo_signature_def)
qed

subsection \<open>Signing again after an edit\<close>

lemma keep_line:
  "(\<forall>c \<in> set l. \<not> line_break c) \<Longrightarrow> keep_lines acc (l @ nl # r) = (acc @ l @ [nl]) # keep_lines [] r"
proof (induction l arbitrary: acc)
  case Nil
  then show ?case by (cases r) (simp_all add: newline_break)
next
  case (Cons c l)
  then have "c \<noteq> CHR 0x0D" by (auto simp: line_break_def)
  with Cons show ?case by (cases "l @ nl # r") auto
qed

lemma strip_line: "strip (l @ [nl]) = strip l"
proof (cases "\<exists>c \<in> set l. \<not> is_space c")
  case True
  then have "dropWhile is_space (l @ [nl]) = dropWhile is_space l @ [nl]" by auto
  then show ?thesis by (simp add: strip_def lstrip_by_def rstrip_by_snoc)
next
  case False
  then have "dropWhile is_space l = []" "dropWhile is_space (l @ [nl]) = []"
    by (auto simp: dropWhile_eq_Nil_conv)
  then show ?thesis unfolding strip_def lstrip_by_def by (simp only: rstrip_by_nil)
qed

lemma other_line: "strip l = [] \<or> hd (strip l) \<noteq> CHR ''-'' \<Longrightarrow> signer_item (strip l) = None"
  by (auto simp: signer_item_def)

lemma kept_line:
  assumes "\<forall>c \<in> set l. \<not> line_break c" and "draft_item (strip l) = False"
  shows "drop_drafts False (keep_lines [] (l @ nl # r)) = (l @ [nl]) # drop_drafts False (keep_lines [] r)"
  using assms by (simp add: keep_line strip_line Let_def)

lemma hd_strip: "dropWhile is_space l = c # cs \<Longrightarrow> \<exists>r. strip l = c # r"
  using strip_hd [of c cs] strip_dropWhile [of l] by (metis dropWhile_eq_Cons_conv)

lemma not_draft_item: "dropWhile is_space l = c # cs \<Longrightarrow> c \<noteq> CHR ''-'' \<Longrightarrow> draft_item (strip l) = False"
  using hd_strip [of l c cs] by (auto simp: draft_item_def signer_item_def)

lemma draft_item_signer:
  assumes "field_text s" and "\<not> draft_name s"
  shows "draft_item (strip (''- signer: '' @ s)) = False"
proof -
  have s: "s \<noteq> []" "\<not> is_space (hd s)" "\<not> is_space (last s)" using assms(1) by (simp_all add: field_text_def)
  have "strip (''- signer: '' @ s) = ''- signer: '' @ s"
    by (rule strip_id) (use s in \<open>simp add: is_space_def\<close>)
  moreover have "dropWhile is_space s = s" using s by (cases s) simp_all
  ultimately show ?thesis
    using assms(2) by (simp add: draft_item_def signer_item_def Let_def is_space_def)
qed

lemma field_line_breaks: "field_text s \<Longrightarrow> \<forall>c \<in> set s. \<not> line_break c"
  by (simp add: field_text_def)

lemma fline_kept:
  assumes "field_key k" and "field_text v"
  shows "drop_drafts False (keep_lines [] (fline k v @ nl # r)) = (fline k v @ [nl]) # drop_drafts False (keep_lines [] r)"
proof (rule kept_line)
  have "\<not> line_break c" if "is_word_char c" for c
    using that by (auto simp: is_word_char_def is_digit_def is_upper_def is_lower_def line_break_def Let_def)
  moreover have "\<not> line_break CHR '' ''" "\<not> line_break CHR '':''" by (simp_all add: line_break_def)
  ultimately show "\<forall>c \<in> set (fline k v). \<not> line_break c"
    using assms field_line_breaks [OF assms(2)] by (auto simp: fline_def field_key_def list_all_iff)
  obtain c cs where "k = c # cs" "c \<noteq> CHR ''-''"
    using field_key_facts [OF assms(1)] by (cases k) auto
  then show "draft_item (strip (fline k v)) = False"
    using fline_facts(2) [OF assms(1) field_text_facts(5) [OF assms(2)]]
    by (intro not_draft_item [of _ c]) simp_all
qed

lemma last_kept:
  assumes "\<forall>c \<in> set l. \<not> line_break c" and "draft_item (strip l) = False"
  shows "drop_drafts False (keep_lines [] (l @ [nl])) = [l @ [nl]]"
  using kept_line [OF assms, of "[]"] by simp

text \<open>The item line of an entry and its fields.\<close>

definition item_line :: "string \<Rightarrow> string" where
  "item_line s = ''- signer: '' @ s"

definition entry_fields :: "string \<Rightarrow> string \<Rightarrow> string \<Rightarrow> signature \<Rightarrow> string" where
  "entry_fields today hash gate g =
     fline ''role'' (by_role g) @ nl # fline ''date'' today @ nl #
     fline ''gate'' (gate_label gate) @ nl # fline ''artifact_hash'' hash @ nl #
     fline ''verdict'' (by_verdict g) @ [nl]"

lemma item_fields: "''- signer: '' @ entry_body today hash gate g = item_line (by_signer g) @ nl # entry_fields today hash gate g"
  by (simp add: entry_body_def entry_fields_def item_line_def)

definition first_block :: "string \<Rightarrow> string \<Rightarrow> string \<Rightarrow> signature \<Rightarrow> string" where
  "first_block today hash gate g =
     heading @ nl # nl # yaml_fence @ nl # item_line (by_signer g) @ nl # entry_fields today hash gate g @
     fence @ [nl]"

lemma first_block_kept:
  assumes "field_text (by_signer g)" and "field_text (by_role g)" and "field_text today"
    and "field_text (gate_label gate)" and "field_text hash" and "field_text (by_verdict g)"
    and "\<not> draft_name (by_signer g)"
  shows "concat (drop_drafts False (keep_lines [] (first_block today hash gate g))) = first_block today hash gate g"
proof -
  have h: "\<forall>c \<in> set heading. \<not> line_break c" "draft_item (strip heading) = False"
    and e: "\<forall>c \<in> set ([] :: string). \<not> line_break c" "draft_item (strip []) = False"
    and y: "\<forall>c \<in> set yaml_fence. \<not> line_break c" "draft_item (strip yaml_fence) = False"
    and f: "\<forall>c \<in> set fence. \<not> line_break c" "draft_item (strip fence) = False"
    by code_simp+
  have s: "\<forall>c \<in> set (item_line (by_signer g)). \<not> line_break c"
    using field_line_breaks [OF assms(1)] by (simp add: item_line_def) (simp add: line_break_def)
  have i: "draft_item (strip (item_line (by_signer g))) = False"
    unfolding item_line_def by (rule draft_item_signer [OF assms(1,7)])
  note lines = kept_line [OF h] kept_line [OF e, unfolded append_Nil] kept_line [OF y]
    kept_line [OF s i] fline_kept last_kept [OF f]
  show ?thesis
    unfolding first_block_def entry_fields_def append_assoc append_Cons append_Nil
    by (simp only: lines keys assms append_assoc append_Cons append_Nil) simp
qed

lemma insert_first_block:
  assumes "field_text (by_signer g)" and "field_text (by_role g)" and "field_text today"
    and "field_text (gate_label gate)" and "field_text hash" and "field_text (by_verdict g)"
  shows "insert_entry (first_block today hash gate g) entry =
    Some (heading @ nl # nl # yaml_fence @ nl # item_line (by_signer g) @ nl # entry_fields today hash gate g @
      entry @ fence @ [nl])"
proof -
  let ?b = "item_line (by_signer g) @ nl # entry_fields today hash gate g"
  have t: "CHR 0x60 \<notin> set (heading @ [nl, nl])" "CHR 0x60 \<notin> set (nl # ?b)"
    using assms by (simp_all add: heading_def item_line_def entry_fields_def fline_def field_text_facts(7))
  have y: "find_sub yaml_fence (yaml_fence @ r) = Some ([], yaml_fence @ r)"
    and f: "find_sub fence (fence @ r) = Some ([], fence @ r)" for r
    by (simp_all add: yaml_fence_def fence_def)
  have q: "hd yaml_fence = CHR 0x60" "yaml_fence \<noteq> []" "hd fence = CHR 0x60" "fence \<noteq> []"
    by (simp_all add: yaml_fence_def fence_def)
  have "find_sub yaml_fence ((heading @ [nl, nl]) @ yaml_fence @ nl # ?b @ fence @ [nl]) =
      Some (heading @ [nl, nl], yaml_fence @ nl # ?b @ fence @ [nl])"
    using find_sub_skip [of yaml_fence "heading @ [nl, nl]" "yaml_fence @ nl # ?b @ fence @ [nl]"] t(1)
    by (simp only: q y) simp
  then have "find_sub yaml_fence (first_block today hash gate g) =
      Some (heading @ [nl, nl], yaml_fence @ nl # ?b @ fence @ [nl])"
    by (simp add: first_block_def)
  moreover have "find_sub fence ((nl # ?b) @ fence @ [nl]) = Some (nl # ?b, fence @ [nl])"
    using find_sub_skip [of fence "nl # ?b" "fence @ [nl]"] t(2)
    by (simp only: q f) simp
  then have "find_sub fence (drop 7 (yaml_fence @ nl # ?b @ fence @ [nl])) = Some (nl # ?b, fence @ [nl])"
    by (simp add: yaml_fence_def)
  moreover have "take 7 (yaml_fence @ r) = yaml_fence" for r by (simp add: yaml_fence_def)
  ultimately show ?thesis by (simp add: insert_entry_def)
qed

lemma first_hash_of_entry:
  assumes "field_text (by_signer g)" and "field_text (by_role g)" and "field_text today"
    and "field_text (gate_label gate)" and "length hash = 64" and "list_all hex_char hash"
  shows "first_hash (heading @ nl # nl # yaml_fence @ nl # item_line (by_signer g) @ nl #
           entry_fields today hash gate g @ r) = Some hash"
proof -
  have no: "\<not> occurs_in hash_field v" if "CHR '':'' \<notin> set v" for v
    using that by (auto simp: sublist_def hash_field_def)
  have h: "nl \<notin> set heading" "\<not> occurs_in hash_field heading"
    and e: "nl \<notin> set ([] :: string)" "\<not> occurs_in hash_field []"
    and y: "nl \<notin> set yaml_fence" "\<not> occurs_in hash_field yaml_fence"
    by (simp_all add: heading_def yaml_fence_def hash_field_def sublist_Cons_right)
  have s: "nl \<notin> set (item_line (by_signer g))" "\<not> occurs_in hash_field (item_line (by_signer g))"
    using no [OF field_text_facts(6) [OF assms(1)]] field_text_facts(5) [OF assms(1)]
    by (simp_all add: item_line_def sublist_Cons_right hash_field_def)
  have f: "nl \<notin> set (fline k v)" "\<not> occurs_in hash_field (fline k v)"
    if "field_text v" "k = ''role'' \<or> k = ''date'' \<or> k = ''gate''" for k v
    using no [OF field_text_facts(6) [OF that(1)]] field_text_facts(5) [OF that(1)] that(2)
    by (auto simp: fline_def sublist_Cons_right hash_field_def)
  have "hash \<noteq> []" using assms(5) by auto
  then have "\<not> is_space (hd hash)"
    using assms(6) by (cases hash) (auto simp: hex_char_def is_digit_def is_space_def Let_def)
  then have d: "dropWhile is_space (hash @ x) = hash @ x" for x
    using \<open>hash \<noteq> []\<close> by (cases hash) simp_all
  have hit: "first_hash (fline ''artifact_hash'' hash @ x) = Some hash" for x
    using assms(5,6) d by (simp add: fline_def hash_at_def hash_field_def Let_def is_space_def)
  have fl: "first_hash (fline k v @ nl # x) = first_hash x"
    if "field_text v" "k = ''role'' \<or> k = ''date'' \<or> k = ''gate''" for k v x
    using that by (intro first_hash_line f)
  note lines = first_hash_line [OF h] first_hash_line [OF e, unfolded append_Nil] first_hash_line [OF y]
    first_hash_line [OF s] fl [OF assms(2), of "''role''"] fl [OF assms(3), of "''date''"]
    fl [OF assms(4), of "''gate''"]
  show ?thesis
    unfolding entry_fields_def append_assoc append_Cons append_Nil
    by (simp only: lines simp_thms hit)
qed

lemma new_entry_item:
  "by_conditions g = [] \<Longrightarrow> by_oidc_sub g = [] \<Longrightarrow>
   new_entry today hash gate g = item_line (by_signer g) @ nl # entry_fields today hash gate g"
  by (simp only: new_entry_body item_fields)

lemma hex_text:
  assumes "length h = 64" and "list_all hex_char h"
  shows "field_text h"
proof -
  have "\<not> line_break c \<and> c \<noteq> CHR '':'' \<and> c \<noteq> CHR 0x60 \<and> \<not> is_space c" if "hex_char c" for c
    using that by (auto simp: hex_char_def is_digit_def line_break_def is_space_def Let_def)
  moreover have "h \<noteq> []" using assms(1) by auto
  moreover from this have "hd h \<in> set h" "last h \<in> set h" by simp_all
  ultimately show ?thesis using assms(2) unfolding field_text_def list_all_iff by blast
qed

text \<open>An artifact that was signed, then edited above its signature block and signed again, whoever
  signs, never gets a valid hash: the reader compares the content with the first hash of the
  block, the one of the old signature, so the gate stays unsigned until that entry is removed by
  hand.\<close>

theorem resigned_edit_invalid:
  assumes "sign_artifact sha today gate g text = Inr signed" and "sig_block text = []"
    and "field_text (by_signer g)" and "\<not> draft_name (by_signer g)" and "field_text today"
    and "field_text (gate_label gate)" and "by_conditions g = []" and "by_oidc_sub g = []"
    and "\<And>x. length (sha x) = 64 \<and> list_all hex_char (sha x)"
    and "sig_block edited = sig_block signed" and "compute_hash sha edited \<noteq> compute_hash sha signed"
    and "sign_artifact sha today' gate g' edited = Inr again"
  shows "hash_valid (parse_signers sha again) = Some False"
proof -
  from assms(1,12) have r: "by_role g \<in> set VALID_ROLES" and v: "by_verdict g \<in> set VALID_VERDICTS"
      and t: "signed = sign_text sha today gate g text" and a: "again = sign_text sha today' gate g' edited"
    by (auto simp: sign_artifact_def split: if_splits)
  let ?h = "compute_hash sha text" and ?e = "new_entry today' (compute_hash sha edited) gate g'"
  have hx: "length ?h = 64" "list_all hex_char ?h" using assms(9) by (simp_all add: compute_hash_def)
  note f = assms(3) roles_text [OF r] assms(5,6) hex_text [OF hx] conjunct1 [OF verdicts_text [OF v]]
  have b: "sig_block edited = first_block today ?h gate g"
    using fresh_split [OF assms(2), of sha today gate g] assms(7,8,10)
    by (simp add: t sig_block_def full_block_def new_entry_item first_block_def)
  then have ne: "sig_block edited \<noteq> []" by (simp add: first_block_def)
  have eq: "strip_draft_signature_entries edited = edited"
    using first_block_kept [OF f assms(4)] above_block [of edited]
    by (simp add: strip_draft_signature_entries_def b)
  let ?b = "heading @ nl # nl # yaml_fence @ nl # item_line (by_signer g) @ nl # entry_fields today ?h gate g @ ?e @ fence @ [nl]"
  have again: "again = above edited @ ?b"
    using insert_first_block [OF f, of ?e] by (simp add: a sign_text_def eq b Let_def)
  have ab: "above again = above edited" unfolding again by (rule split_swap [OF ne]) simp
  then have bb: "sig_block again = ?b" using above_block [of again] again by simp
  have "first_hash ?b = Some ?h"
    using first_hash_of_entry [OF f(1-4) hx, of "?e @ fence @ [nl]"] by simp
  moreover have "compute_hash sha again = compute_hash sha edited"
    by (simp add: compute_hash_def ab)
  moreover have "?h = compute_hash sha signed"
    using sign_above [of sha today gate g "text"] by (simp add: t compute_hash_def)
  ultimately show ?thesis using assms(11) bb by (simp add: parse_signers_def Let_def)
qed

theorem resigned_edit_invalid_witness:
  "\<exists>signed again.
    sign_artifact demo_hex ''d'' ''G1'' demo_signature demo_artifact = Inr signed \<and>
    sign_artifact demo_hex ''d'' ''G1'' demo_signature (''# E'' @ nl # signed) = Inr again \<and>
    hash_valid (parse_signers demo_hex again) = Some False"
proof -
  let ?s = "sign_text demo_hex ''d'' ''G1'' demo_signature demo_artifact"
  let ?e = "''# E'' @ nl # ?s"
  have ok: "sign_artifact demo_hex ''d'' ''G1'' demo_signature t =
      Inr (sign_text demo_hex ''d'' ''G1'' demo_signature t)" for t
    by (simp add: sign_artifact_def demo_signature_def VALID_ROLES_def VALID_VERDICTS_def)
  have a: "sig_block demo_artifact = []" "field_text (by_signer demo_signature)"
    "\<not> draft_name (by_signer demo_signature)" "field_text ''d''"
    "field_text (gate_label ''G1'')" "by_conditions demo_signature = []" "by_oidc_sub demo_signature = []"
    by code_simp+
  have h: "length (demo_hex x) = 64 \<and> list_all hex_char (demo_hex x)" for x
    by (simp add: demo_hex_def list_all_iff) code_simp
  have "sig_block ?e = sig_block ?s" "compute_hash demo_hex ?e \<noteq> compute_hash demo_hex ?s"
    by code_simp+
  from resigned_edit_invalid [OF ok a h this ok] show ?thesis by (auto simp: ok)
qed

end
