(* ===== verification/Signing.thy ===== *)
theory Signing
  imports AuditChain ArtifactText
begin

section \<open>Gate signatures (\<open>sign.py\<close>, \<open>commands/validate_gate.py\<close>, \<open>artifacts.py\<close>)\<close>

text \<open>
  Whether a gate counts as signed, and the operations that change it: signing, revoking and
  clearing a revocation. A workspace holds the artifact files of one project by their path in the
  manifest, the audit trail, the revocation ledger and the state of the Gate 0 journal. The
  time, the date, \<open>sha\<close> and \<open>loads\<close> are arguments, and so are the functions of modules that are
  not modelled: the search for template markers in Gate 0 artifacts, the release proof of Gate 5
  and the outcome proof of Gates 4 and 5. Checks that a path stays in the workspace, the
  release after a Gate 5 signature and the payload written as evidence are left out.
\<close>

subsection \<open>The manifest\<close>

record manifest_entry =
  rel_path :: string
  required_roles :: "string list"

definition artifact :: "string \<Rightarrow> string list \<Rightarrow> manifest_entry" where
  "artifact p rs = \<lparr>rel_path = p, required_roles = rs\<rparr>"

definition GATE_ARTIFACTS :: "(string \<times> manifest_entry list) list" where
  "GATE_ARTIFACTS =
     [(''G0'',
        [artifact ''core/governance/Governance/SOUL-DOCUMENT.md'' [''PO'', ''PE''],
         artifact ''core/governance/Governance/CONSTITUTION.md'' [''PO'', ''PE''],
         artifact ''core/governance/Governance/SURFACE_INVENTORY.md'' [''PE''],
         artifact ''core/governance/Governance/PERMANENTLY_T3.md'' [''PE'']]),
      (''G1'',
        [artifact ''core/strategy/BELIEF.md'' [''PO''],
         artifact ''core/execution/ROLE_ACTIVATION_CARD.md'' [''PO'']]),
      (''G2'', [artifact ''core/strategy/EXPECTATION_MAP.md'' [''PO'']]),
      (''G3'',
        [artifact ''core/strategy/DESIGN_NOTE.md'' [''PO''],
         artifact ''core/execution/PLAN.md'' [''PE''],
         artifact ''core/execution/ACCEPTANCE_CRITERIA.md'' [''PE'']]),
      (''G4'',
        [artifact ''core/execution/TRUST_TIER.md'' [''PE'', ''PO''],
         artifact ''core/execution/BUILD_EVIDENCE.md'' [''PE'']]),
      (''G5'', [artifact ''core/governance/QUALITY_CHECK.md'' [''QA'']])]"

definition list_gates :: "string list" where
  "list_gates = map fst GATE_ARTIFACTS"

definition expected_gate_artifacts :: "string \<Rightarrow> manifest_entry list" where
  "expected_gate_artifacts gate =
     (case dict_get GATE_ARTIFACTS (upper gate) of None \<Rightarrow> [] | Some es \<Rightarrow> es)"

datatype journal = NoJournal | BadJournal | Prepared | Committed

record gate_ws =
  art_files :: "string \<Rightarrow> string option"
  trail :: "string option"
  ledger :: "json_file option"
  g0_journal :: journal

subsection \<open>Revocations\<close>

definition gate_id :: "string \<Rightarrow> string" where
  "gate_id gate = upper (strip gate)"

definition invalid_key :: string where
  "invalid_key = ''__invalid__''"

definition invalid_ledger :: audit_row where
  "invalid_ledger = [(invalid_key, PDict [])]"

definition load_revocations :: "gate_ws \<Rightarrow> audit_row" where
  "load_revocations ws =
     (case ledger ws of
        None \<Rightarrow> []
      | Some (Json (PDict d)) \<Rightarrow> d
      | Some _ \<Rightarrow> invalid_ledger)"

definition has_key :: "audit_row \<Rightarrow> string \<Rightarrow> bool" where
  "has_key d k \<longleftrightarrow> dict_get d k \<noteq> None"

definition is_gate_revoked :: "gate_ws \<Rightarrow> string \<Rightarrow> bool" where
  "is_gate_revoked ws gate \<longleftrightarrow>
     (let d = load_revocations ws in has_key d invalid_key \<or> has_key d (gate_id gate))"

text \<open>The loop of \<open>revoke_gates\<close> over its targets.\<close>

fun revoke_loop :: "py \<Rightarrow> string list \<Rightarrow> string list \<Rightarrow> audit_row \<Rightarrow> sign_error + (string list \<times> audit_row)" where
  "revoke_loop mark ids [] d = Inr (ids, d)"
| "revoke_loop mark ids (raw # gs) d =
     (let g = gate_id raw in
      if g \<notin> set list_gates then Inl UnknownTarget
      else if g \<in> set ids then revoke_loop mark ids gs d
      else revoke_loop mark (ids @ [g]) gs (dict_set d g mark))"

definition revocation_event :: "string list \<Rightarrow> string \<Rightarrow> string \<Rightarrow> string \<Rightarrow> audit_row" where
  "revocation_event ids actor reason pid =
     [(''action'', PStr ''gate.revoke''), (''kind'', PStr ''revocation''),
      (''gate'', if length ids = 1 then PStr (hd ids) else PNone),
      (''gates'', PList (map PStr ids)), (''actor'', PStr actor), (''reason'', PStr reason),
      (''project_id'', PStr pid)]"

text \<open>The audit row is written first; the workspace between the two writes is the first component.\<close>

definition revoke_gates ::
  "(string \<Rightarrow> string) \<Rightarrow> (string \<Rightarrow> py option) \<Rightarrow> string \<Rightarrow> string \<Rightarrow> string \<Rightarrow> string \<Rightarrow> string list
     \<Rightarrow> gate_ws \<Rightarrow> sign_error + (gate_ws \<times> gate_ws)" where
  "revoke_gates sha loads now pid actor reason gates ws =
     (let d = load_revocations ws;
          mark = PDict [(''ts'', PStr now), (''reason'', PStr reason), (''actor'', PStr actor)]
      in if has_key d invalid_key then Inl BadLedger
         else
           (case revoke_loop mark [] gates d of
              Inl e \<Rightarrow> Inl e
            | Inr (ids, d') \<Rightarrow>
                if ids = [] then Inl NoTarget
                else
                  (case append_audit_event sha loads False now (revocation_event ids actor reason pid) (trail ws) of
                     Inl _ \<Rightarrow> Inl Unaudited
                   | Inr (trail', _) \<Rightarrow>
                       Inr (ws\<lparr>trail := trail'\<rparr>,
                            ws\<lparr>trail := trail', ledger := Some (Json (PDict d'))\<rparr>))))"

definition clear_gate_revocation :: "string \<Rightarrow> gate_ws \<Rightarrow> sign_error + gate_ws" where
  "clear_gate_revocation gate ws =
     (let d = load_revocations ws in
      if has_key d invalid_key then Inl BadLedger
      else if has_key d (gate_id gate)
      then Inr (ws\<lparr>ledger := Some (Json (PDict (dict_del d (gate_id gate))))\<rparr>)
      else Inr ws)"

subsection \<open>Normalisation\<close>

definition numeral_of :: "string \<Rightarrow> nat option" where
  "numeral_of s = (if s \<noteq> [] \<and> list_all is_digit s then int_body s else None)"

definition normalize_gate :: "string \<Rightarrow> string" where
  "normalize_gate gate =
     (let raw = upper (strip gate) in
      case (if startswith raw ''G'' then numeral_of (tl raw) else None) of
        Some n \<Rightarrow> CHR ''G'' # nat_str n
      | None \<Rightarrow> (case numeral_of raw of Some n \<Rightarrow> CHR ''G'' # nat_str n | None \<Rightarrow> raw))"

definition normalize_gate_value :: "py \<Rightarrow> string" where
  "normalize_gate_value v =
     (let raw = lower (strip (or_empty v)); normalized = lower (normalize_gate raw) in
      if normalized \<in> set (map lower list_gates) then upper normalized
      else if startswith raw ''gate '' then
        (case numeral_of (strip (drop 5 raw)) of Some n \<Rightarrow> CHR ''G'' # nat_str n | None \<Rightarrow> raw)
      else raw)"

definition normalize_wave :: "py \<Rightarrow> string option" where
  "normalize_wave v =
     (if v = PNone \<or> strip (py_str v) = [] then None
      else
        (let raw = upper (strip (py_str v));
             raw = strip (if startswith raw ''W'' then tl raw else raw)
         in Some (case numeral_of raw of
                    Some n \<Rightarrow> (if n < 10 then CHR ''0'' # nat_str n else nat_str n)
                  | None \<Rightarrow> raw)))"

definition normalize_artifact :: "py \<Rightarrow> string" where
  "normalize_artifact v = lower (strip (replace_char (CHR 0x5C) (CHR ''/'') (or_empty v)))"

subsection \<open>The audit row of a signature\<close>

definition APPROVED_VERDICTS :: "string list" where
  "APPROVED_VERDICTS = [''APPROVED'', ''APPROVED-WITH-CONDITIONS'', ''WAIVED'']"

definition SIGN_ACTIONS :: "string list" where
  "SIGN_ACTIONS = [''sign'', ''gate-sign'', ''gate.signed'', ''gate.approved'']"

definition REVERSE_ACTIONS :: "string list" where
  "REVERSE_ACTIONS = [''gate.reopen'', ''gate.unsign'', ''gate.revoke'']"

definition read_audit_entries :: "(string \<Rightarrow> py option) \<Rightarrow> string \<Rightarrow> audit_row list" where
  "read_audit_entries loads text =
     List.map_filter (\<lambda>l. case loads l of Some (PDict d) \<Rightarrow> Some d | _ \<Rightarrow> None) (live_lines text)"

definition audit_project_matches :: "audit_row \<Rightarrow> string \<Rightarrow> bool" where
  "audit_project_matches e pid \<longleftrightarrow>
     (let p = get_py e ''project_id'' in
      if pid = ''default'' then p = PNone \<or> p = PStr [] \<or> p = PStr ''default'' else p = PStr pid)"

definition audit_reverses_gate :: "audit_row \<Rightarrow> string \<Rightarrow> bool" where
  "audit_reverses_gate e gate \<longleftrightarrow>
     gate \<in> normalize_gate_value `
       set (get_py e ''gate'' # (case get_py e ''gates'' of PList vs \<Rightarrow> vs | _ \<Rightarrow> []))"

definition action_of :: "audit_row \<Rightarrow> string" where
  "action_of e = lower (strip (get_str e ''action''))"

definition links_artifact ::
  "(string \<Rightarrow> string) \<Rightarrow> string \<Rightarrow> string option \<Rightarrow> string \<Rightarrow> string \<Rightarrow> audit_row \<Rightarrow> bool" where
  "links_artifact sha gate wave rel hash e \<longleftrightarrow>
     action_of e \<in> set SIGN_ACTIONS \<and>
     normalize_artifact (get_py e ''artifact'') = normalize_artifact (PStr rel) \<and>
     normalize_gate_value (get_py e ''gate'') \<in> {gate, lower (gate_label gate)} \<and>
     (wave = None \<or> normalize_wave (get_py e ''wave'') = wave) \<and>
     upper (get_str e ''verdict'') \<in> set APPROVED_VERDICTS \<and>
     lower (strip (get_str e ''hash'')) = lower hash \<and>
     (let h = lower (strip (or_empty (get_py e ''entry_hash'')))
      in length h = 64 \<and> list_all hex_char h \<and> audit_entry_hash sha e = h)"

text \<open>The newest row counts: the search goes backwards and stops at a reversal of the gate.\<close>

fun find_match ::
  "(string \<Rightarrow> string) \<Rightarrow> string \<Rightarrow> string option \<Rightarrow> string \<Rightarrow> string \<Rightarrow> string \<Rightarrow> audit_row list \<Rightarrow> audit_row option" where
  "find_match sha gate wave rel hash pid [] = None"
| "find_match sha gate wave rel hash pid (e # es) =
     (if \<not> audit_project_matches e pid then find_match sha gate wave rel hash pid es
      else if action_of e \<in> set REVERSE_ACTIONS \<and> audit_reverses_gate e gate then None
      else if links_artifact sha gate wave rel hash e then Some e
      else find_match sha gate wave rel hash pid es)"

definition find_audit_match ::
  "(string \<Rightarrow> string) \<Rightarrow> string \<Rightarrow> string option \<Rightarrow> string \<Rightarrow> string \<Rightarrow> string \<Rightarrow> audit_row list \<Rightarrow> audit_row option" where
  "find_audit_match sha gate wave rel hash pid entries = find_match sha gate wave rel hash pid (rev entries)"

subsection \<open>\<open>validate_gate\<close>\<close>

record artifact_status =
  st_path :: string
  st_text :: "string option"
  st_view :: signer_view

definition check_gate :: "(string \<Rightarrow> string) \<Rightarrow> gate_ws \<Rightarrow> string \<Rightarrow> artifact_status list" where
  "check_gate sha ws gate =
     map (\<lambda>a. \<lparr>st_path = rel_path a, st_text = art_files ws (rel_path a),
               st_view = (case art_files ws (rel_path a) of
                            None \<Rightarrow> \<lparr>signers = [], draft_block = False, hash_valid = None\<rparr>
                          | Some text \<Rightarrow> parse_signers sha text)\<rparr>)
       (expected_gate_artifacts gate)"

datatype gate_check =
    GateKnown | ArtifactsPresent | ArtifactsSigned | HashesValid | TrailPresent | AuditLinked

definition failing :: "bool \<Rightarrow> gate_check \<Rightarrow> gate_check list" where
  "failing ok c = (if ok then [] else [c])"

definition check_artifacts :: "artifact_status list \<Rightarrow> gate_check list" where
  "check_artifacts sts =
     failing (\<forall>s \<in> set sts. st_text s \<noteq> None) ArtifactsPresent @
     failing (\<forall>s \<in> set sts. st_text s \<noteq> None \<longrightarrow> signers (st_view s) \<noteq> [] \<and> \<not> draft_block (st_view s))
       ArtifactsSigned @
     failing (\<forall>s \<in> set sts. st_text s \<noteq> None \<longrightarrow> hash_valid (st_view s) \<noteq> Some False) HashesValid"

definition audit_linked ::
  "(string \<Rightarrow> string) \<Rightarrow> string \<Rightarrow> string option \<Rightarrow> string \<Rightarrow> audit_row list \<Rightarrow> artifact_status \<Rightarrow> bool" where
  "audit_linked sha gate wave pid entries s =
     (case st_text s of
        None \<Rightarrow> True
      | Some text \<Rightarrow>
          find_audit_match sha gate wave (st_path s) (compute_hash sha text) pid entries \<noteq> None)"

definition check_audit ::
  "(string \<Rightarrow> string) \<Rightarrow> (string \<Rightarrow> py option) \<Rightarrow> gate_ws \<Rightarrow> string \<Rightarrow> string option \<Rightarrow> string
     \<Rightarrow> artifact_status list \<Rightarrow> gate_check list" where
  "check_audit sha loads ws gate wave pid sts =
     (case trail ws of
        None \<Rightarrow> [TrailPresent, AuditLinked]
      | Some text \<Rightarrow>
          failing
            (verify_audit_chain sha loads (Some text) = [] \<and>
             (\<forall>s \<in> set sts. audit_linked sha gate wave pid (read_audit_entries loads text) s))
            AuditLinked)"

text \<open>The checks that fail, each of which blocks.\<close>

definition validate_gate ::
  "(string \<Rightarrow> string) \<Rightarrow> (string \<Rightarrow> py option) \<Rightarrow> gate_ws \<Rightarrow> string \<Rightarrow> py \<Rightarrow> string \<Rightarrow> gate_check list" where
  "validate_gate sha loads ws gate wave pid =
     (let g = normalize_gate gate; sts = check_gate sha ws g in
      if g \<notin> set list_gates then [GateKnown]
      else check_artifacts sts @ check_audit sha loads ws g (normalize_wave wave) pid sts)"

subsection \<open>The strict check\<close>

datatype strict_reason =
    RevokedGate | JournalInvalid | ApprovalInterrupted | ChainViolation violation
  | CheckFailed gate_check | WrongSignature string | NoAuthority | TemplateMarker string | NoReleaseProof

text \<open>Each artifact needs an approved entry with the current hash, by a role it names itself.\<close>

definition authorized_entry :: "string list \<Rightarrow> string \<Rightarrow> sig_entry \<Rightarrow> bool" where
  "authorized_entry roles hash e \<longleftrightarrow>
     \<not> sig_draft e \<and> sig_verdict e \<in> set APPROVED_VERDICTS \<and> sig_role e \<in> set roles \<and>
     sig_hash e \<noteq> [] \<and> sig_hash e = hash"

definition unauthorized_signature_reasons ::
  "(string \<Rightarrow> string) \<Rightarrow> gate_ws \<Rightarrow> string \<Rightarrow> strict_reason list" where
  "unauthorized_signature_reasons sha ws gate =
     concat (map (\<lambda>a.
       case art_files ws (rel_path a) of
         None \<Rightarrow> []
       | Some text \<Rightarrow>
           if list_ex (authorized_entry (required_roles a) (compute_hash sha text)) (parse_signatures text)
           then [] else [WrongSignature (rel_path a)])
       (expected_gate_artifacts gate))"

definition solo_founder_consent :: string where
  "solo_founder_consent = ''I approve Gate 0 as sole founder''"

definition authority_row_matches ::
  "(string \<Rightarrow> string) \<Rightarrow> string \<Rightarrow> string \<Rightarrow> audit_row \<Rightarrow> bool" where
  "authority_row_matches sha root pid e \<longleftrightarrow>
     get_py e ''action'' = PStr ''authority:solo-founder-g0-declared'' \<and>
     (case get_py e ''prev_hash'' of PStr h \<Rightarrow> h \<noteq> [] | _ \<Rightarrow> False) \<and>
     get_py e ''entry_hash'' = PStr (audit_entry_hash sha e) \<and>
     get_py e ''role'' = PStr ''PO'' \<and> get_py e ''delegated_role'' = PStr ''PE'' \<and>
     get_py e ''scope'' = PStr ''G0 only'' \<and>
     get_py e ''via'' \<in> set [PStr ''button'', PStr ''chat'', PStr ''simulation''] \<and>
     get_py e ''consent'' = PStr solo_founder_consent \<and>
     get_py e ''project_id'' = PStr pid \<and> or_empty (get_py e ''workspace'') = root"

definition matching_gate0_authorities ::
  "(string \<Rightarrow> string) \<Rightarrow> (string \<Rightarrow> py option) \<Rightarrow> string \<Rightarrow> string \<Rightarrow> string option \<Rightarrow> audit_row list" where
  "matching_gate0_authorities sha loads root pid t =
     (case t of
        None \<Rightarrow> []
      | Some text \<Rightarrow>
          if verify_audit_chain sha loads t \<noteq> [] then []
          else filter (authority_row_matches sha root pid) (read_audit_entries loads text))"

record strict_env =
  root_path :: string
  owns_transaction :: bool
  template_markers :: "string \<Rightarrow> string list"
  release_proven :: bool

definition gate0_reasons ::
  "(string \<Rightarrow> string) \<Rightarrow> (string \<Rightarrow> py option) \<Rightarrow> strict_env \<Rightarrow> gate_ws \<Rightarrow> string \<Rightarrow> strict_reason list" where
  "gate0_reasons sha loads env ws pid =
     (if matching_gate0_authorities sha loads (root_path env) pid (trail ws) = [] then [NoAuthority]
      else
        concat (map (\<lambda>a.
          case art_files ws (rel_path a) of
            None \<Rightarrow> []
          | Some text \<Rightarrow> map TemplateMarker (template_markers env text))
          (expected_gate_artifacts ''G0'')))"

text \<open>\<open>check_gate_signed_strict\<close>: the reasons why the gate is not signed, none when it is.\<close>

definition check_gate_signed_strict ::
  "(string \<Rightarrow> string) \<Rightarrow> (string \<Rightarrow> py option) \<Rightarrow> strict_env \<Rightarrow> gate_ws \<Rightarrow> string \<Rightarrow> py \<Rightarrow> string \<Rightarrow> bool
     \<Rightarrow> strict_reason list" where
  "check_gate_signed_strict sha loads env ws gate wave pid require_proof =
     (let g = gate_id gate in
      if is_gate_revoked ws g then [RevokedGate]
      else if g = ''G0'' \<and> g0_journal ws = BadJournal then [JournalInvalid]
      else if g = ''G0'' \<and> g0_journal ws = Prepared \<and> \<not> owns_transaction env then [ApprovalInterrupted]
      else if verify_audit_chain sha loads (trail ws) \<noteq> []
      then map ChainViolation (verify_audit_chain sha loads (trail ws))
      else if validate_gate sha loads ws g wave pid \<noteq> []
      then map CheckFailed (validate_gate sha loads ws g wave pid)
      else if unauthorized_signature_reasons sha ws g \<noteq> [] then unauthorized_signature_reasons sha ws g
      else if g = ''G0'' \<and> gate0_reasons sha loads env ws pid \<noteq> [] then gate0_reasons sha loads env ws pid
      else if g = ''G5'' \<and> require_proof \<and> \<not> release_proven env then [NoReleaseProof]
      else [])"

definition is_gate_signed_strict ::
  "(string \<Rightarrow> string) \<Rightarrow> (string \<Rightarrow> py option) \<Rightarrow> strict_env \<Rightarrow> gate_ws \<Rightarrow> string \<Rightarrow> py \<Rightarrow> string \<Rightarrow> bool \<Rightarrow> bool" where
  "is_gate_signed_strict sha loads env ws gate wave pid require_proof \<longleftrightarrow>
     check_gate_signed_strict sha loads env ws gate wave pid require_proof = []"

subsection \<open>Signing a gate\<close>

definition gate_complete_enough ::
  "(string \<Rightarrow> string) \<Rightarrow> (string \<Rightarrow> py option) \<Rightarrow> string \<Rightarrow> gate_ws \<Rightarrow> string \<Rightarrow> string \<Rightarrow> bool" where
  "gate_complete_enough sha loads root ws gate pid \<longleftrightarrow>
     validate_gate sha loads ws gate PNone pid = [] \<and> unauthorized_signature_reasons sha ws gate = [] \<and>
     (upper gate = ''G0'' \<longrightarrow> matching_gate0_authorities sha loads root pid (trail ws) \<noteq> [])"

definition sign_event :: "signature \<Rightarrow> string \<Rightarrow> string \<Rightarrow> string \<Rightarrow> py \<Rightarrow> string \<Rightarrow> audit_row" where
  "sign_event g gate rel hash wave pid =
     [(''ts'', PStr []), (''actor'', PStr (by_signer g)), (''role'', PStr (by_role g)),
      (''action'', PStr ''sign''), (''gate'', PStr (gate_label gate)), (''artifact'', PStr rel),
      (''hash'', PStr hash), (''verdict'', PStr (by_verdict g)), (''project_id'', PStr pid)] @
     (case normalize_wave wave of None \<Rightarrow> [] | Some w \<Rightarrow> if w = [] then [] else [(''wave'', PStr w)])"

record clock =
  date_of :: string
  time_of :: string

text \<open>The loop of \<open>sign_gate\<close> over the artifacts of the gate.\<close>

fun sign_loop ::
  "(string \<Rightarrow> string) \<Rightarrow> (string \<Rightarrow> py option) \<Rightarrow> clock \<Rightarrow> string \<Rightarrow> signature \<Rightarrow> py \<Rightarrow> string \<Rightarrow> bool
     \<Rightarrow> manifest_entry list \<Rightarrow> gate_ws \<Rightarrow> string list \<Rightarrow> sign_error + (gate_ws \<times> string list)" where
  "sign_loop sha loads k gate g wave pid skip_signed [] ws signed = Inr (ws, signed)"
| "sign_loop sha loads k gate g wave pid skip_signed (a # as) ws signed =
     (case art_files ws (rel_path a) of
        None \<Rightarrow> sign_loop sha loads k gate g wave pid skip_signed as ws signed
      | Some text \<Rightarrow>
          if by_role g \<notin> set (required_roles a) \<or> (skip_signed \<and> signers (parse_signers sha text) \<noteq> [])
          then sign_loop sha loads k gate g wave pid skip_signed as ws signed
          else
            (case sign_artifact sha (date_of k) gate g text of
               Inl e \<Rightarrow> Inl e
             | Inr text' \<Rightarrow>
                 (case append_audit_event sha loads False (time_of k)
                         (sign_event g gate (rel_path a) (compute_hash sha text') wave pid) (trail ws) of
                    Inl _ \<Rightarrow> Inl Unaudited
                  | Inr (t, _) \<Rightarrow>
                      sign_loop sha loads k gate g wave pid skip_signed as
                        (ws\<lparr>art_files := (art_files ws)(rel_path a := Some text'), trail := t\<rparr>)
                        (signed @ [rel_path a]))))"

definition sign_gate ::
  "(string \<Rightarrow> string) \<Rightarrow> (string \<Rightarrow> py option) \<Rightarrow> clock \<Rightarrow> string \<Rightarrow> bool \<Rightarrow> string \<Rightarrow> signature \<Rightarrow> py \<Rightarrow> string
     \<Rightarrow> bool \<Rightarrow> gate_ws \<Rightarrow> sign_error + (gate_ws \<times> string list)" where
  "sign_gate sha loads k root outcome_proven gate g wave pid skip_signed ws =
     (let entries = expected_gate_artifacts gate in
      if by_role g \<notin> set VALID_ROLES then Inl BadRole
      else if upper gate \<in> {''G4'', ''G5''} \<and> \<not> outcome_proven then Inl NoProof
      else if entries = [] then Inl UnknownGate
      else if \<not> list_ex (\<lambda>a. by_role g \<in> set (required_roles a)) entries then Inl NotAuthorised
      else
        (case sign_loop sha loads k gate g wave pid skip_signed entries ws [] of
           Inl e \<Rightarrow> Inl e
         | Inr (ws', signed) \<Rightarrow>
             if signed \<noteq> [] \<and> gate_complete_enough sha loads root ws' gate pid
             then map_sum id (\<lambda>ws''. (ws'', signed)) (clear_gate_revocation gate ws')
             else Inr (ws', signed)))"

subsection \<open>What a signed gate has\<close>

lemma known_gates:
  "g \<in> set list_gates \<Longrightarrow>
     gate_id g = g \<and> normalize_gate g = g \<and> expected_gate_artifacts g \<noteq> [] \<and>
     normalize_gate_value (PStr g) = g \<and> plain_text g"
proof -
  have "list_all (\<lambda>g. gate_id g = g \<and> normalize_gate g = g \<and> expected_gate_artifacts g \<noteq> [] \<and>
      normalize_gate_value (PStr g) = g \<and> plain_text g) list_gates"
    by code_simp
  then show "g \<in> set list_gates \<Longrightarrow>
     gate_id g = g \<and> normalize_gate g = g \<and> expected_gate_artifacts g \<noteq> [] \<and>
     normalize_gate_value (PStr g) = g \<and> plain_text g"
    by (simp add: list_all_iff)
qed

definition reverses :: "string \<Rightarrow> string \<Rightarrow> audit_row \<Rightarrow> bool" where
  "reverses gate pid e \<longleftrightarrow>
     audit_project_matches e pid \<and> action_of e \<in> set REVERSE_ACTIONS \<and> audit_reverses_gate e gate"

lemma find_match_Some:
  "find_match sha gate wave rel hash pid es = Some e \<Longrightarrow>
   \<exists>newer older. es = newer @ e # older \<and> audit_project_matches e pid \<and>
     links_artifact sha gate wave rel hash e \<and> (\<forall>r \<in> set newer. \<not> reverses gate pid r)"
proof (induction es)
  case Nil
  then show ?case by simp
next
  case (Cons x es)
  show ?case
  proof (cases "audit_project_matches x pid \<and> links_artifact sha gate wave rel hash x \<and> x = e")
    case True
    then show ?thesis by fastforce
  next
    case False
    with Cons.prems have "find_match sha gate wave rel hash pid es = Some e" and nr: "\<not> reverses gate pid x"
      by (auto simp: reverses_def split: if_splits)
    from Cons.IH [OF this(1)] obtain newer older where
      "es = newer @ e # older" "audit_project_matches e pid" "links_artifact sha gate wave rel hash e"
      "\<forall>r \<in> set newer. \<not> reverses gate pid r" by blast
    moreover from this nr have "x # es = (x # newer) @ e # older" "\<forall>r \<in> set (x # newer). \<not> reverses gate pid r"
      by simp_all
    ultimately show ?thesis by blast
  qed
qed

lemma find_match_reversed: "reverses gate pid e \<Longrightarrow> find_match sha gate wave rel hash pid (e # es) = None"
  by (simp add: reverses_def)

text \<open>The row a signature rests on: newer rows do not reverse the gate.\<close>

definition rests_on ::
  "(string \<Rightarrow> string) \<Rightarrow> string \<Rightarrow> string option \<Rightarrow> string \<Rightarrow> string \<Rightarrow> string \<Rightarrow> audit_row list \<Rightarrow> bool" where
  "rests_on sha gate wave rel hash pid entries \<longleftrightarrow>
     (\<exists>older e newer. entries = older @ e # newer \<and> audit_project_matches e pid \<and>
        links_artifact sha gate wave rel hash e \<and> (\<forall>r \<in> set newer. \<not> reverses gate pid r))"

lemma audit_match_rests_on:
  assumes "find_audit_match sha gate wave rel hash pid entries \<noteq> None"
  shows "rests_on sha gate wave rel hash pid entries"
proof -
  from assms obtain e where "find_match sha gate wave rel hash pid (rev entries) = Some e"
    by (auto simp: find_audit_match_def)
  from find_match_Some [OF this] obtain newer older where
    "rev entries = newer @ e # older" and e: "audit_project_matches e pid"
      "links_artifact sha gate wave rel hash e" "\<forall>r \<in> set newer. \<not> reverses gate pid r" by blast
  then have "entries = rev older @ e # rev newer" by (simp add: rev_swap)
  with e show ?thesis unfolding rests_on_def by (metis set_rev)
qed

definition artifact_signed ::
  "(string \<Rightarrow> string) \<Rightarrow> gate_ws \<Rightarrow> string \<Rightarrow> string option \<Rightarrow> string \<Rightarrow> audit_row list \<Rightarrow> manifest_entry \<Rightarrow> bool" where
  "artifact_signed sha ws gate wave pid entries a \<longleftrightarrow>
     (\<exists>text. art_files ws (rel_path a) = Some text \<and>
        signers (parse_signers sha text) \<noteq> [] \<and> \<not> draft_block (parse_signers sha text) \<and>
        hash_valid (parse_signers sha text) \<noteq> Some False \<and>
        (\<exists>e \<in> set (parse_signatures text). authorized_entry (required_roles a) (compute_hash sha text) e) \<and>
        rests_on sha gate wave (rel_path a) (compute_hash sha text) pid entries)"

lemma failing_nil [simp]: "failing ok c = [] \<longleftrightarrow> ok"
  by (simp add: failing_def)

lemma validated_artifact:
  assumes "validate_gate sha loads ws g wave pid = []" and "normalize_gate g = g"
  shows "\<exists>t. trail ws = Some t \<and>
    (\<forall>a \<in> set (expected_gate_artifacts g). \<exists>text. art_files ws (rel_path a) = Some text \<and>
       signers (parse_signers sha text) \<noteq> [] \<and> \<not> draft_block (parse_signers sha text) \<and>
       hash_valid (parse_signers sha text) \<noteq> Some False \<and>
       find_audit_match sha g (normalize_wave wave) (rel_path a) (compute_hash sha text) pid
         (read_audit_entries loads t) \<noteq> None)"
proof -
  from assms have a: "check_artifacts (check_gate sha ws g) = []"
      and t: "check_audit sha loads ws g (normalize_wave wave) pid (check_gate sha ws g) = []"
    by (auto simp: validate_gate_def Let_def split: if_splits)
  from t obtain doc where "trail ws = Some doc" by (auto simp: check_audit_def split: option.splits)
  with a t show ?thesis
    by (auto simp: check_artifacts_def check_audit_def check_gate_def audit_linked_def dest!: bspec)
qed

lemma strict_nil:
  assumes "check_gate_signed_strict sha loads env ws gate wave pid rp = []"
  shows "\<not> is_gate_revoked ws (gate_id gate)" and "verify_audit_chain sha loads (trail ws) = []"
    and "validate_gate sha loads ws (gate_id gate) wave pid = []"
    and "unauthorized_signature_reasons sha ws (gate_id gate) = []"
  using assms by (auto simp: check_gate_signed_strict_def Let_def split: if_splits)

text \<open>C2: A gate that reads as signed has no revocation marker and an intact audit chain, and each of
  its artifacts exists, has a signer, no draft entry and no stale declared hash, carries an
  approved entry with the hash of its current content by a role that this artifact itself requires,
  and rests on an approved audit row of the project for that content that no later row reverses.\<close>

theorem strict_signed_means:
  assumes "is_gate_signed_strict sha loads env ws g wave pid rp" and "g \<in> set list_gates"
  shows "\<not> is_gate_revoked ws g \<and> verify_audit_chain sha loads (trail ws) = [] \<and>
    (\<exists>t. trail ws = Some t \<and>
       (\<forall>a \<in> set (expected_gate_artifacts g).
          artifact_signed sha ws g (normalize_wave wave) pid (read_audit_entries loads t) a))"
proof -
  note g = known_gates [OF assms(2)]
  note s = strict_nil [OF assms(1) [unfolded is_gate_signed_strict_def]]
  from g have id: "gate_id g = g" and n: "normalize_gate g = g" by simp_all
  from validated_artifact [OF s(3) [unfolded id] n] obtain t where t: "trail ws = Some t"
    and v: "\<And>a. a \<in> set (expected_gate_artifacts g) \<Longrightarrow> \<exists>text. art_files ws (rel_path a) = Some text \<and>
       signers (parse_signers sha text) \<noteq> [] \<and> \<not> draft_block (parse_signers sha text) \<and>
       hash_valid (parse_signers sha text) \<noteq> Some False \<and>
       find_audit_match sha g (normalize_wave wave) (rel_path a) (compute_hash sha text) pid
         (read_audit_entries loads t) \<noteq> None" by blast
  have "artifact_signed sha ws g (normalize_wave wave) pid (read_audit_entries loads t) a"
    if a: "a \<in> set (expected_gate_artifacts g)" for a
  proof -
    from v [OF a] obtain doc where tx: "art_files ws (rel_path a) = Some doc"
        "signers (parse_signers sha doc) \<noteq> []" "\<not> draft_block (parse_signers sha doc)"
        "hash_valid (parse_signers sha doc) \<noteq> Some False"
        "find_audit_match sha g (normalize_wave wave) (rel_path a) (compute_hash sha doc) pid
           (read_audit_entries loads t) \<noteq> None" by blast
    have "list_ex (authorized_entry (required_roles a) (compute_hash sha doc)) (parse_signatures doc)"
      using s(4) [unfolded id] a tx(1)
      by (auto simp: unauthorized_signature_reasons_def split: if_splits dest!: bspec)
    with tx audit_match_rests_on [OF tx(5)] show ?thesis
      by (auto simp: artifact_signed_def list_ex_iff)
  qed
  with s(1,2) t id show ?thesis by simp
qed

definition demo_signed_text :: string where
  "demo_signed_text = ''B'' @ nl # nl # heading @ nl # yaml_fence @ nl # ''- signer: Ada'' @ nl # ''  role: PO'' @ nl #
     ''  artifact_hash: '' @ replicate 64 (CHR ''a'') @ nl # ''  verdict: APPROVED'' @ nl # fence @ [nl]"

definition demo_sign_row :: audit_row where
  "demo_sign_row =
     [(''action'', PStr ''sign''), (''gate'', PStr ''Gate 2''), (''artifact'', PStr ''core/strategy/EXPECTATION_MAP.md''),
      (''hash'', PStr (replicate 64 (CHR ''a''))), (''verdict'', PStr ''APPROVED''),
      (''project_id'', PStr ''default''), (''prev_hash'', PStr genesis),
      (''entry_hash'', PStr (replicate 64 (CHR ''e'')))]"

definition demo_sign_line :: string where
  "demo_sign_line = audit_line demo_sign_row"

definition demo_sign_loads :: "string \<Rightarrow> py option" where
  "demo_sign_loads l = (if l = demo_sign_line then Some (PDict demo_sign_row) else None)"

definition demo_ws :: gate_ws where
  "demo_ws =
     \<lparr>art_files = (\<lambda>p. if p = ''core/strategy/EXPECTATION_MAP.md'' then Some demo_signed_text else None),
      trail = Some (demo_sign_line @ [nl]), ledger = None, g0_journal = NoJournal\<rparr>"

definition demo_env :: strict_env where
  "demo_env = \<lparr>root_path = ''w'', owns_transaction = False, template_markers = (\<lambda>_. []), release_proven = False\<rparr>"

lemma demo_chain_ok: "verify_audit_chain demo_hex demo_sign_loads (trail demo_ws) = []"
  by code_simp

lemma demo_roles_ok: "unauthorized_signature_reasons demo_hex demo_ws ''G2'' = []"
  by code_simp

lemma demo_gate_ok: "validate_gate demo_hex demo_sign_loads demo_ws ''G2'' PNone ''default'' = []"
  by code_simp

lemmas demo_checks = demo_chain_ok demo_roles_ok demo_gate_ok

lemma demo_signed: "is_gate_signed_strict demo_hex demo_sign_loads demo_env demo_ws ''G2'' PNone ''default'' True"
proof -
  have "gate_id ''G2'' = ''G2''" "\<not> is_gate_revoked demo_ws ''G2''" by code_simp+
  then show ?thesis
    by (simp add: is_gate_signed_strict_def check_gate_signed_strict_def demo_checks)
qed

theorem strict_signed_means_witness:
  "\<exists>t. trail demo_ws = Some t \<and>
     (\<forall>a \<in> set (expected_gate_artifacts ''G2'').
        artifact_signed demo_hex demo_ws ''G2'' None ''default'' (read_audit_entries demo_sign_loads t) a)"
proof -
  have "''G2'' \<in> set list_gates" "normalize_wave PNone = None" by code_simp+
  with strict_signed_means [OF demo_signed] show ?thesis by simp
qed

subsection \<open>Revocation\<close>

lemma revoke_loop_step:
  "revoke_loop mark ids (raw # gs) d = Inr r \<longleftrightarrow>
     gate_id raw \<in> set list_gates \<and>
     (if gate_id raw \<in> set ids then revoke_loop mark ids gs d = Inr r
      else revoke_loop mark (ids @ [gate_id raw]) gs (dict_set d (gate_id raw) mark) = Inr r)"
  by (simp add: Let_def)

declare revoke_loop.simps(2) [simp del]

lemma revoke_loop_targets:
  "revoke_loop mark ids gs d = Inr (ids', d') \<Longrightarrow>
   set ids' = set ids \<union> gate_id ` set gs \<and> gate_id ` set gs \<subseteq> set list_gates"
proof (induction gs arbitrary: ids d)
  case Nil
  then show ?case by simp
next
  case (Cons raw gs)
  show ?case
  proof (cases "gate_id raw \<in> set ids")
    case True
    with Cons.prems have "gate_id raw \<in> set list_gates" "revoke_loop mark ids gs d = Inr (ids', d')"
      by (simp_all add: revoke_loop_step)
    with Cons.IH [OF this(2)] True show ?thesis by auto
  next
    case False
    with Cons.prems have g: "gate_id raw \<in> set list_gates"
      and "revoke_loop mark (ids @ [gate_id raw]) gs (dict_set d (gate_id raw) mark) = Inr (ids', d')"
      by (simp_all add: revoke_loop_step)
    from Cons.IH [OF this(2)] g show ?thesis by auto
  qed
qed

lemma live_lines_split: "closed_text t \<Longrightarrow> live_lines (t @ u) = live_lines t @ live_lines u"
proof (cases "t = []")
  case True
  then show ?thesis by (simp add: live_lines_def)
next
  case False
  assume "closed_text t"
  with False obtain v where "t = v @ [nl]"
    unfolding closed_text_def by (metis append_butlast_last_id)
  then show ?thesis using splitlines_closed [of "[]" v u] by (simp add: live_lines_def)
qed

lemma verified_before:
  assumes "closed_text (trail_text t)" and "verify_audit_chain sha loads (Some (trail_text t @ u)) = []"
  shows "verify_audit_chain sha loads t = []"
proof -
  have "verify_lines sha loads 1 genesis (live_lines (trail_text t)) = []"
    using assms(2) by (simp add: verify_audit_chain_def live_lines_split [OF assms(1)] verify_append)
  then show ?thesis by (simp only: verify_trail)
qed

lemma chained_row_other:
  "k \<noteq> ''ts'' \<Longrightarrow> k \<noteq> ''prev_hash'' \<Longrightarrow> k \<noteq> ''entry_hash'' \<Longrightarrow>
   get_py (chained_row sha loads now t e) k = get_py e k"
  by (simp add: chained_row_def Let_def)

lemma event_reverses:
  assumes "g \<in> set ids" and "g \<in> set list_gates"
  shows "reverses g pid (chained_row sha loads now t (revocation_event ids actor reason pid))"
proof -
  let ?e = "chained_row sha loads now t (revocation_event ids actor reason pid)"
  have get: "get_py ?e ''project_id'' = PStr pid" "get_py ?e ''action'' = PStr ''gate.revoke''"
    "get_py ?e ''gates'' = PList (map PStr ids)"
    by (simp_all add: chained_row_other revocation_event_def)
  have "action_of ?e = lower (strip ''gate.revoke'')"
    using get_py_str [OF get(2)] by (simp only: action_of_def)
  also have "\<dots> = ''gate.revoke''" by code_simp
  finally have "action_of ?e \<in> set REVERSE_ACTIONS" by (simp add: REVERSE_ACTIONS_def)
  moreover have "g = normalize_gate_value (PStr g)" using known_gates [OF assms(2)] by simp
  then have "audit_reverses_gate ?e g"
    using assms(1) by (auto simp: audit_reverses_gate_def get)
  ultimately show ?thesis by (simp add: reverses_def audit_project_matches_def get)
qed

lemma revocation_plain:
  assumes "plain_text actor" and "plain_text reason" and "plain_text pid" and "\<forall>g \<in> set ids. plain_text g"
    and "ids \<noteq> []"
  shows "plain_py (PDict (revocation_event ids actor reason pid))"
proof -
  have "plain_text ''action''" "plain_text ''kind''" "plain_text ''gate''" "plain_text ''gates''"
    "plain_text ''actor''" "plain_text ''reason''" "plain_text ''project_id''"
    "plain_text ''gate.revoke''" "plain_text ''revocation''"
    by code_simp+
  with assms show ?thesis by (simp add: revocation_event_def list_all_iff)
qed

text \<open>The appended row is the newest entry of the trail.\<close>

lemma appended_entry:
  assumes "closed_text (trail_text t)" and "plain_py (PDict e)" and "plain_text now"
    and "\<And>x. sha x \<noteq> [] \<and> plain_text (sha x)" and "row = chained_row sha loads now t e"
    and "loads (audit_line row) = Some (PDict row)"
    and "verify_audit_chain sha loads (Some (trail_text t @ audit_line row @ [nl])) = []"
  shows "read_audit_entries loads (trail_text t @ audit_line row @ [nl]) =
         read_audit_entries loads (trail_text t) @ [row]"
proof -
  from verified_before [OF assms(1,7)] have "verify_audit_chain sha loads t = []" .
  then have "plain_text (audit_prev_link sha loads t)" using assms(4) by (intro prev_link_plain) auto
  then have "plain_py (PDict row)" unfolding assms(5) using assms by (intro chained_row_plain) auto
  then have "live_lines (trail_text t @ audit_line row @ [nl]) = live_lines (trail_text t) @ [audit_line row]"
    using assms(1) by (intro live_lines_append audit_line_one_line audit_line_not_blank)
  then show ?thesis by (simp add: read_audit_entries_def map_filter_def assms(6))
qed

lemma revoke_Inr:
  assumes "revoke_gates sha loads now pid actor reason gates ws = Inr (mid, ws')"
  shows "\<exists>ids d'. revoke_loop (PDict [(''ts'', PStr now), (''reason'', PStr reason), (''actor'', PStr actor)])
             [] gates (load_revocations ws) = Inr (ids, d') \<and> ids \<noteq> [] \<and>
           (let row = chained_row sha loads now (trail ws) (revocation_event ids actor reason pid);
                t = Some (trail_text (trail ws) @ audit_line row @ [nl])
            in mid = ws\<lparr>trail := t\<rparr> \<and> ws' = ws\<lparr>trail := t, ledger := Some (Json (PDict d'))\<rparr>)"
  using assms
  by (auto simp: revoke_gates_def Let_def split: if_splits sum.splits dest!: append_Inr)

text \<open>The gates that a call names, without repetitions; they depend on the names alone.\<close>

definition revoked_ids :: "string list \<Rightarrow> string list" where
  "revoked_ids gates = (case revoke_loop PNone [] gates [] of Inl _ \<Rightarrow> [] | Inr (ids, _) \<Rightarrow> ids)"

lemma revoke_loop_ids:
  "map_sum id fst (revoke_loop mark ids gs d) = map_sum id fst (revoke_loop mark' ids gs d')"
proof (induction gs arbitrary: ids d d')
  case Nil
  then show ?case by simp
next
  case (Cons raw gs)
  then show ?case by (simp add: revoke_loop.simps(2) Let_def)
qed

lemma revoked_ids_loop: "revoke_loop mark [] gates d = Inr (ids, d') \<Longrightarrow> revoked_ids gates = ids"
  using revoke_loop_ids [of mark "[]" gates d PNone "[]"]
  by (cases "revoke_loop PNone [] gates []") (auto simp: revoked_ids_def)

text \<open>C23: Once \<open>revoke_gates\<close> has written its audit row, each gate it names reads as not signed,
  whatever happens to the revocation ledger and to the artifact files afterwards: a lost marker, or one
  that was never written because the process stopped between the two writes, does not bring the
  old signature back. The texts of the event hold no U+0085 and \<open>json.loads\<close> reads the row back.\<close>

theorem revoked_reads_unsigned:
  assumes "revoke_gates sha loads now pid actor reason gates ws = Inr (mid, ws')" and "raw \<in> set gates"
    and "closed_text (trail_text (trail ws))"
    and "plain_text now" and "plain_text pid" and "plain_text actor" and "plain_text reason"
    and "\<And>x. sha x \<noteq> [] \<and> plain_text (sha x)"
    and "row = chained_row sha loads now (trail ws) (revocation_event (revoked_ids gates) actor reason pid)"
    and "loads (audit_line row) = Some (PDict row)"
  shows "\<not> is_gate_signed_strict sha loads env (mid\<lparr>ledger := l, art_files := f\<rparr>) raw wave pid rp \<and>
         \<not> is_gate_signed_strict sha loads env (ws'\<lparr>ledger := l, art_files := f\<rparr>) raw wave pid rp"
proof -
  from revoke_Inr [OF assms(1)] obtain ids d' where
      loop: "revoke_loop (PDict [(''ts'', PStr now), (''reason'', PStr reason), (''actor'', PStr actor)])
             [] gates (load_revocations ws) = Inr (ids, d')" and ids: "ids \<noteq> []"
    and mid: "trail mid = Some (trail_text (trail ws) @
        audit_line (chained_row sha loads now (trail ws) (revocation_event ids actor reason pid)) @ [nl])"
    and ws': "trail ws' = trail mid"
    by (auto simp: Let_def)
  have row: "row = chained_row sha loads now (trail ws) (revocation_event ids actor reason pid)"
    unfolding assms(9) revoked_ids_loop [OF loop] ..
  from revoke_loop_targets [OF loop] assms(2)
  have g: "gate_id raw \<in> set ids" "gate_id raw \<in> set list_gates" and known: "set ids \<subseteq> set list_gates"
    by auto
  have "plain_py (PDict (revocation_event ids actor reason pid))"
    using assms(5-7) ids known known_gates by (intro revocation_plain) auto
  note entry = appended_entry [OF assms(3) this assms(4,8) row assms(10)]
  have "\<not> is_gate_signed_strict sha loads env w raw wave pid rp" if w: "trail w = trail mid" for w
  proof
    assume "is_gate_signed_strict sha loads env w raw wave pid rp"
    note s = strict_nil [OF this [unfolded is_gate_signed_strict_def]]
    from validated_artifact [OF s(3)] known_gates [OF g(2)] obtain t where t: "trail w = Some t"
      and v: "\<And>a. a \<in> set (expected_gate_artifacts (gate_id raw)) \<Longrightarrow> \<exists>text.
         find_audit_match sha (gate_id raw) (normalize_wave wave) (rel_path a) (compute_hash sha text) pid
           (read_audit_entries loads t) \<noteq> None" by blast
    have tt: "t = trail_text (trail ws) @ audit_line row @ [nl]"
      using t w mid by (simp add: row)
    have "read_audit_entries loads t = read_audit_entries loads (trail_text (trail ws)) @ [row]"
      using s(2) entry t unfolding tt by simp
    moreover have "reverses (gate_id raw) pid row" unfolding row by (rule event_reverses [OF g])
    ultimately have none: "find_audit_match sha (gate_id raw) wv rel hash pid (read_audit_entries loads t) = None"
      for wv rel hash by (simp add: find_audit_match_def find_match_reversed del: find_match.simps)
    from known_gates [OF g(2)] obtain a where "a \<in> set (expected_gate_artifacts (gate_id raw))"
      by (cases "expected_gate_artifacts (gate_id raw)") auto
    from v [OF this] show False by (simp add: none)
  qed
  then show ?thesis using ws' by simp
qed

definition demo_revoke_row :: audit_row where
  "demo_revoke_row =
     chained_row demo_hex (\<lambda>_. None) ''t'' None (revocation_event [''G2''] ''a'' ''r'' ''default'')"

definition demo_revoke_loads :: "string \<Rightarrow> py option" where
  "demo_revoke_loads l = (if l = audit_line demo_revoke_row then Some (PDict demo_revoke_row) else None)"

theorem revoked_reads_unsigned_witness:
  "case revoke_gates demo_hex demo_revoke_loads ''t'' ''default'' ''a'' ''r'' [''g2'', ''G2''] (demo_ws\<lparr>trail := None\<rparr>) of
     Inl _ \<Rightarrow> False
   | Inr (mid, ws') \<Rightarrow>
       \<not> is_gate_signed_strict demo_hex demo_revoke_loads demo_env 
         (ws'\<lparr>ledger := None, art_files := art_files demo_ws\<rparr>) ''G2'' PNone ''default'' True"
proof -
  let ?ws = "demo_ws\<lparr>trail := None\<rparr>"
  have ids: "gate_id ''g2'' = ''G2''" "gate_id ''G2'' = ''G2''" "''G2'' \<in> set list_gates"
    "load_revocations ?ws = []" "has_key [] invalid_key = False"
    by code_simp+
  have app: "append_audit_event sha loads False now (revocation_event g a r p) t =
      Inr (Some (trail_text t @ audit_line (chained_row sha loads now t (revocation_event g a r p)) @ [nl]),
           chained_row sha loads now t (revocation_event g a r p))" for sha loads now g a r p t
  proof -
    have "strip (or_empty (PStr ''gate.revoke'')) \<noteq> []" "py_str (PStr ''gate.revoke'') \<notin> set RESERVED_AUDIT_ACTIONS"
      by code_simp+
    then show ?thesis by (simp add: append_audit_event_def revocation_event_def Let_def)
  qed
  obtain mid ws' where r: "revoke_gates demo_hex demo_revoke_loads ''t'' ''default'' ''a'' ''r'' [''g2'', ''G2''] ?ws =
      Inr (mid, ws')"
    by (simp add: revoke_gates_def ids revoke_loop_step app Let_def revoke_loop.simps(2))
  have "revoked_ids [''g2'', ''G2''] = [''G2'']"
    by (simp add: revoked_ids_def ids revoke_loop.simps(2) Let_def)
  then have row: "demo_revoke_row = chained_row demo_hex demo_revoke_loads ''t'' (trail ?ws)
      (revocation_event (revoked_ids [''g2'', ''G2'']) ''a'' ''r'' ''default'')"
    by (simp add: demo_revoke_row_def chained_row_def audit_prev_link_def)
  have plain: "plain_text ''t''" "plain_text ''default''" "plain_text ''a''" "plain_text ''r''"
    and closed: "closed_text (trail_text (trail ?ws))"
    by code_simp+
  have sha: "demo_hex x \<noteq> [] \<and> plain_text (demo_hex x)" for x
    by (simp add: demo_hex_def plain_text_def)
  have "demo_revoke_loads (audit_line demo_revoke_row) = Some (PDict demo_revoke_row)"
    by (simp add: demo_revoke_loads_def)
  from revoked_reads_unsigned [OF r _ closed plain sha row this, of "''G2''"] show ?thesis
    by (simp add: r)
qed

lemma append_trail:
  "append_audit_event sha loads cap now e t = Inr (t', row) \<Longrightarrow> prefix (trail_text t) (trail_text t')"
  by (auto dest!: append_Inr simp: trail_text_def split: option.splits)

lemma sign_hash: "sign_artifact sha d gate g text = Inr text' \<Longrightarrow> compute_hash sha text' = compute_hash sha text"
  by (auto simp: sign_artifact_def compute_hash_def sign_above split: if_splits)

definition same_content :: "(string \<Rightarrow> string) \<Rightarrow> string option \<Rightarrow> string option \<Rightarrow> bool" where
  "same_content sha x y \<longleftrightarrow>
     (\<exists>t t'. x = Some t \<and> y = Some t' \<and> compute_hash sha t' = compute_hash sha t)"

definition signable :: "signature \<Rightarrow> manifest_entry list \<Rightarrow> string \<Rightarrow> bool" where
  "signable g es p \<longleftrightarrow> (\<exists>a \<in> set es. rel_path a = p \<and> by_role g \<in> set (required_roles a))"

lemma sign_loop_scope:
  "sign_loop sha loads k gate g wave pid skip es ws signed = Inr (ws', signed') \<Longrightarrow>
   set signed \<subseteq> set signed' \<and> prefix (trail_text (trail ws)) (trail_text (trail ws')) \<and>
   (\<forall>p. art_files ws' p \<noteq> art_files ws p \<longrightarrow>
      p \<in> set signed' \<and> signable g es p \<and> same_content sha (art_files ws p) (art_files ws' p))"
proof (induction es arbitrary: ws signed)
  case Nil
  then show ?case by simp
next
  case (Cons a es)
  have skip: ?case if "sign_loop sha loads k gate g wave pid skip es ws signed = Inr (ws', signed')"
    using Cons.IH [OF that] by (auto simp: signable_def)
  show ?case
  proof (cases "art_files ws (rel_path a)")
    case None
    then show ?thesis using Cons.prems by (intro skip) simp
  next
    case (Some t)
    show ?thesis
    proof (cases "by_role g \<notin> set (required_roles a) \<or> (skip \<and> signers (parse_signers sha t) \<noteq> [])")
      case True
      then show ?thesis using Cons.prems Some by (intro skip) simp
    next
      case False
      with Cons.prems Some obtain t' u row where
          t': "sign_artifact sha (date_of k) gate g t = Inr t'"
        and u: "append_audit_event sha loads False (time_of k)
            (sign_event g gate (rel_path a) (compute_hash sha t') wave pid) (trail ws) = Inr (u, row)"
        and rest: "sign_loop sha loads k gate g wave pid skip es
            (ws\<lparr>art_files := (art_files ws)(rel_path a := Some t'), trail := u\<rparr>) (signed @ [rel_path a]) =
            Inr (ws', signed')"
        by (auto split: sum.splits prod.splits)
      note ih = Cons.IH [OF rest]
      have h: "same_content sha (art_files ws (rel_path a)) (Some t')"
        using sign_hash [OF t'] Some by (simp add: same_content_def)
      have "p \<in> set signed' \<and> signable g (a # es) p \<and> same_content sha (art_files ws p) (art_files ws' p)"
        if p: "art_files ws' p \<noteq> art_files ws p" for p
      proof (cases "p = rel_path a")
        case True
        then have "signable g (a # es) p" using False by (auto simp: signable_def)
        moreover have "p \<in> set signed'" using ih True by auto
        moreover have "same_content sha (art_files ws p) (art_files ws' p)"
        proof (cases "art_files ws' p = Some t'")
          case same: True
          then show ?thesis using h True by simp
        next
          case False
          then have "same_content sha (Some t') (art_files ws' p)"
            using ih [THEN conjunct2, THEN conjunct2, THEN spec, of p] True by simp
          then show ?thesis using h True by (auto simp: same_content_def)
        qed
        ultimately show ?thesis by blast
      next
        case np: False
        then show ?thesis
          using ih [THEN conjunct2, THEN conjunct2, THEN spec, of p] p by (auto simp: signable_def)
      qed
      moreover have "prefix (trail_text (trail ws)) (trail_text (trail ws'))"
        using append_trail [OF u] ih by (auto intro: prefix_order.trans)
      ultimately show ?thesis using ih by auto
    qed
  qed
qed

text \<open>C22: \<open>sign_gate\<close> touches only what the signer may sign: every artifact whose text changes is listed
  as signed and belongs to the gate with the signer's role among its own required roles, its content
  hash stays the same, and the audit trail only grows.\<close>

theorem sign_gate_scope:
  assumes "sign_gate sha loads k root proven gate g wave pid skip ws = Inr (ws', signed)"
  shows "prefix (trail_text (trail ws)) (trail_text (trail ws')) \<and>
         (\<forall>p. art_files ws' p \<noteq> art_files ws p \<longrightarrow>
            p \<in> set signed \<and> signable g (expected_gate_artifacts gate) p \<and>
            same_content sha (art_files ws p) (art_files ws' p))"
proof -
  from assms obtain w where w: "sign_loop sha loads k gate g wave pid skip (expected_gate_artifacts gate) ws [] =
      Inr (w, signed)" "art_files ws' = art_files w" "trail ws' = trail w"
    by (auto simp: sign_gate_def clear_gate_revocation_def Let_def split: if_splits sum.splits)
  from sign_loop_scope [OF w(1)] show ?thesis by (simp add: w(2,3))
qed
theorem sign_gate_scope_witness:
  "case sign_gate demo_hex (\<lambda>_. None) \<lparr>date_of = ''d'', time_of = ''t''\<rparr> ''w'' False ''G2'' demo_signature PNone ''default''
          False (demo_ws\<lparr>trail := None\<rparr>) of
     Inl _ \<Rightarrow> False
   | Inr (ws', signed) \<Rightarrow>
       signed = [''core/strategy/EXPECTATION_MAP.md''] \<and>
       (\<forall>p. art_files ws' p \<noteq> art_files demo_ws p \<longrightarrow>
          signable demo_signature (expected_gate_artifacts ''G2'') p)"
proof -
  let ?k = "\<lparr>date_of = ''d'', time_of = ''t''\<rparr>" and ?ws = "demo_ws\<lparr>trail := None\<rparr>"
  let ?p = "''core/strategy/EXPECTATION_MAP.md''"
  have e: "expected_gate_artifacts ''G2'' = [artifact ?p [''PO'']]" by code_simp
  have f: "art_files ?ws ?p = Some demo_signed_text" by (simp add: demo_ws_def)
  have s: "sign_artifact demo_hex d ''G2'' demo_signature t = Inr (sign_text demo_hex d ''G2'' demo_signature t)" for d t
    by (simp add: sign_artifact_def demo_signature_def VALID_ROLES_def VALID_VERDICTS_def)
  have a: "\<exists>r. append_audit_event demo_hex (\<lambda>_. None) False ''t'' (sign_event demo_signature ''G2'' ?p h PNone ''default'') None = Inr r" for h
  proof -
    have "strip (or_empty (PStr ''sign'')) \<noteq> []" "py_str (PStr ''sign'') \<notin> set RESERVED_AUDIT_ACTIONS"
      by code_simp+
    then show ?thesis by (simp add: append_audit_event_def sign_event_def Let_def)
  qed
  have c: "load_revocations w = []" if "ledger w = None" for w :: gate_ws
    using that by (simp add: load_revocations_def)
  obtain ws' signed where r: "sign_gate demo_hex (\<lambda>_. None) ?k ''w'' False ''G2'' demo_signature PNone ''default'' False ?ws =
      Inr (ws', signed)" and p: "signed = [?p]"
  proof -
    obtain t row where "append_audit_event demo_hex (\<lambda>_. None) False ''t''
        (sign_event demo_signature ''G2'' ?p
          (compute_hash demo_hex (sign_text demo_hex ''d'' ''G2'' demo_signature demo_signed_text)) PNone ''default'') None =
        Inr (t, row)" using a by fastforce
    then have "sign_loop demo_hex (\<lambda>_. None) ?k ''G2'' demo_signature PNone ''default'' False [artifact ?p [''PO'']] ?ws [] =
        Inr (?ws\<lparr>art_files := (art_files ?ws)(?p := Some (sign_text demo_hex ''d'' ''G2'' demo_signature demo_signed_text)),
                 trail := t\<rparr>, [?p])"
      using f s by (simp add: artifact_def) (simp add: demo_signature_def)
    moreover have "clear_gate_revocation ''G2'' w = Inr w" if "ledger w = None" for w
      using c [OF that] by (simp add: clear_gate_revocation_def has_key_def)
    moreover have "by_role demo_signature = ''PO''" "upper ''G2'' = ''G2''" by (simp add: demo_signature_def) code_simp
    ultimately show ?thesis
      using that by (simp add: sign_gate_def e artifact_def VALID_ROLES_def demo_ws_def split: if_splits)
  qed
  from sign_gate_scope [OF r] p show ?thesis by (simp add: r)
qed

subsection \<open>Spellings and later verdicts\<close>

text \<open>
  The strict check normalises the gate for \<open>validate_gate\<close> only: under another spelling of a gate,
  such as \<open>2\<close> for \<open>G2\<close>, neither the roles nor the revocation marker are looked at. The callers pass
  the ids of the manifest.
\<close>

lemma alias_skips_roles:
  assumes "ledger ws = None" and "verify_audit_chain sha loads (trail ws) = []"
    and "validate_gate sha loads ws ''G2'' wave pid = []"
  shows "check_gate_signed_strict sha loads env ws ''2'' wave pid rp = []"
proof -
  have "gate_id ''2'' = ''2''" "normalize_gate ''2'' = normalize_gate ''G2''" "expected_gate_artifacts ''2'' = []"
    by code_simp+
  with assms show ?thesis
    by (simp add: check_gate_signed_strict_def is_gate_revoked_def load_revocations_def has_key_def
        validate_gate_def unauthorized_signature_reasons_def)
qed

text \<open>A signature with a verdict that does not approve leaves the match of an older approval in place.\<close>

lemma rejection_ignored:
  assumes "action_of e \<notin> set REVERSE_ACTIONS" and "upper (get_str e ''verdict'') \<notin> set APPROVED_VERDICTS"
  shows "find_audit_match sha gate wave rel hash pid (es @ [e]) = find_audit_match sha gate wave rel hash pid es"
  using assms by (simp add: find_audit_match_def links_artifact_def)

end
