(* ===== verification/DeliveryLock.thy ===== *)
theory DeliveryLock
  imports Prelude
begin

section \<open>The delivery lock (\<open>product/gate_orchestrator.py\<close>)\<close>

text \<open>
  One delivery at a time may change a workspace. The lock is the file
  \<open>.signalos/locks/delivery.lock\<close>, published by an atomic hard link. The processes of one host
  run the loop of \<open>_acquire_delivery_lock\<close> in steps that interleave: a link, a read, an unlink; a
  process is a number, which is its pid and its owner token. A process that dies leaves its file. The
  rule for a lock of another host, which ages, is the function \<open>lock_is_live\<close>; the clock of the steps stands
  still. A file that does not parse, which the source reads as no lock, takes the same branches as a stale lock
  of another host: it is not live and nobody's.
\<close>

subsection \<open>Live locks\<close>

record lock_info =
  l_run :: string
  l_pid :: nat
  l_host :: string
  l_token :: nat
  l_acquired :: "int option"

definition LOCK_TTL_SECONDS :: int where
  "LOCK_TTL_SECONDS = 6 * 3600"

definition lock_is_live :: "string \<Rightarrow> (nat \<Rightarrow> bool) \<Rightarrow> int \<Rightarrow> lock_info \<Rightarrow> bool" where
  "lock_is_live host alive now info =
     (if l_host info = host then alive (l_pid info)
      else (case l_acquired info of None \<Rightarrow> False | Some t \<Rightarrow> now - t < LOCK_TTL_SECONDS))"

definition same_owner :: "string \<Rightarrow> string \<Rightarrow> nat \<Rightarrow> nat \<Rightarrow> lock_info \<Rightarrow> bool" where
  "same_owner run host pid token info \<longleftrightarrow>
     l_run info = run \<and> l_pid info = pid \<and> l_host info = host \<and> l_token info = token"

subsection \<open>The processes\<close>

text \<open>
  Where a process is: about to link in its n-th attempt, about to read the file that was in its way, about
  to unlink that file, owner, about to unlink its own file, refused, or finished. All of them run on one
  host for runs of one name, so that a lock is told from another by the pid and the owner token.
\<close>

datatype pc = Idle | Linking nat | Reading nat | Unlinking nat | Owner | Releasing | Refused | Finished

record lock_state =
  lock_file :: "lock_info option"
  pc_of :: "nat \<Rightarrow> pc"
  alive_p :: "nat \<Rightarrow> bool"

definition own_info :: "nat \<Rightarrow> lock_info" where
  "own_info p = \<lparr>l_run = ''run'', l_pid = p, l_host = ''host'', l_token = p, l_acquired = None\<rparr>"

definition goto :: "nat \<Rightarrow> pc \<Rightarrow> lock_state \<Rightarrow> lock_state" where
  "goto p c s = s\<lparr>pc_of := (pc_of s)(p := c)\<rparr>"

definition MAX_LOCK_ATTEMPTS :: nat where
  "MAX_LOCK_ATTEMPTS = 3"

definition next_attempt :: "nat \<Rightarrow> pc" where
  "next_attempt n = (if n + 1 < MAX_LOCK_ATTEMPTS then Linking (n + 1) else Refused)"

text \<open>One step of the loop; \<open>None\<close> when the process has nothing to do.\<close>

definition acquire_step :: "nat \<Rightarrow> lock_state \<Rightarrow> lock_state option" where
  "acquire_step p s =
     (case pc_of s p of
        Idle \<Rightarrow> Some (goto p (Linking 0) s)
      | Linking n \<Rightarrow>
          (case lock_file s of
             None \<Rightarrow> Some (goto p Owner (s\<lparr>lock_file := Some (own_info p)\<rparr>))
           | Some _ \<Rightarrow> Some (goto p (Reading n) s))
      | Reading n \<Rightarrow>
          (case lock_file s of
             None \<Rightarrow> Some (goto p (Unlinking n) s)
           | Some info \<Rightarrow>
               if same_owner ''run'' ''host'' p p info then Some (goto p Owner s)
               else if lock_is_live ''host'' (alive_p s) 0 info then Some (goto p Refused s)
               else Some (goto p (Unlinking n) s))
      | Unlinking n \<Rightarrow> Some (goto p (next_attempt n) (s\<lparr>lock_file := None\<rparr>))
      | _ \<Rightarrow> None)"

text \<open>\<open>_release_delivery_lock\<close>: it reads the file and, when it is the process's own, unlinks it.\<close>

definition release_step :: "nat \<Rightarrow> lock_state \<Rightarrow> lock_state option" where
  "release_step p s =
     (case pc_of s p of
        Owner \<Rightarrow>
          Some (goto p
            (case lock_file s of
               None \<Rightarrow> Finished
             | Some info \<Rightarrow> if l_run info = ''run'' \<and> l_token info = p then Releasing else Finished) s)
      | Releasing \<Rightarrow> Some (goto p Finished (s\<lparr>lock_file := None\<rparr>))
      | _ \<Rightarrow> None)"

definition crash_step :: "nat \<Rightarrow> lock_state \<Rightarrow> lock_state option" where
  "crash_step p s =
     (if alive_p s p then Some (goto p Finished (s\<lparr>alive_p := (alive_p s)(p := False)\<rparr>)) else None)"

datatype lock_action = Acquire nat | Release nat | Crash nat

definition lock_act :: "lock_action \<Rightarrow> lock_state \<Rightarrow> lock_state option" where
  "lock_act a s =
     (case a of Acquire p \<Rightarrow> acquire_step p s | Release p \<Rightarrow> release_step p s | Crash p \<Rightarrow> crash_step p s)"

fun lock_run :: "lock_action list \<Rightarrow> lock_state \<Rightarrow> lock_state option" where
  "lock_run [] s = Some s"
| "lock_run (a # as) s = (case lock_act a s of None \<Rightarrow> None | Some t \<Rightarrow> lock_run as t)"

inductive lock_steps :: "lock_action list \<Rightarrow> lock_state \<Rightarrow> lock_state \<Rightarrow> bool" where
  lock_refl: "lock_steps [] s s"
| lock_more: "lock_steps as s t \<Longrightarrow> lock_act a t = Some u \<Longrightarrow> lock_steps (as @ [a]) s u"

inductive_cases lock_steps_snocE: "lock_steps (as @ [a]) s u"

definition init_lock :: lock_state where
  "init_lock = \<lparr>lock_file = None, pc_of = (\<lambda>_. Idle), alive_p = (\<lambda>_. True)\<rparr>"

definition exclusive :: "lock_state \<Rightarrow> bool" where
  "exclusive s \<longleftrightarrow> (\<forall>p q. pc_of s p = Owner \<longrightarrow> pc_of s q = Owner \<longrightarrow> p = q)"

subsection \<open>Exclusion\<close>

lemma lock_run_steps: "lock_run (as @ bs) s = (case lock_run as s of None \<Rightarrow> None | Some t \<Rightarrow> lock_run bs t)"
  by (induction as arbitrary: s) (auto split: option.splits)

lemma lock_run_reaches: "lock_run as s = Some t \<Longrightarrow> lock_steps as s t"
proof (induction as arbitrary: t rule: rev_induct)
  case Nil
  then show ?case by (simp add: lock_steps.lock_refl)
next
  case (snoc a as)
  then show ?case by (auto simp: lock_run_steps split: option.splits intro: lock_steps.lock_more)
qed

lemma lock_steps_run: "lock_steps as s t \<longleftrightarrow> lock_run as s = Some t"
proof
  show "lock_steps as s t \<Longrightarrow> lock_run as s = Some t"
    by (induction rule: lock_steps.induct) (auto simp: lock_run_steps)
qed (rule lock_run_reaches)

text \<open>A start: whatever file an earlier process has left, live or stale or none, and any set of processes
  that are dead already; the others have not begun.\<close>

definition start_lock :: "lock_info option \<Rightarrow> (nat \<Rightarrow> bool) \<Rightarrow> lock_state" where
  "start_lock f dead =
     \<lparr>lock_file = f, pc_of = (\<lambda>p. if dead p then Finished else Idle), alive_p = (\<lambda>p. \<not> dead p)\<rparr>"

abbreviation owns :: "nat \<Rightarrow> lock_info \<Rightarrow> bool" where
  "owns p info \<equiv> same_owner ''run'' ''host'' p p info"

abbreviation holds_lock :: "lock_state \<Rightarrow> nat \<Rightarrow> bool" where
  "holds_lock s p \<equiv> pc_of s p = Owner \<or> pc_of s p = Releasing"

text \<open>The processes whose unlink step a run takes, and an unlink step that hits the lock of an owner.\<close>

fun reclaimers :: "lock_action list \<Rightarrow> lock_state \<Rightarrow> nat list" where
  "reclaimers [] s = []"
| "reclaimers (a # as) s =
     (case a of
        Acquire p \<Rightarrow> (case pc_of s p of Unlinking n \<Rightarrow> [p] | _ \<Rightarrow> [])
      | _ \<Rightarrow> []) @
     (case lock_act a s of None \<Rightarrow> [] | Some t \<Rightarrow> reclaimers as t)"

definition robs :: "nat \<Rightarrow> nat \<Rightarrow> lock_state \<Rightarrow> bool" where
  "robs p q s \<longleftrightarrow> p \<noteq> q \<and> (case pc_of s p of Unlinking n \<Rightarrow> True | _ \<Rightarrow> False) \<and> holds_lock s q \<and>
     (case lock_file s of None \<Rightarrow> False | Some info \<Rightarrow> owns q info)"

text \<open>The file names whoever holds the lock.\<close>

definition lock_inv :: "lock_state \<Rightarrow> bool" where
  "lock_inv s \<longleftrightarrow> (\<forall>p. holds_lock s p \<longrightarrow> (\<exists>info. lock_file s = Some info \<and> owns p info))"

lemma owns_unique: "owns p info \<Longrightarrow> owns q info \<Longrightarrow> p = q"
  by (simp add: same_owner_def)

lemma owns_own_info [simp]: "owns p (own_info p)"
  by (simp add: same_owner_def own_info_def)

lemma lock_inv_exclusive: "lock_inv s \<Longrightarrow> exclusive s"
  unfolding lock_inv_def exclusive_def by (metis option.inject owns_unique)

lemma lock_inv_start: "lock_inv (start_lock f dead)"
  by (simp add: lock_inv_def start_lock_def)

lemma lock_inv_D: "lock_inv s \<Longrightarrow> holds_lock s p \<Longrightarrow> \<exists>info. lock_file s = Some info \<and> owns p info"
  unfolding lock_inv_def by blast

lemma lock_act_inv:
  assumes inv: "lock_inv s" and act: "lock_act a s = Some t"
    and safe: "\<And>p q. a = Acquire p \<Longrightarrow> \<not> robs p q s"
  shows "lock_inv t"
proof (cases a)
  case (Acquire p)
  show ?thesis
  proof (cases "pc_of s p")
    case (Unlinking n)
    have "\<not> holds_lock s q" if "q \<noteq> p" for q
      using safe [OF Acquire, of q] that Unlinking lock_inv_D [OF inv, of q] by (auto simp: robs_def)
    with Acquire act Unlinking show ?thesis
      by (auto simp: lock_act_def acquire_step_def goto_def lock_inv_def next_attempt_def split: if_splits)
  qed (use Acquire act inv in \<open>auto simp: lock_act_def acquire_step_def goto_def lock_inv_def
      split: if_splits option.splits\<close>)
next
  case (Release p)
  show ?thesis
  proof (cases "pc_of s p")
    case Releasing
    have "\<not> holds_lock s q" if "q \<noteq> p" for q
      using lock_inv_D [OF inv, of p] lock_inv_D [OF inv, of q] owns_unique Releasing that by auto
    with Release act Releasing show ?thesis
      by (auto simp: lock_act_def release_step_def goto_def lock_inv_def split: if_splits)
  next
    case Owner
    with Release act inv lock_inv_D [OF inv, of p] show ?thesis
      by (auto simp: lock_act_def release_step_def goto_def lock_inv_def same_owner_def split: if_splits)
  qed (use Release act in \<open>auto simp: lock_act_def release_step_def\<close>)
next
  case (Crash p)
  with act inv show ?thesis
    by (auto simp: lock_act_def crash_step_def goto_def lock_inv_def split: if_splits)
qed

lemma lock_run_inv:
  assumes "lock_inv s" and "lock_run as s = Some t"
  shows "lock_inv t \<or> (\<exists>xs p ys u q. as = xs @ Acquire p # ys \<and> lock_run xs s = Some u \<and> robs p q u)"
  using assms
proof (induction as arbitrary: s)
  case Nil
  then show ?case by simp
next
  case (Cons a as)
  then obtain v where v: "lock_act a s = Some v" "lock_run as v = Some t" by (auto split: option.splits)
  show ?case
  proof (cases "\<exists>p q. a = Acquire p \<and> robs p q s")
    case True
    then obtain p q where "a = Acquire p" and "robs p q s" by blast
    then have "a # as = [] @ Acquire p # as \<and> lock_run [] s = Some s \<and> robs p q s" by simp
    then show ?thesis by blast
  next
    case False
    then have "lock_inv v" using lock_act_inv [OF Cons.prems(1) v(1)] by blast
    from Cons.IH [OF this v(2)] show ?thesis
    proof
      assume "\<exists>xs p ys u q. as = xs @ Acquire p # ys \<and> lock_run xs v = Some u \<and> robs p q u"
      then obtain xs p ys u q where "as = xs @ Acquire p # ys" "lock_run xs v = Some u" "robs p q u" by blast
      with v(1) have "a # as = (a # xs) @ Acquire p # ys \<and> lock_run (a # xs) s = Some u \<and> robs p q u" by simp
      then show ?thesis by blast
    qed simp
  qed
qed

text \<open>One reclaimer: the file it is about to unlink is the dead one it has read.\<close>

definition reclaim_inv :: "nat \<Rightarrow> lock_state \<Rightarrow> bool" where
  "reclaim_inv r s \<longleftrightarrow> lock_inv s \<and> (\<forall>p. alive_p s p \<or> pc_of s p = Finished) \<and>
     (\<forall>n. pc_of s r = Reading n \<longrightarrow> lock_file s \<noteq> None) \<and>
     (\<forall>n. pc_of s r = Unlinking n \<longrightarrow>
        (\<exists>info. lock_file s = Some info \<and> \<not> lock_is_live ''host'' (alive_p s) 0 info))"

lemma reclaim_inv_no_robbery:
  assumes "reclaim_inv r s"
  shows "\<not> robs r q s"
proof
  assume rob: "robs r q s"
  then obtain info where info: "lock_file s = Some info" "owns q info" "holds_lock s q"
    by (auto simp: robs_def split: option.splits)
  from rob obtain n where "pc_of s r = Unlinking n" by (auto simp: robs_def split: pc.splits)
  with assms info have "\<not> lock_is_live ''host'' (alive_p s) 0 info" by (auto simp: reclaim_inv_def)
  with info(2) have "\<not> alive_p s q" by (simp add: lock_is_live_def same_owner_def)
  with assms info(3) show False by (auto simp: reclaim_inv_def)
qed

lemma reclaim_inv_step:
  assumes inv: "reclaim_inv r s" and act: "lock_act a s = Some t"
    and no_release: "\<And>p. a \<noteq> Release p"
    and only: "\<And>p n. a = Acquire p \<Longrightarrow> pc_of s p = Unlinking n \<Longrightarrow> p = r"
  shows "reclaim_inv r t"
proof -
  have "\<not> robs p q s" if "a = Acquire p" for p q
    using only [OF that] reclaim_inv_no_robbery [OF inv, of q]
    by (auto simp: robs_def split: pc.splits)
  then have linv: "lock_inv t" using lock_act_inv [of s a t] inv act by (auto simp: reclaim_inv_def)
  show ?thesis
  proof (cases a)
    case (Acquire p)
    show ?thesis
    proof (cases "pc_of s p")
      case (Unlinking n)
      with only Acquire have "p = r" by simp
      with linv inv Acquire act Unlinking show ?thesis
        by (auto simp: reclaim_inv_def lock_act_def acquire_step_def goto_def next_attempt_def split: if_splits)
    qed (use linv inv Acquire act in \<open>auto simp: reclaim_inv_def lock_act_def acquire_step_def goto_def
        split: if_splits option.splits\<close>)
  next
    case (Crash p)
    with act have t: "lock_file t = lock_file s" "alive_p t = (alive_p s)(p := False)"
      "pc_of t = (pc_of s)(p := Finished)"
      by (auto simp: lock_act_def crash_step_def goto_def split: if_splits)
    have "lock_is_live ''host'' (alive_p s) 0 info" if "lock_is_live ''host'' (alive_p t) 0 info" for info
      using that by (auto simp: lock_is_live_def t split: if_splits)
    with linv inv show ?thesis unfolding reclaim_inv_def t by (auto split: if_splits)
  qed (use no_release in simp)
qed

lemma reclaim_inv_run:
  assumes "reclaim_inv r s" and "lock_run as s = Some t" and "\<forall>a \<in> set as. \<forall>p. a \<noteq> Release p"
    and "set (reclaimers as s) \<subseteq> {r}"
  shows "reclaim_inv r t"
  using assms
proof (induction as arbitrary: s)
  case Nil
  then show ?case by simp
next
  case (Cons a as)
  then obtain v where v: "lock_act a s = Some v" "lock_run as v = Some t" by (auto split: option.splits)
  from Cons.prems(4) v(1) have "p = r" if "a = Acquire p" "pc_of s p = Unlinking n" for p n
    using that by auto
  then have "reclaim_inv r v" using reclaim_inv_step [OF Cons.prems(1) v(1)] Cons.prems(3) by auto
  with Cons v show ?case by simp
qed

text \<open>C37: the delivery lock excludes, up to the unlink step. Whatever file an earlier process left behind, and
  however the steps of any number of contenders, releases and crashes interleave, two processes own the
  delivery at once only if on the way a contender unlinked the file of a process that owned it (which it had
  judged by an earlier read). Without releases, and as long as one contender only reaches the unlink step,
  that does not happen: at most one process owns the delivery.\<close>

theorem lock_exclusive:
  assumes "lock_steps as (start_lock f dead) s"
  shows "(exclusive s \<or>
      (\<exists>xs p ys t q. as = xs @ Acquire p # ys \<and> lock_steps xs (start_lock f dead) t \<and> robs p q t)) \<and>
    ((\<forall>a \<in> set as. \<forall>p. a \<noteq> Release p) \<longrightarrow> set (reclaimers as (start_lock f dead)) \<subseteq> {r} \<longrightarrow> exclusive s)"
proof (intro conjI impI)
  note run = assms [unfolded lock_steps_run]
  from lock_run_inv [OF lock_inv_start run] lock_inv_exclusive
  show "exclusive s \<or>
      (\<exists>xs p ys t q. as = xs @ Acquire p # ys \<and> lock_steps xs (start_lock f dead) t \<and> robs p q t)"
    unfolding lock_steps_run by blast
  have "reclaim_inv r (start_lock f dead)" by (simp add: reclaim_inv_def lock_inv_start) (simp add: start_lock_def)
  then show "exclusive s" if "\<forall>a \<in> set as. \<forall>p. a \<noteq> Release p" "set (reclaimers as (start_lock f dead)) \<subseteq> {r}"
    using reclaim_inv_run [OF _ run that] lock_inv_exclusive by (simp add: reclaim_inv_def)
qed

theorem lock_exclusive_witness:
  "\<exists>s. lock_run [Acquire 1, Acquire 1, Acquire 1, Acquire 1, Acquire 2, Acquire 1, Acquire 2, Acquire 2]
         (start_lock (Some (own_info 9)) (\<lambda>p. p = 9)) = Some s \<and>
       exclusive s \<and> pc_of s 1 = Owner \<and> pc_of s 2 = Refused"
proof -
  let ?as = "[Acquire 1, Acquire 1, Acquire 1, Acquire 1, Acquire 2, Acquire 1, Acquire 2, Acquire 2]"
  let ?s0 = "start_lock (Some (own_info 9)) (\<lambda>p. p = 9)"
  have "case lock_run ?as ?s0 of None \<Rightarrow> False | Some s \<Rightarrow> pc_of s 1 = Owner \<and> pc_of s 2 = Refused"
    by code_simp
  then obtain s where s: "lock_run ?as ?s0 = Some s" "pc_of s 1 = Owner" "pc_of s 2 = Refused"
    by (auto split: option.splits)
  have "list_all (\<lambda>p. p = 1) (reclaimers ?as ?s0)" by code_simp
  then have one: "set (reclaimers ?as ?s0) \<subseteq> {1}" by (simp only: list_all_iff) blast
  have "\<forall>a \<in> set ?as. \<forall>p. a \<noteq> Release p" by simp
  with one lock_exclusive [OF lock_run_reaches [OF s(1)], of 1] have "exclusive s" by blast
  with s show ?thesis by blast
qed

text \<open>A crash is enough to break the exclusion. Two contenders read the file that a dead process left; the
  first unlinks it, links its own and owns the delivery; the second then unlinks that file and links too.\<close>

theorem crash_breaks_exclusion:
  "\<exists>as s. lock_steps as (start_lock (Some (own_info 9)) (\<lambda>p. p = 9)) s \<and> (\<forall>a \<in> set as. \<exists>p. a = Acquire p) \<and>
     pc_of s 1 = Owner \<and> pc_of s 2 = Owner \<and> \<not> exclusive s"
proof -
  let ?as = "[Acquire 1, Acquire 2, Acquire 1, Acquire 2, Acquire 1, Acquire 2, Acquire 1, Acquire 1,
              Acquire 2, Acquire 2]"
  let ?s0 = "start_lock (Some (own_info 9)) (\<lambda>p. p = 9)"
  have "case lock_run ?as ?s0 of None \<Rightarrow> False | Some s \<Rightarrow> pc_of s 1 = Owner \<and> pc_of s 2 = Owner"
    by code_simp
  then obtain s where s: "lock_run ?as ?s0 = Some s" "pc_of s 1 = Owner" "pc_of s 2 = Owner"
    by (auto split: option.splits)
  moreover have "(1 :: nat) \<noteq> 2" by simp
  ultimately have "\<not> exclusive s" unfolding exclusive_def by blast
  with s show ?thesis
    by (intro exI [of _ ?as] exI [of _ s] conjI lock_run_reaches) simp_all
qed

text \<open>An ordinary release is enough to break the exclusion. A contender that found the file, and reads
  it just after the owner removed it, takes the missing file for a stale one and unlinks whatever is there
  by then: the lock of a third process. Both then own the workspace, and nobody has died.\<close>

theorem release_breaks_exclusion:
  "\<exists>as s. lock_steps as init_lock s \<and> (\<forall>a \<in> set as. \<forall>p. a \<noteq> Crash p) \<and>
     pc_of s 2 = Owner \<and> pc_of s 3 = Owner \<and> \<not> exclusive s"
proof -
  let ?as = "[Acquire 1, Acquire 1, Acquire 2, Acquire 2, Release 1, Release 1, Acquire 2, Acquire 3, Acquire 3,
              Acquire 2, Acquire 2]"
  have "case lock_run ?as init_lock of None \<Rightarrow> False | Some s \<Rightarrow> pc_of s 2 = Owner \<and> pc_of s 3 = Owner"
    by code_simp
  then obtain s where s: "lock_run ?as init_lock = Some s" "pc_of s 2 = Owner" "pc_of s 3 = Owner"
    by (auto split: option.splits)
  then have "\<not> exclusive s" unfolding exclusive_def by (metis Suc_eq_numeral numeral_eq_iff num.distinct(5))
  with s show ?thesis
    by (intro exI [of _ ?as] exI [of _ s] conjI lock_run_reaches) simp_all
qed

text \<open>The code's header comment and the docstring of the liveness test give a lock of this host a time to live;
  the test does not.\<close>

lemma same_host_ignores_ttl:
  "l_host info = host \<Longrightarrow> alive (l_pid info) \<Longrightarrow> lock_is_live host alive now info"
  by (simp add: lock_is_live_def)

lemma other_host_expires:
  "l_host info \<noteq> host \<Longrightarrow> l_acquired info = Some t \<Longrightarrow> t + LOCK_TTL_SECONDS \<le> now \<Longrightarrow> \<not> lock_is_live host alive now info"
  by (simp add: lock_is_live_def)

text \<open>The loop of one process ends after three attempts, whatever the others do.\<close>

fun pc_rank :: "pc \<Rightarrow> nat" where
  "pc_rank Idle = 10"
| "pc_rank (Linking n) = 3 * (3 - n)"
| "pc_rank (Reading n) = 3 * (3 - n) - 1"
| "pc_rank (Unlinking n) = 3 * (3 - n) - 2"
| "pc_rank _ = 0"

definition attempt_ok :: "pc \<Rightarrow> bool" where
  "attempt_ok c = (case c of Linking n \<Rightarrow> n < 3 | Reading n \<Rightarrow> n < 3 | Unlinking n \<Rightarrow> n < 3 | _ \<Rightarrow> True)"

lemma acquire_decreases:
  assumes "acquire_step p s = Some t" and "attempt_ok (pc_of s p)"
  shows "pc_rank (pc_of t p) < pc_rank (pc_of s p)" and "attempt_ok (pc_of t p)"
  using assms
  by (auto simp: acquire_step_def goto_def next_attempt_def MAX_LOCK_ATTEMPTS_def attempt_ok_def
      split: pc.splits option.splits if_splits)

text \<open>A process that is not disturbed settles in five steps.\<close>

definition held_by_live :: "nat \<Rightarrow> lock_state \<Rightarrow> bool" where
  "held_by_live p s \<longleftrightarrow>
     (case lock_file s of
        None \<Rightarrow> False
      | Some info \<Rightarrow> \<not> same_owner ''run'' ''host'' p p info \<and> lock_is_live ''host'' (alive_p s) 0 info)"

text \<open>C38: a crash does not lock the delivery for ever: a process that starts to acquire, and is not disturbed, owns
  the delivery after at most five steps, with its own lock file in place, unless the file belongs to another
  process that is alive; then it is refused and the file stays.\<close>

theorem acquire_settles:
  assumes "pc_of s p = Idle"
  shows "\<exists>n \<le> 5. \<exists>t. lock_run (replicate n (Acquire p)) s = Some t \<and>
    (if held_by_live p s then pc_of t p = Refused \<and> lock_file t = lock_file s
     else pc_of t p = Owner \<and> (\<exists>info. lock_file t = Some info \<and> same_owner ''run'' ''host'' p p info))"
proof -
  have own: "same_owner ''run'' ''host'' p p (own_info p)" by (simp add: same_owner_def own_info_def)
  note steps = lock_act_def acquire_step_def goto_def next_attempt_def MAX_LOCK_ATTEMPTS_def held_by_live_def
    numeral_eq_Suc
  consider (free) "lock_file s = None"
    | (mine) info where "lock_file s = Some info" "same_owner ''run'' ''host'' p p info"
    | (live) info where "lock_file s = Some info" "\<not> same_owner ''run'' ''host'' p p info" "lock_is_live ''host'' (alive_p s) 0 info"
    | (stale) info where "lock_file s = Some info" "\<not> same_owner ''run'' ''host'' p p info" "\<not> lock_is_live ''host'' (alive_p s) 0 info"
    by fastforce
  then show ?thesis
  proof cases
    case free
    with assms own show ?thesis by (intro exI [of _ 2]) (simp add: steps)
  next
    case mine
    with assms show ?thesis by (intro exI [of _ 3]) (simp add: steps)
  next
    case live
    with assms show ?thesis by (intro exI [of _ 3]) (simp add: steps)
  next
    case stale
    with assms own show ?thesis by (intro exI [of _ 5]) (simp add: steps)
  qed
qed

theorem acquire_settles_witness:
  "\<exists>s. lock_run [Acquire 1, Acquire 1, Crash 1] init_lock = Some s \<and>
     (\<exists>n \<le> 5. \<exists>t. lock_run (replicate n (Acquire 2)) s = Some t \<and> pc_of t 2 = Owner)"
proof -
  have "case lock_run [Acquire 1, Acquire 1, Crash 1] init_lock of None \<Rightarrow> False
     | Some s \<Rightarrow> pc_of s 2 = Idle \<and> \<not> held_by_live 2 s"
    by code_simp
  then obtain s where s: "lock_run [Acquire 1, Acquire 1, Crash 1] init_lock = Some s" "pc_of s 2 = Idle" "\<not> held_by_live 2 s"
    by (auto split: option.splits)
  from acquire_settles [OF s(2)] s(3) have "\<exists>n \<le> 5. \<exists>t. lock_run (replicate n (Acquire 2)) s = Some t \<and> pc_of t 2 = Owner" by auto
  with s(1) show ?thesis by blast
qed

end
