(* ===== verification/ReleaseTree.thy ===== *)
theory ReleaseTree
  imports AuditChain
begin

section \<open>Release trees (\<open>product/release_tree.py\<close>)\<close>

text \<open>
  Which files of a workspace a release ships, with the digest of each. A workspace maps
  slash-separated paths to what lies there; what Git lists is an argument: no repository, a
  listing that fails, or the tracked and the addable paths as Git prints them. Paths that a
  Windows junction redirects and the retries of the Git calls are not modelled.
  \<open>None\<close> stands for a raised \<open>ReleaseTreeError\<close>.
\<close>

subsection \<open>Paths\<close>

text \<open>\<open>PurePosixPath(value).parts\<close> of a relative path.\<close>

definition path_parts :: "string \<Rightarrow> string list" where
  "path_parts p = filter (\<lambda>w. w \<noteq> [] \<and> w \<noteq> ''.'') (split_on (CHR ''/'') p)"

definition path_text :: "string list \<Rightarrow> string" where
  "path_text ws = (if ws = [] then ''.'' else join ''/'' ws)"

definition normalise_rel :: "string \<Rightarrow> string option" where
  "normalise_rel raw =
     (let v = lstrip_by (\<lambda>c. c = CHR ''/'') (replace_char (CHR 0x5C) (CHR ''/'') raw) in
      if v = [] \<or> ''..'' \<in> set (path_parts v) then None else Some (path_text (path_parts v)))"

definition UNTRACKED_EXCLUDED_DIRS :: "string list" where
  "UNTRACKED_EXCLUDED_DIRS =
     [''.git'', ''.signalos'', ''node_modules'', ''vendor'', ''.venv'', ''venv'', ''dist'', ''build'',
      ''coverage'', ''target'', ''.next'', ''.nuxt'', ''out'', ''__pycache__'', ''.pytest_cache'',
      ''.mypy_cache'', ''.ruff_cache'', ''.tox'', ''.cache'', ''.turbo'', ''.vite'', ''test-results'',
      ''playwright-report'', ''.parcel-cache'', ''.svelte-kit'', ''.astro'', ''.vitest'']"

text \<open>The paths below are normalised already.\<close>

definition governance_path :: "string \<Rightarrow> bool" where
  "governance_path rel =
     (case path_parts rel of [] \<Rightarrow> True | p # _ \<Rightarrow> lower p \<in> set [''.git'', ''.signalos'', ''core''])"

definition release_control_path :: "string \<Rightarrow> bool" where
  "release_control_path rel = (case path_parts rel of [] \<Rightarrow> False | p # _ \<Rightarrow> lower p = ''core'')"

definition untracked_payload :: "string \<Rightarrow> bool" where
  "untracked_payload rel \<longleftrightarrow>
     \<not> governance_path rel \<and> list_all (\<lambda>p. lower p \<notin> set UNTRACKED_EXCLUDED_DIRS) (path_parts rel)"

subsection \<open>The workspace\<close>

datatype entry = Regular string | Link string | Directory | Unreadable

type_synonym workspace = "(string \<times> entry) list"

datatype git_view = NoGit | GitFails | GitLists "string list" "string list"

type_synonym tree = "(string \<times> string) list"

text \<open>The directories above a path.\<close>

definition ancestors :: "string \<Rightarrow> string list" where
  "ancestors rel = map path_text (filter (\<lambda>q. q \<noteq> []) (butlast (prefixes (path_parts rel))))"

definition behind_link :: "workspace \<Rightarrow> string \<Rightarrow> bool" where
  "behind_link ws rel \<longleftrightarrow>
     list_ex (\<lambda>d. case dict_get ws d of Some (Link _) \<Rightarrow> True | _ \<Rightarrow> False) (ancestors rel)"

definition workspace_path :: "workspace \<Rightarrow> bool \<Rightarrow> string \<Rightarrow> string option" where
  "workspace_path ws leaf_link rel =
     (case normalise_rel rel of
        None \<Rightarrow> None
      | Some p \<Rightarrow>
          if behind_link ws p then None
          else (case dict_get ws p of Some (Link _) \<Rightarrow> if leaf_link then Some p else None | _ \<Rightarrow> Some p))"

definition entry_payload :: "entry \<Rightarrow> string option" where
  "entry_payload e =
     (case e of
        Link t \<Rightarrow> Some (''symlink'' @ CHR 0x00 # t)
      | Regular bytes \<Rightarrow> Some bytes
      | _ \<Rightarrow> None)"

definition hash_workspace_path ::
  "(string \<Rightarrow> string) \<Rightarrow> workspace \<Rightarrow> bool \<Rightarrow> string \<Rightarrow> string option" where
  "hash_workspace_path sha ws leaf_link rel =
     (case workspace_path ws leaf_link rel of
        None \<Rightarrow> None
      | Some p \<Rightarrow> (case dict_get ws p of None \<Rightarrow> None | Some e \<Rightarrow> map_option sha (entry_payload e)))"

text \<open>The loop over the sorted paths, for payload (a final link is bound by its text) and for control files.\<close>

fun hash_paths :: "(string \<Rightarrow> string) \<Rightarrow> workspace \<Rightarrow> bool \<Rightarrow> string list \<Rightarrow> tree option" where
  "hash_paths sha ws leaf_link [] = Some []"
| "hash_paths sha ws leaf_link (rel # rels) =
     (case workspace_path ws leaf_link rel of
        None \<Rightarrow> None
      | Some p \<Rightarrow>
          if dict_get ws p = None then hash_paths sha ws leaf_link rels
          else
            (case hash_workspace_path sha ws leaf_link rel of
               None \<Rightarrow> None
             | Some h \<Rightarrow> map_option ((#) (rel, h)) (hash_paths sha ws leaf_link rels)))"

fun normalise_all :: "string list \<Rightarrow> string list option" where
  "normalise_all [] = Some []"
| "normalise_all (r # rs) =
     (case normalise_rel r of None \<Rightarrow> None | Some p \<Rightarrow> map_option ((#) p) (normalise_all rs))"

text \<open>What Git would ship; a listing that fails or names an unsafe path leaves the choice to the walk.\<close>

definition git_selected :: "git_view \<Rightarrow> string list option" where
  "git_selected g =
     (case g of
        GitLists tracked others \<Rightarrow>
          (case (normalise_all tracked, normalise_all (tracked @ others)) of
             (Some t, Some c) \<Rightarrow>
               Some (filter (\<lambda>rel. \<not> governance_path rel \<and> (rel \<in> set t \<or> untracked_payload rel)) c)
           | _ \<Rightarrow> None)
      | _ \<Rightarrow> None)"

definition walk_selected :: "workspace \<Rightarrow> string list" where
  "walk_selected ws =
     map fst (filter (\<lambda>(rel, e). e \<noteq> Directory \<and> untracked_payload rel \<and> \<not> behind_link ws rel) ws)"

definition sorted_set :: "string list \<Rightarrow> string list" where
  "sorted_set xs = sort (remdups xs)"

definition release_paths :: "git_view \<Rightarrow> workspace \<Rightarrow> string list" where
  "release_paths g ws =
     sorted_set (case git_selected g of Some sel \<Rightarrow> sel | None \<Rightarrow> walk_selected ws)"

definition workspace_release_tree :: "(string \<Rightarrow> string) \<Rightarrow> git_view \<Rightarrow> workspace \<Rightarrow> tree option" where
  "workspace_release_tree sha g ws = hash_paths sha ws True (release_paths g ws)"

definition git_control :: "git_view \<Rightarrow> string list option" where
  "git_control g =
     (case g of
        GitLists tracked others \<Rightarrow> map_option (filter release_control_path) (normalise_all (tracked @ others))
      | _ \<Rightarrow> None)"

definition workspace_control_tree ::
  "(string \<Rightarrow> string) \<Rightarrow> git_view \<Rightarrow> workspace \<Rightarrow> string list option \<Rightarrow> tree option" where
  "workspace_control_tree sha g ws allowed =
     (let walk = map fst (filter (\<lambda>(rel, e). e \<noteq> Directory \<and> startswith rel ''core/'' \<and> \<not> behind_link ws rel) ws) in
      case allowed of
        Some paths \<Rightarrow>
          (case normalise_all paths of None \<Rightarrow> None | Some ps \<Rightarrow> hash_paths sha ws False (sorted_set ps))
      | None \<Rightarrow>
          hash_paths sha ws False
            (sorted_set (case git_control g of Some ps \<Rightarrow> ps | None \<Rightarrow> walk)))"

text \<open>\<open>json.dumps(tree, sort_keys=True, separators=(",", ":"))\<close>, hashed.\<close>

definition tree_digest :: "(string \<Rightarrow> string) \<Rightarrow> tree \<Rightarrow> string" where
  "tree_digest sha t =
     sha (json_dump '','' '':'' (sort_keys (PDict (map (\<lambda>(k, v). (k, PStr v)) t))))"

subsection \<open>Trees of a commit and of the index\<close>

definition tab :: char where "tab = CHR 0x09"
definition nul :: char where "nul = CHR 0x00"

text \<open>\<open>record.split(sep, 1)\<close>: the text before and after the first separator.\<close>

fun split_once :: "char \<Rightarrow> string \<Rightarrow> (string \<times> string) option" where
  "split_once sep [] = None"
| "split_once sep (c # cs) =
     (if c = sep then Some ([], cs) else map_option (apfst ((#) c)) (split_once sep cs))"

text \<open>One record of \<open>git ls-tree -rz\<close>: mode, type, object id and path. \<open>None\<close> is a malformed record.\<close>

definition ls_tree_record :: "string \<Rightarrow> (string \<times> string \<times> string \<times> string) option" where
  "ls_tree_record r =
     (case split_once tab r of
        None \<Rightarrow> None
      | Some (meta, raw) \<Rightarrow>
          (case (split_once (CHR '' '') meta, normalise_rel raw) of
             (Some (mode, rest), Some rel) \<Rightarrow>
               (case split_once (CHR '' '') rest of
                  Some (ty, oid) \<Rightarrow> Some (mode, ty, oid, rel)
                | None \<Rightarrow> None)
           | _ \<Rightarrow> None))"

fun ls_tree_entries ::
  "(string \<Rightarrow> bool) \<Rightarrow> string list \<Rightarrow> (string \<times> string \<times> string) list option" where
  "ls_tree_entries keep [] = Some []"
| "ls_tree_entries keep (r # rs) =
     (if r = [] then ls_tree_entries keep rs
      else
        (case ls_tree_record r of
           None \<Rightarrow> None
         | Some (mode, ty, oid, rel) \<Rightarrow>
             if \<not> keep rel then ls_tree_entries keep rs
             else if ty \<notin> set [''blob'', ''commit''] then None
             else map_option ((#) (rel, mode, oid)) (ls_tree_entries keep rs)))"

text \<open>\<open>_blob_hashes\<close>: the content of each object comes from \<open>git cat-file\<close>, the argument \<open>blob\<close>.\<close>

fun blob_hashes ::
  "(string \<Rightarrow> string) \<Rightarrow> (string \<Rightarrow> string option) \<Rightarrow> (string \<times> string \<times> string) list \<Rightarrow> tree \<Rightarrow> tree option" where
  "blob_hashes sha blob [] t = Some t"
| "blob_hashes sha blob ((rel, mode, oid) # es) t =
     (case blob oid of
        None \<Rightarrow> None
      | Some payload \<Rightarrow>
          if mode = ''160000'' then None
          else
            blob_hashes sha blob es
              (dict_set t rel (sha (if mode = ''120000'' then ''symlink'' @ nul # payload else payload))))"

definition commit_release_tree ::
  "(string \<Rightarrow> string) \<Rightarrow> (string \<Rightarrow> string option) \<Rightarrow> string option \<Rightarrow> tree option" where
  "commit_release_tree sha blob listing =
     (case listing of
        None \<Rightarrow> None
      | Some out \<Rightarrow>
          (case ls_tree_entries (\<lambda>rel. \<not> governance_path rel) (split_on nul out) of
             None \<Rightarrow> None
           | Some es \<Rightarrow> blob_hashes sha blob es []))"

definition commit_control_tree ::
  "(string \<Rightarrow> string) \<Rightarrow> (string \<Rightarrow> string option) \<Rightarrow> string option \<Rightarrow> string list option \<Rightarrow> tree option" where
  "commit_control_tree sha blob listing allowed =
     (case (listing, case allowed of None \<Rightarrow> Some [] | Some ps \<Rightarrow> normalise_all ps) of
        (Some out, Some ps) \<Rightarrow>
          (case ls_tree_entries (\<lambda>rel. if allowed = None then release_control_path rel else rel \<in> set ps)
                  (split_on nul out) of
             None \<Rightarrow> None
           | Some es \<Rightarrow> blob_hashes sha blob es [])
      | _ \<Rightarrow> None)"

text \<open>The index: a record of \<open>git ls-files -s -z\<close> has a stage in place of the type.\<close>

definition index_record :: "string \<Rightarrow> (string \<times> string \<times> string \<times> string) option" where
  "index_record r =
     (case split_once tab r of
        None \<Rightarrow> None
      | Some (meta, raw) \<Rightarrow>
          (case (split_once (CHR '' '') meta, normalise_rel raw) of
             (Some (mode, rest), Some rel) \<Rightarrow>
               (case split_once (CHR '' '') rest of
                  Some (oid, stage) \<Rightarrow> Some (mode, oid, stage, rel)
                | None \<Rightarrow> None)
           | _ \<Rightarrow> None))"

fun index_entries ::
  "(string \<Rightarrow> bool) \<Rightarrow> string list \<Rightarrow> string list \<Rightarrow> (string \<times> string \<times> string) list option" where
  "index_entries keep seen [] = Some []"
| "index_entries keep seen (r # rs) =
     (if r = [] then index_entries keep seen rs
      else
        (case index_record r of
           None \<Rightarrow> None
         | Some (mode, oid, stage, rel) \<Rightarrow>
             if \<not> keep rel then index_entries keep seen rs
             else if stage \<noteq> ''0'' \<or> rel \<in> set seen then None
             else map_option ((#) (rel, mode, oid)) (index_entries keep (rel # seen) rs)))"

definition index_release_tree ::
  "(string \<Rightarrow> string) \<Rightarrow> (string \<Rightarrow> string option) \<Rightarrow> string option \<Rightarrow> tree option" where
  "index_release_tree sha blob listing =
     (case listing of
        None \<Rightarrow> None
      | Some out \<Rightarrow>
          (case index_entries (\<lambda>rel. \<not> governance_path rel) [] (split_on nul out) of
             None \<Rightarrow> None
           | Some es \<Rightarrow> blob_hashes sha blob es []))"

definition index_control_tree ::
  "(string \<Rightarrow> string) \<Rightarrow> (string \<Rightarrow> string option) \<Rightarrow> string option \<Rightarrow> string list option \<Rightarrow> tree option" where
  "index_control_tree sha blob listing allowed =
     (case (listing, case allowed of None \<Rightarrow> Some [] | Some ps \<Rightarrow> normalise_all ps) of
        (Some out, Some ps) \<Rightarrow>
          (case index_entries (\<lambda>rel. if allowed = None then release_control_path rel else rel \<in> set ps) []
                  (split_on nul out) of
             None \<Rightarrow> None
           | Some es \<Rightarrow> blob_hashes sha blob es [])
      | _ \<Rightarrow> None)"

text \<open>\<open>git_release_pathspec\<close>: tracked deletions are staged as well.\<close>

definition tracked_release_paths :: "git_view \<Rightarrow> string list option" where
  "tracked_release_paths g =
     (case g of
        NoGit \<Rightarrow> Some []
      | GitFails \<Rightarrow> None
      | GitLists tracked _ \<Rightarrow> map_option (filter (\<lambda>rel. \<not> governance_path rel)) (normalise_all tracked))"

definition git_release_pathspec :: "git_view \<Rightarrow> tree \<Rightarrow> string list option" where
  "git_release_pathspec g t = map_option (\<lambda>ps. sorted_set (map fst t @ ps)) (tracked_release_paths g)"

subsection \<open>Splitting and joining\<close>

lemma split_on_clean: "sep \<notin> set w \<Longrightarrow> split_on sep w = [w]"
  by (induction w) auto

lemma split_on_step: "sep \<notin> set w \<Longrightarrow> split_on sep (w @ sep # r) = w # split_on sep r"
  by (induction w) auto

lemma split_on_join: "ws \<noteq> [] \<Longrightarrow> \<forall>w \<in> set ws. sep \<notin> set w \<Longrightarrow> split_on sep (join [sep] ws) = ws"
  by (induction "[sep]" ws rule: join.induct) (auto simp: split_on_clean split_on_step)

lemma split_once_step: "sep \<notin> set w \<Longrightarrow> split_once sep (w @ sep # r) = Some (w, r)"
  by (induction w) auto

lemma set_join: "set (join sep ws) \<subseteq> set sep \<union> \<Union> (set ` set ws)"
  by (induction sep ws rule: join.induct) auto

lemma set_split_on: "w \<in> set (split_on sep s) \<Longrightarrow> set w \<subseteq> set s"
proof (induction s arbitrary: w)
  case Nil
  then show ?case by simp
next
  case (Cons c cs)
  then show ?case by (fastforce split: list.splits if_splits)
qed

lemma join_eq_Nil: "(\<forall>w \<in> set ws. w \<noteq> []) \<Longrightarrow> join sep ws = [] \<longleftrightarrow> ws = []"
  by (induction sep ws rule: join.induct) auto

lemma hd_join: "ws \<noteq> [] \<Longrightarrow> hd ws \<noteq> [] \<Longrightarrow> hd (join sep ws) = hd (hd ws)"
  by (induction sep ws rule: join.induct) (auto simp: hd_append)

definition clean_parts :: "string list \<Rightarrow> bool" where
  "clean_parts ws \<longleftrightarrow> (\<forall>w \<in> set ws. w \<noteq> [] \<and> w \<noteq> ''.'' \<and> CHR ''/'' \<notin> set w \<and> CHR 0x5C \<notin> set w)"

lemma path_parts_text: "clean_parts ws \<Longrightarrow> path_parts (path_text ws) = ws"
  by (cases "ws = []") (auto simp: path_parts_def path_text_def clean_parts_def split_on_join)

lemma clean_path_parts: "CHR 0x5C \<notin> set s \<Longrightarrow> clean_parts (path_parts s)"
  by (auto simp: clean_parts_def path_parts_def dest: split_on_no_sep set_split_on)

lemma normalise_of_parts: "clean_parts ws \<Longrightarrow> ''..'' \<notin> set ws \<Longrightarrow> normalise_rel (path_text ws) = Some (path_text ws)"
proof -
  assume c: "clean_parts ws" and d: "''..'' \<notin> set ws"
  have bs: "CHR 0x5C \<notin> set (path_text ws)"
    using c set_join [of "''/''" ws] by (auto simp: path_text_def clean_parts_def)
  have "path_text ws \<noteq> [] \<and> hd (path_text ws) \<noteq> CHR ''/''"
  proof (cases ws)
    case Nil
    then show ?thesis by (simp add: path_text_def)
  next
    case (Cons w vs)
    then have "w \<noteq> []" "CHR ''/'' \<notin> set w" using c by (auto simp: clean_parts_def)
    moreover have "join ''/'' ws \<noteq> []" using c Cons by (subst join_eq_Nil) (auto simp: clean_parts_def)
    ultimately show ?thesis using Cons hd_join [of ws "''/''"]
      by (cases w) (auto simp: path_text_def)
  qed
  then show ?thesis
    using bs c d by (simp add: normalise_rel_def replace_char_absent lstrip_by_id path_parts_text)
qed

lemma normalise_parts:
  "normalise_rel raw = Some p \<Longrightarrow> \<exists>ws. clean_parts ws \<and> ''..'' \<notin> set ws \<and> p = path_text ws"
proof -
  assume n: "normalise_rel raw = Some p"
  let ?v = "lstrip_by (\<lambda>c. c = CHR ''/'') (replace_char (CHR 0x5C) (CHR ''/'') raw)"
  have "CHR 0x5C \<notin> set ?v"
    using replace_char_gone [of "CHR 0x5C" "CHR ''/''" raw] by (auto simp: lstrip_by_def dest: set_dropWhileD)
  from clean_path_parts [OF this] n show ?thesis
    by (auto simp: normalise_rel_def Let_def split: if_splits)
qed

lemma normalise_idem: "normalise_rel raw = Some p \<Longrightarrow> normalise_rel p = Some p"
  using normalise_parts normalise_of_parts by blast

lemma normalise_all_idem: "normalise_all rs = Some ps \<Longrightarrow> p \<in> set ps \<Longrightarrow> normalise_rel p = Some p"
  by (induction rs arbitrary: ps) (auto split: option.splits intro: normalise_idem)

lemma normalise_all_id: "(\<forall>p \<in> set ps. normalise_rel p = Some p) \<Longrightarrow> normalise_all ps = Some ps"
  by (induction ps) auto

subsection \<open>What a release tree holds\<close>

lemma hash_paths_get:
  "hash_paths sha ws leaf rels = Some t \<Longrightarrow> (\<forall>rel \<in> set rels. normalise_rel rel = Some rel) \<Longrightarrow>
   set t = {(rel, h). rel \<in> set rels \<and> (\<exists>e p. dict_get ws rel = Some e \<and> entry_payload e = Some p \<and> h = sha p)} \<and>
   (\<forall>rel \<in> set rels. \<not> behind_link ws rel) \<and> map fst t = filter (\<lambda>rel. dict_get ws rel \<noteq> None) rels"
proof (induction rels arbitrary: t)
  case Nil
  then show ?case by simp
next
  case (Cons rel rels)
  then have n: "normalise_rel rel = Some rel" by simp
  from Cons.prems n have l: "\<not> behind_link ws rel"
    by (auto simp: workspace_path_def split: if_splits)
  show ?case
  proof (cases "dict_get ws rel")
    case None
    with Cons n l show ?thesis by (auto simp: workspace_path_def split: option.splits)
  next
    case (Some e)
    with Cons.prems n l obtain h t' where "t = (rel, h) # t'" "hash_paths sha ws leaf rels = Some t'"
      "map_option sha (entry_payload e) = Some h"
      by (auto simp: workspace_path_def hash_workspace_path_def split: option.splits entry.splits if_splits)
    with Cons.IH [of t'] Cons.prems(2) Some l show ?thesis by auto
  qed
qed

lemma release_paths_ok:
  assumes "\<forall>rel \<in> set (map fst ws). normalise_rel rel = Some rel" and "rel \<in> set (release_paths g ws)"
  shows "normalise_rel rel = Some rel \<and> \<not> governance_path rel"
  using assms
  by (auto simp: release_paths_def sorted_set_def git_selected_def walk_selected_def untracked_payload_def
      split: option.splits git_view.splits intro: normalise_all_idem)

text \<open>When there is none.\<close>

lemma hash_paths_None:
  "(\<forall>rel \<in> set rels. normalise_rel rel = Some rel) \<Longrightarrow>
   hash_paths sha ws True rels = None \<longleftrightarrow>
     (\<exists>rel \<in> set rels. behind_link ws rel \<or> dict_get ws rel \<in> {Some Directory, Some Unreadable})"
  by (induction rels)
    (auto simp: workspace_path_def hash_workspace_path_def entry_payload_def split: option.splits entry.splits)

lemma workspace_release_tree_None:
  "(\<forall>rel \<in> set (map fst ws). normalise_rel rel = Some rel) \<Longrightarrow>
   workspace_release_tree sha g ws = None \<longleftrightarrow>
     (\<exists>rel \<in> set (release_paths g ws). behind_link ws rel \<or> dict_get ws rel \<in> {Some Directory, Some Unreadable})"
  unfolding workspace_release_tree_def using release_paths_ok by (intro hash_paths_None) blast

text \<open>The release tree of a workspace maps exactly the selected paths with something to ship there to the
  hash of their bytes, or of their link text; no path under \<open>core\<close>, \<open>.git\<close> or \<open>.signalos\<close> is among
  them, and none that a symbolic link above it redirects, whatever Git lists.\<close>

theorem release_tree_exact:
  assumes "workspace_release_tree sha g ws = Some t"
    and "\<forall>rel \<in> set (map fst ws). normalise_rel rel = Some rel"
  shows "(\<forall>rel h. (rel, h) \<in> set t \<longleftrightarrow> rel \<in> set (release_paths g ws) \<and>
            (\<exists>e p. dict_get ws rel = Some e \<and> entry_payload e = Some p \<and> h = sha p)) \<and>
         (\<forall>rel \<in> set (map fst t). \<not> governance_path rel \<and> \<not> behind_link ws rel)"
proof -
  have n: "\<forall>rel \<in> set (release_paths g ws). normalise_rel rel = Some rel \<and> \<not> governance_path rel"
    using release_paths_ok [OF assms(2)] by blast
  from hash_paths_get [OF assms(1) [unfolded workspace_release_tree_def]] n show ?thesis
    by auto
qed

theorem release_tree_exact_witness:
  "case workspace_release_tree id (GitLists [''core/x.md'', ''dist/a.js''] [''src/l'']) 
      [(''core/x.md'', Regular ''g''), (''dist/a.js'', Regular ''j''), (''src/l'', Link ''t'')] of
     None \<Rightarrow> False
   | Some t \<Rightarrow> (''dist/a.js'', ''j'') \<in> set t \<and> ''core/x.md'' \<notin> set (map fst t)"
proof -
  let ?g = "GitLists [''core/x.md'', ''dist/a.js''] [''src/l'']"
  let ?ws = "[(''core/x.md'', Regular ''g''), (''dist/a.js'', Regular ''j''), (''src/l'', Link ''t'')]"
  have "workspace_release_tree id ?g ?ws \<noteq> None" by code_simp
  then obtain t where t: "workspace_release_tree id ?g ?ws = Some t" by blast
  have "\<forall>rel \<in> set (map fst ?ws). normalise_rel rel = Some rel" by code_simp
  note e = release_tree_exact [OF t this]
  moreover have "''dist/a.js'' \<in> set (release_paths ?g ?ws)" "governance_path ''core/x.md''" by code_simp+
  moreover have "dict_get ?ws ''dist/a.js'' = Some (Regular ''j'')" by code_simp
  ultimately show ?thesis using t by (auto simp: entry_payload_def)
qed

subsection \<open>The commit holds the tree\<close>

definition entry_mode :: "entry \<Rightarrow> string" where
  "entry_mode e = (case e of Link _ \<Rightarrow> ''120000'' | _ \<Rightarrow> ''100644'')"

definition entry_blob :: "entry \<Rightarrow> string" where
  "entry_blob e = (case e of Link t \<Rightarrow> t | Regular b \<Rightarrow> b | _ \<Rightarrow> [])"

text \<open>What \<open>git ls-tree -rz\<close> prints for a commit of these paths.\<close>

definition commit_listing :: "(string \<Rightarrow> string) \<Rightarrow> workspace \<Rightarrow> string list \<Rightarrow> string" where
  "commit_listing oid ws ps =
     concat (map (\<lambda>rel. (case dict_get ws rel of None \<Rightarrow> ''100644'' | Some e \<Rightarrow> entry_mode e) @
       '' blob '' @ oid rel @ tab # rel @ [nul]) ps)"

lemma ls_tree_line:
  assumes "normalise_rel rel = Some rel" and "tab \<notin> set obj" and "mode \<in> {''120000'', ''100644''}"
  shows "ls_tree_record (mode @ '' blob '' @ obj @ tab # rel) = Some (mode, ''blob'', obj, rel)"
proof -
  have "tab \<notin> set (mode @ '' blob '' @ obj)" using assms(2,3) by (auto simp: tab_def)
  from split_once_step [OF this, of rel] have 1: "split_once tab (mode @ '' blob '' @ obj @ tab # rel) = Some (mode @ '' blob '' @ obj, rel)"
    by simp
  have "CHR '' '' \<notin> set mode" using assms(3) by auto
  from split_once_step [OF this, of "''blob '' @ obj"] have 2: "split_once (CHR '' '') (mode @ '' blob '' @ obj) = Some (mode, ''blob '' @ obj)"
    by simp
  show ?thesis using assms(1) 1 2 by (simp add: ls_tree_record_def)
qed

lemma listing_entries:
  assumes "\<forall>rel \<in> set ps. normalise_rel rel = Some rel \<and> nul \<notin> set rel \<and> dict_get ws rel \<noteq> None"
    and "\<And>rel. tab \<notin> set (oid rel) \<and> nul \<notin> set (oid rel)"
  shows "ls_tree_entries keep (split_on nul (commit_listing oid ws ps)) =
    Some (map (\<lambda>rel. (rel, entry_mode (the (dict_get ws rel)), oid rel)) (filter keep ps))"
  using assms(1)
proof (induction ps)
  case Nil
  then show ?case by (simp add: commit_listing_def)
next
  case (Cons rel ps)
  then obtain e where e: "dict_get ws rel = Some e" by auto
  let ?l = "entry_mode e @ '' blob '' @ oid rel @ tab # rel"
  have mode: "entry_mode e \<in> {''120000'', ''100644''}" by (simp add: entry_mode_def split: entry.split)
  have "nul \<notin> set ?l" using mode Cons.prems assms(2) by (auto simp: nul_def tab_def)
  from split_on_step [OF this, of "commit_listing oid ws ps"]
  have "split_on nul (commit_listing oid ws (rel # ps)) = ?l # split_on nul (commit_listing oid ws ps)"
    by (simp add: commit_listing_def e)
  moreover have "ls_tree_record ?l = Some (entry_mode e, ''blob'', oid rel, rel)"
    using Cons.prems assms(2) mode by (intro ls_tree_line) auto
  ultimately show ?case using Cons e by simp
qed

lemma dict_set_new: "k \<notin> set (map fst t) \<Longrightarrow> dict_set t k v = t @ [(k, v)]"
  by (induction t k v rule: dict_set.induct) auto

lemma blob_hashes_paths:
  assumes "\<forall>rel \<in> set ps. \<exists>e p. dict_get ws rel = Some e \<and> entry_payload e = Some p \<and> blob (oid rel) = Some (entry_blob e)"
    and "distinct (map fst t @ ps)"
  shows "blob_hashes sha blob (map (\<lambda>rel. (rel, entry_mode (the (dict_get ws rel)), oid rel)) ps) t =
    Some (t @ map (\<lambda>rel. (rel, sha (the (entry_payload (the (dict_get ws rel)))))) ps)"
  using assms
proof (induction ps arbitrary: t)
  case Nil
  then show ?case by simp
next
  case (Cons rel ps)
  from Cons.prems(1) obtain e p where e: "dict_get ws rel = Some e" "entry_payload e = Some p"
    "blob (oid rel) = Some (entry_blob e)" by auto
  have "(if entry_mode e = ''120000'' then ''symlink'' @ nul # entry_blob e else entry_blob e) = p"
    "entry_mode e \<noteq> ''160000''"
    using e(2) by (auto simp: entry_mode_def entry_blob_def entry_payload_def nul_def split: entry.splits)
  with Cons e show ?case by (simp add: dict_set_new)
qed

lemma tree_from_paths:
  assumes "hash_paths sha ws leaf rels = Some t" and "\<forall>rel \<in> set rels. normalise_rel rel = Some rel"
  shows "t = map (\<lambda>rel. (rel, sha (the (entry_payload (the (dict_get ws rel)))))) (map fst t)"
proof (rule nth_equalityI)
  fix i assume i: "i < length t"
  then have "t ! i \<in> set t" by simp
  with hash_paths_get [OF assms] obtain e p where
    "dict_get ws (fst (t ! i)) = Some e" "entry_payload e = Some p" "snd (t ! i) = sha p"
    by (cases "t ! i") auto
  with i show "t ! i = map (\<lambda>rel. (rel, sha (the (entry_payload (the (dict_get ws rel)))))) (map fst t) ! i"
    by (simp add: prod_eq_iff)
qed simp

text \<open>C33: A release commit that holds the files of the release tree, together with any governance
  files, reads back as that tree: the digest that Gate 4 bound is the digest of the commit. The
  object ids hold no tab and no zero byte and Git returns the bytes of each object.\<close>

theorem commit_reads_back:
  assumes "workspace_release_tree sha g ws = Some t"
    and "\<forall>rel \<in> set (map fst ws). normalise_rel rel = Some rel \<and> nul \<notin> set rel"
    and "filter (\<lambda>rel. \<not> governance_path rel) ps = map fst t" and "set ps \<subseteq> set (map fst ws)"
    and "\<And>rel. tab \<notin> set (oid rel) \<and> nul \<notin> set (oid rel)"
    and "\<And>rel e. dict_get ws rel = Some e \<Longrightarrow> blob (oid rel) = Some (entry_blob e)"
  shows "commit_release_tree sha blob (Some (commit_listing oid ws ps)) = Some t"
proof -
  have n: "\<forall>rel \<in> set (release_paths g ws). normalise_rel rel = Some rel"
    using release_paths_ok assms(2) by blast
  note h = assms(1) [unfolded workspace_release_tree_def]
  note get = hash_paths_get [OF h n]
  have "\<forall>rel \<in> set ps. normalise_rel rel = Some rel \<and> nul \<notin> set rel \<and> dict_get ws rel \<noteq> None"
    using assms(2,4) by (force simp: dict_get_def map_of_eq_None_iff)
  note entries = listing_entries [OF this assms(5), of "\<lambda>rel. \<not> governance_path rel", unfolded assms(3)]
  have "\<exists>e p. dict_get ws rel = Some e \<and> entry_payload e = Some p \<and> blob (oid rel) = Some (entry_blob e)"
    if "rel \<in> set (map fst t)" for rel
  proof -
    from that obtain h where "(rel, h) \<in> set t" by auto
    with get obtain e p where "dict_get ws rel = Some e" "entry_payload e = Some p" by blast
    with assms(6) show ?thesis by blast
  qed
  moreover have "distinct (map fst t)"
    using get by (simp add: release_paths_def sorted_set_def)
  ultimately have "blob_hashes sha blob (map (\<lambda>rel. (rel, entry_mode (the (dict_get ws rel)), oid rel)) (map fst t)) [] = Some t"
    using blob_hashes_paths [of "map fst t" ws blob oid "[]" sha] tree_from_paths [OF h n] by simp
  with entries show ?thesis by (simp add: commit_release_tree_def)
qed

theorem commit_reads_back_witness:
  "commit_release_tree (\<lambda>x. x)
     (\<lambda>i. dict_get [(''1:core/x.md'', ''g''), (''1:src/a.ts'', ''j''), (''1:src/l'', ''t'')] i)
     (Some (commit_listing (\<lambda>rel. if tab \<in> set rel \<or> nul \<in> set rel then ''0'' else ''1:'' @ rel)
       [(''core/x.md'', Regular ''g''), (''src/a.ts'', Regular ''j''), (''src/l'', Link ''t'')]
       [''core/x.md'', ''src/a.ts'', ''src/l''])) =
   Some [(''src/a.ts'', ''j''), (''src/l'', ''symlink'' @ nul # ''t'')]"
proof (rule commit_reads_back)
  show "workspace_release_tree (\<lambda>x. x) NoGit
      [(''core/x.md'', Regular ''g''), (''src/a.ts'', Regular ''j''), (''src/l'', Link ''t'')] =
    Some [(''src/a.ts'', ''j''), (''src/l'', ''symlink'' @ nul # ''t'')]" by code_simp
qed (code_simp, code_simp, simp, auto simp: tab_def nul_def dict_get_def entry_blob_def split: if_splits)

subsection \<open>The walk is not the listing\<close>

text \<open>When the host's Git does not answer, the tree comes from a walk of the files, and for a workspace with
  an ignored secret file, or with a tracked file in a build directory, it is another tree with another digest
  (for a hash without collisions on the two), so a proof bound to the one does not hold under the other.\<close>

theorem fallback_differs:
  "let ws = [(''.env'', Regular ''secret''), (''dist/a.js'', Regular ''x''), (''src/a.ts'', Regular ''y'')];
       listed = GitLists [''dist/a.js'', ''src/a.ts''] []
   in workspace_release_tree sha listed ws = Some [(''dist/a.js'', sha ''x''), (''src/a.ts'', sha ''y'')] \<and>
      workspace_release_tree sha GitFails ws = Some [(''.env'', sha ''secret''), (''src/a.ts'', sha ''y'')]"
proof -
  let ?ws = "[(''.env'', Regular ''secret''), (''dist/a.js'', Regular ''x''), (''src/a.ts'', Regular ''y'')]"
  have "release_paths (GitLists [''dist/a.js'', ''src/a.ts''] []) ?ws = [''dist/a.js'', ''src/a.ts'']"
    "release_paths GitFails ?ws = [''.env'', ''src/a.ts'']"
    by code_simp+
  moreover have "workspace_path ?ws True ''dist/a.js'' = Some ''dist/a.js''"
    "workspace_path ?ws True ''src/a.ts'' = Some ''src/a.ts''" "workspace_path ?ws True ''.env'' = Some ''.env''"
    by code_simp+
  ultimately show ?thesis
    by (simp add: workspace_release_tree_def hash_workspace_path_def entry_payload_def dict_get_def)
qed

end
