(* ===== verification/BuildProof.thy ===== *)
theory BuildProof
  imports ReleaseTree
begin

section \<open>The proof of a build (\<open>product/gate_orchestrator.py\<close>)\<close>

text \<open>
  Gate 4 may be signed only for a product that the build agent really changed and that an
  independent run built and tested. The evidence is the file \<open>g4-attribution.json\<close>: the tree
  before the build, the tree after it, and the verdict, bound to the bytes of the workspace. The
  build agent, the validation run and the stack's source directory are arguments; a
  reason of the code is a constructor. Writes of the evidence file succeed or fail by the
  argument \<open>w\<close>; the time stamps and the copies of the agent's counters are left out.
\<close>

subsection \<open>Product sources\<close>

record product =
  files :: workspace
  source_dir :: string
  git :: git_view

definition CODE_SUFFIXES :: "string list" where
  "CODE_SUFFIXES =
     [''.ts'', ''.tsx'', ''.js'', ''.jsx'', ''.vue'', ''.py'', ''.go'', ''.rs'', ''.cs'', ''.java'', ''.kt'',
      ''.dart'', ''.rb'', ''.php'']"

definition SCAFFOLD_NAMES :: "string list" where
  "SCAFFOLD_NAMES =
     [''main.tsx'', ''main.ts'', ''vite-env.d.ts'', ''main.py'', ''__init__.py'', ''conftest.py'', ''setup.ts'']"

definition G4_SOURCE_SUFFIXES :: "string list" where
  "G4_SOURCE_SUFFIXES = CODE_SUFFIXES @ [''.css'', ''.scss'', ''.sass'', ''.less'', ''.html'', ''.htm'']"

definition G4_EXCLUDED_DIRS :: "string list" where
  "G4_EXCLUDED_DIRS =
     [''.git'', ''.signalos'', ''core'', ''node_modules'', ''dist'', ''build'', ''coverage'', ''.next'',
      ''.nuxt'', ''target'', ''vendor'', ''__pycache__'']"

definition leaf_name :: "string \<Rightarrow> string" where
  "leaf_name rel = last (split_on (CHR ''/'') rel)"

text \<open>\<open>Path.suffix\<close>: from the last dot, which is neither the first nor the last character.\<close>

definition path_suffix :: "string \<Rightarrow> string" where
  "path_suffix name =
     (let ws = split_on (CHR ''.'') name in
      if join ''.'' (butlast ws) \<noteq> [] \<and> last ws \<noteq> [] then CHR ''.'' # last ws else [])"

definition test_name :: "string \<Rightarrow> bool" where
  "test_name name \<longleftrightarrow>
     occurs_in ''.test.'' name \<or> occurs_in ''.spec.'' name \<or> occurs_in ''_test.'' name \<or>
     startswith name ''test_''"

definition below :: "string \<Rightarrow> string \<Rightarrow> bool" where
  "below dir rel \<longleftrightarrow> dir = ''.'' \<or> startswith rel (dir @ ''/'')"

definition source_dir_exists :: "product \<Rightarrow> bool" where
  "source_dir_exists p \<longleftrightarrow> source_dir p = ''.'' \<or> dict_get (files p) (source_dir p) = Some Directory"

definition g4_source :: "product \<Rightarrow> string \<Rightarrow> bool" where
  "g4_source p rel \<longleftrightarrow>
     below (source_dir p) rel \<and> \<not> behind_link (files p) rel \<and>
     (let parts = map lower (split_on (CHR ''/'') rel); name = lower (leaf_name rel) in
      \<not> list_ex (\<lambda>d. d \<in> set G4_EXCLUDED_DIRS) parts \<and>
      \<not> list_ex (\<lambda>d. d \<in> set parts) [''tests'', ''test'', ''__tests__''] \<and>
      \<not> test_name name \<and> lower (path_suffix (leaf_name rel)) \<in> set G4_SOURCE_SUFFIXES)"

text \<open>The readable sources, by path, with their bytes.\<close>

definition source_files :: "product \<Rightarrow> (string \<times> string) list" where
  "source_files p =
     (if source_dir_exists p then
        List.map_filter (\<lambda>(rel, e). case e of Regular b \<Rightarrow> if g4_source p rel then Some (rel, b) else None | _ \<Rightarrow> None)
          (files p)
      else [])"

definition g4_product_tree :: "(string \<Rightarrow> string) \<Rightarrow> product \<Rightarrow> tree" where
  "g4_product_tree sha p = map (\<lambda>(rel, b). (rel, sha b)) (source_files p)"

fun kept_lines :: "bool \<Rightarrow> string list \<Rightarrow> string" where
  "kept_lines in_block [] = []"
| "kept_lines in_block (l # ls) =
     (let s = strip l; closes = (occurs_in ''*/'' s \<or> occurs_in ''-->'' s) in
      if in_block then kept_lines (\<not> closes) ls
      else if s = [] then kept_lines False ls
      else if startswith s ''//'' \<or> startswith s ''#'' \<or> startswith s ''*'' then kept_lines False ls
      else if startswith s ''/*'' \<or> startswith s ''<!--'' then kept_lines (\<not> closes) ls
      else filter (\<lambda>c. \<not> is_space c) l @ kept_lines False ls)"

definition g4_normalize_meaningful_source :: "string \<Rightarrow> string" where
  "g4_normalize_meaningful_source doc = kept_lines False (splitlines [] doc)"

definition g4_meaningful_tree :: "(string \<Rightarrow> string) \<Rightarrow> product \<Rightarrow> tree" where
  "g4_meaningful_tree sha p =
     List.map_filter (\<lambda>(rel, b).
       let n = g4_normalize_meaningful_source b in if n = [] then None else Some (rel, sha n))
       (source_files p)"

definition g4_release_tree :: "(string \<Rightarrow> string) \<Rightarrow> product \<Rightarrow> tree option" where
  "g4_release_tree sha p = workspace_release_tree sha (git p) (files p)"

text \<open>A link among the sources is not followed here.\<close>

definition repo_has_real_product_src :: "product \<Rightarrow> bool" where
  "repo_has_real_product_src p \<longleftrightarrow>
     source_dir_exists p \<and>
     list_ex (\<lambda>(rel, e).
       (case e of Regular _ \<Rightarrow> True | Unreadable \<Rightarrow> True | _ \<Rightarrow> False) \<and>
       below (source_dir p) rel \<and> \<not> behind_link (files p) rel \<and>
       path_suffix (leaf_name rel) \<in> set CODE_SUFFIXES \<and> \<not> test_name (leaf_name rel) \<and>
       leaf_name rel \<notin> set SCAFFOLD_NAMES \<and>
       \<not> (leaf_name rel = ''App.tsx'' \<and>
          (case e of Regular b \<Rightarrow> length (splitlines [] b) \<le> 8 | _ \<Rightarrow> False)))
       (files p)"

subsection \<open>The evidence file\<close>

datatype g4_phase = RunningPhase | AttributedPhase | RefusedPhase | VerifiedPhase | NoPhase

datatype g4_reason =
    AgentIncomplete | AgentWroteNothing | NoCheckpoint | BadCheckpoint | BadCheckpointHash | BadMeaningful
  | BadMeaningfulHash | SourceDirMoved | NoMeaningfulChange | Unpersisted | NotAttributed
  | NoProductSource | NoValidation | TestsNotRun | UxFailed | NotGreen | VerificationError
  | SourceChangedMeanwhile | NotVerified | NotPassed | BadPostTree | BadPostHash | NoSourceChange
  | SourceChangedAfter | BadReleaseTree | BadReleaseHash | ReleaseChangedAfter | DependencyBoundary | ContainmentFailed

text \<open>A tree or a list that is missing or malformed is \<open>None\<close>.\<close>

record g4_record =
  rec_version :: int
  rec_run :: string
  rec_project :: string
  attempt :: int
  phase :: g4_phase
  rec_source_dir :: string
  baseline_tree :: "tree option"
  baseline_digest :: string
  baseline_meaningful_tree :: "tree option"
  baseline_meaningful_digest :: string
  post_tree :: "tree option"
  post_digest :: string
  meaningful_change :: "string list option"
  meaningful_written :: "string list option"
  release_tree :: "tree option"
  release_digest :: string
  verification :: "(g4_reason + unit) option"

definition G4_ATTRIBUTION_VERSION :: int where
  "G4_ATTRIBUTION_VERSION = 4"

text \<open>A delivery: its run and its project.\<close>

type_synonym delivery = "string \<times> string"

definition load_g4_attribution :: "delivery \<Rightarrow> g4_record option \<Rightarrow> g4_record option" where
  "load_g4_attribution d f =
     (case f of
        None \<Rightarrow> None
      | Some r \<Rightarrow>
          if rec_version r \<noteq> G4_ATTRIBUTION_VERSION then None
          else if rec_run r \<noteq> fst d then None
          else if (if rec_project r = [] then ''default'' else rec_project r) \<noteq> snd d then None
          else Some r)"

definition tree_ok :: "(string \<Rightarrow> string) \<Rightarrow> tree option \<Rightarrow> string \<Rightarrow> bool" where
  "tree_ok sha t h = (case t of None \<Rightarrow> False | Some t \<Rightarrow> tree_digest sha t = h)"

subsection \<open>Before the build\<close>

definition attempt_after :: "g4_record option \<Rightarrow> int" where
  "attempt_after f = (case f of None \<Rightarrow> 1 | Some r \<Rightarrow> max 1 (attempt r + 1))"

definition fresh_record :: "(string \<Rightarrow> string) \<Rightarrow> delivery \<Rightarrow> product \<Rightarrow> int \<Rightarrow> g4_record" where
  "fresh_record sha d p n =
     \<lparr>rec_version = G4_ATTRIBUTION_VERSION, rec_run = fst d, rec_project = snd d, attempt = n,
      phase = RunningPhase, rec_source_dir = source_dir p,
      baseline_tree = Some (g4_product_tree sha p), baseline_digest = tree_digest sha (g4_product_tree sha p),
      baseline_meaningful_tree = Some (g4_meaningful_tree sha p),
      baseline_meaningful_digest = tree_digest sha (g4_meaningful_tree sha p),
      post_tree = None, post_digest = [], meaningful_change = None, meaningful_written = None,
      release_tree = None, release_digest = [], verification = None\<rparr>"

definition baseline_valid :: "(string \<Rightarrow> string) \<Rightarrow> product \<Rightarrow> g4_record \<Rightarrow> bool" where
  "baseline_valid sha p r \<longleftrightarrow>
     phase r \<noteq> NoPhase \<and> tree_ok sha (baseline_tree r) (baseline_digest r) \<and>
     tree_ok sha (baseline_meaningful_tree r) (baseline_meaningful_digest r) \<and>
     rec_source_dir r = source_dir p"

text \<open>\<open>_prepare_g4_attribution\<close>; a record of this delivery keeps its baseline. \<open>None\<close> when the write raises.\<close>

definition prepare_g4_attribution ::
  "(string \<Rightarrow> string) \<Rightarrow> bool \<Rightarrow> delivery \<Rightarrow> product \<Rightarrow> g4_record option \<Rightarrow> g4_record option option" where
  "prepare_g4_attribution sha w d p f =
     (case load_g4_attribution d f of
        Some r \<Rightarrow>
          if baseline_valid sha p r then
            if phase r = RunningPhase then Some f
            else if w then Some (Some (r\<lparr>attempt := max 1 (attempt r + 1), phase := RunningPhase\<rparr>)) else None
          else if w then Some (Some (fresh_record sha d p (attempt_after (Some r)))) else None
      | None \<Rightarrow> if w then Some (Some (fresh_record sha d p 1)) else None)"

subsection \<open>After the build\<close>

record agent_result =
  r_completed :: bool
  r_wrote_no_files :: bool

definition tree_changes :: "tree \<Rightarrow> tree \<Rightarrow> string list" where
  "tree_changes a b =
     sorted_set (filter (\<lambda>k. dict_get a k \<noteq> dict_get b k) (map fst a @ map fst b))"

definition tree_has :: "tree \<Rightarrow> string \<Rightarrow> bool" where
  "tree_has t k \<longleftrightarrow> dict_get t k \<noteq> None"

definition refuse_attribution ::
  "bool \<Rightarrow> g4_record option \<Rightarrow> g4_record option \<Rightarrow> g4_reason \<Rightarrow> (g4_reason + unit) \<times> g4_record option" where
  "refuse_attribution w loaded f why =
     (Inl why,
      case loaded of
        None \<Rightarrow> f
      | Some r \<Rightarrow> if w then Some (r\<lparr>phase := RefusedPhase, verification := Some (Inl why)\<rparr>) else f)"

text \<open>The checks before the trees are compared; \<open>None\<close> when all pass.\<close>

definition attribution_refusal ::
  "(string \<Rightarrow> string) \<Rightarrow> product \<Rightarrow> agent_result \<Rightarrow> g4_record option \<Rightarrow> g4_reason option" where
  "attribution_refusal sha p a loaded =
     (if \<not> r_completed a then Some AgentIncomplete
      else if r_wrote_no_files a then Some AgentWroteNothing
      else
        (case loaded of
           None \<Rightarrow> Some NoCheckpoint
         | Some r \<Rightarrow>
             if phase r \<noteq> RunningPhase then Some NoCheckpoint
             else if baseline_tree r = None then Some BadCheckpoint
             else if \<not> tree_ok sha (baseline_tree r) (baseline_digest r) then Some BadCheckpointHash
             else if baseline_meaningful_tree r = None then Some BadMeaningful
             else if \<not> tree_ok sha (baseline_meaningful_tree r) (baseline_meaningful_digest r)
             then Some BadMeaningfulHash
             else if rec_source_dir r \<noteq> source_dir p then Some SourceDirMoved
             else None))"

definition attributed :: "(string \<Rightarrow> string) \<Rightarrow> product \<Rightarrow> g4_record \<Rightarrow> g4_record" where
  "attributed sha p r =
     (let post = g4_product_tree sha p; mean = g4_meaningful_tree sha p;
          changed = tree_changes (the (baseline_tree r)) post;
          mchanged = tree_changes (the (baseline_meaningful_tree r)) mean
      in r\<lparr>phase := (if changed \<noteq> [] then AttributedPhase else RefusedPhase),
           post_tree := Some post, post_digest := tree_digest sha post,
           meaningful_change := Some mchanged, meaningful_written := Some (filter (tree_has mean) mchanged)\<rparr>)"

definition evaluate_g4_attribution ::
  "(string \<Rightarrow> string) \<Rightarrow> bool \<Rightarrow> delivery \<Rightarrow> product \<Rightarrow> agent_result \<Rightarrow> g4_record option
     \<Rightarrow> (g4_reason + unit) \<times> g4_record option" where
  "evaluate_g4_attribution sha w d p a f =
     (let loaded = load_g4_attribution d f in
      case attribution_refusal sha p a loaded of
        Some why \<Rightarrow> refuse_attribution w loaded f why
      | None \<Rightarrow>
          (let r = attributed sha p (the loaded) in
           if meaningful_written r = Some [] then
             (Inl NoMeaningfulChange,
              if w then Some (r\<lparr>verification := Some (Inl NoMeaningfulChange)\<rparr>) else f)
           else if w then (Inr (), Some r)
           else (Inl Unpersisted, f)))"

text \<open>\<open>_finish_g4_verification\<close>; the good result carries the release digest, \<open>None\<close> is the exception of the
  release tree.\<close>

definition finish_g4_verification ::
  "(string \<Rightarrow> string) \<Rightarrow> bool \<Rightarrow> delivery \<Rightarrow> product \<Rightarrow> g4_record option \<Rightarrow> g4_reason + unit
     \<Rightarrow> ((g4_reason + string) \<times> g4_record option) option" where
  "finish_g4_verification sha w d p f result =
     (case load_g4_attribution d f of
        None \<Rightarrow> Some (Inl NotAttributed, f)
      | Some r \<Rightarrow>
          if phase r \<noteq> AttributedPhase then Some (Inl NotAttributed, f)
          else
            (let result = (if result = Inr () \<and> tree_digest sha (g4_product_tree sha p) \<noteq> post_digest r
                           then Inl SourceChangedMeanwhile else result)
             in case result of
                  Inl why \<Rightarrow>
                    Some (if w then (Inl why, Some (r\<lparr>phase := RefusedPhase, verification := Some (Inl why)\<rparr>))
                          else (Inl Unpersisted, f))
                | Inr _ \<Rightarrow>
                    (case g4_release_tree sha p of
                       None \<Rightarrow> None
                     | Some t \<Rightarrow>
                         Some (if w then
                                 (Inr (tree_digest sha t),
                                  Some (r\<lparr>phase := VerifiedPhase, verification := Some (Inr ()),
                                          release_tree := Some t, release_digest := tree_digest sha t\<rparr>))
                               else (Inl Unpersisted, f)))))"

text \<open>The independent run: what it finds, and the workspace it leaves behind.\<close>

record validation =
  can_validate :: bool
  frozen_tests_uncollected :: "string list"
  build_passed :: bool
  test_passed :: bool
  ux_ok :: bool

datatype validation_run = Ran validation | RunRaised | SandboxDown

definition validation_result :: "validation \<Rightarrow> g4_reason + unit" where
  "validation_result v =
     (if \<not> can_validate v then Inl NoValidation
      else if frozen_tests_uncollected v \<noteq> [] then Inl TestsNotRun
      else if build_passed v \<and> test_passed v then (if ux_ok v then Inr () else Inl UxFailed)
      else Inl NotGreen)"

text \<open>\<open>_verify_g4_build\<close>; \<open>None\<close> when the sandbox is unavailable, with the evidence as it is by then.\<close>

definition verify_g4_build ::
  "(string \<Rightarrow> string) \<Rightarrow> bool \<Rightarrow> delivery \<Rightarrow> agent_result \<Rightarrow> (product \<Rightarrow> validation_run \<times> product) \<Rightarrow> product
     \<Rightarrow> g4_record option \<Rightarrow> (g4_reason + string) option \<times> product \<times> g4_record option" where
  "verify_g4_build sha w d a validate p f =
     (case evaluate_g4_attribution sha w d p a f of
        (Inl why, f) \<Rightarrow> (Some (Inl why), p, f)
      | (Inr _, f) \<Rightarrow>
          if \<not> repo_has_real_product_src p then
            (case finish_g4_verification sha w d p f (Inl NoProductSource) of
               None \<Rightarrow> (None, p, f)
             | Some (r, f) \<Rightarrow> (Some r, p, f))
          else
            (let (run, p) = validate p;
                 failed = (case finish_g4_verification sha w d p f (Inl VerificationError) of
                             None \<Rightarrow> (None, p, f)
                           | Some (r, f) \<Rightarrow> (Some r, p, f))
             in case run of
                  SandboxDown \<Rightarrow> (None, p, f)
                | RunRaised \<Rightarrow> failed
                | Ran v \<Rightarrow>
                    (case finish_g4_verification sha w d p f (validation_result v) of
                       None \<Rightarrow> failed
                     | Some (r, f) \<Rightarrow> (Some r, p, f))))"

subsection \<open>The proof later on\<close>

text \<open>\<open>_g4_verification_for_current_tree\<close>. Its handler names \<open>OSError\<close> and \<open>ValueError\<close>, so the exception
  of the release tree leaves it: \<open>None\<close>.\<close>

definition g4_verification_for_current_tree ::
  "(string \<Rightarrow> string) \<Rightarrow> delivery \<Rightarrow> product \<Rightarrow> g4_record option \<Rightarrow> (g4_reason + string) option" where
  "g4_verification_for_current_tree sha d p f =
     (case load_g4_attribution d f of
        None \<Rightarrow> Some (Inl NotVerified)
      | Some r \<Rightarrow>
          if phase r \<noteq> VerifiedPhase then Some (Inl NotVerified)
          else if verification r \<noteq> Some (Inr ()) then Some (Inl NotPassed)
          else
            (case post_tree r of
               None \<Rightarrow> Some (Inl BadPostTree)
             | Some post \<Rightarrow>
                 if tree_digest sha post \<noteq> post_digest r then Some (Inl BadPostHash)
                 else if meaningful_change r = None \<or> meaningful_written r \<in> {None, Some []}
                 then Some (Inl NoSourceChange)
                 else if rec_source_dir r \<noteq> source_dir p then Some (Inl SourceDirMoved)
                 else if tree_digest sha (g4_product_tree sha p) \<noteq> post_digest r
                 then Some (Inl SourceChangedAfter)
                 else
                   (case release_tree r of
                      None \<Rightarrow> Some (Inl BadReleaseTree)
                    | Some rt \<Rightarrow>
                        if tree_digest sha rt \<noteq> release_digest r then Some (Inl BadReleaseHash)
                        else
                          (case g4_release_tree sha p of
                             None \<Rightarrow> None
                           | Some now \<Rightarrow>
                               if tree_digest sha now \<noteq> release_digest r then Some (Inl ReleaseChangedAfter)
                               else Some (Inr (release_digest r))))))"

subsection \<open>A verified build\<close>

lemma tree_changes_mem: "k \<in> set (tree_changes a b) \<longleftrightarrow> dict_get a k \<noteq> dict_get b k"
  by (auto simp: tree_changes_def sorted_set_def dict_get_def map_of_eq_None_iff) (metis map_of_eq_None_iff)+

lemma load_SomeD: "load_g4_attribution d f = Some r \<Longrightarrow> f = Some r"
  by (auto simp: load_g4_attribution_def split: option.splits if_splits)

lemma load_ids:
  "load_g4_attribution d (Some r) = Some r \<Longrightarrow> rec_version r' = rec_version r \<Longrightarrow> rec_run r' = rec_run r \<Longrightarrow>
   rec_project r' = rec_project r \<Longrightarrow> load_g4_attribution d (Some r') = Some r'"
  by (auto simp: load_g4_attribution_def split: if_splits)

text \<open>What an attributed record says.\<close>

lemma no_refusal:
  "attribution_refusal sha p a l = None \<Longrightarrow>
   r_completed a \<and> \<not> r_wrote_no_files a \<and>
   (\<exists>r. l = Some r \<and> phase r = RunningPhase \<and> rec_source_dir r = source_dir p \<and>
      baseline_tree r \<noteq> None \<and> baseline_meaningful_tree r \<noteq> None)"
  by (cases l) (auto simp: attribution_refusal_def split: if_splits)

lemma evaluate_Inr:
  assumes "evaluate_g4_attribution sha w d p a f = (Inr (), f')"
  shows "w \<and> r_completed a \<and> \<not> r_wrote_no_files a \<and>
    (\<exists>r. load_g4_attribution d f = Some r \<and> phase r = RunningPhase \<and> rec_source_dir r = source_dir p \<and>
      baseline_tree r \<noteq> None \<and> baseline_meaningful_tree r \<noteq> None \<and>
      f' = Some (attributed sha p r) \<and> meaningful_written (attributed sha p r) \<noteq> Some [])"
proof (cases "attribution_refusal sha p a (load_g4_attribution d f)")
  case None
  from no_refusal [OF this] obtain r where "load_g4_attribution d f = Some r" "phase r = RunningPhase"
    "rec_source_dir r = source_dir p" "baseline_tree r \<noteq> None" "baseline_meaningful_tree r \<noteq> None"
    "r_completed a" "\<not> r_wrote_no_files a" by blast
  with assms None show ?thesis
    by (simp add: evaluate_g4_attribution_def Let_def split: if_splits)
next
  case (Some why)
  with assms show ?thesis by (simp add: evaluate_g4_attribution_def refuse_attribution_def Let_def)
qed

lemma attributed_load:
  "load_g4_attribution d f = Some r \<Longrightarrow> load_g4_attribution d (Some (attributed sha p r)) = Some (attributed sha p r)"
proof -
  assume l: "load_g4_attribution d f = Some r"
  then have "load_g4_attribution d (Some r) = Some r" using load_SomeD by metis
  then show ?thesis by (rule load_ids) (simp_all add: attributed_def Let_def)
qed

lemma finish_Inr:
  assumes "finish_g4_verification sha w d p f result = Some (Inr dig, f')"
  shows "result = Inr () \<and> (\<exists>r t. load_g4_attribution d f = Some r \<and> phase r = AttributedPhase \<and>
    tree_digest sha (g4_product_tree sha p) = post_digest r \<and> g4_release_tree sha p = Some t \<and>
    dig = tree_digest sha t \<and>
    f' = Some (r\<lparr>phase := VerifiedPhase, verification := Some (Inr ()), release_tree := Some t,
                  release_digest := tree_digest sha t\<rparr>))"
proof (cases "load_g4_attribution d f")
  case None
  with assms show ?thesis by (simp add: finish_g4_verification_def)
next
  case (Some r)
  let ?same = "tree_digest sha (g4_product_tree sha p) = post_digest r"
  from assms Some have ph: "phase r = AttributedPhase"
    by (auto simp: finish_g4_verification_def split: if_splits)
  show ?thesis
  proof (cases result)
    case (Inl why)
    with assms Some ph show ?thesis by (simp add: finish_g4_verification_def split: if_splits)
  next
    case (Inr u)
    with assms Some ph have ?same by (cases ?same) (simp_all add: finish_g4_verification_def split: if_splits)
    with assms Some ph Inr show ?thesis
      by (cases "g4_release_tree sha p") (auto simp: finish_g4_verification_def split: if_splits)
  qed
qed

lemma finish_Inl: "finish_g4_verification sha w d p f (Inl why) \<noteq> Some (Inr dig, g)"
  using finish_Inr by blast

lemma verify_Inr:
  assumes "verify_g4_build sha w d a validate p f = (Some (Inr dig), p', f')"
  shows "\<exists>f1 v. evaluate_g4_attribution sha w d p a f = (Inr (), f1) \<and> repo_has_real_product_src p \<and>
    validate p = (Ran v, p') \<and> validation_result v = Inr () \<and>
    finish_g4_verification sha w d p' f1 (Inr ()) = Some (Inr dig, f')"
proof -
  obtain f1 where e: "evaluate_g4_attribution sha w d p a f = (Inr (), f1)"
    using assms by (cases "evaluate_g4_attribution sha w d p a f" rule: prod.exhaust, rename_tac x y, case_tac x)
      (auto simp: verify_g4_build_def)
  obtain run q where q: "validate p = (run, q)" by fastforce
  have src: "repo_has_real_product_src p"
  proof (rule ccontr)
    assume "\<not> repo_has_real_product_src p"
    with assms e show False
      using finish_Inl [of sha w d p f1 NoProductSource]
      by (cases "finish_g4_verification sha w d p f1 (Inl NoProductSource)") (auto simp: verify_g4_build_def)
  qed
  have failed: "(case finish_g4_verification sha w d q f1 (Inl VerificationError) of None \<Rightarrow> (None, q, f1)
      | Some (r, g) \<Rightarrow> (Some r, q, g)) \<noteq> (Some (Inr dig), p', f')"
    using finish_Inl [of sha w d q f1 VerificationError]
    by (cases "finish_g4_verification sha w d q f1 (Inl VerificationError)") auto
  obtain v where v: "run = Ran v"
    using assms e src q failed by (cases run) (auto simp: verify_g4_build_def)
  obtain x g where fin: "finish_g4_verification sha w d q f1 (validation_result v) = Some (x, g)"
    using assms e src q failed v
    by (cases "finish_g4_verification sha w d q f1 (validation_result v)") (auto simp: verify_g4_build_def)
  from assms e src q v fin have "x = Inr dig" "q = p'" "g = f'" by (simp_all add: verify_g4_build_def)
  with finish_Inr [of sha w d q f1 "validation_result v" dig f'] e src q v fin show ?thesis by auto
qed

lemma validated: "validation_result v = Inr () \<longleftrightarrow>
    can_validate v \<and> frozen_tests_uncollected v = [] \<and> build_passed v \<and> test_passed v \<and> ux_ok v"
  by (cases "ux_ok v") (auto simp: validation_result_def)

text \<open>A small product: its sources before and after a build, and the same workspace with a directory that was
  replaced by a link.\<close>

definition demo_product :: "string \<Rightarrow> entry \<Rightarrow> product" where
  "demo_product code lib =
     \<lparr>files = [(''src'', Directory), (''src/a.ts'', Regular code), (''lib'', lib), (''lib/b'', Regular ''b'')],
      source_dir = ''src'', git = GitLists [''src/a.ts'', ''lib/b''] []\<rparr>"

definition demo_validate :: "product \<Rightarrow> validation_run \<times> product" where
  "demo_validate p =
     (Ran \<lparr>can_validate = True, frozen_tests_uncollected = [], build_passed = True, test_passed = True, ux_ok = True\<rparr>, p)"

definition demo_agent :: agent_result where
  "demo_agent = \<lparr>r_completed = True, r_wrote_no_files = False\<rparr>"

definition demo_start :: "g4_record option" where
  "demo_start = Some (fresh_record (\<lambda>x. x) (''r'', ''p'') (demo_product ''x'' Directory) 1)"

definition demo_verify :: "(g4_reason + string) option \<times> product \<times> g4_record option" where
  "demo_verify = verify_g4_build (\<lambda>x. x) True (''r'', ''p'') demo_agent demo_validate (demo_product ''y'' Directory) demo_start"

lemma demo_verified:
  obtains dig f where "demo_verify = (Some (Inr dig), demo_product ''y'' Directory, f)"
proof -
  have "case demo_verify of (Some (Inr _), p, _) \<Rightarrow> p = demo_product ''y'' Directory | _ \<Rightarrow> False" by code_simp
  then show ?thesis by (auto split: prod.splits option.splits sum.splits intro: that)
qed

text \<open>C7: A build counts as verified only if the agent completed and wrote files, some product source that is
  there now differs from the tree before the build by more than white space and comment lines, and an
  independent run built the product, passed all its tests with none of the frozen ones missing and passed the
  UX check without changing the sources.\<close>

theorem verified_build_means:
  assumes "verify_g4_build sha w d a validate p f = (Some (Inr dig), p', f')"
  shows "r_completed a \<and> \<not> r_wrote_no_files a \<and> repo_has_real_product_src p \<and>
    (\<exists>r base rel. load_g4_attribution d f = Some r \<and> baseline_meaningful_tree r = Some base \<and>
       dict_get (g4_meaningful_tree sha p) rel \<notin> {None, dict_get base rel}) \<and>
    (\<exists>v. validate p = (Ran v, p') \<and> can_validate v \<and> frozen_tests_uncollected v = [] \<and>
       build_passed v \<and> test_passed v \<and> ux_ok v) \<and>
    tree_digest sha (g4_product_tree sha p') = tree_digest sha (g4_product_tree sha p) \<and>
    map_option (tree_digest sha) (g4_release_tree sha p') = Some dig"
proof -
  from verify_Inr [OF assms] obtain f1 v where
    e: "evaluate_g4_attribution sha w d p a f = (Inr (), f1)" and p: "repo_has_real_product_src p"
    and v: "validate p = (Ran v, p')" "validation_result v = Inr ()"
    and f: "finish_g4_verification sha w d p' f1 (Inr ()) = Some (Inr dig, f')" by blast
  from evaluate_Inr [OF e] obtain r base where r: "load_g4_attribution d f = Some r"
    "f1 = Some (attributed sha p r)" "meaningful_written (attributed sha p r) \<noteq> Some []"
    "baseline_meaningful_tree r = Some base" and a: "r_completed a" "\<not> r_wrote_no_files a" by auto
  have "filter (tree_has (g4_meaningful_tree sha p)) (tree_changes base (g4_meaningful_tree sha p)) \<noteq> []"
    using r(3,4) by (simp add: attributed_def Let_def)
  then obtain rel where "rel \<in> set (tree_changes base (g4_meaningful_tree sha p))"
    "tree_has (g4_meaningful_tree sha p) rel" by (auto simp: filter_empty_conv)
  then have "dict_get (g4_meaningful_tree sha p) rel \<notin> {None, dict_get base rel}"
    by (auto simp: tree_changes_mem tree_has_def)
  moreover from finish_Inr [OF f] r(2)
  have "tree_digest sha (g4_product_tree sha p') = tree_digest sha (g4_product_tree sha p)"
    "map_option (tree_digest sha) (g4_release_tree sha p') = Some dig"
    by (auto simp: attributed_def Let_def dest!: load_SomeD)
  ultimately show ?thesis using a p v r(1,4) by (auto simp: validated)
qed

theorem verified_build_means_witness:
  "\<exists>rel. dict_get (g4_meaningful_tree (\<lambda>x. x) (demo_product ''y'' Directory)) rel \<noteq> None \<and>
     repo_has_real_product_src (demo_product ''y'' Directory)"
proof -
  obtain dig f where v: "demo_verify = (Some (Inr dig), demo_product ''y'' Directory, f)" by (rule demo_verified)
  from verified_build_means [OF v [unfolded demo_verify_def]] show ?thesis by auto
qed

text \<open>What the later check answers about the proof of a verified build.\<close>

lemma current_tree_answer:
  assumes "verify_g4_build sha w d a validate p f = (Some (Inr dig), p', f')"
  shows "g4_verification_for_current_tree sha d q f' =
    (if source_dir q \<noteq> source_dir p then Some (Inl SourceDirMoved)
     else if tree_digest sha (g4_product_tree sha q) \<noteq> tree_digest sha (g4_product_tree sha p')
     then Some (Inl SourceChangedAfter)
     else map_option (\<lambda>now. if tree_digest sha now = dig then Inr dig else Inl ReleaseChangedAfter)
            (g4_release_tree sha q))"
proof -
  from verify_Inr [OF assms] obtain f1 v where
    e: "evaluate_g4_attribution sha w d p a f = (Inr (), f1)"
    and f: "finish_g4_verification sha w d p' f1 (Inr ()) = Some (Inr dig, f')" by blast
  from evaluate_Inr [OF e] obtain r where r: "load_g4_attribution d f = Some r" "rec_source_dir r = source_dir p"
    "f1 = Some (attributed sha p r)" "meaningful_written (attributed sha p r) \<noteq> Some []" by blast
  from finish_Inr [OF f] r(3) obtain t where t: "g4_release_tree sha p' = Some t" "dig = tree_digest sha t"
    and post: "tree_digest sha (g4_product_tree sha p') = post_digest (attributed sha p r)"
    and f': "f' = Some ((attributed sha p r)\<lparr>phase := VerifiedPhase, verification := Some (Inr ()),
        release_tree := Some t, release_digest := tree_digest sha t\<rparr>)"
    by (auto dest!: load_SomeD)
  have load: "load_g4_attribution d f' = f'"
    unfolding f' by (rule load_ids [OF attributed_load [OF r(1)]]) simp_all
  have meaning: "meaningful_change (attributed sha p r) \<noteq> None" "meaningful_written (attributed sha p r) \<noteq> None"
    "rec_source_dir (attributed sha p r) = source_dir p"
    "\<exists>post. post_tree (attributed sha p r) = Some post \<and> tree_digest sha post = post_digest (attributed sha p r)"
    using r(2) by (simp_all add: attributed_def Let_def)
  then obtain post where p: "post_tree (attributed sha p r) = Some post"
    "tree_digest sha post = post_digest (attributed sha p r)" by blast
  show ?thesis
    using load meaning r(4) p post t(2)
    by (cases "g4_release_tree sha q") (auto simp: g4_verification_for_current_tree_def f')
qed

text \<open>C20: The proof holds later exactly for the bytes it was made for: in the same source directory, with the
  same digest of the product sources and the same digest of everything the release would ship.\<close>

theorem proof_binds_bytes:
  assumes "verify_g4_build sha w d a validate p f = (Some (Inr dig), p', f')"
  shows "g4_verification_for_current_tree sha d q f' = Some (Inr dig') \<longleftrightarrow>
    dig' = dig \<and> source_dir q = source_dir p \<and>
    tree_digest sha (g4_product_tree sha q) = tree_digest sha (g4_product_tree sha p') \<and>
    map_option (tree_digest sha) (g4_release_tree sha q) = Some dig"
  unfolding current_tree_answer [OF assms] by (cases "g4_release_tree sha q") auto

theorem proof_binds_bytes_witness:
  "\<exists>dig f. demo_verify = (Some (Inr dig), demo_product ''y'' Directory, f) \<and>
     g4_verification_for_current_tree (\<lambda>x. x) (''r'', ''p'') (demo_product ''y'' Directory) f = Some (Inr dig) \<and>
     g4_verification_for_current_tree (\<lambda>x. x) (''r'', ''p'') (demo_product ''z'' Directory) f \<noteq> Some (Inr dig)"
proof -
  obtain dig f where v: "demo_verify = (Some (Inr dig), demo_product ''y'' Directory, f)" by (rule demo_verified)
  note binds = proof_binds_bytes [OF v [unfolded demo_verify_def]]
  from verified_build_means [OF v [unfolded demo_verify_def]]
  have "map_option (tree_digest (\<lambda>x. x)) (g4_release_tree (\<lambda>x. x) (demo_product ''y'' Directory)) = Some dig"
    by blast
  then have "g4_verification_for_current_tree (\<lambda>x. x) (''r'', ''p'') (demo_product ''y'' Directory) f = Some (Inr dig)"
    by (subst binds) simp
  moreover have "tree_digest (\<lambda>x. x) (g4_product_tree (\<lambda>x. x) (demo_product ''z'' Directory)) \<noteq>
      tree_digest (\<lambda>x. x) (g4_product_tree (\<lambda>x. x) (demo_product ''y'' Directory))" by code_simp
  then have "g4_verification_for_current_tree (\<lambda>x. x) (''r'', ''p'') (demo_product ''z'' Directory) f \<noteq> Some (Inr dig)"
    by (subst binds) blast
  ultimately show ?thesis using v by blast
qed

text \<open>C40: The later check on the proof of a verified build raises, instead of answering, exactly when the
  sources are where and what they were and a path of the release cannot be hashed: a link stands above it, or it
  is a directory or a file that cannot be read. The code means to answer that the files could not be read. The
  names of the workspace are taken as normalised, as a listing has them.\<close>

theorem unreadable_release_raises:
  assumes "verify_g4_build sha w d a validate p f = (Some (Inr dig), p', f')"
    and "\<forall>rel \<in> set (map fst (files q)). normalise_rel rel = Some rel"
  shows "g4_verification_for_current_tree sha d q f' = None \<longleftrightarrow>
    source_dir q = source_dir p \<and>
    tree_digest sha (g4_product_tree sha q) = tree_digest sha (g4_product_tree sha p') \<and>
    (\<exists>rel \<in> set (release_paths (git q) (files q)).
       behind_link (files q) rel \<or> dict_get (files q) rel \<in> {Some Directory, Some Unreadable})"
  using workspace_release_tree_None [OF assms(2), of sha "git q"]
  by (simp add: current_tree_answer [OF assms(1)] g4_release_tree_def)

theorem unreadable_release_raises_witness:
  "\<exists>dig f. demo_verify = (Some (Inr dig), demo_product ''y'' Directory, f) \<and>
     g4_verification_for_current_tree (\<lambda>x. x) (''r'', ''p'') (demo_product ''y'' (Link ''elsewhere'')) f = None"
proof -
  let ?q = "demo_product ''y'' (Link ''elsewhere'')"
  obtain dig f where v: "demo_verify = (Some (Inr dig), demo_product ''y'' Directory, f)" by (rule demo_verified)
  have n: "\<forall>rel \<in> set (map fst (files ?q)). normalise_rel rel = Some rel" by code_simp
  have "source_dir ?q = source_dir (demo_product ''y'' Directory) \<and>
      tree_digest (\<lambda>x. x) (g4_product_tree (\<lambda>x. x) ?q) =
      tree_digest (\<lambda>x. x) (g4_product_tree (\<lambda>x. x) (demo_product ''y'' Directory)) \<and>
      (\<exists>rel \<in> set (release_paths (git ?q) (files ?q)). behind_link (files ?q) rel)" by code_simp
  then have "g4_verification_for_current_tree (\<lambda>x. x) (''r'', ''p'') ?q f = None"
    by (subst unreadable_release_raises [OF v [unfolded demo_verify_def] n]) blast
  with v show ?thesis by blast
qed

subsection \<open>Attempts\<close>

text \<open>The steps of the build gate on the evidence file, for one source directory; a process that stops between two
  of them is a shorter run.\<close>

datatype build_event =
    Prepare bool product
  | VerifyBuild bool agent_result "product \<Rightarrow> validation_run \<times> product" product

definition build_step ::
  "(string \<Rightarrow> string) \<Rightarrow> delivery \<Rightarrow> string \<Rightarrow> g4_record option \<Rightarrow> build_event \<Rightarrow> g4_record option" where
  "build_step sha d dir f e =
     (case e of
        Prepare w p \<Rightarrow> (case prepare_g4_attribution sha w d (p\<lparr>source_dir := dir\<rparr>) f of None \<Rightarrow> f | Some f' \<Rightarrow> f')
      | VerifyBuild w a validate p \<Rightarrow> snd (snd (verify_g4_build sha w d a validate (p\<lparr>source_dir := dir\<rparr>) f)))"

definition keeps_baseline ::
  "(string \<Rightarrow> string) \<Rightarrow> delivery \<Rightarrow> string \<Rightarrow> tree \<Rightarrow> tree \<Rightarrow> g4_record option \<Rightarrow> bool" where
  "keeps_baseline sha d dir base mean f \<longleftrightarrow>
     (\<exists>r. load_g4_attribution d f = Some r \<and> phase r \<noteq> NoPhase \<and> rec_source_dir r = dir \<and>
        baseline_tree r = Some base \<and> baseline_digest r = tree_digest sha base \<and>
        baseline_meaningful_tree r = Some mean \<and> baseline_meaningful_digest r = tree_digest sha mean)"

lemma keeps_update:
  "keeps_baseline sha d dir base mean (Some r) \<Longrightarrow> rec_version r' = rec_version r \<Longrightarrow> rec_run r' = rec_run r \<Longrightarrow>
   rec_project r' = rec_project r \<Longrightarrow> phase r' \<noteq> NoPhase \<Longrightarrow> rec_source_dir r' = rec_source_dir r \<Longrightarrow>
   baseline_tree r' = baseline_tree r \<Longrightarrow> baseline_digest r' = baseline_digest r \<Longrightarrow>
   baseline_meaningful_tree r' = baseline_meaningful_tree r \<Longrightarrow>
   baseline_meaningful_digest r' = baseline_meaningful_digest r \<Longrightarrow>
   keeps_baseline sha d dir base mean (Some r')"
  unfolding keeps_baseline_def using load_ids load_SomeD by (metis option.inject)

lemma keeps_obtain:
  assumes "keeps_baseline sha d dir base mean f"
  obtains r where "f = Some r" and "load_g4_attribution d (Some r) = Some r"
  using assms by (auto simp: keeps_baseline_def dest: load_SomeD)

lemma evaluate_keeps:
  assumes "keeps_baseline sha d dir base mean f"
  shows "keeps_baseline sha d dir base mean (snd (evaluate_g4_attribution sha w d p a f))"
proof -
  from assms obtain r where f: "f = Some r" and l: "load_g4_attribution d (Some r) = Some r" by (rule keeps_obtain)
  note k = keeps_update [OF assms [unfolded f]]
  show ?thesis
  proof (cases "attribution_refusal sha p a (Some r)")
    case None
    show ?thesis
      unfolding f evaluate_g4_attribution_def l None Let_def
      by (simp, intro conjI impI assms [unfolded f] k) (simp_all add: attributed_def Let_def)
  next
    case (Some why)
    show ?thesis
      unfolding f evaluate_g4_attribution_def l Some Let_def refuse_attribution_def
      by (simp, intro conjI impI assms [unfolded f] k) simp_all
  qed
qed

lemma finish_keeps:
  assumes "keeps_baseline sha d dir base mean f" and "finish_g4_verification sha w d p f result = Some (x, f')"
  shows "keeps_baseline sha d dir base mean f'"
proof -
  from assms(1) obtain r where f: "f = Some r" and l: "load_g4_attribution d (Some r) = Some r" by (rule keeps_obtain)
  have k: "keeps_baseline sha d dir base mean (Some r')"
    if "\<exists>ph v t h. ph \<noteq> NoPhase \<and> r' = r\<lparr>phase := ph, verification := v, release_tree := t, release_digest := h\<rparr>"
    for r' using that by (auto intro!: keeps_update [OF assms(1) [unfolded f]])
  have same: "r\<lparr>phase := ph, verification := v\<rparr> =
      r\<lparr>phase := ph, verification := v, release_tree := release_tree r, release_digest := release_digest r\<rparr>"
    for ph v by simp
  from assms(2) have "f' = f \<or> (\<exists>ph v t h. ph \<noteq> NoPhase \<and>
      f' = Some (r\<lparr>phase := ph, verification := v, release_tree := t, release_digest := h\<rparr>))"
    unfolding f finish_g4_verification_def l Let_def
    by (auto split: if_splits sum.splits option.splits intro: same)
      (metis same g4_phase.distinct)+
  with k assms(1) show ?thesis by blast
qed

lemma verify_keeps:
  assumes "keeps_baseline sha d dir base mean f"
  shows "keeps_baseline sha d dir base mean (snd (snd (verify_g4_build sha w d a validate p f)))"
proof -
  obtain e f1 where e: "evaluate_g4_attribution sha w d p a f = (e, f1)" by fastforce
  with evaluate_keeps [OF assms, of w p a] have k: "keeps_baseline sha d dir base mean f1" by simp
  obtain run q where "validate p = (run, q)" by fastforce
  with e show ?thesis
    by (auto simp: verify_g4_build_def Let_def k dest: finish_keeps [OF k]
        split: sum.split option.split validation_run.split unit.split)
qed

lemma prepare_keeps:
  assumes "keeps_baseline sha d dir base mean f" and "prepare_g4_attribution sha w d (p\<lparr>source_dir := dir\<rparr>) f = Some f'"
  shows "keeps_baseline sha d dir base mean f'"
proof -
  from assms(1) obtain r where f: "f = Some r" and l: "load_g4_attribution d (Some r) = Some r" by (rule keeps_obtain)
  have v: "baseline_valid sha (p\<lparr>source_dir := dir\<rparr>) r"
    using assms(1) by (auto simp: keeps_baseline_def baseline_valid_def tree_ok_def f l)
  from assms(2) have "f' = f \<or> f' = Some (r\<lparr>attempt := max 1 (attempt r + 1), phase := RunningPhase\<rparr>)"
    unfolding f prepare_g4_attribution_def l by (simp add: v split: if_splits)
  moreover have "keeps_baseline sha d dir base mean (Some (r\<lparr>attempt := max 1 (attempt r + 1), phase := RunningPhase\<rparr>))"
    by (rule keeps_update [OF assms(1) [unfolded f]]) simp_all
  ultimately show ?thesis using assms(1) by blast
qed

interpretation build: machine "build_step sha d dir" "keeps_baseline sha d dir base mean"
  for sha d dir base mean
  by unfold_locales
    (auto simp: build_step_def verify_keeps split: build_event.split option.split intro: prepare_keeps)

text \<open>Every attempt of a delivery is measured against the tree before its first build: whatever sequence of
  preparations, refused, interrupted and verified builds follows, the baseline is the one the
  first preparation captured, so that a rerun on the populated tree cannot hide or lose the work.\<close>

theorem baseline_survives:
  assumes "prepare_g4_attribution sha True d p None = Some f" and "snd d \<noteq> []"
  shows "keeps_baseline sha d (source_dir p) (g4_product_tree sha p) (g4_meaningful_tree sha p)
    (foldl (build_step sha d (source_dir p)) f es)"
proof (rule build.run_inv)
  show "keeps_baseline sha d (source_dir p) (g4_product_tree sha p) (g4_meaningful_tree sha p) f"
    using assms
    by (auto simp: prepare_g4_attribution_def load_g4_attribution_def fresh_record_def keeps_baseline_def
        split: if_splits)
qed

theorem baseline_survives_witness:
  "\<exists>f. prepare_g4_attribution (\<lambda>x. x) True (''r'', ''p'') (demo_product ''x'' Directory) None = Some f \<and>
     keeps_baseline (\<lambda>x. x) (''r'', ''p'') ''src'' [(''src/a.ts'', ''x'')] [(''src/a.ts'', ''x'')]
       (foldl (build_step (\<lambda>x. x) (''r'', ''p'') ''src'') f
         [VerifyBuild True demo_agent demo_validate (demo_product ''y'' Directory),
          Prepare True (demo_product ''y'' Directory)])"
proof -
  have p: "prepare_g4_attribution (\<lambda>x. x) True (''r'', ''p'') (demo_product ''x'' Directory) None = Some demo_start"
    by (simp add: prepare_g4_attribution_def load_g4_attribution_def demo_start_def)
  have "source_dir (demo_product ''x'' Directory) = ''src''"
    "g4_product_tree (\<lambda>x. x) (demo_product ''x'' Directory) = [(''src/a.ts'', ''x'')]"
    "g4_meaningful_tree (\<lambda>x. x) (demo_product ''x'' Directory) = [(''src/a.ts'', ''x'')]" by code_simp+
  with baseline_survives [OF p] p show ?thesis by (simp del: foldl.simps)
qed

end
