(* ===== verification/GateWalk.thy ===== *)
theory GateWalk
  imports Signing BuildProof GateReview
begin

section \<open>The gate walk (\<open>product/gate_orchestrator.py\<close>)\<close>

text \<open>
  \<open>GateOrchestrator\<close>: it runs the agent of a gate, decides whether the result can be reviewed, and waits
  for a verdict. A \<open>walk\<close> is an orchestrator with everything it changes: the delivery state and its
  checkpoint on disk, the artifacts and the audit trail, the product, the G4 evidence, the
  lock, and the events it sends. What happens outside is the argument \<open>x\<close>: the agent's
  runs, the validation run, the cancel flag, the plan files, the scanners and the finalizer.
  Brief, completeness, preview and incident events, and the closeout files, are advice that changes
  nothing here; they are left out, and so is a checkpoint that cannot be written.
\<close>

subsection \<open>The delivery state\<close>

datatype profile = Benchmark | Production

datatype walk_status = Active | AwaitingVerdict | Blocked | Stopped | Complete | Reopened | Cancelled

record review_note =
  note_verdict :: string
  note_cycle :: int
  note_feedback :: string

record invalidation =
  inv_gate :: string
  inv_reason :: string
  inv_cascade :: bool
  inv_waived :: bool

datatype block_reason =
    Why string
  | BuildNotVerified "g4_reason option"

record gate_outcome =
  out_gate :: string
  out_block :: "block_reason option"
  out_status :: string
  out_failure :: string

record runtime_proof =
  rt_status :: string
  rt_stack :: string
  rt_ux_required :: "bool option"
  rt_ux_status :: string
  rt_ux_executed :: bool
  rt_ux_schema :: string
  rt_ok :: bool

datatype release_reason =
    WaivedGates "string list" | UnresolvedConditions "string list" | NoProduct | NotInState string
  | StrictFailed string strict_reason | ProofNotCurrent g4_reason | NoReleaseDigest | SecurityNotPassed
  | RuntimeNotPassed | NoUxRequirement | StackChanged | UxRequirementChanged | UxUndetermined
  | UxNotPassed | UxNotExecuted | UxBadSchema | WrongTerminalGate | BadMarker string

record release_truth =
  truth_reasons :: "release_reason list"
  truth_digest :: string

datatype marker_status = Pending | Succeeded | Failed
datatype marker_phase = PhaseVerified | PhaseSigned

record marker =
  m_status :: marker_status
  m_phase :: marker_phase
  m_delivery :: delivery
  m_profile :: profile
  m_digest :: string
  m_attempts :: nat
  m_receipt :: bool

record delivery_state =
  current_gate :: string
  status :: walk_status
  rework :: "string \<Rightarrow> int"
  rejections :: "string \<Rightarrow> int"
  reopens :: "string \<Rightarrow> int"
  signed :: "string list"
  waived :: "string list"
  review_notes :: "(string \<times> review_note) list"
  invalidated :: "invalidation list"
  conditions :: "(string \<times> string) list"
  last_outcome :: "gate_outcome option"
  g4_evidence :: "(g4_reason + string) option"
  security_evidence :: "string option"
  runtime_evidence :: "runtime_proof option"
  verification_evidence :: "release_truth option"
  finalization :: "marker option"

datatype walk_event =
    Dispatch string "delivery_state option"
  | RetryEvent string nat | GateCard string | GateBlocked string | SignedEvent string | ErrorEvent string
  | CancelledEvent string | ReleaseVerified bool | DeliveryComplete bool | Reviewed string string int
  | ReopenedEvent string | Finalized string

text \<open>\<open>walk_prompt\<close> is the founder's prompt, \<open>enforce\<close> the production sign path and
  \<open>enforce_blocked\<close> its part that also holds after a resume.\<close>

record walk =
  st :: delivery_state
  checkpoint :: "delivery_state option"
  g4_verify :: "(g4_reason + string) option"
  runtime_ok :: bool
  ws :: gate_ws
  prod :: product
  g4_file :: "g4_record option"
  lock_held :: bool
  events :: "walk_event list"
  enforce :: bool
  enforce_blocked :: bool

record config =
  walk_delivery :: delivery
  walk_profile :: profile
  walk_signer :: string
  walk_prompt :: string
  max_rework :: int
  max_rejections :: int
  max_reopens :: int

subsection \<open>The outside\<close>

record run_result =
  run_status :: string
  run_wrote_no_files :: bool
  run_error :: string
  run_failure :: string

record plan_task =
  task_id :: string
  task_name :: string
  task_test :: string

record plan_view =
  acceptance_exists :: bool
  plan_md :: "string option"
  tasks_yaml_exists :: bool
  plan_tasks :: "plan_task list"
  skeleton_exists :: "string \<Rightarrow> bool"

datatype finalizer_outcome = FinSucceeded bool | FinDeferred | FinFailed | FinCancelled

record outside =
  sha_of :: "string \<Rightarrow> string"
  loads_of :: "string \<Rightarrow> py option"
  clock_of :: clock
  strict_of :: strict_env
  wave_of :: py
  outcome_proven :: bool
  placeholders :: "string \<Rightarrow> string list"
  custom_sign :: "string \<Rightarrow> gate_ws \<Rightarrow> bool \<times> gate_ws"
  agent_run :: "string \<Rightarrow> nat \<Rightarrow> string \<Rightarrow> gate_ws \<times> product \<Rightarrow> run_result \<times> gate_ws \<times> product"
  scaffold :: "product \<Rightarrow> product"
  dependencies_ok :: bool
  evidence_writable :: bool
  validate_run :: "product \<Rightarrow> validation_run \<times> product"
  fresh_artifact :: "string \<Rightarrow> nat \<Rightarrow> bool"
  fresh_work_dir :: "nat \<Rightarrow> bool"
  plan_of :: plan_view
  cancel_at :: "string \<Rightarrow> bool"
  lock_free :: bool
  scan_result :: string
  proof_result :: runtime_proof
  ux_now :: "(string \<times> bool) option"
  finalizer_free :: bool
  finalizer :: finalizer_outcome

subsection \<open>Gates\<close>

definition GATE_ORDER :: "string list" where
  "GATE_ORDER = [''G0'', ''G1'', ''G2'', ''G3'', ''G4'', ''G5'']"

definition gate_index :: "string \<Rightarrow> nat" where
  "gate_index g = length (takeWhile (\<lambda>h. h \<noteq> g) GATE_ORDER)"

definition next_after :: "string \<Rightarrow> string option" where
  "next_after g =
     (if gate_index g + 1 < length GATE_ORDER then Some (GATE_ORDER ! (gate_index g + 1)) else None)"

definition GATE_ROLES :: "(string \<times> string) list" where
  "GATE_ROLES =
     [(''G0'', ''PE''), (''G1'', ''PO''), (''G2'', ''PO''), (''G3'', ''PE''), (''G4'', ''PE''), (''G5'', ''QA'')]"

definition role_for :: "string \<Rightarrow> string" where
  "role_for g = (case dict_get GATE_ROLES g of Some r \<Rightarrow> r | None \<Rightarrow> ''PO'')"

definition emit :: "walk_event \<Rightarrow> walk \<Rightarrow> walk" where
  "emit e w = w\<lparr>events := events w @ [e]\<rparr>"

definition persist :: "walk \<Rightarrow> walk" where
  "persist w = w\<lparr>checkpoint := Some (st w)\<rparr>"

definition upd :: "(delivery_state \<Rightarrow> delivery_state) \<Rightarrow> walk \<Rightarrow> walk" where
  "upd f w = w\<lparr>st := f (st w)\<rparr>"

definition unlock :: "walk \<Rightarrow> walk" where
  "unlock w = w\<lparr>lock_held := False\<rparr>"

subsection \<open>The message to the agent\<close>

definition WRITE_DIRECTIVE :: string where
  "WRITE_DIRECTIVE =
     '' Do the work now by WRITING your gate's declared output file(s) with your '' @
     ''file tools (per the agent card's Outputs) -- emit the artifacts as files, '' @
     ''do not just describe or summarize them in prose.''"

definition GATE_TASK_FRAMING :: "(string \<times> string) list" where
  "GATE_TASK_FRAMING =
     [(''G0'',
        ''You are at Gate G0 (Onboarding) of a governed delivery. The founder '' @
        ''prompt below is the product brief -- do not implement it now. Author '' @
        ''this gate's onboarding/governance artifacts FOR that product; '' @
        ''implementation happens at later gates.'' @ WRITE_DIRECTIVE),
      (''G1'',
        ''You are at Gate G1 (Brainstorm) of a governed delivery. The founder '' @
        ''prompt below is the product brief -- do not implement it now, and do '' @
        ''not merely re-read or re-verify the Belief drafted earlier. Produce '' @
        ''this gate's brainstorm artifact for that product: hypotheses, risks, '' @
        ''edge cases, and a killer experiment.'' @ WRITE_DIRECTIVE),
      (''G2'',
        ''You are at Gate G2 (Plan) of a governed delivery. The founder prompt '' @
        ''below is the product brief -- do not implement it now. Produce this '' @
        ''gate's plan artifacts (expectation map, task plan, acceptance '' @
        ''criteria, test skeletons) for that product. Every buildable task in '' @
        ''PLAN.tasks.yaml MUST carry a `test:` field naming its RED '' @
        ''acceptance-test skeleton, and you MUST create that skeleton file at '' @
        ''that path -- a task with no test, or a test path with no file on '' @
        ''disk, fails this gate.'' @ WRITE_DIRECTIVE),
      (''G3'',
        ''You are at Gate G3 (Design) of a governed delivery. The founder '' @
        ''prompt below is the product brief -- do not implement it now. '' @
        ''Produce this gate's design artifacts for that product.'' @ WRITE_DIRECTIVE),
      (''G5'',
        ''You are at Gate G5 (Release readiness) of a governed delivery. The '' @
        ''build is complete; summarize its evidence into this gate's '' @
        ''release-readiness artifacts. Do not rebuild the product.'' @ WRITE_DIRECTIVE)]"

definition newline :: char where "newline = CHR 0x0A"

definition paragraphs :: "string list \<Rightarrow> string" where
  "paragraphs ps = join [newline, newline] ps"

definition g4_build_directive :: "string \<Rightarrow> string" where
  "g4_build_directive base =
     paragraphs [base,
       ''You are at the Build gate. Implement the product for REAL: the '' @
       ''signed plan's acceptance tests are the spec, and this gate cannot '' @
       ''be signed until the product actually builds and its tests pass '' @
       ''green on an independent run. Writing evidence without real, '' @
       ''working implementation is a stub and will be refused.'']"

definition first_count :: "int list \<Rightarrow> int" where
  "first_count ns = (case filter (\<lambda>n. n \<noteq> 0) ns of [] \<Rightarrow> 0 | n # _ \<Rightarrow> n)"

definition latest_header :: "delivery_state \<Rightarrow> string \<Rightarrow> review_note \<Rightarrow> string" where
  "latest_header s gate e =
     (if note_verdict e = ''reject'' then
        ''[Rejection '' @ int_str (rejections s gate) @ '' - the reviewer rejected the previous '' @
        ''output; regenerate it, addressing this feedback:]''
      else if note_verdict e = ''reopen'' then
        ''[Reopen '' @ int_str (reopens s gate) @ '' - the reviewer reopened this previously '' @
        ''signed gate; rework it, addressing this reason:]''
      else ''[Rework cycle '' @ int_str (rework s gate) @ '' - the reviewer requested these changes:]'')"

definition gate_notes :: "delivery_state \<Rightarrow> string \<Rightarrow> review_note list" where
  "gate_notes s gate =
     filter (\<lambda>e. strip (note_feedback e) \<noteq> []) (map snd (filter (\<lambda>(g, _). g = gate) (review_notes s)))"

definition gate_message :: "config \<Rightarrow> delivery_state \<Rightarrow> string \<Rightarrow> string option \<Rightarrow> string" where
  "gate_message c s gate correction =
     (let base = (if walk_prompt c = [] then ''Proceed with the delivery.'' else walk_prompt c);
          base = (if gate = ''G4'' then g4_build_directive base
                  else (case dict_get GATE_TASK_FRAMING gate of
                          None \<Rightarrow> base | Some framing \<Rightarrow> paragraphs [framing, base]));
          base = (case correction of None \<Rightarrow> base | Some t \<Rightarrow> paragraphs [t, base]);
          counts = [rework s gate, rejections s gate, reopens s gate]
      in if gate \<noteq> current_gate s \<or> list_all (\<lambda>n. n = 0) counts then base
         else
           (case rev (gate_notes s gate) of
              [] \<Rightarrow> paragraphs [base, ''[Rework cycle '' @ int_str (first_count counts) @
                                        '' - address the prior feedback.]'']
            | latest # prior \<Rightarrow>
                paragraphs
                  ([base, latest_header s gate latest @ newline # note_feedback latest] @
                   (if prior = [] then []
                    else [''[Feedback from earlier review cycles:]'' @ newline #
                          join [newline] (map (\<lambda>e. ''- '' @ note_feedback e) (rev prior))]))))"

definition record_review :: "string \<Rightarrow> string \<Rightarrow> string \<Rightarrow> int \<Rightarrow> bool \<Rightarrow> walk \<Rightarrow> walk" where
  "record_review gate v fb cycle keep w =
     emit (Reviewed gate v cycle)
       (if keep then
          upd (\<lambda>s. s\<lparr>review_notes := review_notes s @
            [(gate, \<lparr>note_verdict = v, note_cycle = cycle, note_feedback = fb\<rparr>)]\<rparr>) w
        else w)"

subsection \<open>Is the gate's work reviewable?\<close>

definition UNREVIEWABLE_LOOP_STATUSES :: "string list" where
  "UNREVIEWABLE_LOOP_STATUSES =
     [''error'', ''cancelled'', ''budget_exhausted'', ''stalled_no_tool'', ''max_tokens'', ''text_only'',
      ''stalled_incomplete'']"

definition missing_artifacts :: "gate_ws \<Rightarrow> string \<Rightarrow> string list" where
  "missing_artifacts s gate =
     map rel_path (filter (\<lambda>a. art_files s (rel_path a) = None) (expected_gate_artifacts gate))"

text \<open>\<open>_required_artifact_state\<close>; the start of the run is known whenever it is called.\<close>

definition required_artifact_state :: "outside \<Rightarrow> gate_ws \<Rightarrow> string \<Rightarrow> nat \<Rightarrow> string list \<times> bool" where
  "required_artifact_state x s gate n =
     (let missing = missing_artifacts s gate; es = expected_gate_artifacts gate in
      if es = [] then ([], False)
      else (missing, missing = [] \<and> \<not> list_ex (\<lambda>a. fresh_artifact x (rel_path a) n) es))"

definition gate_agent_produced_fresh_work :: "outside \<Rightarrow> string \<Rightarrow> nat \<Rightarrow> bool" where
  "gate_agent_produced_fresh_work x gate n \<longleftrightarrow> gate = ''G1'' \<and> fresh_work_dir x n"

definition surfaced :: "string \<Rightarrow> plan_task \<Rightarrow> bool" where
  "surfaced doc t \<longleftrightarrow>
     (task_name t \<noteq> [] \<and> occurs_in (task_name t) doc) \<or> (task_id t \<noteq> [] \<and> occurs_in (task_id t) doc)"

definition task_label :: "plan_task \<Rightarrow> string" where
  "task_label t = (if task_id t \<noteq> [] then task_id t else if task_name t \<noteq> [] then task_name t else ''?'')"

definition has_test :: "plan_task \<Rightarrow> bool" where
  "has_test t \<longleftrightarrow> strip (task_test t) \<noteq> []"

definition listed_problem :: "string \<Rightarrow> string list \<Rightarrow> string \<Rightarrow> string list" where
  "listed_problem label items rest =
     (if items = [] then [] else [label @ join '', '' (take 5 items) @ rest])"

definition validate_g2_plan_contract :: "plan_view \<Rightarrow> string list" where
  "validate_g2_plan_contract p =
     (let first = (if acceptance_exists p then [] else [''ACCEPTANCE_CRITERIA.md missing'']) @
                  (if plan_md p = None then [''rendered PLAN.md missing''] else []);
          doc = (case plan_md p of None \<Rightarrow> [] | Some t \<Rightarrow> t);
          ts = filter has_test (plan_tasks p)
      in if plan_tasks p = [] then
           first @ [if tasks_yaml_exists p then ''PLAN.tasks.yaml has no valid tasks''
                    else ''PLAN.tasks.yaml missing (no executable task plan)'']
         else
           first @
           listed_problem ''task(s) without an acceptance test: ''
             (map task_label (filter (\<lambda>t. \<not> has_test t) (plan_tasks p))) [] @
           listed_problem ''missing RED test skeleton(s): ''
             (filter (\<lambda>f. \<not> skeleton_exists p f) (map (\<lambda>t. strip (task_test t)) ts)) [] @
           listed_problem ''PLAN.md not in parity with PLAN.tasks.yaml (missing: ''
             (if doc = [] then [] else map task_label (filter (\<lambda>t. \<not> surfaced doc t) ts)) '')'')"

text \<open>\<open>_gate_review_ready\<close> after the \<open>n\<close>-th attempt: \<open>None\<close> is a reviewable gate.\<close>

definition gate_review_ready :: "outside \<Rightarrow> walk \<Rightarrow> string \<Rightarrow> nat \<Rightarrow> run_result \<Rightarrow> block_reason option" where
  "gate_review_ready x w gate n r =
     (if gate = ''G4'' then
        (case g4_verify w of
           Some (Inr _) \<Rightarrow> None
         | Some (Inl why) \<Rightarrow> Some (BuildNotVerified (Some why))
         | None \<Rightarrow> Some (BuildNotVerified None))
      else if run_status r \<in> set UNREVIEWABLE_LOOP_STATUSES then
        Some (Why (''agent did not complete the gate (outcome: '' @ run_status r @ '')''))
      else if run_status r \<noteq> [] \<and> run_status r \<noteq> ''completed'' then
        Some (Why (''agent outcome was not a success (outcome: '' @ run_status r @ '')''))
      else if run_wrote_no_files r then Some (Why ''agent produced no files this run (narration only)'')
      else
        (let (missing, none_fresh) = required_artifact_state x (ws w) gate n in
         if missing \<noteq> [] then Some (Why (''required artifact(s) missing on disk: '' @ join '', '' missing))
         else if none_fresh \<and> \<not> gate_agent_produced_fresh_work x gate n then
           Some (Why (''no required artifact was written this run (stale outputs) -- '' @
                      ''the agent did not (re)produce the gate's artifacts''))
         else if gate = ''G2'' \<and> validate_g2_plan_contract (plan_of x) \<noteq> [] then
           Some (Why (''G2 plan contract incomplete: '' @ join ''; '' (validate_g2_plan_contract (plan_of x))))
         else None))"

subsection \<open>Running a gate\<close>

definition dispatch :: "outside \<Rightarrow> config \<Rightarrow> string \<Rightarrow> nat \<Rightarrow> string option \<Rightarrow> walk \<Rightarrow> run_result \<times> walk" where
  "dispatch x c gate n correction w =
     (let (r, s, p) = agent_run x gate n (gate_message c (st w) gate correction) (ws w, prod w)
      in (r, w\<lparr>ws := s, prod := p\<rparr>))"

definition failed_run :: "string \<Rightarrow> run_result" where
  "failed_run failure = \<lparr>run_status = ''error'', run_wrote_no_files = False, run_error = [], run_failure = failure\<rparr>"

text \<open>\<open>_execute_build_gate\<close>: scaffold, dependencies, baseline, build, independent verification.\<close>

definition execute_build_gate :: "outside \<Rightarrow> config \<Rightarrow> nat \<Rightarrow> string option \<Rightarrow> walk \<Rightarrow> run_result \<times> walk" where
  "execute_build_gate x c n correction w =
     (let w = w\<lparr>prod := scaffold x (prod w)\<rparr> in
      if \<not> dependencies_ok x then
        (failed_run ''dependency-broker-unavailable'', w\<lparr>g4_verify := Some (Inl DependencyBoundary)\<rparr>)
      else
        (let w = (case prepare_g4_attribution (sha_of x) (evidence_writable x) (walk_delivery c) (prod w) (g4_file w) of
                    None \<Rightarrow> w
                  | Some f \<Rightarrow> w\<lparr>g4_file := f\<rparr>);
             (r, w) = dispatch x c ''G4'' n correction w;
             a = \<lparr>r_completed = (run_status r = ''completed''), r_wrote_no_files = run_wrote_no_files r\<rparr>;
             (v, p, f) = verify_g4_build (sha_of x) (evidence_writable x) (walk_delivery c) a (validate_run x)
                           (prod w) (g4_file w);
             w = w\<lparr>prod := p, g4_file := f\<rparr>
         in case v of
              None \<Rightarrow> (failed_run ''sandbox-unavailable'', w\<lparr>g4_verify := Some (Inl ContainmentFailed)\<rparr>)
            | Some g4 \<Rightarrow> (r, w\<lparr>g4_verify := Some g4\<rparr>)))"

definition execute_gate ::
  "outside \<Rightarrow> config \<Rightarrow> string \<Rightarrow> nat \<Rightarrow> string option \<Rightarrow> walk \<Rightarrow> run_result \<times> walk" where
  "execute_gate x c gate n correction w =
     (let w = emit (Dispatch gate (checkpoint w)) w
      in if gate = ''G4'' then execute_build_gate x c n correction w else dispatch x c gate n correction w)"

definition MAX_GATE_COMPLETION_RETRIES :: nat where
  "MAX_GATE_COMPLETION_RETRIES = 2"

definition correction_text :: "string \<Rightarrow> block_reason \<Rightarrow> string" where
  "correction_text gate why =
     ''Your '' @ gate @ '' output is INCOMPLETE and cannot be reviewed yet. '' @
     ''Fix EXACTLY these gaps by WRITING the missing files now with '' @
     ''your file tools -- keep going until every listed artifact '' @
     ''exists on disk; do not stop, summarize, or narrate:'' @
     newline # (case why of Why t \<Rightarrow> t | BuildNotVerified _ \<Rightarrow> [])"

definition cancel_run :: "string \<Rightarrow> run_result \<Rightarrow> walk \<Rightarrow> walk" where
  "cancel_run gate r w =
     unlock (emit (CancelledEvent gate) (persist (upd (\<lambda>s. s\<lparr>status := Cancelled,
       last_outcome := Some \<lparr>out_gate = gate, out_block = Some (Why (if run_error r = [] then ''delivery cancelled'' else run_error r)),
                             out_status = ''cancelled'', out_failure = []\<rparr>\<rparr>) w)))"

definition settle :: "string \<Rightarrow> run_result \<Rightarrow> block_reason option \<Rightarrow> walk \<Rightarrow> walk" where
  "settle gate r outcome w =
     (let w = upd (\<lambda>s. s\<lparr>last_outcome := Some \<lparr>out_gate = gate, out_block = outcome,
                           out_status = run_status r, out_failure = strip (run_failure r)\<rparr>,
                         status := (if outcome = None then AwaitingVerdict else Blocked)\<rparr>)
                (emit (GateCard gate) w)
      in persist (if outcome = None then w else emit (GateBlocked gate) w))"

text \<open>The loop over the attempts, of which \<open>left\<close> may still be retried.\<close>

fun attempts :: "outside \<Rightarrow> config \<Rightarrow> string \<Rightarrow> nat \<Rightarrow> nat \<Rightarrow> string option \<Rightarrow> walk \<Rightarrow> walk" where
  "attempts x c gate left n correction w =
     (let (r, w) = execute_gate x c gate n correction w in
      if run_status r = ''cancelled'' then cancel_run gate r w
      else
        (let w = (if gate = ''G4'' \<and> g4_verify w \<noteq> None
                  then upd (\<lambda>s. s\<lparr>g4_evidence := g4_verify w\<rparr>) w else w);
             outcome = gate_review_ready x w gate n r
         in case (outcome, left) of
              (Some why, Suc left') \<Rightarrow>
                if gate = ''G4'' \<or> run_status r \<noteq> ''completed'' then settle gate r outcome w
                else attempts x c gate left' (n + 1) (Some (correction_text gate why))
                       (emit (RetryEvent gate (n + 1)) w)
            | _ \<Rightarrow> settle gate r outcome w))"

declare attempts.simps [simp del]

definition run_gate :: "outside \<Rightarrow> config \<Rightarrow> string \<Rightarrow> walk \<Rightarrow> walk" where
  "run_gate x c gate w =
     attempts x c gate MAX_GATE_COMPLETION_RETRIES 0 None (upd (\<lambda>s. s\<lparr>current_gate := gate\<rparr>) w)"

subsection \<open>What a run of a gate changes\<close>

lemma emit_simps [simp]:
  "st (emit e w) = st w" "checkpoint (emit e w) = checkpoint w" "ws (emit e w) = ws w" "prod (emit e w) = prod w"
  "g4_file (emit e w) = g4_file w" "g4_verify (emit e w) = g4_verify w" "runtime_ok (emit e w) = runtime_ok w"
  "lock_held (emit e w) = lock_held w" "enforce (emit e w) = enforce w"
  "enforce_blocked (emit e w) = enforce_blocked w" "events (emit e w) = events w @ [e]"
  by (simp_all add: emit_def)

lemma persist_simps [simp]:
  "st (persist w) = st w" "checkpoint (persist w) = Some (st w)" "ws (persist w) = ws w" "prod (persist w) = prod w"
  "g4_file (persist w) = g4_file w" "g4_verify (persist w) = g4_verify w" "runtime_ok (persist w) = runtime_ok w"
  "lock_held (persist w) = lock_held w" "enforce (persist w) = enforce w"
  "enforce_blocked (persist w) = enforce_blocked w" "events (persist w) = events w"
  by (simp_all add: persist_def)

lemma upd_simps [simp]:
  "st (upd f w) = f (st w)" "checkpoint (upd f w) = checkpoint w" "ws (upd f w) = ws w" "prod (upd f w) = prod w"
  "g4_file (upd f w) = g4_file w" "g4_verify (upd f w) = g4_verify w" "runtime_ok (upd f w) = runtime_ok w"
  "lock_held (upd f w) = lock_held w" "enforce (upd f w) = enforce w"
  "enforce_blocked (upd f w) = enforce_blocked w" "events (upd f w) = events w"
  by (simp_all add: upd_def)

lemma unlock_simps [simp]:
  "st (unlock w) = st w" "checkpoint (unlock w) = checkpoint w" "ws (unlock w) = ws w" "prod (unlock w) = prod w"
  "g4_file (unlock w) = g4_file w" "g4_verify (unlock w) = g4_verify w" "runtime_ok (unlock w) = runtime_ok w"
  "enforce (unlock w) = enforce w" "enforce_blocked (unlock w) = enforce_blocked w" "events (unlock w) = events w"
  "lock_held (unlock w) = False"
  by (simp_all add: unlock_def)

text \<open>The part of the state that only verdicts and reopenings change.\<close>

definition core where
  "core s = (rework s, rejections s, reopens s, signed s, waived s, conditions s)"

lemma core_simps [simp]:
  "core (s\<lparr>current_gate := a\<rparr>) = core s" "core (s\<lparr>status := b\<rparr>) = core s" "core (s\<lparr>last_outcome := d\<rparr>) = core s"
  "core (s\<lparr>g4_evidence := e\<rparr>) = core s" "core (s\<lparr>security_evidence := f\<rparr>) = core s"
  "core (s\<lparr>runtime_evidence := g\<rparr>) = core s" "core (s\<lparr>verification_evidence := h\<rparr>) = core s"
  "core (s\<lparr>finalization := i\<rparr>) = core s" "core (s\<lparr>review_notes := j\<rparr>) = core s" "core (s\<lparr>invalidated := k\<rparr>) = core s"
  by (simp_all add: core_def)

lemma execute_gate_frame:
  assumes "execute_gate x c gate n correction w = (r, w')"
  shows "st w' = st w" and "checkpoint w' = checkpoint w" and "enforce w' = enforce w"
    and "enforce_blocked w' = enforce_blocked w" and "events w' = events w @ [Dispatch gate (checkpoint w)]"
  using assms
  by (auto simp: execute_gate_def dispatch_def execute_build_gate_def Let_def
      split: if_splits prod.splits option.splits)

lemma settle_frame:
  "core (st (settle gate r out w)) = core (st w)" "checkpoint (settle gate r out w) = Some (st (settle gate r out w))"
  "enforce (settle gate r out w) = enforce w" "enforce_blocked (settle gate r out w) = enforce_blocked w"
  "current_gate (st (settle gate r out w)) = current_gate (st w)"
  "\<exists>es. events (settle gate r out w) = events w @ es \<and> (\<forall>g d. Dispatch g d \<notin> set es)"
  by (auto simp: settle_def Let_def)

lemma cancel_run_frame:
  "core (st (cancel_run gate r w)) = core (st w)" "checkpoint (cancel_run gate r w) = Some (st (cancel_run gate r w))"
  "enforce (cancel_run gate r w) = enforce w" "enforce_blocked (cancel_run gate r w) = enforce_blocked w"
  "current_gate (st (cancel_run gate r w)) = current_gate (st w)"
  "\<exists>es. events (cancel_run gate r w) = events w @ es \<and> (\<forall>g d. Dispatch g d \<notin> set es)"
  by (auto simp: cancel_run_def)

text \<open>Dispatches among events.\<close>

definition dispatch_log :: "walk_event list \<Rightarrow> (string \<times> delivery_state option) list" where
  "dispatch_log es = List.map_filter (\<lambda>e. case e of Dispatch g d \<Rightarrow> Some (g, d) | _ \<Rightarrow> None) es"

lemma dispatch_log_append [simp]: "dispatch_log (es @ fs) = dispatch_log es @ dispatch_log fs"
  by (simp add: dispatch_log_def List.map_filter_def)

lemma dispatch_log_Cons [simp]:
  "dispatch_log (e # es) = (case e of Dispatch g d \<Rightarrow> [(g, d)] | _ \<Rightarrow> []) @ dispatch_log es"
  by (cases e) (simp_all add: dispatch_log_def List.map_filter_def)

lemma dispatch_log_Nil [simp]: "dispatch_log [] = []"
  by (simp add: dispatch_log_def List.map_filter_def)

lemma dispatch_log_none: "(\<forall>g d. Dispatch g d \<notin> set es) \<Longrightarrow> dispatch_log es = []"
  by (induction es) (auto simp: dispatch_log_def List.map_filter_def split: walk_event.splits)

text \<open>The frame of the loop: it ends with a checkpoint of what it leaves, and it dispatches the
  gate at most once more than it may retry, for the build gate exactly once.\<close>

definition ran_gate :: "string \<Rightarrow> nat \<Rightarrow> walk \<Rightarrow> walk \<Rightarrow> bool" where
  "ran_gate gate left w w' \<longleftrightarrow>
     core (st w') = core (st w) \<and> checkpoint w' = Some (st w') \<and> enforce w' = enforce w \<and>
     enforce_blocked w' = enforce_blocked w \<and> current_gate (st w') = current_gate (st w) \<and>
     (\<exists>es. events w' = events w @ es \<and> set (dispatch_log es) = {(gate, checkpoint w)} \<and>
        length (dispatch_log es) \<le> left + 1 \<and> (gate = ''G4'' \<longrightarrow> length (dispatch_log es) = 1))"

lemma ran_gate_end:
  assumes "st w1 = st w" "checkpoint w1 = checkpoint w" "enforce w1 = enforce w" "enforce_blocked w1 = enforce_blocked w"
    and "events w1 = events w @ [Dispatch gate (checkpoint w)]"
    and "core (st w') = core (st w1)" "checkpoint w' = Some (st w')" "enforce w' = enforce w1"
    and "enforce_blocked w' = enforce_blocked w1" "current_gate (st w') = current_gate (st w1)"
    and "\<exists>es. events w' = events w1 @ es \<and> (\<forall>g d. Dispatch g d \<notin> set es)"
  shows "ran_gate gate left w w'"
proof -
  from assms(11) obtain es where es: "events w' = events w1 @ es" "\<forall>g d. Dispatch g d \<notin> set es" by blast
  have "dispatch_log (Dispatch gate (checkpoint w) # es) = [(gate, checkpoint w)]"
    using dispatch_log_none [OF es(2)] by simp
  moreover have "events w' = events w @ (Dispatch gate (checkpoint w) # es)" using es assms(5) by simp
  ultimately show ?thesis using assms(1-10) unfolding ran_gate_def
    by (intro conjI exI [of _ "Dispatch gate (checkpoint w) # es"]) simp_all
qed

definition same_frame :: "walk \<Rightarrow> walk \<Rightarrow> bool" where
  "same_frame w w' \<longleftrightarrow>
     core (st w') = core (st w) \<and> checkpoint w' = checkpoint w \<and> enforce w' = enforce w \<and>
     enforce_blocked w' = enforce_blocked w \<and> current_gate (st w') = current_gate (st w) \<and> events w' = events w"

lemma attempts_cases:
  assumes "execute_gate x c gate n correction w = (r, w1)"
  obtains (cancelled) "attempts x c gate left n correction w = cancel_run gate r w1"
  | (settled) w2 out where "same_frame w1 w2" and "attempts x c gate left n correction w = settle gate r out w2"
  | (retry) w2 why left' where "same_frame w1 w2" and "gate \<noteq> ''G4''" and "left = Suc left'"
      and "attempts x c gate left n correction w =
        attempts x c gate left' (n + 1) (Some (correction_text gate why)) (emit (RetryEvent gate (n + 1)) w2)"
proof -
  let ?w = "if gate = ''G4'' \<and> g4_verify w1 \<noteq> None then upd (\<lambda>s. s\<lparr>g4_evidence := g4_verify w1\<rparr>) w1 else w1"
  have f: "same_frame w1 ?w" by (simp add: same_frame_def)
  let ?out = "gate_review_ready x ?w gate n r"
  show thesis
  proof (cases "run_status r = ''cancelled''")
    case True
    then have "attempts x c gate left n correction w = cancel_run gate r w1"
      using assms by (subst attempts.simps) simp
    then show thesis by (rule cancelled)
  next
    case False
    then have eq: "attempts x c gate left n correction w =
       (case (?out, left) of
          (Some why, Suc left') \<Rightarrow>
            if gate = ''G4'' \<or> run_status r \<noteq> ''completed'' then settle gate r ?out ?w
            else attempts x c gate left' (n + 1) (Some (correction_text gate why)) (emit (RetryEvent gate (n + 1)) ?w)
        | _ \<Rightarrow> settle gate r ?out ?w)"
      using assms by (subst attempts.simps) (simp only: Let_def prod.case if_False)
    show thesis
    proof (cases "\<exists>why left'. ?out = Some why \<and> left = Suc left' \<and> gate \<noteq> ''G4'' \<and> run_status r = ''completed''")
      case True
      then obtain why left' where "?out = Some why" "left = Suc left'" "gate \<noteq> ''G4''" "run_status r = ''completed''"
        by blast
      with eq retry [OF f] show thesis by simp
    next
      case False
      with eq have "attempts x c gate left n correction w = settle gate r ?out ?w"
        by (cases ?out; cases left) auto
      with settled [OF f] show thesis .
    qed
  qed
qed

lemma attempts_ran: "ran_gate gate left w (attempts x c gate left n correction w)"
proof (induction left arbitrary: n correction w rule: less_induct)
  case (less left)
  obtain r w1 where e: "execute_gate x c gate n correction w = (r, w1)" by fastforce
  note f = execute_gate_frame [OF e]
  from e show ?case
  proof (cases rule: attempts_cases [where left = left])
    case cancelled
    show ?thesis unfolding cancelled by (rule ran_gate_end [OF f cancel_run_frame(1,2,3,4,5,6)])
  next
    case (settled w2 out)
    have "core (st w2) = core (st w1)" "enforce w2 = enforce w1" "enforce_blocked w2 = enforce_blocked w1"
      "current_gate (st w2) = current_gate (st w1)" "events w2 = events w1"
      using settled(1) by (simp_all add: same_frame_def)
    note g = this
    show ?thesis unfolding settled(2)
      using settle_frame [of gate r out w2] unfolding g by (intro ran_gate_end [OF f]) simp_all
  next
    case (retry w2 why left')
    let ?v = "emit (RetryEvent gate (n + 1)) w2"
    let ?w' = "attempts x c gate left' (n + 1) (Some (correction_text gate why)) ?v"
    have "ran_gate gate left' ?v ?w'" using less.IH [of left'] retry(3) by simp
    then obtain es where es: "events ?w' = events ?v @ es" "set (dispatch_log es) = {(gate, checkpoint ?v)}"
      "length (dispatch_log es) \<le> left' + 1"
      and k: "core (st ?w') = core (st ?v)" "checkpoint ?w' = Some (st ?w')" "enforce ?w' = enforce ?v"
        "enforce_blocked ?w' = enforce_blocked ?v" "current_gate (st ?w') = current_gate (st ?v)"
      unfolding ran_gate_def by blast
    let ?es = "[Dispatch gate (checkpoint w), RetryEvent gate (n + 1)] @ es"
    have "dispatch_log ?es = (gate, checkpoint w) # dispatch_log es" by simp
    moreover have "events ?w' = events w @ ?es" using es(1) f retry(1) by (simp add: same_frame_def)
    ultimately show ?thesis
      unfolding retry(4) ran_gate_def using es k f retry(1,2,3)
      by (intro conjI exI [of _ ?es]) (simp_all add: same_frame_def)
  qed
qed

lemma run_gate_ran:
  "ran_gate gate MAX_GATE_COMPLETION_RETRIES (upd (\<lambda>s. s\<lparr>current_gate := gate\<rparr>) w) (run_gate x c gate w)"
  unfolding run_gate_def by (rule attempts_ran)

lemma run_gate_frame [simp]:
  "core (st (run_gate x c gate w)) = core (st w)"
  "checkpoint (run_gate x c gate w) = Some (st (run_gate x c gate w))"
  "enforce (run_gate x c gate w) = enforce w" "enforce_blocked (run_gate x c gate w) = enforce_blocked w"
  "current_gate (st (run_gate x c gate w)) = gate"
  using run_gate_ran [of gate w x c] by (auto simp: ran_gate_def)

lemma run_gate_events:
  obtains es where "events (run_gate x c gate w) = events w @ es"
    and "set (dispatch_log es) = {(gate, checkpoint w)}"
  using run_gate_ran [of gate w x c] by (auto simp: ran_gate_def)

text \<open>One run of a gate dispatches its agent between one and three times, the build gate exactly once, each time
  with the checkpoint that was on disk when the run began, and ends with a checkpoint of the
  state it leaves; it signs, waives and counts nothing.\<close>

theorem run_gate_bounded:
  "\<exists>es. events (run_gate x c gate w) = events w @ es \<and>
     length (dispatch_log es) \<in> (if gate = ''G4'' then {1} else {1, 2, 3}) \<and>
     set (dispatch_log es) = {(gate, checkpoint w)} \<and>
     checkpoint (run_gate x c gate w) = Some (st (run_gate x c gate w)) \<and>
     core (st (run_gate x c gate w)) = core (st w)"
proof -
  from run_gate_ran [of gate w x c] obtain es where
    es: "events (run_gate x c gate w) = events w @ es" "set (dispatch_log es) = {(gate, checkpoint w)}"
      "length (dispatch_log es) \<le> 3" "gate = ''G4'' \<longrightarrow> length (dispatch_log es) = 1"
    by (auto simp: ran_gate_def MAX_GATE_COMPLETION_RETRIES_def)
  moreover from es(2) have "dispatch_log es \<noteq> []" by auto
  ultimately have "length (dispatch_log es) \<in> (if gate = ''G4'' then {1} else {1, 2, 3})"
    by (cases "length (dispatch_log es)") (auto simp: le_Suc_eq numeral_eq_Suc)
  with es show ?thesis by (intro exI [of _ es]) simp
qed

end
