(* ===== verification/GateVerdict.thy ===== *)
theory GateVerdict
  imports GateWalk
begin

section \<open>Verdicts and the release (\<open>product/gate_orchestrator.py\<close>)\<close>

text \<open>
  What a verdict does to a walk: the conditions under which a gate is signed, the budgets of rework
  and rejection, waiving, reopening a signed gate, the readiness of a release at Gate 5, its
  finalization and the recovery of a delivery from its checkpoint. An early return of the code is an
  \<open>Inl\<close> with the walk at that point; \<open>Raised\<close> is an exception that leaves the method.
\<close>

subsection \<open>Signing\<close>

definition default_roles :: "string \<Rightarrow> manifest_entry list \<Rightarrow> string list" where
  "default_roles role es =
     (if list_all (\<lambda>a. role \<in> set (required_roles a)) es then [role]
      else rev (remdups (rev (role # concat (map required_roles es)))))"

fun sign_roles ::
  "outside \<Rightarrow> config \<Rightarrow> string \<Rightarrow> string \<Rightarrow> string \<Rightarrow> string list \<Rightarrow> gate_ws \<Rightarrow> bool \<times> gate_ws" where
  "sign_roles x c gate v fb [] s = (True, s)"
| "sign_roles x c gate v fb (r # rs) s =
     (case sign_gate (sha_of x) (loads_of x) (clock_of x) (root_path (strict_of x)) (outcome_proven x) gate
             \<lparr>by_signer = walk_signer c, by_role = r, by_verdict = v, by_conditions = fb,
              by_oidc_sub = [], by_oidc_issuer = []\<rparr>
             (wave_of x) (snd (walk_delivery c)) False s of
        Inl _ \<Rightarrow> (False, s)
      | Inr (s', _) \<Rightarrow> sign_roles x c gate v fb rs s')"

text \<open>\<open>_default_sign\<close>: every artifact there, none with a template slot, each signed by a role it names.\<close>

definition default_sign :: "outside \<Rightarrow> config \<Rightarrow> string \<Rightarrow> string \<Rightarrow> string \<Rightarrow> gate_ws \<Rightarrow> bool \<times> gate_ws" where
  "default_sign x c gate v fb s =
     (let es = expected_gate_artifacts gate in
      if missing_artifacts s gate \<noteq> [] then (False, s)
      else if list_ex (\<lambda>a. case art_files s (rel_path a) of None \<Rightarrow> False | Some doc \<Rightarrow> placeholders x doc \<noteq> []) es
      then (False, s)
      else sign_roles x c gate v fb (default_roles (role_for gate) es) s)"

definition sign_walk :: "outside \<Rightarrow> config \<Rightarrow> string \<Rightarrow> string \<Rightarrow> string \<Rightarrow> walk \<Rightarrow> bool \<times> walk" where
  "sign_walk x c gate v fb w =
     (let (done, s) = (if enforce w then default_sign x c gate v fb (ws w) else custom_sign x gate (ws w))
      in (done, w\<lparr>ws := s\<rparr>))"

definition strict_reasons :: "outside \<Rightarrow> config \<Rightarrow> walk \<Rightarrow> string \<Rightarrow> bool \<Rightarrow> strict_reason list" where
  "strict_reasons x c w gate proof =
     check_gate_signed_strict (sha_of x) (loads_of x) (strict_of x) (ws w) gate PNone (snd (walk_delivery c)) proof"

subsection \<open>Release readiness\<close>

definition current_g4 :: "outside \<Rightarrow> config \<Rightarrow> walk \<Rightarrow> (g4_reason + string) option" where
  "current_g4 x c w = g4_verification_for_current_tree (sha_of x) (walk_delivery c) (prod w) (g4_file w)"

definition gate_release_reasons :: "outside \<Rightarrow> config \<Rightarrow> walk \<Rightarrow> string list \<Rightarrow> release_reason list" where
  "gate_release_reasons x c w gates =
     concat (map (\<lambda>g. (if g \<in> set (signed (st w)) then [] else [NotInState g]) @
       map (StrictFailed g) (strict_reasons x c w g True)) gates)"

definition production_reasons :: "outside \<Rightarrow> walk \<Rightarrow> release_reason list" where
  "production_reasons x w =
     (let rt = runtime_evidence (st w);
          recorded = Option.bind rt rt_ux_required;
          persisted = (case recorded of None \<Rightarrow> True | Some b \<Rightarrow> b);
          now = (case ux_now x of None \<Rightarrow> True | Some (_, b) \<Rightarrow> b)
      in (if security_evidence (st w) = Some ''passed'' then [] else [SecurityNotPassed]) @
         (case rt of
            Some r \<Rightarrow> if rt_status r = ''passed'' \<and> rt_ok r \<and> runtime_ok w then [] else [RuntimeNotPassed]
          | None \<Rightarrow> [RuntimeNotPassed]) @
         (if recorded = None then [NoUxRequirement] else []) @
         (case ux_now x of
            None \<Rightarrow> [UxUndetermined]
          | Some (stack, b) \<Rightarrow>
              (case rt of Some r \<Rightarrow> if rt_stack r \<noteq> stack then [StackChanged] else [] | None \<Rightarrow> []) @
              (if persisted \<noteq> b then [UxRequirementChanged] else [])) @
         (if persisted \<or> now then
            (if map_option rt_ux_status rt = Some ''passed'' then [] else [UxNotPassed]) @
            (if map_option rt_ux_executed rt = Some True then [] else [UxNotExecuted]) @
            (if map_option rt_ux_schema rt = Some ''signalos.ux-browser-proof.v1'' then [] else [UxBadSchema])
          else []))"

text \<open>\<open>_verify_g5_release\<close>; \<open>None\<close> when the check of the tree raises.\<close>

definition verify_g5_release :: "outside \<Rightarrow> config \<Rightarrow> string list \<Rightarrow> walk \<Rightarrow> release_truth option" where
  "verify_g5_release x c pending w =
     (let s = st w; open_gates = map fst (conditions s) @ pending;
          real = (enforce w \<and> current_gate s = ''G5'');
          basic = (if waived s \<noteq> [] then [WaivedGates (waived s)] else []) @
                  (if open_gates \<noteq> [] then [UnresolvedConditions open_gates] else []) @
                  (if repo_has_real_product_src (prod w) then [] else [NoProduct]) @
                  (if real then gate_release_reasons x c w (butlast GATE_ORDER) else []);
          finish = (\<lambda>proof digest.
            \<lparr>truth_reasons = basic @ proof @ (if real \<and> digest = [] then [NoReleaseDigest] else []) @
                (if walk_profile c = Production then production_reasons x w else []),
             truth_digest = digest\<rparr>)
      in if real \<or> ''G4'' \<in> set (signed s) then
           (case current_g4 x c w of
              None \<Rightarrow> None
            | Some (Inl why) \<Rightarrow> Some (finish [ProofNotCurrent why] [])
            | Some (Inr digest) \<Rightarrow> Some (finish [] digest))
         else Some (finish [] []))"

definition verify_completed_g5_release :: "outside \<Rightarrow> config \<Rightarrow> walk \<Rightarrow> release_truth option" where
  "verify_completed_g5_release x c w =
     (case (verify_g5_release x c [] w, current_g4 x c w) of
        (Some checked, Some proof) \<Rightarrow>
          (let digest = (case proof of Inl _ \<Rightarrow> [] | Inr h \<Rightarrow> h) in
           Some \<lparr>truth_reasons =
                   rev (remdups (rev (truth_reasons checked @
                     (if current_gate (st w) = ''G5'' then [] else [WrongTerminalGate]) @
                     gate_release_reasons x c w GATE_ORDER))) @
                   (if digest = [] then [NoReleaseDigest] else []),
                 truth_digest = digest\<rparr>)
      | _ \<Rightarrow> None)"

definition truth_ok :: "release_truth \<Rightarrow> bool" where
  "truth_ok t \<longleftrightarrow> truth_reasons t = []"

definition set_release_verification :: "release_truth \<Rightarrow> walk \<Rightarrow> walk" where
  "set_release_verification t w = upd (\<lambda>s. s\<lparr>verification_evidence := Some t\<rparr>) w"

definition release_marker_reasons :: "config \<Rightarrow> marker \<Rightarrow> string \<Rightarrow> release_reason list" where
  "release_marker_reasons c m digest =
     (if m_delivery m = walk_delivery c then [] else [BadMarker ''delivery'']) @
     (if m_profile m = walk_profile c then [] else [BadMarker ''profile'']) @
     (if m_status m = Failed then [BadMarker ''status''] else []) @
     (if m_status m = Succeeded \<and> m_phase m \<noteq> PhaseSigned then [BadMarker ''phase''] else []) @
     (if m_digest m = [] then [BadMarker ''digest''] else []) @
     (if digest \<noteq> [] \<and> m_digest m \<noteq> digest then [BadMarker ''digest mismatch''] else []) @
     (if m_status m = Succeeded \<and> \<not> m_receipt m then [BadMarker ''receipt''] else [])"

definition with_marker_errors :: "config \<Rightarrow> marker option \<Rightarrow> release_truth \<Rightarrow> release_truth" where
  "with_marker_errors c m t =
     (case m of
        None \<Rightarrow> t
      | Some m \<Rightarrow> t\<lparr>truth_reasons := truth_reasons t @ release_marker_reasons c m (truth_digest t)\<rparr>)"

subsection \<open>Finalization\<close>

definition block_outcome :: "string \<Rightarrow> string \<Rightarrow> string \<Rightarrow> gate_outcome" where
  "block_outcome gate why loop =
     \<lparr>out_gate = gate, out_block = Some (Why why), out_status = loop, out_failure = []\<rparr>"

definition cancel_at_boundary :: "string \<Rightarrow> walk \<Rightarrow> walk" where
  "cancel_at_boundary boundary w =
     unlock (emit (CancelledEvent (current_gate (st w))) (persist (upd (\<lambda>s. s\<lparr>status := Cancelled,
       last_outcome := Some (block_outcome (current_gate s)
         (''cancellation observed before '' @ boundary) ''cancelled'')\<rparr>) w)))"

definition set_marker :: "marker \<Rightarrow> walk \<Rightarrow> walk" where
  "set_marker m w = upd (\<lambda>s. s\<lparr>finalization := Some m\<rparr>) w"

datatype finalize_result = FinalizeRaised | FinalizePending | FinalizeSucceeded

definition finalize_pending_g5_release :: "outside \<Rightarrow> config \<Rightarrow> walk \<Rightarrow> finalize_result \<times> walk" where
  "finalize_pending_g5_release x c w =
     (case finalization (st w) of
        None \<Rightarrow> (FinalizePending, w)
      | Some m \<Rightarrow>
          if m_status m \<noteq> Pending then (if m_status m = Succeeded then FinalizeSucceeded else FinalizePending, w)
          else if cancel_at x ''G5 finalization'' then
            (FinalizePending, persist (cancel_at_boundary ''G5 finalization'' w))
          else if \<not> finalizer_free x then (FinalizePending, w)
          else
            (case verify_completed_g5_release x c w of
               None \<Rightarrow> (FinalizeRaised, w)
             | Some t \<Rightarrow>
                 (let t = with_marker_errors c (Some m) t;
                      m = m\<lparr>m_attempts := m_attempts m + 1\<rparr>;
                      w = persist (set_marker m (set_release_verification t w))
                  in if \<not> truth_ok t then
                       (FinalizePending,
                        emit (Finalized ''failed'') (persist (upd (\<lambda>s. s\<lparr>status := Blocked,
                          last_outcome := Some (block_outcome ''G5''
                            ''current release truth failed before finalization'' ''release-verification-failed'')\<rparr>) w)))
                     else if cancel_at x ''release seal'' then
                       (FinalizePending, persist (cancel_at_boundary ''release seal'' w))
                     else
                       (case finalizer x of
                          FinSucceeded True \<Rightarrow>
                            (FinalizeSucceeded, emit (Finalized ''succeeded'')
                              (persist (set_marker (m\<lparr>m_status := Succeeded, m_receipt := True\<rparr>) w)))
                        | FinCancelled \<Rightarrow>
                            (FinalizePending, emit (Finalized ''cancelled'')
                              (persist (upd (\<lambda>s. s\<lparr>status := Cancelled\<rparr>) w)))
                        | FinDeferred \<Rightarrow> (FinalizePending, emit (Finalized ''deferred'') (persist w))
                        | _ \<Rightarrow> (FinalizePending, emit (Finalized ''failed'') (persist w))))))"

subsection \<open>Approval\<close>

datatype verdict_result =
    RunCancelled | NotReviewable | BuildUnverified | ConditionsNeedText | ReleaseNotReady | SecurityBlocked
  | ExplicitApprovalRequired | SignFailed | Advanced string | CompleteReady | ReleasePending
  | MaxRework | Reworked int | MaxRejections | RejectedRun int | WaiveNeedsReason | CompleteWaived
  | AdvancedWaived string | Raised

type_synonym early = "(verdict_result \<times> walk) + walk"

definition check_checkpoint :: "string \<Rightarrow> walk \<Rightarrow> early" where
  "check_checkpoint gate w =
     (if status (st w) = Blocked \<and> enforce_blocked w then Inl (NotReviewable, emit (GateBlocked gate) w) else Inr w)"

definition check_build :: "outside \<Rightarrow> config \<Rightarrow> string \<Rightarrow> walk \<Rightarrow> early" where
  "check_build x c gate w =
     (if gate \<noteq> ''G4'' then Inr w
      else
        and_then
          (if enforce w then
             (case current_g4 x c w of None \<Rightarrow> Inl (Raised, w) | Some v \<Rightarrow> Inr (w\<lparr>g4_verify := Some v\<rparr>))
           else Inr w)
          (\<lambda>w. case g4_verify w of
             Some (Inr _) \<Rightarrow> Inr w
           | _ \<Rightarrow> Inl (BuildUnverified, emit (ErrorEvent gate) w)))"

definition check_open :: "string \<Rightarrow> walk \<Rightarrow> early" where
  "check_open gate w =
     (if enforce w \<and> gate \<noteq> ''G4'' \<and> status (st w) \<notin> {AwaitingVerdict, Reopened}
      then Inl (NotReviewable, emit (GateBlocked gate) w) else Inr w)"

definition check_condition :: "verdict \<Rightarrow> string \<Rightarrow> string \<Rightarrow> walk \<Rightarrow> early" where
  "check_condition v fb gate w =
     (if v = ApproveWithConditions \<and> strip fb = [] then Inl (ConditionsNeedText, emit (ErrorEvent gate) w) else Inr w)"

definition pending_marker :: "config \<Rightarrow> string \<Rightarrow> marker option \<Rightarrow> marker" where
  "pending_marker c digest previous =
     \<lparr>m_status = Pending, m_phase = PhaseVerified, m_delivery = walk_delivery c, m_profile = walk_profile c,
      m_digest = digest, m_attempts = (case previous of None \<Rightarrow> 0 | Some m \<Rightarrow> m_attempts m), m_receipt = False\<rparr>"

definition check_release :: "outside \<Rightarrow> config \<Rightarrow> verdict \<Rightarrow> string \<Rightarrow> walk \<Rightarrow> early" where
  "check_release x c v gate w =
     (if gate \<noteq> ''G5'' then Inr w
      else
        (case verify_g5_release x c (if v = ApproveWithConditions then [''G5''] else []) w of
           None \<Rightarrow> Inl (Raised, w)
         | Some t \<Rightarrow>
             (let w = set_release_verification t w;
                  w = (if truth_ok t \<and> enforce w
                       then set_marker (pending_marker c (truth_digest t) (finalization (st w))) w else w);
                  w = emit (ReleaseVerified (truth_ok t)) (persist w)
              in if truth_ok t then Inr w else Inl (ReleaseNotReady, emit (GateBlocked gate) w))))"

text \<open>The runtime proof is good when it passed and, for a product with a browser UI, so did an executed UX proof.\<close>

definition proof_ok :: "runtime_proof \<Rightarrow> bool" where
  "proof_ok r \<longleftrightarrow> rt_status r = ''passed'' \<and>
     (rt_ux_required r = Some False \<or> (rt_ux_status r = ''passed'' \<and> rt_ux_executed r))"

definition run_proof_stage :: "outside \<Rightarrow> walk \<Rightarrow> walk" where
  "run_proof_stage x w =
     (let r = proof_result x; r = r\<lparr>rt_ok := proof_ok r\<rparr>
      in upd (\<lambda>s. s\<lparr>runtime_evidence := Some r\<rparr>) (w\<lparr>runtime_ok := rt_ok r\<rparr>))"

definition check_post_build :: "outside \<Rightarrow> config \<Rightarrow> string \<Rightarrow> walk \<Rightarrow> early" where
  "check_post_build x c gate w =
     (if gate \<noteq> ''G4'' \<or> walk_profile c = Benchmark then Inr w
      else
        (let w = upd (\<lambda>s. s\<lparr>security_evidence := Some (scan_result x)\<rparr>) w in
         if scan_result x = ''failed'' then
           Inl (SecurityBlocked, persist (upd (\<lambda>s. s\<lparr>status := Blocked,
             last_outcome := Some (block_outcome gate ''Security gate found critical findings''
               ''security-blocked'')\<rparr>) (emit (ErrorEvent gate) w)))
         else Inr (persist (run_proof_stage x w))))"

definition check_authority :: "outside \<Rightarrow> config \<Rightarrow> string \<Rightarrow> walk \<Rightarrow> early" where
  "check_authority x c gate w =
     (if gate = ''G0'' \<and> enforce w \<and> strict_reasons x c w ''G0'' True \<noteq> []
      then Inl (ExplicitApprovalRequired, emit (GateBlocked gate) w) else Inr w)"

definition check_cancel :: "outside \<Rightarrow> string \<Rightarrow> walk \<Rightarrow> early" where
  "check_cancel x boundary w =
     (if cancel_at x boundary then Inl (RunCancelled, cancel_at_boundary boundary w) else Inr w)"

definition SIGN_VERDICT :: "verdict \<Rightarrow> string" where
  "SIGN_VERDICT v = (if v = Approve then ''APPROVED'' else ''APPROVED-WITH-CONDITIONS'')"

definition apply_signature :: "outside \<Rightarrow> config \<Rightarrow> verdict \<Rightarrow> string \<Rightarrow> string \<Rightarrow> walk \<Rightarrow> early" where
  "apply_signature x c v fb gate w =
     (if gate = ''G0'' \<and> enforce w then Inr w
      else
        (let (done, w) = sign_walk x c gate (SIGN_VERDICT v) fb w
         in if done then Inr w else Inl (SignFailed, emit (ErrorEvent gate) w)))"

definition record_signature :: "verdict \<Rightarrow> string \<Rightarrow> string \<Rightarrow> walk \<Rightarrow> walk" where
  "record_signature v fb gate w =
     emit (SignedEvent gate) (upd (\<lambda>s. s\<lparr>signed := signed s @ [gate],
       conditions := (if v = ApproveWithConditions then dict_set (conditions s) gate (strip fb) else conditions s)\<rparr>) w)"

definition signed_marker :: "config \<Rightarrow> marker option \<Rightarrow> marker" where
  "signed_marker c previous =
     (case previous of
        None \<Rightarrow> (pending_marker c [] None)\<lparr>m_phase := PhaseSigned\<rparr>
      | Some m \<Rightarrow> m\<lparr>m_status := Pending, m_phase := PhaseSigned, m_delivery := walk_delivery c,
                   m_profile := walk_profile c\<rparr>)"

definition complete_walk :: "outside \<Rightarrow> config \<Rightarrow> walk \<Rightarrow> verdict_result \<times> walk" where
  "complete_walk x c w =
     (let w = (if enforce w then set_marker (signed_marker c (finalization (st w))) w else w);
          w = persist (upd (\<lambda>s. s\<lparr>status := Complete\<rparr>) w);
          (fin, w) = (if enforce w then finalize_pending_g5_release x c w else (FinalizePending, w));
          true_now = (case verification_evidence (st w) of None \<Rightarrow> False | Some t \<Rightarrow> truth_ok t)
      in if fin = FinalizeRaised then (Raised, w)
         else if true_now \<and> (\<not> enforce w \<or> fin = FinalizeSucceeded) then
           (CompleteReady, unlock (emit (DeliveryComplete True) w))
         else
           (if status (st w) = Cancelled then RunCancelled else if true_now then ReleasePending else ReleaseNotReady,
            unlock w))"

definition approve :: "outside \<Rightarrow> config \<Rightarrow> verdict \<Rightarrow> string \<Rightarrow> string \<Rightarrow> walk \<Rightarrow> early" where
  "approve x c v fb gate w =
     and_then (check_checkpoint gate w) (\<lambda>w.
     and_then (check_build x c gate w) (\<lambda>w.
     and_then (check_open gate w) (\<lambda>w.
     and_then (check_condition v fb gate w) (\<lambda>w.
     and_then (check_release x c v gate w) (\<lambda>w.
     and_then (check_post_build x c gate w) (\<lambda>w.
     and_then (check_authority x c gate w) (\<lambda>w.
     and_then (check_cancel x ''gate signature'' w) (\<lambda>w.
     apply_signature x c v fb gate w))))))))"

definition advance :: "outside \<Rightarrow> config \<Rightarrow> string \<Rightarrow> walk \<Rightarrow> verdict_result \<times> walk" where
  "advance x c gate w =
     (case next_after gate of
        None \<Rightarrow> complete_walk x c w
      | Some nxt \<Rightarrow>
          (Advanced nxt, run_gate x c nxt (persist (upd (\<lambda>s. s\<lparr>current_gate := nxt, status := Active\<rparr>) w))))"

subsection \<open>The other verdicts\<close>

definition stop_walk :: "walk \<Rightarrow> walk" where
  "stop_walk w = unlock (persist (upd (\<lambda>s. s\<lparr>status := Stopped\<rparr>) w))"

definition request_changes :: "outside \<Rightarrow> config \<Rightarrow> string \<Rightarrow> string \<Rightarrow> walk \<Rightarrow> verdict_result \<times> walk" where
  "request_changes x c fb gate w =
     (let n = rework (st w) gate + 1 in
      if max_rework c < n then
        (MaxRework, stop_walk (emit (ErrorEvent gate) (record_review gate ''request-changes'' fb n False w)))
      else
        (Reworked n, run_gate x c gate
          (record_review gate ''request-changes'' fb n True
            (upd (\<lambda>s. s\<lparr>rework := (rework s)(gate := n)\<rparr>) w))))"

definition reject_gate :: "outside \<Rightarrow> config \<Rightarrow> string \<Rightarrow> string \<Rightarrow> walk \<Rightarrow> verdict_result \<times> walk" where
  "reject_gate x c fb gate w =
     (let n = rejections (st w) gate + 1 in
      if max_rejections c < n then
        (MaxRejections, stop_walk (emit (ErrorEvent gate) (record_review gate ''reject'' fb n False w)))
      else
        (RejectedRun n, run_gate x c gate
          (record_review gate ''reject'' fb n True
            (upd (\<lambda>s. s\<lparr>rejections := (rejections s)(gate := n)\<rparr>) w))))"

definition waive_gate :: "outside \<Rightarrow> config \<Rightarrow> string \<Rightarrow> string \<Rightarrow> walk \<Rightarrow> verdict_result \<times> walk" where
  "waive_gate x c fb gate w =
     (if strip fb = [] then (WaiveNeedsReason, emit (ErrorEvent gate) w)
      else
        (let w = record_review gate ''waive'' fb 0 False
               (upd (\<lambda>s. if gate \<in> set (waived s) then s else s\<lparr>waived := waived s @ [gate]\<rparr>) w)
         in case next_after gate of
              None \<Rightarrow>
                (CompleteWaived, unlock (emit (DeliveryComplete False) (persist (upd (\<lambda>s. s\<lparr>status := Complete,
                   verification_evidence :=
                     Some \<lparr>truth_reasons = [WaivedGates (waived s)], truth_digest = []\<rparr>\<rparr>) w))))
            | Some nxt \<Rightarrow> (AdvancedWaived nxt, run_gate x c nxt w)))"

definition parse_verdict :: "string \<Rightarrow> verdict" where
  "parse_verdict v =
     (case dict_get [(''approve'', Approve), (''approve-with-conditions'', ApproveWithConditions),
                     (''request-changes'', RequestChanges), (''reject'', Reject), (''waive'', Waive)] v of
        Some k \<Rightarrow> k
      | None \<Rightarrow> verdict (classify_review v))"

definition apply_verdict :: "outside \<Rightarrow> config \<Rightarrow> string \<Rightarrow> string \<Rightarrow> walk \<Rightarrow> verdict_result \<times> walk" where
  "apply_verdict x c v fb w =
     (let gate = current_gate (st w); k = parse_verdict v in
      case check_cancel x ''verdict'' w of
        Inl r \<Rightarrow> r
      | Inr w \<Rightarrow>
          (case k of
             RequestChanges \<Rightarrow> request_changes x c fb gate w
           | Reject \<Rightarrow> reject_gate x c fb gate w
           | Waive \<Rightarrow> waive_gate x c fb gate w
           | _ \<Rightarrow>
               (case approve x c k fb gate w of
                  Inl r \<Rightarrow> r
                | Inr w \<Rightarrow> advance x c gate (record_signature k fb gate w))))"

subsection \<open>Starting, reopening, resuming\<close>

definition acquire :: "outside \<Rightarrow> walk \<Rightarrow> walk option" where
  "acquire x w = (if lock_held w \<or> lock_free x then Some (w\<lparr>lock_held := True\<rparr>) else None)"

definition start :: "outside \<Rightarrow> config \<Rightarrow> walk \<Rightarrow> walk" where
  "start x c w =
     (case acquire x w of
        None \<Rightarrow> emit (GateBlocked (current_gate (st w))) w
      | Some w \<Rightarrow> run_gate x c (current_gate (st w)) w)"

definition REOPEN_SAFE_STATUSES :: "walk_status list" where
  "REOPEN_SAFE_STATUSES = [AwaitingVerdict, Blocked, Stopped, Complete, Reopened]"

definition reopen_roles_for :: "string \<Rightarrow> string list" where
  "reopen_roles_for gate =
     (let rs = concat (map required_roles (expected_gate_artifacts gate)) in if rs = [] then [role_for gate] else rs)"

definition append_reopen_audit :: "outside \<Rightarrow> config \<Rightarrow> audit_row \<Rightarrow> gate_ws \<Rightarrow> gate_ws" where
  "append_reopen_audit x c row s =
     (case append_audit_event (sha_of x) (loads_of x) False (time_of (clock_of x))
             (row @ [(''run_id'', PStr (fst (walk_delivery c))), (''project_id'', PStr (snd (walk_delivery c)))])
             (trail s) of
        Inl _ \<Rightarrow> s
      | Inr (t, _) \<Rightarrow> s\<lparr>trail := t\<rparr>)"

definition reopen_row :: "config \<Rightarrow> string \<Rightarrow> string \<Rightarrow> string \<Rightarrow> string \<Rightarrow> string \<Rightarrow> bool \<Rightarrow> audit_row" where
  "reopen_row c act kind gate target reason cascade =
     [(''action'', PStr act), (''kind'', PStr kind), (''gate'', PStr gate), (''actor'', PStr (walk_signer c)),
      (''role'', PStr (role_for target)), (''reason'', PStr reason), (''cascade'', PBool cascade),
      (''source_gate'', PStr target)]"

text \<open>One gate of the cascade: it loses its signature, or a later one its waiver.\<close>

definition invalidate_gate :: "outside \<Rightarrow> config \<Rightarrow> string \<Rightarrow> string \<Rightarrow> string \<Rightarrow> walk \<Rightarrow> walk" where
  "invalidate_gate x c target reason g w =
     (let cascade = (g \<noteq> target) in
      if g \<in> set (signed (st w)) then
        upd (\<lambda>s. s\<lparr>signed := filter (\<lambda>h. h \<noteq> g) (signed s), invalidated := invalidated s @
              [\<lparr>inv_gate = g, inv_reason = reason, inv_cascade = cascade, inv_waived = False\<rparr>]\<rparr>)
          (w\<lparr>ws := append_reopen_audit x c
            (reopen_row c (if cascade then ''gate.unsign'' else ''gate.reopen'')
              (if cascade then ''invalidate'' else ''reopen'') g target reason cascade) (ws w)\<rparr>)
      else if cascade \<and> g \<in> set (waived (st w)) then
        upd (\<lambda>s. s\<lparr>waived := filter (\<lambda>h. h \<noteq> g) (waived s), invalidated := invalidated s @
              [\<lparr>inv_gate = g, inv_reason = reason, inv_cascade = True, inv_waived = True\<rparr>]\<rparr>)
          (w\<lparr>ws := append_reopen_audit x c (reopen_row c ''gate.unwaive'' ''unwaive'' g target reason True) (ws w)\<rparr>)
      else w)"

definition forget_evidence :: "string \<Rightarrow> walk \<Rightarrow> walk" where
  "forget_evidence gate w =
     (let w = upd (\<lambda>s. s\<lparr>finalization := None, verification_evidence := None\<rparr>) w in
      if gate_index gate \<le> gate_index ''G4'' then
        upd (\<lambda>s. s\<lparr>g4_evidence := None, security_evidence := None, runtime_evidence := None\<rparr>)
          (w\<lparr>g4_verify := None, runtime_ok := False\<rparr>)
      else w)"

datatype reopen_result =
    UnknownReopen | DeliveryBusy | NotSigned | RoleNotAuthorised | MaxReopens | LockTaken | RevocationFailed
  | ReopenDone

definition reopen_gate :: "outside \<Rightarrow> config \<Rightarrow> string \<Rightarrow> string \<Rightarrow> walk \<Rightarrow> reopen_result \<times> walk" where
  "reopen_gate x c raw reason w =
     (let gate = gate_id raw; n = reopens (st w) gate + 1; later = drop (gate_index gate) GATE_ORDER in
      if gate \<notin> set GATE_ORDER then (UnknownReopen, emit (ErrorEvent gate) w)
      else if status (st w) \<notin> set REOPEN_SAFE_STATUSES then (DeliveryBusy, emit (ErrorEvent gate) w)
      else if gate \<notin> set (signed (st w)) then (NotSigned, emit (ErrorEvent gate) w)
      else if role_for gate \<notin> set (reopen_roles_for gate) then (RoleNotAuthorised, emit (ErrorEvent gate) w)
      else if max_reopens c < n then
        (MaxReopens, emit (ErrorEvent gate) (w\<lparr>ws := append_reopen_audit x c
           [(''action'', PStr ''gate-reopen-refused''), (''kind'', PStr ''reopen-refused''),
            (''gate_id'', PStr gate), (''actor'', PStr (walk_signer c)), (''role'', PStr (role_for gate)),
            (''reason'', PStr reason), (''attempt'', PInt n), (''budget'', PInt (max_reopens c))] (ws w)\<rparr>))
      else
        (case acquire x w of
           None \<Rightarrow> (LockTaken, emit (GateBlocked gate) w)
         | Some w' \<Rightarrow>
             (case revoke_gates (sha_of x) (loads_of x) (time_of (clock_of x)) (snd (walk_delivery c))
                     (walk_signer c) reason (filter (\<lambda>g. g \<in> set (signed (st w))) later) (ws w) of
                Inl _ \<Rightarrow> (RevocationFailed, emit (ErrorEvent gate) w)
              | Inr (_, s) \<Rightarrow>
                  (let w = fold (invalidate_gate x c gate reason) later (w'\<lparr>ws := s\<rparr>);
                       w = forget_evidence gate (upd (\<lambda>s. s\<lparr>reopens := (reopens s)(gate := n)\<rparr>) w);
                       w = record_review gate ''reopen'' reason n True w;
                       w = persist (upd (\<lambda>s. s\<lparr>current_gate := gate, status := Reopened\<rparr>) w)
                   in (ReopenDone, emit (GateCard gate) (emit (ReopenedEvent gate) w))))))"

text \<open>\<open>_recover_g5_release\<close>; \<open>None\<close> when it raises.\<close>

definition reconcile_signed_crash :: "outside \<Rightarrow> config \<Rightarrow> marker \<Rightarrow> walk \<Rightarrow> (bool \<times> walk) option" where
  "reconcile_signed_crash x c m w =
     (if strict_reasons x c w ''G5'' False \<noteq> [] then Some (False, w)
      else
        (case verify_g5_release x c [] w of
           None \<Rightarrow> None
         | Some t \<Rightarrow>
             (let reasons =
                (if current_gate (st w) = ''G5'' then [] else [WrongTerminalGate]) @ truth_reasons t @
                release_marker_reasons c m (truth_digest t) @
                (if m_digest m = [] \<or> truth_digest t \<noteq> m_digest m then [BadMarker ''stale digest''] else [])
              in if reasons \<noteq> [] then
                   Some (False, persist (set_release_verification
                     \<lparr>truth_reasons = rev (remdups (rev reasons)), truth_digest = truth_digest t\<rparr>
                     (set_marker (m\<lparr>m_status := Failed\<rparr>) w)))
                 else
                   Some (True, persist (set_marker (m\<lparr>m_phase := PhaseSigned\<rparr>)
                     (upd (\<lambda>s. s\<lparr>signed := (if ''G5'' \<in> set (signed s) then signed s else signed s @ [''G5'']),
                                 status := Complete\<rparr>) w))))))"

definition recheck_complete :: "outside \<Rightarrow> config \<Rightarrow> walk \<Rightarrow> walk option" where
  "recheck_complete x c w =
     (if status (st w) \<noteq> Complete then Some w
      else
        (case verify_completed_g5_release x c w of
           None \<Rightarrow> None
         | Some t \<Rightarrow>
             (let m = finalization (st w);
                  errors = (case m of None \<Rightarrow> [] | Some m \<Rightarrow> release_marker_reasons c m (truth_digest t));
                  w = persist (set_release_verification (with_marker_errors c m t) w)
              in if map_option m_status m = Some Pending \<and> errors = [] then
                   (case finalize_pending_g5_release x c w of
                      (FinalizeRaised, _) \<Rightarrow> None
                    | (_, w) \<Rightarrow> Some w)
                 else Some w)))"

definition recover_g5_release :: "outside \<Rightarrow> config \<Rightarrow> walk \<Rightarrow> walk option" where
  "recover_g5_release x c w =
     (case finalization (st w) of
        Some m \<Rightarrow>
          if m_status m = Pending \<and> status (st w) \<in> {Active, AwaitingVerdict} then
            (case reconcile_signed_crash x c m w of
               None \<Rightarrow> None
             | Some (False, w) \<Rightarrow> Some w
             | Some (True, w) \<Rightarrow> recheck_complete x c w)
          else recheck_complete x c w
      | None \<Rightarrow> recheck_complete x c w)"

definition restored_runtime :: "runtime_proof option \<Rightarrow> bool" where
  "restored_runtime rt =
     (case rt of
        None \<Rightarrow> False
      | Some r \<Rightarrow> rt_ok r \<and> rt_status r = ''passed'' \<and>
          (rt_ux_required r = Some False \<or>
           (rt_ux_required r = Some True \<and> rt_ux_status r = ''passed'' \<and> rt_ux_executed r \<and>
            rt_ux_schema r = ''signalos.ux-browser-proof.v1'')))"

definition terminal :: "walk_status \<Rightarrow> bool" where
  "terminal s \<longleftrightarrow> s \<in> {Complete, Stopped, Cancelled}"

text \<open>\<open>resume_delivery\<close> after the process is gone: what memory held is rebuilt from the checkpoint. \<open>None\<close> is
  a raised error.\<close>

definition resume_delivery :: "outside \<Rightarrow> config \<Rightarrow> bool \<Rightarrow> walk \<Rightarrow> walk option" where
  "resume_delivery x c recover w =
     (case checkpoint w of
        None \<Rightarrow> None
      | Some s \<Rightarrow>
          (let w = w\<lparr>st := s, g4_verify := g4_evidence s, runtime_ok := restored_runtime (runtime_evidence s),
                    lock_held := False, enforce_blocked := enforce w \<or> status s = Blocked\<rparr>
           in if terminal (status s) \<and> \<not> recover then Some w
              else if \<not> lock_free x then None
              else
                (let w = w\<lparr>lock_held := True\<rparr> in
                 if \<not> recover then Some w
                 else
                   map_option (\<lambda>w. if terminal (status (st w)) then unlock w else w)
                     (recover_g5_release x c w))))"

subsection \<open>Frames\<close>

text \<open>\<open>keeps\<close>: the core of the state stays, and the checkpoint is the old one or has the same core.
  \<open>quiet\<close>: no agent is dispatched.\<close>

definition keeps :: "walk \<Rightarrow> walk \<Rightarrow> bool" where
  "keeps w w' \<longleftrightarrow>
     core (st w') = core (st w) \<and> enforce w' = enforce w \<and>
     (checkpoint w' = checkpoint w \<or> (\<exists>s. checkpoint w' = Some s \<and> core s = core (st w)))"

definition quiet :: "walk \<Rightarrow> walk \<Rightarrow> bool" where
  "quiet w w' \<longleftrightarrow> (\<exists>es. events w' = events w @ es \<and> dispatch_log es = [])"

lemma keeps_refl [simp, intro]: "keeps w w" by (simp add: keeps_def)
lemma keeps_trans [trans]: "keeps w w' \<Longrightarrow> keeps w' w'' \<Longrightarrow> keeps w w''" by (auto simp: keeps_def)
lemma quiet_refl [simp, intro]: "quiet w w" by (simp add: quiet_def)
lemma quiet_trans: "quiet w w' \<Longrightarrow> quiet w' w'' \<Longrightarrow> quiet w w''" by (auto simp: quiet_def)

lemma quiet_same: "events w' = events w \<Longrightarrow> quiet w w'" by (simp add: quiet_def)
lemma quiet_emit: "quiet w w' \<Longrightarrow> (\<And>g d. e \<noteq> Dispatch g d) \<Longrightarrow> quiet w (emit e w')"
  by (auto simp: quiet_def split: walk_event.splits)

text \<open>The result of an early return, or of the step that follows.\<close>

definition after :: "early \<Rightarrow> walk" where
  "after e = (case e of Inl (_, w) \<Rightarrow> w | Inr w \<Rightarrow> w)"

lemma after_simps [simp]: "after (Inl (r, w)) = w" "after (Inr w) = w"
  by (simp_all add: after_def)

lemma keeps_and_then:
  "keeps w (after e) \<Longrightarrow> (\<And>v. keeps v (after (f v))) \<Longrightarrow> keeps w (after (and_then e f))"
  by (cases e) (auto intro: keeps_trans)

lemma quiet_and_then:
  "quiet w (after e) \<Longrightarrow> (\<And>v. quiet v (after (f v))) \<Longrightarrow> quiet w (after (and_then e f))"
  by (cases e) (auto intro: quiet_trans)

lemma cancel_frame: "keeps w (cancel_at_boundary b w)" "quiet w (cancel_at_boundary b w)"
  "status (st (cancel_at_boundary b w)) = Cancelled"
  by (auto simp: cancel_at_boundary_def keeps_def quiet_def)

lemma check_frames:
  "keeps w (after (check_checkpoint g w))" "keeps w (after (check_build x c g w))"
  "keeps w (after (check_open g w))" "keeps w (after (check_condition v fb g w))"
  "keeps w (after (check_release x c v g w))" "keeps w (after (check_post_build x c g w))"
  "keeps w (after (check_authority x c g w))" "keeps w (after (check_cancel x b w))"
  "keeps w (after (apply_signature x c v fb g w))"
  by (auto simp: check_checkpoint_def check_build_def check_open_def check_condition_def check_release_def
      check_post_build_def check_authority_def check_cancel_def apply_signature_def sign_walk_def Let_def cancel_at_boundary_def
      set_release_verification_def set_marker_def run_proof_stage_def keeps_def
      split: option.splits sum.splits prod.splits if_splits)

lemma check_quiet:
  "quiet w (after (check_checkpoint g w))" "quiet w (after (check_build x c g w))"
  "quiet w (after (check_open g w))" "quiet w (after (check_condition v fb g w))"
  "quiet w (after (check_release x c v g w))" "quiet w (after (check_post_build x c g w))"
  "quiet w (after (check_authority x c g w))" "quiet w (after (check_cancel x b w))"
  "quiet w (after (apply_signature x c v fb g w))"
  by (auto simp: check_checkpoint_def check_build_def check_open_def check_condition_def check_release_def
      check_post_build_def check_authority_def check_cancel_def apply_signature_def sign_walk_def Let_def cancel_at_boundary_def
      set_release_verification_def set_marker_def run_proof_stage_def quiet_def
      split: option.splits sum.splits prod.splits if_splits)

lemma approve_frame: "keeps w (after (approve x c v fb g w))" "quiet w (after (approve x c v fb g w))"
  unfolding approve_def
  by (intro keeps_and_then quiet_and_then check_frames check_quiet)+

text \<open>An early return is a refusal.\<close>

definition refused :: "early \<Rightarrow> bool" where
  "refused e = (case e of Inl (r, _) \<Rightarrow> r \<noteq> CompleteReady \<and> (\<forall>n. r \<noteq> Advanced n) | Inr _ \<Rightarrow> True)"

lemma refused_and_then: "refused e \<Longrightarrow> (\<And>v. refused (f v)) \<Longrightarrow> refused (and_then e f)"
  by (cases e) (auto simp: refused_def)

lemma checks_refuse:
  "refused (check_checkpoint g w)" "refused (check_build x c g w)" "refused (check_open g w)"
  "refused (check_condition v fb g w)" "refused (check_release x c v g w)" "refused (check_post_build x c g w)"
  "refused (check_authority x c g w)" "refused (check_cancel x b w)" "refused (apply_signature x c v fb g w)"
  by (auto simp: refused_def check_checkpoint_def check_build_def check_open_def check_condition_def check_release_def
      check_post_build_def check_authority_def check_cancel_def apply_signature_def Let_def
      split: option.splits sum.splits prod.splits if_splits)

lemma approve_refuses: "refused (approve x c v fb g w)"
  unfolding approve_def by (intro refused_and_then checks_refuse)

lemma enforce_marker [simp]: "enforce (set_marker m w) = enforce w" "enforce (set_release_verification t w) = enforce w"
  by (simp_all add: set_marker_def set_release_verification_def)

definition frozen where
  "frozen w = (core (st w), current_gate (st w), security_evidence (st w), runtime_evidence (st w), enforce w,
     runtime_ok w, ws w, prod w, g4_file w)"

lemma frozen_simps [simp]:
  "frozen (persist w) = frozen w" "frozen (emit e w) = frozen w" "frozen (unlock w) = frozen w"
  "frozen (set_marker m w) = frozen w" "frozen (set_release_verification t w) = frozen w"
  "frozen (cancel_at_boundary b w) = frozen w" "frozen (upd (\<lambda>s. s\<lparr>status := b1\<rparr>) w) = frozen w"
  "frozen (upd (\<lambda>s. s\<lparr>status := b1, last_outcome := b2\<rparr>) w) = frozen w"
  by (simp_all add: frozen_def set_marker_def set_release_verification_def cancel_at_boundary_def)

lemma finalize_frame:
  "keeps w (snd (finalize_pending_g5_release x c w))" "frozen (snd (finalize_pending_g5_release x c w)) = frozen w"
  by (auto simp: finalize_pending_g5_release_def Let_def keeps_def set_marker_def set_release_verification_def
      cancel_at_boundary_def split: option.split finalizer_outcome.split bool.split)
    (simp_all add: frozen_def)

lemma finalize_truth:
  assumes "finalize_pending_g5_release x c w = (FinalizeSucceeded, w')"
    and "finalization (st w) = Some m" and "m_status m = Pending"
  shows "\<exists>t. verification_evidence (st w') = Some t \<and> truth_ok t"
  using assms
  by (auto simp: finalize_pending_g5_release_def Let_def set_marker_def set_release_verification_def
      split: option.splits if_splits finalizer_outcome.splits bool.splits)

lemma same_strict: "frozen w = frozen w' \<Longrightarrow> strict_reasons x c w g p = strict_reasons x c w' g p"
  by (simp add: strict_reasons_def frozen_def)

lemma same_g4: "frozen w = frozen w' \<Longrightarrow> current_g4 x c w = current_g4 x c w'"
  by (simp add: current_g4_def frozen_def)

lemma gate_reasons_nil:
  "gate_release_reasons x c w gs = [] \<longleftrightarrow> (\<forall>g \<in> set gs. g \<in> set (signed (st w)) \<and> strict_reasons x c w g True = [])"
  by (auto simp: gate_release_reasons_def)

text \<open>The exact conditions of a release: nothing waived, no condition open, every gate signed in this delivery and
  by the strict check of the artifacts, the product proof current, and in production all safety evidence.\<close>

definition production_proven :: "outside \<Rightarrow> walk \<Rightarrow> bool" where
  "production_proven x w \<longleftrightarrow>
     security_evidence (st w) = Some ''passed'' \<and> runtime_ok w \<and>
     (case (runtime_evidence (st w), ux_now x) of
        (Some r, Some (stack, ux)) \<Rightarrow>
          rt_status r = ''passed'' \<and> rt_ok r \<and> rt_stack r = stack \<and> rt_ux_required r = Some ux \<and>
          (ux \<longrightarrow> rt_ux_status r = ''passed'' \<and> rt_ux_executed r \<and>
             rt_ux_schema r = ''signalos.ux-browser-proof.v1'')
      | _ \<Rightarrow> False)"

definition releasable :: "outside \<Rightarrow> config \<Rightarrow> walk \<Rightarrow> string \<Rightarrow> bool" where
  "releasable x c w digest \<longleftrightarrow>
     waived (st w) = [] \<and> conditions (st w) = [] \<and> current_gate (st w) = ''G5'' \<and>
     (\<forall>g \<in> set GATE_ORDER. g \<in> set (signed (st w)) \<and> strict_reasons x c w g True = []) \<and>
     current_g4 x c w = Some (Inr digest) \<and> digest \<noteq> [] \<and> repo_has_real_product_src (prod w) \<and>
     (walk_profile c = Production \<longrightarrow> production_proven x w)"

lemma production_nil: "production_reasons x w = [] \<longleftrightarrow> production_proven x w"
proof (cases "runtime_evidence (st w)")
  case None
  then show ?thesis by (simp add: production_reasons_def production_proven_def Let_def)
next
  case (Some r)
  note rt = this
  show ?thesis
  proof (cases "ux_now x")
    case None
    with rt show ?thesis by (simp add: production_reasons_def production_proven_def Let_def)
  next
    case (Some p)
    obtain stack ux where p: "p = (stack, ux)" by fastforce
    show ?thesis
    proof (cases "rt_ux_required r")
      case None
      with rt Some p show ?thesis by (simp add: production_reasons_def production_proven_def Let_def)
    next
      case (Some u)
      with rt \<open>ux_now x = Some p\<close> p show ?thesis
        by (cases u; cases ux) (auto simp: production_reasons_def production_proven_def Let_def)
    qed
  qed
qed

lemma completed_iff:
  "(\<exists>t. verify_completed_g5_release x c w = Some t \<and> truth_reasons t = [] \<and> truth_digest t = digest) \<longleftrightarrow>
   releasable x c w digest"
proof (cases "current_g4 x c w")
  case None
  then show ?thesis
    by (auto simp: verify_completed_g5_release_def releasable_def split: option.splits)
next
  case (Some v)
  have sub: "set (butlast GATE_ORDER) \<subseteq> set GATE_ORDER" by (auto dest: in_set_butlastD)
  show ?thesis
  proof (cases v)
    case (Inl why)
    with Some show ?thesis
      by (auto simp: verify_completed_g5_release_def releasable_def Let_def split: option.splits)
  next
    case (Inr h)
    have "verify_g5_release x c [] w = Some t \<Longrightarrow> truth_reasons t = [] \<longleftrightarrow>
        waived (st w) = [] \<and> conditions (st w) = [] \<and> repo_has_real_product_src (prod w) \<and>
        (enforce w \<and> current_gate (st w) = ''G5'' \<longrightarrow> h \<noteq> [] \<and> gate_release_reasons x c w (butlast GATE_ORDER) = []) \<and>
        (walk_profile c = Production \<longrightarrow> production_proven x w)" for t
      using Some Inr by (auto simp: verify_g5_release_def Let_def production_nil split: if_splits)
    moreover have "\<exists>t. verify_g5_release x c [] w = Some t"
      using Some Inr by (simp add: verify_g5_release_def Let_def)
    moreover have "gate_release_reasons x c w GATE_ORDER = [] \<Longrightarrow> gate_release_reasons x c w (butlast GATE_ORDER) = []"
      using sub by (auto simp: gate_reasons_nil)
    ultimately show ?thesis
      using Some Inr gate_reasons_nil [of x c w GATE_ORDER]
      by (auto simp: verify_completed_g5_release_def releasable_def Let_def split: if_splits)
  qed
qed

lemma same_releasable: "frozen w = frozen w' \<Longrightarrow> releasable x c w d = releasable x c w' d"
  using same_strict [of w w' x c] same_g4 [of w w' x c]
  by (simp add: releasable_def production_proven_def frozen_def core_def)

lemma marker_bound:
  "m_status m = Pending \<Longrightarrow> digest \<noteq> [] \<Longrightarrow>
   release_marker_reasons c m digest = [] \<longleftrightarrow>
     m_delivery m = walk_delivery c \<and> m_profile m = walk_profile c \<and> m_digest m = digest"
  by (auto simp: release_marker_reasons_def)

lemma finalize_iff:
  assumes "finalization (st w) = Some m" and "m_status m = Pending"
  shows "fst (finalize_pending_g5_release x c w) = FinalizeSucceeded \<longleftrightarrow>
    \<not> cancel_at x ''G5 finalization'' \<and> finalizer_free x \<and>
    releasable x c w (m_digest m) \<and> m_delivery m = walk_delivery c \<and> m_profile m = walk_profile c \<and>
    \<not> cancel_at x ''release seal'' \<and> finalizer x = FinSucceeded True" (is "?l \<longleftrightarrow> ?r")
proof (cases "verify_completed_g5_release x c w")
  case None
  with assms completed_iff [of x c w "m_digest m"] show ?thesis
    by (simp add: finalize_pending_g5_release_def)
next
  case (Some t)
  have ok: "truth_reasons t = [] \<and> release_marker_reasons c m (truth_digest t) = [] \<longleftrightarrow>
      releasable x c w (m_digest m) \<and> m_delivery m = walk_delivery c \<and> m_profile m = walk_profile c"
  proof (cases "truth_reasons t = []")
    case True
    then have r: "releasable x c w d \<longleftrightarrow> truth_digest t = d" for d using completed_iff [of x c w d] Some by auto
    then have "truth_digest t \<noteq> []" using releasable_def by blast
    from marker_bound [OF assms(2) this, of c] r [of "m_digest m"] True show ?thesis by auto
  next
    case False
    then show ?thesis using completed_iff [of x c w "m_digest m"] Some by auto
  qed
  have "truth_ok (with_marker_errors c (Some m) t) \<longleftrightarrow>
      releasable x c w (m_digest m) \<and> m_delivery m = walk_delivery c \<and> m_profile m = walk_profile c"
    unfolding truth_ok_def with_marker_errors_def using ok by simp
  with Some assms show ?thesis
    by (auto simp: finalize_pending_g5_release_def Let_def split: finalizer_outcome.splits bool.splits)
qed

lemma complete_frame: "keeps w (snd (complete_walk x c w))"
proof -
  let ?w = "persist (upd (\<lambda>s. s\<lparr>status := Complete\<rparr>)
    (if enforce w then set_marker (signed_marker c (finalization (st w))) w else w))"
  have 1: "keeps w ?w" by (simp add: keeps_def set_marker_def)
  obtain r v where r: "(if enforce w then finalize_pending_g5_release x c ?w else (FinalizePending, ?w)) = (r, v)"
    by fastforce
  with finalize_frame(1) [of ?w x c] have "keeps ?w v" by (auto split: if_splits)
  with 1 have k: "keeps w v" by (rule keeps_trans)
  have "snd (complete_walk x c w) \<in> {v, unlock (emit (DeliveryComplete True) v), unlock v}"
    using r by (auto simp: complete_walk_def Let_def split: if_splits)
  with k show ?thesis by (auto simp: keeps_def)
qed

lemma run_gate_keeps: "keeps w (run_gate x c g w)"
  by (simp add: keeps_def)

lemma advance_frame: "keeps w (snd (advance x c g w))"
proof (cases "next_after g")
  case None
  then show ?thesis by (simp add: advance_def complete_frame)
next
  case (Some nxt)
  let ?w = "persist (upd (\<lambda>s. s\<lparr>current_gate := nxt, status := Active\<rparr>) w)"
  have "keeps w ?w" by (simp add: keeps_def)
  from keeps_trans [OF this run_gate_keeps] Some show ?thesis by (simp add: advance_def)
qed

text \<open>How \<open>apply_verdict\<close> ends: with the core it found, or after recording a signature, a counter or a waiver.\<close>

lemma apply_cases:
  assumes "apply_verdict x c v fb w = (r, w')"
  obtains (kept) "keeps w w'" and "r \<noteq> CompleteReady" and "\<And>n. r \<noteq> Advanced n" and "quiet w w'"
  | (approved) w1 where "parse_verdict v \<in> {Approve, ApproveWithConditions}" and "\<not> cancel_at x ''verdict''"
      and "approve x c (parse_verdict v) fb (current_gate (st w)) w = Inr w1"
      and "advance x c (current_gate (st w)) (record_signature (parse_verdict v) fb (current_gate (st w)) w1) = (r, w')"
  | (other) "parse_verdict v \<notin> {Approve, ApproveWithConditions}" and "r \<noteq> CompleteReady" and "\<And>n. r \<noteq> Advanced n"
      and "(r, w') \<in> {request_changes x c fb (current_gate (st w)) w, reject_gate x c fb (current_gate (st w)) w,
             waive_gate x c fb (current_gate (st w)) w}"
proof (cases "cancel_at x ''verdict''")
  case True
  with assms have "r = RunCancelled" "w' = cancel_at_boundary ''verdict'' w"
    by (auto simp: apply_verdict_def check_cancel_def Let_def)
  then show thesis using kept cancel_frame by simp
next
  case False
  let ?g = "current_gate (st w)" and ?k = "parse_verdict v"
  from False have c: "check_cancel x ''verdict'' w = Inr w" by (simp add: check_cancel_def)
  have others: "fst (request_changes x c fb ?g w) \<noteq> CompleteReady" "fst (request_changes x c fb ?g w) \<noteq> Advanced n"
    "fst (reject_gate x c fb ?g w) \<noteq> CompleteReady" "fst (reject_gate x c fb ?g w) \<noteq> Advanced n"
    "fst (waive_gate x c fb ?g w) \<noteq> CompleteReady" "fst (waive_gate x c fb ?g w) \<noteq> Advanced n" for n
    by (auto simp: request_changes_def reject_gate_def waive_gate_def Let_def split: option.splits)
  show thesis
  proof (cases "?k \<in> {Approve, ApproveWithConditions}")
    case True
    show thesis
    proof (cases "approve x c ?k fb ?g w")
      case (Inl p)
      with assms c True have "p = (r, w')" by (auto simp: apply_verdict_def Let_def)
      with Inl approve_refuses [of x c ?k fb ?g w] approve_frame [where x = x and c = c and v = ?k and fb = fb and g = ?g and w = w]
      show thesis by (intro kept) (auto simp: refused_def)
    next
      case (Inr w1)
      with assms c True have "advance x c ?g (record_signature ?k fb ?g w1) = (r, w')"
        by (auto simp: apply_verdict_def Let_def)
      with approved True False Inr show thesis by blast
    qed
  next
    case no: False
    with assms c have "(r, w') \<in> {request_changes x c fb ?g w, reject_gate x c fb ?g w, waive_gate x c fb ?g w}"
      by (cases ?k) (auto simp: apply_verdict_def Let_def)
    moreover from this others have "r \<noteq> CompleteReady" "r \<noteq> Advanced n" for n by (metis fst_conv insertE singletonD)+
    ultimately show thesis using other no by blast
  qed
qed

text \<open>How \<open>reopen_gate\<close> ends: refused, with at most a row of the audit trail, or done.\<close>

definition reopened_walk :: "outside \<Rightarrow> config \<Rightarrow> string \<Rightarrow> string \<Rightarrow> int \<Rightarrow> walk \<Rightarrow> walk" where
  "reopened_walk x c gate reason n w =
     emit (GateCard gate) (emit (ReopenedEvent gate) (persist (upd (\<lambda>t. t\<lparr>current_gate := gate, status := Reopened\<rparr>)
       (record_review gate ''reopen'' reason n True (forget_evidence gate
         (upd (\<lambda>t. t\<lparr>reopens := (reopens t)(gate := n)\<rparr>)
           (fold (invalidate_gate x c gate reason) (drop (gate_index gate) GATE_ORDER) w)))))))"

lemma reopen_cases:
  assumes "reopen_gate x c raw reason w = (r, w')"
  obtains (refused) e s where "r \<noteq> ReopenDone" and "w' = emit e (w\<lparr>ws := s\<rparr>)"
  | (reopened) w1 m s where "r = ReopenDone" and "gate_id raw \<in> set GATE_ORDER" and "gate_id raw \<in> set (signed (st w))"
      and "reopens (st w) (gate_id raw) + 1 \<le> max_reopens c" and "acquire x w = Some w1"
      and "revoke_gates (sha_of x) (loads_of x) (time_of (clock_of x)) (snd (walk_delivery c)) (walk_signer c)
              reason (filter (\<lambda>g. g \<in> set (signed (st w))) (drop (gate_index (gate_id raw)) GATE_ORDER)) (ws w) = Inr (m, s)"
      and "w' = reopened_walk x c (gate_id raw) reason (reopens (st w) (gate_id raw) + 1) (w1\<lparr>ws := s\<rparr>)"
proof -
  let ?g = "gate_id raw"
  let ?b = "?g \<notin> set GATE_ORDER \<or> status (st w) \<notin> set REOPEN_SAFE_STATUSES \<or> ?g \<notin> set (signed (st w)) \<or>
    role_for ?g \<notin> set (reopen_roles_for ?g)"
  have same: "emit e w = emit e (w\<lparr>ws := ws w\<rparr>)" for e by simp
  show thesis
  proof (cases ?b)
    case True
    with assms have "r \<noteq> ReopenDone" "w' = emit (ErrorEvent ?g) w"
      by (auto simp: reopen_gate_def Let_def split: if_splits)
    then show thesis using refused same by metis
  next
    case False
    note b = False
    show thesis
    proof (cases "max_reopens c < reopens (st w) ?g + 1")
      case True
      with b assms show thesis by (intro refused) (auto simp: reopen_gate_def Let_def)
    next
      case False
      note budget = False
      show thesis
      proof (cases "acquire x w")
        case None
        with b budget assms have "r \<noteq> ReopenDone" "w' = emit (GateBlocked ?g) w"
          by (auto simp: reopen_gate_def Let_def)
        then show thesis using refused same by metis
      next
        case (Some w1)
        show thesis
        proof (cases "revoke_gates (sha_of x) (loads_of x) (time_of (clock_of x)) (snd (walk_delivery c)) (walk_signer c)
            reason (filter (\<lambda>g. g \<in> set (signed (st w))) (drop (gate_index ?g) GATE_ORDER)) (ws w)")
          case (Inl e)
          with b budget assms Some have "r \<noteq> ReopenDone" "w' = emit (ErrorEvent ?g) w"
            by (auto simp: reopen_gate_def Let_def)
          then show thesis using refused same by metis
        next
          case (Inr p)
          with b budget assms Some show thesis
            by (intro reopened [of w1 "fst p" "snd p"]) (auto simp: reopen_gate_def Let_def reopened_walk_def split: prod.splits)
        qed
      qed
    qed
  qed
qed

subsection \<open>Invariants of a delivery\<close>

text \<open>The operations of a delivery. Each is one step: a process that ends does so between two of them.\<close>

datatype walk_op = Start | Verdict string string | Reopen string string | Resume bool

text \<open>A resume that raises leaves no orchestrator; the walk waits as it was.\<close>

definition walk_step :: "config \<Rightarrow> walk \<Rightarrow> outside \<times> walk_op \<Rightarrow> walk" where
  "walk_step c w e =
     (case e of
        (x, Start) \<Rightarrow> start x c w
      | (x, Verdict v fb) \<Rightarrow> snd (apply_verdict x c v fb w)
      | (x, Reopen g reason) \<Rightarrow> snd (reopen_gate x c g reason w)
      | (x, Resume recover) \<Rightarrow> (case resume_delivery x c recover w of None \<Rightarrow> w | Some w' \<Rightarrow> w'))"

text \<open>A property of the core that every change of the core keeps holds of the state and of the checkpoint
  after every operation.\<close>

locale walk_invariant =
  fixes c :: config and P :: "delivery_state \<Rightarrow> bool"
  assumes core_only: "core s = core t \<Longrightarrow> P s \<Longrightarrow> P t"
    and keeps_signed: "P s \<Longrightarrow> P (s\<lparr>signed := l\<rparr>)"
    and keeps_condition: "P s \<Longrightarrow> P (s\<lparr>conditions := dict_set (conditions s) g cond\<rparr>)"
    and keeps_waived: "P s \<Longrightarrow> P (s\<lparr>waived := l\<rparr>)"
    and keeps_rework: "P s \<Longrightarrow> rework s g + 1 \<le> max_rework c \<Longrightarrow> P (s\<lparr>rework := (rework s)(g := rework s g + 1)\<rparr>)"
    and keeps_rejections:
      "P s \<Longrightarrow> rejections s g + 1 \<le> max_rejections c \<Longrightarrow> P (s\<lparr>rejections := (rejections s)(g := rejections s g + 1)\<rparr>)"
    and keeps_reopens: "P s \<Longrightarrow> reopens s g + 1 \<le> max_reopens c \<Longrightarrow> P (s\<lparr>reopens := (reopens s)(g := reopens s g + 1)\<rparr>)"
begin

definition holds :: "bool \<Rightarrow> walk \<Rightarrow> bool" where
  "holds b w \<longleftrightarrow> enforce w = b \<and> P (st w) \<and> (\<forall>s. checkpoint w = Some s \<longrightarrow> P s)"

lemma holds_keeps: "holds b w \<Longrightarrow> keeps w w' \<Longrightarrow> holds b w'"
  unfolding holds_def keeps_def by (metis core_only option.inject)

lemma holds_upd: "holds b w \<Longrightarrow> (P (st w) \<Longrightarrow> P (f (st w))) \<Longrightarrow> holds b (upd f w)"
  by (simp add: holds_def)

lemma holds_emit: "holds b w \<Longrightarrow> holds b (emit e w)"
  by (simp add: holds_def)

lemma holds_signature: "holds b w \<Longrightarrow> holds b (record_signature k fb g w)"
proof (unfold record_signature_def, intro holds_emit holds_upd)
  assume "P (st w)"
  then have p: "P (st w\<lparr>signed := signed (st w) @ [g]\<rparr>)" by (rule keeps_signed)
  from p keeps_condition [OF p, of g "strip fb"] show
    "P (st w\<lparr>signed := signed (st w) @ [g],
       conditions := if k = ApproveWithConditions then dict_set (conditions (st w)) g (strip fb) else conditions (st w)\<rparr>)"
    by simp
qed

lemma holds_review: "holds b w \<Longrightarrow> holds b (record_review g v fb n keep w)"
  by (erule holds_keeps) (simp_all add: record_review_def keeps_def)

lemma holds_stop: "holds b w \<Longrightarrow> holds b (stop_walk w)"
  by (erule holds_keeps) (simp_all add: stop_walk_def keeps_def)

lemma holds_run: "holds b w \<Longrightarrow> holds b (run_gate x c g w)"
  using holds_keeps run_gate_keeps by blast

lemma holds_apply: "holds b w \<Longrightarrow> holds b (snd (apply_verdict x c v fb w))"
proof -
  assume h: "holds b w"
  obtain r w' where a: "apply_verdict x c v fb w = (r, w')" by fastforce
  let ?g = "current_gate (st w)"
  have "holds b w'"
    using a
  proof (cases rule: apply_cases)
    case kept
    then show ?thesis using h holds_keeps by blast
  next
    case (approved w1)
    have "keeps w w1" using approve_frame(1) [where x = x and c = c and v = "parse_verdict v" and fb = fb and g = ?g and w = w]
        approved(3) by simp
    with h have "holds b (record_signature (parse_verdict v) fb ?g w1)" using holds_keeps holds_signature by blast
    with advance_frame [of "record_signature (parse_verdict v) fb ?g w1" x c ?g] approved(4) show ?thesis
      using holds_keeps by (metis snd_conv)
  next
    case other
    have "holds b (snd (request_changes x c fb ?g w))"
      by (auto simp: request_changes_def Let_def not_less
          intro!: holds_run holds_review holds_stop holds_emit holds_upd h keeps_rework)
    moreover have "holds b (snd (reject_gate x c fb ?g w))"
      by (auto simp: reject_gate_def Let_def not_less
          intro!: holds_run holds_review holds_stop holds_emit holds_upd h keeps_rejections)
    moreover have "holds b (snd (waive_gate x c fb ?g w))"
    proof -
      let ?v = "record_review ?g ''waive'' fb 0 False
          (upd (\<lambda>s. if ?g \<in> set (waived s) then s else s\<lparr>waived := waived s @ [?g]\<rparr>) w)"
      have v: "holds b ?v" by (auto intro!: holds_review holds_upd h keeps_waived)
      have "holds b (unlock (emit (DeliveryComplete False) (persist (upd (\<lambda>s. s\<lparr>status := Complete,
          verification_evidence := t s\<rparr>) ?v))))" for t
        by (rule holds_keeps [OF v]) (simp add: keeps_def)
      with v show ?thesis
        by (cases "next_after ?g") (auto simp: waive_gate_def Let_def intro: holds_emit h holds_run)
    qed
    ultimately show ?thesis using other(4) by (metis insertE singletonD snd_conv)
  qed
  with a show ?thesis by simp
qed

lemma holds_invalidate: "holds b w \<Longrightarrow> holds b (invalidate_gate x c target reason g w)"
proof -
  assume h: "holds b w"
  have w: "holds b (w\<lparr>ws := s\<rparr>)" for s using h by (simp add: holds_def)
  have i: "P t \<Longrightarrow> P (t\<lparr>invalidated := l\<rparr>)" for t l by (rule core_only [of t]) simp_all
  show ?thesis
    using i keeps_signed keeps_waived by (auto simp: invalidate_gate_def Let_def h intro!: holds_upd w)
qed

lemma holds_reopen: "holds b w \<Longrightarrow> holds b (snd (reopen_gate x c raw reason w))"
proof -
  assume h: "holds b w"
  let ?g = "gate_id raw"
  let ?later = "drop (gate_index ?g) GATE_ORDER"
  obtain r w' where eq: "reopen_gate x c raw reason w = (r, w')" by fastforce
  then have "holds b w'"
  proof (cases rule: reopen_cases)
    case (refused e s)
    with h show ?thesis by (simp add: holds_def)
  next
    case (reopened w1 m s)
    from reopened(5) h have h1: "holds b (w1\<lparr>ws := s\<rparr>)" and c1: "core (st w1) = core (st w)"
      by (auto simp: acquire_def holds_def split: if_splits)
    have f: "holds b (fold (invalidate_gate x c ?g reason) gs v) \<and>
        reopens (st (fold (invalidate_gate x c ?g reason) gs v)) = reopens (st v)" if "holds b v" for gs v
      using that
    proof (induction gs arbitrary: v)
      case (Cons a gs)
      have "reopens (st (invalidate_gate x c ?g reason a v)) = reopens (st v)"
        by (simp add: invalidate_gate_def Let_def)
      with Cons.IH [OF holds_invalidate [OF Cons.prems]] show ?case by simp
    qed simp
    let ?v = "fold (invalidate_gate x c ?g reason) ?later (w1\<lparr>ws := s\<rparr>)"
    have "reopens (st ?v) = reopens (st w)" using f [OF h1] c1 by (simp add: core_def)
    then have "holds b (upd (\<lambda>t. t\<lparr>reopens := (reopens t)(?g := reopens (st w) ?g + 1)\<rparr>) ?v)"
      using f [OF h1] reopened(4) keeps_reopens [of "st ?v" ?g] by (intro holds_upd) auto
    moreover have "keeps v (forget_evidence ?g v)" for v by (simp add: forget_evidence_def Let_def keeps_def)
    ultimately have "holds b (record_review ?g ''reopen'' reason (reopens (st w) ?g + 1) True (forget_evidence ?g
            (upd (\<lambda>t. t\<lparr>reopens := (reopens t)(?g := reopens (st w) ?g + 1)\<rparr>) ?v)))"
      using holds_keeps holds_review by blast
    then show ?thesis unfolding reopened(7) reopened_walk_def by (rule holds_keeps) (simp add: keeps_def)
  qed
  with eq show ?thesis by simp
qed

lemma holds_recover: "holds b w \<Longrightarrow> recover_g5_release x c w = Some w' \<Longrightarrow> holds b w'"
proof -
  have marker: "holds b v \<Longrightarrow> holds b (persist (set_release_verification t (set_marker m v)))" for v m t
    by (erule holds_keeps) (simp_all add: keeps_def set_release_verification_def set_marker_def)
  have rec: "recheck_complete x c v = Some v' \<Longrightarrow> holds b v \<Longrightarrow> holds b v'" for v v'
  proof -
    assume r: "recheck_complete x c v = Some v'" and h: "holds b v"
    have h': "holds b (persist (set_release_verification t v))" for t
      by (rule holds_keeps [OF h]) (simp add: keeps_def set_release_verification_def)
    have "holds b (snd (finalize_pending_g5_release x c (persist (set_release_verification t v))))" for t
      using holds_keeps [OF h' finalize_frame(1)] .
    then have fin: "finalize_pending_g5_release x c (persist (set_release_verification t v)) = (a, u) \<Longrightarrow> holds b u" for t a u
      by (metis snd_conv)
    show "holds b v'"
      using r h h' fin
      by (auto simp: recheck_complete_def Let_def split: if_splits option.splits prod.splits finalize_result.splits)
  qed
  have crash: "reconcile_signed_crash x c m v = Some (d, v') \<Longrightarrow> holds b v \<Longrightarrow> holds b v'" for m v d v'
  proof -
    assume r: "reconcile_signed_crash x c m v = Some (d, v')" and h: "holds b v"
    have ended: "holds b (persist (set_marker m' (upd (\<lambda>s. s\<lparr>signed := l s, status := Complete\<rparr>) v)))" for m' l
    proof -
      have i: "P t \<Longrightarrow> P (t\<lparr>status := Complete\<rparr>)" for t by (rule core_only [of t]) simp_all
      have "P (st v\<lparr>signed := l (st v), status := Complete\<rparr>)"
        using h i [OF keeps_signed] by (simp add: holds_def)
      then have "holds b (upd (\<lambda>s. s\<lparr>signed := l s, status := Complete\<rparr>) v)"
        using h by (intro holds_upd) simp_all
      then show ?thesis by (rule holds_keeps) (simp add: keeps_def set_marker_def)
    qed
    show "holds b v'"
      using r h marker [OF h] ended
      by (auto simp: reconcile_signed_crash_def Let_def split: if_splits option.splits)
  qed
  show "holds b w \<Longrightarrow> recover_g5_release x c w = Some w' \<Longrightarrow> holds b w'"
    by (auto simp: recover_g5_release_def split: option.splits if_splits prod.splits bool.splits dest: rec crash)
qed

lemma holds_step: "holds b w \<Longrightarrow> holds b (walk_step c w e)"
proof -
  assume h: "holds b w"
  obtain x k where e: "e = (x, k)" by fastforce
  show ?thesis
  proof (cases k)
    case Start
    have "holds b (w\<lparr>lock_held := True\<rparr>)" using h by (simp add: holds_def)
    then show ?thesis using h
      by (auto simp: e Start walk_step_def start_def acquire_def intro: holds_run holds_emit)
  next
    case (Resume recover)
    show ?thesis
    proof (cases "resume_delivery x c recover w")
      case None
      with h show ?thesis by (simp add: e Resume walk_step_def)
    next
      case (Some w')
      then obtain s where s: "checkpoint w = Some s" by (auto simp: resume_delivery_def split: option.splits)
      have r: "holds b (w\<lparr>st := s, g4_verify := a, runtime_ok := d, lock_held := l, enforce_blocked := f\<rparr>)" for a d l f
        using h s by (simp add: holds_def)
      have r': "holds b (w\<lparr>st := s, g4_verify := a, runtime_ok := d, enforce_blocked := f, lock_held := l\<rparr>)" for a d l f
        using h s by (simp add: holds_def)
      have u: "holds b v \<Longrightarrow> holds b (unlock v)" for v by (simp add: holds_def)
      from Some s show ?thesis
        by (auto simp: e Resume walk_step_def resume_delivery_def Let_def r r' dest!: holds_recover [OF r'] intro: u
            split: if_splits)
    qed
  qed (simp_all add: e walk_step_def holds_apply holds_reopen h)
qed

end

text \<open>Two of them: the counters stay within their budgets, and a recorded condition stays recorded.\<close>

definition within_budget :: "config \<Rightarrow> delivery_state \<Rightarrow> bool" where
  "within_budget c s \<longleftrightarrow>
     (\<forall>g. rework s g \<le> max_rework c \<and> rejections s g \<le> max_rejections c \<and> reopens s g \<le> max_reopens c)"

definition has_conditions :: "delivery_state \<Rightarrow> bool" where
  "has_conditions s \<longleftrightarrow> conditions s \<noteq> []"

lemma dict_set_some [simp]: "dict_set d k v \<noteq> []"
  by (induction d k v rule: dict_set.induct) auto

interpretation budget: walk_invariant c "within_budget c" for c
  by unfold_locales (auto simp: within_budget_def core_def)

interpretation conditional: walk_invariant c has_conditions for c
  by unfold_locales (auto simp: has_conditions_def core_def)

interpretation budget_run: machine "walk_step c" "budget.holds c b" for c b
  by unfold_locales (rule budget.holds_step)

interpretation conditional_run: machine "walk_step c" "conditional.holds b" for c b
  by unfold_locales (rule conditional.holds_step)

subsection \<open>A small delivery\<close>

text \<open>An outside in which every agent completes and changes nothing, and a walk with its first two gates signed.\<close>

definition demo_outside :: outside where
  "demo_outside =
     \<lparr>sha_of = (\<lambda>_. ''0''), loads_of = (\<lambda>_. None), clock_of = \<lparr>date_of = ''d'', time_of = ''t''\<rparr>,
      strict_of = \<lparr>root_path = ''/w'', owns_transaction = False, template_markers = (\<lambda>_. []), release_proven = True\<rparr>,
      wave_of = PNone, outcome_proven = True, placeholders = (\<lambda>_. []), custom_sign = (\<lambda>_ s. (True, s)),
      agent_run = (\<lambda>_ _ _ (s, p).
        (\<lparr>run_status = ''completed'', run_wrote_no_files = False, run_error = [], run_failure = []\<rparr>, s, p)),
      scaffold = (\<lambda>p. p), dependencies_ok = True, evidence_writable = True,
      validate_run = demo_validate, fresh_artifact = (\<lambda>_ _. True), fresh_work_dir = (\<lambda>_. True),
      plan_of = \<lparr>acceptance_exists = True, plan_md = None, tasks_yaml_exists = False, plan_tasks = [],
                 skeleton_exists = (\<lambda>_. True)\<rparr>,
      cancel_at = (\<lambda>_. False), lock_free = True, scan_result = ''passed'',
      proof_result = \<lparr>rt_status = ''passed'', rt_stack = ''s'', rt_ux_required = Some False, rt_ux_status = [],
                      rt_ux_executed = False, rt_ux_schema = [], rt_ok = True\<rparr>,
      ux_now = None, finalizer_free = True, finalizer = FinDeferred\<rparr>"

definition demo_config :: config where
  "demo_config =
     \<lparr>walk_delivery = (''r'', ''p''), walk_profile = Benchmark, walk_signer = ''S'', walk_prompt = ''build'',
      max_rework = 3, max_rejections = 2, max_reopens = 3\<rparr>"

definition demo_state :: "(string \<times> string) list \<Rightarrow> delivery_state" where
  "demo_state cs =
     \<lparr>current_gate = ''G2'', status = AwaitingVerdict, rework = (\<lambda>_. 0), rejections = (\<lambda>_. 0), reopens = (\<lambda>_. 0),
      signed = [''G0'', ''G1''], waived = [], review_notes = [], invalidated = [], conditions = cs,
      last_outcome = None, g4_evidence = None, security_evidence = None, runtime_evidence = None,
      verification_evidence = None, finalization = None\<rparr>"

definition demo_walk :: "bool \<Rightarrow> (string \<times> string) list \<Rightarrow> walk" where
  "demo_walk b cs =
     \<lparr>st = demo_state cs, checkpoint = Some (demo_state cs), g4_verify = None, runtime_ok = False,
      ws = \<lparr>art_files = (\<lambda>_. None), trail = None, ledger = None, g0_journal = NoJournal\<rparr>,
      prod = demo_product ''x'' Directory, g4_file = None, lock_held = True, events = [], enforce = b,
      enforce_blocked = b\<rparr>"

lemma ready_iff:
  "enforce w \<and> fst (complete_walk x c w) = CompleteReady \<longleftrightarrow>
   enforce w \<and> (\<exists>m. finalization (st w) = Some m \<and> releasable x c w (m_digest m)) \<and>
   \<not> cancel_at x ''G5 finalization'' \<and> \<not> cancel_at x ''release seal'' \<and>
   finalizer_free x \<and> finalizer x = FinSucceeded True"
proof (cases "enforce w")
  case True
  let ?m = "signed_marker c (finalization (st w))"
  let ?w = "persist (upd (\<lambda>s. s\<lparr>status := Complete\<rparr>) (set_marker ?m w))"
  obtain r v where r: "finalize_pending_g5_release x c ?w = (r, v)" by fastforce
  have m: "finalization (st ?w) = Some ?m" "m_status ?m = Pending" "m_delivery ?m = walk_delivery c"
    "m_profile ?m = walk_profile c"
    by (simp_all add: set_marker_def signed_marker_def pending_marker_def split: option.split)
  have "frozen ?w = frozen w" by simp
  from same_releasable [OF this] finalize_iff [OF m(1,2), of x c] m(3,4) r
  have f: "r = FinalizeSucceeded \<longleftrightarrow> \<not> cancel_at x ''G5 finalization'' \<and> finalizer_free x \<and>
      releasable x c w (m_digest ?m) \<and> \<not> cancel_at x ''release seal'' \<and> finalizer x = FinSucceeded True"
    by auto
  have d: "releasable x c w (m_digest ?m) \<longleftrightarrow> (\<exists>m. finalization (st w) = Some m \<and> releasable x c w (m_digest m))"
    by (cases "finalization (st w)") (auto simp: signed_marker_def pending_marker_def releasable_def)
  have "fst (complete_walk x c w) = CompleteReady \<longleftrightarrow> r = FinalizeSucceeded"
  proof
    assume "fst (complete_walk x c w) = CompleteReady"
    moreover have "enforce v" using finalize_frame(1) [of ?w x c] r True by (simp add: keeps_def)
    ultimately show "r = FinalizeSucceeded" using True r by (auto simp: complete_walk_def Let_def split: if_splits)
  next
    assume s: "r = FinalizeSucceeded"
    from finalize_truth [OF r [unfolded s] m(1,2)] obtain t where
      "verification_evidence (st v) = Some t" "truth_ok t" by blast
    with s r True show "fst (complete_walk x c w) = CompleteReady" by (simp add: complete_walk_def Let_def)
  qed
  with f d True show ?thesis by blast
qed simp

subsection \<open>Properties of a delivery\<close>

text \<open>C15: the counters of a delivery keep to their budgets. Whatever verdicts, reopenings, starts and resumes it sees
  (a process may end between any two of them), and whatever its agents do, the number of reworks, rejections and
  reopenings it has recorded for a gate is at most the budget, in memory and in the checkpoint from which the next
  process resumes. Each operation runs to its end here: a process that dies while the agent of a rework is running
  loses that count (\<open>rework_is_not_checkpointed\<close>), so the theorem bounds what is recorded, and not the reruns of
  processes that die in them.\<close>

theorem budgets_bounded:
  assumes "within_budget c (st w)" and "\<forall>s. checkpoint w = Some s \<longrightarrow> within_budget c s"
  shows "within_budget c (st (foldl (walk_step c) w es)) \<and>
    (\<forall>s. checkpoint (foldl (walk_step c) w es) = Some s \<longrightarrow> within_budget c s)"
proof -
  have "budget.holds c (enforce w) w" using assms by (simp add: budget.holds_def)
  from budget_run.run_inv [OF this] show ?thesis by (simp add: budget.holds_def)
qed

theorem budgets_bounded_witness:
  "within_budget demo_config (st (foldl (walk_step demo_config) (demo_walk True [])
     [(demo_outside, Verdict ''reject'' ''no''), (demo_outside, Resume True), (demo_outside, Reopen ''G1'' ''r'')]))"
  by (rule budgets_bounded [THEN conjunct1])
    (simp_all add: within_budget_def demo_config_def demo_walk_def demo_state_def)

text \<open>C24: A delivery on the production path is reported complete and ready exactly when nothing is waived, no condition is
  open, all six gates are signed in this delivery and pass the strict check of their artifacts, the product
  proof holds for the current bytes and is the one the marker recorded before the signature, production has
  all its security, runtime and UX evidence, nobody cancels, and the finalizer returns a valid receipt.\<close>

theorem release_ready_iff:
  "enforce w \<and> fst (complete_walk x c w) = CompleteReady \<longleftrightarrow>
   enforce w \<and> (\<exists>m. finalization (st w) = Some m \<and> releasable x c w (m_digest m)) \<and>
   \<not> cancel_at x ''G5 finalization'' \<and> \<not> cancel_at x ''release seal'' \<and>
   finalizer_free x \<and> finalizer x = FinSucceeded True"
  by (rule ready_iff)

text \<open>An approval with conditions can never be lived down: once a condition is recorded in the state and in the
  checkpoint, no sequence of verdicts, reopenings, starts and resumes, not even reopening the gate and
  approving it without conditions, lets the delivery complete as ready.\<close>

theorem conditions_block_forever:
  assumes "enforce w" and "conditions (st w) \<noteq> []" and "\<forall>s. checkpoint w = Some s \<longrightarrow> conditions s \<noteq> []"
  shows "fst (apply_verdict x c v fb (foldl (walk_step c) w es)) \<noteq> CompleteReady"
proof
  let ?w = "foldl (walk_step c) w es"
  assume ready: "fst (apply_verdict x c v fb ?w) = CompleteReady"
  have "conditional.holds True w" using assms by (simp add: conditional.holds_def has_conditions_def)
  from conditional_run.run_inv [OF this] have h: "conditional.holds True ?w" .
  obtain r w' where a: "apply_verdict x c v fb ?w = (r, w')" by fastforce
  with ready have "r = CompleteReady" by simp
  with a show False
  proof (cases rule: apply_cases)
    case (approved w1)
    let ?g = "current_gate (st ?w)"
    let ?v = "record_signature (parse_verdict v) fb ?g w1"
    have "keeps ?w w1"
      using approve_frame(1) [where x = x and c = c and v = "parse_verdict v" and fb = fb and g = ?g and w = ?w] approved(3) by simp
    then have hv: "conditional.holds True ?v"
      using h conditional.holds_keeps conditional.holds_signature by blast
    have "fst (complete_walk x c ?v) = CompleteReady"
      using approved(4) \<open>r = CompleteReady\<close> by (auto simp: advance_def split: option.splits)
    with ready_iff [of ?v x c] hv show False
      by (auto simp: conditional.holds_def has_conditions_def releasable_def)
  qed auto
qed

theorem conditions_block_forever_witness:
  "fst (apply_verdict demo_outside demo_config ''approve'' [] (foldl (walk_step demo_config)
     (demo_walk True [(''G1'', ''later'')]) [(demo_outside, Reopen ''G1'' ''again''), (demo_outside, Verdict ''approve'' [])]))
   \<noteq> CompleteReady"
  by (rule conditions_block_forever) (simp_all add: demo_walk_def demo_state_def)

text \<open>Which gate a verdict may sign.\<close>

lemma and_then_chain: "and_then e f = Inr w \<Longrightarrow> \<exists>w1. e = Inr w1 \<and> f w1 = Inr w"
  by (cases e) auto

definition may_sign :: "outside \<Rightarrow> config \<Rightarrow> walk \<Rightarrow> string \<Rightarrow> bool" where
  "may_sign x c w gate \<longleftrightarrow>
     (status (st w) = Blocked \<longrightarrow> \<not> enforce_blocked w) \<and>
     (enforce w \<longrightarrow>
        (if gate = ''G4'' then (\<exists>digest. current_g4 x c w = Some (Inr digest))
         else status (st w) \<in> {AwaitingVerdict, Reopened}) \<and>
        (gate = ''G0'' \<longrightarrow> strict_reasons x c w ''G0'' True = []) \<and>
        (gate = ''G5'' \<longrightarrow> waived (st w) = [] \<and> conditions (st w) = [] \<and> repo_has_real_product_src (prod w)))"

lemma release_check_ok:
  assumes "check_release x c v ''G5'' w = Inr w'"
  shows "waived (st w) = [] \<and> conditions (st w) = [] \<and> repo_has_real_product_src (prod w)"
proof (cases "verify_g5_release x c (if v = ApproveWithConditions then [''G5''] else []) w")
  case None
  with assms show ?thesis by (simp add: check_release_def)
next
  case (Some t)
  with assms have "truth_reasons t = []"
    by (auto simp: check_release_def Let_def truth_ok_def split: if_splits)
  with Some show ?thesis
    by (auto simp: verify_g5_release_def Let_def split: if_splits option.splits sum.splits)
qed

lemma approve_may_sign:
  assumes "approve x c v fb gate w = Inr w'"
  shows "may_sign x c w gate \<and> (v = ApproveWithConditions \<longrightarrow> strip fb \<noteq> [])"
proof -
  from assms obtain w1 where 1: "check_checkpoint gate w = Inr w1" and r1: "and_then (check_build x c gate w1) (\<lambda>w.
     and_then (check_open gate w) (\<lambda>w.
     and_then (check_condition v fb gate w) (\<lambda>w.
     and_then (check_release x c v gate w) (\<lambda>w.
     and_then (check_post_build x c gate w) (\<lambda>w.
     and_then (check_authority x c gate w) (\<lambda>w.
     and_then (check_cancel x ''gate signature'' w) (\<lambda>w.
     apply_signature x c v fb gate w))))))) = Inr w'"
    unfolding approve_def by (blast dest: and_then_chain)
  have w1: "w1 = w" "status (st w) = Blocked \<longrightarrow> \<not> enforce_blocked w"
    using 1 by (auto simp: check_checkpoint_def split: if_splits)
  from r1 obtain w2 where 2: "check_build x c gate w = Inr w2" and r2: "and_then (check_open gate w2) (\<lambda>w.
     and_then (check_condition v fb gate w) (\<lambda>w.
     and_then (check_release x c v gate w) (\<lambda>w.
     and_then (check_post_build x c gate w) (\<lambda>w.
     and_then (check_authority x c gate w) (\<lambda>w.
     and_then (check_cancel x ''gate signature'' w) (\<lambda>w.
     apply_signature x c v fb gate w)))))) = Inr w'" unfolding w1 by (blast dest: and_then_chain)
  have w2: "gate \<noteq> ''G4'' \<longrightarrow> w2 = w" "gate = ''G4'' \<and> enforce w \<longrightarrow> (\<exists>digest. current_g4 x c w = Some (Inr digest))"
    using 2 by (auto simp: check_build_def split: if_splits option.splits sum.splits)
  from r2 obtain w3 where 3: "check_open gate w2 = Inr w3" and r3: "and_then (check_condition v fb gate w3) (\<lambda>w.
     and_then (check_release x c v gate w) (\<lambda>w.
     and_then (check_post_build x c gate w) (\<lambda>w.
     and_then (check_authority x c gate w) (\<lambda>w.
     and_then (check_cancel x ''gate signature'' w) (\<lambda>w.
     apply_signature x c v fb gate w))))) = Inr w'" by (blast dest: and_then_chain)
  have w3: "w3 = w2" "gate \<noteq> ''G4'' \<and> enforce w \<longrightarrow> status (st w) \<in> {AwaitingVerdict, Reopened}"
    using 3 w2(1) by (auto simp: check_open_def split: if_splits)
  from r3 obtain w4 where 4: "check_condition v fb gate w2 = Inr w4" and r4: "and_then (check_release x c v gate w4) (\<lambda>w.
     and_then (check_post_build x c gate w) (\<lambda>w.
     and_then (check_authority x c gate w) (\<lambda>w.
     and_then (check_cancel x ''gate signature'' w) (\<lambda>w.
     apply_signature x c v fb gate w)))) = Inr w'" unfolding w3(1) by (blast dest: and_then_chain)
  have w4: "w4 = w2" "v = ApproveWithConditions \<longrightarrow> strip fb \<noteq> []"
    using 4 by (auto simp: check_condition_def split: if_splits)
  from r4 obtain w5 w6 w7 where 5: "check_release x c v gate w2 = Inr w5"
    and 6: "check_post_build x c gate w5 = Inr w6" and 7: "check_authority x c gate w6 = Inr w7"
    unfolding w4(1) by (blast dest: and_then_chain)
  have g5: "gate = ''G5'' \<longrightarrow> waived (st w) = [] \<and> conditions (st w) = [] \<and> repo_has_real_product_src (prod w)"
    using 5 w2(1) release_check_ok by auto
  have g0: "gate = ''G0'' \<and> enforce w \<longrightarrow> strict_reasons x c w ''G0'' True = []"
    using 5 6 7 w2(1) by (auto simp: check_release_def check_post_build_def check_authority_def split: if_splits)
  show ?thesis using w1(2) w2(2) w3(2) w4(2) g5 g0 by (auto simp: may_sign_def)
qed

text \<open>C1: A verdict adds at most the current gate to the signed ones, and only a verdict that approves: on the
  production path the gate was open for review (the build gate instead proven for the current bytes),
  Gate 0 already carried its strict approval, Gate 5 had nothing waived or conditional, a conditional
  approval has a text, and nobody had cancelled.\<close>

theorem signed_only_by_approval:
  assumes "apply_verdict x c v fb w = (r, w')" and "g \<in> set (signed (st w'))" and "g \<notin> set (signed (st w))"
  shows "g = current_gate (st w) \<and> parse_verdict v \<in> {Approve, ApproveWithConditions} \<and> may_sign x c w g \<and>
    (parse_verdict v = ApproveWithConditions \<longrightarrow> strip fb \<noteq> []) \<and> \<not> cancel_at x ''verdict''"
  using assms(1)
proof (cases rule: apply_cases)
  case kept
  with assms show ?thesis by (simp add: keeps_def core_def)
next
  case (approved w1)
  let ?g = "current_gate (st w)"
  have "keeps w w1"
    using approve_frame(1) [where x = x and c = c and v = "parse_verdict v" and fb = fb and g = ?g and w = w] approved(3) by simp
  moreover have "keeps (record_signature (parse_verdict v) fb ?g w1) w'"
    using advance_frame [of "record_signature (parse_verdict v) fb ?g w1" x c ?g] approved(4) by simp
  ultimately have "signed (st w') = signed (st w) @ [?g]"
    by (simp add: keeps_def core_def record_signature_def)
  with assms(2,3) have "g = ?g" by simp
  with approve_may_sign [OF approved(3)] approved(1,2) show ?thesis by blast
next
  case other
  have "signed (st (snd (request_changes x c fb (current_gate (st w)) w))) = signed (st w)"
    "signed (st (snd (reject_gate x c fb (current_gate (st w)) w))) = signed (st w)"
    "signed (st (snd (waive_gate x c fb (current_gate (st w)) w))) = signed (st w)"
    using run_gate_frame(1) unfolding core_def
    by (auto simp: request_changes_def reject_gate_def waive_gate_def record_review_def stop_walk_def Let_def
        split: option.split)
  with other(4) assms(2,3) show ?thesis by (metis insertE singletonD snd_conv)
qed

lemma demo_approve: "approve demo_outside demo_config Approve [] ''G2'' (demo_walk False []) = Inr (demo_walk False [])"
  by (simp add: approve_def check_checkpoint_def check_build_def check_open_def check_condition_def check_release_def
      check_post_build_def check_authority_def check_cancel_def apply_signature_def sign_walk_def demo_walk_def
      demo_state_def demo_outside_def)

theorem signed_only_by_approval_witness:
  "''G2'' \<in> set (signed (st (snd (apply_verdict demo_outside demo_config ''approve'' [] (demo_walk False []))))) \<and>
   may_sign demo_outside demo_config (demo_walk False []) ''G2''"
proof -
  let ?w = "demo_walk False []"
  obtain r w' where a: "apply_verdict demo_outside demo_config ''approve'' [] ?w = (r, w')" by fastforce
  have g: "current_gate (st ?w) = ''G2''" "''G2'' \<notin> set (signed (st ?w))" by (simp_all add: demo_walk_def demo_state_def)
  have k: "parse_verdict ''approve'' = Approve" "check_cancel demo_outside ''verdict'' ?w = Inr ?w"
    by (simp_all add: parse_verdict_def check_cancel_def demo_outside_def dict_get_def)
  with a g demo_approve have "advance demo_outside demo_config ''G2'' (record_signature Approve [] ''G2'' ?w) = (r, w')"
    by (simp add: apply_verdict_def Let_def)
  with advance_frame [of "record_signature Approve [] ''G2'' ?w" demo_outside demo_config "''G2''"]
  have "''G2'' \<in> set (signed (st w'))" by (simp add: keeps_def core_def record_signature_def)
  with signed_only_by_approval [OF a this g(2)] a show ?thesis by (simp add: g(1))
qed

text \<open>C36: an approval that moves on is durable first: no agent runs before the next gate's, and that one only with a
  checkpoint on disk which names the next gate and records the signature.\<close>

theorem approval_is_checkpointed:
  assumes "apply_verdict x c v fb w = (Advanced nxt, w')"
  shows "\<exists>es s. events w' = events w @ es \<and> set (dispatch_log es) = {(nxt, Some s)} \<and>
    current_gate s = nxt \<and> current_gate (st w) \<in> set (signed s) \<and> next_after (current_gate (st w)) = Some nxt"
  using assms
proof (cases rule: apply_cases)
  case (approved w1)
  let ?g = "current_gate (st w)"
  let ?v = "record_signature (parse_verdict v) fb ?g w1"
  have "quiet w w1"
    using approve_frame(2) [where x = x and c = c and v = "parse_verdict v" and fb = fb and g = ?g and w = w] approved(3) by simp
  moreover have "quiet w1 ?v" by (simp add: record_signature_def quiet_def)
  ultimately obtain es where es: "events ?v = events w @ es" "dispatch_log es = []"
    using quiet_trans unfolding quiet_def by blast
  have nofin: "next_after ?g \<noteq> None"
  proof
    assume "next_after ?g = None"
    with approved(4) have "fst (complete_walk x c ?v) = Advanced nxt" by (simp add: advance_def)
    then show False by (auto simp: complete_walk_def Let_def split: prod.splits if_splits)
  qed
  then have n: "next_after ?g = Some nxt" using approved(4) by (auto simp: advance_def split: option.splits)
  let ?u = "persist (upd (\<lambda>s. s\<lparr>current_gate := nxt, status := Active\<rparr>) ?v)"
  have w': "w' = run_gate x c nxt ?u" using approved(4) n by (simp add: advance_def)
  obtain fs where fs: "events w' = events ?u @ fs" "set (dispatch_log fs) = {(nxt, checkpoint ?u)}"
    unfolding w' by (rule run_gate_events)
  have "?g \<in> set (signed (st ?u))" "current_gate (st ?u) = nxt" by (simp_all add: record_signature_def)
  with es fs n show ?thesis by (intro exI [of _ "es @ fs"] exI [of _ "st ?u"]) simp
qed auto

theorem approval_is_checkpointed_witness:
  "\<exists>es s. events (snd (apply_verdict demo_outside demo_config ''approve'' [] (demo_walk False []))) = es \<and>
     set (dispatch_log es) = {(''G3'', Some s)} \<and> ''G2'' \<in> set (signed s)"
proof -
  let ?w = "demo_walk False []"
  have g: "current_gate (st ?w) = ''G2''" "events ?w = []" by (simp_all add: demo_walk_def demo_state_def)
  have k: "parse_verdict ''approve'' = Approve" "check_cancel demo_outside ''verdict'' ?w = Inr ?w"
    by (simp_all add: parse_verdict_def check_cancel_def demo_outside_def dict_get_def)
  have n: "next_after ''G2'' = Some ''G3''" by code_simp
  obtain r w' where a: "apply_verdict demo_outside demo_config ''approve'' [] ?w = (r, w')" by fastforce
  with g k n demo_approve have "r = Advanced ''G3''" by (simp add: apply_verdict_def advance_def Let_def)
  with approval_is_checkpointed [OF a [unfolded this]] a g show ?thesis by auto
qed

text \<open>A waiver is not: the next agent runs with the old checkpoint, and a process that stops during its run
  resumes at the waived gate.\<close>

lemma waiver_is_not_checkpointed:
  assumes "waive_gate x c fb gate w = (AdvancedWaived nxt, w')"
  shows "\<exists>es. events w' = events w @ es \<and> set (dispatch_log es) = {(nxt, checkpoint w)}"
proof -
  let ?v = "record_review gate ''waive'' fb 0 False
    (upd (\<lambda>s. if gate \<in> set (waived s) then s else s\<lparr>waived := waived s @ [gate]\<rparr>) w)"
  have w': "w' = run_gate x c nxt ?v"
    using assms by (auto simp: waive_gate_def Let_def split: if_splits option.splits)
  have v: "events ?v = events w @ [Reviewed gate ''waive'' 0]" "checkpoint ?v = checkpoint w"
    by (simp_all add: record_review_def)
  obtain fs where "events w' = events ?v @ fs" "set (dispatch_log fs) = {(nxt, checkpoint ?v)}"
    unfolding w' by (rule run_gate_events)
  with v show ?thesis by (intro exI [of _ "Reviewed gate ''waive'' 0 # fs"]) simp
qed

text \<open>Nor is the count of a rework or of a rejection: the agent runs again with the checkpoint of before, and a process
  that dies in that run leaves a checkpoint without the count. The next process may rework the gate once more.\<close>

lemma rework_is_not_checkpointed:
  assumes "request_changes x c fb gate w = (Reworked n, w') \<or> reject_gate x c fb gate w = (RejectedRun n, w')"
  shows "\<exists>es. events w' = events w @ es \<and> set (dispatch_log es) = {(gate, checkpoint w)}"
proof -
  obtain verb v where v: "w' = run_gate x c gate v" "events v = events w @ [Reviewed gate verb n]" "checkpoint v = checkpoint w"
    using assms
    by (auto simp: request_changes_def reject_gate_def record_review_def Let_def split: if_splits)
  obtain fs where "events w' = events v @ fs" "set (dispatch_log fs) = {(gate, checkpoint v)}"
    unfolding v(1) by (rule run_gate_events)
  with v(2,3) show ?thesis by (intro exI [of _ "Reviewed gate verb n # fs"]) simp
qed

text \<open>Reopening.\<close>

lemma revoke_marks:
  "revoke_loop mark ids gs d = Inr (ids', d') \<Longrightarrow> (\<forall>g \<in> set ids. Signing.has_key d g) \<Longrightarrow>
   (\<forall>g \<in> set ids'. Signing.has_key d' g)"
proof (induction gs arbitrary: ids d)
  case Nil
  then show ?case by simp
next
  case (Cons raw gs)
  show ?case
  proof (cases "gate_id raw \<in> set ids")
    case True
    with Cons show ?thesis by (auto simp: revoke_loop_step)
  next
    case False
    with Cons.prems(1) have "revoke_loop mark (ids @ [gate_id raw]) gs (dict_set d (gate_id raw) mark) = Inr (ids', d')"
      by (auto simp: revoke_loop_step)
    from Cons.IH [OF this] Cons.prems(2) show ?thesis by (auto simp: Signing.has_key_def)
  qed
qed

lemma revoked_after:
  assumes "revoke_gates sha loads now pid actor reason gates s = Inr (mid, s')" and "g \<in> gate_id ` set gates"
  shows "is_gate_revoked s' g"
proof -
  from revoke_Inr [OF assms(1)] obtain ids d' where
    l: "revoke_loop (PDict [(''ts'', PStr now), (''reason'', PStr reason), (''actor'', PStr actor)]) [] gates
      (load_revocations s) = Inr (ids, d')" and led: "ledger s' = Some (Json (PDict d'))"
    by (auto simp: Let_def)
  from revoke_loop_targets [OF l] assms(2) have "g \<in> set ids" "g \<in> set list_gates" by auto
  with revoke_marks [OF l] known_gates [of g] led show ?thesis
    by (simp add: is_gate_revoked_def load_revocations_def Let_def)
qed

lemma invalidate_frame:
  "signed (st (invalidate_gate x c target reason g w)) = filter (\<lambda>h. h \<noteq> g) (signed (st w))"
  "ledger (ws (invalidate_gate x c target reason g w)) = ledger (ws w)"
  by (auto simp: invalidate_gate_def append_reopen_audit_def Let_def intro!: filter_True [symmetric] split: sum.split)

lemma fold_invalidate:
  "signed (st (fold (invalidate_gate x c target reason) gs w)) = filter (\<lambda>h. h \<notin> set gs) (signed (st w))"
  "ledger (ws (fold (invalidate_gate x c target reason) gs w)) = ledger (ws w)"
proof (induction gs arbitrary: w)
  case (Cons g gs)
  {
    case 1
    then show ?case using Cons(1) [of "invalidate_gate x c target reason g w"]
      by (auto simp: invalidate_frame intro: filter_cong)
  next
    case 2
    then show ?case using Cons(2) [of "invalidate_gate x c target reason g w"] by (simp add: invalidate_frame)
  }
qed simp_all

lemma gate_ids: "g \<in> set GATE_ORDER \<Longrightarrow> gate_id g = g"
proof -
  have "list_all (\<lambda>g. gate_id g = g) GATE_ORDER" by code_simp
  then show "g \<in> set GATE_ORDER \<Longrightarrow> gate_id g = g" by (simp add: list_all_iff)
qed

text \<open>C21: Reopening a gate takes the signature from it and from every later gate, and from no earlier one: they leave
  the signed gates of the delivery, and for each that was signed the strict check of the artifacts
  reports a revoked gate until it is signed again, whatever the artifacts and the audit trail say.\<close>

theorem reopen_unsigns:
  assumes "reopen_gate x c raw reason w = (ReopenDone, w')"
  shows "signed (st w') = filter (\<lambda>g. g \<notin> set (drop (gate_index (gate_id raw)) GATE_ORDER)) (signed (st w)) \<and>
    current_gate (st w') = gate_id raw \<and> status (st w') = Reopened \<and> finalization (st w') = None \<and>
    (\<forall>g \<in> set (signed (st w)) \<inter> set (drop (gate_index (gate_id raw)) GATE_ORDER).
       check_gate_signed_strict sha loads env (ws w'\<lparr>art_files := files', trail := trail'\<rparr>) g wave pid rp = [RevokedGate])"
  using assms
proof (cases rule: reopen_cases)
  case (reopened w1 m s)
  let ?g = "gate_id raw"
  let ?later = "drop (gate_index ?g) GATE_ORDER"
  let ?v = "fold (invalidate_gate x c ?g reason) ?later (w1\<lparr>ws := s\<rparr>)"
  have st1: "st w1 = st w" using reopened(5) by (auto simp: acquire_def split: if_splits)
  have signed: "signed (st w') = filter (\<lambda>g. g \<notin> set ?later) (signed (st w))"
    using fold_invalidate(1) [of x c ?g reason ?later "w1\<lparr>ws := s\<rparr>"]
    by (simp add: reopened(7) reopened_walk_def record_review_def forget_evidence_def Let_def st1)
  have led: "ledger (ws w') = ledger s"
    using fold_invalidate(2) [of x c ?g reason ?later "w1\<lparr>ws := s\<rparr>"]
    by (simp add: reopened(7) reopened_walk_def record_review_def forget_evidence_def Let_def)
  have rest: "current_gate (st w') = ?g" "status (st w') = Reopened" "finalization (st w') = None"
    by (simp_all add: reopened(7) reopened_walk_def record_review_def forget_evidence_def Let_def)
  have "check_gate_signed_strict sha loads env (ws w'\<lparr>art_files := files', trail := trail'\<rparr>) g wave pid rp = [RevokedGate]"
    if g: "g \<in> set (signed (st w)) \<inter> set ?later" for g
  proof -
    have o: "g \<in> set GATE_ORDER" using g by (auto dest: in_set_dropD)
    then have id: "gate_id g = g" by (rule gate_ids)
    have "g \<in> gate_id ` set (filter (\<lambda>g. g \<in> set (signed (st w))) ?later)" using g id by force
    from revoked_after [OF reopened(6) this] led have "is_gate_revoked (ws w'\<lparr>art_files := files', trail := trail'\<rparr>) g"
      by (simp add: is_gate_revoked_def load_revocations_def)
    then show ?thesis by (simp add: check_gate_signed_strict_def id Let_def)
  qed
  with signed rest show ?thesis by blast
qed simp

lemma revoke_gates_ok:
  assumes "\<not> Signing.has_key (load_revocations s) invalid_key" and "gates \<noteq> []" and "gate_id ` set gates \<subseteq> set list_gates"
  shows "\<exists>p. revoke_gates sha loads now pid actor reason gates s = Inr p"
proof -
  have total: "gate_id ` set gs \<subseteq> set list_gates \<Longrightarrow> \<exists>ids' d'. revoke_loop mark ids gs d = Inr (ids', d')" for mark ids gs d
  proof (induction gs arbitrary: ids d)
    case (Cons a gs)
    then show ?case by (cases "gate_id a \<in> set ids") (simp_all add: revoke_loop_step)
  qed simp
  from total [OF assms(3)] obtain ids d' where
    l: "revoke_loop (PDict [(''ts'', PStr now), (''reason'', PStr reason), (''actor'', PStr actor)]) [] gates
        (load_revocations s) = Inr (ids, d')" by blast
  have "ids \<noteq> []" using revoke_loop_targets [OF l] assms(2) by (cases gates) auto
  moreover have "strip (or_empty (PStr ''gate.revoke'')) \<noteq> []" "py_str (PStr ''gate.revoke'') \<notin> set RESERVED_AUDIT_ACTIONS"
    by code_simp+
  ultimately show ?thesis
    using assms(1) l by (simp add: revoke_gates_def append_audit_event_def revocation_event_def Let_def)
qed

theorem reopen_unsigns_witness:
  "signed (st (snd (reopen_gate demo_outside demo_config '' g1'' ''again'' (demo_walk True [])))) = [''G0''] \<and>
   check_gate_signed_strict (\<lambda>_. []) (\<lambda>_. None) (strict_of demo_outside)
     (ws (snd (reopen_gate demo_outside demo_config '' g1'' ''again'' (demo_walk True [])))\<lparr>art_files := (\<lambda>_. None), trail := None\<rparr>)
     ''G1'' PNone ''p'' True = [RevokedGate]"
proof -
  let ?w = "demo_walk True []"
  have id: "gate_id '' g1'' = ''G1''" "drop (gate_index ''G1'') GATE_ORDER = [''G1'', ''G2'', ''G3'', ''G4'', ''G5'']"
    "''G1'' \<in> set GATE_ORDER" "role_for ''G1'' \<in> set (reopen_roles_for ''G1'')" "AwaitingVerdict \<in> set REOPEN_SAFE_STATUSES"
    "gate_id ''G1'' = ''G1''" "''G1'' \<in> set list_gates" "\<not> Signing.has_key [] invalid_key"
    by code_simp+
  have w: "status (st ?w) = AwaitingVerdict" "signed (st ?w) = [''G0'', ''G1'']" "reopens (st ?w) ''G1'' = 0" "lock_held ?w"
    "load_revocations (ws ?w) = []"
    by (simp_all add: demo_walk_def demo_state_def load_revocations_def)
  have f: "filter (\<lambda>g. g \<in> set (signed (st ?w))) (drop (gate_index ''G1'') GATE_ORDER) = [''G1'']"
    by (simp add: id w)
  have "\<exists>p. revoke_gates sha loads now pid actor reason [''G1''] (ws ?w) = Inr p" for sha loads now pid actor reason
    by (rule revoke_gates_ok) (simp_all add: w id)
  then obtain p where p: "revoke_gates (sha_of demo_outside) (loads_of demo_outside) (time_of (clock_of demo_outside))
      (snd (walk_delivery demo_config)) (walk_signer demo_config) ''again'' [''G1''] (ws ?w) = Inr p" by blast
  obtain r w' where a: "reopen_gate demo_outside demo_config '' g1'' ''again'' ?w = (r, w')" by fastforce
  have "fst (reopen_gate demo_outside demo_config '' g1'' ''again'' ?w) = ReopenDone"
    unfolding reopen_gate_def Let_def id(1) f
    using p by (cases p) (simp add: id w acquire_def demo_config_def)
  with a have "r = ReopenDone" by simp
  from reopen_unsigns [OF a [unfolded this], where sha = "\<lambda>_. []" and loads = "\<lambda>_. None" and
      env = "strict_of demo_outside" and files' = "\<lambda>_. None" and trail' = None and wave = PNone and pid = "''p''" and rp = True] a show ?thesis
    by (simp add: id w)
qed

end
