(* ===== verification/BuildGate.thy ===== *)
theory BuildGate
  imports Prelude
begin

section \<open>Reading a build: cases, verdicts, progress (\<open>product/subagent_build.py\<close>)\<close>

text \<open>
  What the Gate 4 build reads after every agent run: the structured report of a test runner, the
  verdict of a reviewer, and the progress gate that decides whether a red task converges. The gate
  keeps the largest set of cases that passed together in one run; a round is progress when its
  set is a strict superset. \<open>loads\<close> is \<open>json.loads\<close> on text. The reporters write strings in the
  name fields. The marks outside Latin-1 that the patterns of this file also accept do not occur
  in the text of the model.
\<close>

subsection \<open>Structured test reports\<close>

fun last_object :: "(string \<Rightarrow> py option) \<Rightarrow> string \<Rightarrow> (string \<times> py) list option" where
  "last_object loads [] = None"
| "last_object loads (c # cs) =
     (if c = CHR ''}'' then
        (case loads (rev (c # cs)) of
           Some (PDict d) \<Rightarrow> Some d
         | Some _ \<Rightarrow> None
         | None \<Rightarrow> last_object loads cs)
      else last_object loads cs)"

definition extract_json_object :: "(string \<Rightarrow> py option) \<Rightarrow> string \<Rightarrow> (string \<times> py) list option" where
  "extract_json_object loads txt = last_object loads (rev (dropWhile (\<lambda>c. c \<noteq> CHR ''{'') txt))"

definition strip_marks :: "string \<Rightarrow> string" where
  "strip_marks s = rstrip_by (\<lambda>c. c \<in> set '' >'') (lstrip_by (\<lambda>c. c \<in> set '' >'') s)"

definition case_name :: "(string \<times> py) list \<Rightarrow> string" where
  "case_name a =
     (if truthy (get_py a ''fullName'') then py_str (get_py a ''fullName'')
      else strip_marks (join '' > ''
             (map py_str (py_items (get_py a ''ancestorTitles'')) @ [or_empty_str (get_py a ''title'')])))"

definition case_status :: "(string \<times> py) list \<Rightarrow> string" where
  "case_status a = lower (or_empty_str (get_py a ''status''))"

definition suite_cases :: "py \<Rightarrow> (string \<times> string) list" where
  "suite_cases suite =
     (case suite of
        PDict s \<Rightarrow>
          List.map_filter (\<lambda>a. case a of
              PDict d \<Rightarrow> if case_name d = [] then None else Some (case_name d, case_status d)
            | _ \<Rightarrow> None) (py_items (get_py s ''assertionResults''))
      | _ \<Rightarrow> [])"

definition report_cases :: "(string \<times> py) list \<Rightarrow> (string \<times> string) list" where
  "report_cases data = concat (map suite_cases (py_items (get_py data ''testResults'')))"

definition with_status :: "string list \<Rightarrow> (string \<times> string) list \<Rightarrow> string set" where
  "with_status sts cs = set (map fst (filter (\<lambda>c. snd c \<in> set sts) cs))"

definition parse_structured_cases ::
  "(string \<Rightarrow> py option) \<Rightarrow> string \<Rightarrow> string \<Rightarrow> string \<Rightarrow> (string set \<times> string set \<times> nat) option" where
  "parse_structured_cases loads kind out err =
     (if lower kind \<notin> {''vitest-json'', ''jest-json'', ''json''} then None
      else
        (case (case extract_json_object loads out of
                 Some (kv # d) \<Rightarrow> Some (kv # d)
               | _ \<Rightarrow> extract_json_object loads err) of
           None \<Rightarrow> None
         | Some data \<Rightarrow>
             (let cs = report_cases data;
                  passing = with_status [''passed''] cs;
                  failing = with_status [''failed'', ''todo''] cs
              in Some (passing, failing, card passing + card failing))))"

datatype test_run =
    SandboxGone
  | OsError
  | TimedOut
  | Exited int string string

record case_result =
  cr_green :: bool
  cr_passing :: "string set"
  cr_total :: nat
  cr_errors :: string

text \<open>
  One immutable test, or the suite, in the structured mode of its runner: \<open>None\<close> when there is no
  report to read, \<open>Inl\<close> when the sandbox is gone. A run that collected no case is not green.
\<close>

definition structured_result ::
  "(string \<Rightarrow> py option) \<Rightarrow> (string \<Rightarrow> string \<Rightarrow> string) \<Rightarrow> string \<Rightarrow> test_run \<Rightarrow> unit + case_result option" where
  "structured_result loads digest kind r =
     (case r of
        SandboxGone \<Rightarrow> Inl ()
      | Exited rc out err \<Rightarrow>
          Inr (case parse_structured_cases loads kind out err of
                 None \<Rightarrow> None
               | Some (passing, failing, n) \<Rightarrow>
                   (let green = (rc = 0 \<and> failing = {} \<and> 0 < n)
                    in Some \<lparr>cr_green = green, cr_passing = passing, cr_total = n,
                             cr_errors = (if green then [] else digest out err)\<rparr>))
      | _ \<Rightarrow> Inr None)"

text \<open>Without a suite command the files of a suite are run one by one and the results are joined.\<close>

definition aggregate_cases :: "case_result option list \<Rightarrow> case_result option" where
  "aggregate_cases rs =
     (let got = List.map_filter (\<lambda>r. r) rs in
      if got = [] then None
      else Some \<lparr>cr_green = list_all cr_green got, cr_passing = \<Union> (cr_passing ` set got),
                 cr_total = sum_list (map cr_total got), cr_errors = []\<rparr>)"

subsection \<open>Verdicts and failure lines\<close>

fun find_verdict :: "string \<Rightarrow> bool option" where
  "find_verdict [] = None"
| "find_verdict (c # cs) =
     (let r = lower (lstrip_by is_space (drop 8 (c # cs))) in
      if startswith (lower (c # cs)) ''verdict:'' \<and> startswith r ''pass'' then Some True
      else if startswith (lower (c # cs)) ''verdict:'' \<and> startswith r ''fail'' then Some False
      else find_verdict cs)"

text \<open>\<open>PASS\<close> is \<^const>\<open>True\<close>.\<close>

definition parse_verdict :: "string \<Rightarrow> bool" where
  "parse_verdict txt =
     (case find_verdict txt of
        Some v \<Rightarrow> v
      | None \<Rightarrow>
          let low = lower txt in
          if occurs_in ''issues found'' low \<or> occurs_in ''not compliant'' low then False
          else occurs_in ''spec compliant'' low \<or> word_search ''approved'' False low)"

fun at_word_start :: "(string \<Rightarrow> bool) \<Rightarrow> bool \<Rightarrow> string \<Rightarrow> bool" where
  "at_word_start p prev [] = False"
| "at_word_start p prev (c # cs) = ((\<not> prev \<and> p (c # cs)) \<or> at_word_start p (is_word_char c) cs)"

definition error_ts :: "string \<Rightarrow> bool" where
  "error_ts s \<longleftrightarrow> startswith s ''error ts'' \<and> drop 8 s \<noteq> [] \<and> is_digit (hd (drop 8 s))"

definition failure_marker :: "string \<Rightarrow> bool" where
  "failure_marker line =
     (let l = lower line in
      list_ex (\<lambda>w. word_search w False l) [''fail'', ''failed'', ''failure'', ''not ok'', ''error'', ''expected''] \<or>
      at_word_start (\<lambda>s. startswith s ''assertion'') False l \<or> at_word_start error_ts False l \<or>
      occurs_in ''cannot find'' l \<or> CHR 0xD7 \<in> set l)"

definition failure_line_count :: "string \<Rightarrow> nat" where
  "failure_line_count errs =
     (let ls = filter (\<lambda>l. strip l \<noteq> []) (splitlines [] errs); marked = filter failure_marker ls
      in if marked = [] then length ls else length marked)"

subsection \<open>The progress gate\<close>

record progress_gate =
  stall_rounds :: nat
  best_single_run :: "string set"
  seen_structured :: bool
  best_fail_count :: "nat option"
  last_total :: "nat option"
  no_progress :: nat
  last_cycle_stalled :: bool

record observation =
  ob_green :: bool
  ob_passing :: "string set option"
  ob_total :: "nat option"
  ob_fail_count :: nat
  ob_landed :: bool

definition new_progress_gate :: "nat \<Rightarrow> progress_gate" where
  "new_progress_gate n =
     \<lparr>stall_rounds = max 1 n, best_single_run = {}, seen_structured = False, best_fail_count = None,
      last_total = None, no_progress = 0, last_cycle_stalled = False\<rparr>"

definition made_progress :: "observation \<Rightarrow> progress_gate \<Rightarrow> bool \<times> progress_gate" where
  "made_progress ob g =
     (if ob_green ob then
        (True, case ob_passing ob of None \<Rightarrow> g | Some p \<Rightarrow> g\<lparr>best_single_run := p\<rparr>)
      else
        (case ob_passing ob of
           Some p \<Rightarrow>
             (let g = (case ob_total ob of None \<Rightarrow> g | Some t \<Rightarrow> g\<lparr>last_total := Some t\<rparr>) in
              if \<not> seen_structured g then (True, g\<lparr>seen_structured := True, best_single_run := p\<rparr>)
              else if best_single_run g \<subset> p then (True, g\<lparr>best_single_run := p\<rparr>)
              else (False, g))
         | None \<Rightarrow>
             (case best_fail_count g of
                None \<Rightarrow> (True, g\<lparr>best_fail_count := Some (ob_fail_count ob)\<rparr>)
              | Some b \<Rightarrow>
                  (ob_fail_count ob < b, g\<lparr>best_fail_count := Some (min b (ob_fail_count ob))\<rparr>))))"

definition observe :: "progress_gate \<Rightarrow> observation \<Rightarrow> progress_gate" where
  "observe g ob =
     (let (progressed, g) = made_progress ob g in
      g\<lparr>no_progress := (if progressed then 0 else if ob_landed ob then no_progress g + 1 else no_progress g),
        last_cycle_stalled := (\<not> ob_green ob \<and> \<not> progressed)\<rparr>)"

definition stalled :: "progress_gate \<Rightarrow> bool" where
  "stalled g \<longleftrightarrow> stall_rounds g \<le> no_progress g"

definition checks_still_failing :: "progress_gate \<Rightarrow> nat" where
  "checks_still_failing g =
     (case (seen_structured g, last_total g) of
        (True, Some t) \<Rightarrow> t - card (best_single_run g)
      | _ \<Rightarrow> (case best_fail_count g of None \<Rightarrow> 0 | Some b \<Rightarrow> b))"

subsection \<open>The gate stops a loop that does not converge\<close>

definition structured_weight :: "nat \<Rightarrow> progress_gate \<Rightarrow> nat" where
  "structured_weight m g = (if seen_structured g then m - card (best_single_run g) else m + 1)"

definition fallback_weight :: "nat \<Rightarrow> progress_gate \<Rightarrow> nat" where
  "fallback_weight f g = (case best_fail_count g of None \<Rightarrow> f + 1 | Some b \<Rightarrow> b)"

definition gate_weight :: "nat \<Rightarrow> nat \<Rightarrow> progress_gate \<Rightarrow> nat" where
  "gate_weight m f g =
     (structured_weight m g + fallback_weight f g) * stall_rounds g + (stall_rounds g - no_progress g)"

definition gate_ok :: "string set \<Rightarrow> nat \<Rightarrow> progress_gate \<Rightarrow> bool" where
  "gate_ok cases f g \<longleftrightarrow>
     finite cases \<and> 1 \<le> stall_rounds g \<and> (seen_structured g \<longrightarrow> best_single_run g \<subseteq> cases)"

text \<open>A red round whose seat did work, over a fixed set of acceptance cases and at most \<open>f\<close> failure lines.\<close>

definition red_round :: "string set \<Rightarrow> nat \<Rightarrow> observation \<Rightarrow> bool" where
  "red_round cases f ob \<longleftrightarrow>
     \<not> ob_green ob \<and> ob_landed ob \<and> ob_fail_count ob \<le> f \<and>
     (case ob_passing ob of None \<Rightarrow> True | Some p \<Rightarrow> p \<subseteq> cases)"

lemma observe_progress:
  assumes "made_progress ob g = (b, g')" and "\<not> ob_green ob"
  shows "stall_rounds g' = stall_rounds g" and "no_progress g' = no_progress g"
  using assms by (auto simp: made_progress_def Let_def split: if_splits option.splits)

lemma progress_weight:
  assumes "made_progress ob g = (b, g')" and "gate_ok cases f g" and "red_round cases f ob"
  shows "gate_ok cases f g'"
    and "structured_weight (card cases) g' + fallback_weight f g' + of_bool b
      \<le> structured_weight (card cases) g + fallback_weight f g"
proof -
  have fin: "finite cases" and red: "\<not> ob_green ob" using assms by (auto simp: gate_ok_def red_round_def)
  show "gate_ok cases f g'"
    using assms by (auto simp: gate_ok_def red_round_def made_progress_def Let_def split: if_splits option.splits)
  show "structured_weight (card cases) g' + fallback_weight f g' + of_bool b
      \<le> structured_weight (card cases) g + fallback_weight f g"
  proof (cases "ob_passing ob")
    case None
    with assms red show ?thesis
      by (auto simp: red_round_def made_progress_def structured_weight_def fallback_weight_def
          split: option.splits)
  next
    case (Some p)
    then have p: "p \<subseteq> cases" using assms by (simp add: red_round_def)
    with fin have le: "card p \<le> card cases" by (simp add: card_mono)
    have lt: "card (best_single_run g) < card p" if "best_single_run g \<subset> p"
      using that p fin by (intro psubset_card_mono) (auto intro: finite_subset)
    from Some red assms le lt show ?thesis
      by (fastforce simp: made_progress_def structured_weight_def fallback_weight_def Let_def
          split: if_splits option.splits)
  qed
qed

interpretation progress: converging observe "gate_ok cases f" "red_round cases f" stalled "gate_weight (card cases) f"
  for cases :: "string set" and f :: nat
proof unfold_locales
  fix g ob
  assume ok: "gate_ok cases f g" and red: "red_round cases f ob"
  obtain b g' where p: "made_progress ob g = (b, g')" by fastforce
  from progress_weight [OF p ok red] p
  show "gate_ok cases f (observe g ob)" by (simp add: observe_def gate_ok_def)
  assume "\<not> stalled g"
  then have s: "no_progress g < stall_rounds g" by (simp add: stalled_def)
  have r: "\<not> ob_green ob" "ob_landed ob" using red by (simp_all add: red_round_def)
  from observe_progress [OF p r(1)] have k: "stall_rounds g' = stall_rounds g" "no_progress g' = no_progress g" .
  let ?w = "\<lambda>g. structured_weight (card cases) g + fallback_weight f g"
  have w: "?w (observe g ob) = ?w g'"
    by (simp add: observe_def p structured_weight_def fallback_weight_def)
  show "gate_weight (card cases) f (observe g ob) < gate_weight (card cases) f g"
  proof (cases b)
    case True
    with progress_weight(2) [OF p ok red] have "Suc (?w g') \<le> ?w g" by simp
    then have "Suc (?w g') * stall_rounds g \<le> ?w g * stall_rounds g" by (rule mult_le_mono1)
    with True s w k r show ?thesis by (simp add: gate_weight_def observe_def p)
  next
    case False
    with progress_weight(2) [OF p ok red] have "?w g' \<le> ?w g" by simp
    then have le: "?w g' * stall_rounds g \<le> ?w g * stall_rounds g" by (rule mult_le_mono1)
    have "gate_weight (card cases) f (observe g ob) =
        ?w g' * stall_rounds g + (stall_rounds g - Suc (no_progress g))"
      using False w k r by (simp add: gate_weight_def observe_def p)
    moreover have "stall_rounds g - Suc (no_progress g) < stall_rounds g - no_progress g" using s by simp
    ultimately show ?thesis using le by (simp only: gate_weight_def)
  qed
qed

lemma new_gate_weight:
  "gate_weight m f (new_progress_gate n) = (m + f + 3) * max 1 n"
  "finite cases \<Longrightarrow> gate_ok cases f (new_progress_gate n)"
  by (simp_all add: gate_weight_def structured_weight_def fallback_weight_def new_progress_gate_def gate_ok_def
      algebra_simps)

lemma progress_stops:
  assumes "finite cases" and "list_all (red_round cases f) obs" and "(card cases + f + 3) * max 1 n < length obs"
  shows "\<exists>k \<le> (card cases + f + 3) * max 1 n. stalled (foldl observe (new_progress_gate n) (take k obs))"
  using progress.stops [of cases f "new_progress_gate n" obs] assms by (simp add: new_gate_weight)

text \<open>C32: a build loop that never turns green is stopped by the progress gate itself. Over a fixed set of
  acceptance cases and at most \<open>f\<close> failure lines, the gate reports a stall after at most
  \<open>(cases + f + 3) * stall_rounds\<close> rounds in which the seat did work, whatever those rounds report.\<close>

theorem progress_gate_stops:
  assumes "finite cases" and "list_all (red_round cases f) obs" and "(card cases + f + 3) * max 1 n < length obs"
  shows "\<exists>k \<le> (card cases + f + 3) * max 1 n. stalled (foldl observe (new_progress_gate n) (take k obs))"
  using assms by (rule progress_stops)

definition demo_round :: "string list \<Rightarrow> observation" where
  "demo_round p = \<lparr>ob_green = False, ob_passing = Some (set p), ob_total = Some 2, ob_fail_count = 1, ob_landed = True\<rparr>"

theorem progress_gate_stops_witness:
  "\<exists>k \<le> 6. stalled (foldl observe (new_progress_gate 1) (take k (replicate 7 (demo_round [''a'']))))"
proof -
  have "list_all (red_round {''a'', ''b''} 1) (replicate 7 (demo_round [''a'']))"
    by (simp add: list_all_iff red_round_def demo_round_def)
  from progress_gate_stops [OF _ this, of 1] show ?thesis by simp
qed

subsection \<open>What the gate remembers\<close>

text \<open>The state of the gate after red rounds, as a function of the passing sets they reported.\<close>

definition red_runs :: "observation list \<Rightarrow> string set list" where
  "red_runs obs = List.map_filter ob_passing obs"

lemma red_runs_simps [simp]:
  "red_runs [] = []"
  "red_runs (obs @ [ob]) = red_runs obs @ (case ob_passing ob of None \<Rightarrow> [] | Some p \<Rightarrow> [p])"
  by (simp_all add: red_runs_def List.map_filter_def split: option.splits)

lemma observe_red:
  assumes "\<not> ob_green ob"
  shows "seen_structured (observe g ob) \<longleftrightarrow> seen_structured g \<or> ob_passing ob \<noteq> None"
    and "best_single_run (observe g ob) =
      (case ob_passing ob of
         None \<Rightarrow> best_single_run g
       | Some p \<Rightarrow> if \<not> seen_structured g \<or> best_single_run g \<subset> p then p else best_single_run g)"
  using assms by (auto simp: observe_def made_progress_def Let_def split: option.splits)

lemma observe_count:
  assumes "\<not> ob_green ob" and "ob_landed ob" and "ob_passing ob = Some p"
  shows "no_progress (observe g ob) =
    (if \<not> seen_structured g \<or> best_single_run g \<subset> p then 0 else no_progress g + 1)"
  using assms by (simp add: observe_def made_progress_def Let_def split: option.split)

lemma observe_rounds: "stall_rounds (observe g ob) = stall_rounds g"
  by (simp add: observe_def made_progress_def Let_def split: option.split)

lemma high_water:
  assumes "list_all (\<lambda>ob. \<not> ob_green ob) obs"
  shows "(seen_structured (foldl observe (new_progress_gate n) obs) \<longleftrightarrow> red_runs obs \<noteq> []) \<and>
    (red_runs obs \<noteq> [] \<longrightarrow>
      best_single_run (foldl observe (new_progress_gate n) obs) \<in> set (red_runs obs) \<and>
      (\<forall>p \<in> set (red_runs obs). \<not> best_single_run (foldl observe (new_progress_gate n) obs) \<subset> p))"
  using assms
proof (induction obs rule: rev_induct)
  case Nil
  then show ?case by (simp add: new_progress_gate_def)
next
  case (snoc ob obs)
  let ?g = "foldl observe (new_progress_gate n) obs"
  from snoc have ih: "seen_structured ?g \<longleftrightarrow> red_runs obs \<noteq> []"
      "red_runs obs \<noteq> [] \<Longrightarrow> best_single_run ?g \<in> set (red_runs obs)"
      "\<And>p. p \<in> set (red_runs obs) \<Longrightarrow> \<not> best_single_run ?g \<subset> p"
    and red: "\<not> ob_green ob" by auto
  show ?case
  proof (cases "ob_passing ob")
    case None
    with ih observe_red [OF red, of ?g] show ?thesis by auto
  next
    case (Some p)
    with ih observe_red [OF red, of ?g] show ?thesis
      by (cases "seen_structured ?g") (auto simp: psubset_eq)
  qed
qed

text \<open>The high-water mark of the gate is honest. After any red rounds with structured reports it is the
  passing set of one of those runs, not a union over runs, and no run passed strictly more.\<close>

theorem best_run_is_maximal:
  assumes "list_all (\<lambda>ob. \<not> ob_green ob) obs" and "red_runs obs \<noteq> []"
  shows "best_single_run (foldl observe (new_progress_gate n) obs) \<in> set (red_runs obs) \<and>
    (\<forall>p \<in> set (red_runs obs). \<not> best_single_run (foldl observe (new_progress_gate n) obs) \<subset> p)"
  using high_water [OF assms(1), of n] assms(2) by blast

theorem best_run_is_maximal_witness:
  "best_single_run (foldl observe (new_progress_gate 3) [demo_round [''a''], demo_round [''b'']])
    \<in> {{''a''}, {''b''}}"
  using best_run_is_maximal [of "[demo_round [''a''], demo_round [''b'']]" 3]
  by (simp add: demo_round_def red_runs_def List.map_filter_simps)

text \<open>A flaky suite whose runs always pass the same number of cases stalls, whichever cases rotate.\<close>

lemma equal_runs_stall:
  assumes "list_all (\<lambda>ob. \<not> ob_green ob \<and> ob_landed ob \<and> (\<exists>p. ob_passing ob = Some p \<and> finite p \<and> card p = c)) obs"
    and "seen_structured g" and "finite (best_single_run g)" and "card (best_single_run g) = c"
  shows "no_progress (foldl observe g obs) = no_progress g + length obs"
  using assms
proof (induction obs arbitrary: g)
  case Nil
  then show ?case by simp
next
  case (Cons ob obs)
  then obtain p where p: "\<not> ob_green ob" "ob_landed ob" "ob_passing ob = Some p" "finite p" "card p = c" by auto
  have "\<not> best_single_run g \<subset> p" using psubset_card_mono [OF p(4), of "best_single_run g"] p(5) Cons.prems(4) by auto
  with p Cons.prems(2) have "seen_structured (observe g ob)" "best_single_run (observe g ob) = best_single_run g"
      "no_progress (observe g ob) = no_progress g + 1"
    by (simp_all add: observe_red [OF p(1)] observe_count [OF p(1-3)])
  with Cons.prems Cons.IH [of "observe g ob"] show ?case by simp
qed

lemma flaky_suite_stalls:
  assumes "list_all (\<lambda>ob. \<not> ob_green ob \<and> ob_landed ob \<and> (\<exists>p. ob_passing ob = Some p \<and> finite p \<and> card p = c)) obs"
    and "length obs = Suc (max 1 n)"
  shows "stalled (foldl observe (new_progress_gate n) obs)"
proof -
  obtain ob rest where obs: "obs = ob # rest" using assms(2) by (cases obs) auto
  let ?g = "observe (new_progress_gate n) ob"
  from assms(1) obs obtain p where p: "\<not> ob_green ob" "ob_landed ob" "ob_passing ob = Some p" "finite p" "card p = c"
    by auto
  have "\<not> seen_structured (new_progress_gate n)" by (simp add: new_progress_gate_def)
  then have g: "seen_structured ?g" "best_single_run ?g = p" "no_progress ?g = 0"
    by (simp_all add: observe_red [OF p(1)] observe_count [OF p(1-3)] p(3))
  have r: "stall_rounds (foldl observe (new_progress_gate n) es) = max 1 n" for es
    by (induction es rule: rev_induct) (simp_all add: new_progress_gate_def observe_rounds)
  from equal_runs_stall [of c rest ?g] assms obs g p r [of obs] show ?thesis by (simp add: stalled_def)
qed

text \<open>The first verdict token decides, so a report that quotes the token before its own verdict passes; and
  without a token a negated approval counts as one.\<close>

lemma first_verdict_wins:
  "parse_verdict ''VERDICT: PASS or FAIL? VERDICT: FAIL''"
  by code_simp

lemma negated_approval_passes: "parse_verdict ''not approved''"
  by code_simp

end
