(* ===== verification/SubagentBuild.thy ===== *)
theory SubagentBuild
  imports BuildGate
begin

section \<open>The Gate 4 build (\<open>product/subagent_build.py\<close>)\<close>

text \<open>
  \<open>run_subagent_driven_build\<close> on its production path (no injected check): preflight, one
  test-first loop per task of the plan, the integration loop over the whole suite, two independent
  reviews and the evidence pass. The agents, the test runners and the workspace they change are a
  world \<open>'w\<close> with the operations of \<open>seats\<close>; the texts of the prompts are not modelled, what a
  prompt carries is in the constructor of its seat. The runaway guard of both loops is the recursion
  argument of the loop.
\<close>

subsection \<open>Tasks, rows, seats\<close>

record task =
  task_id :: string
  task_files :: "string list"
  task_test :: string
  task_deps :: "string list"

datatype row_status = Pending | Green | PreExistingGreen | Failed | BlockedRow | DraftedNoTest

record row =
  row_status :: row_status
  row_attempts :: nat
  blocked_by :: "string list"
  row_failing :: "nat option"

datatype review_kind = SpecReview | CodeReview

record repair_metrics =
  per_task :: nat
  integration :: nat
  review :: nat

datatype seat =
    Implementer string
  | TaskFixer string bool string
  | DodFixer string "string list"
  | TestArbiter string string
  | IntegrationFixer nat bool string
  | Reviewer review_kind
  | ReviewFixer review_kind string
  | Evidence bool repair_metrics

record seat_outcome =
  out_status :: string
  wrote_no_files :: bool
  provider_turn_errors :: int

datatype halt = BuildCancelled | InfrastructureError

text \<open>What running one test file, or the validation plan, can come to.\<close>

datatype test_exec = NoRunner | NoTestFile string | Ran test_run

datatype validation_outcome =
    CannotValidate
  | SandboxLost
  | CheckError string
  | Validated bool bool string

record 'w seats =
  run_seat :: "seat \<Rightarrow> 'w \<Rightarrow> (halt + string \<times> seat_outcome option) \<times> 'w"
  validate_plan :: "'w \<Rightarrow> validation_outcome \<times> 'w"
  exec_test :: "string \<Rightarrow> 'w \<Rightarrow> test_exec \<times> 'w"
  test_report :: "string \<Rightarrow> 'w \<Rightarrow> test_run option \<times> 'w"
  suite_report :: "string list \<Rightarrow> 'w \<Rightarrow> test_run option \<times> 'w"
  runner_kind :: string
  json_loads :: "string \<Rightarrow> py option"
  digest_errors :: "string \<Rightarrow> string \<Rightarrow> string"
  read_test :: "string \<Rightarrow> 'w \<Rightarrow> string"
  is_vacuous_test :: "string \<Rightarrow> bool"
  test_broken :: "string \<Rightarrow> string \<Rightarrow> bool"
  dod_violations :: "task \<Rightarrow> 'w \<Rightarrow> string list"
  is_cancelled :: "'w \<Rightarrow> bool"
  readiness_problems :: "'w \<Rightarrow> string list"
  prepare_workspace :: "'w \<Rightarrow> 'w"
  author_ux_test :: "'w \<Rightarrow> 'w"
  error_sig :: "string \<Rightarrow> int"

record build_config =
  cfg_stall_rounds :: nat
  cfg_fix_cycles :: nat
  second_model :: bool

datatype phase = StoppedRed | IntegrationPhase | StalledIncompletePhase | ReviewBlocked | CompletePhase

text \<open>What a build did, in order: the agents it ran with their reports, and its checks of the whole suite.\<close>

datatype build_event = SeatRan seat string | SuiteChecked bool

record 'w build =
  world :: 'w
  outcome :: "seat_outcome option"
  rows :: "(string \<times> row) list"
  calls :: nat
  repairs :: repair_metrics
  trace :: "build_event list"
  snapshots :: "phase list"
  disputes :: "string list"

text \<open>A stalled build names the tasks that are not complete.\<close>

datatype build_status = PreflightError | StalledIncomplete "string list" | Completed

definition RUNAWAY_GUARD :: nat where "RUNAWAY_GUARD = 1000"

subsection \<open>The traceability matrix\<close>

definition new_row :: row where
  "new_row = \<lparr>row_status = Pending, row_attempts = 0, blocked_by = [], row_failing = None\<rparr>"

definition new_matrix :: "task list \<Rightarrow> (string \<times> row) list" where
  "new_matrix ts = foldl (\<lambda>m t. dict_set m (task_id t) new_row) [] ts"

definition update_row :: "string \<Rightarrow> (row \<Rightarrow> row) \<Rightarrow> (string \<times> row) list \<Rightarrow> (string \<times> row) list" where
  "update_row i f m = (case dict_get m i of None \<Rightarrow> m | Some r \<Rightarrow> dict_set m i (f r))"

definition set_row :: "string \<Rightarrow> (row \<Rightarrow> row) \<Rightarrow> 'w build \<Rightarrow> 'w build" where
  "set_row i f b = b\<lparr>rows := update_row i f (rows b)\<rparr>"

definition set_status :: "string \<Rightarrow> row_status \<Rightarrow> 'w build \<Rightarrow> 'w build" where
  "set_status i s b = set_row i (\<lambda>r. r\<lparr>row_status := s\<rparr>) b"

definition bump_attempts :: "string \<Rightarrow> 'w build \<Rightarrow> 'w build" where
  "bump_attempts i b = set_row i (\<lambda>r. r\<lparr>row_attempts := row_attempts r + 1\<rparr>) b"

definition failed_or_blocked :: "(string \<times> row) list \<Rightarrow> string list \<Rightarrow> string list" where
  "failed_or_blocked m ids =
     filter (\<lambda>i. case dict_get m i of None \<Rightarrow> False | Some r \<Rightarrow> row_status r \<in> {Failed, BlockedRow}) ids"

definition ids_with_status :: "(string \<times> row) list \<Rightarrow> row_status set \<Rightarrow> string list" where
  "ids_with_status m sts = map fst (filter (\<lambda>r. row_status (snd r) \<in> sts) m)"

definition persist_matrix :: "phase \<Rightarrow> 'w build \<Rightarrow> 'w build" where
  "persist_matrix p b = b\<lparr>snapshots := snapshots b @ [p]\<rparr>"

subsection \<open>Dispatch and observation\<close>

definition dispatch :: "'w seats \<Rightarrow> seat \<Rightarrow> 'w build \<Rightarrow> halt + string \<times> 'w build" where
  "dispatch x s b =
     (case run_seat x s (world b) of
        (Inl h, _) \<Rightarrow> Inl h
      | (Inr (report, out), w) \<Rightarrow>
          Inr (report, b\<lparr>world := w, outcome := (if out = None then outcome b else out),
                     trace := trace b @ [SeatRan s report], calls := calls b + 1\<rparr>))"

definition spend_task_repair :: "'w build \<Rightarrow> 'w build" where
  "spend_task_repair b = b\<lparr>repairs := (repairs b)\<lparr>per_task := per_task (repairs b) + 1\<rparr>\<rparr>"

definition spend_integration_repair :: "'w build \<Rightarrow> 'w build" where
  "spend_integration_repair b = b\<lparr>repairs := (repairs b)\<lparr>integration := integration (repairs b) + 1\<rparr>\<rparr>"

definition spend_review_repair :: "'w build \<Rightarrow> 'w build" where
  "spend_review_repair b = b\<lparr>repairs := (repairs b)\<lparr>review := review (repairs b) + 1\<rparr>\<rparr>"

definition seat_landed_work :: "'w build \<Rightarrow> bool" where
  "seat_landed_work b =
     (case outcome b of
        None \<Rightarrow> True
      | Some r \<Rightarrow> out_status r \<noteq> ''stalled_no_tool'' \<and> \<not> wrote_no_files r \<and> provider_turn_errors r = 0)"

text \<open>One plan test, by its exit code. The message of an error of the system does not carry its text.\<close>

definition run_single_test :: "'w seats \<Rightarrow> string \<Rightarrow> 'w build \<Rightarrow> halt + (bool \<times> string) \<times> 'w build" where
  "run_single_test x t b =
     (case exec_test x t (world b) of
        (Ran SandboxGone, _) \<Rightarrow> Inl InfrastructureError
      | (Ran (Exited rc out err), w) \<Rightarrow>
          Inr (if rc = 0 then (True, []) else (False, digest_errors x out err), b\<lparr>world := w\<rparr>)
      | (Ran _, w) \<Rightarrow> Inr ((False, ''could not run test '' @ t), b\<lparr>world := w\<rparr>)
      | (NoTestFile reason, w) \<Rightarrow> Inr ((False, reason), b\<lparr>world := w\<rparr>)
      | (NoRunner, w) \<Rightarrow>
          Inr ((False, ''no per-test runner for this stack; cannot confirm this test is green -- proceeding to implement (the full-suite validation is the real gate)''),
            b\<lparr>world := w\<rparr>))"

text \<open>The check of the whole build. A workspace whose plan cannot be validated counts as green here.\<close>

definition suite_result :: "validation_outcome \<Rightarrow> bool \<times> string" where
  "suite_result r =
     (case r of
        CannotValidate \<Rightarrow> (True, [])
      | SandboxLost \<Rightarrow> (False, [])
      | CheckError e \<Rightarrow> (False, ''build check error: '' @ e)
      | Validated built tested detail \<Rightarrow>
          if built \<and> tested then (True, [])
          else (False, if detail = [] then ''build or tests failed'' else detail))"

definition default_build_check :: "'w seats \<Rightarrow> 'w build \<Rightarrow> halt + (bool \<times> string) \<times> 'w build" where
  "default_build_check x b =
     (let (r, w) = validate_plan x (world b) in
      if r = SandboxLost then Inl InfrastructureError
      else Inr (suite_result r, b\<lparr>world := w, trace := trace b @ [SuiteChecked (fst (suite_result r))]\<rparr>))"

definition run_structured_test :: "'w seats \<Rightarrow> string \<Rightarrow> 'w build \<Rightarrow> halt + case_result option \<times> 'w build" where
  "run_structured_test x t b =
     (case test_report x t (world b) of
        (None, w) \<Rightarrow> Inr (None, b\<lparr>world := w\<rparr>)
      | (Some r, w) \<Rightarrow>
          (case structured_result (json_loads x) (digest_errors x) (runner_kind x) r of
             Inl _ \<Rightarrow> Inl InfrastructureError
           | Inr c \<Rightarrow> Inr (c, b\<lparr>world := w\<rparr>)))"

definition gate_check ::
  "'w seats \<Rightarrow> string \<Rightarrow> 'w build \<Rightarrow>
     halt + (bool \<times> string \<times> string set option \<times> nat option) \<times> 'w build" where
  "gate_check x t b =
     and_then (run_structured_test x t b) (\<lambda>(c, b).
       case c of
         Some r \<Rightarrow> Inr ((cr_green r, cr_errors r, Some (cr_passing r), Some (cr_total r)), b)
       | None \<Rightarrow>
           and_then (run_single_test x t b) (\<lambda>((green, errs), b). Inr ((green, errs, None, None), b)))"

fun run_each_test :: "'w seats \<Rightarrow> string list \<Rightarrow> 'w build \<Rightarrow> halt + case_result option list \<times> 'w build" where
  "run_each_test x [] b = Inr ([], b)"
| "run_each_test x (t # ts) b =
     and_then (run_structured_test x t b) (\<lambda>(c, b).
     and_then (run_each_test x ts b) (\<lambda>(cs, b). Inr (c # cs, b)))"

definition run_structured_suite :: "'w seats \<Rightarrow> string list \<Rightarrow> 'w build \<Rightarrow> halt + case_result option \<times> 'w build" where
  "run_structured_suite x ts b =
     (let each = (\<lambda>b. and_then (run_each_test x ts b) (\<lambda>(cs, b). Inr (aggregate_cases cs, b))) in
      if ts = [] then Inr (None, b)
      else
        (case suite_report x ts (world b) of
           (None, w) \<Rightarrow> each (b\<lparr>world := w\<rparr>)
         | (Some r, w) \<Rightarrow>
             (case structured_result (json_loads x) (digest_errors x) (runner_kind x) r of
                Inl _ \<Rightarrow> Inl InfrastructureError
              | Inr (Some c) \<Rightarrow> Inr (Some (c\<lparr>cr_errors := []\<rparr>), b\<lparr>world := w\<rparr>)
              | Inr None \<Rightarrow> if r = OsError then Inr (None, b\<lparr>world := w\<rparr>) else each (b\<lparr>world := w\<rparr>))))"

definition observation_of ::
  "'w build \<Rightarrow> bool \<Rightarrow> string \<Rightarrow> string set option \<Rightarrow> nat option \<Rightarrow> observation" where
  "observation_of b green errs passing n =
     \<lparr>ob_green = green, ob_passing = passing, ob_total = n, ob_fail_count = failure_line_count errs,
      ob_landed = seat_landed_work b\<rparr>"

subsection \<open>One task\<close>

fun fix_loop ::
  "'w seats \<Rightarrow> task \<Rightarrow> nat \<Rightarrow> bool \<Rightarrow> string \<Rightarrow> progress_gate \<Rightarrow> 'w build
     \<Rightarrow> halt + (bool \<times> string \<times> progress_gate) \<times> 'w build" where
  "fix_loop x t 0 ok errs g b = Inr ((ok, errs, g), b)"
| "fix_loop x t (Suc guard) ok errs g b =
     (if ok \<or> stalled g then Inr ((ok, errs, g), b)
      else
        and_then (dispatch x (TaskFixer (task_id t) (last_cycle_stalled g) errs) b) (\<lambda>(_, b).
        and_then (gate_check x (task_test t) (bump_attempts (task_id t) (spend_task_repair b))) (\<lambda>((ok, errs, passing, n), b).
        fix_loop x t guard ok errs (observe g (observation_of b ok errs passing n)) b)))"

fun dod_loop :: "'w seats \<Rightarrow> task \<Rightarrow> nat \<Rightarrow> string list \<Rightarrow> 'w build \<Rightarrow> halt + bool \<times> 'w build" where
  "dod_loop x t 0 viol b = Inr (viol = [], b)"
| "dod_loop x t (Suc n) viol b =
     (if viol = [] then Inr (True, b)
      else
        and_then (dispatch x (DodFixer (task_id t) viol) b) (\<lambda>(_, b).
        let b = spend_task_repair b in
        and_then (if task_test t = [] then Inr ((True, []), b) else run_single_test x (task_test t) b) (\<lambda>((ok, _), b).
        if ok then dod_loop x t n (dod_violations x t (world b)) b else Inr (False, b))))"

definition enforce_task_dod :: "'w seats \<Rightarrow> build_config \<Rightarrow> task \<Rightarrow> 'w build \<Rightarrow> halt + bool \<times> 'w build" where
  "enforce_task_dod x c t b =
     (let src = read_test x (task_test t) (world b) in
      if src \<noteq> [] \<and> is_vacuous_test x src then Inr (False, b)
      else dod_loop x t (max 1 (cfg_fix_cycles c)) (dod_violations x t (world b)) b)"

definition parse_arbiter_verdict :: "(string \<Rightarrow> py option) \<Rightarrow> string \<Rightarrow> bool" where
  "parse_arbiter_verdict loads report =
     (let body = rstrip_by (\<lambda>c. c \<noteq> CHR ''}'') (dropWhile (\<lambda>c. c \<noteq> CHR ''{'') report) in
      case (if body = [] then None else loads body) of
        Some (PDict d) \<Rightarrow> truthy (get_py d ''test_broken'')
      | _ \<Rightarrow> False)"

text \<open>A dispute is recorded with the task; the test itself is never edited.\<close>

definition diagnose_deadlock :: "'w seats \<Rightarrow> build_config \<Rightarrow> task \<Rightarrow> string \<Rightarrow> 'w build \<Rightarrow> halt + 'w build" where
  "diagnose_deadlock x c t errs b =
     (if test_broken x (read_test x (task_test t) (world b)) errs
      then Inr (b\<lparr>disputes := disputes b @ [task_id t]\<rparr>)
      else if \<not> second_model c then Inr b
      else
        and_then (dispatch x (TestArbiter (task_id t) errs) b) (\<lambda>(report, b).
        Inr (if parse_arbiter_verdict (json_loads x) report
             then b\<lparr>disputes := disputes b @ [task_id t]\<rparr> else b)))"

definition drive_task :: "'w seats \<Rightarrow> build_config \<Rightarrow> task \<Rightarrow> 'w build \<Rightarrow> halt + 'w build" where
  "drive_task x c t b =
     and_then (gate_check x (task_test t) b) (\<lambda>((ok, errs, passing, n), b).
     and_then (fix_loop x t RUNAWAY_GUARD ok errs
                (observe (new_progress_gate (cfg_stall_rounds c)) (observation_of b ok errs passing n)) b)
       (\<lambda>((ok, errs, g), b).
     if ok then
       and_then (enforce_task_dod x c t b) (\<lambda>(met, b).
       Inr (set_status (task_id t) (if met then Green else Failed) b))
     else
       diagnose_deadlock x c t errs
         (set_row (task_id t) (\<lambda>r. r\<lparr>row_status := Failed, row_failing := Some (checks_still_failing g)\<rparr>) b)))"

definition build_task :: "'w seats \<Rightarrow> build_config \<Rightarrow> bool \<Rightarrow> task \<Rightarrow> 'w build \<Rightarrow> halt + 'w build" where
  "build_task x c plan_driven t b =
     (let blocked = failed_or_blocked (rows b) (task_deps t) in
      if is_cancelled x (world b) then Inl BuildCancelled
      else if blocked \<noteq> [] then
        Inr (set_row (task_id t) (\<lambda>r. r\<lparr>row_status := BlockedRow, blocked_by := blocked\<rparr>) b)
      else
        and_then (if task_test t = [] then Inr ((False, []), b) else run_single_test x (task_test t) b) (\<lambda>((ok, _), b).
         if ok then Inr (set_status (task_id t) PreExistingGreen b)
         else if plan_driven \<and> task_test t = [] then Inr (set_status (task_id t) PreExistingGreen b)
         else
           and_then (dispatch x (Implementer (task_id t)) b) (\<lambda>(_, b).
           let b = bump_attempts (task_id t) b in
           if task_test t = [] then Inr (set_status (task_id t) DraftedNoTest b)
           else drive_task x c t b)))"

fun build_tasks :: "'w seats \<Rightarrow> build_config \<Rightarrow> bool \<Rightarrow> task list \<Rightarrow> 'w build \<Rightarrow> halt + 'w build" where
  "build_tasks x c plan_driven [] b = Inr b"
| "build_tasks x c plan_driven (t # ts) b =
     and_then (build_task x c plan_driven t b) (\<lambda>b. build_tasks x c plan_driven ts b)"

subsection \<open>Integration\<close>

text \<open>The sentinel of the tests is not on the production path: the suite is read over all plan tests.\<close>

definition whole_build_passing ::
  "'w seats \<Rightarrow> task list \<Rightarrow> 'w build \<Rightarrow> halt + (string set option \<times> nat option) \<times> 'w build" where
  "whole_build_passing x ts b =
     and_then (run_structured_suite x (filter (\<lambda>t. t \<noteq> []) (map task_test ts)) b) (\<lambda>(c, b).
     Inr ((map_option cr_passing c, map_option cr_total c), b))"

record integration_state =
  int_green :: bool
  int_errors :: string
  int_gate :: progress_gate
  prev_sig :: "int option"
  int_stalls :: nat

definition integration_pass ::
  "'w seats \<Rightarrow> task list \<Rightarrow> integration_state \<Rightarrow> 'w build \<Rightarrow> halt + integration_state \<times> 'w build" where
  "integration_pass x ts i b =
     and_then (default_build_check x b) (\<lambda>((green, errs), b).
      and_then (whole_build_passing x ts b) (\<lambda>((passing, n), b).
      Inr (i\<lparr>int_green := green, int_errors := errs,
             int_gate := observe (int_gate i) (observation_of b green errs passing n)\<rparr>, b)))"

fun integration_loop ::
  "'w seats \<Rightarrow> build_config \<Rightarrow> task list \<Rightarrow> nat \<Rightarrow> integration_state \<Rightarrow> 'w build
     \<Rightarrow> halt + integration_state \<times> 'w build" where
  "integration_loop x c ts 0 i b = Inr (i, b)"
| "integration_loop x c ts (Suc guard) i b =
     (if int_green i \<or> stalled (int_gate i) then Inr (i, b)
      else
        (let sig = error_sig x (strip (int_errors i));
             stalls = (if prev_sig i = Some sig then int_stalls i + 1 else 0);
             i = i\<lparr>prev_sig := Some sig, int_stalls := stalls\<rparr>
         in and_then (dispatch x (IntegrationFixer stalls (2 \<le> stalls \<and> second_model c) (int_errors i)) b) (\<lambda>(_, b).
            and_then (integration_pass x ts i (spend_integration_repair b)) (\<lambda>(i, b).
            integration_loop x c ts guard i b))))"

subsection \<open>Reviews\<close>

fun review_loop ::
  "'w seats \<Rightarrow> review_kind \<Rightarrow> nat \<Rightarrow> string \<Rightarrow> 'w build \<Rightarrow> halt + (bool \<times> bool) \<times> 'w build" where
  "review_loop x k 0 report b = Inr ((parse_verdict report, True), b)"
| "review_loop x k (Suc n) report b =
     (if parse_verdict report then Inr ((True, True), b)
      else
        and_then (dispatch x (ReviewFixer k report) b) (\<lambda>(_, b).
        and_then (default_build_check x (spend_review_repair b)) (\<lambda>((green, _), b).
        if \<not> green then Inr ((False, False), b)
        else and_then (dispatch x (Reviewer k) b) (\<lambda>(report, b). review_loop x k n report b))))"

text \<open>Which reviewers still fail, and whether the build is still green.\<close>

fun reviews :: "'w seats \<Rightarrow> nat \<Rightarrow> review_kind list \<Rightarrow> 'w build \<Rightarrow> halt + (review_kind list \<times> bool) \<times> 'w build" where
  "reviews x n [] b = Inr (([], True), b)"
| "reviews x n (k # ks) b =
     and_then (dispatch x (Reviewer k) b) (\<lambda>(report, b).
     and_then (review_loop x k n report b) (\<lambda>((passed, green), b).
     let unresolved = (if passed then [] else [k]) in
     if \<not> green then Inr ((unresolved, False), b)
     else and_then (reviews x n ks b) (\<lambda>((fs, green), b). Inr ((unresolved @ fs, green), b))))"

subsection \<open>The build\<close>

definition start_build :: "task list \<Rightarrow> 'w \<Rightarrow> 'w build" where
  "start_build ts w =
     \<lparr>world = w, outcome = None, rows = new_matrix ts, calls = 0,
      repairs = \<lparr>per_task = 0, integration = 0, review = 0\<rparr>, trace = [], snapshots = [], disputes = []\<rparr>"

definition unless_cancelled :: "'w seats \<Rightarrow> 'w build \<Rightarrow> halt + 'w build" where
  "unless_cancelled x b = (if is_cancelled x (world b) then Inl BuildCancelled else Inr b)"

definition finish_build ::
  "'w seats \<Rightarrow> build_config \<Rightarrow> 'w build \<Rightarrow> halt + build_status \<times> 'w build" where
  "finish_build x c b =
     and_then (reviews x (max 1 (cfg_fix_cycles c)) [SpecReview, CodeReview] b) (\<lambda>((unresolved, green), b).
     if \<not> green \<or> unresolved \<noteq> [] then Inr (StalledIncomplete [], persist_matrix ReviewBlocked b)
     else
       and_then (unless_cancelled x b) (\<lambda>b.
       and_then (dispatch x (Evidence green (repairs b)) b) (\<lambda>(_, b).
       Inr (Completed, persist_matrix CompletePhase b))))"

text \<open>Best effort: an error of the check counts as complete, whatever it did to the workspace is lost.\<close>

fun incomplete_task_ids :: "'w seats \<Rightarrow> task list \<Rightarrow> 'w build \<Rightarrow> string list \<times> 'w build" where
  "incomplete_task_ids x [] b = ([], b)"
| "incomplete_task_ids x (t # ts) b =
     (if task_test t = [] then incomplete_task_ids x ts b
      else
        (case run_single_test x (task_test t) b of
           Inl _ \<Rightarrow> incomplete_task_ids x ts b
         | Inr ((ok, _), b) \<Rightarrow>
             (let (ids, b) = incomplete_task_ids x ts b in (if ok then ids else task_id t # ids, b))))"

definition integrate_build ::
  "'w seats \<Rightarrow> build_config \<Rightarrow> task list \<Rightarrow> 'w build \<Rightarrow> halt + build_status \<times> 'w build" where
  "integrate_build x c ts b =
     and_then (unless_cancelled x b) (\<lambda>b.
     and_then (unless_cancelled x (b\<lparr>world := author_ux_test x (world b)\<rparr>)) (\<lambda>b.
     and_then (integration_pass x ts
         \<lparr>int_green = False, int_errors = [], int_gate = new_progress_gate (cfg_stall_rounds c),
          prev_sig = None, int_stalls = 0\<rparr> b) (\<lambda>(i, b).
     and_then (integration_loop x c ts RUNAWAY_GUARD i b) (\<lambda>(i, b).
     let b = persist_matrix IntegrationPhase b in
     if \<not> int_green i then
       (let (ids, b) = incomplete_task_ids x ts b
        in Inr (StalledIncomplete ids, persist_matrix StalledIncompletePhase b))
     else and_then (unless_cancelled x b) (finish_build x c)))))"

definition run_subagent_driven_build ::
  "'w seats \<Rightarrow> build_config \<Rightarrow> task list \<Rightarrow> 'w \<Rightarrow> halt + build_status \<times> 'w build" where
  "run_subagent_driven_build x c ts w =
     (let b = start_build ts (prepare_workspace x w) in
      if readiness_problems x (world b) \<noteq> [] then Inr (PreflightError, b)
      else
        and_then (build_tasks x c (list_ex (\<lambda>t. task_test t \<noteq> []) ts) ts b) (\<lambda>b.
        if ids_with_status (rows b) {Failed, BlockedRow} \<noteq> []
        then
          (let red = sorted_list_of_set (set (ids_with_status (rows b) {Failed, BlockedRow}))
           in and_then (whole_build_passing x ts (persist_matrix StoppedRed b)) (\<lambda>(_, b).
              Inr (StalledIncomplete red, b)))
        else integrate_build x c ts b))"

subsection \<open>Accounting\<close>

definition seats_of :: "build_event list \<Rightarrow> seat list" where
  "seats_of es = List.map_filter (\<lambda>e. case e of SeatRan s _ \<Rightarrow> Some s | SuiteChecked _ \<Rightarrow> None) es"

fun seat_task :: "seat \<Rightarrow> string option" where
  "seat_task (Implementer i) = Some i"
| "seat_task (TaskFixer i c e) = Some i"
| "seat_task (DodFixer i v) = Some i"
| "seat_task (TestArbiter i e) = Some i"
| "seat_task s = None"

fun fixer_phase :: "seat \<Rightarrow> nat option" where
  "fixer_phase (TaskFixer i c e) = Some 0"
| "fixer_phase (DodFixer i v) = Some 0"
| "fixer_phase (IntegrationFixer n c e) = Some 1"
| "fixer_phase (ReviewFixer k r) = Some 2"
| "fixer_phase s = None"

definition fixer_runs :: "nat \<Rightarrow> build_event list \<Rightarrow> nat" where
  "fixer_runs p es = length (filter (\<lambda>s. fixer_phase s = Some p) (seats_of es))"

definition honest :: "'w build \<Rightarrow> bool" where
  "honest b \<longleftrightarrow>
     calls b = length (seats_of (trace b)) \<and>
     repairs b = \<lparr>per_task = fixer_runs 0 (trace b), integration = fixer_runs 1 (trace b), review = fixer_runs 2 (trace b)\<rparr>"

definition status_of :: "'w build \<Rightarrow> string \<Rightarrow> row_status option" where
  "status_of b i = map_option row_status (dict_get (rows b) i)"

text \<open>
  \<open>ran A n I b b'\<close>: from \<open>b\<close> to \<open>b'\<close> the build appended events that satisfy \<open>A\<close>, at most \<open>n\<close> of
  them seats, its counters stay honest, and no status of the matrix outside \<open>I\<close> changed.
\<close>

definition ran :: "(build_event \<Rightarrow> bool) \<Rightarrow> nat \<Rightarrow> string set \<Rightarrow> 'w build \<Rightarrow> 'w build \<Rightarrow> bool" where
  "ran A n I b b' \<longleftrightarrow>
     (\<exists>es. trace b' = trace b @ es \<and> list_all A es \<and> length (seats_of es) \<le> n) \<and>
     (honest b \<longrightarrow> honest b') \<and> (\<forall>i. i \<notin> I \<longrightarrow> status_of b' i = status_of b i)"

lemma seats_of_simps [simp]:
  "seats_of [] = []" "seats_of (es @ fs) = seats_of es @ seats_of fs"
  "seats_of (SeatRan s r # es) = s # seats_of es" "seats_of (SuiteChecked g # es) = seats_of es"
  by (simp_all add: seats_of_def List.map_filter_def)

lemma fixes_simps [simp]:
  "fixer_runs p [] = 0" "fixer_runs p (es @ fs) = fixer_runs p es + fixer_runs p fs"
  "fixer_runs p (SeatRan s r # es) = (if fixer_phase s = Some p then 1 else 0) + fixer_runs p es"
  "fixer_runs p (SuiteChecked g # es) = fixer_runs p es"
  by (simp_all add: fixer_runs_def)

lemma ran_refl [simp]: "ran A n I b b"
  by (auto simp: ran_def intro!: exI [of _ "[]"])

lemma ran_trans: "ran A n I b b' \<Longrightarrow> ran A m I b' b'' \<Longrightarrow> ran A (n + m) I b b''"
  by (fastforce simp: ran_def)

lemma ran_weaken: "ran A n I b b' \<Longrightarrow> (\<And>e. A e \<Longrightarrow> B e) \<Longrightarrow> n \<le> m \<Longrightarrow> I \<subseteq> J \<Longrightarrow> ran B m J b b'"
  unfolding ran_def by (blast intro: list.pred_mono_strong order_trans)

lemma ran_silent:
  "trace b' = trace b \<Longrightarrow> calls b' = calls b \<Longrightarrow> repairs b' = repairs b
    \<Longrightarrow> (\<And>i. i \<notin> I \<Longrightarrow> status_of b' i = status_of b i) \<Longrightarrow> ran A n I b b'"
  by (auto simp: ran_def honest_def intro!: exI [of _ "[]"])

lemma status_of_other: "j \<noteq> i \<Longrightarrow> status_of (set_row i f b) j = status_of b j"
  by (simp add: status_of_def set_row_def update_row_def split: option.split)

lemma status_of_row: "status_of (set_row i f b) i = map_option (\<lambda>r. row_status (f r)) (dict_get (rows b) i)"
  by (simp add: status_of_def set_row_def update_row_def split: option.split)

lemma status_of_set_row:
  "(\<And>r. row_status (f r) = row_status r) \<Longrightarrow> status_of (set_row i f b) = status_of b"
  by (rule ext) (auto simp: status_of_def set_row_def update_row_def split: option.splits)

lemma set_row_fields [simp]:
  "trace (set_row i f b) = trace b" "calls (set_row i f b) = calls b" "repairs (set_row i f b) = repairs b"
  "world (set_row i f b) = world b"
  by (simp_all add: set_row_def)

lemma build_fields [simp]:
  "status_of (b\<lparr>world := w\<rparr>) = status_of b" "status_of (b\<lparr>repairs := m\<rparr>) = status_of b"
  "status_of (b\<lparr>snapshots := ss\<rparr>) = status_of b" "status_of (b\<lparr>disputes := ds\<rparr>) = status_of b"
  "status_of (b\<lparr>outcome := oc\<rparr>) = status_of b" "status_of (b\<lparr>trace := tr\<rparr>) = status_of b"
  "status_of (b\<lparr>calls := c\<rparr>) = status_of b"
  by (simp_all add: status_of_def fun_eq_iff)

lemma dispatch_ran:
  assumes "dispatch x s b = Inr (report, b')"
  shows "trace b' = trace b @ [SeatRan s report]" and "calls b' = calls b + 1" and "repairs b' = repairs b"
    and "status_of b' = status_of b" and "rows b' = rows b"
  using assms by (auto simp: dispatch_def split: prod.splits sum.splits)

lemma dispatch_plain:
  assumes "dispatch x s b = Inr (report, b')" and "fixer_phase s = None" and "A (SeatRan s report)"
  shows "ran A 1 I b b'"
  using dispatch_ran [OF assms(1)] assms(2,3) by (auto simp: ran_def honest_def)

lemma dispatch_fixer:
  assumes "dispatch x s b = Inr (report, b')" and "A (SeatRan s report)"
  shows "fixer_phase s = Some 0 \<Longrightarrow>
      ran A 1 I b (spend_task_repair b')"
    and "fixer_phase s = Some 1 \<Longrightarrow>
      ran A 1 I b (spend_integration_repair b')"
    and "fixer_phase s = Some 2 \<Longrightarrow>
      ran A 1 I b (spend_review_repair b')"
  using dispatch_ran [OF assms(1)] assms(2)
  by (auto simp: ran_def honest_def spend_task_repair_def spend_integration_repair_def spend_review_repair_def)

lemma bump_ran: "ran A n I b (bump_attempts i b)"
  by (rule ran_silent) (simp_all add: bump_attempts_def status_of_set_row)

lemma single_test_ran: "run_single_test x t b = Inr (r, b') \<Longrightarrow> ran A n I b b'"
  by (auto simp: run_single_test_def intro!: ran_silent split: prod.splits test_exec.splits test_run.splits if_splits)

lemma structured_test_ran: "run_structured_test x t b = Inr (r, b') \<Longrightarrow> ran A n I b b'"
  by (auto simp: run_structured_test_def intro!: ran_silent split: prod.splits option.splits sum.splits)

lemma gate_check_ran:
  assumes "gate_check x t b = Inr (r, b')"
  shows "ran A 0 I b b'"
proof -
  from assms obtain c b1 where c: "run_structured_test x t b = Inr (c, b1)"
    and r: "(case c of
         Some r \<Rightarrow> Inr ((cr_green r, cr_errors r, Some (cr_passing r), Some (cr_total r)), b1)
       | None \<Rightarrow> and_then (run_single_test x t b1) (\<lambda>((green, errs), b). Inr ((green, errs, None, None), b)))
       = (Inr (r, b') :: halt + _)"
    by (auto simp: gate_check_def and_then_Inr)
  have "ran A 0 I b1 b'"
    using r by (auto simp: and_then_Inr split: option.splits dest: single_test_ran)
  with structured_test_ran [OF c, of A 0 I] show ?thesis using ran_trans by fastforce
qed

lemma each_test_ran: "run_each_test x ts b = Inr (r, b') \<Longrightarrow> ran A 0 I b b'"
proof (induction ts arbitrary: b r)
  case (Cons t ts)
  then obtain c b1 cs where "run_structured_test x t b = Inr (c, b1)" "run_each_test x ts b1 = Inr (cs, b')"
    by (auto simp: and_then_Inr)
  with Cons.IH structured_test_ran [of x t b c b1 A 0 I] ran_trans [of A 0 I b b1 0 b'] show ?case by simp
qed simp

lemma suite_run_ran:
  assumes "run_structured_suite x ts b = Inr (r, b')"
  shows "ran A 0 I b b'"
proof -
  have w: "ran A 0 I b (b\<lparr>world := w\<rparr>)" for w by (rule ran_silent) simp_all
  have e: "ran A 0 I b b'" if "run_each_test x ts (b\<lparr>world := w\<rparr>) = Inr (cs, b')" for w cs
    using ran_trans [OF w each_test_ran [OF that]] by simp
  from assms show ?thesis
    by (auto simp: run_structured_suite_def Let_def and_then_Inr split: if_splits prod.splits option.splits sum.splits
        intro: w e)
qed

subsection \<open>What a task runs\<close>

definition task_event :: "string \<Rightarrow> build_event \<Rightarrow> bool" where
  "task_event i e \<longleftrightarrow> (\<exists>s r. e = SeatRan s r \<and> seat_task s = Some i)"

lemma task_event_simp [simp]: "task_event i (SeatRan s r) \<longleftrightarrow> seat_task s = Some i"
  by (simp add: task_event_def)

lemma task_event_unique: "task_event i e \<Longrightarrow> task_event j e \<Longrightarrow> i = j"
  by (auto simp: task_event_def)

lemma fix_loop_ran:
  "fix_loop x t n ok errs g b = Inr (r, b') \<Longrightarrow> ran (task_event (task_id t)) n I b b'"
proof (induction n arbitrary: ok errs g b)
  case (Suc n)
  show ?case
  proof (cases "ok \<or> stalled g")
    case True
    with Suc.prems show ?thesis by auto
  next
    case False
    let ?A = "task_event (task_id t)"
    from Suc.prems False obtain report b1 ok' errs' ps m b2 where
      d: "dispatch x (TaskFixer (task_id t) (last_cycle_stalled g) errs) b = Inr (report, b1)"
      and c: "gate_check x (task_test t) (bump_attempts (task_id t) (spend_task_repair b1)) = Inr ((ok', errs', ps, m), b2)"
      and l: "fix_loop x t n ok' errs' (observe g (observation_of b2 ok' errs' ps m)) b2 = Inr (r, b')"
      by (auto simp: and_then_Inr Let_def)
    have "ran ?A 1 I b (spend_task_repair b1)" by (rule dispatch_fixer(1) [OF d]) simp_all
    from ran_trans [OF this bump_ran [of ?A 0 I _ "task_id t"]] ran_trans gate_check_ran [OF c, of ?A I]
    have "ran ?A 1 I b b2" by fastforce
    moreover from l have "ran ?A n I b2 b'" by (rule Suc.IH)
    ultimately show ?thesis using ran_trans by fastforce
  qed
qed simp

lemma dod_loop_ran:
  "dod_loop x t n viol b = Inr (r, b') \<Longrightarrow> ran (task_event (task_id t)) n I b b'"
proof (induction n arbitrary: viol b)
  case (Suc n)
  show ?case
  proof (cases "viol = []")
    case True
    with Suc.prems show ?thesis by simp
  next
    case False
    let ?A = "task_event (task_id t)"
    from Suc.prems False obtain report b1 ok e b2 where
      d: "dispatch x (DodFixer (task_id t) viol) b = Inr (report, b1)"
      and c: "(if task_test t = [] then Inr ((True, []), spend_task_repair b1) else run_single_test x (task_test t) (spend_task_repair b1))
         = Inr ((ok, e), b2)"
      and l: "(if ok then dod_loop x t n (dod_violations x t (world b2)) b2 else Inr (False, b2)) = Inr (r, b')"
      by (auto simp: and_then_Inr Let_def split del: if_split)
    have "ran ?A 1 I b (spend_task_repair b1)" by (rule dispatch_fixer(1) [OF d]) simp_all
    moreover have "ran ?A 0 I (spend_task_repair b1) b2" using c by (auto split: if_splits dest: single_test_ran)
    ultimately have "ran ?A (1 + 0) I b b2" by (rule ran_trans)
    moreover have "ran ?A n I b2 b'" using l Suc.IH by (auto split: if_splits)
    ultimately have "ran ?A (1 + 0 + n) I b b'" by (rule ran_trans)
    then show ?thesis by simp
  qed
qed simp

lemma enforce_ran:
  "enforce_task_dod x c t b = Inr (r, b') \<Longrightarrow> ran (task_event (task_id t)) (max 1 (cfg_fix_cycles c)) I b b'"
  by (auto simp: enforce_task_dod_def Let_def split: if_splits intro: dod_loop_ran)

lemma diagnose_ran:
  assumes "diagnose_deadlock x c t errs b = Inr b'"
  shows "ran (task_event (task_id t)) 1 I b b'"
proof -
  let ?A = "task_event (task_id t)"
  have d: "ran ?A 0 I b (b\<lparr>disputes := ds\<rparr>)" for b :: "'a build" and ds by (rule ran_silent) simp_all
  have "ran ?A 1 I b (b1\<lparr>disputes := ds\<rparr>) \<and> ran ?A 1 I b b1"
    if "dispatch x (TestArbiter (task_id t) errs) b = Inr (report, b1)" for report b1 ds
    using ran_trans [OF dispatch_plain [OF that, of ?A I] d [of b1 ds]] dispatch_plain [OF that, of ?A I] by simp
  with assms ran_weaken [OF d [of b "disputes b @ [task_id t]"], of ?A 1 I] show ?thesis
    by (auto simp: diagnose_deadlock_def and_then_Inr split: if_splits)
qed

text \<open>The seats one task can cost: the draft, the fixers of both loops and the arbiter.\<close>

definition task_cost :: "build_config \<Rightarrow> nat" where
  "task_cost c = 1 + RUNAWAY_GUARD + max 1 (cfg_fix_cycles c) + 1"

lemma set_row_ran: "ran A n {i} b (set_row i f b)"
  by (rule ran_silent) (simp_all add: status_of_other)

lemma set_row_known: "status_of b i \<noteq> None \<Longrightarrow> status_of (set_row i f b) i \<noteq> None"
  unfolding status_of_row by (auto simp: status_of_def)

lemma set_row_status:
  "status_of b i \<noteq> None \<Longrightarrow> (\<And>r. row_status (f r) = s) \<Longrightarrow> status_of (set_row i f b) i = Some s"
  unfolding status_of_row by (auto simp: status_of_def)

lemma drive_ran:
  assumes "drive_task x c t b = Inr b'" and "status_of b (task_id t) \<noteq> None"
  shows "ran (task_event (task_id t)) (RUNAWAY_GUARD + max 1 (cfg_fix_cycles c) + 1) {task_id t} b b'"
    and "status_of b' (task_id t) \<in> {Some Green, Some Failed}"
proof -
  let ?A = "task_event (task_id t)" and ?i = "task_id t"
  let ?g = "\<lambda>b ok errs ps n. observe (new_progress_gate (cfg_stall_rounds c)) (observation_of b ok errs ps n)"
  from assms(1) obtain ok errs ps n b1 ok' errs' g b2 where
    c: "gate_check x (task_test t) b = Inr ((ok, errs, ps, n), b1)"
    and f: "fix_loop x t RUNAWAY_GUARD ok errs (?g b1 ok errs ps n) b1 = Inr ((ok', errs', g), b2)"
    and r: "(if ok' then and_then (enforce_task_dod x c t b2) (\<lambda>(met, b).
           Inr (set_status ?i (if met then Green else Failed) b))
         else diagnose_deadlock x c t errs'
           (set_row ?i (\<lambda>r. r\<lparr>row_status := Failed, row_failing := Some (checks_still_failing g)\<rparr>) b2)) = Inr b'"
    by (auto simp: drive_task_def and_then_Inr)
  have a: "ran ?A (0 + RUNAWAY_GUARD) {} b b2" by (rule ran_trans [OF gate_check_ran [OF c] fix_loop_ran [OF f]])
  then have k: "status_of b2 ?i \<noteq> None" using assms(2) by (simp add: ran_def)
  have "ran ?A (max 1 (cfg_fix_cycles c) + 1) {?i} b2 b' \<and> status_of b' ?i \<in> {Some Green, Some Failed}"
  proof (cases ok')
    case True
    with r obtain met b3 where e: "enforce_task_dod x c t b2 = Inr (met, b3)"
      and b': "b' = set_status ?i (if met then Green else Failed) b3" by (auto simp: and_then_Inr)
    have "status_of b3 ?i \<noteq> None" using enforce_ran [OF e, of "{}"] k by (simp add: ran_def)
    then show ?thesis
      using ran_trans [OF enforce_ran [OF e, of "{?i}"] set_row_ran [of ?A 1 ?i b3]] b'
      by (simp add: set_status_def set_row_status)
  next
    case False
    let ?b = "set_row ?i (\<lambda>r. r\<lparr>row_status := Failed, row_failing := Some (checks_still_failing g)\<rparr>) b2"
    from r False have d: "diagnose_deadlock x c t errs' ?b = Inr b'" by simp
    have "status_of ?b ?i = Some Failed" using k by (rule set_row_status) simp
    then have "status_of b' ?i = Some Failed" using diagnose_ran [OF d, of "{}"] by (simp add: ran_def)
    with ran_trans [OF set_row_ran diagnose_ran [OF d]] show ?thesis by simp
  qed
  then have s: "ran ?A (max 1 (cfg_fix_cycles c) + 1) {?i} b2 b'" "status_of b' ?i \<in> {Some Green, Some Failed}" by simp_all
  have "ran ?A RUNAWAY_GUARD {?i} b b2" using ran_weaken [OF a] by simp
  from ran_trans [OF this s(1)] show "ran ?A (RUNAWAY_GUARD + max 1 (cfg_fix_cycles c) + 1) {?i} b b'"
    by (simp add: add.assoc)
  show "status_of b' ?i \<in> {Some Green, Some Failed}" by (rule s(2))
qed

definition settled_status :: "row_status option \<Rightarrow> bool" where
  "settled_status s \<longleftrightarrow> s \<noteq> None \<and> s \<noteq> Some Pending"

definition red_status :: "row_status option \<Rightarrow> bool" where
  "red_status s \<longleftrightarrow> s = Some Failed \<or> s = Some BlockedRow"

lemma failed_or_blocked_nil: "failed_or_blocked (rows b) ds = [] \<longleftrightarrow> (\<forall>d \<in> set ds. \<not> red_status (status_of b d))"
  by (auto simp: failed_or_blocked_def filter_empty_conv status_of_def red_status_def split: option.splits)

lemma task_ran:
  assumes "build_task x c pd t b = Inr b'" and known: "status_of b (task_id t) \<noteq> None"
  shows "ran (task_event (task_id t)) (task_cost c) {task_id t} b b'"
    and "settled_status (status_of b' (task_id t))"
    and "trace b' \<noteq> trace b \<Longrightarrow>
      status_of b' (task_id t) \<noteq> Some BlockedRow \<and> (\<forall>d \<in> set (task_deps t). \<not> red_status (status_of b d))"
proof -
  let ?A = "task_event (task_id t)" and ?i = "task_id t"
  have goal: "ran ?A (task_cost c) {?i} b b' \<and> settled_status (status_of b' ?i) \<and>
      (trace b' \<noteq> trace b \<longrightarrow> status_of b' ?i \<noteq> Some BlockedRow \<and>
        (\<forall>d \<in> set (task_deps t). \<not> red_status (status_of b d)))"
  proof (cases "failed_or_blocked (rows b) (task_deps t) = []")
    case False
    with assms(1) have "b' = set_row ?i (\<lambda>r. r\<lparr>row_status := BlockedRow,
        blocked_by := failed_or_blocked (rows b) (task_deps t)\<rparr>) b"
      by (auto simp: build_task_def Let_def split: if_splits)
    with known show ?thesis by (simp add: set_row_ran set_row_status settled_status_def)
  next
    case True
    then have deps: "\<forall>d \<in> set (task_deps t). \<not> red_status (status_of b d)" by (simp add: failed_or_blocked_nil)
    from True assms(1) obtain ok e b1 where
      c: "(if task_test t = [] then Inr ((False, []), b) else run_single_test x (task_test t) b) = Inr ((ok, e), b1)"
      and r: "(if ok then Inr (set_status ?i PreExistingGreen b1)
         else if pd \<and> task_test t = [] then Inr (set_status ?i PreExistingGreen b1)
         else and_then (dispatch x (Implementer ?i) b1) (\<lambda>(_, b). let b = bump_attempts ?i b in
           if task_test t = [] then Inr (set_status ?i DraftedNoTest b) else drive_task x c t b)) = Inr b'"
      by (auto simp: build_task_def and_then_Inr Let_def split: if_splits)
    have b1: "ran ?A 0 {} b b1" using c by (auto split: if_splits dest: single_test_ran)
    then have k1: "status_of b1 ?i \<noteq> None" and s1: "ran ?A 0 {?i} b b1"
      using known ran_weaken [OF b1] by (simp_all add: ran_def)
    have stat: "ran ?A 0 {?i} b2 (set_status ?i s b2)" for b2 :: "'a build" and s
      by (simp add: set_status_def set_row_ran)
    have st: "status_of (set_status ?i s b2) ?i = Some s" if "status_of b2 ?i \<noteq> None" for b2 :: "'a build" and s
      using that by (simp add: set_status_def set_row_status)
    show ?thesis
    proof (cases "ok \<or> pd \<and> task_test t = []")
      case True
      with r have "b' = set_status ?i PreExistingGreen b1" by (auto split: if_splits)
      with ran_trans [OF s1 stat [of b1 PreExistingGreen]] st [OF k1] deps show ?thesis
        by (auto simp: settled_status_def intro: ran_weaken)
    next
      case False
      with r obtain report b2 where d: "dispatch x (Implementer ?i) b1 = Inr (report, b2)"
        and r': "(if task_test t = [] then Inr (set_status ?i DraftedNoTest (bump_attempts ?i b2))
          else drive_task x c t (bump_attempts ?i b2)) = (Inr b' :: halt + _)"
        by (auto simp: and_then_Inr Let_def)
      have "ran ?A 1 {} b1 b2" by (rule dispatch_plain [OF d]) simp_all
      from ran_trans [OF ran_trans [OF b1 this] bump_ran [of ?A 0]]
      have b3: "ran ?A 1 {} b (bump_attempts ?i b2)" by simp
      then have k3: "status_of (bump_attempts ?i b2) ?i \<noteq> None" using known by (simp add: ran_def)
      have b3': "ran ?A 1 {?i} b (bump_attempts ?i b2)" using ran_weaken [OF b3] by simp
      have "ran ?A (RUNAWAY_GUARD + max 1 (cfg_fix_cycles c) + 1) {?i} (bump_attempts ?i b2) b' \<and>
          status_of b' ?i \<in> {Some Green, Some Failed, Some DraftedNoTest}"
      proof (cases "task_test t = []")
        case True
        with r' have "b' = set_status ?i DraftedNoTest (bump_attempts ?i b2)" by simp
        with st [OF k3] ran_weaken [OF stat] show ?thesis by simp
      next
        case False
        with r' have "drive_task x c t (bump_attempts ?i b2) = Inr b'" by simp
        from drive_ran [OF this k3] show ?thesis by auto
      qed
      then have "ran ?A (task_cost c) {?i} b b'" "status_of b' ?i \<in> {Some Green, Some Failed, Some DraftedNoTest}"
        using ran_trans [OF b3'] by (force simp: task_cost_def ac_simps)+
      with deps show ?thesis by (auto simp: settled_status_def)
    qed
  qed
  from goal show "ran ?A (task_cost c) {?i} b b'" by simp
  from goal show "settled_status (status_of b' ?i)" by simp
  from goal show "status_of b' ?i \<noteq> Some BlockedRow \<and> (\<forall>d \<in> set (task_deps t). \<not> red_status (status_of b d))"
    if "trace b' \<noteq> trace b" using that by simp
qed

lemma tasks_ran:
  "build_tasks x c pd ts b = Inr b' \<Longrightarrow> \<forall>t \<in> set ts. status_of b (task_id t) \<noteq> None \<Longrightarrow>
   ran (\<lambda>e. \<exists>t \<in> set ts. task_event (task_id t) e) (length ts * task_cost c) (task_id ` set ts) b b' \<and>
   (\<forall>t \<in> set ts. settled_status (status_of b' (task_id t)))"
proof (induction ts arbitrary: b)
  case Nil
  then show ?case by simp
next
  case (Cons t ts)
  from Cons.prems(1) obtain b1 where t: "build_task x c pd t b = Inr b1" and ts: "build_tasks x c pd ts b1 = Inr b'"
    by (auto simp: and_then_Inr)
  have "status_of b (task_id t) \<noteq> None" using Cons.prems(2) by simp
  note h = task_ran [OF t this]
  let ?A = "\<lambda>e. \<exists>t \<in> set (t # ts). task_event (task_id t) e" and ?I = "task_id ` set (t # ts)"
  have k: "status_of b1 (task_id u) \<noteq> None" if "u \<in> set ts" for u
    using h(1,2) Cons.prems(2) that by (cases "task_id u = task_id t") (auto simp: ran_def settled_status_def)
  with Cons.IH [OF ts] have r: "ran (\<lambda>e. \<exists>t \<in> set ts. task_event (task_id t) e) (length ts * task_cost c) (task_id ` set ts) b1 b'"
    and st: "\<forall>t \<in> set ts. settled_status (status_of b' (task_id t))" by auto
  have "ran ?A (task_cost c) ?I b b1" by (rule ran_weaken [OF h(1)]) auto
  moreover have "ran ?A (length ts * task_cost c) ?I b1 b'" by (rule ran_weaken [OF r]) auto
  ultimately have "ran ?A (task_cost c + length ts * task_cost c) ?I b b'" by (rule ran_trans)
  moreover have "settled_status (status_of b' (task_id t))"
    using r st h(2) by (cases "task_id t \<in> task_id ` set ts") (auto simp: ran_def)
  ultimately show ?case using st by simp
qed

lemma tasks_deps:
  assumes "build_tasks x c pd ts b = Inr b'" and "distinct (map task_id ts)"
    and "\<forall>t \<in> set ts. status_of b (task_id t) \<noteq> None" and "trace b' = trace b @ es"
    and "k < length ts" and "list_ex (task_event (task_id (ts ! k))) es"
  shows "status_of b' (task_id (ts ! k)) \<noteq> Some BlockedRow \<and>
    (\<forall>d \<in> set (task_deps (ts ! k)). d \<notin> task_id ` set (drop k ts) \<longrightarrow> \<not> red_status (status_of b' d))"
  using assms
proof (induction ts arbitrary: b es k)
  case Nil
  then show ?case by simp
next
  case (Cons t ts)
  from Cons.prems(1) obtain b1 where t: "build_task x c pd t b = Inr b1" and ts: "build_tasks x c pd ts b1 = Inr b'"
    by (auto simp: and_then_Inr)
  have "status_of b (task_id t) \<noteq> None" using Cons.prems(3) by simp
  note h = task_ran [OF t this]
  have k1: "\<forall>u \<in> set ts. status_of b1 (task_id u) \<noteq> None"
  proof
    fix u
    assume u: "u \<in> set ts"
    with Cons.prems(2) have "task_id u \<notin> {task_id t}" by (metis distinct.simps(2) imageI list.set_map list.simps(9) singletonD)
    with h(1) u Cons.prems(3) show "status_of b1 (task_id u) \<noteq> None" by (simp add: ran_def)
  qed
  from tasks_ran [OF ts this] obtain es2 where
    r: "ran (\<lambda>e. \<exists>t \<in> set ts. task_event (task_id t) e) (length ts * task_cost c) (task_id ` set ts) b1 b'"
    and es2: "trace b' = trace b1 @ es2" "list_all (\<lambda>e. \<exists>t \<in> set ts. task_event (task_id t) e) es2"
    by (auto simp: ran_def)
  from h(1) obtain es1 where es1: "trace b1 = trace b @ es1" "list_all (task_event (task_id t)) es1"
    by (auto simp: ran_def)
  with es2 Cons.prems(4) have es: "es = es1 @ es2" by simp
  have keep: "status_of b' d = status_of b1 d" if "d \<notin> task_id ` set ts" for d using r that by (simp add: ran_def)
  show ?case
  proof (cases k)
    case 0
    have "task_id t \<notin> task_id ` set ts" using Cons.prems(2) by simp
    then have "\<not> list_ex (task_event (task_id t)) es2"
      using es2(2) task_event_unique unfolding list_ex_iff list_all_iff by (metis imageI)
    with Cons.prems(6) es 0 have "es1 \<noteq> []" by auto
    with es1 h(3) have g: "status_of b1 (task_id t) \<noteq> Some BlockedRow"
        "\<forall>d \<in> set (task_deps t). \<not> red_status (status_of b d)" by auto
    have "status_of b1 d = status_of b d" if "d \<noteq> task_id t" for d using h(1) that by (simp add: ran_def)
    with g keep Cons.prems(2) 0 show ?thesis by auto
  next
    case (Suc j)
    then have j: "j < length ts" using Cons.prems(5) by simp
    then have "task_id (ts ! j) \<noteq> task_id t" using Cons.prems(2) by (metis distinct.simps(2) imageI list.set_map list.simps(9) nth_mem)
    with es1(2) have "\<not> list_ex (task_event (task_id (ts ! j))) es1"
      by (auto simp: list_ex_iff list_all_iff task_event_def)
    with Cons.prems(6) es Suc have "list_ex (task_event (task_id (ts ! j))) es2" by simp
    with Cons.IH [OF ts _ k1 es2(1) j] Cons.prems(2) Suc show ?thesis by simp
  qed
qed

subsection \<open>Integration and reviews\<close>

lemma check_ran:
  assumes "default_build_check x b = Inr ((g, errs), b')"
  shows "trace b' = trace b @ [SuiteChecked g]" and "A (SuiteChecked g) \<Longrightarrow> ran A 0 I b b'"
proof -
  have "b' = b\<lparr>world := snd (validate_plan x (world b)), trace := trace b @ [SuiteChecked g]\<rparr>"
    using assms by (auto simp: default_build_check_def Let_def split: prod.splits if_splits)
  then show "trace b' = trace b @ [SuiteChecked g]" and "A (SuiteChecked g) \<Longrightarrow> ran A 0 I b b'"
    by (auto simp: ran_def honest_def status_of_def)
qed

definition integration_event :: "build_event \<Rightarrow> bool" where
  "integration_event e \<longleftrightarrow> (\<exists>g. e = SuiteChecked g) \<or> (\<exists>n m s r. e = SeatRan (IntegrationFixer n m s) r)"

lemma whole_ran: "whole_build_passing x ts b = Inr (r, b') \<Longrightarrow> ran A 0 I b b'"
  by (auto simp: whole_build_passing_def and_then_Inr dest: suite_run_ran)

lemma ran_no_events: "ran (\<lambda>_. False) n I b b' \<Longrightarrow> trace b' = trace b"
  by (force simp: ran_def list_all_iff)

lemma pass_ran:
  assumes "integration_pass x ts i b = Inr (i', b')"
  shows "trace b' = trace b @ [SuiteChecked (int_green i')]" and "ran integration_event 0 I b b'"
proof -
  from assms obtain g errs b1 ps n where c: "default_build_check x b = Inr ((g, errs), b1)"
    and w: "whole_build_passing x ts b1 = Inr ((ps, n), b')" and g: "int_green i' = g"
    by (auto simp: integration_pass_def and_then_Inr)
  from check_ran(1) [OF c] ran_no_events [OF whole_ran [OF w]] g
  show "trace b' = trace b @ [SuiteChecked (int_green i')]" by simp
  from ran_trans [OF check_ran(2) [OF c] whole_ran [OF w], of integration_event I]
  show "ran integration_event 0 I b b'" by (simp add: integration_event_def)
qed

lemma integration_ran:
  "integration_loop x c ts n i b = Inr (i', b') \<Longrightarrow>
   ran integration_event n I b b' \<and>
   ((\<exists>pre. trace b = pre @ [SuiteChecked (int_green i)]) \<longrightarrow> (\<exists>pre. trace b' = pre @ [SuiteChecked (int_green i')]))"
proof (induction n arbitrary: i b)
  case 0
  then show ?case by auto
next
  case (Suc n)
  show ?case
  proof (cases "int_green i \<or> stalled (int_gate i)")
    case True
    with Suc.prems show ?thesis by auto
  next
    case False
    with Suc.prems obtain s r b1 i1 i2 b2 where d: "dispatch x s b = Inr (r, b1)"
      and s: "\<exists>n m e. s = IntegrationFixer n m e"
      and p: "integration_pass x ts i1 (spend_integration_repair b1) = Inr (i2, b2)"
      and l: "integration_loop x c ts n i2 b2 = Inr (i', b')"
      by (auto simp: and_then_Inr Let_def)
    have "ran integration_event 1 I b (spend_integration_repair b1)"
      using s by (intro dispatch_fixer(2) [OF d]) (auto simp: integration_event_def)
    from ran_trans [OF ran_trans [OF this pass_ran(2) [OF p]]] Suc.IH [OF l] pass_ran(1) [OF p]
    show ?thesis by fastforce
  qed
qed

definition review_event :: "build_event \<Rightarrow> bool" where
  "review_event e \<longleftrightarrow> (\<exists>g. e = SuiteChecked g) \<or>
     (\<exists>k r. e = SeatRan (Reviewer k) r) \<or> (\<exists>k f r. e = SeatRan (ReviewFixer k f) r)"

definition reports :: "review_kind \<Rightarrow> build_event list \<Rightarrow> string list" where
  "reports k es = List.map_filter (\<lambda>e. case e of
       SeatRan s r \<Rightarrow> if s = Reviewer k then Some r else None | SuiteChecked _ \<Rightarrow> None) es"

definition review_passed :: "review_kind \<Rightarrow> build_event list \<Rightarrow> bool" where
  "review_passed k es \<longleftrightarrow> reports k es \<noteq> [] \<and> parse_verdict (last (reports k es))"

text \<open>No agent that may write ran after a green check of the whole suite.\<close>

definition settled_suite :: "build_event list \<Rightarrow> bool" where
  "settled_suite es \<longleftrightarrow>
     (\<exists>pre revs. es = pre @ SuiteChecked True # revs \<and> list_all (\<lambda>e. \<exists>k r. e = SeatRan (Reviewer k) r) revs)"

lemma reports_simps [simp]:
  "reports k [] = []" "reports k (es @ fs) = reports k es @ reports k fs"
  "reports k (SeatRan s r # es) = (if s = Reviewer k then [r] else []) @ reports k es"
  "reports k (SuiteChecked g # es) = reports k es"
  by (simp_all add: reports_def List.map_filter_def)

lemma settled_review: "settled_suite es \<Longrightarrow> settled_suite (es @ [SeatRan (Reviewer k) r])"
proof -
  assume "settled_suite es"
  then obtain pre revs where "es = pre @ SuiteChecked True # revs"
    "list_all (\<lambda>e. \<exists>k r. e = SeatRan (Reviewer k) r) revs" by (auto simp: settled_suite_def)
  then show ?thesis
    unfolding settled_suite_def by (intro exI [of _ pre] exI [of _ "revs @ [SeatRan (Reviewer k) r]"]) simp
qed

lemma settled_check: "settled_suite (es @ [SuiteChecked True])"
  unfolding settled_suite_def by (intro exI [of _ es] exI [of _ "[]"]) simp

lemma reviewer_ran:
  assumes "dispatch x (Reviewer k) b = Inr (r, b')"
  shows "ran review_event 1 I b b'" and "trace b' = trace b @ [SeatRan (Reviewer k) r]"
  using dispatch_plain [OF assms, of review_event I] dispatch_ran(1) [OF assms] by (simp_all add: review_event_def)

lemma review_loop_ran:
  assumes "review_loop x k n report b = Inr ((p, g), b')" and "settled_suite (trace b)"
    and "reports k (trace b) \<noteq> []" and "last (reports k (trace b)) = report"
  shows "ran review_event (2 * n) I b b'"
    and "j \<noteq> k \<Longrightarrow> reports j (trace b') = reports j (trace b)"
    and "g \<Longrightarrow> settled_suite (trace b') \<and> (p \<longrightarrow> review_passed k (trace b'))"
proof -
  have "ran review_event (2 * n) I b b' \<and> (j \<noteq> k \<longrightarrow> reports j (trace b') = reports j (trace b)) \<and>
      (g \<longrightarrow> settled_suite (trace b') \<and> (p \<longrightarrow> review_passed k (trace b')))"
    using assms
  proof (induction n arbitrary: report b)
    case 0
    then show ?case by (auto simp: review_passed_def)
  next
    case (Suc n)
    show ?case
    proof (cases "parse_verdict report")
      case True
      with Suc.prems show ?thesis by (auto simp: review_passed_def)
    next
      case False
      with Suc.prems(1) obtain r1 b1 green errs b2 where d: "dispatch x (ReviewFixer k report) b = Inr (r1, b1)"
        and c: "default_build_check x (spend_review_repair b1) = Inr ((green, errs), b2)"
        and r: "(if \<not> green then Inr ((False, False), b2)
          else and_then (dispatch x (Reviewer k) b2) (\<lambda>(report, b). review_loop x k n report b)) = Inr ((p, g), b')"
        by (auto simp: and_then_Inr)
      have "ran review_event 1 I b (spend_review_repair b1)"
        by (rule dispatch_fixer(3) [OF d]) (simp_all add: review_event_def)
      from ran_trans [OF this check_ran(2) [OF c]] have b2: "ran review_event 1 I b b2"
        by (simp add: review_event_def)
      have tr: "trace b2 = trace b @ [SeatRan (ReviewFixer k report) r1, SuiteChecked green]"
        using check_ran(1) [OF c] dispatch_ran(1) [OF d] by (simp add: spend_review_repair_def)
      show ?thesis
      proof (cases green)
        case False
        with r b2 tr ran_weaken [OF b2, of review_event "2 * Suc n" I] show ?thesis by auto
      next
        case True
        with r obtain r2 b3 where v: "dispatch x (Reviewer k) b2 = Inr (r2, b3)"
          and l: "review_loop x k n r2 b3 = Inr ((p, g), b')" by (auto simp: and_then_Inr)
        have t3: "trace b3 = trace b @ [SeatRan (ReviewFixer k report) r1, SuiteChecked True] @ [SeatRan (Reviewer k) r2]"
          using reviewer_ran(2) [OF v] tr True by simp
        have "settled_suite ((trace b @ [SeatRan (ReviewFixer k report) r1]) @ [SuiteChecked True])"
          by (rule settled_check)
        with settled_review [OF this] t3 have "settled_suite (trace b3)" by simp
        with Suc.IH [OF l] t3 have ih: "ran review_event (2 * n) I b3 b'"
            "j \<noteq> k \<longrightarrow> reports j (trace b') = reports j (trace b3)"
            "g \<longrightarrow> settled_suite (trace b') \<and> (p \<longrightarrow> review_passed k (trace b'))" by simp_all
        from ran_trans [OF ran_trans [OF b2 reviewer_ran(1) [OF v]] ih(1)] ih(2,3) t3 show ?thesis by simp
      qed
    qed
  qed
  then show "ran review_event (2 * n) I b b'" and "j \<noteq> k \<Longrightarrow> reports j (trace b') = reports j (trace b)"
    and "g \<Longrightarrow> settled_suite (trace b') \<and> (p \<longrightarrow> review_passed k (trace b'))" by simp_all
qed

lemma reviews_ran:
  "reviews x n ks b = Inr ((fs, g), b') \<Longrightarrow> settled_suite (trace b) \<Longrightarrow> distinct ks \<Longrightarrow>
   ran review_event (length ks * (2 * n + 1)) I b b' \<and>
   (\<forall>j. j \<notin> set ks \<longrightarrow> reports j (trace b') = reports j (trace b)) \<and>
   (g \<longrightarrow> settled_suite (trace b') \<and> (fs = [] \<longrightarrow> (\<forall>k \<in> set ks. review_passed k (trace b'))))"
proof (induction ks arbitrary: b fs g)
  case Nil
  then show ?case by auto
next
  case (Cons k ks)
  from Cons.prems(1) obtain r1 b1 p g1 b2 where v: "dispatch x (Reviewer k) b = Inr (r1, b1)"
    and l: "review_loop x k n r1 b1 = Inr ((p, g1), b2)"
    and r: "(if \<not> g1 then Inr ((if p then [] else [k], False), b2)
      else and_then (reviews x n ks b2) (\<lambda>((fs, green), b). Inr (((if p then [] else [k]) @ fs, green), b)))
      = Inr ((fs, g), b')"
    by (auto simp: and_then_Inr Let_def split del: if_split)
  have t1: "trace b1 = trace b @ [SeatRan (Reviewer k) r1]" by (rule reviewer_ran(2) [OF v])
  with settled_review Cons.prems(2) have s1: "settled_suite (trace b1)" by simp
  from t1 have r1: "reports k (trace b1) \<noteq> []" "last (reports k (trace b1)) = r1" by simp_all
  note h = review_loop_ran [OF l s1 r1]
  have c: "ran review_event (2 * n + 1) I b b2" using ran_trans [OF reviewer_ran(1) [OF v] h(1)] by simp
  have o: "reports j (trace b2) = reports j (trace b)" if "j \<noteq> k" for j using h(2) [OF that] t1 that by simp
  show ?case
  proof (cases g1)
    case False
    with r ran_weaken [OF c, of review_event "length (k # ks) * (2 * n + 1)" I] o show ?thesis by auto
  next
    case True
    with r obtain fs2 where rs: "reviews x n ks b2 = Inr ((fs2, g), b')" and fs: "fs = (if p then [] else [k]) @ fs2"
      by (auto simp: and_then_Inr)
    from Cons.IH [OF rs] h(3) [OF True] Cons.prems(3) have
      ih: "ran review_event (length ks * (2 * n + 1)) I b2 b'"
        "\<forall>j. j \<notin> set ks \<longrightarrow> reports j (trace b') = reports j (trace b2)"
        "g \<longrightarrow> settled_suite (trace b') \<and> (fs2 = [] \<longrightarrow> (\<forall>k \<in> set ks. review_passed k (trace b')))" by auto
    have "review_passed k (trace b')" if "p" using h(3) [OF True] that ih(2) Cons.prems(3) by (simp add: review_passed_def)
    with ran_trans [OF c ih(1)] ih(2,3) o fs show ?thesis by (auto simp: ac_simps)
  qed
qed

subsection \<open>The whole build\<close>

definition is_evidence :: "build_event \<Rightarrow> bool" where
  "is_evidence e \<longleftrightarrow> (\<exists>g m r. e = SeatRan (Evidence g m) r)"

definition no_evidence :: "build_event \<Rightarrow> bool" where
  "no_evidence e \<longleftrightarrow> \<not> is_evidence e"

lemma no_evidence_events:
  "task_event i e \<Longrightarrow> no_evidence e" "integration_event e \<Longrightarrow> no_evidence e" "review_event e \<Longrightarrow> no_evidence e"
  by (auto simp: no_evidence_def is_evidence_def task_event_def integration_event_def review_event_def)

definition review_cost :: "build_config \<Rightarrow> nat" where
  "review_cost c = 2 * (2 * max 1 (cfg_fix_cycles c) + 1)"

text \<open>What a run of the build ends in: no evidence seat, or one as the last event of a reviewed green build.\<close>

definition ended :: "nat \<Rightarrow> build_status \<Rightarrow> 'w build \<Rightarrow> 'w build \<Rightarrow> bool" where
  "ended n st b b' \<longleftrightarrow>
     (if st = Completed then
        (\<exists>es r. trace b' = trace b @ es @ [SeatRan (Evidence True (repairs b')) r] \<and> list_all no_evidence es \<and>
           length (seats_of es) < n \<and> settled_suite (trace b @ es) \<and>
           review_passed SpecReview (trace b @ es) \<and> review_passed CodeReview (trace b @ es)) \<and>
        (honest b \<longrightarrow> honest b') \<and> status_of b' = status_of b
      else ran no_evidence n {} b b')"

lemma persist_ran: "ran A n I b (persist_matrix p b)"
  by (rule ran_silent) (simp_all add: persist_matrix_def)

lemma unless_cancelled_Inr: "unless_cancelled x b = Inr b' \<longleftrightarrow> \<not> is_cancelled x (world b) \<and> b' = b"
  by (auto simp: unless_cancelled_def)

lemma finish_ended:
  assumes "finish_build x c b = Inr (st, b')" and "settled_suite (trace b)"
  shows "ended (review_cost c + 1) st b b'"
proof -
  from assms(1) obtain fs g b1 where rs: "reviews x (max 1 (cfg_fix_cycles c)) [SpecReview, CodeReview] b = Inr ((fs, g), b1)"
    and r: "(if \<not> g \<or> fs \<noteq> [] then Inr (StalledIncomplete [], persist_matrix ReviewBlocked b1)
      else and_then (unless_cancelled x b1) (\<lambda>b. and_then (dispatch x (Evidence g (repairs b)) b) (\<lambda>(_, b).
        Inr (Completed, persist_matrix CompletePhase b)))) = Inr (st, b')"
    by (auto simp: finish_build_def and_then_Inr split del: if_split)
  note h = reviews_ran [OF rs assms(2), simplified]
  have n: "ran no_evidence (review_cost c) {} b b1"
    using ran_weaken [of review_event "review_cost c" "{}" b b1 no_evidence] h no_evidence_events(3)
    by (simp add: review_cost_def)
  show ?thesis
  proof (cases "\<not> g \<or> fs \<noteq> []")
    case True
    with r have b': "b' = persist_matrix ReviewBlocked b1" and st: "st \<noteq> Completed" by auto
    have "ran no_evidence (review_cost c + 1) {} b (persist_matrix ReviewBlocked b1)"
      by (rule ran_trans [OF n persist_ran])
    with st b' show ?thesis by (simp add: ended_def)
  next
    case False
    with r obtain rep b2 where d: "dispatch x (Evidence True (repairs b1)) b1 = Inr (rep, b2)"
      and b': "b' = persist_matrix CompletePhase b2" and st: "st = Completed"
      by (auto simp: and_then_Inr unless_cancelled_Inr)
    from n obtain es where es: "trace b1 = trace b @ es" "list_all no_evidence es" "length (seats_of es) \<le> review_cost c"
      by (auto simp: ran_def)
    from h False have g: "settled_suite (trace b1)" "review_passed SpecReview (trace b1)" "review_passed CodeReview (trace b1)"
      by simp_all
    have "ran (\<lambda>_. True) 1 {} b1 b2" by (rule dispatch_plain [OF d]) simp_all
    from ran_trans [OF ran_weaken [OF n, of "\<lambda>_. True" "review_cost c" "{}"] this]
    have hs: "honest b \<longrightarrow> honest b2" "status_of b2 = status_of b" by (auto simp: ran_def)
    have "trace b' = trace b @ es @ [SeatRan (Evidence True (repairs b')) rep]"
      using dispatch_ran(1,3) [OF d] es(1) b' by (simp add: persist_matrix_def)
    moreover have "(honest b \<longrightarrow> honest b') \<and> status_of b' = status_of b"
      using hs b' by (auto simp: persist_matrix_def honest_def)
    ultimately show ?thesis
      unfolding ended_def using st es(2,3) g es(1) by auto
  qed
qed

lemma ended_after: "ran no_evidence n {} b b1 \<Longrightarrow> ended m st b1 b' \<Longrightarrow> ended (n + m) st b b'"
proof -
  assume r: "ran no_evidence n {} b b1" and e: "ended m st b1 b'"
  from r obtain es1 where es1: "trace b1 = trace b @ es1" "list_all no_evidence es1" "length (seats_of es1) \<le> n"
    and h: "honest b \<longrightarrow> honest b1" "status_of b1 = status_of b" by (auto simp: ran_def)
  show ?thesis
  proof (cases "st = Completed")
    case True
    with e obtain es rep where es: "trace b' = trace b1 @ es @ [SeatRan (Evidence True (repairs b')) rep]"
      "list_all no_evidence es" "length (seats_of es) < m" "settled_suite (trace b1 @ es)"
      "review_passed SpecReview (trace b1 @ es)" "review_passed CodeReview (trace b1 @ es)"
      and h': "honest b1 \<longrightarrow> honest b'" "status_of b' = status_of b1"
      by (auto simp: ended_def)
    have "trace b' = trace b @ (es1 @ es) @ [SeatRan (Evidence True (repairs b')) rep]" using es(1) es1(1) by simp
    moreover have "list_all no_evidence (es1 @ es)" "length (seats_of (es1 @ es)) < n + m"
      using es1(2,3) es(2,3) by simp_all
    ultimately have "\<exists>es r. trace b' = trace b @ es @ [SeatRan (Evidence True (repairs b')) r] \<and> list_all no_evidence es \<and>
        length (seats_of es) < n + m \<and> settled_suite (trace b @ es) \<and>
        review_passed SpecReview (trace b @ es) \<and> review_passed CodeReview (trace b @ es)"
      using es(4-6) es1(1) by (intro exI [of _ "es1 @ es"] exI [of _ rep]) simp
    with True h h' show ?thesis by (simp add: ended_def)
  next
    case False
    with e ran_trans [OF r] show ?thesis by (simp add: ended_def)
  qed
qed

lemma incomplete_ran: "incomplete_task_ids x ts b = (ids, b') \<Longrightarrow> ran A 0 I b b'"
proof (induction ts arbitrary: b ids)
  case (Cons t ts)
  show ?case
  proof (cases "task_test t = [] \<or> (\<exists>h. run_single_test x (task_test t) b = Inl h)")
    case True
    with Cons.prems have "incomplete_task_ids x ts b = (ids, b')" by (auto split: if_splits)
    then show ?thesis by (rule Cons.IH)
  next
    case False
    then obtain r b1 where t: "run_single_test x (task_test t) b = Inr (r, b1)" "task_test t \<noteq> []"
      by (cases "run_single_test x (task_test t) b") auto
    with Cons.prems obtain ids1 where "incomplete_task_ids x ts b1 = (ids1, b')"
      by (auto split: prod.splits)
    from ran_trans [OF single_test_ran [OF t(1)] Cons.IH [OF this], of 0] show ?thesis by simp
  qed
qed simp

lemma integrate_ended:
  assumes "integrate_build x c ts b = Inr (st, b')"
  shows "ended (RUNAWAY_GUARD + review_cost c + 1) st b b'"
proof -
  let ?b0 = "b\<lparr>world := author_ux_test x (world b)\<rparr>"
  from assms obtain i0 i1 b1 i2 b2 where p: "integration_pass x ts i0 ?b0 = Inr (i1, b1)"
    and l: "integration_loop x c ts RUNAWAY_GUARD i1 b1 = Inr (i2, b2)"
    and r: "(if \<not> int_green i2
        then (let (ids, b) = incomplete_task_ids x ts (persist_matrix IntegrationPhase b2)
              in Inr (StalledIncomplete ids, persist_matrix StalledIncompletePhase b))
        else and_then (unless_cancelled x (persist_matrix IntegrationPhase b2)) (finish_build x c)) = Inr (st, b')"
    by (auto simp: integrate_build_def and_then_Inr unless_cancelled_Inr Let_def split del: if_split)
  have "ran integration_event 0 {} b ?b0" by (rule ran_silent) simp_all
  from ran_trans [OF ran_trans [OF this pass_ran(2) [OF p]] conjunct1 [OF integration_ran [OF l]]]
  have "ran integration_event RUNAWAY_GUARD {} b b2" by simp
  from ran_trans [OF this persist_ran [of _ 0]]
  have "ran integration_event RUNAWAY_GUARD {} b (persist_matrix IntegrationPhase b2)" by simp
  then have b3: "ran no_evidence RUNAWAY_GUARD {} b (persist_matrix IntegrationPhase b2)"
    by (rule ran_weaken) (simp_all add: no_evidence_events(2))
  from integration_ran [OF l, of "{}"] pass_ran(1) [OF p] obtain pre where
    last: "trace (persist_matrix IntegrationPhase b2) = pre @ [SuiteChecked (int_green i2)]"
    by (auto simp: persist_matrix_def)
  show ?thesis
  proof (cases "int_green i2")
    case True
    with r have f: "finish_build x c (persist_matrix IntegrationPhase b2) = Inr (st, b')"
      by (auto simp: and_then_Inr unless_cancelled_Inr)
    have "settled_suite (trace (persist_matrix IntegrationPhase b2))" using last True settled_check by simp
    from ended_after [OF b3 finish_ended [OF f this]] show ?thesis by (simp add: add.assoc)
  next
    case False
    with r obtain ids b4 where i: "incomplete_task_ids x ts (persist_matrix IntegrationPhase b2) = (ids, b4)"
      and st: "st = StalledIncomplete ids" "b' = persist_matrix StalledIncompletePhase b4"
      by (auto split: prod.splits)
    from ran_trans [OF b3 ran_trans [OF incomplete_ran [OF i] persist_ran [of _ 0]]]
    have "ran no_evidence RUNAWAY_GUARD {} b b'" using st by simp
    with ran_weaken [OF this, of no_evidence "RUNAWAY_GUARD + review_cost c + 1" "{}"] st show ?thesis
      by (simp add: ended_def)
  qed
qed

text \<open>The bound on the agents of a build: every task its full cost, then integration, reviews, evidence.\<close>

definition build_cost :: "build_config \<Rightarrow> task list \<Rightarrow> nat" where
  "build_cost c ts = length ts * task_cost c + RUNAWAY_GUARD + review_cost c + 1"

lemma start_simps [simp]: "trace (start_build ts w) = []" "honest (start_build ts w)"
  by (simp_all add: start_build_def honest_def)

lemma new_matrix_get: "dict_get (new_matrix ts) i = (if i \<in> task_id ` set ts then Some new_row else None)"
proof -
  have "dict_get (foldl (\<lambda>m t. dict_set m (task_id t) new_row) m ts) i =
      (if i \<in> task_id ` set ts then Some new_row else dict_get m i)" for m
    by (induction ts arbitrary: m) auto
  then show ?thesis by (simp add: new_matrix_def)
qed

lemma start_known: "\<forall>t \<in> set ts. status_of (start_build ts w) (task_id t) \<noteq> None"
  by (simp add: status_of_def start_build_def new_matrix_get)

lemma no_red_rows: "ids_with_status (rows b) {Failed, BlockedRow} = [] \<Longrightarrow> \<not> red_status (status_of b i)"
  by (auto simp: ids_with_status_def filter_empty_conv red_status_def status_of_def dict_get_def dest!: map_of_SomeD)

lemma evidence_in: "list_all no_evidence es \<Longrightarrow> \<not> list_ex is_evidence es"
  by (auto simp: no_evidence_def list_all_iff list_ex_iff)

text \<open>A run that gets past its tasks.\<close>

lemma run_cases:
  assumes "run_subagent_driven_build x c ts w = Inr (st, b)"
  obtains "st = PreflightError" "trace b = []" "honest b"
  | b0 b1 where "b0 = start_build ts (prepare_workspace x w)"
      "build_tasks x c (list_ex (\<lambda>t. task_test t \<noteq> []) ts) ts b0 = Inr b1"
      "ran (\<lambda>e. \<exists>t \<in> set ts. task_event (task_id t) e) (length ts * task_cost c) (task_id ` set ts) b0 b1"
      "\<forall>t \<in> set ts. settled_status (status_of b1 (task_id t))"
      "ended (RUNAWAY_GUARD + review_cost c + 1) st b1 b"
      "st = Completed \<longrightarrow> (\<forall>i. \<not> red_status (status_of b1 i))"
      "trace b1 = trace b \<or> (\<forall>i. \<not> red_status (status_of b1 i))"
proof -
  let ?b0 = "start_build ts (prepare_workspace x w)"
  show thesis
  proof (cases "readiness_problems x (world ?b0) = []")
    case False
    with assms have "st = PreflightError" "b = ?b0" by (auto simp: run_subagent_driven_build_def Let_def)
    with that(1) show thesis by simp
  next
    case True
    with assms obtain b1 where t: "build_tasks x c (list_ex (\<lambda>t. task_test t \<noteq> []) ts) ts ?b0 = Inr b1"
      and r: "(if ids_with_status (rows b1) {Failed, BlockedRow} \<noteq> []
        then (let red = sorted_list_of_set (set (ids_with_status (rows b1) {Failed, BlockedRow}))
          in and_then (whole_build_passing x ts (persist_matrix StoppedRed b1)) (\<lambda>(_, b). Inr (StalledIncomplete red, b)))
        else integrate_build x c ts b1) = Inr (st, b)"
      by (auto simp: run_subagent_driven_build_def Let_def and_then_Inr split del: if_split)
    note h = tasks_ran [OF t start_known]
    let ?n = "RUNAWAY_GUARD + review_cost c + 1"
    have "ended ?n st b1 b \<and> (st = Completed \<longrightarrow> (\<forall>i. \<not> red_status (status_of b1 i))) \<and>
        (trace b1 = trace b \<or> (\<forall>i. \<not> red_status (status_of b1 i)))"
    proof (cases "ids_with_status (rows b1) {Failed, BlockedRow} = []")
      case True
      with r have "integrate_build x c ts b1 = Inr (st, b)" by simp
      from integrate_ended [OF this] no_red_rows [OF True] show ?thesis by simp
    next
      case False
      with r obtain ps where w: "whole_build_passing x ts (persist_matrix StoppedRed b1) = Inr (ps, b)"
        and st: "st \<noteq> Completed" by (auto simp: Let_def and_then_Inr)
      have "ran no_evidence (0 + 0) {} b1 b" by (rule ran_trans [OF persist_ran whole_ran [OF w]])
      then have "ran no_evidence ?n {} b1 b" by (rule ran_weaken) simp_all
      moreover have "trace b = trace b1"
        using ran_no_events [OF whole_ran [OF w]] by (simp add: persist_matrix_def)
      ultimately show ?thesis using st by (simp add: ended_def)
    qed
    with that(2) [OF refl t] h show thesis by blast
  qed
qed

lemma build_is_honest: "run_subagent_driven_build x c ts w = Inr (st, b) \<Longrightarrow> honest b"
  by (erule run_cases) (auto simp: ran_def ended_def split: if_splits)

lemma build_is_bounded:
  assumes "run_subagent_driven_build x c ts w = Inr (st, b)"
  shows "length (seats_of (trace b)) \<le> build_cost c ts"
  using assms
proof (cases rule: run_cases)
  case (2 b0 b1)
  then obtain es1 where es1: "trace b1 = es1" "length (seats_of es1) \<le> length ts * task_cost c"
    by (auto simp: ran_def)
  from 2 obtain es2 where "trace b = trace b1 @ es2" "length (seats_of es2) \<le> RUNAWAY_GUARD + review_cost c + 1"
    by (auto simp: ended_def ran_def split: if_splits)
  with es1 show ?thesis by (simp add: build_cost_def)
qed simp

lemma completed_build:
  assumes "run_subagent_driven_build x c ts w = Inr (Completed, b)"
  obtains es r where "trace b = es @ [SeatRan (Evidence True (repairs b)) r]" "list_all no_evidence es"
    "settled_suite es" "review_passed SpecReview es" "review_passed CodeReview es"
    "\<forall>t \<in> set ts. status_of b (task_id t) \<in> {Some Green, Some PreExistingGreen, Some DraftedNoTest}"
proof (cases rule: run_cases [OF assms])
  case 1
  then show thesis by simp
next
  case (2 b0 b1)
  then obtain es1 where es1: "trace b1 = es1" "list_all (\<lambda>e. \<exists>t \<in> set ts. task_event (task_id t) e) es1"
    by (auto simp: ran_def)
  then have n1: "list_all no_evidence es1"
    by (auto elim!: list.pred_mono_strong intro: no_evidence_events)
  from 2 es1 obtain es r where es: "trace b = es1 @ es @ [SeatRan (Evidence True (repairs b)) r]" "list_all no_evidence es"
    "settled_suite (es1 @ es)" "review_passed SpecReview (es1 @ es)" "review_passed CodeReview (es1 @ es)"
    "status_of b = status_of b1"
    by (auto simp: ended_def)
  have "status_of b (task_id t) \<in> {Some Green, Some PreExistingGreen, Some DraftedNoTest}" if "t \<in> set ts" for t
  proof -
    from 2 that es(6) have "settled_status (status_of b (task_id t))" "\<not> red_status (status_of b (task_id t))"
      by simp_all
    then obtain s where "status_of b (task_id t) = Some s" "s \<noteq> Pending" "s \<notin> {Failed, BlockedRow}"
      by (auto simp: settled_status_def red_status_def)
    then show ?thesis by (cases s) simp_all
  qed
  with that [of "es1 @ es" r] es n1 show thesis by simp
qed

lemma evidence_iff:
  assumes "run_subagent_driven_build x c ts w = Inr (st, b)"
  shows "list_ex is_evidence (trace b) \<longleftrightarrow> st = Completed"
  using assms
proof (cases rule: run_cases)
  case (2 b0 b1)
  then obtain es1 where es1: "trace b1 = es1" "list_all (\<lambda>e. \<exists>t \<in> set ts. task_event (task_id t) e) es1"
    by (auto simp: ran_def)
  then have n1: "list_all no_evidence es1"
    by (auto elim!: list.pred_mono_strong intro: no_evidence_events)
  show ?thesis
  proof (cases "st = Completed")
    case True
    with assms obtain es r where "trace b = es @ [SeatRan (Evidence True (repairs b)) r]" by (auto elim: completed_build)
    with True show ?thesis by (auto simp: is_evidence_def)
  next
    case False
    with 2 obtain es where "trace b = trace b1 @ es" "list_all no_evidence es" by (auto simp: ended_def ran_def)
    with False n1 es1 show ?thesis by (simp add: evidence_in)
  qed
qed simp

definition demo_task :: "string \<Rightarrow> string list \<Rightarrow> task" where
  "demo_task i ds = \<lparr>task_id = i, task_files = [], task_test = ''t/'' @ i, task_deps = ds\<rparr>"

text \<open>A workspace that counts the agents that worked in it: every test passes once one did.\<close>

definition demo_seats :: "nat seats" where
  "demo_seats =
     \<lparr>run_seat = (\<lambda>s w. (Inr (''VERDICT: PASS'', None), Suc w)),
      validate_plan = (\<lambda>w. (Validated True True [], w)),
      exec_test = (\<lambda>t w. (Ran (Exited (if w = 0 then 1 else 0) [] []), w)),
      test_report = (\<lambda>t w. (None, w)), suite_report = (\<lambda>ts w. (None, w)), runner_kind = [],
      json_loads = (\<lambda>s. None), digest_errors = (\<lambda>a b. ''FAIL''), read_test = (\<lambda>t w. ''x''),
      is_vacuous_test = (\<lambda>s. False), test_broken = (\<lambda>s e. False), dod_violations = (\<lambda>t w. []),
      is_cancelled = (\<lambda>w. False), readiness_problems = (\<lambda>w. []), prepare_workspace = (\<lambda>w. w),
      author_ux_test = (\<lambda>w. w), error_sig = (\<lambda>s. 0)\<rparr>"

definition demo_build_config :: build_config where
  "demo_build_config = \<lparr>cfg_stall_rounds = 3, cfg_fix_cycles = 3, second_model = False\<rparr>"

lemma demo_completes:
  "case run_subagent_driven_build demo_seats demo_build_config [demo_task ''T1'' []] 0 of
     Inr (Completed, b) \<Rightarrow> length (trace b) = 5 | _ \<Rightarrow> False"
  by code_simp

text \<open>C3: a Gate 4 build that reports completion earned it. Its last event is the one evidence pass, run with the
  repair counts it reports; no agent that may write ran between the last green check of the whole suite and
  that pass; the last report of each of the two independent reviewers is a PASS; and every task of the plan is
  green, was green before, or is drafted without a test. A build that returns in any other way ran no evidence
  pass. Both are about builds that return a status: one that ends by an exception
  is not covered, and may end in the evidence pass itself.\<close>

theorem completed_build_is_reviewed:
  assumes "run_subagent_driven_build x c ts w = Inr (st, b)"
  shows "(list_ex is_evidence (trace b) \<longleftrightarrow> st = Completed) \<and>
    (st = Completed \<longrightarrow>
      (\<exists>es r. trace b = es @ [SeatRan (Evidence True (repairs b)) r] \<and> \<not> list_ex is_evidence es \<and>
        settled_suite es \<and> review_passed SpecReview es \<and> review_passed CodeReview es) \<and>
      (\<forall>t \<in> set ts. status_of b (task_id t) \<in> {Some Green, Some PreExistingGreen, Some DraftedNoTest}))"
  using evidence_iff [OF assms] assms by (blast elim: completed_build dest: evidence_in)

lemma demo_run:
  "\<exists>b. run_subagent_driven_build demo_seats demo_build_config [demo_task ''T1'' []] 0 = Inr (Completed, b) \<and>
     length (trace b) = 5"
  using demo_completes by (auto split: sum.splits prod.splits build_status.splits)

theorem completed_build_is_reviewed_witness:
  "\<exists>b. run_subagent_driven_build demo_seats demo_build_config [demo_task ''T1'' []] 0 = Inr (Completed, b) \<and>
     list_ex is_evidence (trace b) \<and> status_of b ''T1'' \<in> {Some Green, Some PreExistingGreen, Some DraftedNoTest}"
proof -
  obtain b where b: "run_subagent_driven_build demo_seats demo_build_config [demo_task ''T1'' []] 0 = Inr (Completed, b)"
    using demo_run by blast
  from completed_build_is_reviewed [OF b] b show ?thesis by (auto simp: demo_task_def)
qed

text \<open>C16: a build always stops and its spend is bounded: whatever the agents answer, it dispatches at most the
  draft, \<open>RUNAWAY_GUARD\<close> fixers, the Definition-of-Done fixers and one arbiter per task, \<open>RUNAWAY_GUARD\<close>
  integration fixers, and the bounded reviews.\<close>

theorem build_dispatches_bounded:
  assumes "run_subagent_driven_build x c ts w = Inr (st, b)"
  shows "length (seats_of (trace b)) \<le>
    length ts * (1002 + max 1 (cfg_fix_cycles c)) + 1000 + 2 * (2 * max 1 (cfg_fix_cycles c) + 1) + 1"
  using build_is_bounded [OF assms] by (simp add: build_cost_def task_cost_def review_cost_def RUNAWAY_GUARD_def)

theorem build_dispatches_bounded_witness:
  "\<exists>b. run_subagent_driven_build demo_seats demo_build_config [demo_task ''T1'' []] 0 = Inr (Completed, b) \<and>
     length (seats_of (trace b)) \<le> 2020"
proof -
  obtain b where b: "run_subagent_driven_build demo_seats demo_build_config [demo_task ''T1'' []] 0 = Inr (Completed, b)"
    using demo_run by blast
  from build_dispatches_bounded [OF b] b show ?thesis by (simp add: demo_build_config_def)
qed

text \<open>The repair metrics of a build are honest: the reported calls are the agents that ran, and the repairs of
  each phase are exactly the fixers dispatched in that phase.\<close>

theorem repair_metrics_are_honest:
  assumes "run_subagent_driven_build x c ts w = Inr (st, b)"
  shows "calls b = length (seats_of (trace b)) \<and>
    repairs b = \<lparr>per_task = fixer_runs 0 (trace b), integration = fixer_runs 1 (trace b), review = fixer_runs 2 (trace b)\<rparr>"
  using build_is_honest [OF assms] by (simp add: honest_def)

theorem repair_metrics_are_honest_witness:
  "\<exists>b. run_subagent_driven_build demo_seats demo_build_config [demo_task ''T1'' []] 0 = Inr (Completed, b) \<and>
     calls b = length (seats_of (trace b))"
proof -
  obtain b where b: "run_subagent_driven_build demo_seats demo_build_config [demo_task ''T1'' []] 0 = Inr (Completed, b)"
    using demo_run by blast
  from repair_metrics_are_honest [OF b] b show ?thesis by blast
qed

lemma prerequisites:
  assumes "run_subagent_driven_build x c ts w = Inr (st, b)" and "distinct (map task_id ts)"
    and "k < length ts" and "list_ex (task_event (task_id (ts ! k))) (trace b)"
  shows "status_of b (task_id (ts ! k)) \<noteq> Some BlockedRow \<and>
    (\<forall>j < k. task_id (ts ! j) \<in> set (task_deps (ts ! k)) \<longrightarrow> \<not> red_status (status_of b (task_id (ts ! j))))"
proof (cases rule: run_cases [OF assms(1)])
  case 1
  with assms(4) show ?thesis by simp
next
  case (2 b0 b1)
  have s: "status_of b = status_of b1" using 2 by (auto simp: ended_def ran_def split: if_splits)
  show ?thesis
  proof (cases "trace b1 = trace b")
    case True
    have "trace b1 = trace b0 @ trace b" using True 2 by simp
    moreover have "\<forall>t \<in> set ts. status_of b0 (task_id t) \<noteq> None" unfolding 2(1) by (rule start_known)
    ultimately have d: "status_of b1 (task_id (ts ! k)) \<noteq> Some BlockedRow"
      "\<forall>d \<in> set (task_deps (ts ! k)). d \<notin> task_id ` set (drop k ts) \<longrightarrow> \<not> red_status (status_of b1 d)"
      using tasks_deps [OF 2(2) assms(2) _ _ assms(3,4)] by auto
    have "task_id (ts ! j) \<notin> task_id ` set (drop k ts)" if "j < k" for j
    proof
      assume "task_id (ts ! j) \<in> task_id ` set (drop k ts)"
      then obtain i where i: "i < length ts - k" "task_id (ts ! j) = task_id (ts ! (k + i))"
        using assms(3) by (auto simp: in_set_conv_nth)
      moreover have "k + i < length ts" using i(1) by linarith
      ultimately show False using nth_eq_iff_index_eq [OF assms(2), of j "k + i"] that assms(3) by simp
    qed
    with d s show ?thesis by auto
  next
    case False
    with 2(7) s show ?thesis by (auto simp: red_status_def)
  qed
qed

text \<open>C28: no agent is paid to build on a red prerequisite. In a plan with distinct ids, a task that any agent worked
  on did not end blocked, and none of its prerequisites that come before it in the plan ended failed or
  blocked.\<close>

theorem no_work_on_red_prerequisites:
  assumes "run_subagent_driven_build x c ts w = Inr (st, b)" and "distinct (map task_id ts)"
    and "k < length ts" and "list_ex (task_event (task_id (ts ! k))) (trace b)"
  shows "status_of b (task_id (ts ! k)) \<noteq> Some BlockedRow \<and>
    (\<forall>j < k. task_id (ts ! j) \<in> set (task_deps (ts ! k)) \<longrightarrow> \<not> red_status (status_of b (task_id (ts ! j))))"
  using assms by (rule prerequisites)

lemma task_event_seats: "list_ex (task_event i) es \<longleftrightarrow> Some i \<in> set (map seat_task (seats_of es))"
proof (induction es)
  case (Cons e es)
  then show ?case by (cases e) (auto simp: task_event_def)
qed simp

definition demo_plan :: "task list" where
  "demo_plan = [(demo_task ''T1'' [])\<lparr>task_test := []\<rparr>, (demo_task ''T2'' [''T1''])\<lparr>task_test := []\<rparr>]"

lemma demo_plan_runs:
  "case run_subagent_driven_build demo_seats demo_build_config demo_plan 0 of
     Inr (Completed, b) \<Rightarrow> Some ''T2'' \<in> set (map seat_task (seats_of (trace b))) | _ \<Rightarrow> False"
  by code_simp

theorem no_work_on_red_prerequisites_witness:
  "\<exists>b. run_subagent_driven_build demo_seats demo_build_config demo_plan 0 = Inr (Completed, b) \<and>
     \<not> red_status (status_of b ''T1'')"
proof -
  obtain b where b: "run_subagent_driven_build demo_seats demo_build_config demo_plan 0 = Inr (Completed, b)"
    and e: "list_ex (task_event ''T2'') (trace b)"
    using demo_plan_runs by (auto simp: task_event_seats split: sum.splits prod.splits build_status.splits)
  have "distinct (map task_id demo_plan)" "1 < length demo_plan" "task_id (demo_plan ! 1) = ''T2''"
    "task_deps (demo_plan ! 1) = [''T1'']" "task_id (demo_plan ! 0) = ''T1''"
    by (simp_all add: demo_plan_def demo_task_def)
  with no_work_on_red_prerequisites [OF b, of 1] e b show ?thesis by auto
qed

text \<open>A prerequisite that comes later in the plan does not block: its row is still pending.\<close>

lemma later_prerequisite_builds:
  assumes "\<forall>d \<in> set (task_deps t). status_of b d = Some Pending" and "\<not> is_cancelled x (world b)"
    and "task_test t = []" and "run_seat x (Implementer (task_id t)) (world b) = (Inr (r, oc), w)"
  shows "\<exists>b'. build_task x c False t b = Inr b' \<and> trace b' = trace b @ [SeatRan (Implementer (task_id t)) r]"
proof -
  have "failed_or_blocked (rows b) (task_deps t) = []" using assms(1) by (simp add: failed_or_blocked_nil red_status_def)
  with assms(2-4) show ?thesis
    by (simp add: build_task_def dispatch_def Let_def set_status_def bump_attempts_def)
qed

text \<open>Before it builds, a task reads the exit code of its test alone, so a runner that collects no case and
  exits with 0 leaves the task unbuilt and green; the structured check of the same run refuses it.\<close>

lemma empty_run_counts_as_green:
  assumes "task_deps t = []" and "\<not> is_cancelled x (world b)" and "task_test t \<noteq> []"
    and "exec_test x (task_test t) (world b) = (Ran (Exited 0 out err), w)"
  shows "build_task x c pd t b = Inr (set_status (task_id t) PreExistingGreen (b\<lparr>world := w\<rparr>))"
    and "parse_structured_cases loads kind out err = Some ({}, {}, 0) \<Longrightarrow>
      structured_result loads digest kind (Exited 0 out err) =
        Inr (Some \<lparr>cr_green = False, cr_passing = {}, cr_total = 0, cr_errors = digest out err\<rparr>)"
  using assms by (simp_all add: build_task_def failed_or_blocked_def run_single_test_def structured_result_def Let_def)

end
