(* ===== verification/RepairLoop.thy ===== *)
theory RepairLoop
  imports Budgets Validation AuditChain
begin

section \<open>The repair loop (\<open>product/repair_loop.py\<close>)\<close>

text \<open>
  The bounded validate, repair, validate again loop around a build: what a failure is about, the
  repair packet of a cycle with the generation restricted to the failing files, the addition of
  missing development dependencies to \<open>package.json\<close>, and the loop in all its modes. The executor
  that repairs, the validation and the installer are parameters that act on the product; the
  clock and the run identifier are values. Failures are the values of the JSON document that the
  validation returns: dictionaries, or plain text.
\<close>

subsection \<open>Failures\<close>

definition TYPE_CONTRACT_CODES :: "string list" where
  "TYPE_CONTRACT_CODES = [''TS2339'', ''TS2551'', ''TS2353'', ''TS2741'', ''TS2322'']"

definition KNOWN_DEV_DEPENDENCIES :: "(string \<times> string) list" where
  "KNOWN_DEV_DEPENDENCIES =
     [(''@testing-library/user-event'', ''^14.5.2''), (''@testing-library/jest-dom'', ''^6.4.2''),
      (''@testing-library/react'', ''^16.0.1''), (''@testing-library/dom'', ''^10.4.0''),
      (''@types/testing-library__jest-dom'', ''^6.0.0''), (''jsdom'', ''^25.0.1'')]"

definition SYNTAX_ERROR_CODES :: "string list" where
  "SYNTAX_ERROR_CODES =
     [''TS1005'', ''TS1003'', ''TS1109'', ''TS1128'', ''TS1136'', ''TS1381'', ''TS1382'', ''TS17002'']"

type_synonym dict = "(string \<times> py) list"

definition error_code :: "py \<Rightarrow> string" where
  "error_code f = (case f of PDict d \<Rightarrow> upper (or_empty_str (get_py d ''code'')) | _ \<Rightarrow> [])"

definition is_type_contract_failure :: "py \<Rightarrow> bool" where
  "is_type_contract_failure f \<longleftrightarrow> error_code f \<in> set TYPE_CONTRACT_CODES"

definition is_valid :: "dict \<Rightarrow> bool" where
  "is_valid v \<longleftrightarrow> truthy (get_py v ''valid'') \<or> truthy (get_py v ''can_close_delivery'')"

definition failures_from :: "dict \<Rightarrow> py list" where
  "failures_from v = py_items (get_py v ''violations'')"

definition fwd :: "string \<Rightarrow> string" where
  "fwd = replace_char (CHR 0x5C) (CHR ''/'')"

definition failure_file :: "py \<Rightarrow> string option" where
  "failure_file f =
     (case f of
        PDict d \<Rightarrow> if truthy (get_py d ''file'') then Some (fwd (py_str (get_py d ''file''))) else None
      | _ \<Rightarrow> None)"

definition normalize_error :: "py \<Rightarrow> dict" where
  "normalize_error f =
     (case f of
        PDict d \<Rightarrow> [(''file'', get_py d ''file''), (''line'', get_py d ''line''), (''col'', get_py d ''col''),
                     (''code'', get_py d ''code''), (''message'', get_or d ''message'' (PStr []))]
      | _ \<Rightarrow> [(''file'', PNone), (''line'', PNone), (''col'', PNone), (''code'', PNone), (''message'', PStr (py_str f))])"

text \<open>The first match of a pattern \<open><head>['"]([^'"]+)['"]\<close>: the group it captures.\<close>

definition is_quote :: "char \<Rightarrow> bool" where
  "is_quote c \<longleftrightarrow> c = CHR 0x27 \<or> c = CHR 0x22"

definition quoted_name :: "string \<Rightarrow> string option" where
  "quoted_name s =
     (if s = [] \<or> \<not> is_quote (hd s) then None
      else (let name = takeWhile (\<lambda>c. \<not> is_quote c) (tl s)
            in if name = [] \<or> length (tl s) = length name then None else Some name))"

fun module_named :: "string list \<Rightarrow> string \<Rightarrow> string option" where
  "module_named heads [] = None"
| "module_named heads (c # cs) =
     (case List.find (\<lambda>h. startswith (c # cs) h \<and> quoted_name (drop (length h) (c # cs)) \<noteq> None) heads of
        Some h \<Rightarrow> quoted_name (drop (length h) (c # cs))
      | None \<Rightarrow> module_named heads cs)"

definition missing_module_name :: "py \<Rightarrow> string option" where
  "missing_module_name f =
     (case f of
        PDict d \<Rightarrow>
          if error_code f \<noteq> ''TS2307'' then None
          else module_named [''Cannot find module ''] (or_empty_str (get_py d ''message''))
      | _ \<Rightarrow> None)"

definition known_dep :: "py \<Rightarrow> string option" where
  "known_dep f =
     (case missing_module_name f of
        Some m \<Rightarrow> if dict_get KNOWN_DEV_DEPENDENCIES m = None then None else Some m
      | None \<Rightarrow> None)"

definition add_once :: "'a list \<Rightarrow> 'a \<Rightarrow> 'a list" where
  "add_once xs x = (if x \<in> set xs then xs else xs @ [x])"

definition known_missing_devdeps :: "py list \<Rightarrow> string list" where
  "known_missing_devdeps fs = foldl add_once [] (List.map_filter known_dep fs)"

definition nondep_failures :: "py list \<Rightarrow> py list" where
  "nondep_failures fs = filter (\<lambda>f. known_dep f = None) fs"

definition FORBIDDEN_MARKERS :: "string list" where
  "FORBIDDEN_MARKERS =
     [''forbidden path'', ''forbidden action'', ''in forbidden paths'', ''not within allowed paths'',
      ''outside allowed paths'', ''.signalos'', ''.git'', ''.env'', ''.pem'', ''.key'']"

definition failure_text :: "py \<Rightarrow> string" where
  "failure_text f =
     (case f of
        PDict d \<Rightarrow> join '' '' (map (\<lambda>k. py_str (get_or d k (PStr []))) [''file'', ''message'', ''code''])
      | _ \<Rightarrow> py_str f)"

definition has_forbidden_failure :: "py list \<Rightarrow> bool" where
  "has_forbidden_failure fs \<longleftrightarrow>
     list_ex (\<lambda>f. list_ex (\<lambda>m. occurs_in m (lower (failure_text f))) FORBIDDEN_MARKERS) fs"

subsection \<open>Development dependencies\<close>

datatype repair_error = BudgetError budget_error | PackageNotAnObject

record 'w product =
  package_json :: "json_file option"
  sources :: "string \<rightharpoonup> string"
  elsewhere :: 'w

definition add_missing :: "string list \<Rightarrow> dict \<Rightarrow> string list \<times> dict" where
  "add_missing names dev =
     foldl (\<lambda>(added, dev) n.
         if dict_get dev n \<noteq> None then (added, dev)
         else (added @ [n], dict_set dev n (PStr (case dict_get KNOWN_DEV_DEPENDENCIES n of Some v \<Rightarrow> v | None \<Rightarrow> []))))
       ([], dev) names"

definition add_dev_dependencies ::
  "bool \<Rightarrow> string list \<Rightarrow> 'w product \<Rightarrow> repair_error + string list \<times> 'w product" where
  "add_dev_dependencies funded names p =
     (if funded then Inr ([], p)
      else
        (case package_json p of
           None \<Rightarrow> Inr ([], p)
         | Some Garbled \<Rightarrow> Inr ([], p)
         | Some (Json (PDict pkg)) \<Rightarrow>
             (case get_or pkg ''devDependencies'' (PDict []) of
                PDict dev \<Rightarrow>
                  (let (added, dev') = add_missing names dev
                   in if added = [] then Inr ([], p)
                      else Inr (added, p\<lparr>package_json := Some (Json (PDict (dict_set pkg ''devDependencies'' (PDict dev'))))\<rparr>))
              | _ \<Rightarrow> Inr ([], p))
         | Some (Json _) \<Rightarrow> Inl PackageNotAnObject))"

subsection \<open>The generation of a repair\<close>

text \<open>The specifications of a generation packet are dictionaries.\<close>

definition as_dict :: "py \<Rightarrow> dict" where
  "as_dict v = (case v of PDict d \<Rightarrow> d | _ \<Rightarrow> [])"

definition file_specs :: "dict \<Rightarrow> dict list" where
  "file_specs gen = map as_dict (py_items (get_py gen ''file_specs''))"

definition spec_path :: "dict \<Rightarrow> string" where
  "spec_path s = fwd (py_str (get_py s ''path''))"

definition specs_by_path :: "dict list \<Rightarrow> (string \<times> dict) list" where
  "specs_by_path specs =
     foldl (\<lambda>m s. if truthy (get_py s ''path'') then dict_set m (spec_path s) s else m) [] specs"

definition group_errors :: "(string \<times> dict) list \<Rightarrow> py list \<Rightarrow> (string \<times> dict list) list" where
  "group_errors by_path fs =
     foldl (\<lambda>m f.
         case failure_file f of
           None \<Rightarrow> m
         | Some p \<Rightarrow>
             if dict_get by_path p = None then m
             else dict_set m p ((case dict_get m p of None \<Rightarrow> [] | Some es \<Rightarrow> es) @ [normalize_error f]))
       [] fs"

definition diagnostic :: "string \<Rightarrow> string \<Rightarrow> string \<Rightarrow> string \<Rightarrow> dict" where
  "diagnostic path code msg source =
     [(''file'', PStr path), (''line'', PNone), (''col'', PNone), (''code'', PStr code), (''message'', PStr msg),
      (''source'', PStr source)]"

definition JS_SUFFIXES :: "string list" where
  "JS_SUFFIXES = [''.ts'', ''.tsx'', ''.js'', ''.jsx'', ''.mts'', ''.cts'']"

definition balance_enrichment :: "(string \<rightharpoonup> string) \<Rightarrow> string \<Rightarrow> dict list \<Rightarrow> dict option" where
  "balance_enrichment src path errs =
     (if \<not> list_ex (\<lambda>e. upper (or_empty_str (get_py e ''code'')) \<in> set SYNTAX_ERROR_CODES) errs then None
      else if \<not> list_ex (\<lambda>x. endswith path x) JS_SUFFIXES then None
      else
        (case src path of
           None \<Rightarrow> None
         | Some txt \<Rightarrow>
             (let r = analyze_delimiter_balance txt in
              if balanced r \<or> hint r = [] then None
              else Some (diagnostic path ''BALANCE''
                     (''Delimiter-balance check (deterministic): '' @ hint r @
                      ''. tsc's reported column is often downstream of the real imbalance -- re-emit the ENTIRE file with every (), {}, and [] correctly matched; do not just edit near the tsc line.'')
                     ''signalos-balance''))))"

definition phantom_modules :: "dict list \<Rightarrow> string list" where
  "phantom_modules errs =
     foldl add_once [] (List.map_filter (\<lambda>e.
         let msg = or_empty_str (get_py e ''message'') in
         if upper (or_empty_str (get_py e ''code'')) = ''TS2307'' \<or> occurs_in ''cannot find module'' (lower msg)
         then module_named [''Cannot find module '', ''cannot find module ''] msg else None) errs)"

definition ticked :: "string list \<Rightarrow> string" where
  "ticked ps = join '', '' (map (\<lambda>p. ''`'' @ p @ ''`'') ps)"

definition import_drift_enrichment :: "string \<Rightarrow> dict list \<Rightarrow> dict \<Rightarrow> dict option" where
  "import_drift_enrichment path errs gen =
     (let phantom = phantom_modules errs;
          manifest = map as_dict (py_items (get_py gen ''component_manifest''));
          allowed = map (\<lambda>m. py_str (get_py m ''importPath'')) (filter (\<lambda>m. truthy (get_py m ''importPath'')) manifest)
      in if phantom = [] then None
         else Some (diagnostic path ''IMPORT-DRIFT''
                (''These imported modules DO NOT EXIST: '' @ ticked phantom @
                 ''. Remove or correct each one. The ONLY local modules you may import are the generated components ('' @
                 (if allowed = [] then ''(none)'' else ticked allowed) @
                 '') and the shared types via `./types`. NEVER invent a `./store/*`, `./hooks/*`, `@/*`, or `../ui/*` path -- if you need a component's store, import it from THAT component's module listed above (e.g. `import Component, { useStore } from './Component'`), not a separate file.'')
                ''signalos-import-drift''))"

definition with_context :: "dict list \<Rightarrow> dict \<Rightarrow> dict" where
  "with_context errs s = dict_set s ''error_context'' (PList (map PDict errs))"

definition enriched :: "(string \<rightharpoonup> string) \<Rightarrow> dict \<Rightarrow> string \<Rightarrow> dict list \<Rightarrow> dict list" where
  "enriched src gen path errs =
     (let errs = errs @ (case balance_enrichment src path errs of None \<Rightarrow> [] | Some e \<Rightarrow> [e])
      in errs @ (case import_drift_enrichment path errs gen of None \<Rightarrow> [] | Some e \<Rightarrow> [e]))"

definition type_module_path :: "(string \<times> dict) list \<Rightarrow> string option" where
  "type_module_path by_path =
     List.find (\<lambda>p. endswith (fwd p) ''/types.ts'' \<or> fwd p = ''types.ts'' \<or> endswith (fwd p) ''/types.tsx'') (map fst by_path)"

definition failing_specs :: "(string \<rightharpoonup> string) \<Rightarrow> dict \<Rightarrow> py list \<Rightarrow> dict list" where
  "failing_specs src gen fs =
     (let by_path = specs_by_path (file_specs gen)
      in map (\<lambda>(p, errs). with_context (enriched src gen p errs) (the (dict_get by_path p))) (group_errors by_path fs))"

definition type_specs :: "dict \<Rightarrow> py list \<Rightarrow> dict list \<Rightarrow> dict list" where
  "type_specs gen fs filtered =
     (let by_path = specs_by_path (file_specs gen);
          contract = map normalize_error (filter is_type_contract_failure fs)
      in if contract = [] then []
         else
           (case type_module_path by_path of
              None \<Rightarrow> []
            | Some p \<Rightarrow>
                if p \<in> set (map spec_path filtered) then []
                else [with_context (map (\<lambda>e. dict_set e ''reconcile_contract'' (PBool True)) contract) (the (dict_get by_path p))]))"

definition build_filtered_generation :: "(string \<rightharpoonup> string) \<Rightarrow> dict \<Rightarrow> py list \<Rightarrow> dict" where
  "build_filtered_generation src gen fs =
     (let filtered = failing_specs src gen fs
      in if filtered = [] then gen
         else dict_set gen ''file_specs'' (PList (map PDict (filtered @ type_specs gen fs filtered))))"

subsection \<open>The repair packet\<close>

text \<open>\<open>json.dumps(..., indent=2)\<close>.\<close>

definition ascii_json_char :: "char \<Rightarrow> string" where
  "ascii_json_char c =
     (if of_char c < (127 :: nat) then json_char c
      else [CHR 0x5C, CHR ''u'', CHR ''0'', CHR ''0'', hex_digit (of_char c div 16), hex_digit (of_char c mod 16)])"

definition ascii_json_text :: "string \<Rightarrow> string" where
  "ascii_json_text s = CHR 0x22 # concat (map ascii_json_char s) @ [CHR 0x22]"

definition next_line :: "nat \<Rightarrow> string" where
  "next_line n = CHR 0x0A # replicate (2 * n) (CHR '' '')"

fun json_indent :: "nat \<Rightarrow> py \<Rightarrow> string" where
  "json_indent n PNone = ''null''"
| "json_indent n (PBool b) = (if b then ''true'' else ''false'')"
| "json_indent n (PInt i) = int_str i"
| "json_indent n (PStr s) = ascii_json_text s"
| "json_indent n (PList xs) =
     (if xs = [] then ''[]''
      else CHR ''['' # next_line (Suc n) @ join ('','' @ next_line (Suc n)) (map (json_indent (Suc n)) xs) @ next_line n @ '']'')"
| "json_indent n (PDict kvs) =
     (if kvs = [] then ''{}''
      else CHR ''{'' # next_line (Suc n) @
        join ('','' @ next_line (Suc n)) (map (\<lambda>kv. ascii_json_text (fst kv) @ '': '' @ json_indent (Suc n) (snd kv)) kvs) @
        next_line n @ ''}'')"

definition validation_logs :: "dict \<Rightarrow> string" where
  "validation_logs v =
     json_indent 0 (let checks = get_or v ''checks'' (PList [])
                    in if truthy checks then checks else get_or v ''blockers'' (PList []))"

definition repair_type :: "py list \<Rightarrow> string" where
  "repair_type fs = (if has_forbidden_failure fs then ''regenerate_from_clean_packet'' else ''repair_within_scope'')"

definition build_repair_packet ::
  "string \<Rightarrow> string \<Rightarrow> (string \<rightharpoonup> string) \<Rightarrow> nat \<Rightarrow> py list \<Rightarrow> string \<Rightarrow> dict \<Rightarrow> dict" where
  "build_repair_packet new_id now src cycle fs logs original =
     (let keep = (\<lambda>k x. (k, get_or original k x)) in
      [(''schema_version'', PStr ''signalos.repair_packet.v1''), keep ''run_id'' (PStr new_id),
       (''repair_cycle'', PInt (int cycle)), (''created_at'', PStr now), (''repair_type'', PStr (repair_type fs)),
       keep ''profile'' (PStr []), keep ''wave'' (PStr []), keep ''intent_summary'' (PDict []), keep ''tasks'' (PList []),
       keep ''success_criteria'' (PList []), keep ''evidence_required'' (PList []), keep ''forbidden_rules'' (PList []),
       keep ''repair_policy'' (PDict []), keep ''escalation_policy'' (PList []), keep ''source_policy'' (PDict []),
       keep ''allowed_paths'' (PList []), keep ''forbidden_paths'' (PList []), keep ''forbidden_actions'' (PList []),
       keep ''validation_commands'' (PList []), (''failures'', PList fs), (''validation_logs'', PStr logs),
       (''generation'', PDict (build_filtered_generation src (as_dict (get_py original ''generation'')) fs))])"

text \<open>The scope of the latest run, and the generation packet of the product when the scope has none.\<close>

definition load_dict :: "json_file option \<Rightarrow> dict" where
  "load_dict f = (case f of Some (Json v) \<Rightarrow> as_dict v | _ \<Rightarrow> [])"

definition original_packet :: "json_file option \<Rightarrow> json_file option \<Rightarrow> dict" where
  "original_packet scope generation =
     (let original = load_dict scope; gen = load_dict generation
      in if \<not> truthy (get_py original ''generation'') \<and> gen \<noteq> [] then dict_set original ''generation'' (PDict gen)
         else original)"

subsection \<open>The loop\<close>

datatype repair_action =
    SkippedAction
  | PacketCreated
  | NeedsGovernedDispatch
  | DependencyFrozen "string list"
  | AddedDependency "string list" py bool
  | DispatchFailed "py list" py
  | Dispatched "py list" py bool

record repair_entry =
  repair_cycle :: nat
  repair_failures :: "py list"
  repair_action :: repair_action

datatype repair_status =
    MaxCyclesReached
  | Repaired
  | ManualRepairNeeded
  | AwaitingAgent
  | AwaitingAgentLoop
  | DependencyFrozenStatus
  | DispatchFailedStatus

record repair_result =
  loop_status :: repair_status
  cycles_used :: nat
  max_cycles :: int
  loop_repairs :: "repair_entry list"
  final_validation :: dict

record 'w repair_hooks =
  dispatch_fn :: "(dict \<Rightarrow> 'w product \<Rightarrow> dict \<times> 'w product) option"
  chunked_dispatch :: "dict \<Rightarrow> 'w product \<Rightarrow> dict \<times> 'w product"
  validate_fn :: "'w product \<Rightarrow> dict \<times> 'w product"
  install_fn :: "'w product \<Rightarrow> dict \<times> 'w product"
  funded_mode :: bool
  new_run_id :: string
  created_at :: string

text \<open>The packets written below the run directory are kept beside the product.\<close>

record 'w repair_state =
  product :: "'w product"
  packets :: "(nat \<times> dict) list"

definition loop_mode :: "string \<Rightarrow> string" where
  "loop_mode m = lower (strip (if m = [] then ''packet-only'' else m))"

definition write_repair_packet :: "nat \<Rightarrow> dict \<Rightarrow> 'w repair_state \<Rightarrow> 'w repair_state" where
  "write_repair_packet cycle packet s = s\<lparr>packets := packets s @ [(cycle, packet)]\<rparr>"

definition targeted_files :: "dict \<Rightarrow> py list" where
  "targeted_files packet = map (\<lambda>s. get_py s ''path'') (file_specs (as_dict (get_py packet ''generation'')))"

definition entry_of :: "nat \<Rightarrow> py list \<Rightarrow> repair_action \<Rightarrow> repair_entry" where
  "entry_of cycle fs a = \<lparr>repair_cycle = cycle, repair_failures = fs, repair_action = a\<rparr>"

text \<open>A cycle either ends the loop with a status, or goes on to the next one (\<open>None\<close>); in both cases it leaves
  one entry.\<close>

definition dependency_cycle ::
  "'w repair_hooks \<Rightarrow> string list \<Rightarrow> dict \<Rightarrow> 'w product
     \<Rightarrow> repair_error + (repair_status option \<times> repair_action \<times> dict) \<times> 'w product" where
  "dependency_cycle h missing v p =
     (if funded_mode h then Inr ((Some DependencyFrozenStatus, DependencyFrozen missing, v), p)
      else
        and_then (add_dev_dependencies (funded_mode h) missing p) (\<lambda>(added, p).
        let (installed, p) = (if added = [] then ([(''status'', PStr ''skipped'')], p) else install_fn h p);
            (v, p) = validate_fn h p;
            passed = is_valid v
        in Inr ((if passed then Some Repaired else None,
                 AddedDependency added (get_py installed ''status'') passed, v), p)))"

definition dispatch_cycle ::
  "'w repair_hooks \<Rightarrow> dict \<Rightarrow> dict \<Rightarrow> 'w product
     \<Rightarrow> (repair_status option \<times> repair_action \<times> dict) \<times> 'w product" where
  "dispatch_cycle h packet v p =
     (let run = (case dispatch_fn h of Some d \<Rightarrow> d | None \<Rightarrow> chunked_dispatch h);
          (r, p) = run packet p
      in if get_py r ''status'' \<noteq> PStr ''completed'' then
           ((Some DispatchFailedStatus, DispatchFailed (targeted_files packet) (get_or r ''errors'' (PList [])), v), p)
         else
           (let (v, p) = validate_fn h p; passed = is_valid v
            in ((if passed then Some Repaired else None,
                 Dispatched (targeted_files packet) (get_or r ''files_written'' (PList [])) passed, v), p)))"

definition active_cycle ::
  "'w repair_hooks \<Rightarrow> string \<Rightarrow> dict \<Rightarrow> py list \<Rightarrow> dict \<Rightarrow> 'w repair_state
     \<Rightarrow> repair_error + (repair_status option \<times> repair_action \<times> dict) \<times> 'w repair_state" where
  "active_cycle h mode packet fs v s =
     (if mode = ''packet-only'' then Inr ((Some AwaitingAgent, PacketCreated, v), s)
      else if dispatch_fn h = None \<and> mode \<notin> {''chunked'', ''legacy-chunked''}
      then Inr ((Some AwaitingAgentLoop, NeedsGovernedDispatch, v), s)
      else if known_missing_devdeps fs \<noteq> [] \<and> nondep_failures fs = []
      then and_then (dependency_cycle h (known_missing_devdeps fs) v (product s)) (\<lambda>(r, p). Inr (r, s\<lparr>product := p\<rparr>))
      else (let (r, p) = dispatch_cycle h packet v (product s) in Inr (r, s\<lparr>product := p\<rparr>)))"

definition repair_once ::
  "'w repair_hooks \<Rightarrow> string \<Rightarrow> dict \<Rightarrow> nat \<Rightarrow> dict \<Rightarrow> 'w repair_state
     \<Rightarrow> repair_error + (repair_status option \<times> repair_action \<times> dict) \<times> 'w repair_state" where
  "repair_once h mode original cycle v s =
     (if mode = ''none'' then Inr ((Some ManualRepairNeeded, SkippedAction, v), s)
      else
        (let packet = build_repair_packet (new_run_id h) (created_at h) (sources (product s)) cycle (failures_from v)
                        (validation_logs v) original
         in active_cycle h mode packet (failures_from v) v (write_repair_packet cycle packet s)))"

fun repair_cycles ::
  "'w repair_hooks \<Rightarrow> string \<Rightarrow> dict \<Rightarrow> int \<Rightarrow> nat \<Rightarrow> nat \<Rightarrow> dict \<Rightarrow> repair_entry list \<Rightarrow> 'w repair_state
     \<Rightarrow> repair_error + repair_result \<times> 'w repair_state" where
  "repair_cycles h mode original budget cycle 0 v done_so_far s =
     Inr (\<lparr>loop_status = MaxCyclesReached, cycles_used = cycle - 1, max_cycles = budget, loop_repairs = done_so_far,
           final_validation = v\<rparr>, s)"
| "repair_cycles h mode original budget cycle (Suc n) v done_so_far s =
     (if failures_from v = [] then
        Inr (\<lparr>loop_status = Repaired, cycles_used = cycle - 1, max_cycles = budget, loop_repairs = done_so_far,
              final_validation = v\<rparr>, s)
      else
        and_then (repair_once h mode original cycle v s) (\<lambda>((stop, action, v'), s).
        let entries = done_so_far @ [entry_of cycle (failures_from v) action] in
        case stop of
          Some st \<Rightarrow>
            Inr (\<lparr>loop_status = st, cycles_used = cycle, max_cycles = budget, loop_repairs = entries,
                  final_validation = v'\<rparr>, s)
        | None \<Rightarrow> repair_cycles h mode original budget (Suc cycle) n v' entries s))"

definition run_repair_loop ::
  "env \<Rightarrow> 'w repair_hooks \<Rightarrow> string \<Rightarrow> int option \<Rightarrow> dict \<Rightarrow> dict \<Rightarrow> 'w product
     \<Rightarrow> repair_error + repair_result \<times> 'w repair_state" where
  "run_repair_loop environ h mode cycles original v p =
     (let s = \<lparr>product = p, packets = []\<rparr> in
      case resolve_repair_cycle_budget environ cycles of
        Inl e \<Rightarrow> Inl (BudgetError e)
      | Inr budget \<Rightarrow>
          if budget \<le> 0 then
            Inr (\<lparr>loop_status = MaxCyclesReached, cycles_used = 0, max_cycles = budget, loop_repairs = [],
                  final_validation = v\<rparr>, s)
          else if is_valid v then
            Inr (\<lparr>loop_status = Repaired, cycles_used = 0, max_cycles = budget, loop_repairs = [], final_validation = v\<rparr>, s)
          else repair_cycles h (loop_mode mode) original budget 1 (nat budget) v [] s)"

subsection \<open>Cycles and their evidence\<close>

lemma active_cycle_packets: "active_cycle h mode packet fs v s = Inr (r, s') \<Longrightarrow> packets s' = packets s"
  by (auto simp: active_cycle_def and_then_Inr split: if_splits prod.splits)

lemma repair_once_packets:
  "repair_once h mode original c v s = Inr (r, s') \<Longrightarrow>
   map fst (packets s') = map fst (packets s) @ (if mode = ''none'' then [] else [c])"
  by (auto simp: repair_once_def Let_def write_repair_packet_def dest: active_cycle_packets split: if_splits)

lemma repair_cycles_cases:
  assumes "repair_cycles h mode original budget c (Suc n) v es s = Inr (r, s')"
  obtains (settled) "failures_from v = []" "s' = s"
      "r = \<lparr>loop_status = Repaired, cycles_used = c - 1, max_cycles = budget, loop_repairs = es, final_validation = v\<rparr>"
    | (stop) st action v' where "repair_once h mode original c v s = Inr ((Some st, action, v'), s')"
      "r = \<lparr>loop_status = st, cycles_used = c, max_cycles = budget,
             loop_repairs = es @ [entry_of c (failures_from v) action], final_validation = v'\<rparr>"
    | (next_cycle) action v' s1 where "repair_once h mode original c v s = Inr ((None, action, v'), s1)"
      "repair_cycles h mode original budget (Suc c) n v' (es @ [entry_of c (failures_from v) action]) s1 = Inr (r, s')"
proof (cases "failures_from v = []")
  case True
  with assms settled show thesis by simp
next
  case False
  with assms obtain stop action v' s1 where o: "repair_once h mode original c v s = Inr ((stop, action, v'), s1)"
    and k: "(case stop of
        Some st \<Rightarrow> Inr (\<lparr>loop_status = st, cycles_used = c, max_cycles = budget,
           loop_repairs = es @ [entry_of c (failures_from v) action], final_validation = v'\<rparr>, s1)
      | None \<Rightarrow> repair_cycles h mode original budget (Suc c) n v' (es @ [entry_of c (failures_from v) action]) s1) = Inr (r, s')"
    by (auto simp: and_then_Inr Let_def split: prod.splits)
  show thesis
  proof (cases stop)
    case None
    with o k next_cycle show thesis by simp
  next
    case (Some st)
    with o k that(2) show thesis by simp
  qed
qed

lemma run_repair_loop_cases:
  assumes "run_repair_loop environ h mode cycles original v p = Inr (r, s)"
  obtains (at_once) budget where "resolve_repair_cycle_budget environ cycles = Inr budget" "budget \<le> 0 \<or> is_valid v"
      "s = \<lparr>product = p, packets = []\<rparr>"
      "r = \<lparr>loop_status = (if budget \<le> 0 then MaxCyclesReached else Repaired), cycles_used = 0, max_cycles = budget,
             loop_repairs = [], final_validation = v\<rparr>"
    | (loop) n where "resolve_repair_cycle_budget environ cycles = Inr (int (Suc n))" "\<not> is_valid v"
      "repair_cycles h (loop_mode mode) original (int (Suc n)) (Suc 0) (Suc n) v [] \<lparr>product = p, packets = []\<rparr> = Inr (r, s)"
proof -
  from assms obtain budget where b: "resolve_repair_cycle_budget environ cycles = Inr budget"
    by (auto simp: run_repair_loop_def Let_def split: sum.splits)
  show thesis
  proof (cases "budget \<le> 0 \<or> is_valid v")
    case True
    with assms b at_once show thesis by (auto simp: run_repair_loop_def Let_def split: if_splits)
  next
    case False
    then obtain n where n: "budget = int (Suc n)" by (metis int_ops(4) nat_eq_iff2 not_le old.nat.exhaust zero_le zero_less_nat_eq)
    have k: "nat (int (Suc n)) = Suc n" by simp
    from assms b False n k have "repair_cycles h (loop_mode mode) original (int (Suc n)) (Suc 0) (Suc n) v []
        \<lparr>product = p, packets = []\<rparr> = Inr (r, s)"
      unfolding run_repair_loop_def Let_def by (simp del: repair_cycles.simps int_ops of_nat_Suc add: One_nat_def)
    with b n False loop show thesis by blast
  qed
qed

lemma repair_cycles_evidence:
  "repair_cycles h mode original budget (Suc c) n v es s = Inr (r, s') \<Longrightarrow>
   map repair_cycle es = [1..<Suc c] \<Longrightarrow> (mode \<noteq> ''none'' \<Longrightarrow> map fst (packets s) = [1..<Suc c]) \<Longrightarrow>
   map repair_cycle (loop_repairs r) = [1..<Suc (cycles_used r)] \<and> cycles_used r \<le> c + n \<and> max_cycles r = budget \<and>
   (mode \<noteq> ''none'' \<longrightarrow> map fst (packets s') = [1..<Suc (cycles_used r)])"
proof (induction n arbitrary: c v es s)
  case 0
  then show ?case by auto
next
  case (Suc n)
  have e: "map repair_cycle (es @ [entry_of (Suc c) (failures_from v) action]) = [1..<Suc (Suc c)]" for action
    using Suc.prems(2) by (simp add: entry_of_def)
  have p: "mode \<noteq> ''none'' \<Longrightarrow> map fst (packets s1) = [1..<Suc (Suc c)]"
    if "repair_once h mode original (Suc c) v s = Inr (x, s1)" for x s1
    using repair_once_packets [OF that] Suc.prems(3) by simp
  from Suc.prems(1) show ?case
  proof (cases rule: repair_cycles_cases)
    case settled
    with Suc.prems(2,3) show ?thesis by simp
  next
    case (stop st action v')
    with e p show ?thesis by simp
  next
    case (next_cycle action v' s1)
    with Suc.IH [OF next_cycle(2) e p] show ?thesis by simp
  qed
qed

text \<open>The repair loop stops within its budget and never runs silently: whatever executor, validation and
  installer it is given, its cycles are numbered from one without a gap, each left one entry, there are at most as
  many as the resolved budget allows, and in every mode but \<open>none\<close> each wrote its repair packet.\<close>

theorem repair_loop_bounded:
  assumes "run_repair_loop environ h mode cycles original v p = Inr (r, s)"
  shows "map repair_cycle (loop_repairs r) = [1..<Suc (cycles_used r)] \<and> int (cycles_used r) \<le> max 0 (max_cycles r) \<and>
    resolve_repair_cycle_budget environ cycles = Inr (max_cycles r) \<and>
    (loop_mode mode \<noteq> ''none'' \<longrightarrow> map fst (packets s) = [1..<Suc (cycles_used r)])"
  using assms
proof (cases rule: run_repair_loop_cases)
  case (loop n)
  from repair_cycles_evidence [OF loop(3)] loop(1) show ?thesis by (auto simp del: upt_Suc)
qed simp_all

subsection \<open>What \<open>repaired\<close> means\<close>

definition from_validation :: "'w repair_hooks \<Rightarrow> dict \<Rightarrow> dict \<Rightarrow> bool" where
  "from_validation h v0 v \<longleftrightarrow> v = v0 \<or> (\<exists>p. v = fst (validate_fn h p))"

definition cycle_ok ::
  "'w repair_hooks \<Rightarrow> dict \<Rightarrow> repair_status option \<Rightarrow> dict \<Rightarrow> bool" where
  "cycle_ok h v stop v' \<longleftrightarrow>
     from_validation h v v' \<and> (stop = Some Repaired \<longrightarrow> is_valid v') \<and> (stop = None \<longrightarrow> \<not> is_valid v') \<and>
     stop \<noteq> Some MaxCyclesReached"

lemma cycle_validated:
  assumes "validate_fn h p = (v', p')"
  shows "is_valid v' \<Longrightarrow> cycle_ok h v (Some Repaired) v'" and "\<not> is_valid v' \<Longrightarrow> cycle_ok h v None v'"
proof -
  from assms have "v' = fst (validate_fn h p)" by simp
  then have "from_validation h v v'" unfolding from_validation_def by blast
  then show "is_valid v' \<Longrightarrow> cycle_ok h v (Some Repaired) v'" and "\<not> is_valid v' \<Longrightarrow> cycle_ok h v None v'"
    by (simp_all add: cycle_ok_def)
qed

lemma stopped_cycle: "st \<notin> {Repaired, MaxCyclesReached} \<Longrightarrow> cycle_ok h v (Some st) v"
  by (simp add: cycle_ok_def from_validation_def)

lemma dependency_cycle_ok:
  "dependency_cycle h missing v p = Inr ((stop, action, v'), p') \<Longrightarrow> cycle_ok h v stop v'"
  by (auto simp: dependency_cycle_def and_then_Inr Let_def intro: stopped_cycle dest: cycle_validated
      split: if_split_asm prod.splits)

lemma dispatch_cycle_ok:
  "dispatch_cycle h packet v p = ((stop, action, v'), p') \<Longrightarrow> cycle_ok h v stop v'"
  by (auto simp: dispatch_cycle_def Let_def intro: stopped_cycle dest: cycle_validated split: if_split_asm prod.splits)

lemma active_cycle_ok:
  assumes "active_cycle h mode packet fs v s = Inr ((stop, action, v'), s')"
  shows "cycle_ok h v stop v'"
proof -
  consider "mode = ''packet-only''" | "mode \<noteq> ''packet-only''" "dispatch_fn h = None \<and> mode \<notin> {''chunked'', ''legacy-chunked''}"
    | "mode \<noteq> ''packet-only''" "\<not> (dispatch_fn h = None \<and> mode \<notin> {''chunked'', ''legacy-chunked''})"
    by blast
  then show ?thesis
  proof cases
    case 3
    then show ?thesis
    proof (cases "known_missing_devdeps fs \<noteq> [] \<and> nondep_failures fs = []")
      case True
      with 3 assms show ?thesis
        unfolding active_cycle_def by (auto simp: and_then_Inr intro: dependency_cycle_ok)
    next
      case False
      with 3 assms have "(let (r, p) = dispatch_cycle h packet v (product s) in Inr (r, s\<lparr>product := p\<rparr>))
          = (Inr ((stop, action, v'), s') :: repair_error + _)"
        unfolding active_cycle_def by (simp only: if_False)
      then show ?thesis by (auto split: prod.splits intro: dispatch_cycle_ok)
    qed
  qed (use assms in \<open>auto simp: active_cycle_def intro: stopped_cycle\<close>)
qed

lemma repair_once_result:
  assumes "repair_once h mode original c v s = Inr ((stop, action, v'), s')"
  shows "cycle_ok h v stop v'"
  using assms
  by (auto simp: repair_once_def Let_def split: if_split_asm intro: stopped_cycle active_cycle_ok)

lemma from_validation_trans: "from_validation h v0 v \<Longrightarrow> from_validation h v v' \<Longrightarrow> from_validation h v0 v'"
  by (auto simp: from_validation_def)

lemma repair_cycles_result:
  "repair_cycles h mode original budget c n v es s = Inr (r, s') \<Longrightarrow>
   from_validation h v (final_validation r) \<and>
   (loop_status r = Repaired \<longrightarrow> is_valid (final_validation r) \<or> failures_from (final_validation r) = [])"
proof (induction n arbitrary: c v es s)
  case 0
  then show ?case by (auto simp: from_validation_def)
next
  case (Suc n)
  from Suc.prems show ?case
  proof (cases rule: repair_cycles_cases)
    case settled
    then show ?thesis by (simp add: from_validation_def)
  next
    case (stop st action v')
    with repair_once_result show ?thesis by (fastforce simp: cycle_ok_def)
  next
    case (next_cycle action v' s1)
    with repair_once_result [OF next_cycle(1)] Suc.IH [OF next_cycle(2)] show ?thesis
      by (auto simp: cycle_ok_def intro: from_validation_trans)
  qed
qed

text \<open>A repair is reported only on the word of a validation: the final validation is the one the loop was
  given or a result of the validation it was given, and a loop that reports \<open>repaired\<close> ends on one that is valid
  or names no violation. No status of the executor or of the installer can take its place.\<close>

theorem repaired_on_validation_only:
  assumes "run_repair_loop environ h mode cycles original v p = Inr (r, s)"
  shows "(final_validation r = v \<or> (\<exists>p. final_validation r = fst (validate_fn h p))) \<and>
    (loop_status r = Repaired \<longrightarrow> is_valid (final_validation r) \<or> failures_from (final_validation r) = [])"
  using assms
proof (cases rule: run_repair_loop_cases)
  case (loop n)
  from repair_cycles_result [OF loop(3)] show ?thesis by (simp add: from_validation_def)
qed auto

subsection \<open>Passive modes\<close>

definition dormant :: "'w repair_hooks \<Rightarrow> string \<Rightarrow> bool" where
  "dormant h mode \<longleftrightarrow>
     mode \<in> {''none'', ''packet-only''} \<or> (dispatch_fn h = None \<and> mode \<notin> {''chunked'', ''legacy-chunked''})"

lemma passive_cycle:
  "dormant h mode \<Longrightarrow> repair_once h mode original c v s = Inr ((stop, action, v'), s') \<Longrightarrow>
   stop \<noteq> None \<and> stop \<noteq> Some Repaired \<and> product s' = product s"
  by (auto simp: dormant_def repair_once_def active_cycle_def write_repair_packet_def Let_def split: if_split_asm)

text \<open>A mode that does not repair changes nothing: under \<open>none\<close>, under \<open>packet-only\<close> and under an active mode
  without a governed executor the product stays as it is, the loop uses at most one cycle, and it does not report a
  repair that took a cycle.\<close>

theorem passive_modes_change_nothing:
  assumes "run_repair_loop environ h mode cycles original v p = Inr (r, s)" and "dormant h (loop_mode mode)"
  shows "product s = p \<and> cycles_used r \<le> 1 \<and> (loop_status r = Repaired \<longrightarrow> cycles_used r = 0)"
  using assms(1)
proof (cases rule: run_repair_loop_cases)
  case (loop n)
  from loop(3) show ?thesis
  proof (cases rule: repair_cycles_cases)
    case (stop st action v')
    with passive_cycle [OF assms(2) stop(1)] show ?thesis by simp
  next
    case (next_cycle action v' s1)
    with passive_cycle [OF assms(2) next_cycle(1)] show ?thesis by simp
  qed simp_all
qed simp_all

subsection \<open>The scope of a repair\<close>

lemma dict_entries: "distinct (map fst d) \<Longrightarrow> (k, v) \<in> set d \<longleftrightarrow> dict_get d k = Some v"
  by (simp add: dict_get_def)

definition diagnostics_of :: "string \<Rightarrow> py list \<Rightarrow> dict list" where
  "diagnostics_of p fs = map normalize_error (filter (\<lambda>f. failure_file f = Some p) fs)"

lemma group_errors_spec:
  "distinct (map fst (group_errors specs fs)) \<and>
   (\<forall>p. dict_get (group_errors specs fs) p =
      (if dict_get specs p \<noteq> None \<and> diagnostics_of p fs \<noteq> [] then Some (diagnostics_of p fs) else None))"
proof (induction fs rule: rev_induct)
  case Nil
  then show ?case by (simp add: group_errors_def diagnostics_of_def)
next
  case (snoc f fs)
  then show ?case
    by (auto simp: group_errors_def diagnostics_of_def dict_set_distinct split: option.splits)
qed

lemma specs_by_path_spec: "dict_get (specs_by_path specs) p = Some s \<Longrightarrow> spec_path s = p \<and> s \<in> set specs"
proof (induction specs arbitrary: p s rule: rev_induct)
  case Nil
  then show ?case by (simp add: specs_by_path_def)
next
  case (snoc x xs)
  then show ?case by (auto simp: specs_by_path_def split: if_split_asm)
qed

lemma with_context_simps [simp]:
  "spec_path (with_context es s) = spec_path s"
  "get_py (with_context es s) ''error_context'' = PList (map PDict es)"
  by (simp_all add: with_context_def spec_path_def)

lemma spec_of_path [simp]: "dict_get (specs_by_path specs) p \<noteq> None \<Longrightarrow> spec_path (the (dict_get (specs_by_path specs) p)) = p"
  by (auto dest: specs_by_path_spec)

lemma file_specs_set [simp]: "file_specs (dict_set gen ''file_specs'' (PList (map PDict xs))) = xs"
  by (simp add: file_specs_def py_items_def as_dict_def comp_def)

definition named_specs :: "dict \<Rightarrow> py list \<Rightarrow> string set" where
  "named_specs gen fs = {p. dict_get (specs_by_path (file_specs gen)) p \<noteq> None \<and> Some p \<in> failure_file ` set fs}"

lemma diagnostics_nonempty: "diagnostics_of p fs \<noteq> [] \<longleftrightarrow> Some p \<in> failure_file ` set fs"
proof -
  have "Some p \<in> failure_file ` set fs \<longleftrightarrow> (\<exists>f \<in> set fs. failure_file f = Some p)"
    by (metis (no_types, lifting) imageE image_eqI)
  then show ?thesis by (simp add: diagnostics_of_def filter_empty_conv)
qed

lemma failing_specs_entries:
  "s \<in> set (failing_specs src gen fs) \<longleftrightarrow>
   (\<exists>p \<in> named_specs gen fs. s = with_context (enriched src gen p (diagnostics_of p fs))
      (the (dict_get (specs_by_path (file_specs gen)) p)))"
proof -
  let ?specs = "specs_by_path (file_specs gen)"
  have g: "(p, es) \<in> set (group_errors ?specs fs) \<longleftrightarrow> p \<in> named_specs gen fs \<and> es = diagnostics_of p fs" for p es
    using group_errors_spec [of ?specs fs]
    by (auto simp: dict_entries named_specs_def diagnostics_nonempty split: if_split_asm)
  have "s \<in> set (failing_specs src gen fs) \<longleftrightarrow>
      (\<exists>(p, es) \<in> set (group_errors ?specs fs). s = with_context (enriched src gen p es) (the (dict_get ?specs p)))"
    by (auto simp: failing_specs_def Let_def)
  also have "\<dots> \<longleftrightarrow> (\<exists>p \<in> named_specs gen fs. s = with_context (enriched src gen p (diagnostics_of p fs)) (the (dict_get ?specs p)))"
    by (auto simp: g Bex_def)
  finally show ?thesis .
qed

lemma named_spec_path: "p \<in> named_specs gen fs \<Longrightarrow> spec_path (the (dict_get (specs_by_path (file_specs gen)) p)) = p"
  by (simp add: named_specs_def)

lemma failing_specs_paths: "set (map spec_path (failing_specs src gen fs)) = named_specs gen fs"
proof -
  let ?spec = "\<lambda>p. with_context (enriched src gen p (diagnostics_of p fs)) (the (dict_get (specs_by_path (file_specs gen)) p))"
  have "set (failing_specs src gen fs) = ?spec ` named_specs gen fs"
    by (rule set_eqI) (simp only: failing_specs_entries image_iff)
  then have "set (map spec_path (failing_specs src gen fs)) = (\<lambda>p. spec_path (?spec p)) ` named_specs gen fs"
    by (simp only: set_map image_image)
  also have "\<dots> = (\<lambda>p. p) ` named_specs gen fs"
    by (rule image_cong) (simp_all add: named_spec_path)
  finally show ?thesis by simp
qed

lemma type_module_known:
  assumes "type_module_path specs = Some p"
  shows "dict_get specs p \<noteq> None"
proof -
  from assms have "p \<in> set (map fst specs)"
    unfolding type_module_path_def find_Some_iff by (metis nth_mem)
  then show ?thesis by (simp add: dict_get_def map_of_eq_None_iff)
qed

text \<open>The contract errors of a cycle, as the owner of the contract gets them, and that owner: the type module of the
  generation, when there is a contract error.\<close>

definition contract_context :: "py list \<Rightarrow> dict list" where
  "contract_context fs =
     map (\<lambda>f. dict_set (normalize_error f) ''reconcile_contract'' (PBool True)) (filter is_type_contract_failure fs)"

definition contract_owner :: "dict \<Rightarrow> py list \<Rightarrow> string set" where
  "contract_owner gen fs =
     (if \<exists>f \<in> set fs. is_type_contract_failure f then set_option (type_module_path (specs_by_path (file_specs gen))) else {})"

lemma type_specs_iff:
  "s \<in> set (type_specs gen fs filtered) \<longleftrightarrow>
   (\<exists>p \<in> contract_owner gen fs. p \<notin> set (map spec_path filtered) \<and>
      s = with_context (contract_context fs) (the (dict_get (specs_by_path (file_specs gen)) p)))"
proof (cases "filter is_type_contract_failure fs = []")
  case True
  then have "\<not> (\<exists>f \<in> set fs. is_type_contract_failure f)" by (simp add: filter_empty_conv)
  then have none: "contract_owner gen fs = {}" unfolding contract_owner_def by (rule if_not_P)
  show ?thesis unfolding none using True by (simp add: type_specs_def Let_def)
next
  case False
  then have "\<exists>f \<in> set fs. is_type_contract_failure f" by (simp add: filter_empty_conv)
  then have o: "contract_owner gen fs = set_option (type_module_path (specs_by_path (file_specs gen)))"
    unfolding contract_owner_def by (rule if_P)
  show ?thesis unfolding o contract_context_def using False
    by (auto simp: type_specs_def Let_def comp_def split: option.split)
qed

lemma contract_owner_path: "p \<in> contract_owner gen fs \<Longrightarrow> spec_path (the (dict_get (specs_by_path (file_specs gen)) p)) = p"
  using type_module_known [of "specs_by_path (file_specs gen)" p]
  by (auto simp: contract_owner_def split: if_split_asm)

lemma type_specs_paths:
  "spec_path ` set (type_specs gen fs filtered) = contract_owner gen fs - set (map spec_path filtered)"
proof (intro equalityI subsetI)
  fix p assume p: "p \<in> contract_owner gen fs - set (map spec_path filtered)"
  let ?s = "with_context (contract_context fs) (the (dict_get (specs_by_path (file_specs gen)) p))"
  have "?s \<in> set (type_specs gen fs filtered)" using p unfolding type_specs_iff by blast
  moreover have "p = spec_path ?s" using p contract_owner_path [of p gen fs] by simp
  ultimately show "p \<in> spec_path ` set (type_specs gen fs filtered)" by (rule rev_image_eqI)
qed (auto simp: type_specs_iff contract_owner_path)

lemma enriched_keeps: "\<exists>more. enriched src gen p es = es @ more"
  by (simp add: enriched_def Let_def)

lemma whole_generation: "named_specs gen fs = {} \<Longrightarrow> build_filtered_generation src gen fs = gen"
  using failing_specs_paths [of src gen fs] by (simp add: build_filtered_generation_def)

text \<open>C29: a repair regenerates exactly the files that fail and the owner of a broken contract. When a failure names
  a file of the generation, the files of the repair are those that failures name and, if and only if one of the
  failures is a conflict with a generated interface, the type module of the generation. Each failing file carries
  all its own diagnostics, in their order and before any hint; a type module that does not fail itself carries the
  conflicts, marked for reconciliation; and nothing else of the generation changes.\<close>

theorem repair_regenerates_failing_files:
  assumes "named_specs gen fs \<noteq> {}" and "gen' = build_filtered_generation src gen fs"
  shows "spec_path ` set (file_specs gen') = named_specs gen fs \<union> contract_owner gen fs \<and>
    (\<forall>s \<in> set (file_specs gen'). spec_path s \<in> named_specs gen fs \<longrightarrow>
       (\<exists>more. get_py s ''error_context'' = PList (map PDict (diagnostics_of (spec_path s) fs @ more)))) \<and>
    (\<forall>s \<in> set (file_specs gen'). spec_path s \<notin> named_specs gen fs \<longrightarrow>
       get_py s ''error_context'' = PList (map PDict (contract_context fs))) \<and>
    (\<forall>k. k \<noteq> ''file_specs'' \<longrightarrow> get_py gen' k = get_py gen k)"
proof -
  let ?f = "failing_specs src gen fs"
  from assms(1) failing_specs_paths [of src gen fs] have "?f \<noteq> []" by auto
  with assms(2) have g: "gen' = dict_set gen ''file_specs'' (PList (map PDict (?f @ type_specs gen fs ?f)))"
    by (simp add: build_filtered_generation_def Let_def)
  then have o: "file_specs gen' = ?f @ type_specs gen fs ?f" by (simp only: file_specs_set)
  have f: "spec_path ` set ?f = named_specs gen fs" using failing_specs_paths [of src gen fs] by simp
  have all: "spec_path ` set (file_specs gen') = named_specs gen fs \<union> contract_owner gen fs"
    using f type_specs_paths [of gen fs ?f] by (auto simp: o image_Un)
  have c: "\<exists>more. get_py s ''error_context'' = PList (map PDict (diagnostics_of (spec_path s) fs @ more))"
    if "s \<in> set (file_specs gen')" "spec_path s \<in> named_specs gen fs" for s
  proof -
    have "s \<notin> set (type_specs gen fs ?f)"
      using that(2) type_specs_paths [of gen fs ?f] failing_specs_paths [of src gen fs] by auto
    with that(1) have "s \<in> set ?f" by (auto simp: o)
    then obtain p where p: "p \<in> named_specs gen fs"
      and s: "s = with_context (enriched src gen p (diagnostics_of p fs)) (the (dict_get (specs_by_path (file_specs gen)) p))"
      by (auto simp: failing_specs_entries)
    with named_spec_path [OF p] have "spec_path s = p" by simp
    with s enriched_keeps [of src gen p "diagnostics_of p fs"] show ?thesis by auto
  qed
  have d: "get_py s ''error_context'' = PList (map PDict (contract_context fs))"
    if "s \<in> set (file_specs gen')" "spec_path s \<notin> named_specs gen fs" for s
  proof -
    from that f have "s \<in> set (type_specs gen fs ?f)" by (auto simp: o)
    then show ?thesis by (auto simp: type_specs_iff)
  qed
  have "get_py gen' k = get_py gen k" if "k \<noteq> ''file_specs''" for k using g that by simp
  with all c d show ?thesis by blast
qed

subsection \<open>Missing dependencies\<close>

definition dev_entry :: "'w product \<Rightarrow> string \<Rightarrow> py option" where
  "dev_entry p n = dict_get (as_dict (get_py (load_dict (package_json p)) ''devDependencies'')) n"

definition known_version :: "string \<Rightarrow> py" where
  "known_version n = PStr (case dict_get KNOWN_DEV_DEPENDENCIES n of Some v \<Rightarrow> v | None \<Rightarrow> [])"

lemma add_missing_spec:
  "add_missing names dev = (added, dev') \<Longrightarrow>
   set added = {n \<in> set names. dict_get dev n = None} \<and>
   (\<forall>n. dict_get dev' n = (if n \<in> set added then Some (known_version n) else dict_get dev n))"
proof (induction names arbitrary: added dev' rule: rev_induct)
  case Nil
  then show ?case by (simp add: add_missing_def)
next
  case (snoc n names)
  obtain a d where r: "add_missing names dev = (a, d)" by fastforce
  with snoc.prems have "(added, dev') = (if dict_get d n \<noteq> None then (a, d) else (a @ [n], dict_set d n (known_version n)))"
    by (auto simp: add_missing_def known_version_def)
  moreover have i: "set a = {n \<in> set names. dict_get dev n = None}"
    "\<And>n. dict_get d n = (if n \<in> set a then Some (known_version n) else dict_get dev n)"
    using snoc.IH [OF r] by blast+
  ultimately show ?case
    by (cases "dict_get d n = None") (auto simp: i(2) split: if_split_asm)
qed

lemma add_missing_none: "(\<And>n. n \<in> set names \<Longrightarrow> dict_get dev n \<noteq> None) \<Longrightarrow> add_missing names dev = ([], dev)"
  by (induction names rule: rev_induct) (auto simp: add_missing_def)

lemma known_missing_known: "n \<in> set (known_missing_devdeps fs) \<longleftrightarrow> Some n \<in> known_dep ` set fs"
proof -
  have "set (foldl add_once acc ns) = set acc \<union> set ns" for acc ns :: "string list"
    by (induction ns arbitrary: acc) (auto simp: add_once_def)
  then show ?thesis
    by (auto simp: known_missing_devdeps_def List.map_filter_def image_iff) (metis option.sel option.simps(3))+
qed

lemma known_dep_listed: "known_dep f = Some n \<Longrightarrow> n \<in> fst ` set KNOWN_DEV_DEPENDENCIES"
  by (auto simp: known_dep_def dict_get_def map_of_eq_None_iff split: option.splits if_split_asm)

text \<open>The dependency action adds what is missing, once, and only known test tools: after it, the entries it
  reports are in the development dependencies with the pinned version, they come from failures that name them and
  were not listed before, every other entry and every source file is as it was, and doing it again adds nothing.\<close>

theorem dependency_repair_exact:
  assumes "add_dev_dependencies frozen (known_missing_devdeps fs) p = Inr (added, p')"
  shows "(\<forall>n. dev_entry p' n = (if n \<in> set added then Some (known_version n) else dev_entry p n)) \<and>
    (\<forall>n \<in> set added. n \<in> fst ` set KNOWN_DEV_DEPENDENCIES \<and> Some n \<in> known_dep ` set fs \<and> dev_entry p n = None) \<and>
    sources p' = sources p \<and> elsewhere p' = elsewhere p \<and>
    add_dev_dependencies frozen (known_missing_devdeps fs) p' = Inr ([], p')"
proof (cases "added = []")
  case True
  with assms have "p' = p"
    by (auto simp: add_dev_dependencies_def split: if_split_asm option.split_asm json_file.split_asm py.split_asm prod.split_asm)
  with True assms show ?thesis by simp
next
  case False
  let ?names = "known_missing_devdeps fs"
  from False assms obtain pkg dev dev' where f: "\<not> frozen" and p: "package_json p = Some (Json (PDict pkg))"
    and d: "get_or pkg ''devDependencies'' (PDict []) = PDict dev" and m: "add_missing ?names dev = (added, dev')"
    and p': "p' = p\<lparr>package_json := Some (Json (PDict (dict_set pkg ''devDependencies'' (PDict dev'))))\<rparr>"
    by (auto simp: add_dev_dependencies_def split: if_split_asm option.split_asm json_file.split_asm py.split_asm prod.split_asm)
  note s = add_missing_spec [OF m]
  have e: "dev_entry p n = dict_get dev n" "dev_entry p' n = dict_get dev' n" for n
    using p d p' by (auto simp: dev_entry_def load_dict_def as_dict_def get_py_def get_or_def split: option.splits)
  have again: "add_missing ?names dev' = ([], dev')"
    using s by (intro add_missing_none) auto
  have "get_or (dict_set pkg ''devDependencies'' (PDict dev')) ''devDependencies'' (PDict []) = PDict dev'"
    by (simp add: get_or_def)
  with again f p' have "add_dev_dependencies frozen ?names p' = Inr ([], p')"
    by (simp add: add_dev_dependencies_def)
  moreover have "Some n \<in> known_dep ` set fs \<and> n \<in> fst ` set KNOWN_DEV_DEPENDENCIES" if "n \<in> set added" for n
    using that s known_missing_known [of n fs] by (auto dest: known_dep_listed [OF sym])
  moreover have "sources p' = sources p" "elsewhere p' = elsewhere p" using p' by simp_all
  ultimately show ?thesis using s by (simp add: e)
qed

text \<open>The code says that it never raises; a \<open>package.json\<close> that is valid JSON and not an object makes it.\<close>

lemma package_list_raises:
  "package_json p = Some (Json (PList xs)) \<Longrightarrow> add_dev_dependencies False names p = Inl PackageNotAnObject"
  by (simp add: add_dev_dependencies_def)

subsection \<open>What the loop does not repair\<close>

text \<open>The dictionary that \<open>run_validation\<close> returns, as far as the loop reads it.\<close>

definition result_dict :: "validation_result \<Rightarrow> dict" where
  "result_dict v =
     [(''can_close_delivery'', PBool (can_close_delivery v)), (''blockers'', PList (map PStr (blockers v))),
      (''violations'', PList (map PDict (violations v)))]"

lemma no_failures_recorded:
  assumes "\<And>cmds w. check_failures (fst (run cmds w)) = []" and "plan_profile pl \<notin> set JS_DIAGNOSTIC_PROFILES"
    and "run_categories run diagnose pl dry cats w = (rs, w')"
  shows "\<forall>r \<in> snd ` set rs. check_failures r = []"
  using assms(3)
proof (induction cats arbitrary: w rs)
  case (Cons cat cats)
  have "check_failures (fst (run_category run diagnose pl dry cat w)) = []"
    using assms(1,2) by (auto simp: run_category_def Let_def skipped_result_def skipped_with_def dry_run_skipped_result_def
        split: prod.splits option.splits)
  moreover obtain r w1 where r: "run_category run diagnose pl dry cat w = (r, w1)" by fastforce
  moreover obtain rs' where rs': "run_categories run diagnose pl dry cats w1 = (rs', w')" "rs = (cat, r) # rs'"
    using Cons.prems r by (auto split: prod.splits)
  ultimately show ?case using Cons.IH [OF rs'(1)] by simp
qed simp

text \<open>The validation of a stack without diagnostics reports no violation even when it fails. The loop takes that
  for a repair: it reports \<open>repaired\<close> without a cycle, while the delivery cannot close.\<close>

lemma undiagnosed_failure_is_repaired:
  assumes "run_validation run diagnose pl False [] w = (v, w')" and "plan_profile pl \<notin> set JS_DIAGNOSTIC_PROFILES"
    and "\<And>cmds w. check_failures (fst (run cmds w)) = []"
    and "resolve_repair_cycle_budget environ cycles = Inr budget" and "0 < budget"
  shows "run_repair_loop environ h mode cycles original (result_dict v) p =
    Inr (\<lparr>loop_status = Repaired, cycles_used = 0, max_cycles = budget, loop_repairs = [], final_validation = result_dict v\<rparr>,
         \<lparr>product = p, packets = []\<rparr>)"
proof -
  from assms(1) obtain rs where rs: "run_categories run diagnose pl False CATEGORIES w = (rs, w')"
    and v: "violations v = collect_violations rs"
    by (auto simp: run_validation_def frozen_gate_def Let_def split: prod.splits option.splits)
  have "\<forall>r \<in> snd ` set rs. check_failures r = []"
    by (rule no_failures_recorded [OF assms(3,2) rs])
  then have "dict_get rs cat = Some r \<Longrightarrow> check_failures r = []" for cat r
    by (force simp: dict_get_def dest: map_of_SomeD)
  with v have "violations v = []" by (auto simp: collect_violations_def split: option.splits)
  then have "failures_from (result_dict v) = []" by (simp add: failures_from_def result_dict_def py_items_def)
  moreover obtain n where "nat budget = Suc n" using assms(5) by (cases "nat budget") auto
  ultimately show ?thesis using assms(4,5) by (simp add: run_repair_loop_def Let_def)
qed

text \<open>A missing module whose package is listed already is not installed: every cycle only validates again, until
  the budget is spent. Neither the installer nor the executor runs.\<close>

lemma listed_dependency_spins:
  assumes "validate_fn h = (\<lambda>p. (v, p))" and "\<not> is_valid v" and "failures_from v \<noteq> []"
    and "nondep_failures (failures_from v) = []" and "\<not> funded_mode h" and "dispatch_fn h \<noteq> None"
    and "mode \<notin> {''none'', ''packet-only''}"
    and "add_dev_dependencies False (known_missing_devdeps (failures_from v)) (product s) = Inr ([], product s)"
  shows "\<exists>r s'. repair_cycles h mode original budget (Suc c) n v es s = Inr (r, s') \<and> loop_status r = MaxCyclesReached \<and>
    cycles_used r = c + n \<and> product s' = product s"
  using assms(8)
proof (induction n arbitrary: c es s)
  case 0
  then show ?case by simp
next
  case (Suc n)
  let ?fs = "failures_from v"
  have "known_missing_devdeps ?fs \<noteq> []"
  proof -
    obtain f where f: "f \<in> set ?fs" using assms(3) by (meson last_in_set)
    with assms(4) obtain m where "known_dep f = Some m" by (auto simp: nondep_failures_def filter_empty_conv)
    with f have "m \<in> set (known_missing_devdeps ?fs)" by (metis known_missing_known image_eqI)
    then show ?thesis by auto
  qed
  with Suc.prems assms obtain action s1 where "repair_once h mode original (Suc c) v s = Inr ((None, action, v), s1)"
    and s1: "product s1 = product s"
    by (simp add: repair_once_def Let_def active_cycle_def dependency_cycle_def write_repair_packet_def)
  with Suc.IH [of s1 "Suc c" "es @ [entry_of (Suc c) ?fs action]"] Suc.prems assms(3) show ?case by simp
qed

subsection \<open>A repair\<close>

definition ts_failure :: "string \<Rightarrow> string \<Rightarrow> string \<Rightarrow> py" where
  "ts_failure file code msg = PDict [(''file'', PStr file), (''code'', PStr code), (''message'', PStr msg)]"

definition demo_failing :: dict where
  "demo_failing = [(''violations'', PList [ts_failure ''a.ts'' ''TS2339'' ''x''])]"

definition demo_generation :: dict where
  "demo_generation =
     [(''file_specs'', PList [PDict [(''path'', PStr ''a.ts'')], PDict [(''path'', PStr ''b.ts'')], PDict [(''path'', PStr ''types.ts'')]])]"

definition demo_product :: "nat product" where
  "demo_product = \<lparr>package_json = Some (Json (PDict [])), sources = Map.empty, elsewhere = 0\<rparr>"

definition demo_hooks :: "nat repair_hooks" where
  "demo_hooks =
     \<lparr>dispatch_fn = Some (\<lambda>packet p. ([(''status'', PStr ''completed'')], p\<lparr>elsewhere := elsewhere p + 1\<rparr>)),
      chunked_dispatch = (\<lambda>packet p. ([], p)),
      validate_fn = (\<lambda>p. (if elsewhere p < 2 then demo_failing else [(''valid'', PBool True)], p)),
      install_fn = (\<lambda>p. ([], p)), funded_mode = False, new_run_id = ''r'', created_at = ''t''\<rparr>"

definition demo_repair :: "string \<Rightarrow> repair_error + repair_result \<times> nat repair_state" where
  "demo_repair mode = run_repair_loop Map.empty demo_hooks mode (Some 3) [] demo_failing demo_product"

lemma demo_repaired:
  "case demo_repair ''auto'' of Inr (r, s) \<Rightarrow> loop_status r = Repaired \<and> cycles_used r = 2 | Inl _ \<Rightarrow> False"
  by code_simp

lemma demo_paused:
  "case demo_repair ''none'' of Inr (r, s) \<Rightarrow> loop_status r = ManualRepairNeeded | Inl _ \<Rightarrow> False"
  by code_simp

theorem repair_loop_bounded_witness:
  "\<exists>r s. demo_repair ''auto'' = Inr (r, s) \<and> map repair_cycle (loop_repairs r) = [1, 2] \<and> map fst (packets s) = [1, 2]"
proof -
  obtain r s where r: "demo_repair ''auto'' = Inr (r, s)" "cycles_used r = 2"
    using demo_repaired by (auto split: sum.splits)
  have "loop_mode ''auto'' \<noteq> ''none''" by code_simp
  with repair_loop_bounded [OF r(1) [unfolded demo_repair_def]] r show ?thesis by (auto simp: upt_rec)
qed

theorem repaired_on_validation_only_witness:
  "\<exists>r s. demo_repair ''auto'' = Inr (r, s) \<and> (is_valid (final_validation r) \<or> failures_from (final_validation r) = [])"
proof -
  obtain r s where r: "demo_repair ''auto'' = Inr (r, s)" "loop_status r = Repaired"
    using demo_repaired by (auto split: sum.splits)
  from repaired_on_validation_only [OF r(1) [unfolded demo_repair_def]] r show ?thesis by auto
qed

theorem passive_modes_change_nothing_witness:
  "\<exists>r s. demo_repair ''none'' = Inr (r, s) \<and> product s = demo_product"
proof -
  obtain r s where r: "demo_repair ''none'' = Inr (r, s)"
    using demo_paused by (auto split: sum.splits)
  have "dormant demo_hooks (loop_mode ''none'')" unfolding dormant_def by code_simp
  with passive_modes_change_nothing [OF r [unfolded demo_repair_def]] r show ?thesis by auto
qed

theorem repair_regenerates_failing_files_witness:
  "spec_path ` set (file_specs (build_filtered_generation Map.empty demo_generation (failures_from demo_failing))) =
   {''a.ts'', ''types.ts''}"
proof -
  let ?fs = "failures_from demo_failing"
  have n: "named_specs demo_generation ?fs = {''a.ts''}"
    by (auto simp: named_specs_def specs_by_path_def file_specs_def demo_generation_def demo_failing_def failures_from_def
        ts_failure_def py_items_def as_dict_def failure_file_def spec_path_def fwd_def replace_char_def dict_get_def
        get_py_def split: if_split_asm)
  have "type_module_path (specs_by_path (file_specs demo_generation)) = Some ''types.ts''" by code_simp
  moreover have "list_ex is_type_contract_failure ?fs" by code_simp
  ultimately have "contract_owner demo_generation ?fs = {''types.ts''}"
    unfolding contract_owner_def list_ex_iff by simp
  with repair_regenerates_failing_files [of demo_generation ?fs _ Map.empty] n show ?thesis by auto
qed

definition demo_missing :: "py list" where
  "demo_missing = [ts_failure ''a.ts'' ''TS2307'' (''Cannot find module '' @ [CHR 0x27] @ ''jsdom'' @ [CHR 0x27])]"

lemma demo_added:
  "case add_dev_dependencies False (known_missing_devdeps demo_missing) demo_product of
     Inr (added, p) \<Rightarrow> added = [''jsdom''] | Inl _ \<Rightarrow> False"
  by code_simp

theorem dependency_repair_exact_witness:
  "\<exists>p'. add_dev_dependencies False (known_missing_devdeps demo_missing) demo_product = Inr ([''jsdom''], p') \<and>
     dev_entry p' ''jsdom'' = Some (known_version ''jsdom'')"
proof -
  obtain p' where p': "add_dev_dependencies False (known_missing_devdeps demo_missing) demo_product = Inr ([''jsdom''], p')"
    using demo_added by (auto split: sum.splits)
  from dependency_repair_exact [OF p'] p' show ?thesis by auto
qed

end
