(* ===== verification/FileTree.thy ===== *)
theory FileTree
  imports ReleaseTree
begin

section \<open>Directory trees\<close>

text \<open>
  The files of a machine as the components below see them through \<open>pathlib\<close>: a directory has
  its entries, a modification time that may not be readable, and may refuse to be listed; a file has
  its bytes, or cannot be opened. A \<open>place\<close> is such a tree with the path of a workspace in it, so that
  a path with \<open>..\<close> can leave the workspace. A symbolic link counts as what it leads to, and
  directories that may not be entered at all are not covered.
\<close>

record dir_info =
  mtime :: "int option"
  listable :: bool

datatype node =
    RegFile "string option"
  | Dir dir_info "(string \<times> node) list"
  | Special

fun is_dir :: "node \<Rightarrow> bool" where
  "is_dir (Dir _ _) = True"
| "is_dir _ = False"

fun is_reg :: "node \<Rightarrow> bool" where
  "is_reg (RegFile _) = True"
| "is_reg _ = False"

lemma is_reg_iff: "is_reg n \<longleftrightarrow> (\<exists>b. n = RegFile b)"
  by (cases n) auto

fun node_at :: "node \<Rightarrow> string list \<Rightarrow> node option" where
  "node_at n [] = Some n"
| "node_at n (p # ps) =
     (case n of
        Dir _ es \<Rightarrow> (case dict_get es p of None \<Rightarrow> None | Some m \<Rightarrow> node_at m ps)
      | _ \<Rightarrow> None)"

text \<open>Resolution of a path from a directory with the directories above it, the nearest first; the
  root is its own parent.\<close>

fun descend :: "node list \<Rightarrow> string list \<Rightarrow> node option" where
  "descend [] ps = None"
| "descend (n # up) [] = Some n"
| "descend (n # up) (p # ps) =
     (case n of
        Dir _ es \<Rightarrow>
          if p = ''..'' then descend (if up = [] then [n] else up) ps
          else (case dict_get es p of None \<Rightarrow> None | Some m \<Rightarrow> descend (m # n # up) ps)
      | _ \<Rightarrow> None)"

record place =
  machine_root :: node
  base :: "string list"

text \<open>\<open>repo_root / rel\<close>: an absolute path replaces the left side.\<close>

definition located :: "place \<Rightarrow> string \<Rightarrow> node option" where
  "located pl rel =
     descend [machine_root pl] ((if startswith rel ''/'' then [] else base pl) @ path_parts rel)"

definition is_file :: "place \<Rightarrow> string \<Rightarrow> bool" where
  "is_file pl rel \<longleftrightarrow> (case located pl rel of Some (RegFile _) \<Rightarrow> True | _ \<Rightarrow> False)"

definition file_bytes :: "place \<Rightarrow> string \<Rightarrow> string option" where
  "file_bytes pl rel = (case located pl rel of Some (RegFile b) \<Rightarrow> b | _ \<Rightarrow> None)"

lemma file_bytes_is_file: "file_bytes pl rel = Some b \<Longrightarrow> is_file pl rel"
  by (auto simp: file_bytes_def is_file_def split: option.splits node.splits)

lemma not_file_no_bytes: "\<not> is_file pl rel \<Longrightarrow> file_bytes pl rel = None"
  by (cases "file_bytes pl rel") (auto dest: file_bytes_is_file)

lemma descend_plain: "''..'' \<notin> set ps \<Longrightarrow> descend (n # up) ps = node_at n ps"
  by (induction n ps arbitrary: up rule: node_at.induct) (auto split: node.splits option.splits)

lemma located_plain:
  "\<lbrakk>\<not> startswith rel ''/''; ''..'' \<notin> set (base pl); ''..'' \<notin> set (path_parts rel)\<rbrakk>
   \<Longrightarrow> located pl rel = node_at (machine_root pl) (base pl @ path_parts rel)"
  by (simp add: located_def descend_plain)

lemma node_at_append: "node_at n (ps @ qs) = Option.bind (node_at n ps) (\<lambda>m. node_at m qs)"
  by (induction n ps rule: node_at.induct) (auto split: node.splits option.splits)

subsection \<open>Putting a file or a directory in place, and taking it away\<close>

text \<open>The directory it lies in has to exist. The modification times above are left alone: no component
  reads one after such a change.\<close>

fun alter :: "string list \<Rightarrow> node option \<Rightarrow> node \<Rightarrow> node" where
  "alter [] m n = n"
| "alter (p # ps) m n =
     (case n of
        Dir i es \<Rightarrow>
          Dir i (if ps = [] then (case m of None \<Rightarrow> dict_del es p | Some k \<Rightarrow> dict_set es p k)
                 else (case dict_get es p of None \<Rightarrow> es | Some k \<Rightarrow> dict_set es p (alter ps m k)))
      | _ \<Rightarrow> n)"

lemma node_at_alter_same:
  "\<lbrakk>ps \<noteq> []; node_at n (butlast ps) = Some d; is_dir d\<rbrakk>
   \<Longrightarrow> node_at (alter ps m n) (ps @ rs) = Option.bind m (\<lambda>k. node_at k rs)"
proof (induction ps m n arbitrary: rs rule: alter.induct)
  case (1 m n)
  then show ?case by simp
next
  case (2 p ps m n)
  then show ?case
    by (cases n) (auto split: option.splits if_splits elim: is_dir.elims)
qed

lemma node_at_alter_other:
  "\<lbrakk>\<not> prefix ps qs; \<not> prefix qs ps\<rbrakk> \<Longrightarrow> node_at (alter ps m n) qs = node_at n qs"
proof (induction ps m n arbitrary: qs rule: alter.induct)
  case (1 m n)
  then show ?case by simp
next
  case (2 p ps m n)
  then obtain q qs' where q: "qs = q # qs'" by (cases qs) auto
  show ?case
  proof (cases n)
    case (Dir i es)
    with 2 q show ?thesis by (cases ps) (auto split: option.splits)
  qed (simp_all add: q)
qed

end
