(* ===== verification/Freshness.thy ===== *)
theory Freshness
  imports FileTree Enforcement
begin

section \<open>Freshness of the evidence (\<open>product/evidence_freshness.py\<close>)\<close>

text \<open>
  The proof of a delivery is bound to the bytes it was made for: a snapshot hashes the product files
  when the proof has run, and the closeout hashes them again. The digest, as a function of the bytes of
  a file, and the clock are arguments. The last part is the use of the report in
  \<open>product/delivery.py\<close>: what \<open>run_delivery\<close> verifies at closeout, and \<open>_apply_evidence_freshness\<close>.
  The records of the manifest are the items of its list \<open>files\<close>.
\<close>

definition EXCLUDED_PREFIXES :: "string list" where
  "EXCLUDED_PREFIXES = [''.signalos/'', ''.git/'', ''node_modules/'']"

definition DEFAULT_EXTRA_FILES :: "string list" where
  "DEFAULT_EXTRA_FILES =
     [''package.json'', ''package-lock.json'', ''pnpm-lock.yaml'', ''yarn.lock'', ''pyproject.toml'',
      ''requirements.txt'', ''index.html'']"

definition SCAN_ROOTS :: "string list" where
  "SCAN_ROOTS = [''src'', ''tests'', ''test'', ''public'']"

definition SCAN_EXCLUDED_DIRS :: "string list" where
  "SCAN_EXCLUDED_DIRS =
     [''node_modules'', ''dist'', ''build'', ''coverage'', ''.signalos'', ''.git'', ''__pycache__'',
      ''.pytest_cache'', ''.cache'', ''.turbo'', ''.next'', ''.vite'', ''.parcel-cache'']"

definition SCAN_EXCLUDED_SUFFIXES :: "string list" where
  "SCAN_EXCLUDED_SUFFIXES = [''.map'']"

definition normalize :: "string \<Rightarrow> string" where
  "normalize rel = lstrip_by (\<lambda>c. c = CHR ''/'') (replace_char (CHR 0x5C) (CHR ''/'') rel)"

definition is_snapshot_candidate :: "string \<Rightarrow> bool" where
  "is_snapshot_candidate rel \<longleftrightarrow>
     rel \<noteq> [] \<and> \<not> list_ex (\<lambda>p. startswith rel p) EXCLUDED_PREFIXES"

subsection \<open>The files of the product\<close>

definition record_path :: "py \<Rightarrow> string option" where
  "record_path r = (case r of PDict d \<Rightarrow> Some (normalize (or_empty_str (get_py d ''path''))) | _ \<Rightarrow> None)"

fun manifest_files :: "place \<Rightarrow> string list \<Rightarrow> string list \<Rightarrow> py list \<Rightarrow> string list \<times> string list" where
  "manifest_files pl seen out [] = (seen, out)"
| "manifest_files pl seen out (r # rs) =
     (case record_path r of
        None \<Rightarrow> manifest_files pl seen out rs
      | Some rel \<Rightarrow>
          if \<not> is_snapshot_candidate rel \<or> rel \<in> set seen then manifest_files pl seen out rs
          else manifest_files pl (rel # seen) (if is_file pl rel then out @ [rel] else out) rs)"

fun extra_files :: "place \<Rightarrow> string list \<Rightarrow> string list \<Rightarrow> string list \<Rightarrow> string list" where
  "extra_files pl seen out [] = out"
| "extra_files pl seen out (rel # rels) =
     (if rel \<notin> set seen \<and> is_file pl rel then extra_files pl (rel # seen) (out @ [rel]) rels
      else extra_files pl seen out rels)"

definition manifest_records :: "(string \<times> py) list option \<Rightarrow> py list" where
  "manifest_records m = (case m of None \<Rightarrow> [] | Some d \<Rightarrow> py_items (get_py d ''files''))"

definition workspace_snapshot_files :: "place \<Rightarrow> (string \<times> py) list option \<Rightarrow> string list" where
  "workspace_snapshot_files pl manifest =
     (let (seen, out) = manifest_files pl [] [] (manifest_records manifest)
      in sort (extra_files pl seen out DEFAULT_EXTRA_FILES))"

subsection \<open>The sweep of the source roots\<close>

definition scanned_suffix :: "string \<Rightarrow> bool" where
  "scanned_suffix name \<longleftrightarrow> \<not> list_ex (\<lambda>s. endswith (lower name) s) SCAN_EXCLUDED_SUFFIXES"

definition pushed_dirs :: "string list \<Rightarrow> (string \<times> node) list \<Rightarrow> (string list \<times> node) list" where
  "pushed_dirs at es =
     rev (map (\<lambda>e. (at @ [fst e], snd e))
       (filter (\<lambda>e. is_dir (snd e) \<and> fst e \<notin> set SCAN_EXCLUDED_DIRS) es))"

definition found_files :: "string list \<Rightarrow> (string \<times> node) list \<Rightarrow> string list" where
  "found_files at es =
     filter is_snapshot_candidate
       (map (\<lambda>e. normalize (join ''/'' (at @ [fst e])))
         (filter (\<lambda>e. is_reg (snd e) \<and> scanned_suffix (fst e)) es))"

lemma pushed_dirs_smaller:
  "(\<Sum>x\<leftarrow>pushed_dirs at es. Suc (size (snd x))) < Suc (size (Dir i es))"
proof -
  have "(\<Sum>x\<leftarrow>pushed_dirs at es. Suc (size (snd x))) =
      (\<Sum>x\<leftarrow>filter (\<lambda>e. is_dir (snd e) \<and> fst e \<notin> set SCAN_EXCLUDED_DIRS) es. Suc (size (snd x)))"
    by (simp add: pushed_dirs_def rev_map [symmetric] comp_def)
  also have "\<dots> \<le> (\<Sum>x\<leftarrow>es. Suc (size (snd x)))"
    by (induction es) auto
  also have "\<dots> < Suc (size (Dir i es))"
    by (induction es) (auto simp: size_prod_simp)
  finally show ?thesis .
qed

function scan_stack :: "(string list \<times> node) list \<Rightarrow> string list \<Rightarrow> string list" where
  "scan_stack [] out = out"
| "scan_stack ((at, n) # stack) out =
     (case n of
        Dir i es \<Rightarrow>
          if listable i then scan_stack (pushed_dirs at es @ stack) (out @ found_files at es)
          else scan_stack stack out
      | _ \<Rightarrow> scan_stack stack out)"
  by pat_completeness auto
termination
  by (relation "measure (\<lambda>(stack, _). \<Sum>x\<leftarrow>stack. Suc (size (snd x)))")
    (use pushed_dirs_smaller in auto)

definition scan_root :: "place \<Rightarrow> string \<Rightarrow> string list" where
  "scan_root pl r =
     (case located pl r of Some (Dir i es) \<Rightarrow> scan_stack [([r], Dir i es)] [] | _ \<Rightarrow> [])"

definition workspace_scan_files :: "place \<Rightarrow> string list" where
  "workspace_scan_files pl =
     sorted_set (concat (map (scan_root pl) SCAN_ROOTS) @ filter (is_file pl) DEFAULT_EXTRA_FILES)"

text \<open>What the sweep is for: the files below a root, through directories that can be listed and are not
  excluded.\<close>

inductive swept :: "node \<Rightarrow> string list \<Rightarrow> bool" where
  here: "\<lbrakk>listable i; (f, RegFile b) \<in> set es; scanned_suffix f\<rbrakk> \<Longrightarrow> swept (Dir i es) [f]"
| below: "\<lbrakk>listable i; (d, m) \<in> set es; is_dir m; d \<notin> set SCAN_EXCLUDED_DIRS; swept m ps\<rbrakk>
    \<Longrightarrow> swept (Dir i es) (d # ps)"

inductive_simps swept_Dir: "swept (Dir i es) ps"
inductive_cases swept_RegFile [elim!]: "swept (RegFile b) ps"
inductive_cases swept_Special [elim!]: "swept Special ps"

definition swept_from :: "(string list \<times> node) list \<Rightarrow> string set" where
  "swept_from stack =
     {rel. is_snapshot_candidate rel \<and>
           (\<exists>(at, n) \<in> set stack. \<exists>ps. swept n ps \<and> rel = normalize (join ''/'' (at @ ps)))}"

lemma swept_from_Nil [simp]: "swept_from [] = {}"
  by (simp add: swept_from_def)

lemma swept_from_append: "swept_from (xs @ ys) = swept_from xs \<union> swept_from ys"
  by (auto simp: swept_from_def)

lemma swept_from_file [simp]: "\<not> is_dir n \<Longrightarrow> swept_from [(at, n)] = {}"
  by (cases n) (auto simp: swept_from_def)

lemma swept_from_unlistable [simp]: "\<not> listable i \<Longrightarrow> swept_from [(at, Dir i es)] = {}"
  by (auto simp: swept_from_def swept_Dir)

lemma swept_from_dir:
  assumes "listable i"
  shows "swept_from [(at, Dir i es)] = set (found_files at es) \<union> swept_from (pushed_dirs at es)"
proof (intro set_eqI iffI)
  fix rel assume "rel \<in> swept_from [(at, Dir i es)]"
  then obtain ps where c: "is_snapshot_candidate rel" and ps: "swept (Dir i es) ps"
    and rel: "rel = normalize (join ''/'' (at @ ps))" by (auto simp: swept_from_def)
  from ps show "rel \<in> set (found_files at es) \<union> swept_from (pushed_dirs at es)"
    unfolding swept_Dir
    using c rel by (force simp: found_files_def swept_from_def pushed_dirs_def is_reg_iff)
next
  fix rel assume "rel \<in> set (found_files at es) \<union> swept_from (pushed_dirs at es)"
  then show "rel \<in> swept_from [(at, Dir i es)]"
  proof
    assume "rel \<in> set (found_files at es)"
    then obtain f b where f: "(f, RegFile b) \<in> set es" "scanned_suffix f" "is_snapshot_candidate rel"
      and rel: "rel = normalize (join ''/'' (at @ [f]))"
      by (auto simp: found_files_def is_reg_iff)
    from swept.here [OF assms f(1,2)] f(3) rel show ?thesis by (auto simp: swept_from_def)
  next
    assume "rel \<in> swept_from (pushed_dirs at es)"
    then obtain d m ps where d: "(d, m) \<in> set es" "is_dir m" "d \<notin> set SCAN_EXCLUDED_DIRS" "swept m ps"
      and c: "is_snapshot_candidate rel" and rel: "rel = normalize (join ''/'' ((at @ [d]) @ ps))"
      by (auto simp: swept_from_def pushed_dirs_def)
    from swept.below [OF assms d] c rel show ?thesis by (auto simp: swept_from_def)
  qed
qed

lemma scan_stack_set: "set (scan_stack stack out) = set out \<union> swept_from stack"
proof (induction stack out rule: scan_stack.induct)
  case (1 out)
  then show ?case by simp
next
  case (2 at n stack out)
  have "swept_from ((at, n) # stack) = swept_from [(at, n)] \<union> swept_from stack"
    using swept_from_append [of "[(at, n)]" stack] by simp
  then show ?case
    using 2 by (cases n) (auto simp: swept_from_append swept_from_dir)
qed

lemma in_scan_root:
  "rel \<in> set (scan_root pl r) \<longleftrightarrow>
     is_snapshot_candidate rel \<and>
     (\<exists>n ps. located pl r = Some n \<and> swept n ps \<and> rel = normalize (join ''/'' (r # ps)))"
proof (cases "located pl r")
  case None
  then show ?thesis by (simp add: scan_root_def)
next
  case (Some n)
  then have "scan_root pl r = (if is_dir n then scan_stack [([r], n)] [] else [])"
    by (cases n) (simp_all add: scan_root_def del: scan_stack.simps)
  moreover have "\<not> is_dir n \<Longrightarrow> \<not> swept n ps" for ps
    by (cases n) auto
  ultimately show ?thesis
    using Some by (simp add: scan_stack_set swept_from_def del: scan_stack.simps) blast
qed

lemma in_workspace_scan:
  "rel \<in> set (workspace_scan_files pl) \<longleftrightarrow>
     (rel \<in> set DEFAULT_EXTRA_FILES \<and> is_file pl rel) \<or>
     (is_snapshot_candidate rel \<and>
      (\<exists>r \<in> set SCAN_ROOTS. \<exists>n ps. located pl r = Some n \<and> swept n ps \<and>
         rel = normalize (join ''/'' (r # ps))))"
  by (auto simp: workspace_scan_files_def sorted_set_def in_scan_root)

subsection \<open>Snapshot and verification\<close>

record snapshot =
  algo :: string
  captured_at :: string
  snap_files :: "(string \<times> string) list"
  scanned :: "string list option"

fun hash_files :: "(string \<Rightarrow> string) \<Rightarrow> place \<Rightarrow> (string \<times> string) list \<Rightarrow> string list \<Rightarrow> (string \<times> string) list" where
  "hash_files sha pl hashes [] = hashes"
| "hash_files sha pl hashes (f # fs) =
     (let rel = normalize f in
      if \<not> is_snapshot_candidate rel \<or> \<not> is_file pl rel then hash_files sha pl hashes fs
      else case file_bytes pl rel of
        None \<Rightarrow> hash_files sha pl hashes fs
      | Some b \<Rightarrow> hash_files sha pl (dict_set hashes rel (sha b)) fs)"

definition snapshot_workspace :: "(string \<Rightarrow> string) \<Rightarrow> string \<Rightarrow> place \<Rightarrow> string list \<Rightarrow> snapshot" where
  "snapshot_workspace sha now pl files =
     \<lparr>algo = ''sha256'', captured_at = now, snap_files = hash_files sha pl [] files,
      scanned = Some (workspace_scan_files pl)\<rparr>"

record freshness_report =
  fresh :: bool
  report_algo :: string
  snapshot_captured_at :: "string option"
  checked_at :: string
  files_verified :: nat
  changed_files :: "string list"
  added_files :: "string list"
  removed_files :: "string list"

definition snapshot_removed :: "place \<Rightarrow> (string \<times> string) list \<Rightarrow> string list" where
  "snapshot_removed pl hashes = filter (\<lambda>rel. file_bytes pl rel = None) (map fst hashes)"

definition snapshot_changed :: "(string \<Rightarrow> string) \<Rightarrow> place \<Rightarrow> (string \<times> string) list \<Rightarrow> string list" where
  "snapshot_changed sha pl hashes =
     map fst (filter (\<lambda>(rel, expected).
       case file_bytes pl rel of None \<Rightarrow> False | Some b \<Rightarrow> sha b \<noteq> expected) hashes)"

definition snapshot_added :: "place \<Rightarrow> (string \<times> string) list \<Rightarrow> string list option \<Rightarrow> string list \<Rightarrow> string list" where
  "snapshot_added pl hashes baseline current =
     sorted_set
       (filter (\<lambda>rel. is_snapshot_candidate rel \<and> rel \<notin> set (map fst hashes) \<and> is_file pl rel)
          (map normalize current) @
        (case baseline of
           None \<Rightarrow> []
         | Some known \<Rightarrow>
             filter (\<lambda>rel. rel \<notin> set (map fst hashes) \<and> rel \<notin> set (map normalize known))
               (workspace_scan_files pl)))"

definition verify_workspace_snapshot ::
  "(string \<Rightarrow> string) \<Rightarrow> string \<Rightarrow> place \<Rightarrow> snapshot option \<Rightarrow> string list \<Rightarrow> freshness_report" where
  "verify_workspace_snapshot sha now pl snap current =
     (let hashes = (case snap of None \<Rightarrow> [] | Some s \<Rightarrow> snap_files s);
          changed = snapshot_changed sha pl hashes;
          removed = snapshot_removed pl hashes;
          added = snapshot_added pl hashes (Option.bind snap scanned) current
      in \<lparr>fresh = (changed = [] \<and> added = [] \<and> removed = []),
          report_algo = (case snap of None \<Rightarrow> ''sha256'' | Some s \<Rightarrow> algo s),
          snapshot_captured_at = map_option captured_at snap, checked_at = now,
          files_verified = length hashes, changed_files = sort changed, added_files = added,
          removed_files = sort removed\<rparr>)"

subsection \<open>At closeout (\<open>product/delivery.py\<close>)\<close>

record closeout =
  closure_level :: "string option"
  known_limitations :: "string list"
  evidence_freshness :: "(freshness_report \<times> string) option"

text \<open>The snapshots that the validation and the proof left; the report is given with the mode of the rule.\<close>

text \<open>
  The verification at closeout. \<open>raised\<close> says that it ended by an exception (in the sweep or the hashing): the source
  catches that, adds a line to the errors of the run and goes on without a report.
\<close>

definition closeout_freshness ::
  "(string \<Rightarrow> string) \<Rightarrow> string \<Rightarrow> bool \<Rightarrow> snapshot option \<Rightarrow> snapshot option \<Rightarrow> place \<Rightarrow>
   (string \<times> py) list option \<Rightarrow> enforcement_state \<Rightarrow> (freshness_report \<times> string) option" where
  "closeout_freshness sha now raised validation proof pl manifest enf =
     (if raised then None else
      case (case proof of Some s \<Rightarrow> Some s | None \<Rightarrow> validation) of
        None \<Rightarrow> None
      | Some s \<Rightarrow>
          Some (verify_workspace_snapshot sha now pl (Some s) (workspace_snapshot_files pl manifest),
            let m = rule_mode enf ''gate-compliance'' in if m \<in> {''strict'', ''warn''} then m else ''strict''))"

definition apply_evidence_freshness :: "closeout \<Rightarrow> (freshness_report \<times> string) option \<Rightarrow> closeout" where
  "apply_evidence_freshness c report =
     (let c = c\<lparr>evidence_freshness := report\<rparr> in
      case report of
        None \<Rightarrow> c
      | Some (r, mode) \<Rightarrow>
          if fresh r then c
          else
            let drifted = map (\<lambda>p. ''changed: '' @ p) (changed_files r)
                  @ map (\<lambda>p. ''added: '' @ p) (added_files r)
                  @ map (\<lambda>p. ''removed: '' @ p) (removed_files r);
                c = c\<lparr>known_limitations := known_limitations c @
                  [''evidence is stale: files changed after proof ('' @ join ''; '' drifted @ '')'']\<rparr>
            in if mode \<noteq> ''warn'' \<and> closure_level c \<in> {Some ''ready'', Some ''closeable'', None}
               then c\<lparr>closure_level := Some ''partial''\<rparr> else c)"

subsection \<open>What a snapshot holds\<close>

lemma lstrip_by_idem: "lstrip_by p (lstrip_by p s) = lstrip_by p s"
  by (induction s) (auto simp: lstrip_by_def)

lemma lstrip_by_set: "set (lstrip_by p s) \<subseteq> set s"
  by (auto simp: lstrip_by_def dest: set_dropWhileD)

lemma normalize_idem [simp]: "normalize (normalize rel) = normalize rel"
proof -
  have "CHR 0x5C \<notin> set (normalize rel)"
    using lstrip_by_set [of "\<lambda>c. c = CHR ''/''" "replace_char (CHR 0x5C) (CHR ''/'') rel"]
      replace_char_gone [of "CHR 0x5C" "CHR ''/''" rel]
    by (auto simp: normalize_def)
  then show ?thesis by (simp add: normalize_def replace_char_absent lstrip_by_idem)
qed

lemma extra_files_plain: "rel \<in> set DEFAULT_EXTRA_FILES \<Longrightarrow> normalize rel = rel \<and> is_snapshot_candidate rel"
  unfolding DEFAULT_EXTRA_FILES_def
  by (simp, elim disjE; simp add: normalize_def lstrip_by_def replace_char_def is_snapshot_candidate_def
      EXCLUDED_PREFIXES_def)

lemma scan_normal: "rel \<in> set (workspace_scan_files pl) \<Longrightarrow> normalize rel = rel"
  unfolding in_workspace_scan using extra_files_plain normalize_idem by blast

definition captured :: "place \<Rightarrow> string list \<Rightarrow> string set" where
  "captured pl files =
     {rel. rel \<in> normalize ` set files \<and> is_snapshot_candidate rel \<and> file_bytes pl rel \<noteq> None}"

lemma hash_files_get:
  "dict_get (hash_files sha pl hashes files) rel =
     (if rel \<in> captured pl files then map_option sha (file_bytes pl rel) else dict_get hashes rel)"
  by (induction sha pl hashes files rule: hash_files.induct)
    (auto simp: captured_def Let_def not_file_no_bytes split: option.splits)

lemma hash_files_distinct:
  "distinct (map fst hashes) \<Longrightarrow> distinct (map fst (hash_files sha pl hashes files))"
  by (induction sha pl hashes files rule: hash_files.induct)
    (auto simp: Let_def dict_set_distinct split: option.splits)

lemma hash_files_entries:
  "(rel, h) \<in> set (hash_files sha pl [] files) \<longleftrightarrow>
     rel \<in> captured pl files \<and> map_option sha (file_bytes pl rel) = Some h"
  using hash_files_distinct [of "[]" sha pl files] hash_files_get [of sha pl "[]" files rel]
  by (simp add: map_of_eq_Some_iff [symmetric] map_of_eq_dict_get)

lemma hash_files_keys [simp]: "fst ` set (hash_files sha pl [] files) = captured pl files"
proof -
  have "rel \<in> fst ` set (hash_files sha pl [] files) \<longleftrightarrow> rel \<in> captured pl files" for rel
  proof -
    have "rel \<in> fst ` set (hash_files sha pl [] files) \<longleftrightarrow> (\<exists>h. (rel, h) \<in> set (hash_files sha pl [] files))"
      by force
    then show ?thesis by (auto simp: hash_files_entries captured_def)
  qed
  then show ?thesis by blast
qed

lemma manifest_files_spec:
  "manifest_files pl seen out rs = (seen', out') \<Longrightarrow>
     set seen' = set seen \<union> {rel. is_snapshot_candidate rel \<and> Some rel \<in> record_path ` set rs} \<and>
     set out' = set out \<union>
       {rel. is_snapshot_candidate rel \<and> Some rel \<in> record_path ` set rs \<and> rel \<notin> set seen \<and> is_file pl rel}"
  by (induction pl seen out rs rule: manifest_files.induct) (auto split: option.splits if_splits)

lemma extra_files_spec:
  "set (extra_files pl seen out rels) = set out \<union> {rel \<in> set rels. rel \<notin> set seen \<and> is_file pl rel}"
  by (induction pl seen out rels rule: extra_files.induct) auto

text \<open>The paths a manifest speaks of; which of them are files is a matter of the moment.\<close>

definition product_paths :: "(string \<times> py) list option \<Rightarrow> string set" where
  "product_paths manifest =
     {rel. is_snapshot_candidate rel \<and>
           (rel \<in> set DEFAULT_EXTRA_FILES \<or> Some rel \<in> record_path ` set (manifest_records manifest))}"

lemma record_path_normal: "record_path r = Some rel \<Longrightarrow> normalize rel = rel"
  by (auto simp: record_path_def split: py.splits)

lemma product_paths_normal: "rel \<in> product_paths manifest \<Longrightarrow> normalize rel = rel"
  using extra_files_plain record_path_normal by (fastforce simp: product_paths_def)

lemma snapshot_files_set: "set (workspace_snapshot_files pl manifest) = {rel \<in> product_paths manifest. is_file pl rel}"
proof -
  obtain seen out where m: "manifest_files pl [] [] (manifest_records manifest) = (seen, out)" by fastforce
  from manifest_files_spec [OF m] show ?thesis
    using extra_files_plain
    by (auto simp: workspace_snapshot_files_def m extra_files_spec product_paths_def)
qed

lemma captured_snapshot_files:
  "captured pl (workspace_snapshot_files pl manifest) = {rel \<in> product_paths manifest. file_bytes pl rel \<noteq> None}"
proof -
  have "normalize ` {rel \<in> product_paths manifest. is_file pl rel} = {rel \<in> product_paths manifest. is_file pl rel}"
    using product_paths_normal by force
  then show ?thesis
    by (auto simp: captured_def snapshot_files_set product_paths_def intro: file_bytes_is_file)
qed

subsection \<open>Fresh means unchanged\<close>

definition same_digest_same_bytes :: "(string \<Rightarrow> string) \<Rightarrow> place \<Rightarrow> place \<Rightarrow> bool" where
  "same_digest_same_bytes sha p q \<longleftrightarrow>
     (\<forall>rel b c. file_bytes p rel = Some b \<longrightarrow> file_bytes q rel = Some c \<longrightarrow> sha b = sha c \<longrightarrow> b = c)"

lemma no_change_iff:
  assumes "same_digest_same_bytes sha pl q"
  shows "snapshot_changed sha q (hash_files sha pl [] files) = [] \<and>
      snapshot_removed q (hash_files sha pl [] files) = [] \<longleftrightarrow>
    (\<forall>rel \<in> captured pl files. file_bytes q rel = file_bytes pl rel)"
proof
  assume same: "\<forall>rel \<in> captured pl files. file_bytes q rel = file_bytes pl rel"
  then show "snapshot_changed sha q (hash_files sha pl [] files) = [] \<and>
      snapshot_removed q (hash_files sha pl [] files) = []"
    by (auto simp: snapshot_changed_def snapshot_removed_def filter_empty_conv hash_files_entries
        captured_def split: option.splits)
next
  assume none: "snapshot_changed sha q (hash_files sha pl [] files) = [] \<and>
      snapshot_removed q (hash_files sha pl [] files) = []"
  show "\<forall>rel \<in> captured pl files. file_bytes q rel = file_bytes pl rel"
  proof
    fix rel assume c: "rel \<in> captured pl files"
    then obtain b where b: "file_bytes pl rel = Some b" by (auto simp: captured_def)
    with c have e: "(rel, sha b) \<in> set (hash_files sha pl [] files)" by (simp add: hash_files_entries)
    from none c have "file_bytes q rel \<noteq> None"
      by (auto simp: snapshot_removed_def filter_empty_conv)
    then obtain d where d: "file_bytes q rel = Some d" by blast
    with none e have "sha d = sha b"
      unfolding snapshot_changed_def map_is_Nil_conv filter_empty_conv by fastforce
    with assms b d show "file_bytes q rel = file_bytes pl rel"
      unfolding same_digest_same_bytes_def by metis
  qed
qed

lemma sorted_set_empty [simp]: "sorted_set xs = [] \<longleftrightarrow> xs = []"
  by (metis sorted_set_def set_empty set_remdups set_sort)

lemma none_added_iff:
  "snapshot_added q (hash_files sha pl [] files) (Some (workspace_scan_files pl)) current = [] \<longleftrightarrow>
     (\<forall>rel \<in> normalize ` set current. is_snapshot_candidate rel \<and> is_file q rel \<longrightarrow> rel \<in> captured pl files) \<and>
     set (workspace_scan_files q) \<subseteq> captured pl files \<union> set (workspace_scan_files pl)"
proof -
  have "normalize ` set (workspace_scan_files pl) = set (workspace_scan_files pl)"
    using scan_normal by force
  then show ?thesis
    by (auto simp: snapshot_added_def filter_empty_conv)
qed

lemma fresh_iff:
  assumes "same_digest_same_bytes sha pl q"
  shows "fresh (verify_workspace_snapshot sha t q (Some (snapshot_workspace sha s pl files)) current) \<longleftrightarrow>
    (\<forall>rel \<in> captured pl files. file_bytes q rel = file_bytes pl rel) \<and>
    (\<forall>rel \<in> normalize ` set current. is_snapshot_candidate rel \<and> is_file q rel \<longrightarrow> rel \<in> captured pl files) \<and>
    set (workspace_scan_files q) \<subseteq> captured pl files \<union> set (workspace_scan_files pl)"
proof -
  have "fresh (verify_workspace_snapshot sha t q (Some (snapshot_workspace sha s pl files)) current) \<longleftrightarrow>
    (snapshot_changed sha q (hash_files sha pl [] files) = [] \<and>
      snapshot_removed q (hash_files sha pl [] files) = []) \<and>
    snapshot_added q (hash_files sha pl [] files) (Some (workspace_scan_files pl)) current = []"
    by (auto simp: verify_workspace_snapshot_def snapshot_workspace_def Let_def)
  then show ?thesis unfolding no_change_iff [OF assms] none_added_iff .
qed

text \<open>What a fresh report says: every product path has the bytes it had, and the sweep finds no file that
  it did not find before. Digests are taken not to collide on the two states of a file. A product file that could not be read at the proof
  counts as new for as long as it is there.\<close>

lemma product_fresh_iff:
  assumes "same_digest_same_bytes sha pl q"
  shows "fresh (verify_workspace_snapshot sha t q
      (Some (snapshot_workspace sha s pl (workspace_snapshot_files pl manifest)))
      (workspace_snapshot_files q manifest)) \<longleftrightarrow>
    (\<forall>rel \<in> product_paths manifest. file_bytes q rel = file_bytes pl rel \<and>
       (is_file q rel \<longrightarrow> file_bytes q rel \<noteq> None)) \<and>
    set (workspace_scan_files q) \<subseteq>
      {rel \<in> product_paths manifest. file_bytes pl rel \<noteq> None} \<union> set (workspace_scan_files pl)"
proof -
  let ?P = "product_paths manifest"
  have cur: "normalize ` set (workspace_snapshot_files q manifest) = {rel \<in> ?P. is_file q rel}"
    unfolding snapshot_files_set using product_paths_normal by force
  have "file_bytes q rel = file_bytes pl rel \<and> (is_file q rel \<longrightarrow> file_bytes q rel \<noteq> None) \<longleftrightarrow>
    (file_bytes pl rel \<noteq> None \<longrightarrow> file_bytes q rel = file_bytes pl rel) \<and>
    (is_file q rel \<longrightarrow> file_bytes pl rel \<noteq> None)" for rel
    using not_file_no_bytes [of q rel] by (cases "is_file q rel"; cases "file_bytes pl rel") auto
  moreover have "rel \<in> ?P \<Longrightarrow> is_snapshot_candidate rel" for rel
    by (simp add: product_paths_def)
  ultimately show ?thesis
    unfolding fresh_iff [OF assms] captured_snapshot_files cur by auto
qed

subsection \<open>The evidence of the delivery itself\<close>

text \<open>A write, or a removal, anywhere below \<open>.signalos\<close>.\<close>

definition with_evidence :: "string list \<Rightarrow> node option \<Rightarrow> place \<Rightarrow> place" where
  "with_evidence ps n pl = pl\<lparr>machine_root := alter (base pl @ ''.signalos'' # ps) n (machine_root pl)\<rparr>"

definition plain_product_path :: "string \<Rightarrow> bool" where
  "plain_product_path rel \<longleftrightarrow>
     \<not> startswith rel ''/'' \<and> ''..'' \<notin> set (path_parts rel) \<and>
     (case path_parts rel of [] \<Rightarrow> False | p # _ \<Rightarrow> p \<noteq> ''.signalos'')"

lemma located_with_evidence:
  assumes "''..'' \<notin> set (base pl)" "plain_product_path rel"
  shows "located (with_evidence ps n pl) rel = located pl rel"
proof -
  obtain p qs where p: "path_parts rel = p # qs" "p \<noteq> ''.signalos''" "''..'' \<notin> set (path_parts rel)"
    "\<not> startswith rel ''/''"
    using assms(2) by (auto simp: plain_product_path_def split: list.splits)
  have "node_at (alter (base pl @ ''.signalos'' # ps) n (machine_root pl)) (base pl @ path_parts rel) =
      node_at (machine_root pl) (base pl @ path_parts rel)"
    using p by (intro node_at_alter_other) auto
  then show ?thesis
    using p assms(1) by (simp add: located_plain with_evidence_def)
qed

lemma bytes_with_evidence:
  assumes "''..'' \<notin> set (base pl)" "plain_product_path rel"
  shows "is_file (with_evidence ps n pl) rel = is_file pl rel"
    "file_bytes (with_evidence ps n pl) rel = file_bytes pl rel"
  by (simp_all add: is_file_def file_bytes_def located_with_evidence [OF assms])

lemma scan_roots_plain: "rel \<in> set (SCAN_ROOTS @ DEFAULT_EXTRA_FILES) \<Longrightarrow> plain_product_path rel"
  unfolding SCAN_ROOTS_def DEFAULT_EXTRA_FILES_def
  by (simp, elim disjE; simp add: plain_product_path_def path_parts_def)

lemma scan_with_evidence:
  assumes "''..'' \<notin> set (base pl)"
  shows "workspace_scan_files (with_evidence ps n pl) = workspace_scan_files pl"
proof -
  have "r \<in> set SCAN_ROOTS \<Longrightarrow> scan_root (with_evidence ps n pl) r = scan_root pl r" for r
    by (simp add: scan_root_def located_with_evidence [OF assms] scan_roots_plain)
  then have "map (scan_root (with_evidence ps n pl)) SCAN_ROOTS = map (scan_root pl) SCAN_ROOTS"
    by (intro map_cong refl)
  moreover have "filter (is_file (with_evidence ps n pl)) DEFAULT_EXTRA_FILES = filter (is_file pl) DEFAULT_EXTRA_FILES"
    by (rule filter_cong) (simp_all add: bytes_with_evidence [OF assms] scan_roots_plain)
  ultimately show ?thesis unfolding workspace_scan_files_def by (simp only:)
qed

lemma files_with_evidence:
  assumes "''..'' \<notin> set (base pl)" "\<forall>rel \<in> product_paths manifest. plain_product_path rel"
  shows "set (workspace_snapshot_files (with_evidence ps n pl) manifest) =
    set (workspace_snapshot_files pl manifest)"
  using assms by (auto simp: snapshot_files_set bytes_with_evidence)

subsection \<open>Properties\<close>

definition demo_place :: "string \<Rightarrow> (string \<times> node) list \<Rightarrow> place" where
  "demo_place a others =
     \<lparr>machine_root = Dir \<lparr>mtime = Some 0, listable = True\<rparr>
        [(''w'', Dir \<lparr>mtime = Some 0, listable = True\<rparr>
           [(''src'', Dir \<lparr>mtime = Some 0, listable = True\<rparr> ((''a.ts'', RegFile (Some a)) # others)),
            (''.signalos'', Dir \<lparr>mtime = Some 0, listable = True\<rparr> [(''x'', RegFile (Some ''x''))])])],
      base = [''w'']\<rparr>"

definition demo_manifest :: "(string \<times> py) list option" where
  "demo_manifest = Some [(''files'', PList [PDict [(''path'', PStr ''src/a.ts'')]])]"

lemma demo_path: "''src/a.ts'' \<in> product_paths demo_manifest"
  unfolding product_paths_def mem_Collect_eq by code_simp

text \<open>C13: a delivery that closes as ready under the strict rule is the one that was proved. When the
  verification at closeout ran to its end and keeps the level ready, or closeable, against the snapshot of the proof,
  every product path has the bytes of the proof, and every file that the sweep reaches below a source root was
  found by the sweep of the proof too, or is a product path that was readable at the proof and has the same bytes.
  The statement is for two states of the workspace on whose files the digest does not collide.\<close>

theorem ready_delivery_is_proven:
  assumes "same_digest_same_bytes sha pl q" "rule_mode enf ''gate-compliance'' \<noteq> ''warn''"
    and "closure_level (apply_evidence_freshness c (closeout_freshness sha t False validation
      (Some (snapshot_workspace sha s pl (workspace_snapshot_files pl manifest))) q manifest enf))
      \<in> {Some ''ready'', Some ''closeable''}"
  shows "(\<forall>rel \<in> product_paths manifest. file_bytes q rel = file_bytes pl rel) \<and>
    (\<forall>r \<in> set SCAN_ROOTS. \<forall>n ps rel. located q r = Some n \<and> swept n ps \<and>
        rel = normalize (join ''/'' (r # ps)) \<and> is_snapshot_candidate rel \<longrightarrow>
        rel \<in> set (workspace_scan_files pl) \<or>
        rel \<in> product_paths manifest \<and> file_bytes pl rel \<noteq> None \<and> file_bytes q rel = file_bytes pl rel)"
proof -
  let ?r = "verify_workspace_snapshot sha t q
      (Some (snapshot_workspace sha s pl (workspace_snapshot_files pl manifest)))
      (workspace_snapshot_files q manifest)"
  have "fresh ?r"
    using assms(2,3) by (auto simp: apply_evidence_freshness_def closeout_freshness_def Let_def split: if_splits)
  then have f: "\<forall>rel \<in> product_paths manifest. file_bytes q rel = file_bytes pl rel"
    "set (workspace_scan_files q) \<subseteq>
      {rel \<in> product_paths manifest. file_bytes pl rel \<noteq> None} \<union> set (workspace_scan_files pl)"
    unfolding product_fresh_iff [OF assms(1)] by auto
  have "rel \<in> set (workspace_scan_files pl) \<or>
      rel \<in> product_paths manifest \<and> file_bytes pl rel \<noteq> None \<and> file_bytes q rel = file_bytes pl rel"
    if "r \<in> set SCAN_ROOTS" "located q r = Some n" "swept n ps"
      "rel = normalize (join ''/'' (r # ps))" "is_snapshot_candidate rel" for r n ps rel
  proof -
    from that have "rel \<in> set (workspace_scan_files q)" unfolding in_workspace_scan by blast
    with f show ?thesis by blast
  qed
  with f(1) show ?thesis by blast
qed

definition strict_rules :: enforcement_state where
  "strict_rules = \<lparr>trust_tier = ''T2'', rule_modes = [], forbidden_paths = [], forbidden_actions = [],
     wave_frozen = False, signed_gates = [], trust_tier_paths = []\<rparr>"

definition ready_closeout :: closeout where
  "ready_closeout = \<lparr>closure_level = Some ''ready'', known_limitations = [], evidence_freshness = None\<rparr>"

definition demo_close :: "place \<Rightarrow> place \<Rightarrow> closeout" where
  "demo_close pl q =
     apply_evidence_freshness ready_closeout (closeout_freshness (\<lambda>x. x) ''t'' False None
       (Some (snapshot_workspace (\<lambda>x. x) ''s'' pl (workspace_snapshot_files pl demo_manifest))) q
       demo_manifest strict_rules)"

definition later_evidence :: place where
  "later_evidence = with_evidence [''x''] (Some (RegFile (Some ''y''))) (demo_place ''1'' [])"

theorem ready_delivery_is_proven_witness:
  "closure_level (demo_close (demo_place ''1'' []) later_evidence) = Some ''ready'' \<and>
   file_bytes later_evidence ''src/a.ts'' = file_bytes (demo_place ''1'' []) ''src/a.ts''"
proof -
  have inj: "same_digest_same_bytes (\<lambda>x. x) (demo_place ''1'' []) later_evidence"
    by (simp add: same_digest_same_bytes_def)
  have strict: "rule_mode strict_rules ''gate-compliance'' \<noteq> ''warn''" by code_simp
  have ready: "closure_level (demo_close (demo_place ''1'' []) later_evidence) = Some ''ready''"
    by code_simp
  then have level: "closure_level (demo_close (demo_place ''1'' []) later_evidence) \<in> {Some ''ready'', Some ''closeable''}"
    by simp
  have "''src/a.ts'' \<in> product_paths demo_manifest" by (rule demo_path)
  with ready ready_delivery_is_proven [OF inj strict level [unfolded demo_close_def]] show ?thesis by blast
qed

text \<open>A delivery does not make its own proof stale. Whatever is written or removed below
  \<open>.signalos\<close>, the verification of a snapshot gives the same report, when the product's paths neither
  point there nor climb with \<open>..\<close>.\<close>

theorem own_evidence_keeps_fresh:
  assumes "''..'' \<notin> set (base pl)"
    and "\<forall>rel \<in> fst ` set (snap_files s) \<union> normalize ` set current. plain_product_path rel"
  shows "verify_workspace_snapshot sha t (with_evidence ps n pl) (Some s) current =
    verify_workspace_snapshot sha t pl (Some s) current"
proof -
  have plain: "plain_product_path rel" if "rel \<in> fst ` set (snap_files s)" for rel
    using assms(2) that by blast
  have "snapshot_changed sha (with_evidence ps n pl) (snap_files s) = snapshot_changed sha pl (snap_files s)"
    unfolding snapshot_changed_def
    by (intro arg_cong [where f = "map fst"] filter_cong refl)
      (clarsimp simp: bytes_with_evidence [OF assms(1) plain] rev_image_eqI split: prod.splits)
  moreover have "snapshot_removed (with_evidence ps n pl) (snap_files s) = snapshot_removed pl (snap_files s)"
    unfolding snapshot_removed_def
    by (intro filter_cong refl) (simp add: bytes_with_evidence [OF assms(1) plain])
  moreover have "filter (\<lambda>rel. is_snapshot_candidate rel \<and> rel \<notin> set (map fst (snap_files s)) \<and>
        is_file (with_evidence ps n pl) rel) (map normalize current) =
      filter (\<lambda>rel. is_snapshot_candidate rel \<and> rel \<notin> set (map fst (snap_files s)) \<and>
        is_file pl rel) (map normalize current)"
    using assms(2) by (intro filter_cong refl) (simp add: bytes_with_evidence [OF assms(1)])
  ultimately show ?thesis
    by (simp add: verify_workspace_snapshot_def snapshot_added_def scan_with_evidence [OF assms(1)] cong: option.case_cong)
qed

theorem own_evidence_keeps_fresh_witness:
  "verify_workspace_snapshot (\<lambda>x. x) ''t'' later_evidence
     (Some (snapshot_workspace (\<lambda>x. x) ''s'' (demo_place ''1'' []) [''src/a.ts''])) [''src/a.ts''] =
   verify_workspace_snapshot (\<lambda>x. x) ''t'' (demo_place ''1'' [])
     (Some (snapshot_workspace (\<lambda>x. x) ''s'' (demo_place ''1'' []) [''src/a.ts''])) [''src/a.ts'']"
proof -
  have "''..'' \<notin> set (base (demo_place ''1'' []))" by code_simp
  moreover have "\<forall>rel \<in> fst ` set (snap_files (snapshot_workspace (\<lambda>x. x) ''s'' (demo_place ''1'' []) [''src/a.ts'']))
      \<union> normalize ` set [''src/a.ts'']. plain_product_path rel" by code_simp
  ultimately show ?thesis unfolding later_evidence_def by (rule own_evidence_keeps_fresh)
qed

subsection \<open>Where the binding has gaps\<close>

text \<open>A source file that the manifest does not name is known by its presence only: it can be edited
  after the proof.\<close>

lemma unlisted_edit_stays_fresh:
  "closure_level (demo_close (demo_place ''1'' [(''b.ts'', RegFile (Some ''proved''))])
     (demo_place ''1'' [(''b.ts'', RegFile (Some ''edited''))])) = Some ''ready''"
  by code_simp

text \<open>A verification that raises leaves no report and the level as it was: the delivery closes as ready, unverified.\<close>

lemma failed_verification_stays_ready:
  "closure_level (apply_evidence_freshness c (closeout_freshness sha t True validation proof pl manifest enf)) = closure_level c"
  by (simp add: closeout_freshness_def apply_evidence_freshness_def)

text \<open>A path that starts with a dot segment passes the exclusion, and leads to the same file.\<close>

lemma dot_segment_passes_exclusion:
  "is_snapshot_candidate (normalize (''./.signalos/'' @ rel)) \<and>
   located pl (''./.signalos/'' @ rel) = located pl (''.signalos/'' @ rel)"
  by (simp add: is_snapshot_candidate_def normalize_def lstrip_by_def replace_char_def EXCLUDED_PREFIXES_def
      located_def path_parts_def)

text \<open>The snapshot of the validation is never compared once there is one of the proof: what was tested
  may differ from what was proved.\<close>

lemma validation_snapshot_unused:
  "closeout_freshness sha t raised validation (Some s) pl manifest enf = closeout_freshness sha t raised None (Some s) pl manifest enf"
  by (simp add: closeout_freshness_def)

text \<open>A file that could not be read at the proof makes the same workspace stale, as added after the
  proof.\<close>

lemma unreadable_file_counts_as_added:
  assumes "rel \<in> product_paths manifest" "is_file pl rel" "file_bytes pl rel = None"
  shows "\<not> fresh (verify_workspace_snapshot sha t pl
      (Some (snapshot_workspace sha s pl (workspace_snapshot_files pl manifest)))
      (workspace_snapshot_files pl manifest))"
proof -
  have "same_digest_same_bytes sha pl pl" by (simp add: same_digest_same_bytes_def)
  from product_fresh_iff [OF this] show ?thesis using assms by blast
qed

end
