(* ===== verification/Plan.thy ===== *)
theory Plan
  imports Prelude "HOL-Library.Multiset"
begin

section \<open>The machine plan (\<open>plan.py\<close>)\<close>

text \<open>
  The task list \<open>PLAN.tasks.yaml\<close>: its entries, their reading and writing as a dictionary, the
  validation with its search for dependency cycles, the founder's roadmap and the identifiers. What a YAML file
  holds is a \<open>py\<close> value, or does not parse. Numbers are integers, also the effort, which
  the code keeps as a float. An exception that a field raises is \<open>None\<close>, an error of the file a
  \<open>load_error\<close>; an error of the validation carries the position of its task and no text. The rendering
  as Markdown is not modelled.
\<close>

definition VALID_STATUSES :: "string list" where
  "VALID_STATUSES = [''pending'', ''in_progress'', ''done'', ''blocked'', ''skipped'']"

definition VALID_TIERS :: "string list" where
  "VALID_TIERS = [''T1'', ''T2'', ''T3'']"

subsection \<open>Identifiers\<close>

definition B32 :: string where
  "B32 = ''0123456789ABCDEFGHJKMNPQRSTVWXYZ''"

fun base32_chars :: "nat \<Rightarrow> nat \<Rightarrow> string" where
  "base32_chars 0 n = []"
| "base32_chars (Suc k) n = (B32 ! (n mod 32)) # base32_chars k (n div 32)"

text \<open>Ten digits of the clock in milliseconds, sixteen of 80 random bits.\<close>

definition make_ulid :: "nat \<Rightarrow> nat \<Rightarrow> string" where
  "make_ulid ms rand_val = rev (base32_chars 10 ms) @ rev (base32_chars 16 rand_val)"

definition ulid_char :: "char \<Rightarrow> bool" where
  "ulid_char c \<longleftrightarrow> is_digit c \<or> is_upper c"

text \<open>\<open>^[0-9A-Z]{26}$\<close>: the dollar also stands before a final line feed.\<close>

definition ulid_shape :: "string \<Rightarrow> bool" where
  "ulid_shape s \<longleftrightarrow>
     (let w = (if s \<noteq> [] \<and> last s = CHR 0x0A then butlast s else s)
      in length w = 26 \<and> list_all ulid_char w)"

subsection \<open>Tasks\<close>

record plan_task =
  pt_id :: string
  pt_title :: string
  pt_status :: string
  pt_tier :: string
  pt_owner :: string
  pt_depends_on :: "string list"
  pt_effort_days :: int
  pt_prompt_file :: string
  pt_wave :: string
  pt_branch :: string
  pt_notes :: string
  pt_description :: string
  pt_files :: "string list"
  pt_skills :: "string list"
  pt_previous_failure :: string
  pt_feature :: string
  pt_epic :: string
  pt_release :: string
  pt_value :: int
  pt_provenance :: string

definition str_list :: "(string \<times> py) list \<Rightarrow> string \<Rightarrow> string list option" where
  "str_list raw k = map_option (map py_str) (py_iter (get_or raw k (PList [])))"

definition task_from_dict :: "(string \<times> py) list \<Rightarrow> plan_task option" where
  "task_from_dict raw =
     (case (str_list raw ''depends_on'', py_whole (get_or raw ''effort_days'' (PInt 1)),
            str_list raw ''files'', str_list raw ''skills'',
            py_whole (let v = get_or raw ''value'' (PInt 0) in if truthy v then v else PInt 0)) of
        (Some deps, Some effort, Some files, Some skills, Some val) \<Rightarrow>
          Some \<lparr>pt_id = get_str raw ''id'', pt_title = get_str raw ''title'',
            pt_status = py_str (get_or raw ''status'' (PStr ''pending'')),
            pt_tier = py_str (get_or raw ''tier'' (PStr ''T3'')), pt_owner = get_str raw ''owner'',
            pt_depends_on = deps, pt_effort_days = effort,
            pt_prompt_file = get_str raw ''prompt_file'', pt_wave = get_str raw ''wave'',
            pt_branch = get_str raw ''branch'', pt_notes = get_str raw ''notes'',
            pt_description = get_str raw ''description'', pt_files = files, pt_skills = skills,
            pt_previous_failure = get_str raw ''previous_failure'',
            pt_feature = get_str raw ''feature'', pt_epic = get_str raw ''epic'',
            pt_release = get_str raw ''release'', pt_value = val,
            pt_provenance = get_str raw ''provenance''\<rparr>
      | _ \<Rightarrow> None)"

definition str_entry :: "string \<Rightarrow> string \<Rightarrow> (string \<times> py) list" where
  "str_entry k s = (if s = [] then [] else [(k, PStr s)])"

definition list_entry :: "string \<Rightarrow> string list \<Rightarrow> (string \<times> py) list" where
  "list_entry k xs = (if xs = [] then [] else [(k, PList (map PStr xs))])"

definition int_entry :: "string \<Rightarrow> int \<Rightarrow> int \<Rightarrow> (string \<times> py) list" where
  "int_entry k dflt n = (if n = dflt then [] else [(k, PInt n)])"

definition task_to_dict :: "plan_task \<Rightarrow> (string \<times> py) list" where
  "task_to_dict t =
     [(''id'', PStr (pt_id t)), (''title'', PStr (pt_title t)), (''status'', PStr (pt_status t)),
      (''tier'', PStr (pt_tier t))] @
     str_entry ''owner'' (pt_owner t) @ list_entry ''depends_on'' (pt_depends_on t) @
     int_entry ''effort_days'' 1 (pt_effort_days t) @ str_entry ''prompt_file'' (pt_prompt_file t) @
     str_entry ''wave'' (pt_wave t) @ str_entry ''branch'' (pt_branch t) @
     str_entry ''notes'' (pt_notes t) @ str_entry ''description'' (pt_description t) @
     list_entry ''files'' (pt_files t) @ list_entry ''skills'' (pt_skills t) @
     str_entry ''previous_failure'' (pt_previous_failure t) @ str_entry ''feature'' (pt_feature t) @
     str_entry ''epic'' (pt_epic t) @ str_entry ''release'' (pt_release t) @
     int_entry ''value'' 0 (pt_value t) @ str_entry ''provenance'' (pt_provenance t)"

record plan_doc =
  doc_wave :: string
  doc_tasks :: "plan_task list"
  doc_generated_at :: string

definition doc_to_dict :: "plan_doc \<Rightarrow> (string \<times> py) list" where
  "doc_to_dict d =
     [(''wave'', PStr (doc_wave d)), (''tasks'', PList (map (PDict \<circ> task_to_dict) (doc_tasks d)))] @
     str_entry ''generated_at'' (doc_generated_at d)"

datatype load_error = NoPlanFile | NotParsed | NotMapping | NoWave | TasksNotList | FieldError

fun tasks_from_dicts :: "py list \<Rightarrow> plan_task list option" where
  "tasks_from_dicts [] = Some []"
| "tasks_from_dicts (r # rs) =
     (case r of
        PDict d \<Rightarrow>
          (case task_from_dict d of
             None \<Rightarrow> None
           | Some t \<Rightarrow> map_option ((#) t) (tasks_from_dicts rs))
      | _ \<Rightarrow> tasks_from_dicts rs)"

definition load_tasks :: "json_file option \<Rightarrow> load_error + plan_doc" where
  "load_tasks file =
     (case file of
        None \<Rightarrow> Inl NoPlanFile
      | Some Garbled \<Rightarrow> Inl NotParsed
      | Some (Json v) \<Rightarrow>
          (case (if truthy v then v else PDict []) of
             PDict raw \<Rightarrow>
               if get_str raw ''wave'' = [] then Inl NoWave
               else
                 (case get_or raw ''tasks'' (PList []) of
                    PList rs \<Rightarrow>
                      (case tasks_from_dicts rs of
                         None \<Rightarrow> Inl FieldError
                       | Some ts \<Rightarrow>
                           Inr \<lparr>doc_wave = get_str raw ''wave'', doc_tasks = ts,
                                doc_generated_at = get_str raw ''generated_at''\<rparr>)
                  | _ \<Rightarrow> Inl TasksNotList)
           | _ \<Rightarrow> Inl NotMapping))"

definition dump_tasks :: "plan_doc \<Rightarrow> json_file option" where
  "dump_tasks d = Some (Json (PDict (doc_to_dict d)))"

subsection \<open>The roadmap\<close>

definition add_to :: "(string \<times> 'a list) list \<Rightarrow> string \<Rightarrow> 'a \<Rightarrow> (string \<times> 'a list) list" where
  "add_to d k x = dict_set d k ((case dict_get d k of None \<Rightarrow> [] | Some xs \<Rightarrow> xs) @ [x])"

definition or_bucket :: "string \<Rightarrow> string \<Rightarrow> string" where
  "or_bucket s bucket = (if s = [] then bucket else s)"

record story =
  story_id :: string
  story_title :: string
  story_status :: string
  story_value :: int
  story_provenance :: string

type_synonym roadmap = "(string \<times> (string \<times> story list) list) list \<times> (string \<times> string list) list"

definition story_of :: "plan_task \<Rightarrow> story" where
  "story_of t =
     \<lparr>story_id = pt_id t, story_title = pt_title t, story_status = pt_status t,
      story_value = pt_value t, story_provenance = or_bucket (pt_provenance t) ''founder''\<rparr>"

definition add_story :: "roadmap \<Rightarrow> plan_task \<Rightarrow> roadmap" where
  "add_story rm t =
     (let feature = or_bucket (pt_feature t) ''(unassigned feature)'';
          epic = or_bucket (pt_epic t) ''(unassigned epic)'';
          epics = (case dict_get (fst rm) feature of None \<Rightarrow> [] | Some es \<Rightarrow> es)
      in (dict_set (fst rm) feature (add_to epics epic (story_of t)),
          add_to (snd rm) (or_bucket (pt_release t) ''(unassigned release)'') (pt_id t)))"

definition roadmap_tree :: "plan_doc \<Rightarrow> roadmap" where
  "roadmap_tree d = foldl add_story ([], []) (doc_tasks d)"

subsection \<open>Validation\<close>

datatype plan_error =
    EmptyId nat
  | NotUlid nat
  | DuplicateId nat nat
  | EmptyTitle nat
  | InvalidStatus nat
  | InvalidTier nat
  | InvalidEffort nat
  | UnknownDep nat string
  | Cycle string

definition task_errors :: "nat \<Rightarrow> (string \<times> nat) list \<Rightarrow> plan_task \<Rightarrow> plan_error list" where
  "task_errors i seen t =
     (if pt_id t = [] then [EmptyId i] else if \<not> ulid_shape (pt_id t) then [NotUlid i] else []) @
     (case dict_get seen (pt_id t) of None \<Rightarrow> [] | Some j \<Rightarrow> [DuplicateId i j]) @
     (if strip (pt_title t) = [] then [EmptyTitle i] else []) @
     (if pt_status t \<notin> set VALID_STATUSES then [InvalidStatus i] else []) @
     (if pt_tier t \<notin> set VALID_TIERS then [InvalidTier i] else []) @
     (if pt_effort_days t < 0 then [InvalidEffort i] else [])"

fun check_tasks :: "nat \<Rightarrow> (string \<times> nat) list \<Rightarrow> plan_task list \<Rightarrow> plan_error list \<times> (string \<times> nat) list" where
  "check_tasks i seen [] = ([], seen)"
| "check_tasks i seen (t # ts) =
     (let seen' = (if dict_get seen (pt_id t) = None then dict_set seen (pt_id t) i else seen);
          (es, seen'') = check_tasks (Suc i) seen' ts
      in (task_errors i seen t @ es, seen''))"

definition dep_errors :: "string set \<Rightarrow> nat \<Rightarrow> plan_task \<Rightarrow> plan_error list" where
  "dep_errors ids i t = map (UnknownDep i) (filter (\<lambda>d. d \<notin> ids) (pt_depends_on t))"

text \<open>The search. The fuel is the depth of the recursion, \<open>None\<close> stands for a deeper one; no search is
  deeper than there are tasks.\<close>

datatype color = WHITE | GREY | BLACK

type_synonym colors = "(string \<times> color) list"

definition successors :: "(string \<times> string list) list \<Rightarrow> string \<Rightarrow> string list" where
  "successors adj v = (case dict_get adj v of None \<Rightarrow> [] | Some ws \<Rightarrow> ws)"

fun dfs_visit :: "nat \<Rightarrow> (string \<times> string list) list \<Rightarrow> colors \<Rightarrow> string \<Rightarrow> (bool \<times> colors) option"
and dfs_edges :: "nat \<Rightarrow> (string \<times> string list) list \<Rightarrow> colors \<Rightarrow> string list \<Rightarrow> (bool \<times> colors) option" where
  "dfs_visit 0 adj col v = None"
| "dfs_visit (Suc k) adj col v =
     (case dfs_edges k adj (dict_set col v GREY) (successors adj v) of
        None \<Rightarrow> None
      | Some (True, col') \<Rightarrow> Some (True, col')
      | Some (False, col') \<Rightarrow> Some (False, dict_set col' v BLACK))"
| "dfs_edges k adj col [] = Some (False, col)"
| "dfs_edges k adj col (w # ws) =
     (if dict_get col w = Some GREY then Some (True, col)
      else if dict_get col w = Some WHITE then
        (case dfs_visit k adj col w of
           None \<Rightarrow> None
         | Some (True, col') \<Rightarrow> Some (True, col')
         | Some (False, col') \<Rightarrow> dfs_edges k adj col' ws)
      else dfs_edges k adj col ws)"

fun find_cycle :: "(string \<times> string list) list \<Rightarrow> colors \<Rightarrow> string list \<Rightarrow> string option option" where
  "find_cycle adj col [] = Some None"
| "find_cycle adj col (v # vs) =
     (if dict_get col v = Some WHITE then
        (case dfs_visit (length adj) adj col v of
           None \<Rightarrow> None
         | Some (True, _) \<Rightarrow> Some (Some v)
         | Some (False, col') \<Rightarrow> find_cycle adj col' vs)
      else find_cycle adj col vs)"

definition task_graph :: "plan_task list \<Rightarrow> (string \<times> string list) list" where
  "task_graph ts = foldl (\<lambda>adj t. dict_set adj (pt_id t) (pt_depends_on t)) [] ts"

definition validate_tasks :: "plan_doc \<Rightarrow> plan_error list option" where
  "validate_tasks d =
     (let (errors, seen) = check_tasks 0 [] (doc_tasks d);
          ids = set (map fst seen);
          errors = errors @ concat (map (\<lambda>(i, t). dep_errors ids i t)
            (zip [0..<length (doc_tasks d)] (doc_tasks d)))
      in if errors \<noteq> [] then Some errors
         else
           let adj = task_graph (doc_tasks d)
           in map_option (\<lambda>c. case c of None \<Rightarrow> [] | Some v \<Rightarrow> [Cycle v])
                (find_cycle adj (map (\<lambda>(v, _). (v, WHITE)) adj) (map fst adj)))"

subsection \<open>The search finds a cycle exactly when there is one\<close>

definition edges :: "(string \<times> string list) list \<Rightarrow> (string \<times> string) set" where
  "edges adj = {(v, w). w \<in> set (successors adj v)}"

definition dfs_inv :: "(string \<times> string list) list \<Rightarrow> colors \<Rightarrow> bool" where
  "dfs_inv adj col \<longleftrightarrow>
     (\<forall>v w. (v, w) \<in> edges adj \<longrightarrow> dict_get col w \<noteq> None) \<and>
     (\<forall>v. dict_get col v = Some BLACK \<longrightarrow>
        (\<forall>w. (v, w) \<in> edges adj \<longrightarrow> dict_get col w = Some BLACK) \<and> (v, v) \<notin> (edges adj)\<^sup>+)"

definition recolored :: "colors \<Rightarrow> colors \<Rightarrow> bool" where
  "recolored col col' \<longleftrightarrow>
     (\<forall>v. (dict_get col v = None \<longleftrightarrow> dict_get col' v = None) \<and>
          (dict_get col v = Some GREY \<longleftrightarrow> dict_get col' v = Some GREY) \<and>
          (dict_get col v = Some BLACK \<longrightarrow> dict_get col' v = Some BLACK))"

definition whites :: "colors \<Rightarrow> string set" where
  "whites col = {v. dict_get col v = Some WHITE}"

lemma recolored_refl [simp]: "recolored col col"
  by (simp add: recolored_def)

lemma recolored_trans: "recolored a b \<Longrightarrow> recolored b c \<Longrightarrow> recolored a c"
  by (simp add: recolored_def)

lemma recolored_whites: "recolored col col' \<Longrightarrow> whites col' \<subseteq> whites col"
proof
  fix v assume r: "recolored col col'" and v: "v \<in> whites col'"
  then obtain c where c: "dict_get col v = Some c" by (fastforce simp: recolored_def whites_def)
  with r v show "v \<in> whites col" by (cases c) (auto simp: recolored_def whites_def)
qed

lemma whites_finite [simp]: "finite (whites col)"
proof (rule finite_subset)
  show "whites col \<subseteq> fst ` set col"
    by (auto simp: whites_def dict_get_def dest!: map_of_SomeD intro: rev_image_eqI)
qed simp

lemma black_closed:
  assumes "dfs_inv adj col" "(v, w) \<in> (edges adj)\<^sup>*" "dict_get col v = Some BLACK"
  shows "dict_get col w = Some BLACK"
  using assms(2) by induction (use assms in \<open>auto simp: dfs_inv_def\<close>)

lemma dfs_inv_grey:
  assumes "dfs_inv adj col" "dict_get col v = Some WHITE"
  shows "dfs_inv adj (dict_set col v GREY)"
  using assms by (fastforce simp: dfs_inv_def)

lemma dfs_inv_black:
  assumes inv: "dfs_inv adj col" and v: "dict_get col v = Some GREY"
    and succ: "\<And>w. (v, w) \<in> edges adj \<Longrightarrow> dict_get col w = Some BLACK"
  shows "dfs_inv adj (dict_set col v BLACK)"
proof -
  have "(v, v) \<notin> (edges adj)\<^sup>+"
  proof
    assume "(v, v) \<in> (edges adj)\<^sup>+"
    then obtain w where "(v, w) \<in> edges adj" "(w, v) \<in> (edges adj)\<^sup>*" by (meson tranclD)
    with black_closed [OF inv] succ v show False by fastforce
  qed
  with inv succ show ?thesis by (auto simp: dfs_inv_def)
qed

definition greys_reach :: "(string \<times> string list) list \<Rightarrow> colors \<Rightarrow> string \<Rightarrow> bool" where
  "greys_reach adj col v \<longleftrightarrow> (\<forall>g. dict_get col g = Some GREY \<longrightarrow> (g, v) \<in> (edges adj)\<^sup>*)"

lemma dfs_correct:
  shows "\<lbrakk>dfs_inv adj col; dict_get col v = Some WHITE; greys_reach adj col v; card (whites col) \<le> k\<rbrakk>
      \<Longrightarrow> \<exists>c col'. dfs_visit k adj col v = Some (c, col') \<and>
        (if c then \<not> acyclic (edges adj)
         else dfs_inv adj col' \<and> recolored col col' \<and> dict_get col' v = Some BLACK)"
    and "\<lbrakk>dfs_inv adj col; dict_get col u = Some GREY; greys_reach adj col u;
        \<forall>w \<in> set ws. (u, w) \<in> edges adj; card (whites col) \<le> k\<rbrakk>
      \<Longrightarrow> \<exists>c col'. dfs_edges k adj col ws = Some (c, col') \<and>
        (if c then \<not> acyclic (edges adj)
         else dfs_inv adj col' \<and> recolored col col' \<and> (\<forall>w \<in> set ws. dict_get col' w = Some BLACK))"
proof (induction k adj col v and k adj col ws arbitrary: and u rule: dfs_visit_dfs_edges.induct)
  case (1 adj col v)
  have "v \<in> whites col" using 1 by (simp add: whites_def)
  then have "card (whites col) \<noteq> 0" by auto
  with 1 show ?case by simp
next
  case (2 k adj col v)
  let ?g = "dict_set col v GREY"
  have "whites ?g = whites col - {v}" by (auto simp: whites_def)
  with 2 have "card (whites ?g) \<le> k" by (simp add: whites_def)
  moreover have "greys_reach adj ?g v" using 2 by (simp add: greys_reach_def)
  moreover have "dfs_inv adj ?g" using 2 by (intro dfs_inv_grey)
  ultimately obtain c col' where r: "dfs_edges k adj ?g (successors adj v) = Some (c, col')"
    and c: "if c then \<not> acyclic (edges adj)
      else dfs_inv adj col' \<and> recolored ?g col' \<and> (\<forall>w \<in> set (successors adj v). dict_get col' w = Some BLACK)"
    using "2.IH" [of v] by (auto simp: edges_def)
  show ?case
  proof (cases c)
    case True
    with r have "dfs_visit (Suc k) adj col v = Some (True, col')" by simp
    with c True show ?thesis by auto
  next
    case False
    with c have i: "dfs_inv adj col'" "recolored ?g col'"
      "\<And>w. (v, w) \<in> edges adj \<Longrightarrow> dict_get col' w = Some BLACK" by (auto simp: edges_def)
    from i(2) have "dict_get col' v = Some GREY" by (auto simp: recolored_def split: if_splits)
    with i have "dfs_inv adj (dict_set col' v BLACK)" by (intro dfs_inv_black)
    moreover have "recolored col (dict_set col' v BLACK)"
      using i(2) "2.prems"(2) by (auto simp: recolored_def split: if_splits)
    moreover have "dfs_visit (Suc k) adj col v = Some (False, dict_set col' v BLACK)"
      using r False by simp
    ultimately show ?thesis by auto
  qed
next
  case (3 k adj col)
  then show ?case by (intro exI [of _ False]) simp
next
  case (4 k adj col w ws)
  from "4.prems"(4) have e: "(u, w) \<in> edges adj" by simp
  with "4.prems"(1) obtain c where c: "dict_get col w = Some c" unfolding dfs_inv_def by blast
  show ?case
  proof (cases c)
    case GREY
    with "4.prems"(3) c have "(w, u) \<in> (edges adj)\<^sup>*" by (simp add: greys_reach_def)
    with e have "(w, w) \<in> (edges adj)\<^sup>+" by (simp add: rtrancl_into_trancl1)
    then have "\<not> acyclic (edges adj)" by (auto simp: acyclic_def)
    with c GREY show ?thesis by (intro exI [of _ True]) simp
  next
    case BLACK
    with c obtain b col' where "dfs_edges k adj col ws = Some (b, col')"
      "if b then \<not> acyclic (edges adj)
       else dfs_inv adj col' \<and> recolored col col' \<and> (\<forall>w \<in> set ws. dict_get col' w = Some BLACK)"
      using "4.IH"(3) [of u] "4.prems" by auto
    with c BLACK show ?thesis by (intro exI [of _ b]) (auto simp: recolored_def)
  next
    case WHITE
    have "greys_reach adj col w"
      using "4.prems"(3) e by (auto simp: greys_reach_def intro: rtrancl_into_rtrancl)
    then obtain b col1 where r: "dfs_visit k adj col w = Some (b, col1)"
      and b: "if b then \<not> acyclic (edges adj)
        else dfs_inv adj col1 \<and> recolored col col1 \<and> dict_get col1 w = Some BLACK"
      using "4.IH"(1) "4.prems"(1,5) c WHITE by auto
    show ?thesis
    proof (cases b)
      case True
      with r c WHITE have "dfs_edges k adj col (w # ws) = Some (True, col1)" by simp
      with b True show ?thesis by auto
    next
      case False
      with b have i: "dfs_inv adj col1" "recolored col col1" "dict_get col1 w = Some BLACK" by auto
      have "card (whites col1) \<le> k"
        using card_mono [OF whites_finite recolored_whites [OF i(2)]] "4.prems"(5) by linarith
      moreover have "dict_get col1 u = Some GREY" "greys_reach adj col1 u"
        using i(2) "4.prems"(2,3) by (auto simp: recolored_def greys_reach_def)
      ultimately obtain d col2 where e2: "dfs_edges k adj col1 ws = Some (d, col2)"
        and d: "if d then \<not> acyclic (edges adj)
         else dfs_inv adj col2 \<and> recolored col1 col2 \<and> (\<forall>w \<in> set ws. dict_get col2 w = Some BLACK)"
        using "4.IH"(2) [of "(b, col1)" b col1 u] "4.prems"(4) c WHITE r False i(1) by auto
      have "dfs_edges k adj col (w # ws) = Some (d, col2)"
        using r False c WHITE e2 by simp
      moreover have "recolored col col2 \<and> dict_get col2 w = Some BLACK" if "\<not> d"
      proof -
        from that d have "recolored col1 col2" by simp
        with i(3) show ?thesis by (intro conjI recolored_trans [OF i(2)]) (auto simp: recolored_def)
      qed
      ultimately show ?thesis
        using d by (intro exI [of _ d] exI [of _ col2]) simp
    qed
  qed
qed

lemma find_cycle_correct:
  "\<lbrakk>dfs_inv adj col; \<forall>v. dict_get col v \<noteq> Some GREY; card (whites col) \<le> length adj; whites col \<subseteq> set vs\<rbrakk>
   \<Longrightarrow> \<exists>r. find_cycle adj col vs = Some r \<and> (r = None \<longleftrightarrow> acyclic (edges adj))"
proof (induction vs arbitrary: col)
  case Nil
  have "acyclic (edges adj)"
  proof (rule acyclicI, intro allI notI)
    fix v assume c: "(v, v) \<in> (edges adj)\<^sup>+"
    then obtain u where "(u, v) \<in> edges adj" by (meson tranclD2)
    with Nil(1) obtain x where x: "dict_get col v = Some x" unfolding dfs_inv_def by blast
    with Nil have "x = BLACK" by (cases x) (auto simp: whites_def)
    with Nil(1) x c show False unfolding dfs_inv_def by blast
  qed
  then show ?case by simp
next
  case (Cons v vs)
  show ?case
  proof (cases "dict_get col v = Some WHITE")
    case True
    have "greys_reach adj col v" using Cons.prems(2) by (simp add: greys_reach_def)
    from dfs_correct(1) [OF Cons.prems(1) True this Cons.prems(3)] obtain c col'
      where r: "dfs_visit (length adj) adj col v = Some (c, col')"
      and c: "if c then \<not> acyclic (edges adj)
        else dfs_inv adj col' \<and> recolored col col' \<and> dict_get col' v = Some BLACK" by blast
    show ?thesis
    proof (cases c)
      case True
      with c r \<open>dict_get col v = Some WHITE\<close> show ?thesis by simp
    next
      case False
      with c have i: "dfs_inv adj col'" "recolored col col'" "dict_get col' v = Some BLACK" by auto
      have "card (whites col') \<le> length adj"
        using card_mono [OF whites_finite recolored_whites [OF i(2)]] Cons.prems(3) by linarith
      moreover have "whites col' \<subseteq> set vs"
        using recolored_whites [OF i(2)] Cons.prems(4) i(3) by (auto simp: whites_def)
      moreover have "\<forall>v. dict_get col' v \<noteq> Some GREY"
        using i(2) Cons.prems(2) by (simp add: recolored_def)
      ultimately show ?thesis
        using Cons.IH [OF i(1)] r False True by simp
    qed
  next
    case False
    with Cons.prems have "whites col \<subseteq> set vs" by (auto simp: whites_def)
    with Cons False show ?thesis by simp
  qed
qed

subsection \<open>A valid plan\<close>

definition task_ok :: "plan_task \<Rightarrow> bool" where
  "task_ok t \<longleftrightarrow>
     ulid_shape (pt_id t) \<and> strip (pt_title t) \<noteq> [] \<and> pt_status t \<in> set VALID_STATUSES \<and>
     pt_tier t \<in> set VALID_TIERS \<and> 0 \<le> pt_effort_days t"

definition depends :: "plan_task list \<Rightarrow> (string \<times> string) set" where
  "depends ts = {(pt_id t, d) |t d. t \<in> set ts \<and> d \<in> set (pt_depends_on t)}"

definition valid_plan :: "plan_doc \<Rightarrow> bool" where
  "valid_plan d \<longleftrightarrow>
     (\<forall>t \<in> set (doc_tasks d). task_ok t \<and> set (pt_depends_on t) \<subseteq> pt_id ` set (doc_tasks d)) \<and>
     distinct (map pt_id (doc_tasks d)) \<and> acyclic (depends (doc_tasks d))"

lemma task_errors_empty: "task_errors i seen t = [] \<longleftrightarrow> task_ok t \<and> dict_get seen (pt_id t) = None"
proof -
  have "ulid_shape s \<Longrightarrow> s \<noteq> []" for s by (auto simp: ulid_shape_def)
  then show ?thesis by (auto simp: task_errors_def task_ok_def split: option.splits if_splits)
qed

lemma check_tasks_keys:
  "check_tasks i seen ts = (es, seen') \<Longrightarrow> fst ` set seen' = fst ` set seen \<union> pt_id ` set ts"
proof (induction i seen ts arbitrary: es rule: check_tasks.induct)
  case (2 i seen t ts)
  then have "dict_get seen (pt_id t) \<noteq> None \<Longrightarrow> pt_id t \<in> fst ` set seen"
    by (auto simp: dict_get_def dest!: map_of_SomeD intro: rev_image_eqI)
  with 2 show ?case by (auto simp: Let_def dict_set_keyset split: prod.splits if_splits)
qed simp

lemma check_tasks_empty:
  "fst (check_tasks i seen ts) = [] \<longleftrightarrow>
     (\<forall>t \<in> set ts. task_ok t \<and> dict_get seen (pt_id t) = None) \<and> distinct (map pt_id ts)"
proof (induction i seen ts rule: check_tasks.induct)
  case (2 i seen t ts)
  have "(\<forall>u \<in> set ts. task_ok u \<and> dict_get (dict_set seen (pt_id t) i) (pt_id u) = None) \<longleftrightarrow>
      (\<forall>u \<in> set ts. task_ok u \<and> dict_get seen (pt_id u) = None) \<and> pt_id t \<notin> pt_id ` set ts"
    by (auto split: if_splits) (metis image_eqI)
  with 2 show ?case
    by (cases "dict_get seen (pt_id t) = None") (auto simp: Let_def task_errors_empty split: prod.splits)
qed simp

lemma dep_errors_empty:
  "concat (map (\<lambda>(i, t). dep_errors ids i t) (zip is ts)) = [] \<longleftrightarrow>
     (\<forall>t \<in> set (take (length is) ts). set (pt_depends_on t) \<subseteq> ids)"
proof (induction "is" arbitrary: ts)
  case (Cons i "is")
  then show ?case by (cases ts) (auto simp: dep_errors_def filter_empty_conv)
qed simp

lemma task_graph_get:
  "distinct (map pt_id ts) \<Longrightarrow> dict_get (foldl (\<lambda>adj t. dict_set adj (pt_id t) (pt_depends_on t)) adj ts) v =
     (case map_of (map (\<lambda>t. (pt_id t, pt_depends_on t)) ts) v of None \<Rightarrow> dict_get adj v | Some ds \<Rightarrow> Some ds)"
proof (induction ts arbitrary: adj)
  case (Cons t ts)
  then have "map_of (map (\<lambda>t. (pt_id t, pt_depends_on t)) ts) (pt_id t) = None"
    by (auto simp: map_of_eq_None_iff image_iff)
  with Cons show ?case by (auto split: option.splits)
qed simp

lemma task_graph_keys:
  "fst ` set (foldl (\<lambda>adj t. dict_set adj (pt_id t) (pt_depends_on t)) adj ts) = fst ` set adj \<union> pt_id ` set ts"
  by (induction ts arbitrary: adj) (auto simp: dict_set_keyset)

lemma task_graph_edges:
  assumes "distinct (map pt_id ts)"
  shows "edges (task_graph ts) = depends ts"
proof -
  have d: "distinct (map fst (map (\<lambda>t. (pt_id t, pt_depends_on t)) ts))"
    using assms by (simp add: comp_def)
  have "dict_get (task_graph ts) v = map_of (map (\<lambda>t. (pt_id t, pt_depends_on t)) ts) v" for v
    unfolding task_graph_def task_graph_get [OF assms] by (simp split: option.splits)
  then have "dict_get (task_graph ts) v = Some ds \<longleftrightarrow> (v, ds) \<in> (\<lambda>t. (pt_id t, pt_depends_on t)) ` set ts" for v ds
    using map_of_eq_Some_iff [OF d] by simp
  moreover have "(v, w) \<in> edges (task_graph ts) \<longleftrightarrow> (\<exists>ds. dict_get (task_graph ts) v = Some ds \<and> w \<in> set ds)" for v w
    by (cases "dict_get (task_graph ts) v") (auto simp: edges_def successors_def)
  ultimately have "(v, w) \<in> edges (task_graph ts) \<longleftrightarrow> (v, w) \<in> depends ts" for v w
    unfolding depends_def by auto
  then show ?thesis by auto
qed

lemma initial_colors:
  "dict_get (map (\<lambda>(v, _). (v, WHITE)) adj) v = (if v \<in> fst ` set adj then Some WHITE else None)"
  by (induction adj) (auto simp: dict_get_def)

lemma search_decides:
  assumes "distinct (map pt_id ts)" "\<forall>t \<in> set ts. set (pt_depends_on t) \<subseteq> pt_id ` set ts"
  shows "\<exists>r. find_cycle (task_graph ts) (map (\<lambda>(v, _). (v, WHITE)) (task_graph ts)) (map fst (task_graph ts)) = Some r
    \<and> (r = None \<longleftrightarrow> acyclic (depends ts))"
proof -
  let ?g = "task_graph ts"
  have keys: "fst ` set ?g = pt_id ` set ts" using task_graph_keys [of "[]" ts] by (simp add: task_graph_def)
  have "dfs_inv ?g (map (\<lambda>(v, _). (v, WHITE)) ?g)"
    using assms(2) by (auto simp: dfs_inv_def initial_colors keys task_graph_edges [OF assms(1)] depends_def)
  moreover have "whites (map (\<lambda>(v, _). (v, WHITE)) ?g) = fst ` set ?g"
    by (auto simp: whites_def initial_colors)
  moreover have "card (fst ` set ?g) \<le> length ?g"
    by (metis card_length length_map set_map)
  ultimately show ?thesis
    using find_cycle_correct [of ?g "map (\<lambda>(v, _). (v, WHITE)) ?g" "map fst ?g"] task_graph_edges [OF assms(1)]
    by (simp add: initial_colors)
qed

subsection \<open>Reading back what was written\<close>

lemma str_entry_get: "dict_get (str_entry k s @ d) k' = (if k' = k \<and> s \<noteq> [] then Some (PStr s) else dict_get d k')"
  by (simp add: str_entry_def dict_get_def)

lemma list_entry_get:
  "dict_get (list_entry k xs @ d) k' = (if k' = k \<and> xs \<noteq> [] then Some (PList (map PStr xs)) else dict_get d k')"
  by (simp add: list_entry_def dict_get_def)

lemma int_entry_get:
  "dict_get (int_entry k n i @ d) k' = (if k' = k \<and> i \<noteq> n then Some (PInt i) else dict_get d k')"
  by (simp add: int_entry_def dict_get_def)

lemma dict_get_Cons: "dict_get ((k, v) # d) k' = (if k' = k then Some v else dict_get d k')"
  by (simp add: dict_get_def)

lemmas entry_gets =
  str_entry_get list_entry_get int_entry_get dict_get_Cons
  str_entry_get [where d = "[]", simplified] int_entry_get [where d = "[]", simplified]

lemma task_fields_get:
  "get_str (task_to_dict t) ''id'' = pt_id t"
  "get_str (task_to_dict t) ''title'' = pt_title t"
  "py_str (get_or (task_to_dict t) ''status'' v) = pt_status t"
  "py_str (get_or (task_to_dict t) ''tier'' v) = pt_tier t"
  "get_str (task_to_dict t) ''owner'' = pt_owner t"
  "get_str (task_to_dict t) ''prompt_file'' = pt_prompt_file t"
  "get_str (task_to_dict t) ''wave'' = pt_wave t"
  "get_str (task_to_dict t) ''branch'' = pt_branch t"
  "get_str (task_to_dict t) ''notes'' = pt_notes t"
  "get_str (task_to_dict t) ''description'' = pt_description t"
  "get_str (task_to_dict t) ''previous_failure'' = pt_previous_failure t"
  "get_str (task_to_dict t) ''feature'' = pt_feature t"
  "get_str (task_to_dict t) ''epic'' = pt_epic t"
  "get_str (task_to_dict t) ''release'' = pt_release t"
  "get_str (task_to_dict t) ''provenance'' = pt_provenance t"
  by (simp_all add: get_str_def get_or_def task_to_dict_def entry_gets)

lemma task_lists_get:
  "str_list (task_to_dict t) ''depends_on'' = Some (pt_depends_on t)"
  "str_list (task_to_dict t) ''files'' = Some (pt_files t)"
  "str_list (task_to_dict t) ''skills'' = Some (pt_skills t)"
  by (simp_all add: str_list_def get_or_def task_to_dict_def entry_gets py_iter_def comp_def)

lemma task_numbers_get:
  "py_whole (get_or (task_to_dict t) ''effort_days'' (PInt 1)) = Some (pt_effort_days t)"
  "get_or (task_to_dict t) ''value'' (PInt 0) = PInt (pt_value t)"
  by (simp_all add: get_or_def task_to_dict_def entry_gets py_whole_def)

lemma task_round_trip: "task_from_dict (task_to_dict t) = Some t"
proof -
  have "py_whole (let v = get_or (task_to_dict t) ''value'' (PInt 0) in if truthy v then v else PInt 0) =
      Some (pt_value t)"
    unfolding task_numbers_get(2) by (simp add: py_whole_def)
  then show ?thesis
    by (simp only: task_from_dict_def task_lists_get task_numbers_get(1) task_fields_get prod.case option.case
        plan_task.surjective [symmetric] option.inject) simp
qed

lemma tasks_round_trip: "tasks_from_dicts (map (PDict \<circ> task_to_dict) ts) = Some ts"
  by (induction ts) (simp_all add: task_round_trip)

subsection \<open>Identifiers are distinct and pass the validation\<close>

lemma B32_facts: "length B32 = 32" "distinct B32" "list_all ulid_char B32"
  by code_simp+

lemma base32_chars_length [simp]: "length (base32_chars k n) = k"
  by (induction k n rule: base32_chars.induct) simp_all

lemma base32_chars_ulid: "list_all ulid_char (base32_chars k n)"
proof (induction k n rule: base32_chars.induct)
  case (2 k n)
  have "B32 ! (n mod 32) \<in> set B32" by (simp add: B32_facts)
  with 2 B32_facts(3) show ?case by (simp add: list_all_iff)
qed simp

lemma digit_eq: "\<lbrakk>x < 32; y < 32\<rbrakk> \<Longrightarrow> 32 * a + x = 32 * b + y \<longleftrightarrow> a = b \<and> x = (y :: nat)"
  by presburger

lemma base32_chars_eq: "base32_chars k n = base32_chars k m \<longleftrightarrow> n mod 32 ^ k = m mod 32 ^ k"
proof (induction k n arbitrary: m rule: base32_chars.induct)
  case (2 k n)
  have split: "x mod 32 ^ Suc k = 32 * (x div 32 mod 32 ^ k) + x mod 32" for x :: nat
    by (simp add: mod_mult2_eq)
  have "B32 ! (n mod 32) = B32 ! (m mod 32) \<longleftrightarrow> n mod 32 = m mod 32"
    by (simp add: nth_eq_iff_index_eq B32_facts)
  moreover have "32 * a + n mod 32 = 32 * b + m mod 32 \<longleftrightarrow> a = b \<and> n mod 32 = m mod 32" for a b
    by (rule digit_eq) simp_all
  moreover have "base32_chars (Suc k) n = base32_chars (Suc k) m \<longleftrightarrow>
      B32 ! (n mod 32) = B32 ! (m mod 32) \<and> n div 32 mod 32 ^ k = m div 32 mod 32 ^ k"
    using 2 [of "m div 32"] by simp
  ultimately show ?case by (simp only: split) blast
qed simp

lemma new_id_passes: "ulid_shape (make_ulid ms r)"
proof -
  have "list_all ulid_char (make_ulid ms r)" "length (make_ulid ms r) = 26"
    using base32_chars_ulid [unfolded list_all_iff] by (auto simp: make_ulid_def list_all_iff)
  moreover have "\<not> ulid_char (CHR 0x0A)" by code_simp
  ultimately show ?thesis by (cases "make_ulid ms r" rule: rev_cases) (auto simp: ulid_shape_def)
qed

lemma new_ids_differ:
  "make_ulid ms r = make_ulid ms' r' \<longleftrightarrow> ms mod 2 ^ 50 = ms' mod 2 ^ 50 \<and> r mod 2 ^ 80 = r' mod 2 ^ 80"
proof -
  have "(32 :: nat) ^ 10 = 2 ^ 50" "(32 :: nat) ^ 16 = 2 ^ 80" by simp_all
  then show ?thesis
    using base32_chars_eq [of 10 ms ms'] base32_chars_eq [of 16 r r'] by (simp add: make_ulid_def)
qed

subsection \<open>The roadmap drops nothing\<close>

definition roadmap_stories :: "roadmap \<Rightarrow> story list" where
  "roadmap_stories rm = concat (map (concat \<circ> map snd \<circ> snd) (fst rm))"

lemma dict_set_concat:
  "mset (concat (map (g \<circ> snd) (dict_set d k v))) + (case dict_get d k of None \<Rightarrow> {#} | Some old \<Rightarrow> mset (g old)) =
   mset (concat (map (g \<circ> snd) d)) + mset (g v)"
  by (induction d k v rule: dict_set.induct) (auto simp: dict_get_def split: option.splits)

lemma add_to_concat: "mset (concat (map snd (add_to d k x))) = add_mset x (mset (concat (map snd d)))"
proof (cases "dict_get d k")
  case None
  with dict_set_concat [of id d k "[x]"] show ?thesis by (simp add: add_to_def)
next
  case (Some xs)
  with dict_set_concat [of id d k "xs @ [x]"] show ?thesis by (simp add: add_to_def)
qed

lemma add_story_all:
  "mset (roadmap_stories (add_story rm t)) = add_mset (story_of t) (mset (roadmap_stories rm))"
  "mset (concat (map snd (snd (add_story rm t)))) = add_mset (pt_id t) (mset (concat (map snd (snd rm))))"
proof -
  show "mset (concat (map snd (snd (add_story rm t)))) = add_mset (pt_id t) (mset (concat (map snd (snd rm))))"
    by (simp add: add_story_def Let_def add_to_concat)
  show "mset (roadmap_stories (add_story rm t)) = add_mset (story_of t) (mset (roadmap_stories rm))"
  proof -
    let ?f = "or_bucket (pt_feature t) ''(unassigned feature)''"
    let ?es = "case dict_get (fst rm) ?f of None \<Rightarrow> [] | Some es \<Rightarrow> es"
    let ?new = "add_to ?es (or_bucket (pt_epic t) ''(unassigned epic)'') (story_of t)"
    have "(case dict_get (fst rm) ?f of None \<Rightarrow> {#} | Some old \<Rightarrow> mset ((concat \<circ> map snd) old)) =
        mset (concat (map snd ?es))" by (simp split: option.splits)
    with dict_set_concat [of "concat \<circ> map snd" "fst rm" ?f ?new] show ?thesis
      by (simp add: add_story_def Let_def roadmap_stories_def add_to_concat comp_assoc)
  qed
qed

lemma roadmap_keeps_tasks:
  "mset (roadmap_stories (roadmap_tree d)) = mset (map story_of (doc_tasks d)) \<and>
   mset (concat (map snd (snd (roadmap_tree d)))) = mset (map pt_id (doc_tasks d))"
proof -
  have "mset (roadmap_stories (foldl add_story rm ts)) = mset (roadmap_stories rm) + mset (map story_of ts) \<and>
    mset (concat (map snd (snd (foldl add_story rm ts)))) = mset (concat (map snd (snd rm))) + mset (map pt_id ts)" for rm ts
    by (induction ts arbitrary: rm) (simp_all add: add_story_all)
  then show ?thesis by (simp add: roadmap_tree_def roadmap_stories_def)
qed

subsection \<open>Properties\<close>

text \<open>C18: the validation of a plan is exact. It always returns, its search for a cycle goes no deeper
  than there are tasks, and it reports no error exactly when every task is well formed, identifiers are
  distinct, every dependency is a task of the plan, and no task depends on itself through others.\<close>

theorem validate_tasks_iff_valid:
  "\<exists>errors. validate_tasks d = Some errors \<and> (errors = [] \<longleftrightarrow> valid_plan d)"
proof -
  let ?ts = "doc_tasks d"
  obtain es seen where c: "check_tasks 0 [] ?ts = (es, seen)" by fastforce
  have keys: "set (map fst seen) = pt_id ` set ?ts" using check_tasks_keys [OF c] by simp
  have ok: "es = [] \<longleftrightarrow> (\<forall>t \<in> set ?ts. task_ok t) \<and> distinct (map pt_id ?ts)"
    using check_tasks_empty [of 0 "[]" ?ts] by (simp add: c)
  let ?deps = "concat (map (\<lambda>(i, t). dep_errors (set (map fst seen)) i t) (zip [0..<length ?ts] ?ts))"
  have deps: "?deps = [] \<longleftrightarrow> (\<forall>t \<in> set ?ts. set (pt_depends_on t) \<subseteq> pt_id ` set ?ts)"
    unfolding dep_errors_empty keys by simp
  show ?thesis
  proof (cases "es @ ?deps = []")
    case False
    then have "validate_tasks d = Some (es @ ?deps)"
      by (simp only: validate_tasks_def c Let_def prod.case simp_thms if_True)
    moreover have "\<not> valid_plan d" using False ok deps by (auto simp: valid_plan_def)
    ultimately show ?thesis using False by blast
  next
    case True
    with ok deps have v: "distinct (map pt_id ?ts)" "\<forall>t \<in> set ?ts. set (pt_depends_on t) \<subseteq> pt_id ` set ?ts"
      by auto
    from search_decides [OF v] obtain r where
      r: "find_cycle (task_graph ?ts) (map (\<lambda>(v, _). (v, WHITE)) (task_graph ?ts)) (map fst (task_graph ?ts)) = Some r"
      "r = None \<longleftrightarrow> acyclic (depends ?ts)" by blast
    then have "validate_tasks d = Some (case r of None \<Rightarrow> [] | Some v \<Rightarrow> [Cycle v])"
      using True by (simp only: validate_tasks_def c Let_def prod.case) simp
    moreover have "valid_plan d \<longleftrightarrow> r = None" using r(2) True ok deps by (auto simp: valid_plan_def)
    ultimately show ?thesis by (auto split: option.splits)
  qed
qed

text \<open>A plan that is written and read again is the same plan; only a plan without a wave does not
  read back, since the file would be refused.\<close>

theorem plan_reads_back: "load_tasks (dump_tasks d) = (if doc_wave d = [] then Inl NoWave else Inr d)"
proof -
  have "get_str (doc_to_dict d) ''wave'' = doc_wave d"
    "get_or (doc_to_dict d) ''tasks'' v = PList (map (PDict \<circ> task_to_dict) (doc_tasks d))"
    "get_str (doc_to_dict d) ''generated_at'' = doc_generated_at d" for v
    by (simp_all add: doc_to_dict_def get_str_def get_or_def entry_gets)
  moreover have "doc_to_dict d \<noteq> []" by (simp add: doc_to_dict_def)
  ultimately show ?thesis by (simp add: load_tasks_def dump_tasks_def tasks_round_trip)
qed

end
