(* ===== verification/PlanTasks.thy ===== *)
theory PlanTasks
  imports SubagentBuild Plan Budgets FileTree
begin

section \<open>From the plan to the tasks of the build (\<open>product/subagent_build.py\<close>)\<close>

text \<open>
  How the signed documents become the tasks of the build: the machine plan if it loads, else the
  headings and fields of the rendered plan, else the headings or the criteria of the acceptance
  document, else one task for the whole product. The texts of the documents are arguments. The last part
  is the contract that \<open>product/gate_orchestrator.py\<close> asks of a plan before Gate 2 may be signed. The em
  dash, which lies outside the characters of the model, has the place it has in code page 1252. Of the
  cells that are no criterion, the two emoji are left out: a criterion has at least eight characters.
\<close>

record work_item = task +
  item_name :: string
  item_text :: string
  item_extra :: "string list"

definition em_dash :: char where
  "em_dash = CHR 0x97"

definition clean_cell :: "string \<Rightarrow> string" where
  "clean_cell cell = squeeze_ws False (strip (filter (\<lambda>c. c \<noteq> CHR ''`'') cell))"

subsection \<open>The machine plan\<close>

definition is_test_path :: "string \<Rightarrow> bool" where
  "is_test_path path \<longleftrightarrow>
     (let p = replace_char (CHR 0x5C) (CHR ''/'') path in
      occurs_in ''.test.'' p \<or> occurs_in ''.spec.'' p \<or> occurs_in ''_test.'' p \<or>
      startswith p ''test_'' \<or> occurs_in ''/test_'' p)"

text \<open>\<open>^(n/?a|none|manual)\b\<close>, in any case.\<close>

definition no_test_word :: "string \<Rightarrow> bool" where
  "no_test_word s \<longleftrightarrow>
     list_ex (\<lambda>w. startswith (lower s) w \<and> ends_word (drop (length w) s))
       [''n/a'', ''na'', ''none'', ''manual'']"

definition usable_test :: "string \<Rightarrow> string" where
  "usable_test test =
     (if test \<noteq> [] \<and>
         (CHR ''/'' \<notin> set (replace_char (CHR 0x5C) (CHR ''/'') test) \<or> no_test_word test) then []
      else test)"

definition declared_test :: "(string \<times> py) list \<Rightarrow> string" where
  "declared_test raw =
     (case filter (\<lambda>s. s \<noteq> [])
         (map (\<lambda>k. case get_py raw k of PStr s \<Rightarrow> strip s | _ \<Rightarrow> [])
           [''test'', ''acceptance_test'', ''acceptance_path'']) of
        [] \<Rightarrow> [] | s # _ \<Rightarrow> s)"

definition canonical_task_test :: "(string \<times> py) list \<Rightarrow> string list \<Rightarrow> string \<times> string list" where
  "canonical_task_test raw files =
     (let declared = declared_test raw;
          (test, impl_files) =
            (if declared \<noteq> [] then (declared, files)
             else (case filter is_test_path files of
                     [] \<Rightarrow> ([], files)
                   | f # _ \<Rightarrow> (f, filter (\<lambda>x. x \<noteq> f) files)))
      in (usable_test test, impl_files))"

definition raw_by_id :: "json_file option \<Rightarrow> (string \<times> (string \<times> py) list) list" where
  "raw_by_id file =
     (case file of
        Some (Json (PDict d)) \<Rightarrow>
          foldl (\<lambda>m r. case r of
              PDict t \<Rightarrow> if truthy (get_py t ''id'') then dict_set m (get_str t ''id'') t else m
            | _ \<Rightarrow> m) [] (py_items (get_py d ''tasks''))
      | _ \<Rightarrow> [])"

definition first_nonempty :: "string list \<Rightarrow> string" where
  "first_nonempty xs = (case filter (\<lambda>s. s \<noteq> []) xs of [] \<Rightarrow> [] | s # _ \<Rightarrow> s)"

definition canonical_item :: "(string \<times> (string \<times> py) list) list \<Rightarrow> plan_task \<Rightarrow> work_item" where
  "canonical_item raws pt =
     (let (test, impl_files) =
            canonical_task_test (case dict_get raws (pt_id pt) of None \<Rightarrow> [] | Some raw \<Rightarrow> raw) (pt_files pt)
      in \<lparr>task_id = pt_id pt, task_files = impl_files, task_test = test, task_deps = pt_depends_on pt,
          item_name = take 70 (first_nonempty [pt_title pt, pt_id pt]),
          item_text = strip (first_nonempty [pt_description pt, pt_notes pt, pt_title pt]),
          item_extra = []\<rparr>)"

text \<open>The places where \<open>PLAN.tasks.yaml\<close> may lie, in order; the first file counts.\<close>

definition canonical_plan_file :: "json_file option list \<Rightarrow> json_file option" where
  "canonical_plan_file places = (case filter (\<lambda>f. f \<noteq> None) places of [] \<Rightarrow> None | f # _ \<Rightarrow> f)"

definition decompose_canonical_plan_tasks :: "json_file option \<Rightarrow> work_item list" where
  "decompose_canonical_plan_tasks file =
     (case load_tasks file of
        Inl _ \<Rightarrow> []
      | Inr doc \<Rightarrow> map (canonical_item (raw_by_id file)) (doc_tasks doc))"

definition frozen_plan_test_paths :: "json_file option \<Rightarrow> string list" where
  "frozen_plan_test_paths file =
     foldl (\<lambda>out t. let test = strip (task_test t) in
         if test \<noteq> [] \<and> test \<notin> set out then out @ [test] else out)
       [] (decompose_canonical_plan_tasks file)"

subsection \<open>The rendered plan\<close>

text \<open>\<open>T\d+(?:\.\d+)?\b\<close> at the front of a text, with what follows.\<close>

definition task_id_prefix :: "string \<Rightarrow> (string \<times> string) option" where
  "task_id_prefix s =
     (case s of
        [] \<Rightarrow> None
      | c # cs \<Rightarrow>
          (let major = takeWhile is_digit cs;
               rest = dropWhile is_digit cs;
               minor = (if rest \<noteq> [] \<and> hd rest = CHR ''.'' then takeWhile is_digit (tl rest) else []);
               after = drop (length minor) (tl rest)
           in if c \<noteq> CHR ''T'' \<or> major = [] then None
              else if minor \<noteq> [] \<and> ends_word after then Some (c # major @ CHR ''.'' # minor, after)
              else if ends_word rest then Some (c # major, rest)
              else None))"

text \<open>Two to four hashes and white space at the front of a line.\<close>

definition heading_body :: "string \<Rightarrow> string option" where
  "heading_body l =
     (let hashes = takeWhile (\<lambda>c. c = CHR ''#'') l;
          rest = dropWhile (\<lambda>c. c = CHR ''#'') l
      in if 2 \<le> length hashes \<and> length hashes \<le> 4 \<and> rest \<noteq> [] \<and> is_space (hd rest)
         then Some (lstrip_by is_space rest) else None)"

definition plan_heading :: "string \<Rightarrow> (string \<times> string) option" where
  "plan_heading l =
     (case Option.bind (heading_body l) task_id_prefix of
        None \<Rightarrow> None
      | Some (tid, rest) \<Rightarrow>
          (let r = lstrip_by is_space rest;
               r = (if r \<noteq> [] \<and> hd r \<in> {em_dash, CHR '':'', CHR ''-''} then tl r else r)
           in Some (tid, lstrip_by is_space r)))"

definition plan_field :: "string \<Rightarrow> (string \<times> string) option" where
  "plan_field l =
     (if \<not> startswith l ''**'' then None
      else
        (case filter (\<lambda>k. startswith (lower (drop 2 l)) k) [''files'', ''test'', ''dependencies''] of
           [] \<Rightarrow> None
         | k # _ \<Rightarrow>
             (let rest = drop (2 + length k) l;
                  val = lstrip_by is_space (drop 3 rest)
              in if (startswith rest '':**'' \<or> startswith rest ''**:'') \<and> val \<noteq> [] then Some (k, val) else None)))"

lemma task_id_prefix_shorter: "task_id_prefix s = Some (tid, rest) \<Longrightarrow> length rest < length s"
  using length_dropWhile_le [of is_digit "tl s"]
  by (auto simp: task_id_prefix_def Let_def split: list.splits if_splits)

text \<open>\<open>findall\<close> of task ids: a match starts where no word character comes before.\<close>

function task_ids :: "bool \<Rightarrow> string \<Rightarrow> string list" where
  "task_ids prev [] = []"
| "task_ids prev (c # cs) =
     (case (if prev then None else task_id_prefix (c # cs)) of
        Some (tid, rest) \<Rightarrow> tid # task_ids True rest
      | None \<Rightarrow> task_ids (is_word_char c) cs)"
  by pat_completeness auto
termination
  by (relation "measure (\<lambda>(_, s). length s)")
    (auto dest: task_id_prefix_shorter split: if_splits)

function backtick_paths :: "string \<Rightarrow> string list" where
  "backtick_paths [] = []"
| "backtick_paths (c # cs) =
     (let body = takeWhile (\<lambda>x. x \<noteq> CHR ''`'') cs;
          rest = dropWhile (\<lambda>x. x \<noteq> CHR ''`'') cs
      in if c = CHR ''`'' \<and> body \<noteq> [] \<and> rest \<noteq> [] then body # backtick_paths (tl rest)
         else backtick_paths cs)"
  by pat_completeness auto
termination
  by (relation "measure length") (auto simp: less_Suc_eq_le intro: le_trans [OF diff_le_self length_dropWhile_le])

record fields =
  f_files :: "string list"
  f_test :: string
  f_deps :: "string list"

definition read_field :: "fields \<Rightarrow> string \<Rightarrow> fields" where
  "read_field fs l =
     (case plan_field (strip l) of
        None \<Rightarrow> fs
      | Some (k, val) \<Rightarrow>
          if k = ''dependencies'' then fs\<lparr>f_deps := task_ids False val\<rparr>
          else
            (let found = backtick_paths val;
                 paths = (if found \<noteq> [] then found else [strip val])
             in if k = ''files'' then fs\<lparr>f_files := filter (\<lambda>p. p \<noteq> []) (map strip paths)\<rparr>
                else fs\<lparr>f_test := usable_test (strip (hd paths))\<rparr>))"

fun plan_blocks :: "string list \<Rightarrow> (string \<times> string \<times> string list) list" where
  "plan_blocks [] = []"
| "plan_blocks (l # ls) =
     (case plan_heading (strip l) of
        None \<Rightarrow> plan_blocks ls
      | Some (tid, title) \<Rightarrow>
          (tid, title, takeWhile (\<lambda>x. plan_heading (strip x) = None) ls) # plan_blocks ls)"

definition newline :: string where
  "newline = [CHR 0x0A]"

definition plan_item :: "string \<times> string \<times> string list \<Rightarrow> work_item" where
  "plan_item b =
     (case b of
        (tid, raw_title, block) \<Rightarrow>
          (let title = clean_cell raw_title;
               fs = foldl read_field \<lparr>f_files = [], f_test = [], f_deps = []\<rparr> block
           in \<lparr>task_id = tid, task_files = f_files fs, task_test = f_test fs, task_deps = f_deps fs,
               item_name = take 70 (if title \<noteq> [] then tid @ '' '' @ [em_dash] @ '' '' @ title else tid),
               item_text = strip (join newline block), item_extra = []\<rparr>))"

definition decompose_plan_tasks :: "json_file option \<Rightarrow> string \<Rightarrow> work_item list" where
  "decompose_plan_tasks file md =
     (let canonical = decompose_canonical_plan_tasks file in
      if canonical \<noteq> [] then canonical
      else
        (let blocks = plan_blocks (splitlines [] md)
         in if length blocks < 2 then [] else map plan_item blocks))"

subsection \<open>The acceptance document\<close>

text \<open>\<open>AC\<close> or \<open>T\<close>, perhaps a separator, and a number; or the word Acceptance, perhaps Row, and a number.
  Letters of any case.\<close>

definition opt_sep :: "string \<Rightarrow> string" where
  "opt_sep s = (if s \<noteq> [] \<and> hd s \<in> {CHR ''-'', CHR ''_'', CHR '' ''} then tl s else s)"

definition numbered :: "string \<Rightarrow> bool" where
  "numbered s \<longleftrightarrow> s \<noteq> [] \<and> is_digit (hd s)"

definition after_word :: "string \<Rightarrow> string \<Rightarrow> string option" where
  "after_word w s = (if startswith (lower s) w then Some (drop (length w) s) else None)"

definition ac_heading :: "string \<Rightarrow> bool" where
  "ac_heading l \<longleftrightarrow>
     (case heading_body l of
        None \<Rightarrow> False
      | Some b \<Rightarrow>
          list_ex (\<lambda>w. case after_word w b of
              None \<Rightarrow> False
            | Some r \<Rightarrow> numbered (opt_sep r) \<and> ends_word (dropWhile is_digit (opt_sep r))) [''ac'', ''t''] \<or>
          (case after_word ''acceptance'' b of
             None \<Rightarrow> False
           | Some r \<Rightarrow>
               r \<noteq> [] \<and> is_space (hd r) \<and>
               (let q = lstrip_by is_space r in
                numbered q \<or>
                (case after_word ''row'' q of
                   None \<Rightarrow> False
                 | Some t \<Rightarrow> t \<noteq> [] \<and> is_space (hd t) \<and> numbered (lstrip_by is_space t)))))"

fun heading_blocks :: "string list \<Rightarrow> (string \<times> string list) list" where
  "heading_blocks [] = []"
| "heading_blocks (l # ls) =
     (if ac_heading (strip l) then (l, takeWhile (\<lambda>x. \<not> ac_heading (strip x)) ls) # heading_blocks ls
      else heading_blocks ls)"

definition heading_pair :: "string \<times> string list \<Rightarrow> string \<times> string" where
  "heading_pair b =
     (let name = clean_cell (case heading_body (strip (fst b)) of None \<Rightarrow> strip (fst b) | Some x \<Rightarrow> x);
          body = strip (join newline (snd b))
      in (take 70 name, strip (name @ (if body \<noteq> [] then newline @ body else []))))"

definition tasks_from_headings :: "string \<Rightarrow> (string \<times> string) list" where
  "tasks_from_headings md =
     (let blocks = heading_blocks (splitlines [] md)
      in if length blocks < 2 then [] else map heading_pair blocks)"

definition bar :: char where
  "bar = CHR ''|''"

definition separator_row :: "string \<Rightarrow> bool" where
  "separator_row l \<longleftrightarrow>
     l \<noteq> [] \<and> list_all (\<lambda>c. is_space c \<or> c = CHR '':'' \<or> c = bar \<or> c = CHR ''-'') l"

text \<open>\<open>^(AC[-_ ]?\d+|[A-Z]{2,4}\d*|done|todo|pass|fail)$\<close>, in any case; the four words are among the
  letters.\<close>

definition is_letter :: "char \<Rightarrow> bool" where
  "is_letter c \<longleftrightarrow> is_upper c \<or> is_lower c"

definition id_or_status :: "string \<Rightarrow> bool" where
  "id_or_status c \<longleftrightarrow>
     (case after_word ''ac'' c of
        None \<Rightarrow> False
      | Some r \<Rightarrow> numbered (opt_sep r) \<and> list_all is_digit (opt_sep r)) \<or>
     (let letters = takeWhile is_letter c in
      2 \<le> length letters \<and> length letters \<le> 4 \<and> list_all is_digit (dropWhile is_letter c))"

text \<open>\<open>max(\<dots>, key=len, default="")\<close>: the first of the longest.\<close>

fun longest :: "string list \<Rightarrow> string" where
  "longest [] = []"
| "longest [c] = c"
| "longest (c # d # cs) = (let m = longest (d # cs) in if length c < length m then m else c)"

definition row_cells :: "string \<Rightarrow> string list" where
  "row_cells l =
     filter (\<lambda>c. c \<noteq> [])
       (map clean_cell (split_on bar (rstrip_by (\<lambda>c. c = bar) (lstrip_by (\<lambda>c. c = bar) (strip l)))))"

definition row_criterion :: "string \<Rightarrow> string" where
  "row_criterion l = longest (filter (\<lambda>c. \<not> id_or_status c) (row_cells l))"

definition table_criteria :: "string list \<Rightarrow> string list" where
  "table_criteria ls =
     (let rows = filter (\<lambda>l. \<not> separator_row l) (filter (\<lambda>l. 2 \<le> count_list l bar) ls)
      in if length rows < 2 then []
         else filter (\<lambda>b. 8 \<le> length b) (map row_criterion (tl rows)))"

text \<open>A bullet, perhaps with a box, or a number with a point or a parenthesis.\<close>

definition without_box :: "string \<Rightarrow> string" where
  "without_box r =
     (if 4 \<le> length r \<and> r ! 0 = CHR ''['' \<and> r ! 1 \<in> {CHR '' '', CHR ''x'', CHR ''X''} \<and> r ! 2 = CHR '']'' \<and>
         is_space (r ! 3) then lstrip_by is_space (drop 3 r)
      else r)"

definition list_line :: "string \<Rightarrow> string option" where
  "list_line l =
     (let s = lstrip_by is_space l;
          digits = takeWhile is_digit s;
          (marked, rest) =
            (if s \<noteq> [] \<and> hd s \<in> {CHR ''-'', CHR ''*''} then (True, tl s)
             else if digits \<noteq> [] \<and> drop (length digits) s \<noteq> [] \<and>
                     hd (drop (length digits) s) \<in> {CHR ''.'', CHR '')''}
               then (True, tl (drop (length digits) s))
             else (False, []))
      in if \<not> marked \<or> rest = [] \<or> \<not> is_space (hd rest) then None
         else
           let val = lstrip_by is_space rest in
           Some (if digits = [] then (let u = without_box val in if u = [] then val else u) else val))"

definition without_ac :: "string \<Rightarrow> string" where
  "without_ac b =
     (case after_word ''ac'' b of
        None \<Rightarrow> b
      | Some r \<Rightarrow>
          (let q = lstrip_by is_space (dropWhile is_digit (opt_sep r)) in
           if numbered (opt_sep r) \<and> q \<noteq> [] \<and> hd q \<in> {CHR '':'', CHR ''.'', CHR ''-''}
           then lstrip_by is_space (tl q) else b))"

definition list_criteria :: "string list \<Rightarrow> string list" where
  "list_criteria ls =
     filter (\<lambda>b. 8 \<le> length b)
       (map (\<lambda>l. case list_line l of None \<Rightarrow> [] | Some v \<Rightarrow> without_ac (clean_cell v)) ls)"

definition criteria_from_markdown :: "string \<Rightarrow> string list" where
  "criteria_from_markdown md =
     (let ls = splitlines [] md;
          tabled = table_criteria ls
      in if tabled \<noteq> [] then tabled else list_criteria ls)"

fun first_of_each :: "string list \<Rightarrow> string list \<Rightarrow> string list" where
  "first_of_each seen [] = []"
| "first_of_each seen (c # cs) =
     (if lower c \<in> set seen then first_of_each seen cs else c # first_of_each (lower c # seen) cs)"

definition acceptance_pairs :: "string \<Rightarrow> (string \<times> string) list" where
  "acceptance_pairs md =
     (let pairs = tasks_from_headings md in
      if pairs \<noteq> [] then pairs
      else map (\<lambda>c. (take 70 c, c)) (first_of_each [] (criteria_from_markdown md)))"

definition simple_item :: "nat \<Rightarrow> string \<times> string \<Rightarrow> work_item" where
  "simple_item i p =
     \<lparr>task_id = CHR ''T'' # nat_str i, task_files = [], task_test = [], task_deps = [],
      item_name = fst p, item_text = snd p, item_extra = []\<rparr>"

definition fold_tail :: "work_item list \<Rightarrow> string list \<Rightarrow> work_item list" where
  "fold_tail ts tail = (if tail = [] then ts else butlast ts @ [(last ts)\<lparr>item_extra := tail\<rparr>])"

definition whole_product :: "string \<Rightarrow> work_item" where
  "whole_product prompt =
     (simple_item 1 (''Implement the product'',
        if prompt \<noteq> [] then prompt
        else ''Implement the product to satisfy the signed acceptance criteria.''))"

definition decompose_tasks ::
  "env \<Rightarrow> json_file option \<Rightarrow> string \<Rightarrow> string \<Rightarrow> string \<Rightarrow> budget_error + work_item list" where
  "decompose_tasks env file md acceptance prompt =
     (case resolve_build_max_tasks env None of
        Inl e \<Rightarrow> Inl e
      | Inr n \<Rightarrow>
          (let limit = nat n;
               plan = decompose_plan_tasks file md;
               pairs = acceptance_pairs acceptance
           in if plan \<noteq> [] then Inr (take limit plan)
              else if pairs = [] then Inr [whole_product prompt]
              else Inr (fold_tail (map (\<lambda>(i, p). simple_item i p) (zip [1..<Suc limit] (take limit pairs)))
                     (map snd (drop limit pairs)))))"

subsection \<open>The contract of Gate 2 (\<open>product/gate_orchestrator.py\<close>)\<close>

datatype contract_problem =
    NoAcceptanceDoc
  | NoRenderedPlan
  | NoTaskFile
  | NoValidTasks
  | TasksWithoutTest "string list"
  | MissingSkeletons "string list"
  | NotInParity "string list"

definition task_label :: "work_item \<Rightarrow> string" where
  "task_label t = first_nonempty [task_id t, item_name t, ''?'']"

definition surfaced :: "string \<Rightarrow> work_item \<Rightarrow> bool" where
  "surfaced plan t \<longleftrightarrow>
     (item_name t \<noteq> [] \<and> occurs_in (item_name t) plan) \<or> (task_id t \<noteq> [] \<and> occurs_in (task_id t) plan)"

definition some_problem :: "(string list \<Rightarrow> contract_problem) \<Rightarrow> string list \<Rightarrow> contract_problem list" where
  "some_problem p xs = (if xs = [] then [] else [p (take 5 xs)])"

text \<open>The arguments: the repository, whether the acceptance document is a file, the rendered plan if it is a
  file, its text being empty when it cannot be read, whether the task file is in its workspace place, and the
  task file that the decomposition finds.\<close>

definition validate_g2_plan_contract ::
  "place \<Rightarrow> bool \<Rightarrow> string option \<Rightarrow> bool \<Rightarrow> json_file option \<Rightarrow> contract_problem list" where
  "validate_g2_plan_contract pl acceptance plan_md task_file file =
     (let documents = (if acceptance then [] else [NoAcceptanceDoc]) @
            (if plan_md = None then [NoRenderedPlan] else []);
          ts = decompose_canonical_plan_tasks file;
          plan = (case plan_md of None \<Rightarrow> [] | Some p \<Rightarrow> p);
          tested = filter (\<lambda>t. strip (task_test t) \<noteq> []) ts
      in if ts = [] then documents @ [if task_file then NoValidTasks else NoTaskFile]
         else documents @
           some_problem TasksWithoutTest (map task_label (filter (\<lambda>t. strip (task_test t) = []) ts)) @
           some_problem MissingSkeletons
             (filter (\<lambda>p. \<not> is_file pl p) (map (\<lambda>t. strip (task_test t)) tested)) @
           some_problem NotInParity
             (map task_label (filter (\<lambda>t. plan \<noteq> [] \<and> \<not> surfaced plan t) tested)))"

subsection \<open>Frozen tests\<close>

lemma frozen_fold:
  "set (foldl (\<lambda>out t. let test = strip (task_test t) in
      if test \<noteq> [] \<and> test \<notin> set out then out @ [test] else out) out ts) =
    set out \<union> {strip (task_test t) |t. t \<in> set ts \<and> strip (task_test t) \<noteq> []}"
  by (induction ts arbitrary: out) (auto simp: Let_def)

lemma frozen_set:
  "set (frozen_plan_test_paths file) =
    {strip (task_test t) |t. t \<in> set (decompose_canonical_plan_tasks file) \<and> strip (task_test t) \<noteq> []}"
  by (simp add: frozen_plan_test_paths_def frozen_fold)

lemma usable_test_path: "usable_test t \<noteq> [] \<Longrightarrow> CHR ''/'' \<in> set t \<or> CHR 0x5C \<in> set t"
  by (auto simp: usable_test_def replace_char_def split: if_splits)

lemma canonical_test_usable:
  "t \<in> set (decompose_canonical_plan_tasks file) \<Longrightarrow> \<exists>w. task_test t = usable_test w"
  by (auto simp: decompose_canonical_plan_tasks_def canonical_item_def canonical_task_test_def Let_def
    split: sum.splits prod.splits)

lemma some_problem_empty [simp]: "some_problem p xs = [] \<longleftrightarrow> xs = []"
  by (simp add: some_problem_def)

lemma plain_file:
  assumes "is_file pl rel"
  shows "\<not> startswith rel ''/'' \<and> ''..'' \<notin> set (base pl @ path_parts rel) \<longrightarrow>
    (\<exists>b. node_at (machine_root pl) (base pl @ path_parts rel) = Some (RegFile b))"
proof
  assume "\<not> startswith rel ''/'' \<and> ''..'' \<notin> set (base pl @ path_parts rel)"
  then have "located pl rel = node_at (machine_root pl) (base pl @ path_parts rel)" by (simp add: located_plain)
  moreover from assms obtain b where "located pl rel = Some (RegFile b)"
    by (auto simp: is_file_def split: option.splits node.splits)
  ultimately show "\<exists>b. node_at (machine_root pl) (base pl @ path_parts rel) = Some (RegFile b)" by metis
qed

subsection \<open>Every criterion in one task\<close>

lemma max_tasks_positive: "resolve_build_max_tasks env None = Inr n \<Longrightarrow> 1 \<le> n"
  by (auto simp: resolve_build_max_tasks_def resolve_budget_def validate_budget_def Let_def
      DEFAULT_BUILD_MAX_TASKS_def split: option.splits if_splits)

lemma work_texts:
  "concat (map (\<lambda>t. item_text t # item_extra t) (map (\<lambda>(i, p). simple_item i p) ips)) = map (snd \<circ> snd) ips"
  by (induction ips) (auto simp: simple_item_def)

lemma fold_tail_texts:
  assumes "ts \<noteq> []" "\<forall>t \<in> set ts. item_extra t = []"
  shows "concat (map (\<lambda>t. item_text t # item_extra t) (fold_tail ts tail)) =
    concat (map (\<lambda>t. item_text t # item_extra t) ts) @ tail"
proof (cases "tail = []")
  case True
  then show ?thesis by (simp add: fold_tail_def)
next
  case False
  from assms(1) obtain us t where ts: "ts = us @ [t]" by (cases ts rule: rev_cases) auto
  with False assms(2) show ?thesis by (simp add: fold_tail_def)
qed

lemma fold_tail_ids: "ts \<noteq> [] \<Longrightarrow> map task_id (fold_tail ts tail) = map task_id ts"
  by (cases ts rule: rev_cases) (simp_all add: fold_tail_def)

lemma nat_str_inj: "nat_str a = nat_str b \<longleftrightarrow> a = b"
  by (metis int_body_nat_str option.inject)

subsection \<open>Properties\<close>

text \<open>C19: a plan that satisfies the contract of Gate 2 can be built test first. The documents are there,
  the machine plan has a task, and every task has an acceptance test that is a path, names an existing file,
  belongs to the frozen tests of the build, and is surfaced in the rendered plan, when that has a text. The file
  is looked up from the workspace; it lies in the workspace when the path is relative and does not climb with
  \<open>..\<close>, which the contract does not ask for (\<open>outside_test_is_accepted\<close>).\<close>

theorem plan_contract_means_testable:
  assumes "validate_g2_plan_contract pl acceptance plan_md task_file file = []"
  shows "acceptance \<and> plan_md \<noteq> None \<and> decompose_canonical_plan_tasks file \<noteq> [] \<and>
    (\<forall>t \<in> set (decompose_canonical_plan_tasks file).
       (CHR ''/'' \<in> set (task_test t) \<or> CHR 0x5C \<in> set (task_test t)) \<and>
       is_file pl (strip (task_test t)) \<and>
       (\<not> startswith (strip (task_test t)) ''/'' \<and> ''..'' \<notin> set (base pl @ path_parts (strip (task_test t))) \<longrightarrow>
          (\<exists>b. node_at (machine_root pl) (base pl @ path_parts (strip (task_test t))) = Some (RegFile b))) \<and>
       strip (task_test t) \<in> set (frozen_plan_test_paths file) \<and>
       (plan_md = Some [] \<or> surfaced (the plan_md) t))"
proof -
  from assms have d: "acceptance" "plan_md \<noteq> None" "decompose_canonical_plan_tasks file \<noteq> []"
    by (auto simp: validate_g2_plan_contract_def Let_def split: if_splits)
  have "(CHR ''/'' \<in> set (task_test t) \<or> CHR 0x5C \<in> set (task_test t)) \<and>
       is_file pl (strip (task_test t)) \<and>
       (\<not> startswith (strip (task_test t)) ''/'' \<and> ''..'' \<notin> set (base pl @ path_parts (strip (task_test t))) \<longrightarrow>
          (\<exists>b. node_at (machine_root pl) (base pl @ path_parts (strip (task_test t))) = Some (RegFile b))) \<and>
       strip (task_test t) \<in> set (frozen_plan_test_paths file) \<and>
       (plan_md = Some [] \<or> surfaced (the plan_md) t)"
    if t: "t \<in> set (decompose_canonical_plan_tasks file)" for t
  proof -
    have ne: "strip (task_test t) \<noteq> []"
      using assms d t by (auto simp: validate_g2_plan_contract_def Let_def filter_empty_conv)
    then have "CHR ''/'' \<in> set (task_test t) \<or> CHR 0x5C \<in> set (task_test t)"
    proof -
      obtain w where w: "task_test t = usable_test w" using canonical_test_usable [OF t] by blast
      with ne have "usable_test w \<noteq> []" by auto
      with usable_test_path [OF this] w show ?thesis by (simp add: usable_test_def split: if_splits)
    qed
    moreover have f: "is_file pl (strip (task_test t))" "plan_md = Some [] \<or> surfaced (the plan_md) t"
      using assms d t ne by (auto simp: validate_g2_plan_contract_def Let_def filter_empty_conv)
    moreover note plain_file [OF f(1)]
    moreover have "strip (task_test t) \<in> set (frozen_plan_test_paths file)"
      using t ne unfolding frozen_set by blast
    ultimately show ?thesis by blast
  qed
  with d show ?thesis by blast
qed

text \<open>The fold over the criteria that were read: none is lost, the last task carries the rest.\<close>

lemma fold_keeps_criteria:
  assumes "decompose_tasks env file md acceptance prompt = Inr ts"
    and "resolve_build_max_tasks env None = Inr n"
    and "decompose_plan_tasks file md = []" "acceptance_pairs acceptance \<noteq> []"
  shows "concat (map (\<lambda>t. item_text t # item_extra t) ts) = map snd (acceptance_pairs acceptance) \<and>
    distinct (map task_id ts) \<and> length ts = min (nat n) (length (acceptance_pairs acceptance)) \<and> 1 \<le> length ts"
proof -
  let ?ps = "acceptance_pairs acceptance"
  let ?k = "min (nat n) (length ?ps)"
  let ?us = "map (\<lambda>(i, p). simple_item i p) (zip [1..<Suc (nat n)] (take (nat n) ?ps))"
  have n: "1 \<le> nat n" using max_tasks_positive [OF assms(2)] by simp
  have ts: "ts = fold_tail ?us (map snd (drop (nat n) ?ps))"
    using assms by (simp add: decompose_tasks_def Let_def)
  have ne: "?us \<noteq> []" using n assms(4) by (cases ?ps) auto
  have "map snd (zip [1..<Suc (nat n)] (take (nat n) ?ps)) = take (nat n) ?ps"
    by (simp add: map_snd_zip_take min_def del: upt_Suc)
  then have "map (snd \<circ> snd) (zip [1..<Suc (nat n)] (take (nat n) ?ps)) = map snd (take (nat n) ?ps)"
    by (metis map_map)
  then have texts: "concat (map (\<lambda>t. item_text t # item_extra t) ?us) = map snd (take (nat n) ?ps)"
    unfolding work_texts .
  have "\<forall>t \<in> set ?us. item_extra t = []" by (auto simp: simple_item_def)
  from fold_tail_texts [OF ne this] texts
  have "concat (map (\<lambda>t. item_text t # item_extra t) ts) = map snd ?ps"
    unfolding ts by (simp flip: map_append)
  moreover have ids: "map task_id ts = map (\<lambda>i. CHR ''T'' # nat_str i) [1..<Suc ?k]"
  proof -
    have "map task_id ?us = map (\<lambda>i. CHR ''T'' # nat_str i) (map fst (zip [1..<Suc (nat n)] (take (nat n) ?ps)))"
      by (auto simp: simple_item_def)
    also have "map fst (zip [1..<Suc (nat n)] (take (nat n) ?ps)) = [1..<Suc ?k]"
      by (simp add: map_fst_zip_take take_upt min.commute min_def del: upt_Suc)
    finally show ?thesis unfolding ts fold_tail_ids [OF ne] .
  qed
  have "distinct (map task_id ts)"
    unfolding ids by (simp add: distinct_map inj_on_def nat_str_inj del: upt_Suc)
  moreover have "length ts = ?k"
    using arg_cong [OF ids, of length] by (simp del: upt_Suc)
  moreover have "1 \<le> ?k" using n assms(4) by (cases ?ps) simp_all
  ultimately show ?thesis by simp
qed

text \<open>
  An acceptance document as it is authored: prose, and criteria behind the marker of a list. A criterion is clean
  when the reading leaves it as it is: it has eight characters or more, single spaces, none of the characters of
  tables and code, and no number of its own in front.
\<close>

datatype marker = Dash | Star | OpenBox | DoneBox | Numbered nat

datatype entry = Prose string | Criterion marker string

fun marker_text :: "marker \<Rightarrow> string" where
  "marker_text Dash = ''- ''"
| "marker_text Star = ''* ''"
| "marker_text OpenBox = ''- [ ] ''"
| "marker_text DoneBox = ''- [x] ''"
| "marker_text (Numbered n) = nat_str n @ ''. ''"

fun entry_line :: "entry \<Rightarrow> string" where
  "entry_line (Prose l) = l"
| "entry_line (Criterion m c) = marker_text m @ c"

definition acceptance_doc :: "entry list \<Rightarrow> string" where
  "acceptance_doc es = concat (map (\<lambda>e. entry_line e @ newline) es)"

definition criteria_of :: "entry list \<Rightarrow> string list" where
  "criteria_of es = concat (map (\<lambda>e. case e of Prose _ \<Rightarrow> [] | Criterion _ c \<Rightarrow> [c]) es)"

definition clean_criterion :: "string \<Rightarrow> bool" where
  "clean_criterion c \<longleftrightarrow>
     8 \<le> length c \<and> strip c = c \<and> squeeze_ws False c = c \<and>
     list_all (\<lambda>x. \<not> line_break x \<and> x \<noteq> CHR ''`'' \<and> x \<noteq> bar) c \<and> hd c \<noteq> CHR ''['' \<and>
     \<not> (startswith (lower c) ''ac'' \<and> numbered (opt_sep (drop 2 c)))"

definition plain_prose :: "string \<Rightarrow> bool" where
  "plain_prose l \<longleftrightarrow>
     list_all (\<lambda>x. \<not> line_break x \<and> x \<noteq> bar) l \<and> \<not> startswith (strip l) ''##'' \<and>
     (let s = lstrip_by is_space l in s = [] \<or> (hd s \<notin> {CHR ''-'', CHR ''*''} \<and> \<not> is_digit (hd s)))"

definition authored :: "entry \<Rightarrow> bool" where
  "authored e = (case e of Prose l \<Rightarrow> plain_prose l | Criterion _ c \<Rightarrow> clean_criterion c)"

lemma lines_of_doc:
  "list_all (\<lambda>e. one_line (entry_line e)) es \<Longrightarrow> splitlines [] (acceptance_doc es) = map entry_line es"
proof (induction es)
  case Nil
  then show ?case by (simp add: acceptance_doc_def)
next
  case (Cons e es)
  have "acceptance_doc (e # es) = entry_line e @ CHR 0x0A # acceptance_doc es"
    by (simp add: acceptance_doc_def newline_def)
  with Cons splitlines_break [of "entry_line e" "CHR 0x0A" "[]" "acceptance_doc es"] show ?case by simp
qed

lemma clean_start:
  assumes "clean_criterion c"
  obtains x xs where "c = x # xs" "\<not> is_space x" "x \<noteq> CHR ''[''"
proof (cases c)
  case Nil
  with assms show thesis by (simp add: clean_criterion_def)
next
  case (Cons x xs)
  with assms that show thesis
    using strip_ends [of c] by (auto simp: clean_criterion_def)
qed

lemma clean_read:
  assumes "clean_criterion c"
  shows "clean_cell c = c" "without_ac c = c" "8 \<le> length c"
proof -
  from assms have "filter (\<lambda>x. x \<noteq> CHR ''`'') c = c"
    by (auto simp: clean_criterion_def list_all_iff filter_id_conv)
  with assms show "clean_cell c = c" by (simp add: clean_cell_def clean_criterion_def)
  from assms show "without_ac c = c"
    by (auto simp: without_ac_def clean_criterion_def after_word_def Let_def numeral_2_eq_2 split: option.split)
qed (use assms in \<open>simp add: clean_criterion_def\<close>)

lemma take_digits_nat: "takeWhile is_digit (nat_str n @ CHR ''.'' # r) = nat_str n"
proof -
  have "takeWhile is_digit (nat_str n @ CHR ''.'' # r) = nat_str n @ takeWhile is_digit (CHR ''.'' # r)"
    by (rule takeWhile_append2) (rule nat_str_digits)
  then show ?thesis by (simp add: is_digit_def)
qed

lemma lstrip_nat_str: "lstrip_by is_space (nat_str n @ r) = nat_str n @ r"
proof -
  have "is_digit (hd (nat_str n))" by (rule nat_str_digits [OF hd_in_set]) simp
  then have "\<not> is_space (hd (nat_str n))" by (auto simp: is_digit_def is_space_def Let_def)
  then show ?thesis by (cases "nat_str n") (simp_all add: lstrip_by_def)
qed

lemma list_line_criterion:
  assumes "clean_criterion c"
  shows "list_line (marker_text m @ c) = Some c"
proof -
  from assms obtain x xs where c: "c = x # xs" "\<not> is_space x" "x \<noteq> CHR ''[''" by (rule clean_start)
  have sp: "lstrip_by is_space (CHR '' '' # c) = c" using c by (simp add: lstrip_by_def is_space_def)
  have nd: "\<not> is_digit CHR ''-''" "\<not> is_digit CHR ''*''" "\<not> is_space CHR ''-''" "\<not> is_space CHR ''*''" "is_space CHR '' ''"
      "\<not> is_space CHR ''[''"
    by (simp_all add: is_digit_def is_space_def)
  show ?thesis
  proof (cases m)
    case (Numbered n)
    have "is_digit (hd (nat_str n))" by (rule nat_str_digits [OF hd_in_set]) simp
    then have "hd (nat_str n) \<notin> {CHR ''-'', CHR ''*''}" using nd(1,2) by auto
    then show ?thesis
      using Numbered sp nd
      by (simp add: list_line_def Let_def lstrip_nat_str take_digits_nat)
  next
    case Dash
    with c sp nd show ?thesis by (simp add: list_line_def lstrip_by_def Let_def without_box_def)
  next
    case Star
    with c sp nd show ?thesis by (simp add: list_line_def lstrip_by_def Let_def without_box_def)
  next
    case OpenBox
    with c sp nd show ?thesis by (simp add: list_line_def lstrip_by_def Let_def without_box_def)
  next
    case DoneBox
    with c sp nd show ?thesis by (simp add: list_line_def lstrip_by_def Let_def without_box_def)
  qed
qed

lemma list_line_prose: "plain_prose l \<Longrightarrow> list_line l = None"
  by (cases "lstrip_by is_space l") (auto simp: plain_prose_def list_line_def Let_def)

lemma count_bar_none: "bar \<notin> set l \<Longrightarrow> count_list l bar = 0"
  by simp

lemma no_heading: "\<not> startswith s ''##'' \<Longrightarrow> \<not> ac_heading s"
proof -
  assume a: "\<not> startswith s ''##''"
  have "length (takeWhile (\<lambda>c. c = CHR ''#'') s) < 2"
  proof (cases s)
    case (Cons x xs)
    with a show ?thesis by (cases xs) auto
  qed simp
  then show ?thesis by (simp add: ac_heading_def heading_body_def Let_def)
qed

lemma authored_line:
  assumes "authored e"
  shows "one_line (entry_line e)" "bar \<notin> set (entry_line e)" "\<not> ac_heading (strip (entry_line e))"
proof -
  have dig: "is_digit d \<Longrightarrow> \<not> line_break d \<and> d \<noteq> bar \<and> d \<noteq> CHR ''#''" for d
    by (auto simp: is_digit_def line_break_def bar_def Let_def)
  have "one_line (entry_line e) \<and> bar \<notin> set (entry_line e) \<and> \<not> ac_heading (strip (entry_line e))"
  proof (cases e)
    case (Prose l)
    with assms no_heading [of "strip l"] show ?thesis
      by (simp add: authored_def plain_prose_def one_line_def list_all_iff) blast
  next
    case (Criterion m c)
    with assms have c: "clean_criterion c" by (simp add: authored_def)
    have t: "\<forall>d \<in> set (marker_text m). \<not> line_break d \<and> d \<noteq> bar"
      using dig nat_str_digits by (cases m) (auto simp: line_break_def bar_def)
    have h: "\<not> is_space (hd (marker_text m)) \<and> hd (marker_text m) \<noteq> CHR ''#'' \<and> marker_text m \<noteq> []"
    proof (cases m)
      case (Numbered n)
      have "is_digit (hd (nat_str n))" by (rule nat_str_digits [OF hd_in_set]) simp
      with Numbered show ?thesis by (auto simp: is_digit_def is_space_def Let_def)
    qed (simp_all add: is_space_def)
    have "lstrip_by is_space (marker_text m @ c) = marker_text m @ c"
      using h by (cases "marker_text m") (auto simp: lstrip_by_def)
    then have "prefix (strip (marker_text m @ c)) (marker_text m @ c)"
      using rstrip_by_prefix [of is_space "marker_text m @ c"] by (simp add: strip_def)
    moreover have "\<not> prefix ''##'' (marker_text m @ c)" using h by (cases "marker_text m") auto
    ultimately have "\<not> startswith (strip (marker_text m @ c)) ''##''"
      using prefix_order.trans [of "''##''" "strip (marker_text m @ c)"] by blast
    then have "\<not> ac_heading (strip (marker_text m @ c))" by (rule no_heading)
    moreover have "\<forall>d \<in> set c. \<not> line_break d \<and> d \<noteq> bar" using c by (simp add: clean_criterion_def list_all_iff)
    ultimately show ?thesis using t Criterion by (simp add: one_line_def) blast
  qed
  then show "one_line (entry_line e)" "bar \<notin> set (entry_line e)" "\<not> ac_heading (strip (entry_line e))"
    by blast+
qed

lemma first_of_each_distinct:
  "distinct (map lower cs) \<Longrightarrow> set (map lower cs) \<inter> set seen = {} \<Longrightarrow> first_of_each seen cs = cs"
  by (induction cs arbitrary: seen) auto

lemma no_blocks: "list_all (\<lambda>l. \<not> ac_heading (strip l)) ls \<Longrightarrow> heading_blocks ls = []"
  by (induction ls) auto

lemma list_criteria_authored:
  "list_all authored es \<Longrightarrow> list_criteria (map entry_line es) = criteria_of es"
proof (induction es)
  case Nil
  then show ?case by (simp add: list_criteria_def criteria_of_def)
next
  case (Cons e es)
  then show ?case
    by (cases e)
      (auto simp: list_criteria_def criteria_of_def authored_def list_line_prose list_line_criterion clean_read)
qed

lemma authored_pairs:
  assumes "list_all authored es" and "distinct (map lower (criteria_of es))"
  shows "acceptance_pairs (acceptance_doc es) = map (\<lambda>c. (take 70 c, c)) (criteria_of es)"
proof -
  from assms(1) have lines: "splitlines [] (acceptance_doc es) = map entry_line es"
    by (intro lines_of_doc) (auto simp: list_all_iff authored_line)
  have "heading_blocks (map entry_line es) = []"
    using assms(1) by (intro no_blocks) (auto simp: list_all_iff authored_line)
  then have "tasks_from_headings (acceptance_doc es) = []" by (simp add: tasks_from_headings_def lines)
  moreover have "filter (\<lambda>l. 2 \<le> count_list l bar) (map entry_line es) = []"
    using assms(1) by (auto simp: filter_empty_conv list_all_iff authored_line count_bar_none)
  then have "table_criteria (map entry_line es) = []" by (simp only: table_criteria_def) simp
  ultimately show ?thesis
    using first_of_each_distinct [OF assms(2), of "[]"]
    by (simp add: acceptance_pairs_def criteria_from_markdown_def lines list_criteria_authored [OF assms(1)])
qed

text \<open>C25: a list of criteria becomes tasks without a loss. Where the plan has no tasks of its own and the acceptance
  document is a list, of any mixture of bullets, boxes and numbers with prose between them, whose criteria are clean
  and differ from each other in more than case, the decomposition succeeds: the texts of the tasks, followed by what
  the last task carries besides, are those criteria in their order, each task is named after its criterion, the ids
  are distinct, and there are as many tasks as criteria, or as configured when that is less. Other criteria may be lost:
  short ones, and those in a list beside a table (\<open>short_criterion_is_lost\<close>, \<open>list_beside_table_is_lost\<close>).\<close>

theorem decomposition_keeps_criteria:
  assumes "list_all authored es" and "distinct (map lower (criteria_of es))" and "criteria_of es \<noteq> []"
    and "decompose_plan_tasks file md = []" and "resolve_build_max_tasks env None = Inr n"
  shows "\<exists>ts. decompose_tasks env file md (acceptance_doc es) prompt = Inr ts \<and>
    concat (map (\<lambda>t. item_text t # item_extra t) ts) = criteria_of es \<and>
    map item_name ts = map (take 70) (take (nat n) (criteria_of es)) \<and>
    distinct (map task_id ts) \<and> length ts = min (nat n) (length (criteria_of es)) \<and> 1 \<le> length ts"
proof -
  let ?cs = "criteria_of es"
  let ?ps = "map (\<lambda>c. (take 70 c, c)) ?cs"
  let ?us = "map (\<lambda>(i, p). simple_item i p) (zip [1..<Suc (nat n)] (take (nat n) ?ps))"
  note ps = authored_pairs [OF assms(1,2)]
  have d: "decompose_tasks env file md (acceptance_doc es) prompt = Inr (fold_tail ?us (map snd (drop (nat n) ?ps)))"
    using assms(3-5) ps by (simp add: decompose_tasks_def Let_def)
  have "?us \<noteq> []" using max_tasks_positive [OF assms(5)] assms(3) by (cases ?cs) auto
  then have f: "map item_name (fold_tail ?us tail) = map item_name ?us" for tail
    by (cases ?us rule: rev_cases) (simp_all add: fold_tail_def)
  have "map item_name ?us = map fst (map snd (zip [1..<Suc (nat n)] (take (nat n) ?ps)))"
    by (auto simp: simple_item_def)
  also have "\<dots> = map (take 70) (take (nat n) ?cs)"
    by (simp add: map_snd_zip_take min_def take_map comp_def del: upt_Suc)
  finally have "map item_name (fold_tail ?us (map snd (drop (nat n) ?ps))) = map (take 70) (take (nat n) ?cs)"
    unfolding f .
  moreover have ne: "acceptance_pairs (acceptance_doc es) \<noteq> []" using ps assms(3) by simp
  have "map snd ?ps = ?cs" by (simp add: comp_def)
  moreover note fold_keeps_criteria [OF d assms(5,4) ne, unfolded ps length_map this]
  ultimately show ?thesis using d by blast
qed

definition demo_ulid :: "char \<Rightarrow> string" where
  "demo_ulid c = ''0000000000000000000000000'' @ [c]"

text \<open>Two tasks, each with a test among its files; the argument says what the first depends on.\<close>

definition demo_tasks :: "string list \<Rightarrow> json_file option" where
  "demo_tasks deps =
     dump_tasks \<lparr>doc_wave = ''W1'',
       doc_tasks = map (\<lambda>(c, ds).
         \<lparr>pt_id = demo_ulid c, pt_title = ''Task '' @ [c], pt_status = ''pending'', pt_tier = ''T1'',
          pt_owner = [], pt_depends_on = ds, pt_effort_days = 1, pt_prompt_file = [], pt_wave = [],
          pt_branch = [], pt_notes = [], pt_description = [],
          pt_files = [''src/'' @ [c] @ ''.ts'', ''src/'' @ [c] @ ''.test.ts''], pt_skills = [],
          pt_previous_failure = [], pt_feature = [], pt_epic = [], pt_release = [], pt_value = 0,
          pt_provenance = []\<rparr>) [(CHR ''A'', deps), (CHR ''B'', [demo_ulid (CHR ''A'')])],
       doc_generated_at = []\<rparr>"

definition demo_repo :: place where
  "demo_repo =
     \<lparr>machine_root = Dir \<lparr>mtime = Some 0, listable = True\<rparr>
        [(''src'', Dir \<lparr>mtime = Some 0, listable = True\<rparr>
           [(''A.test.ts'', RegFile (Some [])), (''B.test.ts'', RegFile (Some []))])],
      base = []\<rparr>"

definition demo_plan_md :: string where
  "demo_plan_md = ''Task A and Task B''"

theorem plan_contract_means_testable_witness:
  "is_file demo_repo ''src/A.test.ts'' \<and>
   ''src/A.test.ts'' \<in> set (frozen_plan_test_paths (demo_tasks []))"
proof -
  have "validate_g2_plan_contract demo_repo True (Some demo_plan_md) True (demo_tasks []) = []" by code_simp
  note contract = plan_contract_means_testable [OF this]
  obtain t ts where t: "decompose_canonical_plan_tasks (demo_tasks []) = t # ts" "strip (task_test t) = ''src/A.test.ts''"
  proof -
    have "map (strip \<circ> task_test) (decompose_canonical_plan_tasks (demo_tasks [])) = [''src/A.test.ts'', ''src/B.test.ts'']"
      by code_simp
    then show ?thesis by (auto simp: map_eq_Cons_conv intro!: that)
  qed
  with contract show ?thesis by auto
qed

definition demo_acceptance :: "entry list" where
  "demo_acceptance =
     [Prose ''# Acceptance'', Prose [], Criterion Dash ''the first thing'', Criterion DoneBox ''the second thing'',
      Criterion (Numbered 3) ''the third thing'']"

theorem decomposition_keeps_criteria_witness:
  "\<exists>ts. decompose_tasks (\<lambda>k. if k = ''SIGNALOS_BUILD_MAX_TASKS'' then Some ''2'' else None) None []
       (acceptance_doc demo_acceptance) [] = Inr ts \<and>
     concat (map (\<lambda>t. item_text t # item_extra t) ts) =
       [''the first thing'', ''the second thing'', ''the third thing''] \<and> length ts = 2"
proof -
  let ?env = "\<lambda>k. if k = ''SIGNALOS_BUILD_MAX_TASKS'' then Some ''2'' else None"
  have n: "resolve_build_max_tasks ?env None = Inr 2" by code_simp
  have p: "decompose_plan_tasks None [] = []" by code_simp
  have a: "list_all authored demo_acceptance" by code_simp
  have c: "criteria_of demo_acceptance = [''the first thing'', ''the second thing'', ''the third thing'']" by code_simp
  have d: "distinct (map lower (criteria_of demo_acceptance))" by code_simp
  from c have ne: "criteria_of demo_acceptance \<noteq> []" by simp
  from decomposition_keeps_criteria [OF a d ne p n, of "[]"] show ?thesis unfolding c by auto
qed

subsection \<open>Where a plan falls through\<close>

text \<open>The machine plan is never validated on its way to the build: tasks that wait for each other satisfy the
  contract of Gate 2 and become tasks of the build.\<close>

lemma cyclic_plan_is_accepted:
  "validate_g2_plan_contract demo_repo True (Some demo_plan_md) True (demo_tasks [demo_ulid (CHR ''B'')]) = [] \<and>
   map_option validate_tasks (case load_tasks (demo_tasks [demo_ulid (CHR ''B'')]) of Inl _ \<Rightarrow> None | Inr d \<Rightarrow> Some d) =
     Some (Some [Cycle (demo_ulid (CHR ''A''))])"
  by code_simp

text \<open>The acceptance test of a task may lie outside the workspace: the contract follows \<open>..\<close>.\<close>

definition outside_tasks :: "json_file option" where
  "outside_tasks =
     dump_tasks \<lparr>doc_wave = ''W1'',
       doc_tasks = [
         \<lparr>pt_id = demo_ulid (CHR ''A''), pt_title = ''Task A'', pt_status = ''pending'', pt_tier = ''T1'',
          pt_owner = [], pt_depends_on = [], pt_effort_days = 1, pt_prompt_file = [], pt_wave = [],
          pt_branch = [], pt_notes = [], pt_description = [], pt_files = [''../out/a.test.ts''], pt_skills = [],
          pt_previous_failure = [], pt_feature = [], pt_epic = [], pt_release = [], pt_value = 0,
          pt_provenance = []\<rparr>],
       doc_generated_at = []\<rparr>"

definition outside_repo :: place where
  "outside_repo =
     \<lparr>machine_root = Dir \<lparr>mtime = Some 0, listable = True\<rparr>
        [(''w'', Dir \<lparr>mtime = Some 0, listable = True\<rparr> []),
         (''out'', Dir \<lparr>mtime = Some 0, listable = True\<rparr> [(''a.test.ts'', RegFile (Some []))])],
      base = [''w'']\<rparr>"

lemma outside_test_is_accepted:
  "validate_g2_plan_contract outside_repo True (Some demo_plan_md) True outside_tasks = [] \<and>
   map task_test (decompose_canonical_plan_tasks outside_tasks) = [''../out/a.test.ts''] \<and>
   node_at (machine_root outside_repo) (base outside_repo) = Some (Dir \<lparr>mtime = Some 0, listable = True\<rparr> [])"
  by code_simp

text \<open>Tasks of the plan beyond the configured number are dropped, and their tests stay frozen.\<close>

lemma plan_tasks_are_dropped:
  "map_sum (\<lambda>_. ()) (map task_test)
     (decompose_tasks (\<lambda>k. if k = ''SIGNALOS_BUILD_MAX_TASKS'' then Some ''1'' else None) (demo_tasks []) [] [] []) =
     Inr [''src/A.test.ts''] \<and>
   frozen_plan_test_paths (demo_tasks []) = [''src/A.test.ts'', ''src/B.test.ts'']"
  by code_simp

text \<open>A criterion below eight characters is lost, and so is every criterion of a list that stands beside a table.\<close>

lemma short_criterion_is_lost:
  "map snd (acceptance_pairs (''- Log in'' @ newline @ ''- Reset the password'')) = [''Reset the password'']"
  by code_simp

lemma list_beside_table_is_lost:
  "map snd (acceptance_pairs (''| Id | Criterion |'' @ newline @ ''| 1 | Reset the password |'' @ newline @
     ''- Log in with a token'')) = [''Reset the password'']"
  by code_simp

text \<open>A dependency that is written as a text and not as a list is read letter by letter.\<close>

lemma scalar_dependency_is_split:
  "map_option pt_depends_on (task_from_dict [(''id'', PStr ''T2''), (''depends_on'', PStr ''T1'')]) =
     Some [''T'', ''1'']"
  by code_simp

text \<open>A test in the root of the workspace is taken from the files of its task, and then refused for having no
  slash: it is in neither.\<close>

lemma root_test_is_lost:
  "canonical_task_test [] [''app.ts'', ''app.test.ts''] = ([], [''app.ts''])"
  by code_simp

end
