(* ===== verification/AgentResult.thy ===== *)
theory AgentResult
  imports Fnmatch ReleaseTree
begin

section \<open>Results of external agents (\<open>product/agent_packets.py\<close>, \<open>product/lessons.py\<close>)\<close>

text \<open>
  What an agent reports in \<open>RESULT.json\<close> is checked against its packet \<open>scope.json\<close>: the contract
  fields of the packet, the required fields of the result, the accounting of the selected lessons, the
  paths and the actions. \<open>None\<close> stands for an exception, which a value of an unexpected type raises. The
  lists of the packet are lists of texts, and the selected lessons dictionaries, as the code writes them.
  Arguments: the message of the JSON parser, and whether a path names a file inside the repository or the
  directory of the run.
\<close>

definition REQUIRED_PACKET_CONTRACT_FIELDS :: "string list" where
  "REQUIRED_PACKET_CONTRACT_FIELDS =
     [''quality_bar'', ''success_criteria'', ''evidence_required'', ''forbidden_rules'',
      ''repair_policy'', ''escalation_policy'', ''source_policy'', ''team_contract'']"

definition DEFAULT_FORBIDDEN_PATHS :: "string list" where
  "DEFAULT_FORBIDDEN_PATHS =
     [''.signalos/'', ''node_modules/'', ''.git/'', ''.env'', ''.env.local'', ''*.pem'', ''*.key'']"

definition DEFAULT_FORBIDDEN_ACTIONS :: "string list" where
  "DEFAULT_FORBIDDEN_ACTIONS = [''git push'', ''npm publish'', ''deploy'', ''rm -rf'']"

definition empty_contract_value :: "py \<Rightarrow> bool" where
  "empty_contract_value v \<longleftrightarrow> v = PNone \<or> v = PList [] \<or> v = PDict [] \<or> v = PStr []"

definition packet_contract_violations :: "(string \<times> py) list \<Rightarrow> string list" where
  "packet_contract_violations scope =
     map (\<lambda>f. ''scope.json missing required packet contract field: '' @ f)
       (filter (\<lambda>f. empty_contract_value (get_py scope f)) REQUIRED_PACKET_CONTRACT_FIELDS)"

subsection \<open>Paths\<close>

definition slashes :: "string \<Rightarrow> string" where
  "slashes p = replace_char (CHR 0x5C) (CHR ''/'') p"

text \<open>\<open>s.rsplit("/", 1)\<close>: before and after the last slash.\<close>

definition before_last_slash :: "string \<Rightarrow> string" where
  "before_last_slash s =
     (if CHR ''/'' \<in> set s then rev (tl (dropWhile (\<lambda>c. c \<noteq> CHR ''/'') (rev s))) else s)"

definition after_last_slash :: "string \<Rightarrow> string" where
  "after_last_slash s = rev (takeWhile (\<lambda>c. c \<noteq> CHR ''/'') (rev s))"

definition matches_allowed :: "string \<Rightarrow> string \<Rightarrow> bool" where
  "matches_allowed path pattern \<longleftrightarrow>
     (let normed = slashes path; pat = slashes pattern in
      fnmatch normed pat \<or>
      ((endswith pat ''/*'' \<or> endswith pat ''/**'') \<and> startswith normed (before_last_slash pat @ ''/'')))"

definition path_matches_any :: "string \<Rightarrow> string list \<Rightarrow> bool" where
  "path_matches_any path patterns \<longleftrightarrow> list_ex (matches_allowed path) patterns"

definition matches_forbidden :: "string \<Rightarrow> string \<Rightarrow> bool" where
  "matches_forbidden path pat \<longleftrightarrow>
     (let normed = slashes path; p = rstrip_by (\<lambda>c. c = CHR ''/'') (slashes pat) in
      if endswith pat ''/'' then startswith normed (p @ ''/'') \<or> normed = p
      else if CHR ''*'' \<in> set pat then fnmatch normed p \<or> fnmatch (after_last_slash normed) p
      else normed = p \<or> endswith normed (''/'' @ p))"

definition path_matches_any_forbidden :: "string \<Rightarrow> string list \<Rightarrow> bool" where
  "path_matches_any_forbidden path forbidden \<longleftrightarrow> list_ex (matches_forbidden path) forbidden"

subsection \<open>Lessons\<close>

definition string_set :: "py \<Rightarrow> string list" where
  "string_set v =
     (case v of PList xs \<Rightarrow> filter (\<lambda>s. s \<noteq> []) (map (strip \<circ> py_str) xs) | _ \<Rightarrow> [])"

definition lesson_ref :: "(string \<times> py) list \<Rightarrow> string" where
  "lesson_ref item =
     (let i = get_py item ''id''; j = get_py item ''lesson_id'' in
      strip (if truthy i then py_str i else or_empty_str j))"

fun not_applicable_by_id :: "(string \<times> (string \<times> py) list) list \<Rightarrow> py list \<Rightarrow> (string \<times> (string \<times> py) list) list" where
  "not_applicable_by_id d [] = d"
| "not_applicable_by_id d (x # xs) =
     not_applicable_by_id
       (case x of PDict item \<Rightarrow> if lesson_ref item \<noteq> [] then dict_set d (lesson_ref item) item else d | _ \<Rightarrow> d) xs"

fun evidence_by_id ::
  "(string \<times> (string \<times> py) list list) list \<Rightarrow> py list \<Rightarrow> (string \<times> (string \<times> py) list list) list" where
  "evidence_by_id d [] = d"
| "evidence_by_id d (x # xs) =
     evidence_by_id
       (case x of
          PDict item \<Rightarrow>
            if lesson_ref item \<noteq> []
            then dict_set d (lesson_ref item)
              ((case dict_get d (lesson_ref item) of None \<Rightarrow> [] | Some es \<Rightarrow> es) @ [item])
            else d
        | _ \<Rightarrow> d) xs"

definition first_text :: "(string \<times> py) list \<Rightarrow> string \<Rightarrow> string \<Rightarrow> string" where
  "first_text e k k' =
     strip (if truthy (get_py e k) then py_str (get_py e k) else or_empty_str (get_py e k'))"

definition lesson_evidence_exists :: "(string \<Rightarrow> bool) \<Rightarrow> (string \<times> py) list list \<Rightarrow> bool" where
  "lesson_evidence_exists inside entries \<longleftrightarrow>
     list_ex (\<lambda>e. let detail = first_text e ''detail'' ''summary''; path = first_text e ''path'' ''evidence_path''
        in if path = [] then detail \<noteq> [] else inside path) entries"

definition selected_lessons :: "(string \<times> py) list \<Rightarrow> (string \<times> (string \<times> py) list) list" where
  "selected_lessons context =
     foldl (\<lambda>m x. case x of
         PDict l \<Rightarrow> if truthy (get_py l ''id'') then dict_set m (get_str l ''id'') l else m
       | _ \<Rightarrow> m) [] (py_items (get_py context ''selected_lessons''))"

definition lesson_violations ::
  "(string \<Rightarrow> bool) \<Rightarrow> string list \<Rightarrow> (string \<times> (string \<times> py) list) list \<Rightarrow>
   (string \<times> (string \<times> py) list list) list \<Rightarrow> string \<times> (string \<times> py) list \<Rightarrow> string list" where
  "lesson_violations inside applied nas evidence lesson =
     (let i = fst lesson in
      if get_py (snd lesson) ''enforcement'' \<noteq> PStr ''required'' then []
      else if i \<notin> set applied \<and> dict_get nas i = None then [''required lesson not accounted for: '' @ i]
      else if i \<in> set applied \<and> dict_get evidence i = None then [''applied lesson missing evidence: '' @ i]
      else
        (case dict_get evidence i of
           None \<Rightarrow> []
         | Some es \<Rightarrow> if lesson_evidence_exists inside es then [] else [''lesson evidence path missing: '' @ i]) @
        (case dict_get nas i of
           None \<Rightarrow> []
         | Some item \<Rightarrow>
             if length (strip (get_str item ''reason'')) < 12
             then [''lesson not-applicable reason too short: '' @ i] else []))"

definition validate_lesson_accounting ::
  "(string \<Rightarrow> bool) \<Rightarrow> (string \<times> py) list \<Rightarrow> py \<Rightarrow> string list option" where
  "validate_lesson_accounting inside result context =
     (if \<not> truthy context then Some []
      else
        (case context of
           PDict c \<Rightarrow>
             (let selected = selected_lessons c;
                  applied = string_set (get_py result ''applied_lessons'');
                  nas = not_applicable_by_id [] (py_items (get_py result ''not_applicable_lessons''));
                  evidence = evidence_by_id [] (py_items (get_py result ''lesson_evidence''));
                  cited = map (\<lambda>i. ''lesson accounting cites unselected lesson: '' @ i)
                    (sorted_set (filter (\<lambda>i. i \<notin> set (map fst selected))
                      (applied @ map fst nas @ map fst evidence)))
              in if selected = [] then Some []
                 else if get_py result ''status'' \<noteq> PStr ''completed'' then Some cited
                 else Some (cited @ concat (map (lesson_violations inside applied nas evidence) selected)))
         | _ \<Rightarrow> None))"

subsection \<open>The verdict\<close>

record check =
  check_name :: string
  check_passed :: bool
  check_detail :: string

text \<open>The last three keys are missing when the packet itself cannot be read.\<close>

record verdict =
  valid_result :: bool
  verdict_checks :: "check list"
  violations :: "string list"
  judgement :: "(bool \<times> string \<times> string) option"

definition FORBIDDEN_MARKERS :: "string list" where
  "FORBIDDEN_MARKERS =
     [''forbidden path'', ''forbidden action'', ''in forbidden paths'', ''not within allowed paths'',
      ''outside allowed paths'', ''.signalos'', ''.git'', ''.env'', ''.pem'', ''.key'']"

definition has_forbidden_violation :: "string list \<Rightarrow> bool" where
  "has_forbidden_violation vs \<longleftrightarrow> list_ex (\<lambda>v. list_ex (\<lambda>m. occurs_in m (lower v)) FORBIDDEN_MARKERS) vs"

definition validation_result :: "check list \<Rightarrow> string list \<Rightarrow> verdict" where
  "validation_result checks vs =
     (let forbidden = has_forbidden_violation vs; ok = (vs = []) in
      \<lparr>valid_result = ok, verdict_checks = checks, violations = vs,
       judgement = Some (forbidden, if ok then ''accepted'' else ''rejected'',
         if ok then ''none'' else if forbidden then ''regenerate_from_clean_packet'' else ''repair_packet'')\<rparr>)"

definition unreadable_scope :: "string \<Rightarrow> string \<Rightarrow> string \<Rightarrow> verdict" where
  "unreadable_scope name detail v =
     \<lparr>valid_result = False, verdict_checks = [\<lparr>check_name = name, check_passed = False, check_detail = detail\<rparr>],
      violations = [v], judgement = None\<rparr>"

fun all_strings :: "py list \<Rightarrow> string list option" where
  "all_strings [] = Some []"
| "all_strings (x # xs) = (case x of PStr s \<Rightarrow> map_option ((#) s) (all_strings xs) | _ \<Rightarrow> None)"

text \<open>\<open>for f in result.get(k, [])\<close> with a text operation on each \<open>f\<close>.\<close>

definition texts_of :: "(string \<times> py) list \<Rightarrow> string \<Rightarrow> string list option" where
  "texts_of d k = Option.bind (py_iter (get_or d k (PList []))) all_strings"

definition scope_texts :: "(string \<times> py) list \<Rightarrow> string \<Rightarrow> string list" where
  "scope_texts d k = (case texts_of d k of None \<Rightarrow> [] | Some ts \<Rightarrow> ts)"

definition quoted :: "string \<Rightarrow> string" where
  "quoted s = [CHR 0x27] @ s @ [CHR 0x27]"

definition path_checks :: "string list \<Rightarrow> (string \<times> py) list \<Rightarrow> string list \<Rightarrow> check list \<times> string list" where
  "path_checks before_violations scope files =
     (let out = filter (\<lambda>f. \<not> path_matches_any f (scope_texts scope ''allowed_paths'')) files;
          vs = before_violations @ map (\<lambda>f. ''File '' @ quoted f @ '' not within allowed paths'') out;
          bad = filter (\<lambda>f. path_matches_any_forbidden f (scope_texts scope ''forbidden_paths'')) files
      in ([\<lparr>check_name = ''files_within_allowed'', check_passed = (out = []),
            check_detail = (if out = [] then ''All files within allowed paths''
              else nat_str (length vs) @ '' file(s) outside allowed paths'')\<rparr>,
           \<lparr>check_name = ''no_forbidden_writes'', check_passed = (bad = []),
            check_detail = (if bad = [] then ''No writes to forbidden paths''
              else ''Writes to forbidden paths detected'')\<rparr>],
          vs @ map (\<lambda>f. ''File '' @ quoted f @ '' is in forbidden paths'') bad))"

definition action_violations :: "(string \<times> py) list \<Rightarrow> string list \<Rightarrow> string list" where
  "action_violations scope actions =
     concat (map (\<lambda>a. map (\<lambda>f. ''Forbidden action detected: '' @ quoted a @ '' matches '' @ quoted f)
       (filter (\<lambda>f. occurs_in (lower f) (lower a)) (scope_texts scope ''forbidden_actions''))) actions)"

definition required_result_fields :: "(string \<times> py) list \<Rightarrow> string list" where
  "required_result_fields scope =
     (case get_or scope ''result_schema'' (PDict []) of PDict d \<Rightarrow> scope_texts d ''required'' | _ \<Rightarrow> [])"

text \<open>An action is read as a text only where there is something to look for.\<close>

definition actions_of :: "(string \<times> py) list \<Rightarrow> (string \<times> py) list \<Rightarrow> string list option" where
  "actions_of scope result =
     (if scope_texts scope ''forbidden_actions'' = []
      then map_option (\<lambda>_. []) (py_iter (get_or result ''actions_taken'' (PList [])))
      else texts_of result ''actions_taken'')"

definition check_result_dict ::
  "(string \<Rightarrow> bool) \<Rightarrow> (string \<times> py) list \<Rightarrow> (string \<times> py) list \<Rightarrow> verdict option" where
  "check_result_dict inside scope result =
     (let parsed = \<lparr>check_name = ''result_valid_json'', check_passed = True, check_detail = ''RESULT.json is valid JSON''\<rparr>;
          missing = filter (\<lambda>f. dict_get result f = None) (required_result_fields scope);
          missing_text = ''RESULT.json missing required fields: '' @ join '', '' missing
      in if missing \<noteq> [] then
           Some (validation_result
             [parsed, \<lparr>check_name = ''result_required_fields'', check_passed = False, check_detail = missing_text\<rparr>]
             [missing_text])
         else
           (case (validate_lesson_accounting inside result (get_py scope ''lesson_context''),
                  texts_of result ''files_written'', actions_of scope result) of
              (Some lessons, Some files, Some actions) \<Rightarrow>
                (let lesson_check =
                       \<lparr>check_name = ''lesson_accounting'', check_passed = (lessons = []),
                        check_detail = (if lessons = [] then ''Selected product lessons are accounted for''
                          else join ''; '' lessons)\<rparr>;
                     (pcs, vs) = path_checks lessons scope files;
                     avs = action_violations scope actions
                 in Some (validation_result
                      ([parsed, \<lparr>check_name = ''result_required_fields'', check_passed = True,
                          check_detail = ''RESULT.json contains required fields''\<rparr>, lesson_check] @ pcs @
                       [\<lparr>check_name = ''no_forbidden_actions'', check_passed = (avs = []),
                         check_detail = (if avs = [] then ''No forbidden actions'' else ''Forbidden actions detected'')\<rparr>])
                      (vs @ avs)))
            | _ \<Rightarrow> None))"

definition failed_check :: "string \<Rightarrow> string \<Rightarrow> string \<Rightarrow> verdict" where
  "failed_check name detail v =
     validation_result [\<lparr>check_name = name, check_passed = False, check_detail = detail\<rparr>] [v]"

definition validate_agent_result ::
  "(string \<Rightarrow> bool) \<Rightarrow> string \<Rightarrow> json_file option \<Rightarrow> json_file option \<Rightarrow> verdict option" where
  "validate_agent_result inside err scope_file result_file =
     (case scope_file of
        None \<Rightarrow> Some (unreadable_scope ''scope_exists'' ''scope.json missing from run dir'' ''scope.json missing'')
      | Some Garbled \<Rightarrow>
          Some (unreadable_scope ''scope_readable'' (''scope.json unreadable: '' @ err) (''scope.json unreadable: '' @ err))
      | Some (Json (PDict scope)) \<Rightarrow>
          (let contract = packet_contract_violations scope in
           if contract \<noteq> [] then
             Some (validation_result
               (map (\<lambda>v. \<lparr>check_name = ''packet_contract'', check_passed = False, check_detail = v\<rparr>) contract) contract)
           else
             (case result_file of
                None \<Rightarrow> Some (failed_check ''result_exists'' ''RESULT.json not found'' ''RESULT.json missing'')
              | Some Garbled \<Rightarrow>
                  Some (failed_check ''result_valid_json'' (''RESULT.json invalid: '' @ err)
                    (''RESULT.json invalid JSON: '' @ err))
              | Some (Json (PDict result)) \<Rightarrow> check_result_dict inside scope result
              | Some (Json _) \<Rightarrow>
                  Some (failed_check ''result_valid_json'' ''RESULT.json is not an object'' ''RESULT.json is not a JSON object'')))
      | Some (Json _) \<Rightarrow> None)"

subsection \<open>What acceptance means\<close>



lemma validation_result_valid [simp]: "valid_result (validation_result checks vs) \<longleftrightarrow> vs = []"
  by (simp add: validation_result_def Let_def)



subsection \<open>Properties\<close>








definition demo_scope :: "(string \<times> py) list" where
  "demo_scope =
     map (\<lambda>f. (f, PStr ''given'')) REQUIRED_PACKET_CONTRACT_FIELDS @
     [(''allowed_paths'', PList [PStr ''src/**'']),
      (''forbidden_paths'', PList (map PStr DEFAULT_FORBIDDEN_PATHS)),
      (''forbidden_actions'', PList (map PStr DEFAULT_FORBIDDEN_ACTIONS)),
      (''result_schema'', PDict [(''required'', PList [PStr ''files_written''])])]"

definition demo_result :: "py \<Rightarrow> json_file option" where
  "demo_result files = Some (Json (PDict [(''files_written'', files), (''actions_taken'', PList [PStr ''wrote code''])]))"


text \<open>A key below the allowed directory is refused.\<close>

lemma key_below_source_rejected:
  "map_option valid_result (validate_agent_result (\<lambda>_. False) [] (Some (Json (PDict demo_scope)))
     (demo_result (PList [PStr ''src/a.pem'']))) = Some False"
  by code_simp

subsection \<open>Where the check is wrong\<close>

text \<open>A path that climbs out of an allowed directory is accepted, also into the evidence store.\<close>

lemma climbing_path_accepted:
  "map_option valid_result (validate_agent_result (\<lambda>_. False) [] (Some (Json (PDict demo_scope)))
     (demo_result (PList [PStr ''src/../.signalos/AUDIT_TRAIL.jsonl'']))) = Some True"
  by code_simp

text \<open>A result that is not completed is accepted although it does not account for a required lesson.\<close>

lemma partial_result_skips_lessons:
  "let scope = demo_scope @ [(''lesson_context'', PDict [(''selected_lessons'',
         PList [PDict [(''id'', PStr ''L1''), (''enforcement'', PStr ''required'')]])])];
       result = (\<lambda>status. Some (Json (PDict [(''files_written'', PList []), (''actions_taken'', PList []), (''status'', PStr status)])))
   in map_option valid_result (validate_agent_result (\<lambda>_. False) [] (Some (Json (PDict scope))) (result ''partial'')) = Some True \<and>
      map_option valid_result (validate_agent_result (\<lambda>_. False) [] (Some (Json (PDict scope))) (result ''completed'')) = Some False"
  by code_simp

text \<open>A result whose list of files is null is not rejected: the check raises.\<close>

lemma null_files_raise:
  "validate_agent_result (\<lambda>_. False) [] (Some (Json (PDict demo_scope))) (demo_result PNone) = None"
  by code_simp

text \<open>The number of files out of scope in the detail counts the violations of lessons too.\<close>

lemma out_of_scope_count_is_wrong:
  "check_detail (hd (fst (path_checks [''required lesson not accounted for: x''] demo_scope [''a.ts'']))) =
     ''2 file(s) outside allowed paths''"
  by code_simp

end
