(* ===== verification/FleetRuntime.thy ===== *)
theory FleetRuntime
  imports AgentResult FileTree
begin

section \<open>The fleet runtime (\<open>fleet_runtime.py\<close>)\<close>

text \<open>
  Which agent command lines are installed, whether a hand-off to an agent is admitted, and the pruning of
  task workspaces. Times are whole seconds. Arguments: the separator of \<open>PATH\<close>, the gate check, the JSON
  parser, whether the two logs can be appended to, and what a removal leaves behind, nothing when it
  succeeds.
\<close>

subsection \<open>Runtimes\<close>

record runtime_spec =
  spec_id :: string
  spec_cli :: string
  spec_executables :: "string list"
  spec_kind :: string

definition runtime_spec :: "string \<Rightarrow> string list \<Rightarrow> string \<Rightarrow> runtime_spec" where
  "runtime_spec i exes kind = \<lparr>spec_id = i, spec_cli = i, spec_executables = exes, spec_kind = kind\<rparr>"

definition AGENT_RUNTIMES :: "runtime_spec list" where
  "AGENT_RUNTIMES =
     [runtime_spec ''claude-code'' [''claude''] ''agent-cli'',
      runtime_spec ''codex'' [''codex''] ''agent-cli'',
      runtime_spec ''cursor'' [''cursor-agent'', ''cursor''] ''agent-cli'',
      runtime_spec ''github-copilot'' [''copilot''] ''agent-cli'',
      runtime_spec ''windsurf'' [''windsurf''] ''agent-cli'',
      runtime_spec ''gemini'' [''gemini''] ''agent-cli'',
      runtime_spec ''antigravity'' [''antigravity''] ''agent-cli'',
      runtime_spec ''vs-code'' [''code''] ''editor'',
      runtime_spec ''harness'' [''signalos''] ''headless'']"

definition EXE_SUFFIXES :: "bool \<Rightarrow> string list" where
  "EXE_SUFFIXES is_windows = (if is_windows then [''.exe'', ''.cmd'', ''.bat'', []] else [[]])"

fun first_some :: "('a \<Rightarrow> 'b option) \<Rightarrow> 'a list \<Rightarrow> 'b option" where
  "first_some f [] = None"
| "first_some f (x # xs) = (case f x of None \<Rightarrow> first_some f xs | Some y \<Rightarrow> Some y)"

definition resolve_on_path :: "place \<Rightarrow> bool \<Rightarrow> string list \<Rightarrow> string \<Rightarrow> string option" where
  "resolve_on_path pl is_windows path_entries executable =
     first_some (\<lambda>entry.
         if entry = [] then None
         else first_some (\<lambda>suffix.
             let candidate = entry @ ''/'' @ executable @ suffix in
             if is_file pl candidate then Some candidate else None) (EXE_SUFFIXES is_windows))
       path_entries"

definition detect_runtimes :: "place \<Rightarrow> bool \<Rightarrow> char \<Rightarrow> string \<Rightarrow> (runtime_spec \<times> string option) list" where
  "detect_runtimes pl is_windows sep path_env =
     (let entries = filter (\<lambda>p. p \<noteq> []) (split_on sep path_env)
      in map (\<lambda>s. (s, first_some (resolve_on_path pl is_windows entries) (spec_executables s))) AGENT_RUNTIMES)"

subsection \<open>Admission\<close>

definition packet_is_valid :: "py \<Rightarrow> bool \<times> string" where
  "packet_is_valid packet =
     (case packet of
        PDict d \<Rightarrow>
          if d = [] then (False, ''no agent packet provided'')
          else if \<not> truthy (get_py d ''run_id'') then (False, ''agent packet missing run_id'')
          else
            (let vs = packet_contract_violations d;
                 missing = filter (\<lambda>f. \<not> truthy (get_py d f)) REQUIRED_PACKET_CONTRACT_FIELDS
             in if vs \<noteq> [] then (False, join ''; '' vs)
                else if missing \<noteq> [] then (False, ''agent packet missing contract fields: '' @ join '', '' missing)
                else (True, ''agent packet satisfies the SignalOS packet contract''))
      | _ \<Rightarrow> (False, ''no agent packet provided''))"

text \<open>The text of \<open>JOURNEY.md\<close>, if it is a file that can be read.\<close>

definition marks_active_wave :: "string \<Rightarrow> bool" where
  "marks_active_wave line \<longleftrightarrow>
     occurs_in ''active'' (lower line) \<and> (occurs_in ''wave'' (lower line) \<or> occurs_in ''w'' (lower line))"

definition default_gate_check :: "string option \<Rightarrow> py" where
  "default_gate_check journey =
     (case filter marks_active_wave (splitlines [] (case journey of None \<Rightarrow> [] | Some t \<Rightarrow> t)) of
        [] \<Rightarrow> PDict [(''active'', PBool False), (''wave'', PNone)]
      | l # _ \<Rightarrow> PDict [(''active'', PBool True), (''wave'', PStr (strip l))])"

record dispatch_decision =
  admitted :: bool
  dispatch_reason :: string
  dispatch_task :: "py \<times> py"
  dispatch_runtime :: py
  dispatch_dry_run :: bool
  gate_active :: bool
  gate_detail :: "(string \<times> py) list"
  packet_ok :: bool
  packet_reason :: string
  packet_run_id :: py
  decided_at :: string
  executed :: bool

record dispatch_audit =
  dispatch_action :: string
  dispatch_verdict :: string
  audited_decision :: dispatch_decision

record fleet_logs =
  dispatch_evidence :: "dispatch_decision list"
  dispatch_audits :: "dispatch_audit list"

record log_access =
  evidence_writable :: bool
  audit_writable :: bool

text \<open>\<open>_append_jsonl\<close> on each of the two files.\<close>

definition append_evidence :: "fleet_logs \<Rightarrow> dispatch_decision \<Rightarrow> fleet_logs" where
  "append_evidence logs d = logs\<lparr>dispatch_evidence := dispatch_evidence logs @ [d]\<rparr>"

definition append_audit :: "fleet_logs \<Rightarrow> dispatch_audit \<Rightarrow> fleet_logs" where
  "append_audit logs r = logs\<lparr>dispatch_audits := dispatch_audits logs @ [r]\<rparr>"

interpretation evidence_log: append_log dispatch_evidence append_evidence
  by unfold_locales (simp add: append_evidence_def)

interpretation audit_log: append_log dispatch_audits append_audit
  by unfold_locales (simp add: append_audit_def)

lemma append_other [simp]:
  "dispatch_audits (append_evidence logs d) = dispatch_audits logs"
  "dispatch_evidence (append_audit logs r) = dispatch_evidence logs"
  by (simp_all add: append_evidence_def append_audit_def)

definition py_or :: "py \<Rightarrow> py \<Rightarrow> py" where
  "py_or a b = (if truthy a then a else b)"

definition decide_dispatch ::
  "(string \<times> py) list \<Rightarrow> py \<Rightarrow> py \<Rightarrow> bool \<Rightarrow> string \<Rightarrow> (string \<times> py) list \<Rightarrow> dispatch_decision" where
  "decide_dispatch t packet runtime_id dry now gate =
     (let active = truthy (get_py gate ''active'');
          (ok, why) = packet_is_valid packet
      in \<lparr>admitted = (active \<or> ok),
          dispatch_reason =
            (if active \<and> ok then ''admitted: active gate and valid agent packet''
             else if active then ''admitted: active wave/gate authorizes governed dispatch''
             else if ok then ''admitted: valid agent packet authorizes governed dispatch''
             else ''refused: no active wave/gate and no valid agent packet (packet: '' @ why @ '')''),
          dispatch_task = (py_or (py_or (get_py t ''id'') (get_py t ''task'')) (get_py t ''title''), get_py t ''title''),
          dispatch_runtime = runtime_id, dispatch_dry_run = dry, gate_active = active, gate_detail = gate,
          packet_ok = ok, packet_reason = why,
          packet_run_id = (case packet of PDict d \<Rightarrow> get_py d ''run_id'' | _ \<Rightarrow> PNone),
          decided_at = now, executed = False\<rparr>)"

text \<open>What the gate check comes to: its exception, or its answer. An answer that is true and not a dictionary
  raises outside the guard.\<close>

definition governed_dispatch ::
  "log_access \<Rightarrow> (string \<times> py) list \<Rightarrow> py \<Rightarrow> (string + py) \<Rightarrow> py \<Rightarrow> bool \<Rightarrow> string \<Rightarrow> fleet_logs \<Rightarrow>
   (dispatch_decision \<times> fleet_logs) option" where
  "governed_dispatch access t packet check runtime_id dry now logs =
     (case (case check of
              Inl err \<Rightarrow> PDict [(''active'', PBool False), (''error'', PStr err)]
            | Inr v \<Rightarrow> if truthy v then v else PDict []) of
        PDict gate \<Rightarrow>
          (let d = decide_dispatch t packet runtime_id dry now gate;
               logs = (if evidence_writable access then append_evidence logs d else logs);
               row = \<lparr>dispatch_action = (if admitted d then ''fleet-dispatch-admitted'' else ''fleet-dispatch-refused''),
                 dispatch_verdict = (if admitted d then ''admitted'' else ''refused''), audited_decision = d\<rparr>;
               logs = (if audit_writable access then append_audit logs row else logs)
           in Some (d, logs))
      | _ \<Rightarrow> None)"

subsection \<open>Pruning of task workspaces\<close>

definition GC_META_NAME :: string where
  "GC_META_NAME = ''.gc_meta.json''"

definition PRESERVE_NAMES :: "string list" where
  "PRESERVE_NAMES = [''.git'', ''logs'', GC_META_NAME]"

record gc_config =
  now_ts :: int
  done_ttl :: int
  orphan_ttl :: int
  artifact_ttl :: int
  artifact_names :: "string list"

record gc_summary =
  scanned_count :: nat
  removed_tasks :: "(string \<times> string \<times> string option \<times> int) list"
  kept_tasks :: "(string \<times> string \<times> int \<times> string list) list"
  pruned_artifacts :: "(string \<times> string \<times> int) list"
  gc_errors :: "string list list"

definition read_gc_meta :: "(string \<Rightarrow> json_file) \<Rightarrow> (string \<times> node) list \<Rightarrow> py option" where
  "read_gc_meta loads es =
     (case dict_get es GC_META_NAME of
        Some (RegFile (Some t)) \<Rightarrow> (case loads t of Json PNone \<Rightarrow> None | Json v \<Rightarrow> Some v | Garbled \<Rightarrow> None)
      | _ \<Rightarrow> None)"

definition dir_mtime :: "node \<Rightarrow> int" where
  "dir_mtime n = (case n of Dir i _ \<Rightarrow> (case mtime i of None \<Rightarrow> 0 | Some t \<Rightarrow> t) | _ \<Rightarrow> 0)"

definition TERMINAL :: "string list" where
  "TERMINAL = [''done'', ''complete'', ''completed'', ''idle'', ''abandoned'', ''failed'']"

definition is_terminal_status :: "string \<Rightarrow> bool" where
  "is_terminal_status status \<longleftrightarrow> lower status \<in> set TERMINAL"

type_synonym remover = "string list \<Rightarrow> node \<Rightarrow> node option"

definition remove_tree ::
  "remover \<Rightarrow> string list \<Rightarrow> (string \<times> node) list \<Rightarrow> string \<Rightarrow> node \<Rightarrow> gc_summary \<Rightarrow>
   bool \<times> (string \<times> node) list \<times> gc_summary" where
  "remove_tree rm path es name n sm =
     (case rm path n of
        None \<Rightarrow> (True, dict_del es name, sm)
      | Some left \<Rightarrow> (False, dict_set es name left, sm\<lparr>gc_errors := gc_errors sm @ [path]\<rparr>))"

definition child_dirs :: "(string \<times> node) list \<Rightarrow> (string \<times> node) list" where
  "child_dirs es = sort_key fst (filter (\<lambda>e. is_dir (snd e)) es)"

definition prunable :: "gc_config \<Rightarrow> string \<times> node \<Rightarrow> bool" where
  "prunable c e \<longleftrightarrow>
     fst e \<notin> set PRESERVE_NAMES \<and> fst e \<in> set (artifact_names c) \<and>
     artifact_ttl c \<le> now_ts c - dir_mtime (snd e)"

fun prune_children ::
  "remover \<Rightarrow> gc_config \<Rightarrow> string \<Rightarrow> (string \<times> node) list \<Rightarrow> (string \<times> node) list \<Rightarrow> gc_summary \<Rightarrow> string list \<Rightarrow>
   (string \<times> node) list \<times> gc_summary \<times> string list" where
  "prune_children rm c task [] es sm pruned = (es, sm, pruned)"
| "prune_children rm c task (e # kids) es sm pruned =
     (if prunable c e then
        (let (gone, es, sm) = remove_tree rm [task, fst e] es (fst e) (snd e) sm in
         if gone then
           prune_children rm c task kids es
             (sm\<lparr>pruned_artifacts := pruned_artifacts sm @ [(task, fst e, now_ts c - dir_mtime (snd e))]\<rparr>)
             (pruned @ [fst e])
         else prune_children rm c task kids es sm pruned)
      else prune_children rm c task kids es sm pruned)"

definition last_active :: "(string \<times> py) list \<Rightarrow> node \<Rightarrow> int" where
  "last_active meta n =
     (case py_whole (get_py meta ''last_active_ts'') of None \<Rightarrow> dir_mtime n | Some t \<Rightarrow> t)"

text \<open>One task directory. \<open>None\<close> is the exception of metadata that is no dictionary, or of a directory
  that cannot be listed.\<close>

definition gc_task ::
  "remover \<Rightarrow> (string \<Rightarrow> json_file) \<Rightarrow> gc_config \<Rightarrow> string \<times> node \<Rightarrow> (string \<times> node) list \<Rightarrow> gc_summary \<Rightarrow>
   ((string \<times> node) list \<times> gc_summary) option" where
  "gc_task rm loads c task root sm =
     (let name = fst task; n = snd task in
      case n of
        Dir i es \<Rightarrow>
          (case read_gc_meta loads es of
             None \<Rightarrow>
               (let age = now_ts c - dir_mtime n in
                if orphan_ttl c \<le> age then
                  (let (gone, root, sm) = remove_tree rm [name] root name n sm
                   in Some (root, if gone
                     then sm\<lparr>removed_tasks := removed_tasks sm @ [(name, ''orphan-expired'', None, age)]\<rparr> else sm))
                else Some (root, sm\<lparr>kept_tasks := kept_tasks sm @ [(name, ''orphan-fresh'', age, [])]\<rparr>))
           | Some (PDict meta) \<Rightarrow>
               (let status = py_str (get_or meta ''status'' (PStr ''active''));
                    age = now_ts c - last_active meta n
                in if is_terminal_status status \<and> done_ttl c \<le> age then
                     (let (gone, root, sm) = remove_tree rm [name] root name n sm
                      in Some (root, if gone
                        then sm\<lparr>removed_tasks := removed_tasks sm @ [(name, ''done-expired'', Some status, age)]\<rparr> else sm))
                   else if \<not> listable i then None
                   else
                     (let (es, sm, pruned) = prune_children rm c name (child_dirs es) es sm []
                      in Some (dict_set root name (Dir i es),
                           sm\<lparr>kept_tasks := kept_tasks sm @ [(name, status, age, pruned)]\<rparr>)))
           | Some _ \<Rightarrow> None)
      | _ \<Rightarrow> Some (root, sm))"

fun gc_tasks ::
  "remover \<Rightarrow> (string \<Rightarrow> json_file) \<Rightarrow> gc_config \<Rightarrow> (string \<times> node) list \<Rightarrow> (string \<times> node) list \<Rightarrow> gc_summary \<Rightarrow>
   (string \<times> node) list \<times> gc_summary option" where
  "gc_tasks rm loads c [] root sm = (root, Some sm)"
| "gc_tasks rm loads c (task # tasks) root sm =
     (case gc_task rm loads c task root (sm\<lparr>scanned_count := scanned_count sm + 1\<rparr>) of
        None \<Rightarrow> (root, None)
      | Some (root', sm') \<Rightarrow> gc_tasks rm loads c tasks root' sm')"

definition empty_summary :: gc_summary where
  "empty_summary =
     \<lparr>scanned_count = 0, removed_tasks = [], kept_tasks = [], pruned_artifacts = [], gc_errors = []\<rparr>"

definition gc_task_workspaces ::
  "remover \<Rightarrow> (string \<Rightarrow> json_file) \<Rightarrow> gc_config \<Rightarrow> node option \<Rightarrow> node option \<times> gc_summary option" where
  "gc_task_workspaces rm loads c root =
     (case root of
        Some (Dir i es) \<Rightarrow>
          if listable i then
            (let (es', sm) = gc_tasks rm loads c (child_dirs es) es empty_summary in (Some (Dir i es'), sm))
          else (root, None)
      | _ \<Rightarrow> (root, Some empty_summary))"

subsection \<open>What survives a pruning\<close>

text \<open>A task whose directory may go as a whole.\<close>

definition expired :: "(string \<Rightarrow> json_file) \<Rightarrow> gc_config \<Rightarrow> node \<Rightarrow> bool" where
  "expired loads c n \<longleftrightarrow>
     (case n of
        Dir i es \<Rightarrow>
          (case read_gc_meta loads es of
             None \<Rightarrow> orphan_ttl c \<le> now_ts c - dir_mtime n
           | Some (PDict meta) \<Rightarrow>
               is_terminal_status (py_str (get_or meta ''status'' (PStr ''active''))) \<and>
               done_ttl c \<le> now_ts c - last_active meta n
           | Some _ \<Rightarrow> False)
      | _ \<Rightarrow> False)"

definition protected_name :: "gc_config \<Rightarrow> string \<Rightarrow> bool" where
  "protected_name c p \<longleftrightarrow> p \<notin> set (artifact_names c) \<or> p \<in> set PRESERVE_NAMES"

definition spared :: "gc_config \<Rightarrow> node \<Rightarrow> node \<Rightarrow> bool" where
  "spared c n m \<longleftrightarrow>
     n = m \<or> (\<exists>i es es'. n = Dir i es \<and> m = Dir i es' \<and>
       (\<forall>p. protected_name c p \<longrightarrow> dict_get es' p = dict_get es p))"

lemma remove_tree_other:
  "remove_tree rm path es name n sm = (gone, es', sm') \<Longrightarrow> p \<noteq> name \<Longrightarrow> dict_get es' p = dict_get es p"
  by (auto simp: remove_tree_def split: option.splits)

lemma prune_children_keeps:
  "\<lbrakk>prune_children rm c task kids es sm pruned = (es', sm', pruned'); protected_name c p\<rbrakk>
   \<Longrightarrow> dict_get es' p = dict_get es p"
proof (induction rm c task kids es sm pruned rule: prune_children.induct)
  case (2 rm c task e kids es sm pruned)
  then have "prunable c e \<Longrightarrow> p \<noteq> fst e" by (auto simp: prunable_def protected_name_def)
  with 2 show ?case by (auto split: prod.splits if_splits dest: remove_tree_other)
qed simp

lemma gc_task_other:
  "\<lbrakk>gc_task rm loads c task root sm = Some (root', sm'); p \<noteq> fst task\<rbrakk> \<Longrightarrow> dict_get root' p = dict_get root p"
  by (auto simp: gc_task_def Let_def split: node.splits option.splits py.splits if_splits prod.splits
      dest: remove_tree_other)

lemma gc_task_spares:
  assumes "gc_task rm loads c (name, n) root sm = Some (root', sm')" "dict_get root name = Some n" "\<not> expired loads c n"
  shows "\<exists>m. dict_get root' name = Some m \<and> spared c n m"
proof (cases n)
  case (Dir i es)
  show ?thesis
  proof (cases "root' = root")
    case True
    with assms(2) show ?thesis by (auto simp: spared_def)
  next
    case False
    with assms Dir obtain es' sm1 pruned
      where "prune_children rm c name (child_dirs es) es sm [] = (es', sm1, pruned)"
        and "root' = dict_set root name (Dir i es')"
      by (auto simp: gc_task_def expired_def Let_def split: option.splits py.splits if_splits prod.splits)
    with Dir prune_children_keeps show ?thesis by (fastforce simp: spared_def)
  qed
qed (use assms in \<open>auto simp: gc_task_def spared_def\<close>)

lemma gc_tasks_other:
  "p \<notin> fst ` set tasks \<Longrightarrow> dict_get (fst (gc_tasks rm loads c tasks root sm)) p = dict_get root p"
proof (induction tasks arbitrary: root sm)
  case (Cons t tasks)
  then show ?case by (auto split: option.splits dest!: gc_task_other [where p = p])
qed simp

lemma gc_tasks_spare:
  "\<lbrakk>distinct (map fst tasks); dict_get root name = Some n; \<not> expired loads c n;
    \<forall>m. (name, m) \<in> set tasks \<longrightarrow> m = n\<rbrakk>
   \<Longrightarrow> \<exists>m. dict_get (fst (gc_tasks rm loads c tasks root sm)) name = Some m \<and> spared c n m"
proof (induction tasks arbitrary: root sm)
  case Nil
  then show ?case by (simp add: spared_def)
next
  case (Cons t tasks)
  let ?sm = "sm\<lparr>scanned_count := scanned_count sm + 1\<rparr>"
  show ?case
  proof (cases "gc_task rm loads c t root ?sm")
    case None
    with Cons.prems show ?thesis by (auto simp: spared_def)
  next
    case (Some r)
    obtain root' sm' where r: "r = (root', sm')" by fastforce
    show ?thesis
    proof (cases "fst t = name")
      case True
      with Cons.prems(4) have "t = (name, n)" by (cases t) auto
      with Some r obtain m where "dict_get root' name = Some m" "spared c n m"
        using gc_task_spares [OF _ Cons.prems(2,3)] by blast
      with Some r True Cons.prems(1) show ?thesis by (auto simp: gc_tasks_other)
    next
      case False
      with Some r have "dict_get root' name = Some n" using gc_task_other Cons.prems(2) by metis
      with Cons Some r show ?thesis by simp
    qed
  qed
qed

subsection \<open>Properties\<close>

text \<open>No agent is dispatched ungoverned. A hand-off is admitted exactly when the gate check answers
  that a gate is active, or the packet is a dictionary with a run id and every contract field; nothing is
  executed; and each log that can be appended to gets exactly one more row, with the decision.\<close>

theorem admission_is_governed:
  assumes "governed_dispatch access t packet check runtime_id dry now logs = Some (d, logs')"
  shows "(admitted d \<longleftrightarrow>
      (\<exists>gate. check = Inr (PDict gate) \<and> truthy (get_py gate ''active'')) \<or>
      (\<exists>p. packet = PDict p \<and> truthy (get_py p ''run_id'') \<and>
         (\<forall>f \<in> set REQUIRED_PACKET_CONTRACT_FIELDS. truthy (get_py p f)))) \<and>
    \<not> executed d \<and>
    dispatch_evidence logs' = dispatch_evidence logs @ (if evidence_writable access then [d] else []) \<and>
    map (\<lambda>r. (dispatch_verdict r, audited_decision r)) (dispatch_audits logs') =
      map (\<lambda>r. (dispatch_verdict r, audited_decision r)) (dispatch_audits logs) @
      (if audit_writable access then [(if admitted d then ''admitted'' else ''refused'', d)] else [])"
proof -
  have packet: "fst (packet_is_valid packet) \<longleftrightarrow>
      (\<exists>p. packet = PDict p \<and> truthy (get_py p ''run_id'') \<and>
         (\<forall>f \<in> set REQUIRED_PACKET_CONTRACT_FIELDS. truthy (get_py p f)))"
  proof (cases packet)
    case (PDict p)
    have "\<forall>f \<in> set REQUIRED_PACKET_CONTRACT_FIELDS. truthy (get_py p f) \<Longrightarrow> packet_contract_violations p = []"
      by (auto simp: packet_contract_violations_def filter_empty_conv empty_contract_value_def)
    moreover have "truthy (get_py p ''run_id'') \<Longrightarrow> p \<noteq> []" by (auto simp: get_py_def)
    ultimately show ?thesis
      using PDict by (auto simp: packet_is_valid_def Let_def filter_empty_conv)
  qed (simp_all add: packet_is_valid_def)
  obtain gate where gate: "(case check of
        Inl err \<Rightarrow> PDict [(''active'', PBool False), (''error'', PStr err)]
      | Inr v \<Rightarrow> if truthy v then v else PDict []) = PDict gate"
    and d: "d = decide_dispatch t packet runtime_id dry now gate"
    and logs: "dispatch_evidence logs' = dispatch_evidence logs @ (if evidence_writable access then [d] else [])"
      "map (\<lambda>r. (dispatch_verdict r, audited_decision r)) (dispatch_audits logs') =
        map (\<lambda>r. (dispatch_verdict r, audited_decision r)) (dispatch_audits logs) @
        (if audit_writable access then [(if admitted d then ''admitted'' else ''refused'', d)] else [])"
    using assms
    by (auto simp: governed_dispatch_def Let_def evidence_log.rows_append audit_log.rows_append split: py.splits)
  have "truthy (get_py gate ''active'') \<longleftrightarrow> (\<exists>gate. check = Inr (PDict gate) \<and> truthy (get_py gate ''active''))"
    using gate get_py_def [of "[]" "''active''"] by (auto split: sum.splits if_splits)
  then have "admitted d \<longleftrightarrow> (\<exists>gate. check = Inr (PDict gate) \<and> truthy (get_py gate ''active'')) \<or>
      fst (packet_is_valid packet)"
    by (simp add: d decide_dispatch_def Let_def split: prod.splits)
  moreover have "\<not> executed d" by (simp add: d decide_dispatch_def Let_def split: prod.splits)
  ultimately show ?thesis using packet logs by blast
qed

definition open_logs :: log_access where
  "open_logs = \<lparr>evidence_writable = True, audit_writable = True\<rparr>"

definition no_logs :: fleet_logs where
  "no_logs = \<lparr>dispatch_evidence = [], dispatch_audits = []\<rparr>"

theorem admission_is_governed_witness:
  "\<exists>d logs. governed_dispatch open_logs [] PNone (Inr (default_gate_check None)) PNone True [] no_logs = Some (d, logs) \<and>
     \<not> admitted d \<and> dispatch_evidence logs = [d]"
proof -
  have "\<exists>r. governed_dispatch open_logs [] PNone (Inr (default_gate_check None)) PNone True [] no_logs = Some r"
    by (simp add: governed_dispatch_def default_gate_check_def Let_def)
  then obtain d logs where
    r: "governed_dispatch open_logs [] PNone (Inr (default_gate_check None)) PNone True [] no_logs = Some (d, logs)"
    by auto
  have "default_gate_check None = PDict [(''active'', PBool False), (''wave'', PNone)]" by code_simp
  with admission_is_governed [OF r] r show ?thesis by (simp add: open_logs_def no_logs_def)
qed

text \<open>C27: pruning spares what is in use. A task that is neither finished and old nor an orphan and old
  stays, and in it everything that is not below an artifact directory, its version control, logs and
  metadata included, whatever else the run removes and wherever it stops.\<close>

theorem pruning_spares_live_tasks:
  assumes "gc_task_workspaces rm loads c (Some (Dir i es)) = (Some root, summary)"
    and "distinct (map fst es)" "dict_get es name = Some n" "\<not> expired loads c n"
    and "p \<notin> set (artifact_names c) \<or> p \<in> set PRESERVE_NAMES"
  shows "node_at root (name # p # ps) = node_at (Dir i es) (name # p # ps)"
proof -
  have "distinct (map fst (child_dirs es))"
    using distinct_map_filter [OF assms(2), of "\<lambda>e. is_dir (snd e)"] by (simp add: child_dirs_def distinct_map)
  moreover have "\<forall>m. (name, m) \<in> set (child_dirs es) \<longrightarrow> m = n"
    using assms(2,3) by (auto simp: child_dirs_def dict_get_def map_of_eq_Some_iff eq_key_imp_eq_value)
  ultimately obtain m where
    m: "dict_get (fst (gc_tasks rm loads c (child_dirs es) es empty_summary)) name = Some m" "spared c n m"
    using gc_tasks_spare [OF _ assms(3,4)] by blast
  show ?thesis
  proof (cases "listable i")
    case True
    with assms(1) have "root = Dir i (fst (gc_tasks rm loads c (child_dirs es) es empty_summary))"
      by (auto simp: gc_task_workspaces_def split: prod.splits)
    with m assms(3,5) show ?thesis by (auto simp: spared_def protected_name_def)
  next
    case False
    with assms(1) show ?thesis by (simp add: gc_task_workspaces_def)
  qed
qed

definition plain_dir :: "int \<Rightarrow> (string \<times> node) list \<Rightarrow> node" where
  "plain_dir t es = Dir \<lparr>mtime = Some t, listable = True\<rparr> es"

text \<open>A parser of metadata for the examples: what \<open>m\<close> says.\<close>

definition demo_loads :: "py \<Rightarrow> string \<Rightarrow> json_file" where
  "demo_loads m s = Json m"

definition demo_config :: gc_config where
  "demo_config =
     \<lparr>now_ts = 1000, done_ttl = 100, orphan_ttl = 100, artifact_ttl = 100, artifact_names = [''node_modules'']\<rparr>"

definition demo_workspaces :: "(string \<times> node) list" where
  "demo_workspaces =
     [(''live'', plain_dir 0
        [(''.gc_meta.json'', RegFile (Some [])), (''src'', plain_dir 0 [(''a'', RegFile (Some ''x''))]),
         (''node_modules'', plain_dir 0 [])]),
      (''old'', plain_dir 0 [])]"

definition demo_gc :: "py \<Rightarrow> node option \<times> gc_summary option" where
  "demo_gc meta = gc_task_workspaces (\<lambda>_ _. None) (demo_loads meta) demo_config (Some (plain_dir 0 demo_workspaces))"

theorem pruning_spares_live_tasks_witness:
  "\<exists>root sm. demo_gc (PDict [(''status'', PStr ''active'')]) = (Some root, sm) \<and>
     node_at root [''live'', ''src'', ''a''] = Some (RegFile (Some ''x'')) \<and>
     node_at root [''live'', ''node_modules''] = None \<and> node_at root [''old''] = None"
proof -
  let ?m = "PDict [(''status'', PStr ''active'')]"
  have gone: "(case fst (demo_gc ?m) of None \<Rightarrow> False | Some root \<Rightarrow>
      node_at root [''live'', ''node_modules''] = None \<and> node_at root [''old''] = None)" by code_simp
  then obtain root sm where r: "demo_gc ?m = (Some root, sm)" by (cases "demo_gc ?m") (auto split: option.splits)
  have d: "distinct (map fst demo_workspaces)" by code_simp
  have live: "dict_get demo_workspaces ''live'' = Some (the (dict_get demo_workspaces ''live''))" by code_simp
  have e: "\<not> expired (demo_loads ?m) demo_config (the (dict_get demo_workspaces ''live''))" by code_simp
  have p: "''src'' \<notin> set (artifact_names demo_config) \<or> ''src'' \<in> set PRESERVE_NAMES" by code_simp
  have "node_at root [''live'', ''src'', ''a''] =
      node_at (Dir \<lparr>mtime = Some 0, listable = True\<rparr> demo_workspaces) [''live'', ''src'', ''a'']"
    by (rule pruning_spares_live_tasks [OF r [unfolded demo_gc_def plain_dir_def] d live e p])
  also have "\<dots> = Some (RegFile (Some ''x''))" by code_simp
  finally show ?thesis using r gone by auto
qed

subsection \<open>Where governance and pruning are weaker than stated\<close>

text \<open>Any line with the letters of active and a w in it counts as an open wave.\<close>

lemma inactive_wave_admits:
  "map_option (admitted \<circ> fst)
     (governed_dispatch open_logs [] PNone (Inr (default_gate_check (Some ''Wave 3: inactive''))) PNone True [] no_logs) =
   Some True"
  by code_simp

text \<open>A gate check that answers with something true but no dictionary raises, past the guard that should
  keep a check from stopping the admission.\<close>

lemma true_check_raises:
  "governed_dispatch access t packet (Inr (PBool True)) runtime_id dry now logs = None"
  by (simp add: governed_dispatch_def)

text \<open>A dispatch is admitted although neither its evidence nor its audit row could be written.\<close>

lemma unrecorded_admission:
  "\<exists>d. governed_dispatch \<lparr>evidence_writable = False, audit_writable = False\<rparr> t packet
      (Inr (PDict [(''active'', PBool True)])) runtime_id dry now logs = Some (d, logs) \<and> admitted d"
  by (simp add: governed_dispatch_def decide_dispatch_def Let_def split: prod.splits)

text \<open>Metadata that is no dictionary stops the pruning of all tasks behind it.\<close>

lemma list_metadata_stops_pruning:
  "snd (demo_gc (PList [PNone])) = None \<and>
   map_option (\<lambda>root. node_at root [''old''] \<noteq> None) (fst (demo_gc (PList [PNone]))) = Some True"
  by code_simp

text \<open>A directory whose time cannot be read is as old as the clock, and goes.\<close>

lemma unknown_age_is_oldest:
  "fst (gc_task_workspaces (\<lambda>_ _. None) (demo_loads PNone) demo_config
      (Some (plain_dir 0 [(''new'', Dir \<lparr>mtime = None, listable = True\<rparr> [])]))) = Some (plain_dir 0 [])"
  by code_simp

end
