(* ===== verification/Spec2Isabelle.thy ===== *)
theory Spec2Isabelle
  imports Prelude Budgets TaskStore WorkerPool TrustTiers AgentGovernance
    AgentTools AgentLoop ScopeDrift WaveEngine GateReview AuditReplay
    AuditChain ArtifactText Signing DeliveryLock ReleaseTree BuildProof
    GateWalk GateVerdict BuildGate SubagentBuild Validation RepairLoop
    FileTree Freshness Plan PlanTasks AgentResult FleetRuntime
begin

text \<open>
  Verification development of the Python core of Foundry by SignalOS
  (\<open>src/python/signalos_lib\<close>).

  \<^bold>\<open>The program.\<close> A delivery walks through six gates, G0 to G5. At each gate an agent works on the
  documents or the code of a product under a policy that says what it may touch; a person then gives
  a verdict, and an approval signs the artifacts of the gate. Gate G4 is the build: tasks with tests,
  a full validation, independent reviews. Gate G5 releases. What was signed is kept in the artifacts
  themselves and in an audit trail whose rows are chained by hashes, and a gate counts as signed only
  when both agree. A release is bound to the digest of the tree that was verified.

  \<^bold>\<open>The theories\<close>, each with the files below \<open>src/python/signalos_lib\<close> that it translates.

  Policy. \<open>Budgets\<close> (\<open>product/budgets.py\<close>): the bound of every loop. \<open>TrustTiers\<close>
  (\<open>trust_tiers.py\<close>): the registry of trust surfaces. \<open>Fnmatch\<close>: the glob patterns of the Python
  library. \<open>Enforcement\<close> (\<open>product/enforcement_state.py\<close>): rule modes with their floor. \<open>PathPolicy\<close>,
  \<open>CommandPolicy\<close>, \<open>AgentGovernance\<close> (\<open>product/agent_loop.py\<close>): canonical paths, command
  tokenising, and \<open>AgentLoop._check_governance\<close>, the decision on each tool call. \<open>AgentTools\<close> and
  \<open>AgentLoop\<close> (same file): the tools of an agent on the files of its workspace, the governance of what
  its commands write, the ledger, and the loop of its turns with \<open>run\<close> and \<open>resume\<close>.

  Work. \<open>TaskStore\<close> (\<open>task_store.py\<close>) and \<open>WorkerPool\<close> (\<open>product/executor.py\<close>): leases, retries and
  the pool loop. \<open>Validation\<close> (\<open>product/validation.py\<close>): running the plan, the frozen tests, when a
  delivery may close. \<open>RepairLoop\<close> (\<open>product/repair_loop.py\<close>): validate and repair in cycles.
  \<open>BuildGate\<close> and \<open>SubagentBuild\<close> (\<open>product/subagent_build.py\<close>): the progress gate, and the build of
  G4 from its tasks to the evidence. \<open>Plan\<close> (\<open>plan.py\<close>): the machine plan, its validation with the
  search for cycles, reading and writing. \<open>PlanTasks\<close> (\<open>product/subagent_build.py\<close>,
  \<open>product/gate_orchestrator.py\<close>): from the signed documents to the tasks of the build, the frozen
  tests, the contract of Gate 2. \<open>AgentResult\<close> (\<open>product/agent_packets.py\<close>, \<open>product/lessons.py\<close>): the
  check of what an external agent reports. \<open>FleetRuntime\<close> (\<open>fleet_runtime.py\<close>): installed runtimes,
  admission of a hand-off, pruning of task workspaces.

  Evidence. \<open>AuditChain\<close>, \<open>ArtifactText\<close>, \<open>Signing\<close> (\<open>sign.py\<close>, \<open>commands/validate_gate.py\<close>,
  \<open>artifacts.py\<close>): the hash chain, the signature block of a document, the strict check of a gate and
  revocation. \<open>AuditReplay\<close> (\<open>audit_replay.py\<close>): the state as the replay of the trail. \<open>ReleaseTree\<close>
  (\<open>product/release_tree.py\<close>) and \<open>BuildProof\<close> (\<open>product/gate_orchestrator.py\<close>): digests of trees,
  the attribution of a build and its proof. \<open>FileTree\<close>: directory trees as \<open>pathlib\<close> sees them.
  \<open>Freshness\<close> (\<open>product/evidence_freshness.py\<close>, the end of \<open>product/delivery.py\<close>): the snapshot of the
  product at its proof and the comparison at closeout.

  Conversation. \<open>ScopeDrift\<close> and \<open>WaveEngine\<close> (\<open>wave_engine.py\<close>): the state machine behind the chat.
  \<open>GateReview\<close> (\<open>product/gate_review.py\<close>): review verdicts and request-changes cycles.

  The walk. \<open>DeliveryLock\<close>, \<open>GateWalk\<close>, \<open>GateVerdict\<close> (\<open>product/gate_orchestrator.py\<close>): the lock file,
  the run of a gate with its correction rounds, and \<open>apply_verdict\<close>, release, reopening and resume.

  \<^bold>\<open>How they fit.\<close> \<open>GateVerdict\<close> calls \<open>GateWalk\<close> to run a gate, \<open>Signing\<close> to sign and to check
  earlier gates, \<open>BuildProof\<close> to verify G4 and \<open>ReleaseTree\<close> through it; the state of a walk is the
  record \<open>walk\<close> (the checkpointed \<open>delivery_state\<close>, the lock, the markers, the events). \<open>Signing\<close> reads
  documents with \<open>ArtifactText\<close> and the trail with \<open>AuditChain\<close>. \<open>AgentGovernance\<close> reads \<open>Enforcement\<close>,
  \<open>TrustTiers\<close> and the two path and command policies; \<open>AgentLoop\<close> asks it before every tool of
  \<open>AgentTools\<close>, whose state is the record \<open>seat\<close> (files, counters, ledger, saved run). \<open>SubagentBuild\<close> drives \<open>BuildGate\<close>; \<open>RepairLoop\<close>
  takes its budget from \<open>Budgets\<close> and its failures, and the delimiter scan, from \<open>Validation\<close>.
  \<open>PlanTasks\<close> reads plans with \<open>Plan\<close> and gives the tasks of \<open>SubagentBuild\<close>, extended by name and text, and
  the frozen tests of \<open>Validation\<close>. \<open>Freshness\<close> and \<open>FleetRuntime\<close> work on the places of \<open>FileTree\<close>;
  \<open>FleetRuntime\<close> takes the contract of a packet from \<open>AgentResult\<close>.

  \<^bold>\<open>Conventions.\<close> A class or dictionary with fixed keys is a record, an open JSON value a \<open>py\<close>, and a
  dictionary an association list in insertion order. Code that raises returns a sum, and \<open>and_then\<close>
  chains such calls. Text is a list of 8-bit characters; where the code looks at others (the marks of
  some test runners and reviewers) the theory says so. State is passed explicitly; the lock is a step
  relation over processes. What is not code of the repository is an argument: the hash \<open>sha\<close>, the JSON
  parser \<open>loads\<close>, clocks and random identifiers, git, the records \<open>runtime\<close> (provider, sandbox
  runner, scans and walk of the tree for one agent), \<open>outside\<close> (agents, signing authority
  and runs of the product during a walk), \<open>seats\<close> (model seats, test runners and checks of the workspace
  during a build) and \<open>repair_hooks\<close>. Where a theorem relies on such an argument it says how.

  \<^bold>\<open>The interfaces\<close> are locales of \<open>Prelude\<close>: \<open>machine\<close> and \<open>counting_machine\<close> (operations that keep an
  invariant, a counter that never falls), \<open>append_log\<close> (a log that keeps its rows) and \<open>converging\<close> (a
  state whose weight falls in every fair round, so that it stops), and \<open>walk_invariant\<close> of \<open>GateVerdict\<close>
  (what every operation of the walk keeps). Each is interpreted on the definitions of the components:
  task store, trust tiers, wave engine, build attribution, review log, walk, progress gate, dispatch logs.

  \<^bold>\<open>What is shown.\<close> Safety of the walk: a gate becomes signed only by an approval that passed every
  check, an approval is checkpointed before the next gate runs, reopening takes signatures back, a
  delivery is released exactly when the release checks hold. Evidence: the strict check means a
  verified chain, signatures of the required roles over the present bytes and no revocation; signing
  keeps the hash of a document; a proof of a build holds exactly for the tree that was verified.
  Policy: a write or command that is allowed under a strict policy passed each check, and a stricter
  policy allows no more. Agent: a write that lands was allowed in the state it met, went where the
  check looked, and was scanned; under the strict policy a command leaves every protected file that the
  snapshots see as it was; the ledger has one entry for every call and one for every change; a run ends,
  keeps its budget, and is not completed without a tool call. Build: a completed build ended on a green suite and on the approval of both
  reviewers; the number of model dispatches is bounded by the configuration; what the metrics report
  as repairs is what was dispatched; nothing is built on a failed prerequisite; the progress gate
  stops any run that does not grow the set of cases that pass together. Validation and repair: a
  delivery closes exactly when nothing blocks it, and then the frozen tests ran; the repair loop keeps
  its budget, leaves evidence of each cycle, and regenerates the failing files with their own
  diagnostics. Lock: at most one owner as long as no lock file is removed under a reader, and a crash
  does not block the next process. Closeout: a delivery that stays ready has the bytes of its proof, and no
  file below a source root that was not there. Plan: the validation reports no error exactly for a well-formed
  plan without a dependency cycle; a plan that satisfies the contract of Gate 2 has a test in the workspace for
  every task, and each is frozen; no acceptance criterion is lost on the way to the tasks. Agents outside: an accepted
  result stayed in its scope, as far as paths are compared as text; a dispatch is admitted only on an active
  gate or a complete packet; pruning spares the tasks in use. Lemmas named in the manifest's findings show behaviour that
  departs from what the code means to do.

  \<^bold>\<open>Bounds.\<close> Loops of the code with a fixed bound recurse on it: three attempts at the lock, two
  completion retries of a gate (\<open>MAX_GATE_COMPLETION_RETRIES\<close>), \<open>RUNAWAY_GUARD\<close> 1000 for the fix and the
  integration loop, the fix cycles for the definition of done and for reviews, the resolved budget
  for repairs. These bounds are in the code, so no fuel is added to it. \<open>drain\<close> of the worker pool has
  fuel, and \<open>drain_terminates\<close> shows how much is enough. The loop of an agent has fuel, one unit for
  each turn; \<open>agent_run_ends\<close> shows that the tool-call limit, two reprompts, two continuations and one
  more are enough. The search for cycles has fuel, its depth; \<open>validate_tasks_iff_valid\<close> shows that the number of tasks is enough.

  \<^bold>\<open>Not modelled.\<close> The providers and the choice of models (\<open>product/agent_dispatch.py\<close>), sandboxes and the dependency broker, the templates and rules of product generation
  (\<open>product/generation.py\<close>, \<open>product/stacks.py\<close>, \<open>product/design.py\<close>), keyword extraction and document
  rendering, the command line, the IPC server and the panel beyond the wave commands, and the
  benchmark driver: they are prompts, text templates, network and process glue. The parsers of
  compiler output and the rules of the definition of done are arguments of the build. Of the later
  phases of a delivery, the acceptance, review and closeout reports are not modelled; they render evidence that the
  modelled parts produce.
\<close>

end
